(* ===== verification/Prelude.thy ===== *)
theory Prelude imports Main "HOL-Library.Word" begin

text \<open>
  Shared vocabulary of the development: JavaScript strings as lists of UTF-16 code units, JavaScript
  integers with \<open>NaN\<close>, the string and number functions of the language's standard library that the
  sources use, fallible results, and generic lemmas on lists and maps.

  \<^item> A JavaScript string is a list of code units, \<open>jstr\<close>; a literal is written \<open>js ''OK''\<close>.
  \<^item> A number that the code keeps integral is \<open>jsnum\<close>: \<open>NaN\<close>, or \<open>Num\<close> of an integer. Numbers that can
    be neither \<open>NaN\<close> nor negative are plain \<open>nat\<close> or \<open>int\<close> in the component theories.
  \<^item> A function that throws returns \<open>'e + 'a\<close>: \<open>Inl\<close> is the thrown error, \<open>Inr\<close> the result.
  \<^item> \<open>js_toUpper\<close> and \<open>js_toLower\<close> convert the ASCII letters and leave every other code unit alone. The
    sources call \<open>toUpperCase\<close> on AT commands and PDU hex, which are ASCII.
\<close>

unbundle bit_operations_syntax

named_theorems js_eval \<open>unfolding of library functions on closed arguments\<close>

section \<open>Strings\<close>

type_synonym jstr = "nat list"

definition js :: "string \<Rightarrow> jstr" where
  "js s = map of_char s"

lemma js_Nil [simp]: "js [] = []"
  by (simp add: js_def)

lemma js_Cons: "js (c # s) = of_char c # js s"
  by (simp add: js_def)

lemma js_append [simp]: "js (s @ t) = js s @ js t"
  by (simp add: js_def)

lemma length_js [simp]: "length (js s) = length s"
  by (simp add: js_def)

lemma js_inject [simp]: "js s = js t \<longleftrightarrow> s = t"
  by (auto simp: js_def inj_map_eq_map [OF inj_of_char])

lemma js_eq_Nil [simp]: "js s = [] \<longleftrightarrow> s = []" "[] = js s \<longleftrightarrow> s = []"
  by (auto simp: js_def)

lemma js_lt_256: "u \<in> set (js s) \<Longrightarrow> u < 256"
  by (auto simp: js_def)

definition js_startsWith :: "jstr \<Rightarrow> jstr \<Rightarrow> bool" where
  "js_startsWith s p \<longleftrightarrow> take (length p) s = p"

definition js_endsWith :: "jstr \<Rightarrow> jstr \<Rightarrow> bool" where
  "js_endsWith s p \<longleftrightarrow> length p \<le> length s \<and> drop (length s - length p) s = p"

lemma js_startsWith_append [simp]: "js_startsWith (p @ s) p"
  by (simp add: js_startsWith_def)

lemma js_startsWith_iff: "js_startsWith s p \<longleftrightarrow> (\<exists>t. s = p @ t)"
  by (metis append_eq_conv_conj append_take_drop_id js_startsWith_def)

lemma js_endsWith_iff: "js_endsWith s p \<longleftrightarrow> (\<exists>t. s = t @ p)"
proof
  assume "js_endsWith s p"
  then have "s = take (length s - length p) s @ p"
    by (metis append_take_drop_id js_endsWith_def)
  then show "\<exists>t. s = t @ p" ..
next
  assume "\<exists>t. s = t @ p"
  then show "js_endsWith s p" by (auto simp: js_endsWith_def)
qed

text \<open>\<open>indexOf\<close>: the first position at which the pattern occurs, \<open>None\<close> for -1.\<close>

fun js_indexOf :: "jstr \<Rightarrow> jstr \<Rightarrow> nat option" where
  "js_indexOf [] p = (if p = [] then Some 0 else None)"
| "js_indexOf (c # s) p =
     (if js_startsWith (c # s) p then Some 0 else map_option Suc (js_indexOf s p))"

lemma js_indexOf_Some:
  "js_indexOf s p = Some i \<Longrightarrow> i + length p \<le> length s \<and> s = take i s @ p @ drop (i + length p) s"
proof (induction s p arbitrary: i rule: js_indexOf.induct)
  case (1 p)
  then show ?case by (auto split: if_splits)
next
  case (2 c s p)
  show ?case
  proof (cases "js_startsWith (c # s) p")
    case True
    with "2.prems" have i: "i = 0" by simp
    from True obtain t where "c # s = p @ t" by (auto simp: js_startsWith_iff)
    with i show ?thesis by (auto simp: \<open>c # s = p @ t\<close>)
  next
    case False
    with "2.prems" obtain j where j: "js_indexOf s p = Some j" "i = Suc j" by auto
    from "2.IH" [OF False j(1)] j(2) show ?thesis by simp
  qed
qed

lemma js_indexOf_None_iff: "js_indexOf s p = None \<longleftrightarrow> (\<forall>x y. s \<noteq> x @ p @ y)"
proof (induction s p rule: js_indexOf.induct)
  case (1 p)
  then show ?case by auto
next
  case (2 c s p)
  show ?case
  proof (cases "js_startsWith (c # s) p")
    case True
    then show ?thesis by (auto simp: js_startsWith_iff) (metis append_Nil)
  next
    case False
    have "(\<forall>x y. c # s \<noteq> x @ p @ y) \<longleftrightarrow> (\<forall>x y. s \<noteq> x @ p @ y)"
    proof
      assume "\<forall>x y. s \<noteq> x @ p @ y"
      moreover have "\<forall>y. c # s \<noteq> p @ y" using False by (auto simp: js_startsWith_iff)
      ultimately show "\<forall>x y. c # s \<noteq> x @ p @ y" by (metis append_eq_Cons_conv)
    qed (metis append_Cons)
    with False "2.IH" show ?thesis by simp
  qed
qed

fun js_trimStart_by :: "(nat \<Rightarrow> bool) \<Rightarrow> jstr \<Rightarrow> jstr" where
  "js_trimStart_by ws [] = []"
| "js_trimStart_by ws (c # s) = (if ws c then js_trimStart_by ws s else c # s)"

text \<open>White space and line terminators of ECMAScript (\<open>trim\<close>, \<open>parseInt\<close>, and \<open>\s\<close> in regular expressions).\<close>

definition js_white :: "nat \<Rightarrow> bool" where
  "js_white c \<longleftrightarrow> c \<in> {9, 10, 11, 12, 13, 32, 160, 5760, 8232, 8233, 8239, 8287, 12288, 65279}
     \<or> (8192 \<le> c \<and> c \<le> 8202)"

definition js_trimStart :: "jstr \<Rightarrow> jstr" where
  "js_trimStart s = js_trimStart_by js_white s"

definition js_trim :: "jstr \<Rightarrow> jstr" where
  "js_trim s = rev (js_trimStart (rev (js_trimStart s)))"

definition js_upper1 :: "nat \<Rightarrow> nat" where
  "js_upper1 c = (if 97 \<le> c \<and> c \<le> 122 then c - 32 else c)"

definition js_lower1 :: "nat \<Rightarrow> nat" where
  "js_lower1 c = (if 65 \<le> c \<and> c \<le> 90 then c + 32 else c)"

definition js_toUpper :: "jstr \<Rightarrow> jstr" where
  "js_toUpper s = map js_upper1 s"

definition js_toLower :: "jstr \<Rightarrow> jstr" where
  "js_toLower s = map js_lower1 s"

lemma length_js_toUpper [simp]: "length (js_toUpper s) = length s"
  by (simp add: js_toUpper_def)

lemma js_toUpper_Nil [simp]: "js_toUpper [] = []"
  by (simp add: js_toUpper_def)

lemma js_toUpper_append [simp]: "js_toUpper (s @ t) = js_toUpper s @ js_toUpper t"
  by (simp add: js_toUpper_def)

section \<open>Numbers\<close>

datatype jsnum = NaN | Num int

text \<open>Bitwise operators first convert with \<open>ToInt32\<close>, which sends \<open>NaN\<close> to 0 and wraps at 32 bits.\<close>

fun js_int32 :: "jsnum \<Rightarrow> int" where
  "js_int32 NaN = 0"
| "js_int32 (Num x) = signed_take_bit 31 x"

fun js_plus :: "jsnum \<Rightarrow> jsnum \<Rightarrow> jsnum" where
  "js_plus (Num x) (Num y) = Num (x + y)"
| "js_plus _ _ = NaN"

fun js_times :: "jsnum \<Rightarrow> jsnum \<Rightarrow> jsnum" where
  "js_times (Num x) (Num y) = Num (x * y)"
| "js_times _ _ = NaN"

text \<open>Every comparison with \<open>NaN\<close> is false.\<close>

fun js_less :: "jsnum \<Rightarrow> jsnum \<Rightarrow> bool" where
  "js_less (Num x) (Num y) = (x < y)"
| "js_less _ _ = False"

fun js_strict_eq :: "jsnum \<Rightarrow> jsnum \<Rightarrow> bool" where
  "js_strict_eq (Num x) (Num y) = (x = y)"
| "js_strict_eq _ _ = False"

lemma js_int32_small [simp]: "- (2 ^ 31) \<le> x \<Longrightarrow> x < 2 ^ 31 \<Longrightarrow> js_int32 (Num x) = x"
  by (simp add: signed_take_bit_int_eq_self)

text \<open>Argument of \<open>slice\<close>: \<open>NaN\<close> counts as 0, a negative index from the end, and both are clamped.\<close>

fun js_rel_index :: "nat \<Rightarrow> jsnum \<Rightarrow> nat" where
  "js_rel_index len NaN = 0"
| "js_rel_index len (Num x) = (if x < 0 then nat (int len + x) else min (nat x) len)"

definition js_slice :: "jstr \<Rightarrow> jsnum \<Rightarrow> jsnum \<Rightarrow> jstr" where
  "js_slice s a b =
     (let i = js_rel_index (length s) a; j = js_rel_index (length s) b in drop i (take j s))"

definition js_slice_from :: "jstr \<Rightarrow> jsnum \<Rightarrow> jstr" where
  "js_slice_from s a = drop (js_rel_index (length s) a) s"

lemma js_slice_nat [simp]: "js_slice s (Num (int i)) (Num (int j)) = drop i (take j s)"
  by (simp add: js_slice_def min_def)

lemma js_slice_from_nat [simp]: "js_slice_from s (Num (int i)) = drop i s"
  by (simp add: js_slice_from_def min_def)

subsection \<open>\<open>parseInt\<close>\<close>

definition js_digit :: "nat \<Rightarrow> nat option" where
  "js_digit c =
     (if 48 \<le> c \<and> c \<le> 57 then Some (c - 48)
      else if 65 \<le> c \<and> c \<le> 90 then Some (c - 55)
      else if 97 \<le> c \<and> c \<le> 122 then Some (c - 87)
      else None)"

definition js_is_digit :: "nat \<Rightarrow> nat \<Rightarrow> bool" where
  "js_is_digit radix c = (case js_digit c of None \<Rightarrow> False | Some d \<Rightarrow> d < radix)"

definition js_digits_value :: "nat \<Rightarrow> jstr \<Rightarrow> nat" where
  "js_digits_value radix s = foldl (\<lambda>v c. v * radix + the (js_digit c)) 0 s"

text \<open>The radixes used by the sources are 2, 10 and 16; only 16 strips a \<open>0x\<close> prefix.\<close>

definition js_parseInt :: "nat \<Rightarrow> jstr \<Rightarrow> jsnum" where
  "js_parseInt radix s =
     (let t = js_trimStart s;
          neg = (case t of c # _ \<Rightarrow> c = 45 | [] \<Rightarrow> False);
          u = (case t of c # r \<Rightarrow> if c = 45 \<or> c = 43 then r else t | [] \<Rightarrow> []);
          v = (if radix = 16 \<and> (take 2 u = js ''0x'' \<or> take 2 u = js ''0X'') then drop 2 u else u);
          ds = takeWhile (js_is_digit radix) v
      in if ds = [] then NaN
         else Num (if neg then - int (js_digits_value radix ds) else int (js_digits_value radix ds)))"

subsection \<open>Printing numbers\<close>

fun js_digit_char :: "nat \<Rightarrow> nat" where
  "js_digit_char d = (if d < 10 then 48 + d else 87 + d)"

function js_toString :: "nat \<Rightarrow> nat \<Rightarrow> jstr" where
  "js_toString radix n =
     (if n < radix \<or> radix < 2 then [js_digit_char n]
      else js_toString radix (n div radix) @ [js_digit_char (n mod radix)])"
  by pat_completeness auto

termination
  by (relation "measure snd") auto

declare js_toString.simps [simp del]

definition js_padStart :: "nat \<Rightarrow> nat \<Rightarrow> jstr \<Rightarrow> jstr" where
  "js_padStart n c s = replicate (n - length s) c @ s"

definition js_show_int :: "int \<Rightarrow> jstr" where
  "js_show_int i =
     (if i < 0 then 45 # js_toString 10 (nat (- i)) else js_toString 10 (nat i))"

lemma js_toString_small [simp]: "n < radix \<Longrightarrow> js_toString radix n = [js_digit_char n]"
  by (subst js_toString.simps) simp

lemma js_toString_step:
  "radix \<le> n \<Longrightarrow> 2 \<le> radix \<Longrightarrow>
    js_toString radix n = js_toString radix (n div radix) @ [js_digit_char (n mod radix)]"
  by (subst js_toString.simps) simp

text \<open>Printing a number in a radix up to ten and parsing it again, zeros before it included, gives it back.\<close>

lemma js_digits_value_snoc: "js_digits_value radix (s @ [c]) = js_digits_value radix s * radix + the (js_digit c)"
  by (simp add: js_digits_value_def)

lemma js_digits_value_zeros: "js_digits_value radix (replicate k 48 @ s) = js_digits_value radix s"
  by (induction k) (simp_all add: js_digits_value_def js_digit_def)

lemma js_toString_digits:
  assumes "2 \<le> radix" "radix \<le> 10"
  shows "js_digits_value radix (js_toString radix n) = n \<and> list_all (\<lambda>c. 48 \<le> c \<and> c < 48 + radix) (js_toString radix n)
    \<and> js_toString radix n \<noteq> []"
proof (induction n rule: less_induct)
  case (less n)
  have digit: "js_digit (48 + d) = Some d" if "d < 10" for d
    using that by (simp add: js_digit_def)
  show ?case
  proof (cases "n < radix")
    case True
    then show ?thesis using assms by (simp add: js_digits_value_def digit)
  next
    case False
    then have "n div radix < n" using assms by simp
    moreover have "n mod radix < radix" "n mod radix < 10" using assms mod_less_divisor[of radix n] by linarith+
    ultimately show ?thesis
      using less[of "n div radix"] False assms by (simp add: js_toString_step js_digits_value_snoc digit)
  qed
qed

lemma js_toString_decimal:
  "js_digits_value 10 (js_toString 10 n) = n \<and> list_all (\<lambda>c. 48 \<le> c \<and> c \<le> 57) (js_toString 10 n)
    \<and> js_toString 10 n \<noteq> []"
  using js_toString_digits[of 10 n] by (auto simp: list_all_iff)

lemma length_js_toString: "2 \<le> radix \<Longrightarrow> n < radix ^ Suc k \<Longrightarrow> length (js_toString radix n) \<le> Suc k"
proof (induction k arbitrary: n)
  case (Suc k)
  show ?case
  proof (cases "n < radix")
    case False
    then have "n div radix < radix ^ Suc k" using Suc.prems by (simp add: less_mult_imp_div_less mult.commute)
    then show ?thesis using Suc.IH[of "n div radix"] Suc.prems(1) False by (simp add: js_toString_step)
  qed simp
qed simp

lemma js_parse_padded:
  assumes "2 \<le> radix" "radix \<le> 10"
  shows "js_parseInt radix (replicate k 48 @ js_toString radix n) = Num (int n)"
proof -
  let ?s = "replicate k 48 @ js_toString radix n"
  have d: "list_all (\<lambda>c. 48 \<le> c \<and> c < 48 + radix) ?s" "?s \<noteq> []" "js_digits_value radix ?s = n"
    using js_toString_digits[OF assms, of n] assms by (auto simp: list_all_iff js_digits_value_zeros)
  then obtain c r where s: "?s = c # r" by (cases ?s) auto
  with d have c: "48 \<le> c" "c < 48 + radix" by auto
  have "js_is_digit radix x" if "x \<in> set ?s" for x
  proof -
    have "48 \<le> x" "x < 48 + radix" using that d(1) unfolding list_all_iff by blast+
    then show ?thesis using assms by (auto simp: js_is_digit_def js_digit_def)
  qed
  then have "takeWhile (js_is_digit radix) ?s = ?s" by (simp add: takeWhile_eq_all_conv)
  moreover from c assms have "\<not> js_white c" "c \<noteq> 45" "c \<noteq> 43" by (auto simp: js_white_def)
  ultimately show ?thesis
    using d(3) s assms(2) by (simp add: js_parseInt_def js_trimStart_def)
qed

lemma js_parse_decimal: "js_parseInt 10 (js_toString 10 n) = Num (int n)"
  using js_parse_padded[of 10 0 n] by simp

section \<open>Maps\<close>

text \<open>
  A map of the language, which iterates in the order of insertion, is an association list. Setting a key
  keeps its place, or adds it at the end.
\<close>

fun map_set :: "'k \<Rightarrow> 'v \<Rightarrow> ('k \<times> 'v) list \<Rightarrow> ('k \<times> 'v) list" where
  "map_set k v [] = [(k, v)]"
| "map_set k v ((k', v') # m) = (if k = k' then (k, v) # m else (k', v') # map_set k v m)"

lemma map_of_map_set: "map_of (map_set k v m) = (map_of m)(k \<mapsto> v)"
  by (induction k v m rule: map_set.induct) auto

lemma keys_map_set: "map fst (map_set k v m) = map fst m @ (if k \<in> fst ` set m then [] else [k])"
  by (induction k v m rule: map_set.induct) auto

definition map_delete :: "'k \<Rightarrow> ('k \<times> 'v) list \<Rightarrow> ('k \<times> 'v) list" where
  "map_delete k m = filter (\<lambda>e. fst e \<noteq> k) m"

lemma map_of_filter_key: "map_of (filter (\<lambda>e. fst e \<noteq> k) m) = (map_of m)(k := None)"
  by (induction m) auto

lemma map_of_delete: "map_of (map_delete k m) = (map_of m)(k := None)"
  unfolding map_delete_def by (rule map_of_filter_key)

text \<open>Filling a map from a list: the last element with a key stays.\<close>

definition last_with :: "('a \<Rightarrow> 'k) \<Rightarrow> 'k \<Rightarrow> 'a list \<Rightarrow> 'a option" where
  "last_with f k xs = find (\<lambda>x. f x = k) (rev xs)"

lemma last_with_snoc: "last_with f k (xs @ [x]) = (if f x = k then Some x else last_with f k xs)"
  by (simp add: last_with_def)

lemma last_with_key: "last_with f k xs = Some x \<Longrightarrow> f x = k \<and> x \<in> set xs"
  by (induction xs rule: rev_induct) (auto simp: last_with_snoc last_with_def split: if_splits)

definition map_fill :: "('a \<Rightarrow> 'k) \<Rightarrow> 'a list \<Rightarrow> ('k \<times> 'a) list \<Rightarrow> ('k \<times> 'a) list" where
  "map_fill f xs m = foldl (\<lambda>m x. map_set (f x) x m) m xs"

lemma map_fill_append: "map_fill f (xs @ ys) m = map_fill f ys (map_fill f xs m)"
  by (simp add: map_fill_def)

lemma map_of_map_fill: "map_of (map_fill f xs []) k = last_with f k xs"
  by (induction xs rule: rev_induct) (auto simp: map_fill_def last_with_def map_of_map_set)

lemma distinct_map_fill: "distinct (map fst (map_fill f xs []))"
  by (induction xs rule: rev_induct) (auto simp: map_fill_def keys_map_set)

lemma set_map_fill: "set (map_fill f xs []) = {(k, x). last_with f k xs = Some x}"
proof -
  have "(k, x) \<in> set (map_fill f xs []) \<longleftrightarrow> last_with f k xs = Some x" for k x
    using map_of_eq_Some_iff[OF distinct_map_fill[of f xs], of k x] by (simp add: map_of_map_fill)
  then show ?thesis by auto
qed

section \<open>Stable sorting\<close>

lemma find_insort_key:
  assumes "sorted (map f ys)"
  shows "find P (insort_key f x ys) =
    (if P x then (case find P ys of None \<Rightarrow> Some x | Some d \<Rightarrow> if f x \<le> f d then Some x else Some d) else find P ys)"
  using assms
proof (induction ys)
  case (Cons y ys)
  have "f y \<le> f d" if "find P ys = Some d" for d
    using that Cons.prems by (auto simp: find_Some_iff)
  then show ?case using Cons by (auto split: option.splits)
qed simp

text \<open>The first element with a property in a stably sorted list: the one with the least key, the earliest of several.\<close>

lemma find_sort_key:
  "case find P (sort_key f xs) of
     None \<Rightarrow> \<forall>x\<in>set xs. \<not> P x
   | Some d \<Rightarrow> P d \<and> (\<exists>before after. xs = before @ d # after \<and> (\<forall>x\<in>set before. P x \<longrightarrow> f d < f x) \<and> (\<forall>x\<in>set after. P x \<longrightarrow> f d \<le> f x))"
proof (induction xs)
  case (Cons x xs)
  have step: "find P (sort_key f (x # xs)) = (if P x then (case find P (sort_key f xs) of None \<Rightarrow> Some x
      | Some d \<Rightarrow> if f x \<le> f d then Some x else Some d) else find P (sort_key f xs))"
    by (simp add: find_insort_key sorted_sort_key del: insort_key.simps)
  show ?case
  proof (cases "find P (sort_key f xs)")
    case None
    then show ?thesis unfolding step using Cons.IH by fastforce
  next
    case (Some d)
    then obtain before after where d: "P d" "xs = before @ d # after"
        "\<forall>x\<in>set before. P x \<longrightarrow> f d < f x" "\<forall>x\<in>set after. P x \<longrightarrow> f d \<le> f x"
      using Cons.IH by auto
    show ?thesis
    proof (cases "P x \<and> f x \<le> f d")
      case True
      then have "\<forall>y\<in>set xs. P y \<longrightarrow> f x \<le> f y" using d by fastforce
      then have "\<exists>before after. x # xs = before @ x # after \<and> (\<forall>y\<in>set before. P y \<longrightarrow> f x < f y) \<and> (\<forall>y\<in>set after. P y \<longrightarrow> f x \<le> f y)"
        by (intro exI[of _ "[]"] exI[of _ xs]) simp
      then show ?thesis unfolding step using True Some by simp
    next
      case False
      then have "\<exists>before after. x # xs = before @ d # after \<and> (\<forall>y\<in>set before. P y \<longrightarrow> f d < f y) \<and> (\<forall>y\<in>set after. P y \<longrightarrow> f d \<le> f y)"
        using d by (intro exI[of _ "x # before"] exI[of _ after]) auto
      then show ?thesis unfolding step using False Some d(1) by auto
    qed
  qed
qed simp

section \<open>Fallible results\<close>

definition ebind :: "'e + 'a \<Rightarrow> ('a \<Rightarrow> 'e + 'b) \<Rightarrow> 'e + 'b" where
  "ebind m f = (case m of Inl e \<Rightarrow> Inl e | Inr x \<Rightarrow> f x)"

lemma ebind_simps [simp]: "ebind (Inl e) f = Inl e" "ebind (Inr x) f = f x"
  by (simp_all add: ebind_def)

lemma ebind_eq_Inr: "ebind m f = Inr y \<longleftrightarrow> (\<exists>x. m = Inr x \<and> f x = Inr y)"
  by (cases m) auto

lemma ebind_eq_Inl: "ebind m f = Inl e \<longleftrightarrow> m = Inl e \<or> (\<exists>x. m = Inr x \<and> f x = Inl e)"
  by (cases m) auto

lemma ebind_cong [fundef_cong]:
  "m = m' \<Longrightarrow> (\<And>x. m' = Inr x \<Longrightarrow> f x = f' x) \<Longrightarrow> ebind m f = ebind m' f'"
  by (cases m') auto

section \<open>Generic lemmas\<close>

lemma take_drop_self: "n \<le> length s \<Longrightarrow> take n s @ drop n s = s"
  by simp

lemma nth_append_take_drop [simp]: "length (take n xs @ drop n xs) = length xs"
  by simp

text \<open>The operator \<open>??\<close>.\<close>

definition or_else :: "'a option \<Rightarrow> 'a \<Rightarrow> 'a" where
  "or_else x d = (case x of None \<Rightarrow> d | Some y \<Rightarrow> y)"

section \<open>Bit fields\<close>

lemma or_push_add:
  assumes "buffer < 2 ^ bits"
  shows "buffer OR push_bit bits s = buffer + 2 ^ bits * (s :: nat)"
proof -
  have "int (buffer OR push_bit bits s) = concat_bit bits (int buffer) (int s)"
    using assms by (simp add: of_nat_or_eq of_nat_push_bit concat_bit_def take_bit_int_eq_self)
  also have "\<dots> = int (buffer + 2 ^ bits * s)"
    using assms by (simp add: concat_bit_eq take_bit_int_eq_self push_bit_eq_mult mult.commute)
  finally show ?thesis by (simp only: of_nat_eq_iff)
qed

lemma and_255: "(c :: nat) AND 255 = c mod 256"
  using take_bit_eq_mask [of 8 c] by (simp add: mask_eq_exp_minus_1 take_bit_eq_mod)

end
