(* ===== verification/Machines.thy ===== *)
theory Machines imports Prelude begin

text \<open>
  The interface every stateful component of the model offers: a step function from a state and an
  event to the next state and the list of observable actions. \<open>mrun\<close> runs a list of events. The
  locale \<open>machine\<close> says that an invariant holds initially and is kept by every step, and lifts it to
  runs; \<open>simulation\<close> says that an abstraction function maps every step to a step of an abstract machine.
\<close>

fun mrun :: "('s \<Rightarrow> 'e \<Rightarrow> 's \<times> 'o list) \<Rightarrow> 's \<Rightarrow> 'e list \<Rightarrow> 's \<times> 'o list" where
  "mrun step s [] = (s, [])"
| "mrun step s (e # es) =
     (let (s', out) = step s e; (s'', out') = mrun step s' es in (s'', out @ out'))"

lemma mrun_append:
  "mrun step s (es @ fs) =
    (let (s', out) = mrun step s es; (s'', out') = mrun step s' fs in (s'', out @ out'))"
  by (induction es arbitrary: s) (simp_all add: Let_def split_beta)

lemma mrun_Cons_fst: "fst (mrun step s (e # es)) = fst (mrun step (fst (step s e)) es)"
  by (simp add: split_beta Let_def)

lemma mrun_Cons_snd:
  "snd (mrun step s (e # es)) = snd (step s e) @ snd (mrun step (fst (step s e)) es)"
  by (simp add: split_beta Let_def)

lemmas mrun_Cons = mrun_Cons_fst mrun_Cons_snd

text \<open>A property of states that every step keeps, with a property of the actions that it implies.\<close>

lemma mrun_safe:
  assumes "\<And>s e. e \<in> set es \<Longrightarrow> I s \<Longrightarrow> I (fst (step s e)) \<and> (\<forall>a\<in>set (snd (step s e)). Q a)" and "I s"
  shows "I (fst (mrun step s es)) \<and> (\<forall>a\<in>set (snd (mrun step s es)). Q a)"
  using assms
proof (induction es arbitrary: s)
  case (Cons e es)
  have first: "I (fst (step s e)) \<and> (\<forall>a\<in>set (snd (step s e)). Q a)"
    by (rule Cons.prems(1)) (simp_all add: Cons.prems(2))
  then have "I (fst (mrun step (fst (step s e)) es)) \<and> (\<forall>a\<in>set (snd (mrun step (fst (step s e)) es)). Q a)"
    using Cons.IH[of "fst (step s e)"] Cons.prems(1) by (meson list.set_intros(2))
  with first show ?case by (auto simp: mrun_Cons simp del: mrun.simps)
qed simp

locale machine =
  fixes step :: "'s \<Rightarrow> 'e \<Rightarrow> 's \<times> 'o list"
    and init :: "'s \<Rightarrow> bool"
    and inv :: "'s \<Rightarrow> bool"
  assumes init_inv: "init s \<Longrightarrow> inv s"
    and step_inv: "inv s \<Longrightarrow> inv (fst (step s e))"
begin

lemma run_inv_from: "inv s \<Longrightarrow> inv (fst (mrun step s es))"
  by (induction es arbitrary: s) (simp_all add: mrun_Cons step_inv del: mrun.simps(2))

lemma run_inv: "init s \<Longrightarrow> inv (fst (mrun step s es))"
  by (rule run_inv_from) (rule init_inv)

lemma run_output:
  assumes "inv s"
    and "\<And>t e o'. inv t \<Longrightarrow> o' \<in> set (snd (step t e)) \<Longrightarrow> P o'"
    and "a \<in> set (snd (mrun step s es))"
  shows "P a"
  using assms(1,3)
proof (induction es arbitrary: s)
  case Nil
  then show ?case by simp
next
  case (Cons e es)
  have next_inv: "inv (fst (step s e))" using Cons.prems(1) by (rule step_inv)
  from Cons.prems(2) consider "a \<in> set (snd (step s e))"
    | "a \<in> set (snd (mrun step (fst (step s e)) es))"
    by (auto simp: mrun_Cons simp del: mrun.simps(2))
  then show ?case
    using assms(2) Cons.IH [OF next_inv] Cons.prems(1) by cases blast+
qed

end

locale simulation = machine step init inv
  for step :: "'s \<Rightarrow> 'e \<Rightarrow> 's \<times> 'o list" and init inv +
  fixes astep :: "'a \<Rightarrow> 'e \<Rightarrow> 'a \<times> 'p list"
    and abs_state :: "'s \<Rightarrow> 'a"
    and abs_out :: "'o \<Rightarrow> 'p list"
    and enabled :: "'e \<Rightarrow> bool"
  assumes step_abs:
    "inv s \<Longrightarrow> enabled e \<Longrightarrow>
      astep (abs_state s) e = (abs_state (fst (step s e)), concat (map abs_out (snd (step s e))))"
begin

lemma run_abs:
  assumes "inv s" and "\<forall>e \<in> set es. enabled e"
  shows "mrun astep (abs_state s) es =
    (abs_state (fst (mrun step s es)), concat (map abs_out (snd (mrun step s es))))"
  using assms
proof (induction es arbitrary: s)
  case Nil
  then show ?case by simp
next
  case (Cons e es)
  from Cons.prems have "inv (fst (step s e))" by (simp add: step_inv)
  from Cons.IH [OF this] Cons.prems show ?case
    by (simp add: step_abs Let_def split_beta)
qed

end

end
