(* ===== verification/Line_Assembler.thy ===== *)
theory Line_Assembler imports Machines begin

text \<open>
  \<^verbatim>\<open>packages/core/src/protocols/at/channel/line-assembler.ts\<close>: the buffer that cuts the byte stream of
  a modem into lines. The state is the class's only mutable field, \<open>buffer\<close>; the two callbacks are
  the actions \<open>OnLine\<close> and \<open>OnPrompt\<close>. A chunk is either a string or bytes, which go through
  \<open>TextDecoder.decode\<close> (UTF-8, replacement of malformed input, a leading byte order mark dropped)
  without the \<open>stream\<close> option, so a chunk is decoded on its own.
\<close>

section \<open>UTF-8 decoding of one chunk\<close>

type_synonym u8s = "nat list"

record utf8_state =
  utf8_needed :: nat
  utf8_cp :: nat
  utf8_lo :: nat
  utf8_hi :: nat

definition utf8_idle :: utf8_state where
  "utf8_idle = \<lparr>utf8_needed = 0, utf8_cp = 0, utf8_lo = 128, utf8_hi = 191\<rparr>"

definition utf8_lead :: "nat \<Rightarrow> nat list \<times> utf8_state" where
  "utf8_lead b =
     (if b \<le> 127 then ([b], utf8_idle)
      else if 194 \<le> b \<and> b \<le> 223 then
        ([], \<lparr>utf8_needed = 1, utf8_cp = b mod 32, utf8_lo = 128, utf8_hi = 191\<rparr>)
      else if 224 \<le> b \<and> b \<le> 239 then
        ([], \<lparr>utf8_needed = 2, utf8_cp = b mod 16, utf8_lo = (if b = 224 then 160 else 128),
              utf8_hi = (if b = 237 then 159 else 191)\<rparr>)
      else if 240 \<le> b \<and> b \<le> 244 then
        ([], \<lparr>utf8_needed = 3, utf8_cp = b mod 8, utf8_lo = (if b = 240 then 144 else 128),
              utf8_hi = (if b = 244 then 143 else 191)\<rparr>)
      else ([65533], utf8_idle))"

fun utf8_run :: "utf8_state \<Rightarrow> u8s \<Rightarrow> nat list" where
  "utf8_run st [] = (if utf8_needed st = 0 then [] else [65533])"
| "utf8_run st (b # bs) =
     (if utf8_needed st = 0 then
        (let (out, st') = utf8_lead b in out @ utf8_run st' bs)
      else if b < utf8_lo st \<or> utf8_hi st < b then
        (let (out, st') = utf8_lead b in 65533 # out @ utf8_run st' bs)
      else
        (let cp = utf8_cp st * 64 + b mod 64
         in if utf8_needed st = 1 then cp # utf8_run utf8_idle bs
            else utf8_run \<lparr>utf8_needed = utf8_needed st - 1, utf8_cp = cp, utf8_lo = 128, utf8_hi = 191\<rparr> bs))"

definition utf16_units :: "nat \<Rightarrow> jstr" where
  "utf16_units cp =
     (if cp < 65536 then [cp]
      else [55296 + (cp - 65536) div 1024, 56320 + (cp - 65536) mod 1024])"

definition text_decode :: "u8s \<Rightarrow> jstr" where
  "text_decode bs =
     (let cps = utf8_run utf8_idle bs
      in concat (map utf16_units (case cps of c # r \<Rightarrow> if c = 65279 then r else cps | [] \<Rightarrow> [])))"

lemma utf8_run_ascii: "\<forall>b \<in> set bs. b \<le> 127 \<Longrightarrow> utf8_run utf8_idle bs = bs"
  by (induction bs) (simp_all add: utf8_lead_def utf8_idle_def)

lemma text_decode_ascii [simp]:
  assumes "\<forall>b \<in> set bs. b \<le> 127"
  shows "text_decode bs = bs"
proof -
  have run: "utf8_run utf8_idle bs = bs" using assms by (rule utf8_run_ascii)
  have units: "concat (map utf16_units bs) = bs"
    using assms by (induction bs) (simp_all add: utf16_units_def)
  have "(case bs of c # r \<Rightarrow> if c = 65279 then r else bs | [] \<Rightarrow> []) = bs"
    using assms by (auto split: list.split)
  with run units show ?thesis by (simp add: text_decode_def)
qed

section \<open>The assembler\<close>

definition CRLF :: jstr where "CRLF = [13, 10]"

definition PROMPT :: jstr where "PROMPT = js ''> ''"

datatype assembler_event = OnLine jstr | OnPrompt

datatype chunk = Text jstr | Bytes u8s

definition chunk_text :: "chunk \<Rightarrow> jstr" where
  "chunk_text c = (case c of Text s \<Rightarrow> s | Bytes bs \<Rightarrow> text_decode bs)"

text \<open>A trailing carriage return is stripped from the raw line.\<close>

definition strip_cr :: "jstr \<Rightarrow> jstr" where
  "strip_cr raw = (if js_endsWith raw [13] then take (length raw - 1) raw else raw)"

text \<open>The loop of \<open>drain\<close>: lines in order, and what is left in the buffer.\<close>

function drain_lines :: "jstr \<Rightarrow> jstr list \<times> jstr" where
  "drain_lines buf =
     (case js_indexOf buf CRLF of
        None \<Rightarrow> ([], buf)
      | Some idx \<Rightarrow>
          (let (ls, rest) = drain_lines (drop (idx + 2) buf) in (strip_cr (take idx buf) # ls, rest)))"
  by pat_completeness auto

termination
proof (relation "measure length")
  show "wf (measure length)" by simp
next
  fix buf :: jstr and idx
  assume "js_indexOf buf CRLF = Some idx"
  from js_indexOf_Some [OF this] show "(drop (idx + 2) buf, buf) \<in> measure length"
    by (auto simp: CRLF_def)
qed

declare drain_lines.simps [simp del]

definition drain :: "jstr \<Rightarrow> jstr \<times> assembler_event list" where
  "drain buf =
     (let (ls, rest) = drain_lines buf
      in if js_endsWith rest PROMPT then ([], map OnLine ls @ [OnPrompt]) else (rest, map OnLine ls))"

definition feed :: "jstr \<Rightarrow> chunk \<Rightarrow> jstr \<times> assembler_event list" where
  "feed buf c = drain (buf @ chunk_text c)"

text \<open>The buffer as a machine: a chunk arrives, or the channel resets the assembler.\<close>

datatype assembler_op = Feed chunk | ResetBuffer

fun assembler_step :: "jstr \<Rightarrow> assembler_op \<Rightarrow> jstr \<times> assembler_event list" where
  "assembler_step buf (Feed c) = feed buf c"
| "assembler_step buf ResetBuffer = ([], [])"

section \<open>Framing\<close>

lemma CRLF_facts [simp]: "CRLF \<noteq> []" "length CRLF = 2"
  by (simp_all add: CRLF_def)

lemma startsWith_CRLF [simp]:
  "js_startsWith (c # s) CRLF \<longleftrightarrow> c = 13 \<and> (\<exists>t. s = 10 # t)"
  by (cases s) (auto simp: CRLF_def js_startsWith_def)

lemma indexOf_no_CR: "13 \<notin> set s \<Longrightarrow> js_indexOf s CRLF = None"
  by (induction s) auto

lemma indexOf_line: "13 \<notin> set l \<Longrightarrow> js_indexOf (l @ 13 # 10 # s) CRLF = Some (length l)"
  by (induction l) auto

lemma indexOf_pty_line: "13 \<notin> set l \<Longrightarrow> js_indexOf (l @ 13 # 13 # 10 # s) CRLF = Some (Suc (length l))"
  by (induction l) auto

lemma strip_cr_no_CR: "13 \<notin> set l \<Longrightarrow> strip_cr l = l"
  by (auto simp: strip_cr_def js_endsWith_iff)

lemma strip_cr_CR: "strip_cr (l @ [13]) = l"
  by (simp add: strip_cr_def js_endsWith_iff)

lemma drain_lines_stop: "js_indexOf buf CRLF = None \<Longrightarrow> drain_lines buf = ([], buf)"
  by (subst drain_lines.simps) simp

lemma drain_lines_step:
  "js_indexOf buf CRLF = Some i \<Longrightarrow>
    drain_lines buf = (strip_cr (take i buf) # fst (drain_lines (drop (i + 2) buf)),
                       snd (drain_lines (drop (i + 2) buf)))"
  by (subst drain_lines.simps) (simp add: split_beta)

lemma drain_lines_line:
  assumes "13 \<notin> set l"
  shows "drain_lines (l @ 13 # 10 # s) = (l # fst (drain_lines s), snd (drain_lines s))"
  using drain_lines_step [OF indexOf_line [OF assms, of s]] assms by (simp add: strip_cr_no_CR)

lemma drain_lines_pty_line:
  assumes "13 \<notin> set l"
  shows "drain_lines (l @ 13 # 13 # 10 # s) = (l # fst (drain_lines s), snd (drain_lines s))"
  using drain_lines_step [OF indexOf_pty_line [OF assms, of s]] by (simp add: strip_cr_CR)

text \<open>After a drain no complete line is left in the buffer.\<close>

lemma drain_lines_rest: "js_indexOf (snd (drain_lines buf)) CRLF = None"
proof (induction buf rule: drain_lines.induct)
  case (1 buf)
  show ?case
  proof (cases "js_indexOf buf CRLF")
    case None
    then show ?thesis by (simp add: drain_lines_stop)
  next
    case (Some i)
    with "1.IH" [OF Some] show ?thesis by (simp add: drain_lines_step [OF Some])
  qed
qed

lemma js_indexOf_append_Some:
  "js_indexOf s p = Some i \<Longrightarrow> js_indexOf (s @ t) p = Some i"
proof (induction s p arbitrary: i rule: js_indexOf.induct)
  case (1 p)
  then show ?case by (cases t) (auto split: if_splits simp: js_startsWith_def)
next
  case (2 c s p)
  show ?case
  proof (cases "js_startsWith (c # s) p")
    case True
    then obtain r where "c # s = p @ r" by (auto simp: js_startsWith_iff)
    then have "js_startsWith (c # s @ t) p" by (metis append.assoc append_Cons js_startsWith_iff)
    with True "2.prems" show ?thesis by simp
  next
    case False
    with "2.prems" obtain j where j: "js_indexOf s p = Some j" "i = Suc j" by auto
    have "length p \<le> length s" using js_indexOf_Some [OF j(1)] by simp
    with False have "\<not> js_startsWith (c # s @ t) p"
      by (auto simp: js_startsWith_def take_Cons split: nat.splits)
    with "2.IH" [OF False j(1)] j(2) show ?thesis by simp
  qed
qed

text \<open>Draining a buffer in two pieces gives the same lines and the same rest as draining it at once.\<close>

lemma drain_lines_append:
  "drain_lines (a @ b) =
    (fst (drain_lines a) @ fst (drain_lines (snd (drain_lines a) @ b)),
     snd (drain_lines (snd (drain_lines a) @ b)))"
proof (induction a rule: drain_lines.induct)
  case (1 a)
  show ?case
  proof (cases "js_indexOf a CRLF")
    case None
    then show ?thesis by (simp add: drain_lines_stop)
  next
    case (Some i)
    have i: "i + 2 \<le> length a" using js_indexOf_Some [OF Some] by (simp add: CRLF_def)
    note split = drain_lines_step [OF js_indexOf_append_Some [OF Some, of b]]
    from i have "drop (i + 2) (a @ b) = drop (i + 2) a @ b" and "take i (a @ b) = take i a"
      by simp_all
    with "1.IH" [OF Some] i show ?thesis
      by (simp only: split drain_lines_step [OF Some] fst_conv snd_conv append_Cons)
  qed
qed

lemma drain_no_prompt:
  "\<not> js_endsWith (snd (drain_lines buf)) PROMPT \<Longrightarrow>
    drain buf = (snd (drain_lines buf), map OnLine (fst (drain_lines buf)))"
  by (simp add: drain_def split_beta)

text \<open>The rest of a drain is a suffix of the buffer.\<close>

lemma drain_lines_suffix: "\<exists>x. buf = x @ snd (drain_lines buf)"
proof (induction buf rule: drain_lines.induct)
  case (1 buf)
  show ?case
  proof (cases "js_indexOf buf CRLF")
    case None
    then show ?thesis by (simp add: drain_lines_stop)
  next
    case (Some i)
    from "1.IH" [OF Some] obtain x where "drop (i + 2) buf = x @ snd (drain_lines (drop (i + 2) buf))"
      by auto
    then have "buf = (take (i + 2) buf @ x) @ snd (drain_lines buf)"
      by (metis Some append.assoc append_take_drop_id drain_lines_step snd_conv)
    then show ?thesis by blast
  qed
qed

lemma feed_Text_no_prompt:
  assumes "js_indexOf (buf @ c) PROMPT = None"
  shows "feed buf (Text c) =
    (snd (drain_lines (buf @ c)), map OnLine (fst (drain_lines (buf @ c))))"
proof -
  obtain x where x: "buf @ c = x @ snd (drain_lines (buf @ c))"
    using drain_lines_suffix by blast
  have "\<not> js_endsWith (snd (drain_lines (buf @ c))) PROMPT"
  proof
    assume "js_endsWith (snd (drain_lines (buf @ c))) PROMPT"
    then obtain t where "snd (drain_lines (buf @ c)) = t @ PROMPT" by (auto simp: js_endsWith_iff)
    with x have "buf @ c = (x @ t) @ PROMPT @ []" by simp
    with assms show False by (metis js_indexOf_None_iff)
  qed
  then show ?thesis by (simp add: feed_def chunk_text_def drain_no_prompt)
qed

lemma run_feed_Text:
  assumes "js_indexOf (buf @ concat cs) PROMPT = None" and "js_indexOf buf CRLF = None"
  shows "mrun assembler_step buf (map (\<lambda>c. Feed (Text c)) cs) =
    (snd (drain_lines (buf @ concat cs)), map OnLine (fst (drain_lines (buf @ concat cs))))"
  using assms
proof (induction cs arbitrary: buf)
  case Nil
  then show ?case by (simp add: drain_lines_stop)
next
  case (Cons c cs)
  let ?r = "snd (drain_lines (buf @ c))"
  obtain x where x: "buf @ c = x @ ?r" using drain_lines_suffix by blast
  have whole: "buf @ concat (c # cs) = (buf @ c) @ concat cs" by simp
  have "js_indexOf (buf @ c) PROMPT = None"
    using Cons.prems(1) by (simp add: js_indexOf_None_iff) (metis append.assoc)
  note first = feed_Text_no_prompt [OF this]
  have "js_indexOf (?r @ concat cs) PROMPT = None"
    using Cons.prems(1) x by (simp add: js_indexOf_None_iff) (metis append.assoc)
  note rest = Cons.IH [OF this drain_lines_rest]
  show ?case
    unfolding whole drain_lines_append [of "buf @ c"] by (simp add: first rest)
qed

lemma drain_lines_framed:
  assumes "\<forall>l \<in> set ls. 13 \<notin> set l" and "13 \<notin> set t"
  shows "drain_lines (concat (map (\<lambda>l. l @ CRLF) ls) @ t) = (ls, t)"
  using assms
proof (induction ls)
  case Nil
  then show ?case by (simp add: drain_lines_stop indexOf_no_CR)
next
  case (Cons l ls)
  then show ?case using drain_lines_line by (simp add: CRLF_def)
qed

lemma drain_lines_pty_framed:
  assumes "\<forall>l \<in> set ls. 13 \<notin> set l" and "13 \<notin> set t"
  shows "drain_lines (concat (map (\<lambda>l. l @ 13 # CRLF) ls) @ t) = (ls, t)"
  using assms
proof (induction ls)
  case Nil
  then show ?case by (simp add: drain_lines_stop indexOf_no_CR)
next
  case (Cons l ls)
  then show ?case using drain_lines_pty_line by (simp add: CRLF_def)
qed

definition no_line :: "jstr \<Rightarrow> bool" where
  "no_line buf \<longleftrightarrow> js_indexOf buf CRLF = None"

interpretation assembler: machine assembler_step "\<lambda>buf. buf = []" no_line
proof
  show "no_line s" if "s = []" for s
    using that by (simp add: no_line_def CRLF_def)
  show "no_line (fst (assembler_step s e))" if "no_line s" for s e
    using drain_lines_rest
    by (cases e) (auto simp: no_line_def feed_def drain_def split_beta CRLF_def)
qed

lemma assembler_run:
  assumes "\<forall>l \<in> set ls. 13 \<notin> set l" and "13 \<notin> set t"
    and "eol \<in> {CRLF, 13 # CRLF}"
    and "concat cs = concat (map (\<lambda>l. l @ eol) ls) @ t"
    and "js_indexOf (concat cs) PROMPT = None"
  shows "mrun assembler_step [] (map (\<lambda>c. Feed (Text c)) cs) = (t, map OnLine ls)"
proof -
  have "drain_lines (concat cs) = (ls, t)"
    using assms(1-4) drain_lines_framed drain_lines_pty_framed by auto
  then show ?thesis
    using run_feed_Text [of "[]" cs] assms(5) by (simp add: indexOf_no_CR)
qed

section \<open>Properties\<close>

text \<open>However the bytes of a well-framed stream are cut into chunks, the assembler emits exactly
  the framed lines, in order, and keeps the unfinished tail, as long as the stream holds no prompt.
  The framing may be plain \<open>CRLF\<close> or, after a pseudo-terminal, \<open>CR CR LF\<close>.\<close>
theorem assembler_any_chunking:
  assumes "\<forall>l \<in> set ls. 13 \<notin> set l" and "13 \<notin> set t"
    and "eol \<in> {CRLF, 13 # CRLF}"
    and "concat cs = concat (map (\<lambda>l. l @ eol) ls) @ t"
    and "js_indexOf (concat cs) PROMPT = None"
  shows "mrun assembler_step [] (map (\<lambda>c. Feed (Text c)) cs) = (t, map OnLine ls)"
  using assms by (rule assembler_run)

lemma assembler_any_chunking_witness:
  "mrun assembler_step [] (map (\<lambda>c. Feed (Text c)) [js ''+CSQ: 1'', js ''8,99'' @ [13], [10] @ js ''OK''])
    = (js ''OK'', map OnLine [js ''+CSQ: 18,99''])"
  by (rule assembler_any_chunking [where eol = CRLF])
    (simp_all add: js_def CRLF_def PROMPT_def js_startsWith_def)

text \<open>The prompt for message data is reported when it ends the buffered text, and the buffer is
  empty afterwards; lines completed by the same chunk come first.\<close>
theorem assembler_prompt:
  assumes "\<forall>l \<in> set ls. 13 \<notin> set l" and "13 \<notin> set t"
  shows "feed [] (Text (concat (map (\<lambda>l. l @ CRLF) ls) @ t @ PROMPT)) =
    ([], map OnLine ls @ [OnPrompt])"
proof -
  have "13 \<notin> set (t @ PROMPT)" using assms(2) by (auto simp: PROMPT_def js_def)
  from drain_lines_framed [OF assms(1) this] show ?thesis
    by (simp add: feed_def chunk_text_def drain_def js_endsWith_iff)
qed

lemma assembler_prompt_witness:
  "feed [] (Text (concat (map (\<lambda>l. l @ CRLF) [[]]) @ [] @ PROMPT)) = ([], map OnLine [[]] @ [OnPrompt])"
  by (rule assembler_prompt) simp_all

text \<open>A chunk of bytes is decoded on its own, so the two bytes of one character that arrive in two
  chunks become two replacement characters, and the line differs from the one the same bytes give in a
  single chunk: the assembler does not reassemble arbitrary chunks of bytes.\<close>
theorem assembler_splits_utf8:
  "snd (mrun assembler_step [] [Feed (Bytes [195, 169, 13, 10])]) = [OnLine [233]]
   \<and> snd (mrun assembler_step [] [Feed (Bytes [195]), Feed (Bytes [169, 13, 10])]) = [OnLine [65533, 65533]]"
proof -
  have "drain_lines [233, 13, 10] = ([[233]], [])" "drain_lines [65533, 65533, 13, 10] = ([[65533, 65533]], [])"
    "drain_lines [65533] = ([], [65533])"
    using drain_lines_line [of "[233]" "[]"] drain_lines_line [of "[65533, 65533]" "[]"]
    by (simp_all add: drain_lines_stop indexOf_no_CR)
  then show ?thesis
    by (simp add: feed_def chunk_text_def drain_def text_decode_def utf8_lead_def utf8_idle_def
        utf16_units_def js_endsWith_def PROMPT_def js_def)
qed

end
