(* ===== verification/At_Parser.thy ===== *)
theory At_Parser imports Error_Codes begin

text \<open>
  \<^verbatim>\<open>packages/core/src/protocols/at/channel/parser.ts\<close>: the classification of one line from the modem,
  a pure function of the line and a context (the command in flight, the known URC prefixes). Its result
  types are those of \<^verbatim>\<open>packages/core/src/protocols/at/types.ts\<close>. The regular expressions are
  written out as functions on strings; error numbers are exact, as they are in the source up to
  \<open>2 ^ 53\<close>.
\<close>

section \<open>Data\<close>

datatype at_result =
    Ok
  | Error
  | CmeError int jstr
  | CmsError int jstr
  | NoCarrier
  | Busy
  | NoAnswer
  | NoDialtone

datatype parsed_line =
    Echo jstr
  | InfoResponse jstr
  | Urc jstr jstr jstr
  | FinalResult at_result jstr
  | Prompt
  | Empty

record parser_context =
  currentCommand :: "jstr option"
  urcPrefixes :: "jstr set"

section \<open>Regular expressions\<close>

text \<open>\<open>(.+)$\<close>: at least one code unit and no line terminator up to the end.\<close>

definition re_dots :: "jstr \<Rightarrow> bool" where
  "re_dots s \<longleftrightarrow> s \<noteq> [] \<and> (\<forall>c \<in> set s. c \<notin> {10, 13, 8232, 8233})"

text \<open>\<open>\s*(.+)$\<close>: the longest run of white space first, then shorter ones.\<close>

fun re_ws_dots :: "nat \<Rightarrow> jstr \<Rightarrow> jstr option" where
  "re_ws_dots 0 s = (if re_dots s then Some s else None)"
| "re_ws_dots (Suc n) s =
     (if re_dots (drop (Suc n) s) then Some (drop (Suc n) s) else re_ws_dots n s)"

definition error_body :: "jstr \<Rightarrow> jstr \<Rightarrow> jstr option" where
  "error_body lead line =
     (if js_startsWith line lead then
        (let rest = drop (length lead) line
         in re_ws_dots (length (takeWhile js_white rest)) rest)
      else None)"

definition CME_REGEX :: "jstr \<Rightarrow> jstr option" where
  "CME_REGEX line = error_body (js ''+CME ERROR:'') line"

definition CMS_REGEX :: "jstr \<Rightarrow> jstr option" where
  "CMS_REGEX line = error_body (js ''+CMS ERROR:'') line"

definition js_is_letter :: "nat \<Rightarrow> bool" where
  "js_is_letter c \<longleftrightarrow> (65 \<le> c \<and> c \<le> 90) \<or> (97 \<le> c \<and> c \<le> 122)"

section \<open>Helpers\<close>

definition matchURC :: "jstr \<Rightarrow> jstr set \<Rightarrow> (jstr \<times> jstr) option" where
  "matchURC line prefixes =
     (if line \<in> prefixes then Some (line, [])
      else (case js_indexOf line (js '':'') of
              None \<Rightarrow> None
            | Some colonIdx \<Rightarrow>
                if 0 < colonIdx \<and> take colonIdx line \<in> prefixes
                then Some (take colonIdx line, js_trimStart (drop (colonIdx + 1) line))
                else None))"

definition extractCommandPrefix :: "jstr option \<Rightarrow> jstr option" where
  "extractCommandPrefix command =
     (case command of
        None \<Rightarrow> None
      | Some cmd \<Rightarrow>
          (if js_toUpper (take 2 cmd) = js ''AT'' then
             (case drop 2 cmd of
                [] \<Rightarrow> None
              | c # rest \<Rightarrow>
                  (let name = takeWhile js_is_letter rest
                   in if (c = 43 \<or> c = 94) \<and> name \<noteq> [] then Some (js_toUpper (c # name)) else None))
           else None))"

definition extractPrefix :: "jstr \<Rightarrow> (jstr \<times> jstr) option" where
  "extractPrefix line =
     (case js_indexOf line (js '':'') of
        None \<Rightarrow> None
      | Some colonIdx \<Rightarrow>
          if 0 < colonIdx
          then Some (take colonIdx line, js_trimStart (drop (colonIdx + 1) line))
          else None)"

definition parseCmeError :: "jstr \<Rightarrow> at_result" where
  "parseCmeError value =
     (case js_parseInt 10 value of
        NaN \<Rightarrow> CmeError (-1) (js_trim value)
      | Num code \<Rightarrow>
          CmeError code (case cmeMessage code of Some m \<Rightarrow> m | None \<Rightarrow> js ''error '' @ js_show_int code))"

definition parseCmsError :: "jstr \<Rightarrow> at_result" where
  "parseCmsError value =
     (case js_parseInt 10 value of
        NaN \<Rightarrow> CmsError (-1) (js_trim value)
      | Num code \<Rightarrow>
          CmsError code (case cmsMessage code of Some m \<Rightarrow> m | None \<Rightarrow> js ''error '' @ js_show_int code))"

definition DIAL_ONLY_FINALS :: "jstr list" where
  "DIAL_ONLY_FINALS = [js ''NO CARRIER'', js ''BUSY'', js ''NO ANSWER'', js ''NO DIALTONE'']"

definition dialFinalResult :: "jstr \<Rightarrow> at_result" where
  "dialFinalResult line =
     (if line = js ''NO CARRIER'' then NoCarrier
      else if line = js ''BUSY'' then Busy
      else if line = js ''NO ANSWER'' then NoAnswer
      else if line = js ''NO DIALTONE'' then NoDialtone
      else Error)"

definition is_dial :: "jstr option \<Rightarrow> bool" where
  "is_dial command = (case command of None \<Rightarrow> False | Some c \<Rightarrow> js_startsWith (js_toUpper c) (js ''ATD''))"

section \<open>The classification\<close>

text \<open>Steps 7 to 11 of \<open>parseLine\<close>, reached when the line is no echo and no final result code.\<close>

definition parse_body :: "jstr \<Rightarrow> parser_context \<Rightarrow> parsed_line" where
  "parse_body line context =
     (case matchURC line (urcPrefixes context) of
        Some (prefix, body) \<Rightarrow>
          (if extractCommandPrefix (currentCommand context) = Some prefix
           then InfoResponse line
           else Urc prefix body line)
      | None \<Rightarrow>
          (if line = js ''RING'' then Urc (js ''RING'') [] line
           else if currentCommand context \<noteq> None then InfoResponse line
           else (case extractPrefix line of
                   Some (prefix, body) \<Rightarrow> Urc prefix body line
                 | None \<Rightarrow> InfoResponse line)))"

definition parseLine :: "jstr \<Rightarrow> parser_context \<Rightarrow> parsed_line" where
  "parseLine line context =
     (if line = [] then Empty
      else if currentCommand context = Some line then Echo line
      else if line = js ''OK'' then FinalResult Ok line
      else if line = js ''ERROR'' \<or> line = js ''COMMAND NOT SUPPORT'' then FinalResult Error line
      else (case CME_REGEX line of
        Some cmeBody \<Rightarrow> FinalResult (parseCmeError cmeBody) line
      | None \<Rightarrow>
     (case CMS_REGEX line of
        Some cmsBody \<Rightarrow> FinalResult (parseCmsError cmsBody) line
      | None \<Rightarrow>
      (if line \<in> set DIAL_ONLY_FINALS then
         (if is_dial (currentCommand context) then FinalResult (dialFinalResult line) line
          else if line \<in> urcPrefixes context then Urc line [] line
          else if currentCommand context = None then Urc line [] line
          else parse_body line context)
       else parse_body line context))))"

text \<open>The source line of a classified line.\<close>

fun raw_of :: "parsed_line \<Rightarrow> jstr" where
  "raw_of (Echo r) = r"
| "raw_of (InfoResponse r) = r"
| "raw_of (Urc _ _ r) = r"
| "raw_of (FinalResult _ r) = r"
| "raw_of Prompt = []"
| "raw_of Empty = []"

section \<open>Lemmas\<close>

lemma parse_body_not_final:
  "parse_body line ctx \<noteq> FinalResult r w" "parse_body line ctx \<noteq> Echo w"
  "parse_body line ctx \<noteq> Empty" "parse_body line ctx \<noteq> Prompt"
  by (auto simp: parse_body_def split: option.splits prod.splits if_splits)

lemma raw_parse_body: "raw_of (parse_body line ctx) = line"
  by (auto simp: parse_body_def split: option.splits prod.splits)

lemma re_ws_dots_Some: "re_ws_dots n s = Some b \<Longrightarrow> \<exists>k \<le> n. b = drop k s \<and> re_dots b"
  by (induction n s rule: re_ws_dots.induct) (auto split: if_splits intro: le_SucI)

lemma error_body_Some:
  assumes "error_body lead line = Some b"
  shows "\<exists>w. line = lead @ w @ b \<and> (\<forall>c \<in> set w. js_white c) \<and> re_dots b"
proof -
  let ?rest = "drop (length lead) line"
  let ?ws = "takeWhile js_white ?rest"
  from assms have line: "line = lead @ ?rest" and re: "re_ws_dots (length ?ws) ?rest = Some b"
    by (auto simp: error_body_def js_startsWith_iff split: if_splits)
  from re_ws_dots_Some [OF re] obtain k where k: "k \<le> length ?ws" "b = drop k ?rest" "re_dots b"
    by blast
  have "take k ?rest = take k ?ws" using k(1) by (metis takeWhile_eq_take take_take min.absorb1)
  then have "\<forall>c \<in> set (take k ?rest). js_white c"
    by (auto dest!: in_set_takeD dest: set_takeWhileD)
  moreover have "line = lead @ take k ?rest @ b" using line k(2) by (metis append_take_drop_id)
  ultimately show ?thesis using k(3) by blast
qed

lemma error_body_leads:
  "CME_REGEX line = Some b \<Longrightarrow> js_startsWith line (js ''+CME ERROR:'')"
  "CMS_REGEX line = Some b \<Longrightarrow> js_startsWith line (js ''+CMS ERROR:'')"
  by (simp_all add: CME_REGEX_def CMS_REGEX_def error_body_def split: if_splits)

lemma re_ws_dots_whole: "re_dots s \<Longrightarrow> \<exists>b. re_ws_dots n s = Some b"
  by (induction n s rule: re_ws_dots.induct) auto

lemma CME_CMS_exclusive: "CME_REGEX line = Some b \<Longrightarrow> CMS_REGEX line = None"
  using error_body_leads [of line] by (cases "CMS_REGEX line") (auto simp: js_startsWith_def)

lemma fixed_finals_not_regex [simp]:
  "CME_REGEX (js ''OK'') = None" "CMS_REGEX (js ''OK'') = None"
  "CME_REGEX (js ''ERROR'') = None" "CMS_REGEX (js ''ERROR'') = None"
  "CME_REGEX (js ''COMMAND NOT SUPPORT'') = None" "CMS_REGEX (js ''COMMAND NOT SUPPORT'') = None"
  "CME_REGEX (js ''RING'') = None" "CMS_REGEX (js ''RING'') = None"
  by (simp_all add: CME_REGEX_def CMS_REGEX_def error_body_def js_startsWith_def js_def)

lemma dial_finals_not_regex [simp]:
  "line \<in> set DIAL_ONLY_FINALS \<Longrightarrow> CME_REGEX line = None"
  "line \<in> set DIAL_ONLY_FINALS \<Longrightarrow> CMS_REGEX line = None"
  by (auto simp: DIAL_ONLY_FINALS_def CME_REGEX_def CMS_REGEX_def error_body_def
      js_startsWith_def js_def)

lemma dial_finals_distinct:
  "line \<in> set DIAL_ONLY_FINALS \<Longrightarrow>
    line \<noteq> [] \<and> line \<notin> {js ''OK'', js ''ERROR'', js ''COMMAND NOT SUPPORT''}"
  by (auto simp: DIAL_ONLY_FINALS_def)

lemma js_no_colon: "58 \<in> set (js s) \<longleftrightarrow> CHR '':'' \<in> set s"
proof -
  have "(58 :: nat) = of_char CHR '':''" by simp
  then show ?thesis by (simp only: js_def set_map image_iff of_char_eq_iff) auto
qed

lemma colon_not_fixed:
  assumes "58 \<in> set line"
  shows "line \<notin> {[], js ''OK'', js ''ERROR'', js ''COMMAND NOT SUPPORT'', js ''RING''}"
    and "line \<notin> set DIAL_ONLY_FINALS"
  using assms by (auto simp: js_no_colon DIAL_ONLY_FINALS_def)

lemma indexOf_colon: "58 \<notin> set p \<Longrightarrow> js_indexOf (p @ 58 # r) (js '':'') = Some (length p)"
  by (induction p) (auto simp: js_startsWith_def js_def)

lemma colon_unique:
  fixes p q :: jstr
  assumes "p @ 58 # r = q @ 58 # t" and "58 \<notin> set p" and "58 \<notin> set q"
  shows "p = q"
  using indexOf_colon [OF assms(2), of r] indexOf_colon [OF assms(3), of t] assms(1)
  by (metis append_eq_append_conv option.inject)

lemma colon_regex:
  assumes "58 \<notin> set p" and "p \<noteq> js ''+CME ERROR''" and "p \<noteq> js ''+CMS ERROR''"
  shows "CME_REGEX (p @ 58 # r) = None" "CMS_REGEX (p @ 58 # r) = None"
proof -
  have lead: "js ''+CME ERROR:'' = js ''+CME ERROR'' @ [58]" "js ''+CMS ERROR:'' = js ''+CMS ERROR'' @ [58]"
    by (simp_all add: js_def)
  have "\<not> js_startsWith (p @ 58 # r) (q @ [58])" if "58 \<notin> set q" "p \<noteq> q" for q
    using colon_unique [OF _ assms(1) that(1)] that(2) by (auto simp: js_startsWith_iff)
  then show "CME_REGEX (p @ 58 # r) = None" "CMS_REGEX (p @ 58 # r) = None"
    using assms(2,3) by (auto simp: CME_REGEX_def CMS_REGEX_def error_body_def lead js_no_colon)
qed

section \<open>Properties\<close>

text \<open>C34: exactly these lines end a command: \<open>OK\<close>, the two plain errors, a CME or CMS error with a
  body, and, only while a dial command is in flight, the four call results. An echo never does.\<close>
theorem parse_final_iff:
  "parseLine line ctx = FinalResult r raw \<longleftrightarrow>
    raw = line \<and> currentCommand ctx \<noteq> Some line \<and>
    (line = js ''OK'' \<and> r = Ok
     \<or> line \<in> {js ''ERROR'', js ''COMMAND NOT SUPPORT''} \<and> r = Error
     \<or> (\<exists>b. CME_REGEX line = Some b \<and> r = parseCmeError b)
     \<or> (\<exists>b. CMS_REGEX line = Some b \<and> r = parseCmsError b)
     \<or> line \<in> set DIAL_ONLY_FINALS \<and> is_dial (currentCommand ctx) \<and> r = dialFinalResult line)"
    (is "?L \<longleftrightarrow> ?R")
proof
  assume ?L
  then show ?R
    by (auto simp: parseLine_def parse_body_not_final split: if_splits option.splits)
next
  have nonempty: "CME_REGEX [] = None" "CMS_REGEX [] = None"
    by (simp_all add: CME_REGEX_def CMS_REGEX_def error_body_def js_startsWith_def)
  assume R: ?R
  then consider (ok) "line = js ''OK''" "r = Ok"
    | (err) "line \<in> {js ''ERROR'', js ''COMMAND NOT SUPPORT''}" "r = Error"
    | (cme) b where "CME_REGEX line = Some b" "r = parseCmeError b"
    | (cms) b where "CMS_REGEX line = Some b" "r = parseCmsError b"
    | (dial) "line \<in> set DIAL_ONLY_FINALS" "is_dial (currentCommand ctx)" "r = dialFinalResult line"
    by blast
  then show ?L
  proof cases
    case (cme b)
    then have "line \<notin> {[], js ''OK'', js ''ERROR'', js ''COMMAND NOT SUPPORT''}" using nonempty by auto
    with cme R show ?thesis by (simp add: parseLine_def)
  next
    case (cms b)
    then have "line \<notin> {[], js ''OK'', js ''ERROR'', js ''COMMAND NOT SUPPORT''}" using nonempty by auto
    moreover have "CME_REGEX line = None" using CME_CMS_exclusive cms(1) by (cases "CME_REGEX line") auto
    ultimately show ?thesis using cms R by (simp add: parseLine_def)
  next
    case dial
    with R dial_finals_distinct [OF dial(1)] show ?thesis by (simp add: parseLine_def)
  qed (use R in \<open>auto simp: parseLine_def\<close>)
qed

text \<open>A registered unsolicited code \<open>prefix:body\<close> that arrives while any command is in flight is
  dispatched with its trimmed body, unless the prefix is the one that the command itself asks for; then
  it belongs to the response.\<close>
theorem parse_urc_interleaved:
  assumes "58 \<notin> set prefix" and "prefix \<noteq> []" and "prefix \<in> urcPrefixes ctx"
    and "prefix \<notin> {js ''+CME ERROR'', js ''+CMS ERROR''}"
    and "prefix @ 58 # rest \<notin> urcPrefixes ctx"
    and "currentCommand ctx \<noteq> Some (prefix @ 58 # rest)"
  shows "parseLine (prefix @ 58 # rest) ctx =
    (if extractCommandPrefix (currentCommand ctx) = Some prefix
     then InfoResponse (prefix @ 58 # rest)
     else Urc prefix (js_trimStart rest) (prefix @ 58 # rest))"
proof -
  let ?line = "prefix @ 58 # rest"
  have "matchURC ?line (urcPrefixes ctx) = Some (prefix, js_trimStart rest)"
    using assms(1-3,5) by (simp add: matchURC_def indexOf_colon)
  moreover have "parseLine ?line ctx = parse_body ?line ctx"
    using assms(4,6) colon_not_fixed [of ?line] colon_regex [OF assms(1), of rest]
    by (auto simp: parseLine_def)
  ultimately show ?thesis by (simp add: parse_body_def)
qed

lemma parse_urc_interleaved_witness:
  "parseLine (js ''+CMTI'' @ 58 # js '' 3'') \<lparr>currentCommand = Some (js ''AT+CSQ''), urcPrefixes = {js ''+CMTI''}\<rparr>
     = Urc (js ''+CMTI'') (js ''3'') (js ''+CMTI'' @ 58 # js '' 3'')"
proof -
  have "extractCommandPrefix (Some (js ''AT+CSQ'')) = Some (js ''+CSQ'')"
    by (simp add: extractCommandPrefix_def js_def js_toUpper_def js_upper1_def js_is_letter_def)
  moreover have "js_trimStart (js '' 3'') = js ''3''"
    by (simp add: js_trimStart_def js_def js_white_def)
  moreover have "js ''+CMTI'' @ 58 # js '' 3'' \<noteq> js ''+CMTI''" by (simp add: js_def)
  moreover have "js ''AT+CSQ'' \<noteq> js ''+CMTI'' @ 58 # js '' 3''" by (simp add: js_def)
  ultimately show ?thesis
    using parse_urc_interleaved [of "js ''+CMTI''"
        "\<lparr>currentCommand = Some (js ''AT+CSQ''), urcPrefixes = {js ''+CMTI''}\<rparr>" "js '' 3''"]
    by (simp add: js_no_colon)
qed

text \<open>The call results are ambiguous: with a dial command in flight they end it, with no command
  they are unsolicited, and during any other command they are unsolicited only when registered and
  otherwise part of the response.\<close>
theorem parse_call_result:
  assumes "line \<in> set DIAL_ONLY_FINALS" and "currentCommand ctx \<noteq> Some line"
  shows "parseLine line ctx =
    (if is_dial (currentCommand ctx) then FinalResult (dialFinalResult line) line
     else if line \<in> urcPrefixes ctx \<or> currentCommand ctx = None then Urc line [] line
     else InfoResponse line)"
proof -
  have "js_indexOf line (js '':'') = None" "line \<noteq> js ''RING''"
    using assms(1) by (auto simp: DIAL_ONLY_FINALS_def js_def js_startsWith_def)
  then have "parse_body line ctx = InfoResponse line"
    if "line \<notin> urcPrefixes ctx" "currentCommand ctx \<noteq> None"
    using that by (simp add: parse_body_def matchURC_def)
  then show ?thesis
    using assms dial_finals_distinct [OF assms(1)] by (auto simp: parseLine_def)
qed

lemma parse_call_result_witness:
  "parseLine (js ''NO CARRIER'') \<lparr>currentCommand = Some (js ''ATD123;''), urcPrefixes = {}\<rparr> =
    FinalResult NoCarrier (js ''NO CARRIER'')"
proof -
  have "is_dial (Some (js ''ATD123;''))"
    by (simp add: is_dial_def js_startsWith_def js_toUpper_def js_def js_upper1_def)
  then show ?thesis
    using parse_call_result [of "js ''NO CARRIER''"
        "\<lparr>currentCommand = Some (js ''ATD123;''), urcPrefixes = {}\<rparr>"]
    by (simp add: DIAL_ONLY_FINALS_def dialFinalResult_def)
qed

end
