(* ===== verification/Errors.thy ===== *)
theory Errors imports At_Parser begin

text \<open>
  \<^verbatim>\<open>packages/core/src/errors.ts\<close>: the error classes as one datatype, a constructor per class with the
  fields its constructor stores, and the texts the constructors build. The base constructor joins the
  short message and, when there are (non-empty) details, a second line \<open>Details: ...\<close>.
  \<open>PreparationError\<close> keeps of its report what the message uses, the names of the failed steps. An error
  thrown by code outside the repository is \<open>OtherError\<close> with its message.
\<close>

datatype cellary_error =
    ATError jstr at_result
  | TimeoutError jstr nat
  | TransportError jstr
  | ParseError jstr jstr
  | DiscoveryError jstr
  | ChannelDisposedError
  | ChannelUnresponsiveError "jstr option"
  | StkError jstr
  | QueueFullError jstr nat
  | NotSupportedError jstr "jstr list"
  | PreparationError "jstr list"
  | OtherError jstr

definition js_show_nat :: "nat \<Rightarrow> jstr" where
  "js_show_nat n = js_toString 10 n"

fun js_join :: "jstr \<Rightarrow> jstr list \<Rightarrow> jstr" where
  "js_join sep [] = []"
| "js_join sep [s] = s"
| "js_join sep (s # t # ss) = s @ sep @ js_join sep (t # ss)"

fun formatResultCode :: "at_result \<Rightarrow> jstr" where
  "formatResultCode Error = js ''ERROR''"
| "formatResultCode (CmeError code msg) =
     (if 0 \<le> code then js ''+CME ERROR '' @ js_show_int code @ js '': '' @ msg
      else js ''+CME ERROR: '' @ msg)"
| "formatResultCode (CmsError code msg) =
     (if 0 \<le> code then js ''+CMS ERROR '' @ js_show_int code @ js '': '' @ msg
      else js ''+CMS ERROR: '' @ msg)"
| "formatResultCode NoCarrier = js ''NO CARRIER''"
| "formatResultCode Busy = js ''BUSY''"
| "formatResultCode NoAnswer = js ''NO ANSWER''"
| "formatResultCode NoDialtone = js ''NO DIALTONE''"
| "formatResultCode Ok = js ''OK''"

fun shortMessage :: "cellary_error \<Rightarrow> jstr" where
  "shortMessage (ATError command result) = js ''AT command failed: '' @ command"
| "shortMessage (TimeoutError command ms) =
     js ''AT command timed out after '' @ js_show_nat ms @ js ''ms: '' @ command"
| "shortMessage (TransportError m) = m"
| "shortMessage (ParseError m raw) = m"
| "shortMessage (DiscoveryError m) = m"
| "shortMessage ChannelDisposedError = js ''Channel has been disposed''"
| "shortMessage (ChannelUnresponsiveError reason) =
     (case reason of Some r \<Rightarrow> r
      | None \<Rightarrow> js ''Channel unresponsive: firmware is not processing AT commands'')"
| "shortMessage (StkError m) = m"
| "shortMessage (QueueFullError command n) =
     js ''Command queue full ('' @ js_show_nat n @ js '' pending): '' @ command"
| "shortMessage (NotSupportedError service protocols) =
     js ''Service not supported: '' @ service
      @ (if protocols \<noteq> []
         then js '' (active protocols: '' @ js_join (js '', '') protocols @ js '')'' else [])"
| "shortMessage (PreparationError failedSteps) =
     (if failedSteps \<noteq> []
      then js ''Device preparation failed: '' @ js_join (js '', '') failedSteps
      else js ''Device preparation failed'')"
| "shortMessage (OtherError m) = m"

fun details :: "cellary_error \<Rightarrow> jstr option" where
  "details (ATError command result) = Some (formatResultCode result)"
| "details (ParseError m raw) = Some (js ''Raw: '' @ raw)"
| "details _ = None"

definition message :: "cellary_error \<Rightarrow> jstr" where
  "message e =
     (case details e of
        Some d \<Rightarrow> (if d \<noteq> [] then shortMessage e @ [10] @ js ''Details: '' @ d else shortMessage e)
      | None \<Rightarrow> shortMessage e)"

end
