(* ===== verification/Mask.thy ===== *)
theory Mask imports Prelude begin

text \<open>
  \<^verbatim>\<open>packages/core/src/protocols/at/channel/mask.ts\<close>: the redaction of credentials in AT text before it
  is logged or audited. The regular expression is
  \<^verbatim>\<open>((?:AT)?[+^](?:CPIN2?|CPWD|CLCK|CACM|DATALOCK)=)[^\r\n]+\<close> with the flags \<open>g\<close> and \<open>i\<close>; a match is
  replaced by its first group and \<open>[REDACTED]\<close>. The scan is leftmost: at each position the optional
  lead-in \<open>AT\<close> is tried first, and after a match the scan goes on behind the redacted value.
\<close>

definition REDACTED :: jstr where "REDACTED = js ''[REDACTED]''"

definition SENSITIVE_TOKENS :: "jstr list" where
  "SENSITIVE_TOKENS =
     [js ''CPIN2='', js ''CPIN='', js ''CPWD='', js ''CLCK='', js ''CACM='', js ''DATALOCK='']"

definition starts_ci :: "jstr \<Rightarrow> jstr \<Rightarrow> bool" where
  "starts_ci s p \<longleftrightarrow> js_toUpper (take (length p) s) = p"

text \<open>\<open>[+^](?:CPIN2?|...)=\<close>: how many code units it takes at the start of the string.\<close>

definition match_token :: "jstr \<Rightarrow> nat option" where
  "match_token s =
     (case s of
        [] \<Rightarrow> None
      | c # r \<Rightarrow>
          (if c = 43 \<or> c = 94 then
             map_option (\<lambda>t. Suc (length t)) (find (starts_ci r) SENSITIVE_TOKENS)
           else None))"

definition match_group :: "jstr \<Rightarrow> nat option" where
  "match_group s =
     (case (if starts_ci s (js ''AT'') then match_token (drop 2 s) else None) of
        Some n \<Rightarrow> Some (n + 2)
      | None \<Rightarrow> match_token s)"

definition not_eol :: "nat \<Rightarrow> bool" where
  "not_eol c \<longleftrightarrow> c \<noteq> 13 \<and> c \<noteq> 10"

text \<open>A match at the start of the string: the group, and the length of the value behind it.\<close>

definition match_secret :: "jstr \<Rightarrow> (nat \<times> nat) option" where
  "match_secret s =
     (case match_group s of
        None \<Rightarrow> None
      | Some n \<Rightarrow>
          (let v = takeWhile not_eol (drop n s) in if v = [] then None else Some (n, length v)))"

function maskAtSecrets :: "jstr \<Rightarrow> jstr" where
  "maskAtSecrets s =
     (case s of
        [] \<Rightarrow> []
      | c # r \<Rightarrow>
          (case match_secret s of
             Some (n, k) \<Rightarrow> take n s @ REDACTED @ maskAtSecrets (drop (n + k) s)
           | None \<Rightarrow> c # maskAtSecrets r))"
  by pat_completeness auto

lemma match_secret_pos: "match_secret s = Some (n, k) \<Longrightarrow> 0 < k \<and> n + k \<le> length s"
proof -
  assume "match_secret s = Some (n, k)"
  then have v: "takeWhile not_eol (drop n s) \<noteq> []" "k = length (takeWhile not_eol (drop n s))"
    by (auto simp: match_secret_def Let_def split: option.splits if_splits)
  then have "drop n s \<noteq> []" by auto
  then have "n < length s" by simp
  moreover have "k \<le> length (drop n s)" using v(2) length_takeWhile_le by metis
  moreover have "0 < k" using v by simp
  ultimately show ?thesis by simp
qed

termination maskAtSecrets
  by (relation "measure length") (auto dest!: match_secret_pos)

declare maskAtSecrets.simps [simp del]

lemma mask_Nil [simp]: "maskAtSecrets [] = []"
  by (simp add: maskAtSecrets.simps)

lemma mask_skip: "match_secret (c # r) = None \<Longrightarrow> maskAtSecrets (c # r) = c # maskAtSecrets r"
  by (subst maskAtSecrets.simps) simp

lemma mask_match:
  assumes "match_secret s = Some (n, k)"
  shows "maskAtSecrets s = take n s @ REDACTED @ maskAtSecrets (drop (n + k) s)"
proof -
  from match_secret_pos [OF assms] obtain c r where "s = c # r" by (cases s) auto
  with assms show ?thesis by (subst maskAtSecrets.simps) simp
qed

text \<open>The lead-ins of the credential commands, as any case of letters spells them.\<close>

definition sensitive_lead :: "jstr \<Rightarrow> bool" where
  "sensitive_lead g \<longleftrightarrow>
     (\<exists>at t c. at \<in> {[], js ''AT''} \<and> (c = 43 \<or> c = 94) \<and> t \<in> set SENSITIVE_TOKENS
        \<and> js_toUpper g = at @ c # t)"

lemma starts_ci_append: "js_toUpper p' = p \<Longrightarrow> starts_ci (p' @ s) p"
  by (auto simp: starts_ci_def)

lemma starts_ci_iff: "starts_ci s p \<longleftrightarrow> (\<exists>q t. s = q @ t \<and> js_toUpper q = p)"
proof
  assume "starts_ci s p"
  then show "\<exists>q t. s = q @ t \<and> js_toUpper q = p"
    by (metis append_take_drop_id starts_ci_def)
qed (auto intro: starts_ci_append)

lemma starts_ci_prefix: "starts_ci s p \<Longrightarrow> starts_ci s q \<Longrightarrow> length p \<le> length q \<Longrightarrow> take (length p) q = p"
  unfolding starts_ci_def js_toUpper_def by (metis min.absorb1 take_map take_take)

lemma tokens_prefix_free:
  "p \<in> set SENSITIVE_TOKENS \<Longrightarrow> q \<in> set SENSITIVE_TOKENS \<Longrightarrow> take (length p) q = p \<Longrightarrow> p = q"
  by (auto simp: SENSITIVE_TOKENS_def js_def)

lemma token_unique:
  assumes "starts_ci s p" "starts_ci s q" "p \<in> set SENSITIVE_TOKENS" "q \<in> set SENSITIVE_TOKENS"
  shows "p = q"
  using assms starts_ci_prefix tokens_prefix_free by (metis nle_le)

lemma find_token:
  assumes "starts_ci s p" and "p \<in> set SENSITIVE_TOKENS"
  shows "find (starts_ci s) SENSITIVE_TOKENS = Some p"
proof (cases "find (starts_ci s) SENSITIVE_TOKENS")
  case None
  with assms show ?thesis by (auto simp: find_None_iff)
next
  case (Some q)
  then have "starts_ci s q" "q \<in> set SENSITIVE_TOKENS" by (auto simp: find_Some_iff)
  with assms Some token_unique show ?thesis by blast
qed

lemma match_token_iff:
  "match_token s = Some n \<longleftrightarrow>
    (\<exists>c q r. s = c # q @ r \<and> (c = 43 \<or> c = 94) \<and> js_toUpper q \<in> set SENSITIVE_TOKENS \<and> n = Suc (length q))"
    (is "_ \<longleftrightarrow> ?R")
proof
  assume "match_token s = Some n"
  then obtain c r t where s: "s = c # r" "c = 43 \<or> c = 94"
    and t: "find (starts_ci r) SENSITIVE_TOKENS = Some t" "n = Suc (length t)"
    by (auto simp: match_token_def split: list.splits if_splits)
  from t(1) have "starts_ci r t" "t \<in> set SENSITIVE_TOKENS" by (auto simp: find_Some_iff)
  then show ?R using s t(2) by (auto simp: starts_ci_iff)
next
  assume ?R
  then obtain c q r where s: "s = c # q @ r" "c = 43 \<or> c = 94"
    "js_toUpper q \<in> set SENSITIVE_TOKENS" "n = Suc (length q)"
    by blast
  from find_token [OF starts_ci_append s(3)]
  have "find (starts_ci (q @ r)) SENSITIVE_TOKENS = Some (js_toUpper q)" by blast
  with s show "match_token s = Some n" by (auto simp: match_token_def)
qed

lemma lead_cases:
  "sensitive_lead g \<longleftrightarrow>
    (\<exists>at c q. g = at @ c # q \<and> (at = [] \<or> js_toUpper at = js ''AT'') \<and> (c = 43 \<or> c = 94)
       \<and> js_toUpper q \<in> set SENSITIVE_TOKENS)" (is "_ \<longleftrightarrow> ?R")
proof
  assume "sensitive_lead g"
  then obtain at t c where g: "at = [] \<or> at = js ''AT''" "c = 43 \<or> c = 94"
    "t \<in> set SENSITIVE_TOKENS" "js_toUpper g = at @ c # t"
    by (auto simp: sensitive_lead_def)
  from g(4) obtain a c' q where "g = a @ c' # q" "js_toUpper a = at" "js_upper1 c' = c" "js_toUpper q = t"
    by (auto simp: js_toUpper_def map_eq_append_conv map_eq_Cons_conv)
  moreover from this g(2) have "c' = c" by (auto simp: js_upper1_def split: if_splits)
  ultimately show ?R using g(1-3) by (auto simp: js_toUpper_def)
next
  assume ?R
  then obtain at c q where g: "g = at @ c # q" "at = [] \<or> js_toUpper at = js ''AT''"
    "c = 43 \<or> c = 94" "js_toUpper q \<in> set SENSITIVE_TOKENS"
    by blast
  then have "js_toUpper g = js_toUpper at @ c # js_toUpper q"
    by (auto simp: js_toUpper_def js_upper1_def)
  with g show "sensitive_lead g"
    unfolding sensitive_lead_def by (auto simp: js_toUpper_def)
qed

lemma match_group_iff:
  "match_group s = Some n \<longleftrightarrow> (\<exists>g r. s = g @ r \<and> sensitive_lead g \<and> n = length g)" (is "_ \<longleftrightarrow> ?R")
proof
  assume "match_group s = Some n"
  then consider "starts_ci s (js ''AT'')" "\<exists>m. match_token (drop 2 s) = Some m \<and> n = m + 2"
    | "match_token s = Some n"
    by (auto simp: match_group_def split: option.splits if_splits)
  then show ?R
  proof cases
    case 1
    then obtain at t where at: "s = at @ t" "js_toUpper at = js ''AT''" by (auto simp: starts_ci_iff)
    from at(2) have "length at = 2" by (metis length_js_toUpper length_js list.size(3,4) numeral_2_eq_2 add_Suc_right add_0_right)
    with at 1 obtain c q r where "t = c # q @ r" "c = 43 \<or> c = 94" "js_toUpper q \<in> set SENSITIVE_TOKENS"
      "n = length q + 3" by (auto simp: match_token_iff)
    moreover from this at(2) have "sensitive_lead (at @ c # q)" by (auto simp: lead_cases)
    moreover have "s = (at @ c # q) @ r \<and> n = length (at @ c # q)"
      using at(1) \<open>length at = 2\<close> calculation(1,4) by simp
    ultimately show ?R by blast
  next
    case 2
    then obtain c q r where "s = c # q @ r" "c = 43 \<or> c = 94" "js_toUpper q \<in> set SENSITIVE_TOKENS"
      "n = Suc (length q)" by (auto simp: match_token_iff)
    moreover from this have "sensitive_lead (c # q)"
      unfolding lead_cases by (intro exI [of _ "[]"]) auto
    ultimately show ?R by (metis append_Cons length_Cons)
  qed
next
  assume ?R
  then obtain g r where gr: "s = g @ r" "sensitive_lead g" "n = length g" by blast
  from gr(2) obtain at c q where "g = at @ c # q" and s: "at = [] \<or> js_toUpper at = js ''AT''"
    "c = 43 \<or> c = 94" "js_toUpper q \<in> set SENSITIVE_TOKENS"
    unfolding lead_cases by blast
  with gr have s: "s = at @ c # q @ r" "at = [] \<or> js_toUpper at = js ''AT''" "c = 43 \<or> c = 94"
    "js_toUpper q \<in> set SENSITIVE_TOKENS" "n = length at + Suc (length q)"
    by simp_all
  have tok: "match_token (c # q @ r) = Some (Suc (length q))"
    using s(3,4) by (auto simp: match_token_iff)
  show "match_group s = Some n"
  proof (cases "at = []")
    case True
    have "\<not> starts_ci (c # q @ r) (js ''AT'')"
      using s(3) by (auto simp: starts_ci_def js_def js_toUpper_def js_upper1_def)
    with True s tok show ?thesis by (simp add: match_group_def)
  next
    case False
    with s(2) have at: "js_toUpper at = js ''AT''" by simp
    then have "length at = 2" by (metis length_js_toUpper length_js list.size(3,4) numeral_2_eq_2 add_Suc_right add_0_right)
    with s at tok starts_ci_append [OF at, of "c # q @ r"] show ?thesis by (simp add: match_group_def)
  qed
qed

lemma lead_shape:
  assumes "sensitive_lead g"
  shows "\<exists>h. g = h @ [61] \<and> 61 \<notin> set h \<and> (\<forall>c \<in> set g. not_eol c)"
proof -
  from assms obtain at t c where at: "at = [] \<or> at = js ''AT''" and c: "c = 43 \<or> c = 94"
    and t: "t \<in> set SENSITIVE_TOKENS" and up: "js_toUpper g = at @ c # t"
    by (auto simp: sensitive_lead_def)
  have "\<exists>w. at @ c # t = w @ [61] \<and> 61 \<notin> set w \<and> (\<forall>x \<in> set (at @ c # t). not_eol x)"
    using at c t by (auto simp: SENSITIVE_TOKENS_def js_def not_eol_def)
  then obtain w where "at @ c # t = w @ [61]" "61 \<notin> set w" "\<forall>x \<in> set (at @ c # t). not_eol x"
    by blast
  with up have w: "js_toUpper g = w @ [61]" "61 \<notin> set w" "\<forall>x \<in> set (js_toUpper g). not_eol x"
    by simp_all
  from w(1) obtain h e where h: "g = h @ [e]" "js_toUpper h = w" "js_upper1 e = 61"
    by (auto simp: js_toUpper_def map_eq_append_conv)
  moreover from h(3) have "e = 61" by (auto simp: js_upper1_def split: if_splits)
  moreover have "61 \<notin> set h"
    using w(2) h(2) by (auto simp: js_toUpper_def js_upper1_def image_iff)
  moreover have "\<forall>c \<in> set g. not_eol c"
    using w(3) by (auto simp: js_toUpper_def js_upper1_def not_eol_def)
  ultimately show ?thesis by blast
qed

text \<open>A string has at most one lead-in at its start: both would end at the first equals sign.\<close>

lemma lead_unique:
  assumes "sensitive_lead g" and "sensitive_lead h" and "g @ r = h @ t"
  shows "g = h"
proof -
  obtain x where x: "g = x @ [61]" "61 \<notin> set x" using lead_shape [OF assms(1)] by blast
  obtain y where y: "h = y @ [61]" "61 \<notin> set y" using lead_shape [OF assms(2)] by blast
  have "takeWhile (\<lambda>c. c \<noteq> 61) (g @ r) = x" "takeWhile (\<lambda>c. c \<noteq> 61) (h @ t) = y"
    using x y by (auto simp: takeWhile_append)
  with assms(3) x(1) y(1) show ?thesis by simp
qed

lemma match_group_lead [simp]: "sensitive_lead g \<Longrightarrow> match_group (g @ r) = Some (length g)"
  by (auto simp: match_group_iff)

text \<open>Whether a group matches in front of a credential does not depend on the credential.\<close>

lemma match_group_before:
  assumes "sensitive_lead g"
  shows "match_group (p @ g @ v) = match_group (p @ g)"
    and "match_group (p @ g) = Some n \<Longrightarrow> n \<le> length (p @ g)"
proof -
  have cut: "match_group (p @ g @ v) = Some n \<longleftrightarrow> match_group (p @ g) = Some n" for n v
  proof
    assume "match_group (p @ g @ v) = Some n"
    then obtain h r where h: "p @ g @ v = h @ r" "sensitive_lead h" "n = length h"
      by (auto simp: match_group_iff)
    have "length h \<le> length (p @ g)"
    proof (rule ccontr)
      assume "\<not> length h \<le> length (p @ g)"
      then obtain u where u: "h = p @ g @ u" "u \<noteq> []"
        using h(1) by (metis append.assoc append_eq_append_conv_if append_take_drop_id length_append nle_le
            append_Nil2)
      obtain x where "g = x @ [61]" using lead_shape [OF assms] by blast
      moreover obtain y where "h = y @ [61]" "61 \<notin> set y" using lead_shape [OF h(2)] by blast
      ultimately show False using u by (metis append.assoc append_butlast_last_id butlast_append
            butlast_snoc in_set_conv_decomp append_Cons append_Nil)
    qed
    then obtain w where "p @ g = h @ w" using h(1)
      by (metis append.assoc append_eq_append_conv_if append_take_drop_id)
    with h show "match_group (p @ g) = Some n" by (auto simp: match_group_iff)
  next
    assume "match_group (p @ g) = Some n"
    then show "match_group (p @ g @ v) = Some n" by (auto simp: match_group_iff) (metis append.assoc)
  qed
  then show "match_group (p @ g @ v) = match_group (p @ g)"
    by (metis not_Some_eq)
  show "n \<le> length (p @ g)" if "match_group (p @ g) = Some n"
  proof -
    from that obtain h r where "p @ g = h @ r" "n = length h" by (auto simp: match_group_iff)
    then show ?thesis by (metis length_append le_add1)
  qed
qed

lemma takeWhile_until_eol:
  "\<forall>c \<in> set d. not_eol c \<Longrightarrow> e = [] \<or> \<not> not_eol (hd e) \<Longrightarrow> takeWhile not_eol (d @ e) = d"
  by (cases e) (auto simp: takeWhile_append)

lemma takeWhile_stop: "\<not> (\<forall>c \<in> set d. P c) \<Longrightarrow> takeWhile P (d @ x) = takeWhile P d"
  by (auto simp: takeWhile_append)

lemma dropWhile_stop: "\<not> (\<forall>c \<in> set d. P c) \<Longrightarrow> dropWhile P d \<noteq> [] \<and> \<not> P (hd (dropWhile P d))"
  by (metis dropWhile_eq_Nil_conv hd_dropWhile)

lemma mask_lead:
  assumes "sensitive_lead g" and "v \<noteq> []" and "\<forall>c \<in> set v. not_eol c"
    and "e = [] \<or> \<not> not_eol (hd e)"
  shows "maskAtSecrets (g @ v @ e) = g @ REDACTED @ maskAtSecrets e"
proof -
  have "match_secret (g @ v @ e) = Some (length g, length v)"
    using assms takeWhile_until_eol [OF assms(3,4)] by (simp add: match_secret_def)
  from mask_match [OF this] show ?thesis by simp
qed

text \<open>A match that starts in front of the lead-in: its value either reaches the credential and
  swallows it, or stops at a line end in front of it.\<close>

lemma secret_before:
  assumes g: "sensitive_lead g" and n: "match_group (p @ g) = Some n"
  defines "d \<equiv> drop n (p @ g)"
  shows "match_secret (p @ g @ x) =
    (let u = takeWhile not_eol (d @ x) in if u = [] then None else Some (n, length u))"
    and "take n (p @ g @ x) = take n (p @ g)" and "drop n (p @ g @ x) = d @ x"
  using match_group_before [OF g] n by (simp_all add: match_secret_def d_def Let_def)

lemma mask_swallow:
  assumes g: "sensitive_lead g" and n: "match_group (p @ g) = Some n"
    and d: "\<forall>c \<in> set (drop n (p @ g)). not_eol c"
    and v: "v \<noteq> []" "\<forall>c \<in> set v. not_eol c" and e: "e = [] \<or> \<not> not_eol (hd e)"
  shows "maskAtSecrets (p @ g @ v @ e) = take n (p @ g) @ REDACTED @ maskAtSecrets e"
proof -
  let ?u = "drop n (p @ g) @ v"
  have "takeWhile not_eol (drop n (p @ g) @ v @ e) = ?u"
    using takeWhile_until_eol [of ?u e] d v(2) e by auto
  then have "match_secret (p @ g @ v @ e) = Some (n, length ?u)"
    using secret_before(1) [OF g n, of "v @ e"] v(1) by simp
  moreover have "drop (n + length ?u) (p @ g @ v @ e) = e"
    using secret_before(3) [OF g n, of "v @ e"]
    by (metis add.commute append.assoc append_eq_conv_conj drop_drop)
  ultimately show ?thesis
    using mask_match [of "p @ g @ v @ e"] secret_before(2) [OF g n, of "v @ e"] by simp
qed

lemma mask_stop:
  assumes g: "sensitive_lead g" and n: "match_group (p @ g) = Some n"
    and t: "takeWhile not_eol (drop n (p @ g)) = t" "t \<noteq> []"
    and d: "\<not> (\<forall>c \<in> set (drop n (p @ g)). not_eol c)"
  shows "\<exists>q. length q < length p \<and>
    (\<forall>x. maskAtSecrets (p @ g @ x) = take n (p @ g) @ REDACTED @ maskAtSecrets (q @ g @ x))"
proof -
  let ?d = "drop n (p @ g)" and ?r = "dropWhile not_eol (drop n (p @ g))"
  have r: "?r \<noteq> []" "\<not> not_eol (hd ?r)"
    using dropWhile_stop [OF d] by simp_all
  have dt: "?d = t @ ?r" using t(1) takeWhile_dropWhile_id by metis
  then have suffix: "p @ g = (take n (p @ g) @ t) @ ?r" by (metis append.assoc append_take_drop_id)
  let ?a = "take n (p @ g) @ t"
  have eq: "?a @ ?r = p @ g" by (rule suffix [symmetric])
  have pre: "length ?a \<le> length p"
  proof (rule ccontr)
    assume "\<not> length ?a \<le> length p"
    then have "g = drop (length p) ?a @ ?r"
      using eq by (metis append_eq_append_conv_if append_eq_conv_conj linorder_le_cases)
    then have "hd ?r \<in> set g" using r(1) by (metis UnCI hd_in_set set_append)
    with r(2) lead_shape [OF g] show False by blast
  qed
  from iffD1 [OF append_eq_append_conv2 eq] obtain u where
    u: "?a = p @ u \<and> u @ ?r = g \<or> ?a @ u = p \<and> ?r = u @ g" by blast
  have "\<exists>q. ?r = q @ g \<and> ?a @ q = p"
  proof (cases "?a = p @ u \<and> u @ ?r = g")
    case True
    then have "length (p @ u) \<le> length p" using pre by (simp only: conjunct1)
    then have "u = []" by simp
    with True show ?thesis by simp
  next
    case False
    with u show ?thesis by blast
  qed
  then obtain q where q: "?r = q @ g" "?a @ q = p" by blast
  have "length ?a + length q = length p" using arg_cong [OF q(2), of length] by (simp only: length_append)
  moreover have "0 < length ?a" using t(2) by simp
  ultimately have "length q < length p" by linarith
  moreover have "maskAtSecrets (p @ g @ x) = take n (p @ g) @ REDACTED @ maskAtSecrets (q @ g @ x)" for x
  proof -
    have "takeWhile not_eol (?d @ x) = t"
      using takeWhile_stop [OF d] t(1) by simp
    then have "match_secret (p @ g @ x) = Some (n, length t)"
      using secret_before(1) [OF g n, of x] t(2) by simp
    moreover have "drop (n + length t) (p @ g @ x) = q @ g @ x"
      using secret_before(3) [OF g n, of x] dt q(1)
      by (metis add.commute append.assoc append_eq_conv_conj drop_drop)
    ultimately show ?thesis
      using mask_match [of "p @ g @ x"] secret_before(2) [OF g n, of x] by simp
  qed
  ultimately show ?thesis by blast
qed

lemma mask_independent:
  assumes g: "sensitive_lead g" and v: "v \<noteq> []" "\<forall>c \<in> set v. not_eol c"
    and w: "w \<noteq> []" "\<forall>c \<in> set w. not_eol c" and e: "e = [] \<or> \<not> not_eol (hd e)"
  shows "maskAtSecrets (p @ g @ v @ e) = maskAtSecrets (p @ g @ w @ e)"
proof (induction p rule: length_induct)
  case (1 p)
  have skip: ?case if "p \<noteq> []" "\<And>x. match_secret (p @ g @ x) = None"
    using that mask_skip "1.IH" by (cases p) simp_all
  consider "p = []" | "p \<noteq> []" "match_group (p @ g) = None"
    | n where "p \<noteq> []" "match_group (p @ g) = Some n" by fastforce
  then show ?case
  proof cases
    case 1
    then show ?thesis using mask_lead [OF g] v w e by simp
  next
    case 2
    then show ?thesis by (intro skip) (simp_all add: match_secret_def match_group_before(1) [OF g])
  next
    case (3 n)
    let ?d = "drop n (p @ g)"
    consider "\<forall>c \<in> set ?d. not_eol c" | "\<not> (\<forall>c \<in> set ?d. not_eol c)" "takeWhile not_eol ?d = []"
      | "\<not> (\<forall>c \<in> set ?d. not_eol c)" "takeWhile not_eol ?d \<noteq> []" by blast
    then show ?thesis
    proof cases
      case 1
      show ?thesis using mask_swallow [OF g 3(2) 1 v e] mask_swallow [OF g 3(2) 1 w e] by simp
    next
      case 2
      have "takeWhile not_eol (?d @ x) = []" for x using takeWhile_stop [OF 2(1)] 2(2) by simp
      then have "match_secret (p @ g @ x) = None" for x using secret_before(1) [OF g 3(2)] by simp
      with 3(1) show ?thesis by (rule skip)
    next
      case hit: 3
      from mask_stop [OF g 3(2) refl hit(2,1)] "1.IH" show ?thesis by metis
    qed
  qed
qed

section \<open>Properties\<close>

text \<open>C35: wherever a credential command stands in the text, the masked text does not depend on the
  credential: any two values (of any length, up to the end of the line) are masked to the same text, so
  nothing about a PIN or a password can be read off a log or audit record.\<close>
theorem mask_noninterference:
  assumes "sensitive_lead g" and "v \<noteq> []" and "w \<noteq> []"
    and "\<forall>c \<in> set v \<union> set w. c \<noteq> 13 \<and> c \<noteq> 10" and "e = [] \<or> hd e \<in> {13, 10}"
  shows "maskAtSecrets (p @ g @ v @ e) = maskAtSecrets (p @ g @ w @ e)"
  using assms by (intro mask_independent) (auto simp: not_eol_def)

lemma sensitive_lead_cpin: "sensitive_lead (js ''at+CPIN='')"
  unfolding sensitive_lead_def
  by (intro exI [of _ "js ''AT''"] exI [of _ "js ''CPIN=''"] exI [of _ 43])
    (simp add: SENSITIVE_TOKENS_def js_def js_toUpper_def js_upper1_def)

lemma mask_noninterference_witness:
  "maskAtSecrets (js ''> '' @ js ''at+CPIN='' @ js ''1234'' @ [13]) =
   maskAtSecrets (js ''> '' @ js ''at+CPIN='' @ js ''98765432'' @ [13])"
  by (rule mask_noninterference [OF sensitive_lead_cpin]) (simp_all add: js_def)

end
