(* ===== verification/At_Channel.thy ===== *)
theory At_Channel imports Line_Assembler Errors Mask "HOL-Library.Multiset" begin

text \<open>
  \<^verbatim>\<open>packages/core/src/protocols/at/channel/at-channel.ts\<close>: the AT command engine. The record \<open>channel\<close>
  holds the mutable fields of the class \<open>ATChannel\<close> and its options. A promise returned by \<open>execute\<close> is
  identified by the number of the call (\<open>nextId\<close> counts the calls). Everything the class does to its
  surroundings is an \<open>action\<close>: writing to the transport, settling a promise, calling a URC handler or
  the callback for an unresponsive device, recording an audit entry. The JavaScript event loop is the
  list of events: calls of the public methods, chunks from the transport, the command timer, and
  rejected writes.

  A handler that calls back into the channel while it runs is a later event of the list. The debug
  logger, the wall-clock time and the object identities of handlers (numbers here) have no other trace
  in the model. The timer is the field \<open>commandTimer\<close> with its delay; it can fire only while it is set.
\<close>

section \<open>State\<close>

datatype channel_state = Idle | CommandSent | AwaitingPrompt | DataInput

record at_command =
  raw :: jstr
  timeout :: nat
  expectsPrompt :: bool
  promptData :: "jstr option"
  suppressURC :: bool

record queue_entry =
  eid :: nat
  command :: at_command

record execute_options =
  opt_timeout :: "nat option"
  opt_expectsPrompt :: bool
  opt_promptData :: "jstr option"
  opt_suppressURC :: bool

record urc =
  urc_prefix :: jstr
  urc_body :: jstr
  urc_raw :: jstr

record channel =
  state :: channel_state
  disposed :: bool
  unresponsive :: bool
  consecutiveTimeouts :: nat
  queue :: "queue_entry list"
  currentEntry :: "queue_entry option"
  currentResponseLines :: "jstr list"
  commandTimer :: "nat option"
  resyncing :: bool
  knownPrefixes :: "jstr set"
  urcHandlers :: "jstr \<Rightarrow> nat list"
  catchAllHandlers :: "nat list"
  lineBuffer :: jstr
  nextId :: nat
  defaultTimeout :: nat
  commandTimeouts :: "(jstr \<times> nat) list"
  maxQueueSize :: nat
  timeoutThreshold :: nat
  hasOnUnresponsive :: bool

datatype audit_direction = Tx | Rx

datatype action =
    WriteCommand nat jstr
  | WriteData nat jstr
  | Resolve nat jstr "jstr list"
  | Reject nat cellary_error
  | CallHandler nat urc
  | CallUnresponsive
  | Audit audit_direction jstr
  | AuditTimeout

text \<open>The options of the constructor, an absent one as \<open>None\<close>.\<close>

record channel_options =
  urcPrefixes_opt :: "jstr list"
  defaultTimeout_opt :: "nat option"
  commandTimeouts_opt :: "(jstr \<times> nat) list"
  maxQueueSize_opt :: "nat option"
  threshold_opt :: "nat option"

definition new_channel :: "channel_options \<Rightarrow> channel" where
  "new_channel opts =
     \<lparr>state = Idle, disposed = False, unresponsive = False, consecutiveTimeouts = 0, queue = [],
      currentEntry = None, currentResponseLines = [], commandTimer = None, resyncing = False,
      knownPrefixes = set (urcPrefixes_opt opts), urcHandlers = (\<lambda>_. []), catchAllHandlers = [],
      lineBuffer = [], nextId = 0, defaultTimeout = or_else (defaultTimeout_opt opts) 10000,
      commandTimeouts = commandTimeouts_opt opts, maxQueueSize = or_else (maxQueueSize_opt opts) 64,
      timeoutThreshold = or_else (threshold_opt opts) 3, hasOnUnresponsive = False\<rparr>"

section \<open>Operations\<close>

definition resolveTimeout :: "channel \<Rightarrow> jstr \<Rightarrow> nat" where
  "resolveTimeout ch cmd =
     (case find (\<lambda>(prefix, t). js_startsWith (js_toUpper cmd) (js_toUpper prefix)) (commandTimeouts ch) of
        Some (prefix, t) \<Rightarrow> t
      | None \<Rightarrow> defaultTimeout ch)"

definition processQueue :: "channel \<Rightarrow> channel \<times> action list" where
  "processQueue ch =
     (if disposed ch \<or> state ch \<noteq> Idle then (ch, [])
      else (case queue ch of
          [] \<Rightarrow> (ch, [])
        | entry # rest \<Rightarrow>
            (ch\<lparr>queue := rest, currentEntry := Some entry, currentResponseLines := [],
                state := (if expectsPrompt (command entry) then AwaitingPrompt else CommandSent),
                commandTimer := Some (timeout (command entry))\<rparr>,
             [Audit Tx (maskAtSecrets (raw (command entry))),
              WriteCommand (eid entry) (raw (command entry) @ [13])])))"

definition make_command :: "channel \<Rightarrow> jstr \<Rightarrow> execute_options \<Rightarrow> at_command" where
  "make_command ch cmd opts =
     \<lparr>raw = cmd, timeout = or_else (opt_timeout opts) (resolveTimeout ch cmd),
      expectsPrompt = opt_expectsPrompt opts, promptData = opt_promptData opts,
      suppressURC = opt_suppressURC opts\<rparr>"

definition enqueue :: "channel \<Rightarrow> at_command \<Rightarrow> channel" where
  "enqueue ch cmd =
     ch\<lparr>nextId := Suc (nextId ch), queue := queue ch @ [\<lparr>eid = nextId ch, command = cmd\<rparr>]\<rparr>"

definition execute :: "channel \<Rightarrow> jstr \<Rightarrow> execute_options \<Rightarrow> channel \<times> action list" where
  "execute ch cmd opts =
     (let refuse = (\<lambda>err. (ch\<lparr>nextId := Suc (nextId ch)\<rparr>, [Reject (nextId ch) err]))
      in if disposed ch then refuse ChannelDisposedError
         else if unresponsive ch then refuse (ChannelUnresponsiveError None)
         else if length (queue ch) \<ge> maxQueueSize ch then refuse (QueueFullError cmd (length (queue ch)))
         else
           (let ch' = enqueue ch (make_command ch cmd opts)
            in if state ch' = Idle then processQueue ch' else (ch', [])))"

definition dispatchURC :: "channel \<Rightarrow> urc \<Rightarrow> action list" where
  "dispatchURC ch u =
     map (\<lambda>h. CallHandler h u) (urcHandlers ch (urc_prefix u)) @ map (\<lambda>h. CallHandler h u) (catchAllHandlers ch)"

definition resolveCommand :: "channel \<Rightarrow> at_result \<Rightarrow> channel \<times> action list" where
  "resolveCommand ch result =
     (case currentEntry ch of
        None \<Rightarrow> (ch, [])
      | Some entry \<Rightarrow>
          (let settle = (if result = Ok
                 then Resolve (eid entry) (raw (command entry)) (currentResponseLines ch)
                 else Reject (eid entry) (ATError (raw (command entry)) result));
               (ch', out) = processQueue (ch\<lparr>commandTimer := None, currentEntry := None, state := Idle,
                                            currentResponseLines := []\<rparr>)
           in (ch', settle # out)))"

definition line_context :: "channel \<Rightarrow> parser_context" where
  "line_context ch =
     (case currentEntry ch of
        None \<Rightarrow> \<lparr>currentCommand = None, urcPrefixes = knownPrefixes ch\<rparr>
      | Some entry \<Rightarrow> \<lparr>currentCommand = Some (raw (command entry)),
                      urcPrefixes = (if suppressURC (command entry) then {} else knownPrefixes ch)\<rparr>)"

definition is_prompt_echo :: "channel \<Rightarrow> jstr \<Rightarrow> bool" where
  "is_prompt_echo ch line \<longleftrightarrow>
     state ch = DataInput
     \<and> (case currentEntry ch of None \<Rightarrow> False | Some entry \<Rightarrow> promptData (command entry) = Some line)"

definition is_urc :: "parsed_line \<Rightarrow> bool" where
  "is_urc p = (case p of Urc _ _ _ \<Rightarrow> True | _ \<Rightarrow> False)"

definition is_echo :: "parsed_line \<Rightarrow> bool" where
  "is_echo p = (case p of Echo _ \<Rightarrow> True | _ \<Rightarrow> False)"

definition handle_parsed :: "channel \<Rightarrow> parsed_line \<Rightarrow> channel \<times> action list" where
  "handle_parsed ch parsed =
     (case parsed of
        Empty \<Rightarrow> (ch, [])
      | Echo _ \<Rightarrow> (ch, [])
      | Urc p b r \<Rightarrow> (ch, dispatchURC ch \<lparr>urc_prefix = p, urc_body = b, urc_raw = r\<rparr>)
      | InfoResponse r \<Rightarrow> (ch\<lparr>currentResponseLines := currentResponseLines ch @ [r]\<rparr>, [])
      | FinalResult result _ \<Rightarrow> resolveCommand ch result
      | Prompt \<Rightarrow> (ch, []))"

definition handleLine :: "channel \<Rightarrow> jstr \<Rightarrow> channel \<times> action list" where
  "handleLine ch line =
     (let parsed = parseLine line (line_context ch);
          audit = Audit Rx (maskAtSecrets line)
      in if is_prompt_echo ch line then (ch, [audit])
         else if resyncing ch \<and> \<not> is_urc parsed
           then (if is_echo parsed then ch\<lparr>resyncing := False\<rparr> else ch, [audit])
         else (let (ch', out) = handle_parsed ch parsed in (ch', audit # out)))"

definition handlePrompt :: "channel \<Rightarrow> channel \<times> action list" where
  "handlePrompt ch =
     (case currentEntry ch of
        None \<Rightarrow> (ch, [])
      | Some entry \<Rightarrow>
          (if state ch \<noteq> AwaitingPrompt then (ch, [])
           else (case promptData (command entry) of
               None \<Rightarrow> (ch, [])
             | Some data \<Rightarrow> (ch\<lparr>state := DataInput\<rparr>, [WriteData (eid entry) (data @ [26])]))))"

definition handleTimeout :: "channel \<Rightarrow> channel \<times> action list" where
  "handleTimeout ch =
     (case currentEntry ch of
        None \<Rightarrow> (ch, [])
      | Some entry \<Rightarrow>
          (let n = consecutiveTimeouts ch + 1;
               hit = n \<ge> timeoutThreshold ch;
               (ch', out) = processQueue
                 (ch\<lparr>currentEntry := None, state := Idle, currentResponseLines := [], commandTimer := None,
                     resyncing := \<not> resyncing ch, consecutiveTimeouts := (if hit then 0 else n)\<rparr>)
           in (ch', AuditTimeout # Reject (eid entry) (TimeoutError (raw (command entry)) (timeout (command entry)))
                    # (if hit \<and> hasOnUnresponsive ch then [CallUnresponsive] else []) @ out)))"

text \<open>
  A rejected write, of a command or of its prompt data. The error is \<open>Some\<close> of the message of an
  \<open>Error\<close>; anything else the transport rejects with is \<open>None\<close>, and replaced by a fixed error.
\<close>

definition write_error :: "bool \<Rightarrow> jstr option \<Rightarrow> cellary_error" where
  "write_error prompt err =
     OtherError (case err of Some m \<Rightarrow> m
                 | None \<Rightarrow> if prompt then js ''Transport write failed during prompt''
                          else js ''Transport write failed'')"

definition handleWriteError :: "channel \<Rightarrow> nat \<Rightarrow> bool \<Rightarrow> jstr option \<Rightarrow> channel \<times> action list" where
  "handleWriteError ch i prompt err =
     (case currentEntry ch of
        None \<Rightarrow> (ch, [])
      | Some entry \<Rightarrow>
          (if eid entry \<noteq> i then (ch, [])
           else
             (let (ch', out) = processQueue (ch\<lparr>commandTimer := None, state := Idle, currentEntry := None\<rparr>)
              in (ch', Reject i (write_error prompt err) # out))))"

definition pending :: "channel \<Rightarrow> nat list" where
  "pending ch = (case currentEntry ch of None \<Rightarrow> [] | Some e \<Rightarrow> [eid e]) @ map eid (queue ch)"

text \<open>\<open>reset\<close> and \<open>dispose\<close> reject the command in flight and then the queue, in order.\<close>

definition reset_channel :: "channel \<Rightarrow> channel \<times> action list" where
  "reset_channel ch =
     (ch\<lparr>commandTimer := None, consecutiveTimeouts := 0, unresponsive := False, state := Idle,
         currentResponseLines := [], resyncing := False, lineBuffer := [], currentEntry := None, queue := []\<rparr>,
      map (\<lambda>i. Reject i ChannelDisposedError) (pending ch))"

definition dispose_channel :: "channel \<Rightarrow> channel \<times> action list" where
  "dispose_channel ch =
     (ch\<lparr>disposed := True, commandTimer := None, currentEntry := None, queue := [], state := Idle,
         currentResponseLines := [], resyncing := False, lineBuffer := []\<rparr>,
      map (\<lambda>i. Reject i ChannelDisposedError) (pending ch))"

definition onURC :: "channel \<Rightarrow> jstr \<Rightarrow> nat \<Rightarrow> channel" where
  "onURC ch prefix h =
     ch\<lparr>knownPrefixes := insert prefix (knownPrefixes ch),
        urcHandlers := (urcHandlers ch)(prefix := urcHandlers ch prefix @ [h])\<rparr>"

definition offURC :: "channel \<Rightarrow> jstr \<Rightarrow> nat \<Rightarrow> channel" where
  "offURC ch prefix h =
     ch\<lparr>urcHandlers := (urcHandlers ch)(prefix := remove1 h (urcHandlers ch prefix))\<rparr>"

definition registerURCPrefixes :: "channel \<Rightarrow> jstr list \<Rightarrow> channel" where
  "registerURCPrefixes ch prefixes = ch\<lparr>knownPrefixes := knownPrefixes ch \<union> set prefixes\<rparr>"

fun handle_assembled :: "channel \<Rightarrow> assembler_event \<Rightarrow> channel \<times> action list" where
  "handle_assembled ch (OnLine line) = handleLine ch line"
| "handle_assembled ch OnPrompt = handlePrompt ch"

definition receive :: "channel \<Rightarrow> chunk \<Rightarrow> channel \<times> action list" where
  "receive ch c =
     (let (buf, evs) = feed (lineBuffer ch) c in mrun handle_assembled (ch\<lparr>lineBuffer := buf\<rparr>) evs)"

section \<open>Events\<close>

datatype channel_event =
    Execute jstr execute_options
  | Data chunk
  | TimerFires
  | WriteFails nat bool "jstr option"
  | Reset
  | Dispose
  | MarkUnresponsive
  | SetOnUnresponsive
  | ResetConsecutiveTimeouts
  | OnURC jstr nat
  | OffURC jstr nat
  | OnAnyURC nat
  | OffAnyURC nat
  | RegisterURCPrefixes "jstr list"

fun channel_step :: "channel \<Rightarrow> channel_event \<Rightarrow> channel \<times> action list" where
  "channel_step ch (Execute cmd opts) = execute ch cmd opts"
| "channel_step ch (Data c) = receive ch c"
| "channel_step ch TimerFires = (if commandTimer ch = None then (ch, []) else handleTimeout ch)"
| "channel_step ch (WriteFails i prompt err) = handleWriteError ch i prompt err"
| "channel_step ch Reset = reset_channel ch"
| "channel_step ch Dispose = dispose_channel ch"
| "channel_step ch MarkUnresponsive = (ch\<lparr>unresponsive := True\<rparr>, [])"
| "channel_step ch SetOnUnresponsive = (ch\<lparr>hasOnUnresponsive := True\<rparr>, [])"
| "channel_step ch ResetConsecutiveTimeouts = (ch\<lparr>consecutiveTimeouts := 0\<rparr>, [])"
| "channel_step ch (OnURC prefix h) = (onURC ch prefix h, [])"
| "channel_step ch (OffURC prefix h) = (offURC ch prefix h, [])"
| "channel_step ch (OnAnyURC h) = (ch\<lparr>catchAllHandlers := catchAllHandlers ch @ [h]\<rparr>, [])"
| "channel_step ch (OffAnyURC h) = (ch\<lparr>catchAllHandlers := remove1 h (catchAllHandlers ch)\<rparr>, [])"
| "channel_step ch (RegisterURCPrefixes ps) = (registerURCPrefixes ch ps, [])"

section \<open>Invariant\<close>

definition channel_inv :: "channel \<Rightarrow> bool" where
  "channel_inv ch \<longleftrightarrow>
     (state ch = Idle \<longleftrightarrow> currentEntry ch = None)
     \<and> (commandTimer ch = None \<longleftrightarrow> currentEntry ch = None)
     \<and> (currentEntry ch = None \<longrightarrow> queue ch = [])
     \<and> (disposed ch \<longrightarrow> currentEntry ch = None)
     \<and> length (queue ch) \<le> maxQueueSize ch
     \<and> sorted_wrt (<) (pending ch) \<and> (\<forall>i \<in> set (pending ch). i < nextId ch)"

text \<open>A state in which the command in flight has just been settled: the queue may still hold commands.\<close>

definition settled_inv :: "channel \<Rightarrow> bool" where
  "settled_inv ch \<longleftrightarrow>
     state ch = Idle \<and> currentEntry ch = None \<and> commandTimer ch = None
     \<and> (disposed ch \<longrightarrow> queue ch = []) \<and> length (queue ch) \<le> maxQueueSize ch
     \<and> sorted_wrt (<) (pending ch) \<and> (\<forall>i \<in> set (pending ch). i < nextId ch)"

lemma pending_simps [simp]:
  "currentEntry ch = None \<Longrightarrow> pending ch = map eid (queue ch)"
  "currentEntry ch = Some e \<Longrightarrow> pending ch = eid e # map eid (queue ch)"
  by (simp_all add: pending_def)

lemma processQueue_inv: "settled_inv ch \<Longrightarrow> channel_inv (fst (processQueue ch))"
  by (cases "queue ch") (auto simp: settled_inv_def channel_inv_def processQueue_def)

text \<open>What the invariant reads of a channel, and what is left of it when the command in flight ends.\<close>

lemma channel_inv_frame:
  assumes "channel_inv ch" and "state ch' = state ch" "currentEntry ch' = currentEntry ch"
    "commandTimer ch' = commandTimer ch" "queue ch' = queue ch" "disposed ch' = disposed ch"
    "maxQueueSize ch' = maxQueueSize ch" "nextId ch' = nextId ch"
  shows "channel_inv ch'"
  using assms by (simp add: channel_inv_def pending_def)

lemma settle_inv:
  assumes "channel_inv ch" and "currentEntry ch = Some e"
    and "currentEntry ch' = None" "state ch' = Idle" "commandTimer ch' = None"
    "queue ch' = queue ch" "disposed ch' = disposed ch" "maxQueueSize ch' = maxQueueSize ch"
    "nextId ch' = nextId ch"
  shows "settled_inv ch'"
  using assms by (simp add: channel_inv_def settled_inv_def)

lemma execute_inv: "channel_inv ch \<Longrightarrow> channel_inv (fst (execute ch cmd opts))"
proof -
  assume inv: "channel_inv ch"
  consider "disposed ch \<or> unresponsive ch \<or> length (queue ch) \<ge> maxQueueSize ch"
    | (enq) "\<not> disposed ch" "\<not> unresponsive ch" "length (queue ch) < maxQueueSize ch" by linarith
  then show ?thesis
  proof cases
    case 1
    with inv show ?thesis
      by (cases "currentEntry ch") (auto simp: execute_def channel_inv_def Let_def less_SucI)
  next
    case enq
    let ?ch = "enqueue ch (make_command ch cmd opts)"
    show ?thesis
    proof (cases "state ch = Idle")
      case True
      with inv enq have "settled_inv ?ch"
        by (auto simp: channel_inv_def settled_inv_def enqueue_def)
      moreover have "execute ch cmd opts = processQueue ?ch"
        using True enq by (simp add: execute_def enqueue_def)
      ultimately show ?thesis by (simp add: processQueue_inv)
    next
      case False
      with inv obtain e where "currentEntry ch = Some e" by (auto simp: channel_inv_def)
      with inv have "channel_inv ?ch" if "length (queue ch) < maxQueueSize ch"
        using that by (auto simp: channel_inv_def enqueue_def sorted_wrt_append less_SucI)
      moreover have "execute ch cmd opts = (?ch, [])"
        using False enq by (simp add: execute_def enqueue_def)
      ultimately show ?thesis using enq by simp
    qed
  qed
qed

lemma resolveCommand_inv: "channel_inv ch \<Longrightarrow> channel_inv (fst (resolveCommand ch r))"
  by (cases "currentEntry ch")
    (simp_all add: resolveCommand_def Let_def split_beta processQueue_inv settle_inv)

lemma handle_parsed_inv: "channel_inv ch \<Longrightarrow> channel_inv (fst (handle_parsed ch p))"
  by (cases p) (auto simp: handle_parsed_def resolveCommand_inv elim: channel_inv_frame)

lemma handleLine_inv: "channel_inv ch \<Longrightarrow> channel_inv (fst (handleLine ch line))"
  by (auto simp: handleLine_def Let_def split_beta handle_parsed_inv elim: channel_inv_frame)

lemma handlePrompt_inv: "channel_inv ch \<Longrightarrow> channel_inv (fst (handlePrompt ch))"
  by (cases "currentEntry ch") (auto simp: handlePrompt_def channel_inv_def split: option.split)

lemma handleTimeout_inv: "channel_inv ch \<Longrightarrow> channel_inv (fst (handleTimeout ch))"
  by (cases "currentEntry ch")
    (simp_all add: handleTimeout_def Let_def split_beta processQueue_inv settle_inv)

lemma handleWriteError_inv: "channel_inv ch \<Longrightarrow> channel_inv (fst (handleWriteError ch i p err))"
  by (cases "currentEntry ch")
    (simp_all add: handleWriteError_def Let_def split_beta processQueue_inv settle_inv)

lemma handle_assembled_inv: "channel_inv ch \<Longrightarrow> channel_inv (fst (handle_assembled ch e))"
  by (cases e) (simp_all add: handleLine_inv handlePrompt_inv)

interpretation assembled: machine handle_assembled channel_inv channel_inv
  by unfold_locales (simp_all add: handle_assembled_inv)

lemma receive_inv: "channel_inv ch \<Longrightarrow> channel_inv (fst (receive ch c))"
  by (auto simp: receive_def split_beta intro!: assembled.run_inv_from elim: channel_inv_frame)

lemma reset_inv: "channel_inv (fst (reset_channel ch))" "channel_inv (fst (dispose_channel ch))"
  by (simp_all add: reset_channel_def dispose_channel_def channel_inv_def)

lemma channel_step_inv: "channel_inv ch \<Longrightarrow> channel_inv (fst (channel_step ch e))"
  by (cases e)
    (auto simp: execute_inv receive_inv handleTimeout_inv handleWriteError_inv reset_inv
      onURC_def offURC_def registerURCPrefixes_def elim: channel_inv_frame)

lemma new_channel_inv: "channel_inv (new_channel opts)"
  by (simp add: new_channel_def channel_inv_def)

interpretation engine: machine channel_step "\<lambda>ch. ch = new_channel opts" channel_inv for opts
  by unfold_locales (auto simp: new_channel_inv channel_step_inv)

section \<open>Settling in order\<close>

fun settled_of :: "action \<Rightarrow> nat list" where
  "settled_of (Resolve i _ _) = [i]"
| "settled_of (Reject i _) = [i]"
| "settled_of _ = []"

definition settled :: "action list \<Rightarrow> nat list" where
  "settled out = concat (map settled_of out)"

lemma settled_simps [simp]:
  "settled [] = []" "settled (a # out) = settled_of a @ settled out"
  "settled (out @ out') = settled out @ settled out'"
  by (simp_all add: settled_def)

lemma settled_calls [simp]:
  "settled (map (\<lambda>h. CallHandler h u) hs) = []" "settled (dispatchURC ch u) = []"
  "settled (map (\<lambda>i. Reject i err) is) = is"
  by (induction hs) (simp_all add: dispatchURC_def settled_def comp_def)

lemma processQueue_pending:
  "state ch = Idle \<Longrightarrow> currentEntry ch = None \<Longrightarrow>
    pending (fst (processQueue ch)) = map eid (queue ch) \<and> settled (snd (processQueue ch)) = []
    \<and> nextId (fst (processQueue ch)) = nextId ch"
  by (auto simp: processQueue_def pending_def split: list.split)

definition takes_head :: "channel \<Rightarrow> channel \<times> action list \<Rightarrow> bool" where
  "takes_head ch r \<longleftrightarrow> pending ch = settled (snd r) @ pending (fst r) \<and> nextId (fst r) = nextId ch"

lemma takes_head_frame:
  "currentEntry ch' = currentEntry ch \<Longrightarrow> queue ch' = queue ch \<Longrightarrow> nextId ch' = nextId ch \<Longrightarrow>
    settled out = [] \<Longrightarrow> takes_head ch (ch', out)"
  by (simp add: takes_head_def pending_def)

lemma resolveCommand_takes: "takes_head ch (resolveCommand ch r)"
  by (cases "currentEntry ch")
    (simp_all add: takes_head_def resolveCommand_def Let_def split_beta processQueue_pending)

lemma handle_parsed_takes: "takes_head ch (handle_parsed ch p)"
  by (cases p) (simp_all add: handle_parsed_def resolveCommand_takes takes_head_frame)

lemma handleLine_takes: "takes_head ch (handleLine ch line)"
  using handle_parsed_takes [of ch "parseLine line (line_context ch)"]
  by (simp add: handleLine_def Let_def split_beta takes_head_frame) (simp add: takes_head_def)

lemma handlePrompt_takes: "takes_head ch (handlePrompt ch)"
  by (cases "currentEntry ch") (auto simp: handlePrompt_def takes_head_frame split: option.split)

lemma handleTimeout_takes: "takes_head ch (handleTimeout ch)"
  by (cases "currentEntry ch")
    (simp_all add: takes_head_def handleTimeout_def Let_def split_beta processQueue_pending)

lemma handleWriteError_takes: "takes_head ch (handleWriteError ch i p err)"
  by (cases "currentEntry ch")
    (auto simp: takes_head_def handleWriteError_def Let_def split_beta processQueue_pending)

lemma handle_assembled_takes: "takes_head ch (handle_assembled ch e)"
  by (cases e) (simp_all add: handleLine_takes handlePrompt_takes)

lemma assembled_run_takes: "takes_head ch (mrun handle_assembled ch evs)"
proof (induction evs arbitrary: ch)
  case Nil
  then show ?case by (simp add: takes_head_def)
next
  case (Cons e evs)
  from handle_assembled_takes [of ch e] Cons [of "fst (handle_assembled ch e)"] show ?case
    by (simp add: takes_head_def split_beta Let_def)
qed

lemma receive_takes: "takes_head ch (receive ch c)"
  using assembled_run_takes [of "ch\<lparr>lineBuffer := fst (feed (lineBuffer ch) c)\<rparr>" "snd (feed (lineBuffer ch) c)"]
  by (simp add: receive_def split_beta takes_head_def pending_def)

lemma reset_takes: "takes_head ch (reset_channel ch)" "takes_head ch (dispose_channel ch)"
  by (simp_all add: takes_head_def reset_channel_def dispose_channel_def)

text \<open>Every event but \<open>execute\<close> settles a (possibly empty) prefix of the pending commands.\<close>

lemma step_takes_head:
  "(\<And>cmd opts. e \<noteq> Execute cmd opts) \<Longrightarrow> takes_head ch (channel_step ch e)"
  by (cases e)
    (auto simp: receive_takes handleTimeout_takes handleWriteError_takes reset_takes takes_head_frame
      onURC_def offURC_def registerURCPrefixes_def)

text \<open>\<open>execute\<close> appends its command to the pending ones, or refuses it at once.\<close>

lemma execute_takes:
  assumes "channel_inv ch"
  shows "nextId (fst (execute ch cmd opts)) = Suc (nextId ch) \<and>
    (settled (snd (execute ch cmd opts)) = [] \<and>
       pending (fst (execute ch cmd opts)) = pending ch @ [nextId ch]
     \<or> settled (snd (execute ch cmd opts)) = [nextId ch] \<and>
       pending (fst (execute ch cmd opts)) = pending ch)"
proof -
  consider "disposed ch \<or> unresponsive ch \<or> length (queue ch) \<ge> maxQueueSize ch"
    | (enq) "\<not> disposed ch" "\<not> unresponsive ch" "length (queue ch) < maxQueueSize ch" by linarith
  then show ?thesis
  proof cases
    case 1
    then show ?thesis by (auto simp: execute_def Let_def pending_def)
  next
    case enq
    let ?ch = "enqueue ch (make_command ch cmd opts)"
    have "pending ?ch = pending ch @ [nextId ch]" by (simp add: pending_def enqueue_def)
    moreover have "pending (fst (processQueue ?ch)) = pending ?ch \<and> settled (snd (processQueue ?ch)) = []
        \<and> nextId (fst (processQueue ?ch)) = Suc (nextId ch)" if "state ch = Idle"
      using that assms processQueue_pending [of ?ch] by (simp add: channel_inv_def enqueue_def)
    ultimately show ?thesis using enq by (simp add: execute_def enqueue_def Let_def)
  qed
qed

definition is_execute :: "channel_event \<Rightarrow> bool" where
  "is_execute e = (case e of Execute _ _ \<Rightarrow> True | _ \<Rightarrow> False)"

lemma is_execute_simps [simp]:
  "is_execute (Execute cmd opts)" "\<not> is_execute (Data c)" "\<not> is_execute TimerFires"
  by (simp_all add: is_execute_def)

lemma step_conserves:
  assumes "channel_inv ch"
  shows "mset (settled (snd (channel_step ch e))) + mset (pending (fst (channel_step ch e)))
           + mset [0..<nextId ch]
         = mset (pending ch) + mset [0..<nextId (fst (channel_step ch e))]
     \<and> nextId (fst (channel_step ch e)) = nextId ch + (if is_execute e then 1 else 0)"
proof (cases "is_execute e")
  case True
  then obtain cmd opts where e: "e = Execute cmd opts" by (cases e) (auto simp: is_execute_def)
  from execute_takes [OF assms, of cmd opts] show ?thesis by (auto simp: e)
next
  case False
  then have "takes_head ch (channel_step ch e)"
    by (intro step_takes_head) auto
  with False show ?thesis by (simp add: takes_head_def)
qed

lemma mset_telescope:
  fixes S1 :: "'a multiset"
  assumes "S1 + P1 + Z = P + N1" and "S2 + P2 + N1 = P1 + N2"
  shows "S1 + S2 + P2 + Z = P + N2"
proof -
  have "(S1 + S2 + P2 + Z) + (P1 + N1) = (S1 + P1 + Z) + (S2 + P2 + N1)" by (simp add: ac_simps)
  also have "\<dots> = (P + N2) + (P1 + N1)" unfolding assms by (simp add: ac_simps)
  finally show ?thesis by simp
qed

lemma run_conserves:
  assumes "channel_inv ch" and "mrun channel_step ch evs = (ch', out)"
  shows "mset (settled out) + mset (pending ch') + mset [0..<nextId ch]
         = mset (pending ch) + mset [0..<nextId ch']
     \<and> nextId ch' = nextId ch + length (filter is_execute evs)"
  using assms
proof (induction evs arbitrary: ch out)
  case Nil
  then show ?case by simp
next
  case (Cons e evs)
  let ?ch = "fst (channel_step ch e)"
  from Cons.prems(1) have inv: "channel_inv ?ch" by (rule channel_step_inv)
  have run: "mrun channel_step ?ch evs = (ch', snd (mrun channel_step ?ch evs))"
    and out: "out = snd (channel_step ch e) @ snd (mrun channel_step ?ch evs)"
    using Cons.prems(2) by (auto simp: split_beta Let_def)
  from step_conserves [OF Cons.prems(1), of e] Cons.IH [OF inv run] show ?case
    unfolding out by (auto dest: mset_telescope)
qed

section \<open>One command on the wire\<close>

text \<open>
  What the transport and the callers see, checked against the command in flight: a command is written
  only when none is in flight, prompt data only for the one in flight, only the one in flight can
  succeed, and its settlement ends it. Other rejections (refused calls, the queue of a reset) pass.
\<close>

fun wire :: "nat option \<Rightarrow> action list \<Rightarrow> nat option option" where
  "wire cur [] = Some cur"
| "wire cur (WriteCommand i t # as) = (if cur = None then wire (Some i) as else None)"
| "wire cur (WriteData i t # as) = (if cur = Some i then wire cur as else None)"
| "wire cur (Resolve i c ls # as) = (if cur = Some i then wire None as else None)"
| "wire cur (Reject i err # as) = wire (if cur = Some i then None else cur) as"
| "wire cur (_ # as) = wire cur as"

lemma wire_append: "wire cur (as @ bs) = (case wire cur as of None \<Rightarrow> None | Some c \<Rightarrow> wire c bs)"
  by (induction cur as rule: wire.induct) auto

lemma wire_calls [simp]:
  "wire cur (map (\<lambda>h. CallHandler h u) hs @ as) = wire cur as"
  "wire cur (dispatchURC ch u) = Some cur"
proof -
  show *: "wire cur (map (\<lambda>h. CallHandler h u) hs @ as) = wire cur as" for as hs by (induction hs) simp_all
  show "wire cur (dispatchURC ch u) = Some cur"
    using * [of _ "map (\<lambda>h. CallHandler h u) (catchAllHandlers ch)"] * [of "catchAllHandlers ch" "[]"]
    by (simp add: dispatchURC_def)
qed

lemma wire_rejects:
  "wire (Some i) (map (\<lambda>i. Reject i err) (i # is)) = Some None"
  "wire None (map (\<lambda>i. Reject i err) is) = Some None"
  by (induction "is") simp_all

definition in_flight :: "channel \<Rightarrow> nat option" where
  "in_flight ch = map_option eid (currentEntry ch)"

lemma in_flight_simps:
  "currentEntry ch = None \<Longrightarrow> in_flight ch = None"
  "currentEntry ch = Some e \<Longrightarrow> in_flight ch = Some (eid e)"
  by (simp_all add: in_flight_def)

lemma in_flight_frame: "currentEntry ch' = currentEntry ch \<Longrightarrow> in_flight ch' = in_flight ch"
  by (simp add: in_flight_def)

definition wired :: "channel \<Rightarrow> channel \<times> action list \<Rightarrow> bool" where
  "wired ch r \<longleftrightarrow> wire (in_flight ch) (snd r) = Some (in_flight (fst r))"

lemma processQueue_wired:
  "currentEntry ch = None \<Longrightarrow> wire None (snd (processQueue ch)) = Some (in_flight (fst (processQueue ch)))"
  by (simp add: processQueue_def in_flight_def split: list.split)

lemma resolveCommand_wired: "wired ch (resolveCommand ch r)"
  by (cases "currentEntry ch")
    (simp_all add: wired_def resolveCommand_def Let_def split_beta in_flight_simps processQueue_wired)

lemma handle_parsed_wired: "wired ch (handle_parsed ch p)"
  by (cases p) (simp_all add: handle_parsed_def resolveCommand_wired, simp_all add: wired_def in_flight_def)

lemma handleLine_wired: "wired ch (handleLine ch line)"
  using handle_parsed_wired [of ch "parseLine line (line_context ch)"]
  by (auto simp: handleLine_def Let_def split_beta wired_def in_flight_def)

lemma handlePrompt_wired: "wired ch (handlePrompt ch)"
  by (cases "currentEntry ch") (auto simp: handlePrompt_def wired_def in_flight_def split: option.split)

lemma handleTimeout_wired: "wired ch (handleTimeout ch)"
  by (cases "currentEntry ch")
    (simp_all add: wired_def handleTimeout_def Let_def split_beta in_flight_simps processQueue_wired)

lemma handleWriteError_wired: "wired ch (handleWriteError ch i p err)"
  by (cases "currentEntry ch")
    (auto simp: wired_def handleWriteError_def Let_def split_beta in_flight_simps processQueue_wired)

lemma assembled_run_wired: "wired ch (mrun handle_assembled ch evs)"
proof (induction evs arbitrary: ch)
  case Nil
  then show ?case by (simp add: wired_def)
next
  case (Cons e evs)
  have "wired ch (handle_assembled ch e)"
    by (cases e) (simp_all add: handleLine_wired handlePrompt_wired)
  with Cons [of "fst (handle_assembled ch e)"] show ?case
    by (simp add: wired_def split_beta Let_def wire_append)
qed

lemma receive_wired: "wired ch (receive ch c)"
  using assembled_run_wired [of "ch\<lparr>lineBuffer := fst (feed (lineBuffer ch) c)\<rparr>" "snd (feed (lineBuffer ch) c)"]
  by (simp add: receive_def split_beta wired_def in_flight_def)

lemma wire_rejects_pending:
  "wire (in_flight ch) (map (\<lambda>i. Reject i err) (pending ch)) = Some None"
proof (cases "currentEntry ch")
  case None
  then show ?thesis by (simp only: in_flight_simps pending_simps wire_rejects(2))
next
  case (Some e)
  then show ?thesis by (simp only: in_flight_simps pending_simps wire_rejects(1))
qed

lemma reset_wired: "wired ch (reset_channel ch)" "wired ch (dispose_channel ch)"
  by (simp_all add: wired_def reset_channel_def dispose_channel_def wire_rejects_pending in_flight_simps(1))

lemma execute_wired:
  assumes "channel_inv ch"
  shows "wired ch (execute ch cmd opts)"
proof -
  let ?ch = "enqueue ch (make_command ch cmd opts)"
  have same: "in_flight (ch\<lparr>nextId := n\<rparr>) = in_flight ch" "in_flight ?ch = in_flight ch"
    "state ?ch = state ch" "currentEntry ?ch = currentEntry ch" for n
    by (simp_all add: enqueue_def in_flight_def)
  have fresh: "in_flight ch \<noteq> Some (nextId ch)"
    using assms by (cases "currentEntry ch") (auto simp: in_flight_def channel_inv_def)
  have "wired ch (processQueue ?ch)" if "state ch = Idle"
    using assms that processQueue_wired [of ?ch] same
    by (simp add: channel_inv_def wired_def in_flight_simps)
  with same fresh show ?thesis
    by (simp add: execute_def Let_def) (simp add: wired_def)
qed

lemma step_wired: "channel_inv ch \<Longrightarrow> wired ch (channel_step ch e)"
  by (cases e)
    (simp_all add: execute_wired receive_wired handleTimeout_wired handleWriteError_wired reset_wired,
     simp_all add: wired_def in_flight_def onURC_def offURC_def registerURCPrefixes_def)

lemma run_wired:
  assumes "channel_inv ch"
  shows "wired ch (mrun channel_step ch evs)"
  using assms
proof (induction evs arbitrary: ch)
  case Nil
  then show ?case by (simp add: wired_def)
next
  case (Cons e evs)
  from Cons.IH [of "fst (channel_step ch e)"] step_wired [OF Cons.prems, of e] Cons.prems show ?case
    by (simp add: wired_def split_beta Let_def wire_append channel_step_inv)
qed

end
