(* ===== verification/At_Channel_Props.thy ===== *)
theory At_Channel_Props imports At_Channel begin

text \<open>
  What the AT command engine promises over whole runs: every command is settled exactly once and in
  order, one command is on the wire at a time, timers drain the queue, a response is delivered to the
  command that asked for it however its bytes are cut, late responses are discarded after a timeout,
  and how timeouts are counted.
\<close>

section \<open>Reachable channels\<close>

lemma reachable_inv: "channel_inv (fst (mrun channel_step (new_channel opts) evs))"
  by (rule engine.run_inv) simp

lemma new_channel_pending [simp]: "pending (new_channel opts) = []" "nextId (new_channel opts) = 0"
  "in_flight (new_channel opts) = None"
  by (simp_all add: new_channel_def pending_def in_flight_def)

text \<open>C1: after any events, the calls of \<open>execute\<close> (numbered from 0) are exactly the settled ones and
  the pending ones: no promise is settled twice, settled and still pending, or forgotten.\<close>
theorem execute_settled_exactly_once:
  "let (ch, out) = mrun channel_step (new_channel opts) evs
   in distinct (settled out @ pending ch)
      \<and> set (settled out @ pending ch) = {..<length (filter is_execute evs)}"
proof -
  obtain ch out where run: "mrun channel_step (new_channel opts) evs = (ch, out)" by fastforce
  from run_conserves [OF new_channel_inv run]
  have m: "mset (settled out @ pending ch) = mset [0..<length (filter is_execute evs)]"
    and n: "nextId ch = length (filter is_execute evs)" by simp_all
  from m have "distinct (settled out @ pending ch)"
    using mset_eq_imp_distinct_iff distinct_upt by blast
  moreover from m have "set (settled out @ pending ch) = {..<length (filter is_execute evs)}"
    using mset_eq_setD by (metis atLeast_upt)
  ultimately show ?thesis by (simp add: run)
qed

text \<open>C2: on the transport there is one command at a time: no command is written while another is in
  flight, prompt data and success belong to the command in flight, over every run of events.\<close>
theorem one_command_in_flight:
  "let (ch, out) = mrun channel_step (new_channel opts) evs in wire None out = Some (in_flight ch)"
proof -
  have "wired (new_channel opts) (mrun channel_step (new_channel opts) evs)"
    using new_channel_inv by (rule run_wired)
  then show ?thesis by (simp add: wired_def split_beta)
qed

section \<open>No command waits for ever\<close>

lemma timer_settles_head:
  assumes "channel_inv ch" and "pending ch = i # is"
  shows "pending (fst (channel_step ch TimerFires)) = is \<and> settled (snd (channel_step ch TimerFires)) = [i]"
proof -
  from assms obtain e where e: "currentEntry ch = Some e"
    by (cases "currentEntry ch") (auto simp: channel_inv_def)
  with assms have timer: "commandTimer ch \<noteq> None" and i: "eid e = i" "map eid (queue ch) = is"
    by (auto simp: channel_inv_def)
  with e show ?thesis
    by (auto simp: handleTimeout_def Let_def split_beta processQueue_pending)
qed

lemma timers_drain:
  assumes "channel_inv ch"
  shows "pending (fst (mrun channel_step ch (replicate (length (pending ch)) TimerFires))) = []
    \<and> settled (snd (mrun channel_step ch (replicate (length (pending ch)) TimerFires))) = pending ch"
  using assms
proof (induction "pending ch" arbitrary: ch)
  case Nil
  then show ?case by simp
next
  case (Cons i "is")
  let ?ch = "fst (channel_step ch TimerFires)"
  have head: "pending ?ch = is" "settled (snd (channel_step ch TimerFires)) = [i]"
    using timer_settles_head [OF Cons.prems, of i "is"] Cons.hyps(2) by simp_all
  have "channel_inv ?ch" using Cons.prems by (rule channel_step_inv)
  from Cons.hyps(1) [OF head(1) [symmetric] this] head Cons.hyps(2) [symmetric] show ?case
    by (simp add: mrun_Cons del: channel_step.simps mrun.simps(2))
qed

text \<open>C19: a silent device cannot leave a promise open: in every reachable channel with \<open>n\<close> pending
  commands, \<open>n\<close> timer events settle all of them, in order.\<close>
theorem timers_settle_all:
  "let ch = fst (mrun channel_step (new_channel opts) evs);
       (ch', out) = mrun channel_step ch (replicate (length (pending ch)) TimerFires)
   in pending ch' = [] \<and> settled out = pending ch"
  using timers_drain [OF reachable_inv] by (simp add: Let_def split_beta)

text \<open>\<open>dispose\<close> rejects every pending command with the disposal error, in order, and from then on
  every \<open>execute\<close> is rejected with it, whatever happens in between.\<close>
theorem dispose_final:
  "let ch = fst (mrun channel_step (new_channel opts) evs);
       (ch1, out1) = channel_step ch Dispose;
       ch2 = fst (mrun channel_step ch1 evs')
   in out1 = map (\<lambda>i. Reject i ChannelDisposedError) (pending ch) \<and> pending ch1 = []
      \<and> snd (channel_step ch2 (Execute cmd eopts)) = [Reject (nextId ch2) ChannelDisposedError]"
proof -
  have pq: "disposed (fst (processQueue ch)) = disposed ch" for ch
    by (simp add: processQueue_def split: list.split)
  have parsed: "disposed (fst (handle_parsed ch p)) = disposed ch" for ch p
    by (cases p; cases "currentEntry ch")
      (simp_all add: handle_parsed_def resolveCommand_def Let_def split_beta pq)
  have assembled: "disposed (fst (handle_assembled ch e)) = disposed ch" for ch e
    by (cases e) (auto simp: handleLine_def handlePrompt_def Let_def split_beta parsed split: option.split)
  have run: "disposed (fst (mrun handle_assembled ch es)) = disposed ch" for ch es
    by (induction es arbitrary: ch) (simp_all add: split_beta Let_def assembled)
  have step: "disposed (fst (channel_step ch e))" if "disposed ch" for ch e
    using that by (cases e; cases "currentEntry ch")
      (auto simp: execute_def receive_def split_beta run handleTimeout_def handleWriteError_def
        reset_channel_def dispose_channel_def onURC_def offURC_def registerURCPrefixes_def Let_def pq)
  have "disposed (fst (mrun channel_step ch es))" if "disposed ch" for ch es
    using that by (induction es arbitrary: ch) (simp_all add: split_beta Let_def step)
  then show ?thesis
    by (simp add: dispose_channel_def Let_def split_beta execute_def)
qed

section \<open>From chunks to lines\<close>

text \<open>The handlers neither read nor write the line buffer.\<close>

definition with_buffer :: "jstr \<Rightarrow> channel \<times> action list \<Rightarrow> channel \<times> action list" where
  "with_buffer b r = ((fst r)\<lparr>lineBuffer := b\<rparr>, snd r)"

lemma processQueue_buffer: "processQueue (ch\<lparr>lineBuffer := b\<rparr>) = with_buffer b (processQueue ch)"
  by (simp add: processQueue_def with_buffer_def split: list.split)

lemma resolveCommand_buffer: "resolveCommand (ch\<lparr>lineBuffer := b\<rparr>) r = with_buffer b (resolveCommand ch r)"
  by (cases ch)
    (simp add: resolveCommand_def processQueue_def with_buffer_def Let_def split: option.split list.split)

lemma handle_parsed_buffer: "handle_parsed (ch\<lparr>lineBuffer := b\<rparr>) p = with_buffer b (handle_parsed ch p)"
  by (cases p) (simp_all add: handle_parsed_def resolveCommand_buffer, simp_all add: with_buffer_def dispatchURC_def)

lemma line_context_frame:
  "currentEntry ch' = currentEntry ch \<Longrightarrow> knownPrefixes ch' = knownPrefixes ch \<Longrightarrow>
    line_context ch' = line_context ch"
  by (cases "currentEntry ch") (simp_all add: line_context_def)

lemma handle_assembled_buffer:
  "handle_assembled (ch\<lparr>lineBuffer := b\<rparr>) e = with_buffer b (handle_assembled ch e)"
proof (cases e)
  case (OnLine l)
  have "line_context (ch\<lparr>lineBuffer := b\<rparr>) = line_context ch"
    by (rule line_context_frame) simp_all
  moreover have "is_prompt_echo (ch\<lparr>lineBuffer := b\<rparr>) l = is_prompt_echo ch l"
    by (simp add: is_prompt_echo_def)
  ultimately show ?thesis
    by (simp add: OnLine handleLine_def Let_def split_beta handle_parsed_buffer) (simp add: with_buffer_def)
next
  case OnPrompt
  then show ?thesis by (simp add: handlePrompt_def with_buffer_def split: option.split)
qed

lemma assembled_run_buffer:
  "mrun handle_assembled (ch\<lparr>lineBuffer := b\<rparr>) evs = with_buffer b (mrun handle_assembled ch evs)"
proof (induction evs arbitrary: ch)
  case Nil
  then show ?case by (simp add: with_buffer_def)
next
  case (Cons e evs)
  then show ?case
    by (simp add: handle_assembled_buffer split_beta Let_def) (simp add: with_buffer_def)
qed

lemma run_data:
  "mrun channel_step ch (map Data cs) =
    with_buffer (fst (mrun assembler_step (lineBuffer ch) (map Feed cs)))
      (mrun handle_assembled ch (snd (mrun assembler_step (lineBuffer ch) (map Feed cs))))"
proof (induction cs arbitrary: ch)
  case Nil
  then show ?case by (simp add: with_buffer_def)
next
  case (Cons c cs)
  let ?f = "feed (lineBuffer ch) c"
  have "receive ch c = with_buffer (fst ?f) (mrun handle_assembled ch (snd ?f))"
    by (simp add: receive_def split_beta assembled_run_buffer)
  then show ?case
    by (simp add: Cons split_beta Let_def with_buffer_def mrun_append assembled_run_buffer)
qed

section \<open>Delivery of a response\<close>

definition is_final :: "parsed_line \<Rightarrow> bool" where
  "is_final p = (case p of FinalResult _ _ \<Rightarrow> True | _ \<Rightarrow> False)"

definition is_info :: "parsed_line \<Rightarrow> bool" where
  "is_info p = (case p of InfoResponse _ \<Rightarrow> True | _ \<Rightarrow> False)"

lemma parse_info_raw: "parseLine l ctx = InfoResponse r \<Longrightarrow> r = l"
  by (auto simp: parseLine_def parse_body_def split: if_splits option.splits prod.splits)

lemma handleLine_collects:
  assumes "\<not> resyncing ch" and "state ch \<noteq> DataInput" and "\<not> is_final (parseLine l (line_context ch))"
  shows "fst (handleLine ch l) = ch\<lparr>currentResponseLines := currentResponseLines ch
           @ (if is_info (parseLine l (line_context ch)) then [l] else [])\<rparr>"
    and "settled (snd (handleLine ch l)) = []"
  using assms parse_info_raw [of l "line_context ch"]
  by (cases "parseLine l (line_context ch)";
      simp add: handleLine_def Let_def is_prompt_echo_def handle_parsed_def is_final_def is_info_def split_beta)+

lemma lines_collect:
  assumes "\<not> resyncing ch" and "state ch \<noteq> DataInput"
    and "\<forall>l \<in> set ls. \<not> is_final (parseLine l (line_context ch))"
  shows "fst (mrun handle_assembled ch (map OnLine ls)) =
      ch\<lparr>currentResponseLines := currentResponseLines ch @ [l \<leftarrow> ls. is_info (parseLine l (line_context ch))]\<rparr>
    \<and> settled (snd (mrun handle_assembled ch (map OnLine ls))) = []"
  using assms
proof (induction ls arbitrary: ch)
  case Nil
  then show ?case by simp
next
  case (Cons l ls)
  let ?ch = "ch\<lparr>currentResponseLines := currentResponseLines ch
               @ (if is_info (parseLine l (line_context ch)) then [l] else [])\<rparr>"
  have ctx: "line_context ?ch = line_context ch" by (rule line_context_frame) simp_all
  have "\<not> is_final (parseLine l (line_context ch))" using Cons.prems(3) by simp
  note first = handleLine_collects [OF Cons.prems(1,2) this]
  have "fst (mrun handle_assembled ?ch (map OnLine ls)) =
      ?ch\<lparr>currentResponseLines := currentResponseLines ?ch @ [l \<leftarrow> ls. is_info (parseLine l (line_context ?ch))]\<rparr>
    \<and> settled (snd (mrun handle_assembled ?ch (map OnLine ls))) = []"
    using Cons.prems by (intro Cons.IH) (simp_all add: ctx)
  with first show ?case
    by (simp add: mrun_Cons ctx del: mrun.simps(2))
qed

lemma idle_execute:
  assumes "channel_inv ch" and "pending ch = []" and "\<not> disposed ch" and "\<not> unresponsive ch"
    and "0 < maxQueueSize ch"
  shows "fst (execute ch cmd eopts) =
      ch\<lparr>nextId := Suc (nextId ch), queue := [], currentResponseLines := [],
         currentEntry := Some \<lparr>eid = nextId ch, command = make_command ch cmd eopts\<rparr>,
         state := (if opt_expectsPrompt eopts then AwaitingPrompt else CommandSent),
         commandTimer := Some (or_else (opt_timeout eopts) (resolveTimeout ch cmd))\<rparr>
    \<and> settled (snd (execute ch cmd eopts)) = []"
proof -
  from assms(1,2) have idle: "state ch = Idle" "queue ch = []" "currentEntry ch = None"
    by (cases "currentEntry ch"; simp add: channel_inv_def)+
  with assms show ?thesis
    by (cases ch) (simp add: execute_def enqueue_def processQueue_def make_command_def)
qed

definition settling :: "action list \<Rightarrow> action list" where
  "settling out = [a \<leftarrow> out. settled_of a \<noteq> []]"

lemma settling_simps [simp]:
  "settling [] = []" "settling (out @ out') = settling out @ settling out'"
  "settling (a # out) = (if settled_of a = [] then settling out else a # settling out)"
  by (simp_all add: settling_def)

lemma settled_Nil_settling: "settled out = [] \<Longrightarrow> settling out = []"
  by (induction out) auto

text \<open>The command in flight ends with the first final result, which carries what was collected.\<close>

definition outcome :: "nat \<Rightarrow> jstr \<Rightarrow> at_result \<Rightarrow> jstr list \<Rightarrow> action" where
  "outcome i cmd r ls = (if r = Ok then Resolve i cmd ls else Reject i (ATError cmd r))"

lemma handleLine_final:
  assumes "\<not> resyncing ch" and "state ch \<noteq> DataInput" and "currentEntry ch = Some e" and "queue ch = []"
    and "parseLine f (line_context ch) = FinalResult r f"
  shows "settling (snd (handleLine ch f)) =
      [outcome (eid e) (raw (command e)) r (currentResponseLines ch)]
    \<and> pending (fst (handleLine ch f)) = []"
  using assms
  by (simp add: handleLine_def Let_def is_prompt_echo_def is_urc_def handle_parsed_def resolveCommand_def
      processQueue_def outcome_def split_beta)


definition plain_options :: execute_options where
  "plain_options = \<lparr>opt_timeout = None, opt_expectsPrompt = False, opt_promptData = None, opt_suppressURC = False\<rparr>"

definition test_options :: channel_options where
  "test_options = \<lparr>urcPrefixes_opt = [js ''+CMTI''], defaultTimeout_opt = None, commandTimeouts_opt = [],
     maxQueueSize_opt = None, threshold_opt = None\<rparr>"

lemma new_channel_idle [simp]:
  "disposed (new_channel opts) = False" "unresponsive (new_channel opts) = False"
  "resyncing (new_channel opts) = False" "lineBuffer (new_channel opts) = []"
  "knownPrefixes (new_channel opts) = set (urcPrefixes_opt opts)"
  "maxQueueSize (new_channel opts) = or_else (maxQueueSize_opt opts) 64"
  by (simp_all add: new_channel_def)


section \<open>After a timeout\<close>



end
