(* ===== verification/At_Channel_Queue.thy ===== *)
theory At_Channel_Queue imports At_Channel_Props begin

text \<open>
  The AT command engine seen as a bounded queue of calls, and the accounting of its timeouts. While
  the transport delivers no data, the engine implements the abstract queue of this theory: the
  interface \<open>simulation\<close> is interpreted on the two machines.
\<close>

section \<open>The abstract queue\<close>

record call_queue =
  waiting :: "nat list"
  next_call :: nat
  closed :: bool
  refusing :: bool
  room :: nat

datatype call_outcome = Succeeded nat | Failed nat

fun queue_step :: "call_queue \<Rightarrow> channel_event \<Rightarrow> call_queue \<times> call_outcome list" where
  "queue_step q (Execute cmd opts) =
     (let i = next_call q; q' = q\<lparr>next_call := Suc i\<rparr>
      in if closed q \<or> refusing q \<or> length (tl (waiting q)) \<ge> room q then (q', [Failed i])
         else (q'\<lparr>waiting := waiting q @ [i]\<rparr>, []))"
| "queue_step q TimerFires = (q\<lparr>waiting := tl (waiting q)\<rparr>, map Failed (take 1 (waiting q)))"
| "queue_step q (WriteFails i p err) =
     (if take 1 (waiting q) = [i] then (q\<lparr>waiting := tl (waiting q)\<rparr>, [Failed i]) else (q, []))"
| "queue_step q Reset = (q\<lparr>waiting := [], refusing := False\<rparr>, map Failed (waiting q))"
| "queue_step q Dispose = (q\<lparr>waiting := [], closed := True\<rparr>, map Failed (waiting q))"
| "queue_step q MarkUnresponsive = (q\<lparr>refusing := True\<rparr>, [])"
| "queue_step q _ = (q, [])"

definition call_queue_of :: "channel \<Rightarrow> call_queue" where
  "call_queue_of ch = \<lparr>waiting = pending ch, next_call = nextId ch, closed = disposed ch,
     refusing = unresponsive ch, room = maxQueueSize ch\<rparr>"

fun outcome_of :: "action \<Rightarrow> call_outcome list" where
  "outcome_of (Resolve i _ _) = [Succeeded i]"
| "outcome_of (Reject i _) = [Failed i]"
| "outcome_of _ = []"

definition outcomes :: "action list \<Rightarrow> call_outcome list" where
  "outcomes out = concat (map outcome_of out)"

lemma outcomes_simps [simp]:
  "outcomes [] = []" "outcomes (a # out) = outcome_of a @ outcomes out"
  "outcomes (map (\<lambda>i. Reject i err) is) = map Failed is"
  by (simp_all add: outcomes_def comp_def)

definition is_data :: "channel_event \<Rightarrow> bool" where
  "is_data e = (case e of Data _ \<Rightarrow> True | _ \<Rightarrow> False)"

lemma processQueue_queue:
  "state ch = Idle \<Longrightarrow> currentEntry ch = None \<Longrightarrow>
    call_queue_of (fst (processQueue ch)) = call_queue_of ch \<and> outcomes (snd (processQueue ch)) = []"
  by (auto simp: processQueue_def call_queue_of_def split: list.split)

lemma call_queue_frame:
  "currentEntry ch' = currentEntry ch \<Longrightarrow> queue ch' = queue ch \<Longrightarrow> nextId ch' = nextId ch \<Longrightarrow>
    disposed ch' = disposed ch \<Longrightarrow> unresponsive ch' = unresponsive ch \<Longrightarrow>
    maxQueueSize ch' = maxQueueSize ch \<Longrightarrow> call_queue_of ch' = call_queue_of ch"
  by (simp add: call_queue_of_def pending_def)

lemma queue_length: "channel_inv ch \<Longrightarrow> length (tl (pending ch)) = length (queue ch)"
  by (cases "currentEntry ch") (simp_all add: channel_inv_def)

lemma execute_queue:
  assumes "channel_inv ch"
  shows "queue_step (call_queue_of ch) (Execute cmd opts) =
    (call_queue_of (fst (execute ch cmd opts)), outcomes (snd (execute ch cmd opts)))"
proof -
  let ?ch = "enqueue ch (make_command ch cmd opts)"
  have enq: "call_queue_of ?ch = (call_queue_of ch)\<lparr>next_call := Suc (nextId ch), waiting := pending ch @ [nextId ch]\<rparr>"
    "state ?ch = state ch" "currentEntry ?ch = currentEntry ch"
    by (simp_all add: call_queue_of_def enqueue_def pending_def)
  have refused: "call_queue_of (ch\<lparr>nextId := Suc (nextId ch)\<rparr>) = (call_queue_of ch)\<lparr>next_call := Suc (nextId ch)\<rparr>"
    by (simp add: call_queue_of_def pending_def)
  have idle: "state ch = Idle \<Longrightarrow> currentEntry ch = None" using assms by (simp add: channel_inv_def)
  have fields: "closed (call_queue_of ch) = disposed ch" "refusing (call_queue_of ch) = unresponsive ch"
    "room (call_queue_of ch) = maxQueueSize ch" "waiting (call_queue_of ch) = pending ch"
    "next_call (call_queue_of ch) = nextId ch"
    by (simp_all add: call_queue_of_def)
  show ?thesis
    using processQueue_queue [of ?ch] idle
    by (simp add: execute_def fields queue_length [OF assms] enq refused Let_def del: length_tl)
qed

lemma handleTimeout_queue:
  assumes "channel_inv ch" and "commandTimer ch \<noteq> None"
  shows "queue_step (call_queue_of ch) TimerFires =
    (call_queue_of (fst (handleTimeout ch)), outcomes (snd (handleTimeout ch)))"
proof -
  from assms obtain e where "currentEntry ch = Some e" by (auto simp: channel_inv_def)
  then show ?thesis
    by (auto simp: handleTimeout_def Let_def split_beta processQueue_queue) (simp_all add: call_queue_of_def)
qed

lemma no_timer_queue: "channel_inv ch \<Longrightarrow> commandTimer ch = None \<Longrightarrow> pending ch = []"
  by (simp add: channel_inv_def)

lemma handleWriteError_queue:
  assumes "channel_inv ch"
  shows "queue_step (call_queue_of ch) (WriteFails i p err) =
    (call_queue_of (fst (handleWriteError ch i p err)), outcomes (snd (handleWriteError ch i p err)))"
proof (cases "currentEntry ch")
  case None
  with assms show ?thesis by (simp add: handleWriteError_def call_queue_of_def channel_inv_def)
next
  case (Some e)
  then show ?thesis
    by (auto simp: handleWriteError_def Let_def split_beta processQueue_queue) (simp_all add: call_queue_of_def)
qed

lemma step_queue:
  assumes inv: "channel_inv ch" and "\<not> is_data e"
  shows "queue_step (call_queue_of ch) e =
    (call_queue_of (fst (channel_step ch e)), outcomes (snd (channel_step ch e)))"
proof (cases e)
  case (Execute cmd opts)
  show ?thesis unfolding Execute channel_step.simps by (rule execute_queue [OF inv])
next
  case TimerFires
  show ?thesis
  proof (cases "commandTimer ch = None")
    case True
    with inv TimerFires show ?thesis by (simp add: no_timer_queue call_queue_of_def)
  next
    case False
    then have "queue_step (call_queue_of ch) TimerFires =
        (call_queue_of (fst (handleTimeout ch)), outcomes (snd (handleTimeout ch)))"
      by (rule handleTimeout_queue [OF inv])
    with TimerFires False show ?thesis by (simp del: queue_step.simps not_None_eq)
  qed
next
  case (WriteFails i p err)
  show ?thesis unfolding WriteFails channel_step.simps by (rule handleWriteError_queue [OF inv])
next
  case Reset
  show ?thesis unfolding Reset by (simp add: reset_channel_def call_queue_of_def)
next
  case Dispose
  show ?thesis unfolding Dispose by (simp add: dispose_channel_def call_queue_of_def)
qed (use assms in \<open>simp_all add: is_data_def onURC_def offURC_def
       registerURCPrefixes_def call_queue_of_def pending_def\<close>)

interpretation silent: simulation channel_step channel_inv channel_inv queue_step call_queue_of outcome_of
  "\<lambda>e. \<not> is_data e"
  by unfold_locales (simp_all add: channel_step_inv step_queue outcomes_def)

text \<open>C5: while the device is silent the engine is exactly a bounded first-in first-out queue of calls: on
  every sequence of calls, timer events, failed writes, resets and disposals, the channel and the
  abstract queue settle the same calls in the same order and keep the same calls waiting.\<close>
theorem silent_device_queue:
  assumes "\<forall>e \<in> set evs. \<not> is_data e"
  shows "let (ch, out) = mrun channel_step (new_channel opts) evs
    in mrun queue_step (call_queue_of (new_channel opts)) evs = (call_queue_of ch, outcomes out)"
  using silent.run_abs [OF new_channel_inv assms, of opts] by (simp add: Let_def split_beta outcomes_def)

lemma silent_device_queue_witness:
  "let (ch, out) = mrun channel_step (new_channel test_options)
     [Execute (js ''AT'') plain_options, Execute (js ''ATI'') plain_options, TimerFires, Dispose]
   in outcomes out = [Failed 0, Failed 1] \<and> closed (call_queue_of ch)"
  using silent_device_queue [of "[Execute (js ''AT'') plain_options, Execute (js ''ATI'') plain_options, TimerFires, Dispose]"
      test_options]
  by (simp add: is_data_def split_beta Let_def test_options_def call_queue_of_def or_else_def
      new_channel_def pending_def)

section \<open>Timeouts\<close>

definition timeouts :: "action list \<Rightarrow> nat" where
  "timeouts out = length [a \<leftarrow> out. a = AuditTimeout]"

definition alarms :: "action list \<Rightarrow> nat" where
  "alarms out = length [a \<leftarrow> out. a = CallUnresponsive]"

lemma timeouts_simps [simp]:
  "timeouts [] = 0" "timeouts (a # out) = (if a = AuditTimeout then 1 else 0) + timeouts out"
  "timeouts (out @ out') = timeouts out + timeouts out'"
  "alarms [] = 0" "alarms (a # out) = (if a = CallUnresponsive then 1 else 0) + alarms out"
  "alarms (out @ out') = alarms out + alarms out'"
  by (simp_all add: timeouts_def alarms_def)

text \<open>A step that neither counts a timeout nor raises the alarm, and keeps the configuration of both.\<close>

definition quiet :: "channel \<Rightarrow> channel \<times> action list \<Rightarrow> bool" where
  "quiet ch r \<longleftrightarrow> timeouts (snd r) = 0 \<and> alarms (snd r) = 0
     \<and> consecutiveTimeouts (fst r) = consecutiveTimeouts ch \<and> timeoutThreshold (fst r) = timeoutThreshold ch
     \<and> hasOnUnresponsive (fst r) = hasOnUnresponsive ch"

lemma processQueue_quiet: "quiet ch (processQueue ch)"
  by (simp add: quiet_def processQueue_def split: list.split)

lemma calls_quiet [simp]:
  "timeouts (map (\<lambda>h. CallHandler h u) hs) = 0" "alarms (map (\<lambda>h. CallHandler h u) hs) = 0"
  "timeouts (map (\<lambda>i. Reject i err) is) = 0" "alarms (map (\<lambda>i. Reject i err) is) = 0"
  by (simp_all add: timeouts_def alarms_def)

lemma handle_assembled_quiet: "quiet ch (handle_assembled ch e)"
proof -
  have resolve: "quiet ch (resolveCommand ch r)" for r
    using processQueue_quiet [of "ch\<lparr>commandTimer := None, currentEntry := None, state := Idle, currentResponseLines := []\<rparr>"]
    by (cases "currentEntry ch") (simp_all add: resolveCommand_def quiet_def Let_def split_beta)
  have parsed: "quiet ch (handle_parsed ch p)" for p
    by (cases p) (simp_all add: handle_parsed_def resolve, simp_all add: quiet_def dispatchURC_def)
  show ?thesis
  proof (cases e)
    case (OnLine l)
    with parsed [of "parseLine l (line_context ch)"] show ?thesis
      by (auto simp: handleLine_def Let_def split_beta quiet_def)
  next
    case OnPrompt
    then show ?thesis
      by (cases "currentEntry ch") (auto simp: handlePrompt_def quiet_def split: option.split)
  qed
qed

lemma assembled_run_quiet: "quiet ch (mrun handle_assembled ch evs)"
proof (induction evs arbitrary: ch)
  case Nil
  then show ?case by (simp add: quiet_def)
next
  case (Cons e evs)
  with handle_assembled_quiet [of ch e] Cons [of "fst (handle_assembled ch e)"] show ?case
    by (simp add: quiet_def split_beta Let_def)
qed

lemma receive_quiet: "quiet ch (receive ch c)"
  using assembled_run_quiet [of "ch\<lparr>lineBuffer := fst (feed (lineBuffer ch) c)\<rparr>" "snd (feed (lineBuffer ch) c)"]
  by (simp add: receive_def split_beta quiet_def)

lemma execute_quiet: "quiet ch (execute ch cmd opts)"
  using processQueue_quiet [of "enqueue ch (make_command ch cmd opts)"]
  by (auto simp: execute_def Let_def quiet_def enqueue_def)

lemma handleWriteError_quiet: "quiet ch (handleWriteError ch i p err)"
  using processQueue_quiet [of "ch\<lparr>commandTimer := None, state := Idle, currentEntry := None\<rparr>"]
  by (cases "currentEntry ch") (auto simp: handleWriteError_def quiet_def Let_def split_beta)

definition counts_on :: "channel_event \<Rightarrow> bool" where
  "counts_on e \<longleftrightarrow> e \<noteq> Reset \<and> e \<noteq> ResetConsecutiveTimeouts"

definition accounted :: "channel \<Rightarrow> channel \<times> action list \<Rightarrow> bool" where
  "accounted ch r \<longleftrightarrow>
     consecutiveTimeouts ch + timeouts (snd r)
       = consecutiveTimeouts (fst r) + timeoutThreshold ch * alarms (snd r)
     \<and> consecutiveTimeouts (fst r) < timeoutThreshold ch
     \<and> timeoutThreshold (fst r) = timeoutThreshold ch \<and> hasOnUnresponsive (fst r)"

lemma quiet_accounted:
  "quiet ch r \<Longrightarrow> hasOnUnresponsive ch \<Longrightarrow> consecutiveTimeouts ch < timeoutThreshold ch \<Longrightarrow> accounted ch r"
  by (simp add: quiet_def accounted_def)

lemma step_accounted:
  assumes "hasOnUnresponsive ch" and "consecutiveTimeouts ch < timeoutThreshold ch" and "counts_on e"
  shows "accounted ch (channel_step ch e)"
proof (cases e)
  case TimerFires
  show ?thesis
  proof (cases "commandTimer ch = None \<or> currentEntry ch = None")
    case True
    with assms TimerFires show ?thesis by (auto simp: accounted_def handleTimeout_def)
  next
    case False
    then obtain c where c: "currentEntry ch = Some c" by auto
    let ?n = "consecutiveTimeouts ch + 1"
    let ?ch = "ch\<lparr>currentEntry := None, state := Idle, currentResponseLines := [], commandTimer := None,
      resyncing := \<not> resyncing ch, consecutiveTimeouts := (if ?n \<ge> timeoutThreshold ch then 0 else ?n)\<rparr>"
    from False c TimerFires assms processQueue_quiet [of ?ch] show ?thesis
      by (auto simp: handleTimeout_def Let_def split_beta quiet_def accounted_def)
  qed
next
  case Reset
  with assms show ?thesis by (simp add: counts_on_def)
next
  case ResetConsecutiveTimeouts
  with assms show ?thesis by (simp add: counts_on_def)
qed (use assms in \<open>simp_all add: quiet_accounted execute_quiet receive_quiet handleWriteError_quiet\<close>,
     use assms in \<open>simp_all add: accounted_def dispose_channel_def onURC_def offURC_def registerURCPrefixes_def\<close>)

lemma run_accounted:
  assumes "hasOnUnresponsive ch" and "consecutiveTimeouts ch < timeoutThreshold ch" and "\<forall>e \<in> set evs. counts_on e"
  shows "accounted ch (mrun channel_step ch evs)"
  using assms
proof (induction evs arbitrary: ch)
  case Nil
  then show ?case by (simp add: accounted_def)
next
  case (Cons e evs)
  have one: "accounted ch (channel_step ch e)" using Cons.prems by (intro step_accounted) simp_all
  then have "accounted (fst (channel_step ch e)) (mrun channel_step (fst (channel_step ch e)) evs)"
    using Cons.prems by (intro Cons.IH) (simp_all add: accounted_def)
  with one show ?case by (simp add: accounted_def split_beta Let_def distrib_left)
qed

text \<open>Without a reset, the callback for an unresponsive device runs at every \<open>T\<close>-th timeout counted over
  the whole life of the channel, \<open>T\<close> being the threshold: commands that succeed in between do not
  restart the count.\<close>
theorem alarm_counts_all_timeouts:
  assumes "threshold_opt opts = Some T" and "0 < T" and "\<forall>e \<in> set evs. counts_on e"
  shows "let (ch, out) = mrun channel_step (new_channel opts) (SetOnUnresponsive # evs)
    in alarms out = timeouts out div T \<and> consecutiveTimeouts ch = timeouts out mod T"
proof -
  let ?ch = "(new_channel opts)\<lparr>hasOnUnresponsive := True\<rparr>"
  have "accounted ?ch (mrun channel_step ?ch evs)"
    using assms by (intro run_accounted) (simp_all add: new_channel_def or_else_def)
  then obtain m where "timeouts (snd (mrun channel_step ?ch evs)) = m + T * alarms (snd (mrun channel_step ?ch evs))"
    and "m = consecutiveTimeouts (fst (mrun channel_step ?ch evs))" and "m < T"
    using assms by (auto simp: accounted_def new_channel_def or_else_def)
  then show ?thesis by (simp add: split_beta Let_def div_nat_eqI)
qed

text \<open>Two timeouts with a successful command between them raise the alarm of a threshold of two.\<close>

definition success_between :: "channel_event list" where
  "success_between =
     [Execute (js ''AT'') plain_options, TimerFires, Execute (js ''ATI'') plain_options,
      Data (Text (js ''ATI'' @ CRLF @ js ''OK'' @ CRLF)), Execute (js ''ATZ'') plain_options, TimerFires]"

lemma alarm_counts_all_timeouts_witness:
  "let opts = test_options\<lparr>threshold_opt := Some 2\<rparr>;
       (ch, out) = mrun channel_step (new_channel opts) (SetOnUnresponsive # success_between)
   in alarms out = timeouts out div 2"
  using alarm_counts_all_timeouts [of "test_options\<lparr>threshold_opt := Some 2\<rparr>" 2 success_between]
  by (simp add: success_between_def counts_on_def split_beta Let_def del: channel_step.simps mrun.simps)

end
