(* ===== verification/Script.thy ===== *)
theory Script imports At_Channel begin

text \<open>
  The service modules are asynchronous methods that call \<open>channel.execute\<close> and use the lines of the
  response. Such a method is a \<open>script\<close>: it returns, throws, or executes a command and goes on with the
  lines. A rejected command makes the method throw its error, unless the method catches it; \<open>ExecCatch\<close>
  is a command whose outcome, error or lines, the method goes on with; \<open>script_catch m h\<close> is
  \<open>try { m } catch (e) { h }\<close>, and \<open>script_settled\<close> an entry of \<open>Promise.allSettled\<close>. \<open>run_script\<close> plays a script against
  the responses of the device and records the commands; with no response left, the script waits.

  The matchers are the regular expressions of these modules. Each is a sequence of literals and of
  classes repeated greedily, where what follows a repetition cannot begin with a character of its
  class, so that no match needs backtracking.
\<close>

section \<open>Scripts\<close>

datatype 'a script =
    Return 'a
  | Throw cellary_error
  | Exec jstr execute_options "jstr list \<Rightarrow> 'a script"
  | ExecCatch jstr execute_options "cellary_error + jstr list \<Rightarrow> 'a script"

primrec script_bind :: "'a script \<Rightarrow> ('a \<Rightarrow> 'b script) \<Rightarrow> 'b script" where
  "script_bind (Return x) f = f x"
| "script_bind (Throw e) f = Throw e"
| "script_bind (Exec cmd opts k) f = Exec cmd opts (\<lambda>ls. script_bind (k ls) f)"
| "script_bind (ExecCatch cmd opts k) f = ExecCatch cmd opts (\<lambda>ls. script_bind (k ls) f)"

primrec script_catch :: "'a script \<Rightarrow> (cellary_error \<Rightarrow> 'a script) \<Rightarrow> 'a script" where
  "script_catch (Return x) h = Return x"
| "script_catch (Throw e) h = h e"
| "script_catch (Exec cmd opts k) h =
     ExecCatch cmd opts (\<lambda>r. case r of Inl e \<Rightarrow> h e | Inr ls \<Rightarrow> script_catch (k ls) h)"
| "script_catch (ExecCatch cmd opts k) h = ExecCatch cmd opts (\<lambda>r. script_catch (k r) h)"

definition script_settled :: "'a script \<Rightarrow> 'a option script" where
  "script_settled m = script_catch (script_bind m (\<lambda>x. Return (Some x))) (\<lambda>_. Return None)"

definition no_options :: execute_options where
  "no_options = \<lparr>opt_timeout = None, opt_expectsPrompt = False, opt_promptData = None, opt_suppressURC = False\<rparr>"

definition throwing :: "cellary_error + 'a \<Rightarrow> 'a script" where
  "throwing r = (case r of Inl e \<Rightarrow> Throw e | Inr x \<Rightarrow> Return x)"

type_synonym device_response = "cellary_error + jstr list"

datatype 'a script_result = Returned 'a | Thrown cellary_error | Waiting

primrec run_script ::
  "'a script \<Rightarrow> device_response list \<Rightarrow> (jstr \<times> execute_options) list \<times> 'a script_result" where
  "run_script (Return x) rs = ([], Returned x)"
| "run_script (Throw e) rs = ([], Thrown e)"
| "run_script (Exec cmd opts k) rs =
     (case rs of
        [] \<Rightarrow> ([(cmd, opts)], Waiting)
      | Inl e # rs' \<Rightarrow> ([(cmd, opts)], Thrown e)
      | Inr ls # rs' \<Rightarrow> (let (cmds, res) = run_script (k ls) rs' in ((cmd, opts) # cmds, res)))"
| "run_script (ExecCatch cmd opts k) rs =
     (case rs of
        [] \<Rightarrow> ([(cmd, opts)], Waiting)
      | r # rs' \<Rightarrow> (let (cmds, res) = run_script (k r) rs' in ((cmd, opts) # cmds, res)))"

lemma script_bind_assoc: "script_bind (script_bind m f) g = script_bind m (\<lambda>x. script_bind (f x) g)"
  by (induction m) simp_all

text \<open>
  A method that catches issues the same commands as its body up to the first error, and then what the
  handler issues.
\<close>

lemma run_script_catch:
  "run_script (script_catch m h) rs =
     (case run_script m rs of
        (cmds, Thrown e) \<Rightarrow> (case run_script (h e) (drop (length cmds) rs) of (cmds', res) \<Rightarrow> (cmds @ cmds', res))
      | r \<Rightarrow> r)"
proof (induction m arbitrary: rs)
  case (Exec cmd opts k)
  show ?case
  proof (cases rs)
    case (Cons r rs')
    then show ?thesis
      by (cases r) (auto simp: Exec.IH split: prod.split script_result.split)
  qed simp
next
  case (ExecCatch cmd opts k)
  show ?case
  proof (cases rs)
    case (Cons r rs')
    then show ?thesis by (auto simp: ExecCatch.IH split: prod.split script_result.split)
  qed simp
qed (simp_all split: prod.split script_result.split)

lemma run_script_bind:
  "run_script (script_bind m f) rs =
     (case run_script m rs of
        (cmds, Returned x) \<Rightarrow> (case run_script (f x) (drop (length cmds) rs) of (cmds', res) \<Rightarrow> (cmds @ cmds', res))
      | (cmds, Thrown e) \<Rightarrow> (cmds, Thrown e)
      | (cmds, Waiting) \<Rightarrow> (cmds, Waiting))"
proof (induction m arbitrary: rs)
  case (Exec cmd opts k)
  show ?case
  proof (cases rs)
    case (Cons r rs')
    then show ?thesis by (cases r) (auto simp: Exec.IH split: prod.split script_result.split)
  qed simp
next
  case (ExecCatch cmd opts k)
  show ?case
  proof (cases rs)
    case (Cons r rs')
    then show ?thesis by (auto simp: ExecCatch.IH split: prod.split script_result.split)
  qed simp
qed (simp_all split: prod.split)

section \<open>Matchers\<close>

type_synonym matcher = "jstr \<Rightarrow> (jstr list \<times> jstr) option"

definition rx_lit :: "jstr \<Rightarrow> matcher" where
  "rx_lit w s = (if js_startsWith s w then Some ([], drop (length w) s) else None)"

definition rx_star :: "(nat \<Rightarrow> bool) \<Rightarrow> matcher" where
  "rx_star p s = Some ([], dropWhile p s)"

definition rx_plus :: "(nat \<Rightarrow> bool) \<Rightarrow> matcher" where
  "rx_plus p s = (if takeWhile p s = [] then None else Some ([], dropWhile p s))"

text \<open>A capturing group around a repetition.\<close>

definition rx_group :: "(nat \<Rightarrow> bool) \<Rightarrow> matcher" where
  "rx_group p s = (if takeWhile p s = [] then None else Some ([takeWhile p s], dropWhile p s))"

definition rx_group_star :: "(nat \<Rightarrow> bool) \<Rightarrow> matcher" where
  "rx_group_star p s = Some ([takeWhile p s], dropWhile p s)"

definition rx_end :: matcher where
  "rx_end s = (if s = [] then Some ([], []) else None)"

fun rx_seq :: "matcher list \<Rightarrow> matcher" where
  "rx_seq [] s = Some ([], s)"
| "rx_seq (m # ms) s =
     (case m s of None \<Rightarrow> None
      | Some (gs, s') \<Rightarrow> (case rx_seq ms s' of None \<Rightarrow> None | Some (gs', s'') \<Rightarrow> Some (gs @ gs', s'')))"

text \<open>\<open>exec\<close> of an anchored expression, and of one that matches anywhere (leftmost).\<close>

definition rx_anchored :: "matcher list \<Rightarrow> jstr \<Rightarrow> jstr list option" where
  "rx_anchored ms s = map_option fst (rx_seq ms s)"

fun rx_search :: "matcher list \<Rightarrow> jstr \<Rightarrow> jstr list option" where
  "rx_search ms [] = rx_anchored ms []"
| "rx_search ms (c # s) = (case rx_anchored ms (c # s) of Some gs \<Rightarrow> Some gs | None \<Rightarrow> rx_search ms s)"

definition rx_digit :: "nat \<Rightarrow> bool" where
  "rx_digit c \<longleftrightarrow> 48 \<le> c \<and> c \<le> 57"

definition rx_not :: "char \<Rightarrow> nat \<Rightarrow> bool" where
  "rx_not d c \<longleftrightarrow> c \<noteq> of_char d"

lemmas rx_defs = rx_lit_def rx_star_def rx_plus_def rx_group_def rx_group_star_def rx_end_def rx_anchored_def
  rx_digit_def rx_not_def

end
