(* ===== verification/Gsm7.thy ===== *)
theory Gsm7 imports Prelude begin

text \<open>
  \<^verbatim>\<open>packages/core/src/protocols/at/gsm7.ts\<close>: which texts the GSM 7-bit alphabet can write, and how many
  septets they take. The loops of the source run over the code points of a text; \<open>js_chars\<close> is that
  iteration, a surrogate pair being one character of two code units.
\<close>

section \<open>Iteration over characters\<close>

definition is_high :: "nat \<Rightarrow> bool" where
  "is_high c \<longleftrightarrow> 55296 \<le> c \<and> c \<le> 56319"

definition is_low :: "nat \<Rightarrow> bool" where
  "is_low c \<longleftrightarrow> 56320 \<le> c \<and> c \<le> 57343"

fun js_chars :: "jstr \<Rightarrow> jstr list" where
  "js_chars [] = []"
| "js_chars [c] = [[c]]"
| "js_chars (c # d # s) =
     (if is_high c \<and> is_low d then [c, d] # js_chars s else [c] # js_chars (d # s))"

lemma concat_js_chars [simp]: "concat (js_chars s) = s"
  by (induction s rule: js_chars.induct) simp_all

lemma js_chars_nonempty: "ch \<in> set (js_chars s) \<Longrightarrow> ch \<noteq> []"
  by (induction s rule: js_chars.induct) (auto split: if_splits)

section \<open>The alphabet\<close>

definition GSM7_BASIC :: "jstr list" where
  "GSM7_BASIC = map (\<lambda>c. [c])
    [64, 163, 36, 165, 232, 233, 249, 236, 242, 199, 10, 216, 248, 13, 197, 229,
     916, 95, 934, 915, 923, 937, 928, 936, 931, 920, 926, 198, 230, 223, 201, 32,
     33, 34, 35, 164, 37, 38, 39, 40, 41, 42, 43, 44, 45, 46, 47, 48,
     49, 50, 51, 52, 53, 54, 55, 56, 57, 58, 59, 60, 61, 62, 63, 161,
     65, 66, 67, 68, 69, 70, 71, 72, 73, 74, 75, 76, 77, 78, 79, 80,
     81, 82, 83, 84, 85, 86, 87, 88, 89, 90, 196, 214, 209, 220, 167, 191,
     97, 98, 99, 100, 101, 102, 103, 104, 105, 106, 107, 108, 109, 110, 111, 112,
     113, 114, 115, 116, 117, 118, 119, 120, 121, 122, 228, 246, 241, 252, 224]"

definition GSM7_EXTENSION_CHARS :: "jstr list" where
  "GSM7_EXTENSION_CHARS = map (\<lambda>c. [c]) [12, 94, 123, 125, 92, 91, 93, 126, 124, 8364]"

definition isGsm7BitCompatible :: "jstr \<Rightarrow> bool" where
  "isGsm7BitCompatible text \<longleftrightarrow>
     list_all (\<lambda>ch. ch \<in> set GSM7_BASIC \<or> ch \<in> set GSM7_EXTENSION_CHARS) (js_chars text)"

definition gsm7SeptetLength :: "jstr \<Rightarrow> nat" where
  "gsm7SeptetLength text =
     foldl (\<lambda>septets ch. septets + (if ch \<in> set GSM7_EXTENSION_CHARS then 2 else 1)) 0 (js_chars text)"

end
