(* ===== verification/Pdu_Decode.thy ===== *)
theory Pdu_Decode imports Errors Gsm7 begin

text \<open>
  \<^verbatim>\<open>packages/core/src/protocols/at/services/sms/pdu-decode.ts\<close>: the decoder of stored messages. The hex
  reader is an explicit state. The functions take what the modem sends as it is, so an octet read is a
  \<open>jsnum\<close>: \<open>parseInt\<close> of two characters is \<open>NaN\<close>, or an integer between -15 and 255. A thrown
  \<open>ParseError\<close> is \<open>Inl\<close>. The scan of the user data header need not return on such input: it is a
  \<open>partial_function\<close>, and the functions that call it give \<open>None\<close> when it does not return.
\<close>

section \<open>Data\<close>

datatype sms_encoding = Gsm7Text | Ucs2Text

record concat_info =
  reference :: jsnum
  totalParts :: jsnum
  partNumber :: jsnum

record decoded_deliver =
  sender :: jstr
  dl_text :: jstr
  timestamp :: int
  dl_encoding :: sms_encoding
  dl_concat :: "concat_info option"

record decoded_submit =
  recipient :: jstr
  sb_text :: jstr
  sb_encoding :: sms_encoding
  sb_concat :: "concat_info option"

datatype stored_message =
    Incoming (address: jstr) (msg_text: jstr) (msg_timestamp: int) (msg_concat: "concat_info option")
  | Outgoing (address: jstr) (msg_text: jstr) (msg_concat: "concat_info option")

text \<open>A date is its number of milliseconds since 1970.\<close>

type_synonym 'a thrown = "cellary_error + 'a"

definition js_show :: "jsnum \<Rightarrow> jstr" where
  "js_show x = (case x of NaN \<Rightarrow> js ''NaN'' | Num i \<Rightarrow> js_show_int i)"

definition js_show_hex :: "jsnum \<Rightarrow> jstr" where
  "js_show_hex x = (case x of NaN \<Rightarrow> js ''NaN''
     | Num i \<Rightarrow> if i < 0 then 45 # js_toString 16 (nat (- i)) else js_toString 16 (nat i))"

section \<open>The hex reader\<close>

record hex_reader =
  source :: jstr
  normalized :: jstr
  pos :: jsnum

definition createHexReader :: "jstr \<Rightarrow> hex_reader" where
  "createHexReader hex = \<lparr>source = hex, normalized = js_toUpper hex, pos = Num 0\<rparr>"

definition js_gt_length :: "jsnum \<Rightarrow> jstr \<Rightarrow> bool" where
  "js_gt_length x s = js_less (Num (int (length s))) x"

definition too_short :: "hex_reader \<Rightarrow> cellary_error" where
  "too_short r = ParseError (js ''PDU too short: unexpected end of data'') (source r)"

definition readByte :: "hex_reader \<Rightarrow> (jsnum \<times> hex_reader) thrown" where
  "readByte r =
     (let p = js_plus (pos r) (Num 2)
      in if js_gt_length p (normalized r) then Inl (too_short r)
         else Inr (js_parseInt 16 (js_slice (normalized r) (pos r) p), r\<lparr>pos := p\<rparr>))"

definition readHex :: "jsnum \<Rightarrow> hex_reader \<Rightarrow> (jstr \<times> hex_reader) thrown" where
  "readHex octets r =
     (let p = js_plus (pos r) (js_times octets (Num 2))
      in if js_gt_length p (normalized r) then Inl (too_short r)
         else Inr (js_slice (normalized r) (pos r) p, r\<lparr>pos := p\<rparr>))"

definition skip :: "jsnum \<Rightarrow> hex_reader \<Rightarrow> hex_reader" where
  "skip octets r = r\<lparr>pos := js_plus (pos r) (js_times octets (Num 2))\<rparr>"

definition seekTo :: "jsnum \<Rightarrow> hex_reader \<Rightarrow> hex_reader" where
  "seekTo hexPos r = r\<lparr>pos := hexPos\<rparr>"

definition remaining :: "hex_reader \<Rightarrow> jstr" where
  "remaining r = js_slice_from (normalized r) (pos r)"

text \<open>The bit operators of the source convert their operands to 32-bit integers, \<open>NaN\<close> to 0.\<close>

definition bits_and :: "jsnum \<Rightarrow> int \<Rightarrow> int" where
  "bits_and x m = js_int32 x AND m"

definition shift_right :: "jsnum \<Rightarrow> nat \<Rightarrow> int" where
  "shift_right x n = drop_bit n (js_int32 x)"

section \<open>GSM 7-bit decoding\<close>

definition GSM7_TABLE :: "jstr list" where
  "GSM7_TABLE =
    map (\<lambda>c. [c])
    [64, 163, 36, 165, 232, 233, 249, 236, 242, 199, 10, 216, 248, 13, 197, 229,
     916, 95, 934, 915, 923, 937, 928, 936, 931, 920, 926]
    @ [[]] @ map (\<lambda>c. [c])
    [198, 230, 223, 201, 32, 33, 34, 35, 164, 37, 38, 39, 40, 41, 42, 43,
     44, 45, 46, 47, 48, 49, 50, 51, 52, 53, 54, 55, 56, 57, 58, 59,
     60, 61, 62, 63, 161, 65, 66, 67, 68, 69, 70, 71, 72, 73, 74, 75,
     76, 77, 78, 79, 80, 81, 82, 83, 84, 85, 86, 87, 88, 89, 90, 196,
     214, 209, 220, 167, 191, 97, 98, 99, 100, 101, 102, 103, 104, 105, 106, 107,
     108, 109, 110, 111, 112, 113, 114, 115, 116, 117, 118, 119, 120, 121, 122, 228,
     246, 241, 252, 224]"

definition GSM7_EXTENSION :: "(nat \<times> jstr) list" where
  "GSM7_EXTENSION = [(10, [12]), (20, [94]), (40, [123]), (41, [125]), (47, [92]), (60, [91]), (61, [126]), (62, [93]), (64, [124]), (101, [8364])]"

definition GSM7_ESC :: nat where "GSM7_ESC = 27"

fun nth_opt :: "'a list \<Rightarrow> nat \<Rightarrow> 'a option" where
  "nth_opt [] i = None"
| "nth_opt (x # xs) 0 = Some x"
| "nth_opt (x # xs) (Suc i) = nth_opt xs i"

fun hex_bytes :: "jstr \<Rightarrow> jsnum list" where
  "hex_bytes (a # b # s) = js_parseInt 16 [a, b] # hex_bytes s"
| "hex_bytes _ = []"

text \<open>The septet at a bit offset, \<open>None\<close> where the source finds no byte.\<close>

definition septet_at :: "jsnum list \<Rightarrow> nat \<Rightarrow> nat option" where
  "septet_at bytes bitOffset =
     (let byteIndex = bitOffset div 8; bitPos = bitOffset mod 8
      in case nth_opt bytes byteIndex of
           None \<Rightarrow> None
         | Some currentByte \<Rightarrow>
             (if bitPos \<le> 1 then Some (nat (shift_right currentByte bitPos AND 127))
              else (case nth_opt bytes (byteIndex + 1) of
                  None \<Rightarrow> None
                | Some nextByte \<Rightarrow>
                    (let combined = js_int32 currentByte OR push_bit 8 (js_int32 nextByte)
                     in Some (nat (drop_bit bitPos combined AND 127))))))"

definition overrun :: "jstr \<Rightarrow> nat \<Rightarrow> cellary_error" where
  "overrun hex i = ParseError (js ''GSM7 decode overran user data at septet '' @ js_show_nat i) hex"

text \<open>The loop: \<open>i\<close> of the septets are done, \<open>n\<close> are left.\<close>

fun unpack :: "jstr \<Rightarrow> jsnum list \<Rightarrow> nat \<Rightarrow> nat \<Rightarrow> nat \<Rightarrow> bool \<Rightarrow> jstr thrown" where
  "unpack hex bytes i 0 bitOffset escaped = Inr []"
| "unpack hex bytes i (Suc n) bitOffset escaped =
     (case septet_at bytes bitOffset of
        None \<Rightarrow> Inl (overrun hex i)
      | Some septet \<Rightarrow>
          (let rest = unpack hex bytes (Suc i) n (bitOffset + 7)
           in if escaped then
                ebind (rest False) (\<lambda>s.
                  Inr ((case map_of GSM7_EXTENSION septet of None \<Rightarrow> [] | Some ext \<Rightarrow> ext) @ s))
              else if septet = GSM7_ESC then rest True
              else ebind (rest False) (\<lambda>s.
                  Inr ((case nth_opt GSM7_TABLE septet of None \<Rightarrow> [] | Some ch \<Rightarrow> ch) @ s))))"

definition decodeGsm7 :: "jstr \<Rightarrow> jsnum \<Rightarrow> jsnum \<Rightarrow> jstr thrown" where
  "decodeGsm7 hex septetCount fillBits =
     (let bytes = hex_bytes hex;
          bits = js_plus fillBits (js_times septetCount (Num 7));
          requiredOctets = (case bits of NaN \<Rightarrow> NaN | Num b \<Rightarrow> Num ((b + 7) div 8))
      in if js_less (Num (int (length bytes))) requiredOctets
         then Inl (ParseError (js ''GSM7 user data truncated: '' @ js_show septetCount @ js '' septets need ''
                     @ js_show requiredOctets @ js '' octets, got '' @ js_show_nat (length bytes)) hex)
         else (case septetCount of
             NaN \<Rightarrow> Inr []
           | Num n \<Rightarrow>
               (case fillBits of
                  NaN \<Rightarrow> if 0 < n then Inl (overrun hex 0) else Inr []
                | Num f \<Rightarrow> unpack hex bytes 0 (nat n) (nat f) False)))"

section \<open>UCS-2 decoding\<close>

fun decode_units :: "nat \<Rightarrow> hex_reader \<Rightarrow> (jstr \<times> hex_reader) thrown" where
  "decode_units 0 r = Inr ([], r)"
| "decode_units (Suc n) r =
     ebind (readByte r) (\<lambda>(hi, r).
     ebind (readByte r) (\<lambda>(lo, r).
     ebind (decode_units n r) (\<lambda>(s, r).
       Inr (nat ((push_bit 8 (js_int32 hi) OR js_int32 lo) mod 65536) # s, r))))"

definition decodeUcs2 :: "hex_reader \<Rightarrow> jsnum \<Rightarrow> jstr thrown" where
  "decodeUcs2 r octets =
     (case octets of NaN \<Rightarrow> Inr []
      | Num n \<Rightarrow> ebind (decode_units (nat n div 2) r) (\<lambda>(s, r). Inr s))"

section \<open>Addresses\<close>

fun unswap_pairs :: "jstr \<Rightarrow> jstr" where
  "unswap_pairs [] = []"
| "unswap_pairs [hi] = (if hi = 70 then [] else [hi])"
| "unswap_pairs (hi # lo # s) =
     (if lo = 70 then [] else [lo]) @ (if hi = 70 then [] else [hi]) @ unswap_pairs s"

definition unswapNibbles :: "jstr \<Rightarrow> jsnum \<Rightarrow> jstr" where
  "unswapNibbles bcdHex digitCount = js_slice (unswap_pairs bcdHex) (Num 0) digitCount"

definition readAddress :: "hex_reader \<Rightarrow> (jstr \<times> hex_reader) thrown" where
  "readAddress r =
     ebind (readByte r) (\<lambda>(digitCount, r).
     ebind (readByte r) (\<lambda>(typeOfAddress, r).
     let bcdOctets = (case digitCount of NaN \<Rightarrow> NaN | Num n \<Rightarrow> Num ((n + 1) div 2))
     in ebind (readHex bcdOctets r) (\<lambda>(bcdHex, r).
        if bits_and typeOfAddress 240 = 208 then
          (let septets = (case digitCount of NaN \<Rightarrow> NaN | Num n \<Rightarrow> Num (n * 4 div 7))
           in ebind (decodeGsm7 bcdHex septets (Num 0)) (\<lambda>s. Inr (s, r)))
        else
          Inr ((if js_strict_eq typeOfAddress (Num 145) then js ''+'' else [])
                 @ unswapNibbles bcdHex digitCount, r))))"

section \<open>Timestamps\<close>

text \<open>\<open>Date.UTC\<close> with the day number of the first of a month as in the language's specification.\<close>

definition js_day_from_year :: "int \<Rightarrow> int" where
  "js_day_from_year y = 365 * (y - 1970) + (y - 1969) div 4 - (y - 1901) div 100 + (y - 1601) div 400"

definition js_leap :: "int \<Rightarrow> bool" where
  "js_leap y \<longleftrightarrow> y mod 4 = 0 \<and> (y mod 100 \<noteq> 0 \<or> y mod 400 = 0)"

definition js_day_within_year :: "int \<Rightarrow> int \<Rightarrow> int" where
  "js_day_within_year y mn =
     [0, 31, 59, 90, 120, 151, 181, 212, 243, 273, 304, 334] ! nat mn + (if mn \<ge> 2 \<and> js_leap y then 1 else 0)"

definition js_date_utc :: "int \<Rightarrow> int \<Rightarrow> int \<Rightarrow> int \<Rightarrow> int \<Rightarrow> int \<Rightarrow> int" where
  "js_date_utc year month day hours minutes seconds =
     (let y = year + month div 12; mn = month mod 12;
          d = js_day_from_year y + js_day_within_year y mn + day - 1
      in ((d * 24 + hours) * 60 + minutes) * 60000 + seconds * 1000)"

definition js_utc_minutes :: "int \<Rightarrow> int" where
  "js_utc_minutes t = t div 60000 mod 60"

definition js_set_utc_minutes :: "int \<Rightarrow> int \<Rightarrow> int" where
  "js_set_utc_minutes t m = t - js_utc_minutes t * 60000 + m * 60000"

definition deswap :: "jsnum \<Rightarrow> int" where
  "deswap b = bits_and b 15 * 10 + (shift_right b 4 AND 15)"

definition tzOffsetMinutes :: "jsnum \<Rightarrow> int" where
  "tzOffsetMinutes tzByte =
     (if bits_and tzByte 8 \<noteq> 0 then - 1 else 1)
     * (bits_and tzByte 7 * 10 + (shift_right tzByte 4 AND 15)) * 15"

definition readTimestamp :: "hex_reader \<Rightarrow> (int \<times> hex_reader) thrown" where
  "readTimestamp r =
     ebind (readByte r) (\<lambda>(yy, r).
     ebind (readByte r) (\<lambda>(mm, r).
     ebind (readByte r) (\<lambda>(dd, r).
     ebind (readByte r) (\<lambda>(hh, r).
     ebind (readByte r) (\<lambda>(mi, r).
     ebind (readByte r) (\<lambda>(ss, r).
     ebind (readByte r) (\<lambda>(tzByte, r).
       let date = js_date_utc (2000 + deswap yy) (deswap mm - 1) (deswap dd) (deswap hh) (deswap mi) (deswap ss)
       in Inr (js_set_utc_minutes date (js_utc_minutes date - tzOffsetMinutes tzByte), r))))))))"

section \<open>Data coding scheme\<close>

definition parseDcs :: "jsnum \<Rightarrow> sms_encoding thrown" where
  "parseDcs dcs =
     (let highNibble = shift_right dcs 4 AND 15; alphabet = shift_right dcs 2 AND 3;
          fail = (\<lambda>m. Inl (ParseError m (js ''DCS='' @ js_show dcs)))
      in if highNibble \<le> 3 \<or> highNibble \<ge> 4 \<and> highNibble \<le> 7 then
           (if alphabet = 0 then Inr Gsm7Text
            else if alphabet = 2 then Inr Ucs2Text
            else fail (js ''Unsupported SMS encoding: DCS 0x'' @ js_show_hex dcs @ js '' (alphabet=''
                   @ js_show_int alphabet @ js '')''))
         else if highNibble \<ge> 12 \<and> highNibble \<le> 14 then
           (if highNibble = 14 then Inr Ucs2Text else Inr Gsm7Text)
         else if highNibble = 15 then
           (if bits_and dcs 4 = 0 then Inr Gsm7Text
            else fail (js ''Unsupported SMS encoding: DCS 0x'' @ js_show_hex dcs @ js '' (8-bit binary)''))
         else fail (js ''Unknown SMS DCS group: 0x'' @ js_show_hex dcs))"

section \<open>User data\<close>

definition read_concat8 :: "hex_reader \<Rightarrow> (concat_info option \<times> hex_reader) thrown" where
  "read_concat8 r =
     ebind (readByte r) (\<lambda>(ref, r).
     ebind (readByte r) (\<lambda>(total, r).
     ebind (readByte r) (\<lambda>(part, r).
       Inr (Some \<lparr>reference = ref, totalParts = total, partNumber = part\<rparr>, r))))"

definition read_concat16 :: "hex_reader \<Rightarrow> (concat_info option \<times> hex_reader) thrown" where
  "read_concat16 r =
     ebind (readByte r) (\<lambda>(refHi, r).
     ebind (readByte r) (\<lambda>(refLo, r).
     ebind (readByte r) (\<lambda>(total, r).
     ebind (readByte r) (\<lambda>(part, r).
       Inr (Some \<lparr>reference = Num (push_bit 8 (js_int32 refHi) OR js_int32 refLo),
                 totalParts = total, partNumber = part\<rparr>, r)))))"

partial_function (option) parseUdhConcat ::
  "hex_reader \<Rightarrow> jsnum \<Rightarrow> (concat_info option \<times> hex_reader) thrown option" where
  "parseUdhConcat r udhEnd =
     (if \<not> js_less (pos r) udhEnd then Some (Inr (None, r))
      else (case readByte r of
          Inl e \<Rightarrow> Some (Inl e)
        | Inr (iei, r) \<Rightarrow>
            (case readByte r of
               Inl e \<Rightarrow> Some (Inl e)
             | Inr (ieLen, r) \<Rightarrow>
                 (if js_strict_eq iei (Num 0) \<and> js_strict_eq ieLen (Num 3) then Some (read_concat8 r)
                  else if js_strict_eq iei (Num 8) \<and> js_strict_eq ieLen (Num 4) then Some (read_concat16 r)
                  else parseUdhConcat (skip ieLen r) udhEnd))))"

text \<open>Sequencing of a computation that may not return (\<open>None\<close>) and may throw.\<close>

definition dbind :: "'a thrown option \<Rightarrow> ('a \<Rightarrow> 'b thrown option) \<Rightarrow> 'b thrown option" where
  "dbind m f = (case m of None \<Rightarrow> None | Some (Inl e) \<Rightarrow> Some (Inl e) | Some (Inr x) \<Rightarrow> f x)"

lemma dbind_simps [simp]:
  "dbind None f = None" "dbind (Some (Inl e)) f = Some (Inl e)" "dbind (Some (Inr x)) f = f x"
  by (simp_all add: dbind_def)

definition decodeUserData ::
  "hex_reader \<Rightarrow> jsnum \<Rightarrow> sms_encoding \<Rightarrow> bool \<Rightarrow> (jstr \<times> concat_info option) thrown option" where
  "decodeUserData r udl encoding hasUdhi =
     (if \<not> hasUdhi then
        Some (ebind (if encoding = Gsm7Text then decodeGsm7 (remaining r) udl (Num 0) else decodeUcs2 r udl)
                (\<lambda>text. Inr (text, None)))
      else
        dbind (Some (readByte r)) (\<lambda>(udhLength, r).
        let udhEnd = js_plus (pos r) (js_times udhLength (Num 2))
        in dbind (parseUdhConcat r udhEnd) (\<lambda>(concat, r).
           let r = seekTo udhEnd r; udhOctets = js_plus udhLength (Num 1)
           in if encoding = Gsm7Text then
                (let udhBits = js_times udhOctets (Num 8);
                     udhSeptets = (case udhBits of NaN \<Rightarrow> NaN | Num b \<Rightarrow> Num ((b + 6) div 7));
                     dataSeptets = js_plus udl (js_times udhSeptets (Num (- 1)));
                     fillBits = js_plus (js_times udhSeptets (Num 7)) (js_times udhBits (Num (- 1)))
                 in Some (ebind (decodeGsm7 (remaining r) dataSeptets fillBits) (\<lambda>text. Inr (text, concat))))
              else
                (let dataOctets = js_plus udl (js_times udhOctets (Num (- 1)))
                 in Some (ebind (decodeUcs2 r dataOctets) (\<lambda>text. Inr (text, concat)))))))"

section \<open>Messages\<close>

definition skip_sca :: "hex_reader \<Rightarrow> hex_reader thrown" where
  "skip_sca r =
     ebind (readByte r) (\<lambda>(scaLength, r).
       Inr (if js_less (Num 0) scaLength then skip scaLength r else r))"

definition wrong_mti :: "string \<Rightarrow> int \<Rightarrow> int \<Rightarrow> jstr \<Rightarrow> cellary_error" where
  "wrong_mti name expected mti hex =
     ParseError (js ''Expected SMS-'' @ js name @ js '' (MTI='' @ js_show_int expected @ js ''), got MTI=''
       @ js_show_int mti) hex"

definition decodePduDeliver :: "jstr \<Rightarrow> decoded_deliver thrown option" where
  "decodePduDeliver hex =
     dbind (Some (skip_sca (createHexReader hex))) (\<lambda>r.
     dbind (Some (readByte r)) (\<lambda>(pduType, r).
     let mti = bits_and pduType 3; hasUdhi = bits_and pduType 64 \<noteq> 0
     in if mti \<noteq> 0 then Some (Inl (wrong_mti ''DELIVER'' 0 mti hex))
        else
          dbind (Some (readAddress r)) (\<lambda>(sender, r).
          dbind (Some (readByte (skip (Num 1) r))) (\<lambda>(dcsRaw, r).
          dbind (Some (parseDcs dcsRaw)) (\<lambda>encoding.
          dbind (Some (readTimestamp r)) (\<lambda>(ts, r).
          dbind (Some (readByte r)) (\<lambda>(udl, r).
          dbind (decodeUserData r udl encoding hasUdhi) (\<lambda>(text, concat).
            Some (Inr \<lparr>sender = sender, dl_text = text, timestamp = ts, dl_encoding = encoding,
                       dl_concat = concat\<rparr>)))))))))"

definition vp_octets :: "int \<Rightarrow> int" where
  "vp_octets vpf = (if vpf = 0 then 0 else if vpf = 2 then 1 else 7)"

definition decodePduSubmit :: "jstr \<Rightarrow> decoded_submit thrown option" where
  "decodePduSubmit hex =
     dbind (Some (skip_sca (createHexReader hex))) (\<lambda>r.
     dbind (Some (readByte r)) (\<lambda>(pduType, r).
     let mti = bits_and pduType 3; hasUdhi = bits_and pduType 64 \<noteq> 0; vpf = shift_right pduType 3 AND 3
     in if mti \<noteq> 1 then Some (Inl (wrong_mti ''SUBMIT'' 1 mti hex))
        else
          dbind (Some (readAddress (skip (Num 1) r))) (\<lambda>(recipient, r).
          dbind (Some (readByte (skip (Num 1) r))) (\<lambda>(dcs, r).
          dbind (Some (parseDcs dcs)) (\<lambda>encoding.
          let r = (if vp_octets vpf > 0 then skip (Num (vp_octets vpf)) r else r)
          in dbind (Some (readByte r)) (\<lambda>(udl, r).
             dbind (decodeUserData r udl encoding hasUdhi) (\<lambda>(text, concat).
               Some (Inr \<lparr>recipient = recipient, sb_text = text, sb_encoding = encoding,
                          sb_concat = concat\<rparr>))))))))"

definition peekMti :: "jstr \<Rightarrow> int thrown" where
  "peekMti hex =
     ebind (skip_sca (createHexReader hex)) (\<lambda>r.
     ebind (readByte r) (\<lambda>(pduType, r). Inr (bits_and pduType 3)))"

definition decodeStoredMessage :: "jstr \<Rightarrow> stored_message thrown option" where
  "decodeStoredMessage hex =
     dbind (Some (peekMti hex)) (\<lambda>mti.
       if mti = 0 then
         dbind (decodePduDeliver hex) (\<lambda>d.
           Some (Inr (Incoming (sender d) (dl_text d) (timestamp d) (dl_concat d))))
       else if mti = 1 then
         dbind (decodePduSubmit hex) (\<lambda>s.
           Some (Inr (Outgoing (recipient s) (sb_text s) (sb_concat s))))
       else
         Some (Inl (ParseError (js ''Unsupported SMS PDU type (MTI='' @ js_show_int mti
                     @ js ''); only DELIVER and SUBMIT are decoded'') hex)))"

end
