(* ===== verification/Pdu_Encode_Gsm7.thy ===== *)
theory Pdu_Encode_Gsm7 imports Pdu_Submit begin

text \<open>
  \<^verbatim>\<open>packages/core/src/protocols/at/services/sms/pdu-encode-gsm7.ts\<close>: the SMS-SUBMIT encoder for GSM 7-bit
  text, with the reverse maps built from the tables of the decoder as the module does when it is loaded.
\<close>

section \<open>Septets\<close>

definition GSM7_BASIC_ENCODE :: "jstr \<Rightarrow> nat option" where
  "GSM7_BASIC_ENCODE =
     foldl (\<lambda>m (i, ch). if ch \<noteq> [] then m(ch \<mapsto> i) else m) Map.empty (enumerate 0 GSM7_TABLE)"

definition GSM7_EXTENSION_ENCODE :: "jstr \<Rightarrow> nat option" where
  "GSM7_EXTENSION_ENCODE = foldl (\<lambda>m (code, ch). m(ch \<mapsto> code)) Map.empty GSM7_EXTENSION"

text \<open>\<open>JSON.stringify\<close> of a character, for the error message.\<close>

definition json_unit :: "nat \<Rightarrow> jstr" where
  "json_unit c =
     (if c = 34 then js [CHR 0x5C, CHR 0x22] else if c = 92 then js [CHR 0x5C, CHR 0x5C]
      else if c = 8 then js [CHR 0x5C, CHR ''b''] else if c = 9 then js [CHR 0x5C, CHR ''t'']
      else if c = 10 then js [CHR 0x5C, CHR ''n''] else if c = 12 then js [CHR 0x5C, CHR ''f'']
      else if c = 13 then js [CHR 0x5C, CHR ''r'']
      else if c < 32 then js [CHR 0x5C, CHR ''u''] @ js_padStart 4 48 (js_toString 16 c)
      else [c])"

definition json_char :: "jstr \<Rightarrow> jstr" where
  "json_char ch =
     [34] @ (case ch of
        [c] \<Rightarrow> if is_high c \<or> is_low c then js [CHR 0x5C, CHR ''u''] @ js_toString 16 c else json_unit c
      | _ \<Rightarrow> ch) @ [34]"

fun septets_of_chars :: "jstr list \<Rightarrow> nat list thrown" where
  "septets_of_chars [] = Inr []"
| "septets_of_chars (ch # chs) =
     (case GSM7_BASIC_ENCODE ch of
        Some basic \<Rightarrow> ebind (septets_of_chars chs) (\<lambda>s. Inr (basic # s))
      | None \<Rightarrow>
          (case GSM7_EXTENSION_ENCODE ch of
             Some ext \<Rightarrow> ebind (septets_of_chars chs) (\<lambda>s. Inr (GSM7_ESC # ext # s))
           | None \<Rightarrow> Inl (OtherError (js ''Character not in GSM 7-bit alphabet: '' @ json_char ch))))"

definition encodeGsm7Septets :: "jstr \<Rightarrow> nat list thrown" where
  "encodeGsm7Septets text = septets_of_chars (js_chars text)"

section \<open>Packing\<close>

text \<open>The inner loop: whole octets leave the buffer.\<close>

fun emit_octets :: "nat \<Rightarrow> nat \<Rightarrow> jstr \<times> nat \<times> nat" where
  "emit_octets buffer bits =
     (if 8 \<le> bits then
        (let (hex, buffer', bits') = emit_octets (drop_bit 8 buffer) (bits - 8)
         in (toHexByte (buffer AND 255) @ hex, buffer', bits'))
      else ([], buffer, bits))"

declare emit_octets.simps [simp del]

fun pack_loop :: "nat \<Rightarrow> nat \<Rightarrow> nat list \<Rightarrow> jstr" where
  "pack_loop buffer bits [] = (if 0 < bits then toHexByte (buffer AND 255) else [])"
| "pack_loop buffer bits (septet # septets) =
     (let (hex, buffer', bits') = emit_octets (buffer OR push_bit bits (septet AND 127)) (bits + 7)
      in hex @ pack_loop buffer' bits' septets)"

definition packSeptets :: "nat list \<Rightarrow> nat \<Rightarrow> jstr" where
  "packSeptets septets fillBits = pack_loop 0 fillBits septets"

section \<open>PDUs\<close>

definition buildSinglePdu :: "jstr \<Rightarrow> nat list \<Rightarrow> pdu_result" where
  "buildSinglePdu to septets =
     (let tpdu = toHexByte 1 @ toHexByte 0 @ encodeAddress to @ toHexByte 0 @ toHexByte 0
                 @ toHexByte (length septets) @ packSeptets septets 0
      in \<lparr>pdu = js ''00'' @ tpdu, pdu_length = length tpdu div 2\<rparr>)"

text \<open>The loop over the characters: the finished segments, the current one and its septets.\<close>

fun split_loop :: "nat \<Rightarrow> jstr list \<Rightarrow> jstr \<Rightarrow> nat \<Rightarrow> jstr list" where
  "split_loop maxSeptets [] current count = [current]"
| "split_loop maxSeptets (ch # chs) current count =
     (let cost = (if GSM7_EXTENSION_ENCODE ch \<noteq> None then 2 else 1)
      in if count + cost > maxSeptets then current # split_loop maxSeptets chs ch cost
         else split_loop maxSeptets chs (current @ ch) (count + cost))"

definition splitBySeptetBudget :: "nat \<Rightarrow> jstr \<Rightarrow> jstr list" where
  "splitBySeptetBudget maxSeptets text = split_loop maxSeptets (js_chars text) [] 0"

definition build_segment :: "jstr \<Rightarrow> nat \<Rightarrow> nat \<Rightarrow> nat \<Rightarrow> nat list \<Rightarrow> pdu_result" where
  "build_segment to ref tot part septets =
     (let tpdu = toHexByte 65 @ toHexByte 0 @ encodeAddress to @ toHexByte 0 @ toHexByte 0
                 @ toHexByte (7 + length septets) @ concat_udh ref tot part @ packSeptets septets 1
      in \<lparr>pdu = js ''00'' @ tpdu, pdu_length = length tpdu div 2\<rparr>)"

fun build_segments :: "jstr \<Rightarrow> nat \<Rightarrow> nat \<Rightarrow> nat \<Rightarrow> jstr list \<Rightarrow> pdu_result list thrown" where
  "build_segments to ref tot i [] = Inr []"
| "build_segments to ref tot i (segment # segments) =
     ebind (encodeGsm7Septets segment) (\<lambda>septets.
     ebind (build_segments to ref tot (i + 1) segments) (\<lambda>results.
       Inr (build_segment to ref tot (i + 1) septets # results)))"

definition buildConcatenatedPdus :: "nat \<Rightarrow> jstr \<Rightarrow> jstr \<Rightarrow> pdu_result list thrown \<times> nat" where
  "buildConcatenatedPdus counter to text =
     (let segments = splitBySeptetBudget 153 text
      in if length segments > MAX_CONCAT_PARTS then (Inl (too_long (length segments)), counter)
         else (let (ref, counter') = nextConcatRef counter
               in (build_segments to ref (length segments) 0 segments, counter')))"

definition encodeGsm7SubmitPdus :: "nat \<Rightarrow> jstr \<Rightarrow> jstr \<Rightarrow> pdu_result list thrown \<times> nat" where
  "encodeGsm7SubmitPdus counter to text =
     (case encodeGsm7Septets text of
        Inl e \<Rightarrow> (Inl e, counter)
      | Inr septets \<Rightarrow>
          (if length septets \<le> 160 then (Inr [buildSinglePdu to septets], counter)
           else buildConcatenatedPdus counter to text))"

end
