(* ===== verification/Sms_Hex.thy ===== *)
theory Sms_Hex imports Pdu_Encode_Gsm7 begin

text \<open>
  What the hex reader of the decoder sees of the output of the encoders: octets, addresses and the
  fields of an SMS-SUBMIT PDU up to the user data.
\<close>

section \<open>Octets in hex\<close>

definition hexd :: "nat \<Rightarrow> nat" where
  "hexd d = (if d < 10 then 48 + d else 55 + d)"

lemma hexd_facts:
  assumes "d < 16"
  shows "js_digit (hexd d) = Some d" "js_is_digit 16 (hexd d)" "\<not> js_white (hexd d)" "hexd d \<noteq> 45"
    "hexd d \<noteq> 43" "hexd d \<noteq> 88" "hexd d \<noteq> 120" "js_upper1 (hexd d) = hexd d"
    "js_upper1 (js_digit_char d) = hexd d"
  using assms by (auto simp: hexd_def js_digit_def js_is_digit_def js_white_def js_upper1_def)

lemma toHexByte_digits: "b < 256 \<Longrightarrow> toHexByte b = [hexd (b div 16), hexd (b mod 16)]"
proof (cases "b < 16")
  case True
  moreover have "hexd 0 = 48" by (simp add: hexd_def)
  ultimately show ?thesis
    by (simp add: toHexByte_def js_toUpper_def hexd_facts js_padStart_def del: js_digit_char.simps)
next
  case False
  assume "b < 256"
  with False show ?thesis
    by (simp add: toHexByte_def js_toUpper_def js_toString_step [of 16 b] hexd_facts js_padStart_def
        del: js_digit_char.simps)
qed

lemma length_toHexByte: "b < 256 \<Longrightarrow> length (toHexByte b) = 2"
  by (simp add: toHexByte_digits)

lemma toHexByte_upper [simp]: "js_toUpper (toHexByte b) = toHexByte b"
proof -
  have "js_upper1 (js_upper1 c) = js_upper1 c" "js_upper1 48 = 48" for c
    by (auto simp: js_upper1_def)
  then show ?thesis by (simp add: toHexByte_def js_toUpper_def js_padStart_def comp_def)
qed

lemma parse_hexd: "a < 16 \<Longrightarrow> b < 16 \<Longrightarrow> js_parseInt 16 [hexd a, hexd b] = Num (int (16 * a + b))"
  by (simp add: js_parseInt_def js_trimStart_def hexd_facts js_def js_digits_value_def Let_def)

lemma parse_toHexByte: "b < 256 \<Longrightarrow> js_parseInt 16 (toHexByte b) = Num (int b)"
  by (simp add: toHexByte_digits parse_hexd)

section \<open>Reading\<close>

text \<open>The reader stands before the text \<open>s\<close>.\<close>

definition holds :: "hex_reader \<Rightarrow> jstr \<Rightarrow> bool" where
  "holds r s \<longleftrightarrow> (\<exists>p. pos r = Num (int p) \<and> p \<le> length (normalized r) \<and> drop p (normalized r) = s)"

lemma holds_create: "js_toUpper hex = hex \<Longrightarrow> holds (createHexReader hex) hex"
  by (auto simp: holds_def createHexReader_def intro!: exI [of _ 0])

lemma holds_skip:
  assumes "holds r (u @ s)" and "length u = 2 * n"
  shows "holds (skip (Num (int n)) r) s"
proof -
  from assms obtain p where p: "pos r = Num (int p)" "p \<le> length (normalized r)" "drop p (normalized r) = u @ s"
    by (auto simp: holds_def)
  have "length (u @ s) = length (normalized r) - p" using p(3) [symmetric] by simp
  with assms(2) p(2) have "p + 2 * n \<le> length (normalized r)" by simp
  moreover have "drop (p + 2 * n) (normalized r) = s"
    using p(3) assms(2) by (metis add.commute append_eq_conv_conj drop_drop)
  ultimately show ?thesis
    using p(1) by (auto simp: holds_def skip_def intro!: exI [of _ "p + 2 * n"])
qed

lemma holds_read:
  assumes "holds r (u @ s)" and "length u = 2 * n"
  obtains p where "pos r = Num (int p)" "p + 2 * n \<le> length (normalized r)"
    "drop p (take (p + 2 * n) (normalized r)) = u"
proof -
  from assms obtain p where p: "pos r = Num (int p)" "p \<le> length (normalized r)" "drop p (normalized r) = u @ s"
    by (auto simp: holds_def)
  have "length (u @ s) = length (normalized r) - p" using p(3) [symmetric] by simp
  with assms(2) p(2) have "p + 2 * n \<le> length (normalized r)" by simp
  moreover have "drop p (take (p + 2 * n) (normalized r)) = u"
    using p(3) assms(2) by (simp add: drop_take)
  ultimately show ?thesis using that p(1) by blast
qed

lemma readHex_holds:
  assumes "holds r (u @ s)" and "length u = 2 * n"
  shows "readHex (Num (int n)) r = Inr (u, skip (Num (int n)) r)"
proof -
  from assms obtain p where p: "pos r = Num (int p)" "p + 2 * n \<le> length (normalized r)"
    "drop p (take (p + 2 * n) (normalized r)) = u" by (rule holds_read)
  have "js_slice (normalized r) (Num (int p)) (Num (int p + int n * 2)) = u"
    using p(3) js_slice_nat [of "normalized r" p "p + 2 * n"] by (simp add: mult.commute)
  moreover have "\<not> js_gt_length (Num (int p + int n * 2)) (normalized r)"
    using p(2) by (simp add: js_gt_length_def)
  ultimately show ?thesis by (simp add: readHex_def p(1) skip_def)
qed

lemma readByte_holds:
  assumes "holds r (toHexByte b @ s)" and "b < 256"
  shows "readByte r = Inr (Num (int b), skip (Num 1) r)"
proof -
  have len: "length (toHexByte b) = 2 * 1" using assms(2) by (simp add: length_toHexByte)
  with assms(1) obtain p where p: "pos r = Num (int p)" "p + 2 \<le> length (normalized r)"
    "drop p (take (p + 2) (normalized r)) = toHexByte b"
    using holds_read [OF assms(1) len] by auto
  have "js_slice (normalized r) (Num (int p)) (Num (int p + 2)) = toHexByte b"
    using p(3) js_slice_nat [of "normalized r" p "p + 2"] by (simp add: add.commute)
  with p parse_toHexByte [OF assms(2)] show ?thesis
    by (simp add: readByte_def skip_def js_gt_length_def)
qed

lemma holds_skip1: "holds r (toHexByte b @ s) \<Longrightarrow> b < 256 \<Longrightarrow> holds (skip (Num 1) r) s"
  using holds_skip [of r "toHexByte b" s 1] by (simp add: length_toHexByte)

lemma remaining_holds: "holds r s \<Longrightarrow> remaining r = s"
  by (auto simp: holds_def remaining_def)

lemma holds_seek:
  assumes "holds r (u @ s)" and "length u = 2 * n" and "normalized r' = normalized r"
  shows "holds (seekTo (js_plus (pos r) (Num (2 * int n))) r') s"
proof -
  have "holds (skip (Num (int n)) r) s" using assms(1,2) by (rule holds_skip)
  then show ?thesis using assms(3) by (simp add: holds_def skip_def seekTo_def mult.commute)
qed

section \<open>Addresses\<close>

text \<open>A number to dial: an optional plus and at most 255 decimal digits.\<close>

definition digits_of :: "jstr \<Rightarrow> jstr" where
  "digits_of number = (if js_startsWith number (js ''+'') then drop 1 number else number)"

definition phone_number :: "jstr \<Rightarrow> bool" where
  "phone_number number \<longleftrightarrow>
     length (digits_of number) < 256 \<and> list_all (\<lambda>c. 48 \<le> c \<and> c \<le> 57) (digits_of number)"

lemma unswap_swap: "even (length s) \<Longrightarrow> unswap_pairs (swap_pairs s) = [c \<leftarrow> s. c \<noteq> 70]"
  by (induction s rule: swap_pairs.induct) auto

lemma length_swap_pairs: "even (length s) \<Longrightarrow> length (swap_pairs s) = length s"
  by (induction s rule: swap_pairs.induct) auto

lemma set_swap_pairs: "even (length s) \<Longrightarrow> set (swap_pairs s) = set s"
  by (induction s rule: swap_pairs.induct) auto

definition padded :: "jstr \<Rightarrow> jstr" where
  "padded digits = (if length digits mod 2 = 0 then digits else digits @ js ''F'')"

lemma padded_facts:
  assumes "list_all (\<lambda>c. 48 \<le> c \<and> c \<le> 57) digits"
  shows "even (length (padded digits))" "length (padded digits) = 2 * ((length digits + 1) div 2)"
    "[c \<leftarrow> padded digits. c \<noteq> 70] = digits" "js_toUpper (padded digits) = padded digits"
proof -
  show "even (length (padded digits))" "length (padded digits) = 2 * ((length digits + 1) div 2)"
    by (auto simp: padded_def) presburger+
  have "[c \<leftarrow> digits. c \<noteq> 70] = digits" using assms by (intro filter_True) (auto simp: list_all_iff)
  then show "[c \<leftarrow> padded digits. c \<noteq> 70] = digits" by (simp add: padded_def js_def)
  have "map js_upper1 digits = digits"
    using assms by (auto simp: list_all_iff js_upper1_def intro!: map_idI)
  then show "js_toUpper (padded digits) = padded digits"
    by (simp add: padded_def js_toUpper_def js_def js_upper1_def)
qed

lemma map_swap_pairs: "swap_pairs (map f s) = map f (swap_pairs s)"
  by (induction s rule: swap_pairs.induct) auto

lemma swapNibbles_padded: "swapNibbles digits = swap_pairs (padded digits)"
  by (simp add: swapNibbles_def padded_def)

lemma encodeAddress_upper:
  assumes "phone_number to"
  shows "js_toUpper (encodeAddress to) = encodeAddress to"
proof -
  have "js_toUpper (swapNibbles (digits_of to)) = swapNibbles (digits_of to)"
    using padded_facts(4) [of "digits_of to"] assms
    by (simp add: phone_number_def swapNibbles_padded js_toUpper_def flip: map_swap_pairs)
  then show ?thesis by (simp add: encodeAddress_def digits_of_def Let_def)
qed

lemma plus_digits: "(if js_startsWith to (js ''+'') then js ''+'' else []) @ digits_of to = to"
  by (auto simp: digits_of_def js_startsWith_iff js_def)

lemma readAddress_holds:
  assumes "holds r (encodeAddress to @ s)" and "phone_number to"
  shows "\<exists>r'. readAddress r = Inr (to, r') \<and> holds r' s"
proof -
  let ?ds = "digits_of to" and ?intl = "js_startsWith to (js ''+'')"
  let ?bcd = "swapNibbles ?ds" and ?n = "(length ?ds + 1) div 2"
  have num: "list_all (\<lambda>c. 48 \<le> c \<and> c \<le> 57) ?ds" and len: "length ?ds < 256"
    using assms(2) by (simp_all add: phone_number_def)
  note pad = padded_facts [OF num]
  have bcd: "length ?bcd = 2 * ?n" "unswap_pairs ?bcd = ?ds"
    using pad by (simp_all add: swapNibbles_padded length_swap_pairs unswap_swap)
  let ?ton = "if ?intl then 145 else 129 :: nat"
  have h0: "holds r (toHexByte (length ?ds) @ toHexByte ?ton @ ?bcd @ s)"
    using assms(1) by (simp add: encodeAddress_def digits_of_def Let_def)
  let ?r1 = "skip (Num 1) r"
  have h1: "holds ?r1 (toHexByte ?ton @ ?bcd @ s)" using holds_skip1 [OF h0 len] .
  let ?r2 = "skip (Num 1) ?r1"
  have h2: "holds ?r2 (?bcd @ s)" using holds_skip1 [OF h1] by simp
  have octets: "Num ((int (length ?ds) + 1) div 2) = Num (int ?n)" by (simp add: zdiv_int)
  have "unswapNibbles ?bcd (Num (int (length ?ds))) = ?ds"
    using js_slice_nat [of ?ds 0 "length ?ds"] by (simp add: unswapNibbles_def bcd)
  moreover have "js_strict_eq (Num (int ?ton)) (Num 145) = ?intl" "bits_and (Num (int ?ton)) 240 \<noteq> 208"
    by (simp_all add: bits_and_def)
  ultimately have "readAddress r = Inr ((if ?intl then js ''+'' else []) @ ?ds, skip (Num (int ?n)) ?r2)"
    using readByte_holds [OF h0 len] readByte_holds [OF h1] readHex_holds [OF h2 bcd(1)]
    by (simp add: readAddress_def octets del: of_nat_add)
  then show ?thesis using holds_skip [OF h2 bcd(1)] plus_digits [of to] by simp
qed

section \<open>The fields before the user data\<close>

lemma decodePduSubmit_fields:
  assumes "phone_number to" and "ty \<in> {1, 65}" and "dcs \<in> {0, 8}" and "udl < 256" and "js_toUpper ud = ud"
  shows "\<exists>r. holds r ud \<and>
    decodePduSubmit (js ''00'' @ toHexByte ty @ toHexByte 0 @ encodeAddress to @ toHexByte 0 @ toHexByte dcs
        @ toHexByte udl @ ud) =
      dbind (decodeUserData r (Num (int udl)) (if dcs = 0 then Gsm7Text else Ucs2Text) (ty = 65))
        (\<lambda>(text, concat). Some (Inr \<lparr>recipient = to, sb_text = text,
            sb_encoding = (if dcs = 0 then Gsm7Text else Ucs2Text), sb_concat = concat\<rparr>))"
    (is "\<exists>r. _ \<and> decodePduSubmit ?hex = _")
proof -
  have zero: "js ''00'' = toHexByte 0" by (simp add: toHexByte_digits hexd_def js_def)
  have ty: "ty < 256" and dcs: "dcs < 256" using assms(2,3) by auto
  have up: "js_toUpper ?hex = ?hex"
    using assms(5) encodeAddress_upper [OF assms(1)] by (simp add: zero)
  let ?r0 = "createHexReader ?hex"
  have h0: "holds ?r0 (toHexByte 0 @ toHexByte ty @ toHexByte 0 @ encodeAddress to @ toHexByte 0 @ toHexByte dcs
        @ toHexByte udl @ ud)"
    using holds_create [OF up] zero by simp
  let ?r1 = "skip (Num 1) ?r0"
  have h1: "holds ?r1 (toHexByte ty @ toHexByte 0 @ encodeAddress to @ toHexByte 0 @ toHexByte dcs @ toHexByte udl @ ud)"
    using holds_skip1 [OF h0] by simp
  let ?r2 = "skip (Num 1) ?r1"
  have h2: "holds ?r2 (toHexByte 0 @ encodeAddress to @ toHexByte 0 @ toHexByte dcs @ toHexByte udl @ ud)"
    using holds_skip1 [OF h1 ty] .
  have h3: "holds (skip (Num 1) ?r2) (encodeAddress to @ toHexByte 0 @ toHexByte dcs @ toHexByte udl @ ud)"
    using holds_skip1 [OF h2] by simp
  from readAddress_holds [OF h3 assms(1)] obtain r4 where
    r4: "readAddress (skip (Num 1) ?r2) = Inr (to, r4)"
    and h4: "holds r4 (toHexByte 0 @ toHexByte dcs @ toHexByte udl @ ud)" by blast
  have h5: "holds (skip (Num 1) r4) (toHexByte dcs @ toHexByte udl @ ud)" using holds_skip1 [OF h4] by simp
  let ?r6 = "skip (Num 1) (skip (Num 1) r4)"
  have h6: "holds ?r6 (toHexByte udl @ ud)" using holds_skip1 [OF h5 dcs] .
  have h7: "holds (skip (Num 1) ?r6) ud" using holds_skip1 [OF h6 assms(4)] .
  have enc: "parseDcs (Num (int dcs)) = Inr (if dcs = 0 then Gsm7Text else Ucs2Text)"
    using assms(3) by (auto simp: parseDcs_def shift_right_def Let_def)
  have bits: "bits_and (Num (int ty)) 3 = 1" "bits_and (Num (int ty)) 64 \<noteq> 0 \<longleftrightarrow> ty = 65"
    "shift_right (Num (int ty)) 3 AND 3 = 0"
    using assms(2) by (auto simp: bits_and_def shift_right_def)
  have sca: "skip_sca ?r0 = Inr ?r1" using readByte_holds [OF h0] by (simp add: skip_sca_def)
  have "decodePduSubmit ?hex =
      dbind (decodeUserData (skip (Num 1) ?r6) (Num (int udl)) (if dcs = 0 then Gsm7Text else Ucs2Text) (ty = 65))
        (\<lambda>(text, concat). Some (Inr \<lparr>recipient = to, sb_text = text,
            sb_encoding = (if dcs = 0 then Gsm7Text else Ucs2Text), sb_concat = concat\<rparr>))"
    unfolding decodePduSubmit_def sca
    by (simp only: dbind_simps readByte_holds [OF h1 ty] prod.case Let_def bits r4
        readByte_holds [OF h5 dcs] enc vp_octets_def)
      (simp add: readByte_holds [OF h6 assms(4)])
  with h7 show ?thesis by blast
qed

section \<open>The user data header\<close>

lemma decodeUserData_concat:
  assumes "holds r (concat_udh ref tot part @ ud)" and "ref < 256" "tot < 256" "part < 256"
  shows "\<exists>r'. holds r' ud \<and>
    decodeUserData r (Num udl) enc True =
      (let concat = Some \<lparr>reference = Num (int ref), totalParts = Num (int tot), partNumber = Num (int part)\<rparr>
       in Some (ebind (if enc = Gsm7Text then decodeGsm7 ud (Num (udl - 7)) (Num 1)
                       else decodeUcs2 r' (Num (udl - 6)))
            (\<lambda>text. Inr (text, concat))))"
proof -
  have h0: "holds r (toHexByte 5 @ toHexByte 0 @ toHexByte 3 @ toHexByte ref @ toHexByte tot @ toHexByte part @ ud)"
    using assms(1) by (simp add: concat_udh_def)
  let ?r1 = "skip (Num 1) r"
  have h1: "holds ?r1 (toHexByte 0 @ toHexByte 3 @ toHexByte ref @ toHexByte tot @ toHexByte part @ ud)"
    using holds_skip1 [OF h0] by simp
  let ?r2 = "skip (Num 1) ?r1"
  have h2: "holds ?r2 (toHexByte 3 @ toHexByte ref @ toHexByte tot @ toHexByte part @ ud)"
    using holds_skip1 [OF h1] by simp
  let ?r3 = "skip (Num 1) ?r2"
  have h3: "holds ?r3 (toHexByte ref @ toHexByte tot @ toHexByte part @ ud)"
    using holds_skip1 [OF h2] by simp
  let ?r4 = "skip (Num 1) ?r3"
  have h4: "holds ?r4 (toHexByte tot @ toHexByte part @ ud)" using holds_skip1 [OF h3 assms(2)] .
  let ?r5 = "skip (Num 1) ?r4"
  have h5: "holds ?r5 (toHexByte part @ ud)" using holds_skip1 [OF h4 assms(3)] .
  let ?c = "\<lparr>reference = Num (int ref), totalParts = Num (int tot), partNumber = Num (int part)\<rparr>"
  have c8: "read_concat8 ?r3 = Inr (Some ?c, skip (Num 1) ?r5)"
    using readByte_holds [OF h3 assms(2)] readByte_holds [OF h4 assms(3)] readByte_holds [OF h5 assms(4)]
    by (simp add: read_concat8_def)
  have before: "js_less (pos ?r1) (js_plus (pos ?r1) (Num 10))"
    using h1 by (auto simp: holds_def)
  have udh: "parseUdhConcat ?r1 (js_plus (pos ?r1) (Num 10)) = Some (Inr (Some ?c, skip (Num 1) ?r5))"
    using before readByte_holds [OF h1] readByte_holds [OF h2] c8 by (subst parseUdhConcat.simps) simp
  let ?r' = "seekTo (js_plus (pos ?r1) (Num 10)) (skip (Num 1) ?r5)"
  have "holds ?r1 ((toHexByte 0 @ toHexByte 3 @ toHexByte ref @ toHexByte tot @ toHexByte part) @ ud)"
    using h1 by simp
  then have h': "holds ?r' ud"
    using holds_seek [of ?r1 "toHexByte 0 @ toHexByte 3 @ toHexByte ref @ toHexByte tot @ toHexByte part" ud 5
        "skip (Num 1) ?r5"] assms(2-4)
    by (simp add: length_toHexByte) (simp add: skip_def)
  have "decodeUserData r (Num udl) enc True =
      Some (ebind (if enc = Gsm7Text then decodeGsm7 ud (Num (udl - 7)) (Num 1) else decodeUcs2 ?r' (Num (udl - 6)))
            (\<lambda>text. Inr (text, Some ?c)))"
    using readByte_holds [OF h0] udh remaining_holds [OF h'] by (simp add: decodeUserData_def Let_def)
  with h' show ?thesis by (auto simp: Let_def)
qed

end
