(* ===== verification/Sms_Ucs2.thy ===== *)
theory Sms_Ucs2 imports Sms_Hex begin

text \<open>
  The UCS-2 encoder: it always returns, its segments are the text cut between characters, and the
  decoder of the module gives back number, text and position of every segment.
\<close>

section \<open>Cutting a text\<close>

lemma segment_end_bounds:
  "n \<le> maxChars \<Longrightarrow> n \<le> segment_end maxChars n s \<and> segment_end maxChars n s \<le> maxChars"
  by (induction maxChars n s rule: segment_end.induct) auto

lemma segment_end_progress: "2 \<le> maxChars \<Longrightarrow> s \<noteq> [] \<Longrightarrow> 0 < segment_end maxChars 0 s"
proof -
  assume "2 \<le> maxChars" "s \<noteq> []"
  then obtain c t where s: "s = c # t" by (cases s) auto
  have "2 \<le> segment_end maxChars 2 (drop 1 t)" "1 \<le> segment_end maxChars 1 t"
    using segment_end_bounds [of 2 maxChars] segment_end_bounds [of 1 maxChars] \<open>2 \<le> maxChars\<close> by force+
  then have "0 < segment_end maxChars 2 (drop 1 t)" "0 < segment_end maxChars 1 t" by linarith+
  with s \<open>2 \<le> maxChars\<close> show ?thesis by (simp add: numeral_2_eq_2)
qed

lemma split_Nil [simp]: "splitUcs2Text maxChars [] = Some []"
  by (simp add: splitUcs2Text.simps)

lemma split_step:
  "s \<noteq> [] \<Longrightarrow> splitUcs2Text maxChars s =
    Option.bind (splitUcs2Text maxChars (drop (segment_end maxChars 0 s) s))
      (\<lambda>segments. Some (take (segment_end maxChars 0 s) s # segments))"
  by (subst splitUcs2Text.simps) simp

text \<open>Induction over the segments: an empty text, or a first segment and the rest.\<close>

lemma split_induct [consumes 1, case_names Nil Step]:
  assumes "2 \<le> maxChars" and "P []"
    and "\<And>s. s \<noteq> [] \<Longrightarrow> P (drop (segment_end maxChars 0 s) s) \<Longrightarrow> P s"
  shows "P s"
proof (induction s rule: length_induct)
  case (1 s)
  show ?case
  proof (cases "s = []")
    case False
    with segment_end_progress [OF assms(1)] have "length (drop (segment_end maxChars 0 s) s) < length s" by simp
    with 1 False assms(3) show ?thesis by blast
  qed (simp add: assms(2))
qed

lemma split_Some:
  assumes "2 \<le> maxChars"
  shows "\<exists>segs. splitUcs2Text maxChars s = Some segs \<and> concat segs = s
    \<and> (\<forall>seg \<in> set segs. seg \<noteq> [] \<and> length seg \<le> maxChars)"
  using assms
proof (induction s rule: split_induct)
  case Nil
  then show ?case by simp
next
  case (Step s)
  let ?n = "segment_end maxChars 0 s"
  from Step obtain segs where "splitUcs2Text maxChars (drop ?n s) = Some segs" "concat segs = drop ?n s"
    "\<forall>seg \<in> set segs. seg \<noteq> [] \<and> length seg \<le> maxChars" by blast
  moreover have "?n \<le> maxChars" using segment_end_bounds [of 0 maxChars] by simp
  moreover have "take ?n s \<noteq> []" using segment_end_progress [OF assms Step(1)] Step(1) by simp
  ultimately show ?case using Step(1) by (simp add: split_step)
qed

text \<open>A text whose surrogates come in pairs.\<close>

fun well_formed :: "jstr \<Rightarrow> bool" where
  "well_formed [] = True"
| "well_formed [c] = (\<not> is_high c)"
| "well_formed (c # d # s) = (if is_high c then is_low d \<and> well_formed s else well_formed (d # s))"

lemma js_chars_Cons: "\<not> is_high c \<Longrightarrow> js_chars (c # s) = [c] # js_chars s"
  by (cases s) simp_all

lemma well_formed_Cons: "\<not> is_high c \<Longrightarrow> well_formed (c # s) = well_formed s"
  by (cases s) simp_all

lemma segment_end_chars:
  assumes "well_formed s" and "n \<le> maxChars" and "m = segment_end maxChars n s - n"
  shows "js_chars s = js_chars (take m s) @ js_chars (drop m s) \<and> well_formed (drop m s)"
  using assms
proof (induction maxChars n s arbitrary: m rule: segment_end.induct)
  case (1 maxChars n)
  then show ?case by simp
next
  case (2 maxChars n c s)
  consider "m = 0" | (pair) "is_high c" "n + 2 \<le> maxChars" | (single) "\<not> is_high c" "n < maxChars"
    using "2.prems"(3) by (auto split: if_splits)
  then show ?case
  proof cases
    case 1
    with "2.prems" show ?thesis by simp
  next
    case pair
    with "2.prems"(1) obtain d t where s: "s = d # t" "is_low d" "well_formed t" by (cases s) auto
    let ?k = "segment_end maxChars (n + 2) t - (n + 2)"
    have m: "m = Suc (Suc ?k)"
      using pair s(1) "2.prems"(3) segment_end_bounds [OF pair(2), of t] by simp arith
    have "js_chars t = js_chars (take ?k t) @ js_chars (drop ?k t) \<and> well_formed (drop ?k t)"
      using "2.IH"(1) pair s by simp
    with pair(1) s show ?thesis unfolding m by simp
  next
    case single
    let ?k = "segment_end maxChars (n + 1) s - (n + 1)"
    have m: "m = Suc ?k"
      using single "2.prems"(3) segment_end_bounds [of "n + 1" maxChars s] by simp arith
    have "js_chars s = js_chars (take ?k s) @ js_chars (drop ?k s) \<and> well_formed (drop ?k s)"
      using "2.IH"(2) single "2.prems"(1) by (simp add: well_formed_Cons)
    with single show ?thesis unfolding m by (simp add: js_chars_Cons)
  qed
qed

lemma split_chars:
  assumes "2 \<le> maxChars" and "well_formed s" and "splitUcs2Text maxChars s = Some segs"
  shows "concat (map js_chars segs) = js_chars s"
  using assms
proof (induction s arbitrary: segs rule: split_induct)
  case Nil
  then show ?case by simp
next
  case (Step s)
  let ?n = "segment_end maxChars 0 s"
  from Step.prems(2) Step.hyps obtain rest where rest: "splitUcs2Text maxChars (drop ?n s) = Some rest"
    and segs: "segs = take ?n s # rest" by (auto simp: split_step bind_eq_Some_conv)
  from segment_end_chars [OF Step.prems(1), of 0 maxChars ?n]
  have "js_chars s = js_chars (take ?n s) @ js_chars (drop ?n s)" "well_formed (drop ?n s)" by simp_all
  with Step.IH [OF _ rest] segs show ?case by simp
qed

text \<open>Cutting a message for UCS-2 always returns, gives back the text, keeps every segment within the
  67 units that fit beside the header, and never puts the two halves of a surrogate pair into
  different segments.\<close>
theorem split_total:
  "\<exists>segs. splitUcs2Text MAX_UCS2_CHARS_CONCAT text = Some segs \<and> concat segs = text
     \<and> list_all (\<lambda>seg. seg \<noteq> [] \<and> length seg \<le> 67) segs
     \<and> (if well_formed text then concat (map js_chars segs) = js_chars text else True)"
proof -
  have two: "2 \<le> MAX_UCS2_CHARS_CONCAT" "MAX_UCS2_CHARS_CONCAT = 67" by (simp_all add: MAX_UCS2_CHARS_CONCAT_def)
  from split_Some [OF two(1), of "text"] obtain segs where segs:
    "splitUcs2Text MAX_UCS2_CHARS_CONCAT text = Some segs" "concat segs = text"
    "\<forall>seg \<in> set segs. seg \<noteq> [] \<and> length seg \<le> MAX_UCS2_CHARS_CONCAT" by blast
  moreover have "list_all (\<lambda>seg. seg \<noteq> [] \<and> length seg \<le> 67) segs"
    using segs(3) two(2) by (simp add: list_all_iff)
  moreover have "well_formed text \<Longrightarrow> concat (map js_chars segs) = js_chars text"
    using split_chars [OF two(1)] segs(1) by blast
  ultimately show ?thesis by auto
qed

section \<open>User data\<close>

definition units_ok :: "jstr \<Rightarrow> bool" where
  "units_ok s \<longleftrightarrow> list_all (\<lambda>c. c < 65536) s"

lemma units_ok_concat: "concat segs = s \<Longrightarrow> units_ok s \<Longrightarrow> seg \<in> set segs \<Longrightarrow> units_ok seg"
  by (auto simp: units_ok_def list_all_iff)

lemma encodeUcs2_Cons [simp]:
  "encodeUcs2 [] = []"
  "encodeUcs2 (c # s) = toHexByte (drop_bit 8 c) @ toHexByte (c AND 255) @ encodeUcs2 s"
  by (simp_all add: encodeUcs2_def)

lemma encodeUcs2_upper [simp]: "js_toUpper (encodeUcs2 s) = encodeUcs2 s"
  by (induction s) simp_all

lemma unit_bytes:
  assumes "c < 65536"
  shows "drop_bit 8 c < 256" "c AND 255 < 256"
    "nat ((push_bit 8 (js_int32 (Num (int (drop_bit 8 c)))) OR js_int32 (Num (int (c AND 255)))) mod 65536) = c"
proof -
  have d: "drop_bit 8 c = c div 256" by (simp add: drop_bit_eq_div)
  show hi: "drop_bit 8 c < 256" "c AND 255 < 256" using assms by (simp_all add: d and_255)
  have "push_bit 8 (int (c div 256)) OR int (c mod 256) = int c"
  proof -
    have "concat_bit 8 (int (c mod 256)) (int (c div 256)) = int (c mod 256) + 256 * int (c div 256)"
      by (simp add: concat_bit_eq take_bit_eq_mod push_bit_eq_mult zmod_int)
    moreover have "concat_bit 8 (int (c mod 256)) (int (c div 256)) = int (c mod 256) OR push_bit 8 (int (c div 256))"
      by (simp add: concat_bit_def take_bit_eq_mod zmod_int)
    ultimately show ?thesis by (simp add: or.commute zmod_int zdiv_int)
  qed
  then show "nat ((push_bit 8 (js_int32 (Num (int (drop_bit 8 c)))) OR js_int32 (Num (int (c AND 255)))) mod 65536) = c"
    using assms by (simp add: d and_255 js_int32_small del: js_int32.simps)
qed

lemma decode_units_holds:
  assumes "holds r (encodeUcs2 s @ t)" and "units_ok s"
  shows "\<exists>r'. decode_units (length s) r = Inr (s, r')"
  using assms
proof (induction s arbitrary: r)
  case Nil
  then show ?case by simp
next
  case (Cons c s)
  have c: "c < 65536" and s: "units_ok s" using Cons.prems(2) by (simp_all add: units_ok_def)
  note b = unit_bytes [OF c]
  have h: "holds r (toHexByte (drop_bit 8 c) @ toHexByte (c AND 255) @ encodeUcs2 s @ t)"
    using Cons.prems(1) by simp
  have h1: "holds (skip (Num 1) r) (toHexByte (c AND 255) @ encodeUcs2 s @ t)" using holds_skip1 [OF h b(1)] .
  have h2: "holds (skip (Num 1) (skip (Num 1) r)) (encodeUcs2 s @ t)" using holds_skip1 [OF h1 b(2)] .
  from Cons.IH [OF h2 s] obtain r' where "decode_units (length s) (skip (Num 1) (skip (Num 1) r)) = Inr (s, r')" ..
  with readByte_holds [OF h b(1)] readByte_holds [OF h1 b(2)] b(3) show ?case by simp
qed

lemma decodeUcs2_holds:
  assumes "holds r (encodeUcs2 s)" and "units_ok s"
  shows "decodeUcs2 r (Num (2 * int (length s))) = Inr s"
proof -
  have "nat (2 * int (length s)) div 2 = length s" by (simp add: nat_mult_distrib)
  with decode_units_holds [of r s "[]"] assms show ?thesis by (auto simp: decodeUcs2_def)
qed

section \<open>Round trips\<close>

lemma decode_single:
  assumes "phone_number to" and "units_ok s" and "length s \<le> 70"
  shows "decodePduSubmit (pdu (encodeSinglePdu to s)) =
    Some (Inr \<lparr>recipient = to, sb_text = s, sb_encoding = Ucs2Text, sb_concat = None\<rparr>)"
proof -
  have udl: "length s * 2 < 256" using assms(3) by simp
  from decodePduSubmit_fields [OF assms(1) _ _ udl encodeUcs2_upper, of 1 8 s] obtain r where
    "holds r (encodeUcs2 s)" and d: "decodePduSubmit (pdu (encodeSinglePdu to s)) =
      dbind (decodeUserData r (Num (int (length s * 2))) Ucs2Text False)
        (\<lambda>(text, concat). Some (Inr \<lparr>recipient = to, sb_text = text, sb_encoding = Ucs2Text, sb_concat = concat\<rparr>))"
    by (auto simp: encodeSinglePdu_def)
  from decodeUcs2_holds [OF this(1) assms(2)] d show ?thesis
    by (simp add: decodeUserData_def mult.commute)
qed

lemma concat_udh_upper [simp]: "js_toUpper (concat_udh ref tot part) = concat_udh ref tot part"
  by (simp add: concat_udh_def)

lemma decode_segment:
  assumes "phone_number to" and "units_ok s" and "length s \<le> 67" and "ref < 256" "tot < 256" "part < 256"
  shows "decodePduSubmit (pdu (encode_segment to ref tot part s)) =
    Some (Inr \<lparr>recipient = to, sb_text = s, sb_encoding = Ucs2Text, sb_concat =
      Some \<lparr>reference = Num (int ref), totalParts = Num (int tot), partNumber = Num (int part)\<rparr>\<rparr>)"
proof -
  have udl: "6 + length s * 2 < 256" using assms(3) by simp
  have "js_toUpper (concat_udh ref tot part @ encodeUcs2 s) = concat_udh ref tot part @ encodeUcs2 s" by simp
  from decodePduSubmit_fields [OF assms(1) _ _ udl this, of 65 8] obtain r where
    h: "holds r (concat_udh ref tot part @ encodeUcs2 s)" and
    d: "decodePduSubmit (pdu (encode_segment to ref tot part s)) =
      dbind (decodeUserData r (Num (int (6 + length s * 2))) Ucs2Text True)
        (\<lambda>(text, concat). Some (Inr \<lparr>recipient = to, sb_text = text, sb_encoding = Ucs2Text, sb_concat = concat\<rparr>))"
    by (auto simp: encode_segment_def)
  from decodeUserData_concat [OF h assms(4-6), of "int (6 + length s * 2)" Ucs2Text] decodeUcs2_holds assms(2) d
  show ?thesis by (auto simp: Let_def mult.commute)
qed

text \<open>What a receiver decodes of a message sent in segments.\<close>

definition expected_parts :: "jstr \<Rightarrow> sms_encoding \<Rightarrow> nat \<Rightarrow> bool \<Rightarrow> jstr list \<Rightarrow> decoded_submit list" where
  "expected_parts to enc ref single segs =
     map (\<lambda>(i, seg). \<lparr>recipient = to, sb_text = seg, sb_encoding = enc, sb_concat = (if single then None else
         Some \<lparr>reference = Num (int ref), totalParts = Num (int (length segs)), partNumber = Num (int (i + 1))\<rparr>)\<rparr>)
       (enumerate 0 segs)"

lemma encodePduSubmit_cases:
  "encodePduSubmit counter to s =
    (if length s \<le> 70 then Some (Inr [encodeSinglePdu to s], counter)
     else (let segs = the (splitUcs2Text 67 s)
           in if length segs > 255 then Some (Inl (too_long (length segs)), counter)
              else Some (Inr (map (\<lambda>(i, seg). encode_segment to counter (length segs) (i + 1) seg) (enumerate 0 segs)),
                         (counter + 1) mod 256)))"
proof -
  obtain segs where "splitUcs2Text 67 s = Some segs" using split_Some [of 67 s] by auto
  then show ?thesis
    by (simp add: encodePduSubmit_def encodeConcatenatedPdus_def MAX_UCS2_CHARS_SINGLE_def MAX_UCS2_CHARS_CONCAT_def
        MAX_CONCAT_PARTS_def nextConcatRef_def Let_def)
qed

lemma ucs2_encoded:
  assumes "phone_number to" and "units_ok s" and "counter < 256"
    and "encodePduSubmit counter to s = Some (Inr pdus, counter')"
  shows "\<exists>segs. concat segs = s \<and> counter' < 256
    \<and> segs \<noteq> [] \<and> length segs < 256 \<and> (length s \<le> 70 \<longrightarrow> segs = [s])
    \<and> map (decodePduSubmit \<circ> pdu) pdus = map (Some \<circ> Inr) (expected_parts to Ucs2Text counter (length s \<le> 70) segs)"
proof (cases "length s \<le> 70")
  case True
  with assms(4) have "pdus = [encodeSinglePdu to s]" "counter' = counter" by (simp_all add: encodePduSubmit_cases)
  with decode_single [OF assms(1,2) True] assms(3) True show ?thesis
    by (intro exI [of _ "[s]"]) (simp add: expected_parts_def)
next
  case False
  from split_Some [of 67 s] obtain segs where segs: "splitUcs2Text 67 s = Some segs" "concat segs = s"
    "\<forall>seg \<in> set segs. length seg \<le> 67" by auto
  with assms(4) False have n: "length segs \<le> 255" and c: "counter' = (counter + 1) mod 256"
    and pdus: "pdus = map (\<lambda>(i, seg). encode_segment to counter (length segs) (i + 1) seg) (enumerate 0 segs)"
    by (auto simp: encodePduSubmit_cases Let_def split: if_splits)
  have "decodePduSubmit (pdu (encode_segment to counter (length segs) (i + 1) seg)) =
      Some (Inr \<lparr>recipient = to, sb_text = seg, sb_encoding = Ucs2Text, sb_concat =
        Some \<lparr>reference = Num (int counter), totalParts = Num (int (length segs)), partNumber = Num (int (i + 1))\<rparr>\<rparr>)"
    if "(i, seg) \<in> set (enumerate 0 segs)" for i seg
  proof -
    from that have i: "i < length segs" "seg \<in> set segs" by (auto simp: in_set_enumerate_eq)
    with n have "length segs < 256" "i + 1 < 256" by simp_all
    with i(2) segs(3) show ?thesis
      using decode_segment [OF assms(1) units_ok_concat [OF segs(2) assms(2) i(2)]] assms(3) by blast
  qed
  then have "map (decodePduSubmit \<circ> pdu) pdus = map (Some \<circ> Inr) (expected_parts to Ucs2Text counter False segs)"
    by (auto simp: pdus expected_parts_def)
  moreover have "segs \<noteq> []" using segs(2) False by auto
  ultimately show ?thesis using segs(2) False c n by (intro exI [of _ segs]) simp
qed

text \<open>C24: every message the UCS-2 encoder accepts is received as it was sent: the decoder gives back from
  its PDUs the number, the segments in order, whose concatenation is the text, and, when there are
  several, the common reference, their number and their positions.\<close>
theorem ucs2_round_trip:
  assumes "phone_number to" and "units_ok s" and "counter < 256"
    and "encodePduSubmit counter to s = Some (Inr pdus, counter')"
  shows "\<exists>segs. concat segs = s \<and> counter' < 256
    \<and> map (decodePduSubmit \<circ> pdu) pdus = map (Some \<circ> Inr) (expected_parts to Ucs2Text counter (length s \<le> 70) segs)"
  using ucs2_encoded [OF assms] by blast

lemma ucs2_round_trip_witness:
  "\<exists>segs. concat segs = [1329, 55357, 56832] \<and> (7 :: nat) < 256 \<and>
    map (decodePduSubmit \<circ> pdu) [encodeSinglePdu (js ''+37491'') [1329, 55357, 56832]] =
      map (Some \<circ> Inr) (expected_parts (js ''+37491'') Ucs2Text 7 True segs)"
  using ucs2_round_trip [of "js ''+37491''" "[1329, 55357, 56832]" 7 "[encodeSinglePdu (js ''+37491'') [1329, 55357, 56832]]" 7]
  by (simp add: phone_number_def digits_of_def js_def js_startsWith_def units_ok_def encodePduSubmit_cases)

end
