(* ===== verification/Sms_Gsm7.thy ===== *)
theory Sms_Gsm7 imports Sms_Ucs2 begin

text \<open>
  The GSM 7-bit encoder: the alphabet test and the septet count of \<^verbatim>\<open>gsm7.ts\<close> agree with the tables of the
  decoder, packing and unpacking are inverse, and every accepted message is received as it was sent.
  A packed octet string is the little-endian notation of the number whose digits to base 128 are the
  septets.
\<close>

section \<open>Tables\<close>

lemma foldl_update_skip:
  "foldl (\<lambda>m (i, ch). if ch \<noteq> [] then m(ch \<mapsto> i) else m) m ps =
    m ++ map_of (rev [(ch, i). (i, ch) \<leftarrow> ps, ch \<noteq> []])"
  by (induction ps arbitrary: m) (auto simp: map_add_def fun_eq_iff split: option.splits)

lemma foldl_update:
  "foldl (\<lambda>m (code, ch). m(ch \<mapsto> code)) m ps = m ++ map_of (rev (map prod.swap ps))"
  by (induction ps arbitrary: m) (auto simp: map_add_def fun_eq_iff split: option.splits)

lemma table_facts:
  "length GSM7_TABLE = 128" "[ch \<leftarrow> GSM7_TABLE. ch \<noteq> []] = GSM7_BASIC" "distinct GSM7_BASIC"
  "GSM7_TABLE ! 27 = []" "map snd GSM7_EXTENSION = [[12], [94], [123], [125], [92], [91], [126], [93], [124], [8364]]"
  by (simp_all add: GSM7_TABLE_def GSM7_BASIC_def GSM7_EXTENSION_def)

lemma nth_opt_nth: "nth_opt xs i = (if i < length xs then Some (xs ! i) else None)"
  by (induction xs i rule: nth_opt.induct) auto

lemma basic_encode_iff:
  "GSM7_BASIC_ENCODE ch = Some i \<longleftrightarrow> ch \<noteq> [] \<and> nth_opt GSM7_TABLE i = Some ch"
proof -
  let ?ps = "[(ch, i). (i, ch) \<leftarrow> enumerate 0 GSM7_TABLE, ch \<noteq> []]"
  have keys: "map fst [(ch, i). (i, ch) \<leftarrow> enumerate n xs, ch \<noteq> []] = [ch \<leftarrow> xs. ch \<noteq> []]"
    for n and xs :: "jstr list"
    by (induction xs arbitrary: n) auto
  have "distinct (map fst ?ps)" unfolding keys by (simp add: table_facts)
  then have "distinct (map fst (rev ?ps))" by (simp add: rev_map [symmetric])
  then have "GSM7_BASIC_ENCODE ch = Some i \<longleftrightarrow> (ch, i) \<in> set (rev ?ps)"
    unfolding GSM7_BASIC_ENCODE_def foldl_update_skip by (simp only: empty_map_add map_of_eq_Some_iff)
  also have "\<dots> \<longleftrightarrow> ch \<noteq> [] \<and> nth_opt GSM7_TABLE i = Some ch"
    by (auto simp: in_set_enumerate_eq nth_opt_nth split: if_splits)
  finally show ?thesis .
qed

lemma extension_encode_iff: "GSM7_EXTENSION_ENCODE ch = Some i \<longleftrightarrow> map_of GSM7_EXTENSION i = Some ch"
proof -
  have "distinct (map fst (rev (map prod.swap GSM7_EXTENSION)))" "distinct (map fst GSM7_EXTENSION)"
    by (simp_all add: GSM7_EXTENSION_def)
  then show ?thesis
    unfolding GSM7_EXTENSION_ENCODE_def foldl_update
    by (simp only: empty_map_add map_of_eq_Some_iff) auto
qed

lemma basic_encode_some: "GSM7_BASIC_ENCODE ch \<noteq> None \<longleftrightarrow> ch \<in> set GSM7_BASIC"
proof -
  have "GSM7_BASIC_ENCODE ch \<noteq> None \<longleftrightarrow> (\<exists>i. ch \<noteq> [] \<and> nth_opt GSM7_TABLE i = Some ch)"
    by (simp add: basic_encode_iff flip: not_None_eq) (metis basic_encode_iff not_None_eq)
  also have "\<dots> \<longleftrightarrow> ch \<in> set [ch \<leftarrow> GSM7_TABLE. ch \<noteq> []]"
    by (auto simp: nth_opt_nth in_set_conv_nth split: if_splits)
  finally show ?thesis by (simp only: table_facts)
qed

lemma extension_encode_some: "GSM7_EXTENSION_ENCODE ch \<noteq> None \<longleftrightarrow> ch \<in> set GSM7_EXTENSION_CHARS"
proof -
  have "GSM7_EXTENSION_ENCODE ch \<noteq> None \<longleftrightarrow> (\<exists>i. map_of GSM7_EXTENSION i = Some ch)"
    by (metis extension_encode_iff not_None_eq)
  also have "\<dots> \<longleftrightarrow> ch \<in> snd ` set GSM7_EXTENSION"
    by (subst map_of_eq_Some_iff) (force simp: GSM7_EXTENSION_def)+
  also have "\<dots> \<longleftrightarrow> ch \<in> set GSM7_EXTENSION_CHARS"
    unfolding set_map [symmetric] table_facts by (auto simp: GSM7_EXTENSION_CHARS_def)
  finally show ?thesis .
qed

lemma extension_not_basic: "ch \<in> set GSM7_EXTENSION_CHARS \<Longrightarrow> ch \<notin> set GSM7_BASIC"
proof -
  have "list_all (\<lambda>ch. ch \<notin> set GSM7_BASIC) GSM7_EXTENSION_CHARS"
    by (simp add: GSM7_EXTENSION_CHARS_def GSM7_BASIC_def)
  then show "ch \<in> set GSM7_EXTENSION_CHARS \<Longrightarrow> ch \<notin> set GSM7_BASIC" by (simp add: list_all_iff)
qed

lemma septets_of_chars_iff:
  "(\<exists>s. septets_of_chars chs = Inr s) \<longleftrightarrow>
    list_all (\<lambda>ch. ch \<in> set GSM7_BASIC \<or> ch \<in> set GSM7_EXTENSION_CHARS) chs"
proof (induction chs)
  case Nil
  then show ?case by simp
next
  case (Cons ch chs)
  then show ?case
    using basic_encode_some [of ch] extension_encode_some [of ch]
    by (auto simp: ebind_eq_Inr split: option.splits)
qed

lemma septets_length:
  "septets_of_chars chs = Inr s \<Longrightarrow>
    foldl (\<lambda>n ch. n + (if ch \<in> set GSM7_EXTENSION_CHARS then 2 else 1)) k chs = k + length s"
proof (induction chs arbitrary: s k)
  case Nil
  then show ?case by simp
next
  case (Cons ch chs)
  show ?case
  proof (cases "GSM7_BASIC_ENCODE ch")
    case (Some i)
    then have "ch \<notin> set GSM7_EXTENSION_CHARS" using basic_encode_some [of ch] extension_not_basic by auto
    with Some Cons show ?thesis by (auto simp: ebind_eq_Inr)
  next
    case None
    with Cons.prems obtain e t where "GSM7_EXTENSION_ENCODE ch = Some e" "septets_of_chars chs = Inr t"
      "s = GSM7_ESC # e # t" by (auto simp: ebind_eq_Inr split: option.splits)
    with Cons.IH extension_encode_some [of ch] show ?thesis by auto
  qed
qed

text \<open>The test that selects GSM 7-bit accepts exactly the texts that the encoder can write, and the count
  that selects text mode is the number of septets it writes.\<close>
theorem gsm7_test_exact:
  "(isGsm7BitCompatible s \<longleftrightarrow> (\<exists>septets. encodeGsm7Septets s = Inr septets))
   \<and> (case encodeGsm7Septets s of Inl e \<Rightarrow> True | Inr septets \<Rightarrow> gsm7SeptetLength s = length septets)"
proof (intro conjI)
  show "isGsm7BitCompatible s \<longleftrightarrow> (\<exists>septets. encodeGsm7Septets s = Inr septets)"
    by (simp only: isGsm7BitCompatible_def encodeGsm7Septets_def septets_of_chars_iff)
  show "case encodeGsm7Septets s of Inl e \<Rightarrow> True | Inr septets \<Rightarrow> gsm7SeptetLength s = length septets"
    using septets_length [of "js_chars s" _ 0]
    by (simp add: gsm7SeptetLength_def encodeGsm7Septets_def split: sum.split)
qed

section \<open>Septets back to text\<close>

fun text_of_septets :: "bool \<Rightarrow> nat list \<Rightarrow> jstr" where
  "text_of_septets escaped [] = []"
| "text_of_septets escaped (s # ss) =
     (if escaped then (case map_of GSM7_EXTENSION s of None \<Rightarrow> [] | Some ext \<Rightarrow> ext) @ text_of_septets False ss
      else if s = GSM7_ESC then text_of_septets True ss
      else (case nth_opt GSM7_TABLE s of None \<Rightarrow> [] | Some ch \<Rightarrow> ch) @ text_of_septets False ss)"

lemma septets_of_chars_text:
  "septets_of_chars chs = Inr ss \<Longrightarrow> text_of_septets False ss = concat chs \<and> list_all (\<lambda>s. s < 128) ss"
proof (induction chs arbitrary: ss)
  case Nil
  then show ?case by simp
next
  case (Cons ch chs)
  show ?case
  proof (cases "GSM7_BASIC_ENCODE ch")
    case (Some i)
    then have i: "ch \<noteq> []" "nth_opt GSM7_TABLE i = Some ch" by (simp_all add: basic_encode_iff)
    then have "i < 128" "i \<noteq> GSM7_ESC"
      using table_facts(1,4) by (auto simp: nth_opt_nth GSM7_ESC_def split: if_splits)
    with Some i Cons show ?thesis by (auto simp: ebind_eq_Inr)
  next
    case None
    with Cons.prems obtain e t where e: "GSM7_EXTENSION_ENCODE ch = Some e" and t: "septets_of_chars chs = Inr t"
      "ss = GSM7_ESC # e # t" by (auto simp: ebind_eq_Inr split: option.splits)
    from e have "map_of GSM7_EXTENSION e = Some ch" by (simp add: extension_encode_iff)
    moreover from this have "e < 128" by (auto simp: GSM7_EXTENSION_def split: if_splits)
    ultimately show ?thesis using Cons.IH t by (auto simp: GSM7_ESC_def)
  qed
qed

section \<open>Packing\<close>

fun septet_value :: "nat list \<Rightarrow> nat" where
  "septet_value [] = 0"
| "septet_value (s # ss) = s + 128 * septet_value ss"

fun le_bytes :: "nat \<Rightarrow> nat \<Rightarrow> nat list" where
  "le_bytes 0 v = []"
| "le_bytes (Suc n) v = v mod 256 # le_bytes n (v div 256)"

definition hex_of :: "nat list \<Rightarrow> jstr" where
  "hex_of bs = concat (map toHexByte bs)"

lemma hex_of_simps [simp]: "hex_of [] = []" "hex_of (b # bs) = toHexByte b @ hex_of bs"
  by (simp_all add: hex_of_def)

lemma hex_of_upper [simp]: "js_toUpper (hex_of bs) = hex_of bs"
  by (induction bs) simp_all

lemma le_bytes_lt: "b \<in> set (le_bytes n v) \<Longrightarrow> b < 256"
  by (induction n v rule: le_bytes.induct) auto

lemma length_le_bytes [simp]: "length (le_bytes n v) = n"
  by (induction n v rule: le_bytes.induct) auto

lemma and_127: "s < 128 \<Longrightarrow> (s :: nat) AND 127 = s"
  using take_bit_eq_mask [of 7 s] by (simp add: mask_eq_exp_minus_1 take_bit_eq_mod)

lemma pack_loop_value:
  assumes "buffer < 2 ^ bits" and "bits < 8" and "list_all (\<lambda>s. s < 128) ss"
  shows "pack_loop buffer bits ss =
    hex_of (le_bytes ((bits + 7 * length ss + 7) div 8) (buffer + 2 ^ bits * septet_value ss))"
  using assms
proof (induction ss arbitrary: buffer bits)
  case Nil
  then show ?case
  proof (cases "bits = 0")
    case False
    with Nil have "(bits + 7) div 8 = Suc 0" by simp
    then show ?thesis using False by (simp add: and_255)
  qed simp
next
  case (Cons s ss)
  let ?b = "buffer + 2 ^ bits * s"
  have s: "s < 128" and ss: "list_all (\<lambda>s. s < 128) ss" using Cons.prems(3) by simp_all
  have "?b < 2 ^ bits + 2 ^ bits * s" using Cons.prems(1) by simp
  also have "\<dots> = 2 ^ bits * (s + 1)" by simp
  also have "\<dots> \<le> 2 ^ bits * 128" using s by (intro mult_left_mono) simp_all
  finally have b: "?b < 2 ^ (bits + 7)" by (simp add: power_add)
  have step: "buffer OR push_bit bits (s AND 127) = ?b"
    using or_push_add [OF Cons.prems(1)] s by (simp add: and_127)
  show ?case
  proof (cases "bits = 0")
    case True
    with Cons.prems(1) have "buffer = 0" by simp
    with True step s Cons.IH [of s 7] ss show ?thesis
      by (simp add: emit_octets.simps and_127 add.commute)
  next
    case False
    then obtain k where k: "bits = Suc k" "k < 7" using Cons.prems(2) by (cases bits) auto
    have lt: "?b div 256 < 2 ^ k"
      using b by (simp add: k(1) power_add less_mult_imp_div_less)
    have emit: "emit_octets ?b (bits + 7) = (toHexByte (?b mod 256), ?b div 256, k)"
      using k by (simp add: emit_octets.simps and_255 drop_bit_eq_div)
    have "2 ^ bits * (128 * septet_value ss) = 256 * (2 ^ k * septet_value ss)" by (simp add: k(1))
    then have v: "buffer + 2 ^ bits * septet_value (s # ss) = ?b + 256 * (2 ^ k * septet_value ss)"
      by (simp add: distrib_left)
    have n: "(bits + 7 * length (s # ss) + 7) div 8 = Suc ((k + 7 * length ss + 7) div 8)"
      by (simp add: k(1))
    have "pack_loop buffer bits (s # ss) = toHexByte (?b mod 256) @ pack_loop (?b div 256) k ss"
      by (simp only: pack_loop.simps step emit Let_def prod.case)
    also have "\<dots> = hex_of (le_bytes (Suc ((k + 7 * length ss + 7) div 8)) (?b + 256 * (2 ^ k * septet_value ss)))"
      using Cons.IH [OF lt _ ss] k(2) by (simp add: add.commute [of "2 ^ k * septet_value ss"])
    finally show ?thesis by (simp only: v n)
  qed
qed

lemma hex_bytes_hex_of: "list_all (\<lambda>b. b < 256) bs \<Longrightarrow> hex_bytes (hex_of bs) = map (Num \<circ> int) bs"
proof (induction bs)
  case (Cons b bs)
  then have "js_parseInt 16 [hexd (b div 16), hexd (b mod 16)] = Num (int b)"
    using parse_toHexByte [of b] by (simp add: toHexByte_digits)
  with Cons show ?case by (simp add: toHexByte_digits)
qed simp

section \<open>Unpacking\<close>

lemma nth_le_bytes: "i < n \<Longrightarrow> le_bytes n v ! i = v div 256 ^ i mod 256"
proof (induction n v arbitrary: i rule: le_bytes.induct)
  case (2 n v)
  then show ?case by (cases i) (simp_all add: div_mult2_eq)
qed simp

lemma bits_window:
  assumes "p + k \<le> m"
  shows "(x mod 2 ^ m) div 2 ^ p mod 2 ^ k = x div 2 ^ p mod (2 ^ k :: nat)"
proof -
  have "take_bit k (drop_bit p (take_bit m x)) = take_bit k (drop_bit p x)"
    using assms by (simp add: drop_bit_take_bit)
  then show ?thesis by (simp add: take_bit_eq_mod drop_bit_eq_div)
qed

lemma int32_byte [simp]: "b < 256 \<Longrightarrow> js_int32 (Num (int b)) = int b"
  by (rule js_int32_small) simp_all

lemma nat_and_127: "nat (int x AND 127) = x mod 128"
proof -
  have "int x AND 127 = int (x mod 128)"
    using take_bit_eq_mask [of 7 "int x"] by (simp add: mask_eq_exp_minus_1 take_bit_eq_mod zmod_int)
  then show ?thesis by (simp only: nat_int)
qed

lemma power_octets: "(2 :: nat) ^ n = 256 ^ (n div 8) * 2 ^ (n mod 8)"
proof -
  have "(2 :: nat) ^ n = 2 ^ (8 * (n div 8) + n mod 8)" by simp
  also have "\<dots> = (2 ^ 8) ^ (n div 8) * 2 ^ (n mod 8)" by (simp only: power_add power_mult)
  finally show ?thesis by simp
qed

lemma septet_at_le_bytes:
  assumes "off + 7 \<le> 8 * n"
  shows "septet_at (map (Num \<circ> int) (le_bytes n v)) off = Some (v div 2 ^ off mod 128)"
proof -
  let ?i = "off div 8" and ?p = "off mod 8"
  let ?x = "v div 256 ^ ?i"
  have x: "v div 2 ^ off = ?x div 2 ^ ?p" by (subst power_octets) (simp only: div_mult2_eq)
  have i: "?i < n" using assms by linarith
  have cur: "nth_opt (map (Num \<circ> int) (le_bytes n v)) ?i = Some (Num (int (?x mod 256)))"
    using i by (simp add: nth_opt_nth nth_le_bytes)
  show ?thesis
  proof (cases "?p \<le> 1")
    case True
    have "drop_bit ?p (int (?x mod 256)) = int (?x mod 256 div 2 ^ ?p)"
      by (simp add: drop_bit_eq_div zdiv_int)
    then have "nat (shift_right (Num (int (?x mod 256))) ?p AND 127) = ?x mod 256 div 2 ^ ?p mod 128"
      by (simp only: shift_right_def int32_byte [OF mod_less_divisor] zero_less_numeral nat_and_127)
    also have "\<dots> = ?x div 2 ^ ?p mod 128" using bits_window [of ?p 7 8 ?x] True by simp
    finally show ?thesis using True cur x by (simp add: septet_at_def Let_def)
  next
    case False
    have "8 * ?i + ?p = off" by simp
    with False assms have i': "?i + 1 < n" by linarith
    have "v div 256 ^ (?i + 1) = ?x div 256" by (simp only: power_add power_one_right div_mult2_eq)
    then have nxt: "nth_opt (map (Num \<circ> int) (le_bytes n v)) (?i + 1) = Some (Num (int (?x div 256 mod 256)))"
      using i' by (simp add: nth_opt_nth nth_le_bytes)
    have "int (?x mod 256) OR push_bit 8 (int (?x div 256 mod 256)) = int (?x mod 256 OR push_bit 8 (?x div 256 mod 256))"
      by (simp only: of_nat_or_eq of_nat_push_bit)
    also have "?x mod 256 OR push_bit 8 (?x div 256 mod 256) = ?x mod 65536"
      using or_push_add [of "?x mod 256" 8 "?x div 256 mod 256"] mod_mult2_eq [of ?x 256 256] by simp
    finally have both: "int (?x mod 256) OR push_bit 8 (int (?x div 256 mod 256)) = int (?x mod 65536)" .
    have "drop_bit ?p (int (?x mod 65536)) = int (?x mod 65536 div 2 ^ ?p)"
      by (simp add: drop_bit_eq_div zdiv_int)
    then have "nat (drop_bit ?p (int (?x mod 65536)) AND 127) = ?x mod 65536 div 2 ^ ?p mod 128"
      by (simp only: nat_and_127)
    also have "\<dots> = ?x div 2 ^ ?p mod 128"
      using bits_window [of ?p 7 16 ?x] mod_less_divisor [of 8 off] by simp
    finally show ?thesis
      using False cur nxt x both by (simp add: septet_at_def Let_def int32_byte [OF mod_less_divisor] del: js_int32.simps)
  qed
qed

lemma septet_value_div:
  "list_all (\<lambda>s. s < 128) ss \<Longrightarrow> j < length ss \<Longrightarrow> septet_value ss div 2 ^ (7 * j) mod 128 = ss ! j"
proof (induction ss arbitrary: j)
  case (Cons s ss)
  show ?case
  proof (cases j)
    case 0
    with Cons.prems show ?thesis by simp
  next
    case (Suc k)
    have "(2 :: nat) ^ (7 * j) = 128 * 2 ^ (7 * k)" by (simp add: Suc power_add)
    then have "septet_value (s # ss) div 2 ^ (7 * j) = septet_value ss div 2 ^ (7 * k)"
      using Cons.prems(1) by (simp add: div_mult2_eq)
    with Cons Suc show ?thesis by simp
  qed
qed simp

lemma unpack_septets:
  assumes "\<And>j. j < length ss \<Longrightarrow> septet_at bytes (off + 7 * j) = Some (ss ! j)"
  shows "unpack hex bytes i (length ss) off escaped = Inr (text_of_septets escaped ss)"
  using assms
proof (induction ss arbitrary: off i escaped)
  case (Cons s ss)
  have "septet_at bytes off = Some s" using Cons.prems [of 0] by simp
  moreover have "unpack hex bytes (Suc i) (length ss) (off + 7) e = Inr (text_of_septets e ss)" for e
    using Cons.prems [of "Suc _"] by (intro Cons.IH) (simp add: add.assoc)
  ultimately show ?case by simp
qed simp

lemma decode_pack:
  assumes "list_all (\<lambda>s. s < 128) ss" and "fill < 8"
  shows "decodeGsm7 (packSeptets ss fill) (Num (int (length ss))) (Num (int fill)) = Inr (text_of_septets False ss)"
proof -
  let ?n = "(fill + 7 * length ss + 7) div 8" and ?v = "2 ^ fill * septet_value ss"
  have hex: "packSeptets ss fill = hex_of (le_bytes ?n ?v)"
    using pack_loop_value [of 0 fill ss] assms by (simp add: packSeptets_def)
  have bytes: "hex_bytes (hex_of (le_bytes ?n ?v)) = map (Num \<circ> int) (le_bytes ?n ?v)"
    by (rule hex_bytes_hex_of) (simp add: list_all_iff le_bytes_lt)
  have req: "(int fill + int (length ss) * 7 + 7) div 8 = int ?n" by (simp add: zdiv_int mult.commute)
  have "septet_at (map (Num \<circ> int) (le_bytes ?n ?v)) (fill + 7 * j) = Some (ss ! j)" if "j < length ss" for j
  proof -
    from that have "fill + 7 * j + 7 \<le> 8 * ?n" by simp
    moreover have "?v div 2 ^ (fill + 7 * j) = septet_value ss div 2 ^ (7 * j)"
      by (simp add: power_add div_mult2_eq)
    ultimately show ?thesis using septet_value_div [OF assms(1) that] by (simp add: septet_at_le_bytes)
  qed
  then have "unpack (hex_of (le_bytes ?n ?v)) (map (Num \<circ> int) (le_bytes ?n ?v)) 0 (length ss) fill False =
      Inr (text_of_septets False ss)"
    by (rule unpack_septets)
  then show ?thesis unfolding hex decodeGsm7_def bytes by (simp add: req)
qed

section \<open>Cutting by septets\<close>

lemma alphabet_unit: "ch \<in> set GSM7_BASIC \<or> ch \<in> set GSM7_EXTENSION_CHARS \<Longrightarrow> \<exists>c. ch = [c] \<and> \<not> is_high c"
proof -
  have "list_all (\<lambda>ch. length ch = 1 \<and> \<not> is_high (hd ch)) (GSM7_BASIC @ GSM7_EXTENSION_CHARS)"
    by (simp add: GSM7_BASIC_def GSM7_EXTENSION_CHARS_def is_high_def)
  moreover assume "ch \<in> set GSM7_BASIC \<or> ch \<in> set GSM7_EXTENSION_CHARS"
  ultimately have "length ch = 1" "\<not> is_high (hd ch)" by (auto simp: list_all_iff)
  then show ?thesis by (cases ch) auto
qed

lemma js_chars_concat:
  "list_all (\<lambda>ch. ch \<in> set GSM7_BASIC \<or> ch \<in> set GSM7_EXTENSION_CHARS) chs \<Longrightarrow> js_chars (concat chs) = chs"
proof (induction chs)
  case (Cons ch chs)
  then obtain c where "ch = [c]" "\<not> is_high c" using alphabet_unit [of ch] by auto
  with Cons show ?case by (simp add: js_chars_Cons)
qed simp

lemma encode_group:
  assumes "septets_of_chars g = Inr ss"
  shows "encodeGsm7Septets (concat g) = Inr ss"
proof -
  have "js_chars (concat g) = g" using septets_of_chars_iff [of g] assms by (intro js_chars_concat) blast
  with assms show ?thesis by (simp add: encodeGsm7Septets_def)
qed

lemma septets_append:
  "septets_of_chars a = Inr s \<Longrightarrow> septets_of_chars b = Inr t \<Longrightarrow> septets_of_chars (a @ b) = Inr (s @ t)"
  by (induction a arbitrary: s) (auto simp: ebind_eq_Inr split: option.splits)

lemma septets_one:
  assumes "septets_of_chars (ch # chs) = Inr s"
  shows "\<exists>t u. septets_of_chars [ch] = Inr t \<and> septets_of_chars chs = Inr u
    \<and> length t = (if GSM7_EXTENSION_ENCODE ch \<noteq> None then 2 else 1)"
proof (cases "GSM7_BASIC_ENCODE ch")
  case (Some i)
  then have "ch \<notin> set GSM7_EXTENSION_CHARS" using basic_encode_some [of ch] extension_not_basic by auto
  then have "GSM7_EXTENSION_ENCODE ch = None" using extension_encode_some [of ch] by blast
  with Some assms show ?thesis by (auto simp: ebind_eq_Inr)
next
  case None
  with assms show ?thesis by (auto simp: ebind_eq_Inr split: option.splits)
qed

lemma split_loop_groups:
  assumes "2 \<le> maxSeptets" and "septets_of_chars chs = Inr s" and "septets_of_chars cur = Inr t"
    and "length t = count" and "count \<le> maxSeptets"
  shows "\<exists>groups. split_loop maxSeptets chs (concat cur) count = map concat groups \<and> concat groups = cur @ chs
    \<and> (\<forall>g \<in> set groups. \<exists>u. septets_of_chars g = Inr u \<and> length u \<le> maxSeptets)"
  using assms(2-)
proof (induction chs arbitrary: s cur t count)
  case Nil
  then show ?case by (intro exI [of _ "[cur]"]) simp
next
  case (Cons ch chs)
  let ?cost = "if GSM7_EXTENSION_ENCODE ch \<noteq> None then 2 else 1 :: nat"
  from septets_one [OF Cons.prems(1)] obtain v u where v: "septets_of_chars [ch] = Inr v" "length v = ?cost"
    and u: "septets_of_chars chs = Inr u" by blast
  show ?case
  proof (cases "count + ?cost > maxSeptets")
    case True
    have "?cost \<le> maxSeptets" using assms(1) by simp
    with Cons.IH [OF u v(1) v(2)] obtain groups where
      "split_loop maxSeptets chs ch ?cost = map concat groups" "concat groups = ch # chs"
      "\<forall>g \<in> set groups. \<exists>u. septets_of_chars g = Inr u \<and> length u \<le> maxSeptets" by auto
    with True Cons.prems show ?thesis
      by (intro exI [of _ "cur # groups"]) (simp add: Let_def del: split_paired_Ex)
  next
    case False
    have "septets_of_chars (cur @ [ch]) = Inr (t @ v)" using septets_append [OF Cons.prems(2) v(1)] .
    with Cons.IH [OF u this] v(2) Cons.prems(3) False obtain groups where
      "split_loop maxSeptets chs (concat (cur @ [ch])) (count + ?cost) = map concat groups"
      "concat groups = (cur @ [ch]) @ chs"
      "\<forall>g \<in> set groups. \<exists>u. septets_of_chars g = Inr u \<and> length u \<le> maxSeptets" by auto
    with False show ?thesis by (intro exI [of _ groups]) (simp add: Let_def)
  qed
qed

lemma concat_map_concat: "concat (map concat gs) = concat (concat gs)"
  by (induction gs) simp_all

section \<open>Round trip\<close>

lemma packSeptets_upper:
  assumes "list_all (\<lambda>s. s < 128) ss" and "fill < 8"
  shows "js_toUpper (packSeptets ss fill) = packSeptets ss fill"
  using pack_loop_value [of 0 fill ss] assms by (simp add: packSeptets_def)

lemma decode_single_gsm7:
  assumes "phone_number to" and "encodeGsm7Septets s = Inr ss" and "length ss \<le> 160"
  shows "decodePduSubmit (pdu (buildSinglePdu to ss)) =
    Some (Inr \<lparr>recipient = to, sb_text = s, sb_encoding = Gsm7Text, sb_concat = None\<rparr>)"
proof -
  have ss: "text_of_septets False ss = s" "list_all (\<lambda>s. s < 128) ss"
    using septets_of_chars_text [of "js_chars s" ss] assms(2) by (simp_all add: encodeGsm7Septets_def)
  have udl: "length ss < 256" using assms(3) by simp
  have up: "js_toUpper (packSeptets ss 0) = packSeptets ss 0" using packSeptets_upper [OF ss(2)] by simp
  from decodePduSubmit_fields [OF assms(1) _ _ udl up, of 1 0] obtain r where
    h: "holds r (packSeptets ss 0)" and d: "decodePduSubmit (pdu (buildSinglePdu to ss)) =
      dbind (decodeUserData r (Num (int (length ss))) Gsm7Text False)
        (\<lambda>(text, concat). Some (Inr \<lparr>recipient = to, sb_text = text, sb_encoding = Gsm7Text, sb_concat = concat\<rparr>))"
    by (auto simp: buildSinglePdu_def)
  from decode_pack [OF ss(2), of 0] d remaining_holds [OF h] ss(1) show ?thesis
    by (simp add: decodeUserData_def)
qed

lemma decode_segment_gsm7:
  assumes "phone_number to" and "encodeGsm7Septets s = Inr ss" and "length ss \<le> 153"
    and "ref < 256" "tot < 256" "part < 256"
  shows "decodePduSubmit (pdu (build_segment to ref tot part ss)) =
    Some (Inr \<lparr>recipient = to, sb_text = s, sb_encoding = Gsm7Text, sb_concat =
      Some \<lparr>reference = Num (int ref), totalParts = Num (int tot), partNumber = Num (int part)\<rparr>\<rparr>)"
proof -
  have ss: "text_of_septets False ss = s" "list_all (\<lambda>s. s < 128) ss"
    using septets_of_chars_text [of "js_chars s" ss] assms(2) by (simp_all add: encodeGsm7Septets_def)
  have udl: "7 + length ss < 256" using assms(3) by simp
  have "js_toUpper (concat_udh ref tot part @ packSeptets ss 1) = concat_udh ref tot part @ packSeptets ss 1"
    using packSeptets_upper [OF ss(2)] by simp
  from decodePduSubmit_fields [OF assms(1) _ _ udl this, of 65 0] obtain r where
    h: "holds r (concat_udh ref tot part @ packSeptets ss 1)" and
    d: "decodePduSubmit (pdu (build_segment to ref tot part ss)) =
      dbind (decodeUserData r (Num (int (7 + length ss))) Gsm7Text True)
        (\<lambda>(text, concat). Some (Inr \<lparr>recipient = to, sb_text = text, sb_encoding = Gsm7Text, sb_concat = concat\<rparr>))"
    by (auto simp: build_segment_def)
  from decodeUserData_concat [OF h assms(4-6), of "int (7 + length ss)" Gsm7Text] decode_pack [OF ss(2), of 1] ss(1) d
  show ?thesis by (auto simp: Let_def)
qed

lemma build_segments_map:
  "\<forall>g \<in> set segs. \<exists>ss. encodeGsm7Septets g = Inr ss \<Longrightarrow>
    build_segments to ref tot i segs = Inr (map (\<lambda>(k, seg). build_segment to ref tot (k + 1) (projr (encodeGsm7Septets seg)))
      (enumerate i segs))"
  by (induction segs arbitrary: i) auto

lemma gsm7_encoded:
  assumes "phone_number to" and "counter < 256"
    and "encodeGsm7SubmitPdus counter to s = (Inr pdus, counter')"
  shows "\<exists>segs. concat segs = s \<and> counter' < 256
    \<and> segs \<noteq> [] \<and> length segs < 256 \<and> (gsm7SeptetLength s \<le> 160 \<longrightarrow> segs = [s])
    \<and> map (decodePduSubmit \<circ> pdu) pdus =
        map (Some \<circ> Inr) (expected_parts to Gsm7Text counter (gsm7SeptetLength s \<le> 160) segs)"
proof -
  from assms(3) obtain ss where ss: "encodeGsm7Septets s = Inr ss"
    by (auto simp: encodeGsm7SubmitPdus_def split: sum.splits)
  have n: "gsm7SeptetLength s = length ss"
    using septets_length [of "js_chars s" ss 0] ss by (simp add: gsm7SeptetLength_def encodeGsm7Septets_def)
  show ?thesis
  proof (cases "length ss \<le> 160")
    case True
    with assms(3) ss have "pdus = [buildSinglePdu to ss]" "counter' = counter"
      by (simp_all add: encodeGsm7SubmitPdus_def)
    with decode_single_gsm7 [OF assms(1) ss True] assms(2) True n show ?thesis
      by (intro exI [of _ "[s]"]) (simp add: expected_parts_def)
  next
    case False
    have "septets_of_chars (js_chars s) = Inr ss" using ss by (simp add: encodeGsm7Septets_def)
    from split_loop_groups [of 153, OF _ this, of "[]" "[]" 0] obtain groups where
      g: "splitBySeptetBudget 153 s = map concat groups" "concat groups = js_chars s"
      "\<forall>g \<in> set groups. \<exists>u. septets_of_chars g = Inr u \<and> length u \<le> 153"
      by (auto simp: splitBySeptetBudget_def)
    let ?segs = "map concat groups"
    have enc: "\<exists>u. encodeGsm7Septets seg = Inr u \<and> length u \<le> 153" if "seg \<in> set ?segs" for seg
      using that g(3) encode_group by fastforce
    have all: "concat ?segs = s"
      using arg_cong [OF g(2), of concat] by (simp add: concat_map_concat)
    from assms(3) ss False g(1) have len: "length ?segs \<le> 255" and c: "counter' = (counter + 1) mod 256"
      and "Inr pdus = build_segments to counter (length ?segs) 0 ?segs"
      by (auto simp: encodeGsm7SubmitPdus_def buildConcatenatedPdus_def MAX_CONCAT_PARTS_def nextConcatRef_def Let_def
          split: if_splits)
    with build_segments_map [of ?segs to counter "length ?segs" 0] enc have
      pdus: "pdus = map (\<lambda>(k, seg). build_segment to counter (length ?segs) (k + 1) (projr (encodeGsm7Septets seg)))
        (enumerate 0 ?segs)" by fastforce
    have one: "decodePduSubmit (pdu (build_segment to counter (length ?segs) (i + 1) (projr (encodeGsm7Septets seg)))) =
        Some (Inr \<lparr>recipient = to, sb_text = seg, sb_encoding = Gsm7Text, sb_concat =
          Some \<lparr>reference = Num (int counter), totalParts = Num (int (length ?segs)), partNumber = Num (int (i + 1))\<rparr>\<rparr>)"
      if "(i, seg) \<in> set (enumerate 0 ?segs)" for i seg
    proof -
      from that have i: "i < length ?segs" "seg \<in> set ?segs" by (auto simp: in_set_enumerate_eq)
      with len have "length ?segs < 256" "i + 1 < 256" by simp_all
      moreover from enc [OF i(2)] obtain u where "encodeGsm7Septets seg = Inr u" "length u \<le> 153" by blast
      ultimately show ?thesis
        using decode_segment_gsm7 [OF assms(1) _ _ assms(2), of seg u] by simp
    qed
    have "map (decodePduSubmit \<circ> pdu) pdus = map (Some \<circ> Inr) (expected_parts to Gsm7Text counter False ?segs)"
      using one by (auto simp: pdus expected_parts_def simp del: length_map)
    moreover have "?segs \<noteq> []"
    proof
      assume "?segs = []"
      with g(2) have "js_chars s = []" by simp
      with ss False show False by (simp add: encodeGsm7Septets_def)
    qed
    ultimately show ?thesis using all False n c len by (intro exI [of _ ?segs]) simp
  qed
qed

text \<open>C23: every text of the GSM 7-bit alphabet that fits 255 segments is received as it was sent: the decoder
  gives back from the PDUs the number, segments whose concatenation is the text, and their common
  reference, number and positions when there are several.\<close>
theorem gsm7_round_trip:
  assumes "phone_number to" and "counter < 256"
    and "encodeGsm7SubmitPdus counter to s = (Inr pdus, counter')"
  shows "\<exists>segs. concat segs = s \<and> counter' < 256
    \<and> map (decodePduSubmit \<circ> pdu) pdus =
        map (Some \<circ> Inr) (expected_parts to Gsm7Text counter (gsm7SeptetLength s \<le> 160) segs)"
  using gsm7_encoded [OF assms] by blast

lemma gsm7_round_trip_witness:
  "\<exists>segs. concat segs = js ''Hi {1}'' \<and> (9 :: nat) < 256 \<and>
    map (decodePduSubmit \<circ> pdu) [buildSinglePdu (js ''112'') (projr (encodeGsm7Septets (js ''Hi {1}'')))] =
      map (Some \<circ> Inr) (expected_parts (js ''112'') Gsm7Text 9 True segs)"
proof -
  have chars: "js_chars (js ''Hi {1}'') = map (\<lambda>c. [of_char c]) ''Hi {1}''"
    by (simp add: js_def is_high_def)
  have "list_all (\<lambda>ch. ch \<in> set GSM7_BASIC \<or> ch \<in> set GSM7_EXTENSION_CHARS) (js_chars (js ''Hi {1}''))"
    unfolding chars by (simp add: GSM7_BASIC_def GSM7_EXTENSION_CHARS_def)
  then obtain ss where ss: "septets_of_chars (js_chars (js ''Hi {1}'')) = Inr ss"
    using septets_of_chars_iff by blast
  have "gsm7SeptetLength (js ''Hi {1}'') = 8"
    unfolding gsm7SeptetLength_def chars by (simp add: GSM7_EXTENSION_CHARS_def)
  with septets_length [OF ss, of 0] have "length ss = 8" by (simp add: gsm7SeptetLength_def)
  with ss have enc: "encodeGsm7SubmitPdus 9 (js ''112'') (js ''Hi {1}'') =
      (Inr [buildSinglePdu (js ''112'') (projr (encodeGsm7Septets (js ''Hi {1}'')))], 9)"
    by (simp add: encodeGsm7SubmitPdus_def encodeGsm7Septets_def)
  have "phone_number (js ''112'')" by (simp add: phone_number_def digits_of_def js_def js_startsWith_def)
  from gsm7_round_trip [OF this _ enc] \<open>gsm7SeptetLength (js ''Hi {1}'') = 8\<close> show ?thesis by simp
qed

end
