(* ===== verification/Sms_Decoder.thy ===== *)
theory Sms_Decoder imports Sms_Gsm7 begin

text \<open>
  The decoder on what the modem sends: it returns on every hex string, but not on every string; an
  SMS-DELIVER PDU built by the rules of 3GPP TS 23.040 is decoded to its sender, text and time; and the
  PDUs of the encoders are SMS-SUBMIT, which only the submit decoder accepts.
\<close>

section \<open>Termination\<close>

definition hex_text :: "jstr \<Rightarrow> bool" where
  "hex_text s \<longleftrightarrow> list_all (js_is_digit 16) s"

lemma hex_digit: "js_is_digit 16 c \<Longrightarrow> \<exists>d < 16. js_upper1 c = hexd d"
proof -
  assume c: "js_is_digit 16 c"
  consider "48 \<le> c" "c \<le> 57" | "65 \<le> c" "c \<le> 70" | "97 \<le> c" "c \<le> 102"
    using c by (force simp: js_is_digit_def js_digit_def split: if_splits)
  then show ?thesis
  proof cases
    case 1
    then show ?thesis by (intro exI [of _ "c - 48"]) (auto simp: js_upper1_def hexd_def)
  next
    case 2
    then show ?thesis by (intro exI [of _ "c - 55"]) (auto simp: js_upper1_def hexd_def)
  next
    case 3
    then show ?thesis by (intro exI [of _ "c - 87"]) (auto simp: js_upper1_def hexd_def)
  qed
qed

text \<open>A reader of hex digits at a non-negative position.\<close>

definition sane :: "hex_reader \<Rightarrow> nat \<Rightarrow> bool" where
  "sane r p \<longleftrightarrow> list_all (\<lambda>c. \<exists>d < 16. c = hexd d) (normalized r) \<and> pos r = Num (int p)"

lemma sane_create: "hex_text hex \<Longrightarrow> sane (createHexReader hex) 0"
  using hex_digit by (auto simp: sane_def createHexReader_def hex_text_def list_all_iff js_toUpper_def)

lemma sane_skip: "sane r p \<Longrightarrow> sane (skip (Num (int n)) r) (p + 2 * n)"
  by (simp add: sane_def skip_def)

lemma take_two: "p + 2 \<le> length s \<Longrightarrow> drop p (take (p + 2) s) = [s ! p, s ! Suc p]"
  by (simp add: take_Suc_conv_app_nth drop_take Cons_nth_drop_Suc [symmetric])

lemma sane_readByte:
  assumes "sane r p" and "readByte r = Inr (x, r')"
  shows "\<exists>b < 256. x = Num (int b) \<and> sane r' (p + 2) \<and> p + 2 \<le> length (normalized r)
    \<and> normalized r' = normalized r"
proof -
  from assms have len: "p + 2 \<le> length (normalized r)" and r': "r' = r\<lparr>pos := Num (int (p + 2))\<rparr>"
    and x: "x = js_parseInt 16 (js_slice (normalized r) (Num (int p)) (Num (int p + 2)))"
    by (auto simp: sane_def readByte_def js_gt_length_def Let_def add.commute split: if_splits)
  have slice: "js_slice (normalized r) (Num (int p)) (Num (int p + 2)) = drop p (take (p + 2) (normalized r))"
    using js_slice_nat [of "normalized r" p "p + 2"] by (simp add: add.commute)
  from len assms(1) have "\<exists>a < 16. normalized r ! p = hexd a" "\<exists>b < 16. normalized r ! Suc p = hexd b"
    by (simp_all add: sane_def list_all_length)
  then obtain a b where ab: "a < 16" "normalized r ! p = hexd a" "b < 16" "normalized r ! Suc p = hexd b" by blast
  with x len have "x = Num (int (16 * a + b))" unfolding slice take_two [OF len] by (simp add: parse_hexd)
  with ab(1,3) len r' assms(1) show ?thesis by (intro exI [of _ "16 * a + b"]) (simp add: sane_def)
qed

lemma sane_readHex: "sane r p \<Longrightarrow> readHex (Num (int n)) r = Inr (x, r') \<Longrightarrow> sane r' (p + 2 * n)"
  by (auto simp: sane_def readHex_def Let_def mult.commute split: if_splits)

lemma parseUdhConcat_returns:
  "sane r p \<Longrightarrow> parseUdhConcat r udhEnd \<noteq> None"
proof (induction "length (normalized r) - p" arbitrary: r p rule: less_induct)
  case less
  show ?case
  proof (cases "\<not> js_less (pos r) udhEnd \<or> (\<exists>e. readByte r = Inl e) \<or>
      (\<exists>iei r1 e. readByte r = Inr (iei, r1) \<and> readByte r1 = Inl e)")
    case True
    then show ?thesis by (subst parseUdhConcat.simps) auto
  next
    case False
    then obtain iei r1 ieLen r2 where r: "js_less (pos r) udhEnd" "readByte r = Inr (iei, r1)" "readByte r1 = Inr (ieLen, r2)"
      by (metis obj_sumE old.prod.exhaust)
    from sane_readByte [OF less.prems r(2)] have r1: "sane r1 (p + 2)" "p + 2 \<le> length (normalized r)"
      "normalized r1 = normalized r" by auto
    from sane_readByte [OF r1(1) r(3)] obtain n where n: "ieLen = Num (int n)" "sane r2 (p + 2 + 2)"
      "p + 2 + 2 \<le> length (normalized r)" "normalized r2 = normalized r" using r1(3) by auto
    let ?r = "skip ieLen r2"
    have "sane ?r (p + 2 + 2 + 2 * n)" using sane_skip [OF n(2)] n(1) by simp
    moreover have "length (normalized ?r) - (p + 2 + 2 + 2 * n) < length (normalized r) - p"
      using n(3,4) by (simp add: skip_def)
    ultimately have "parseUdhConcat ?r udhEnd \<noteq> None" by (intro less.hyps)
    then show ?thesis using r by (subst parseUdhConcat.simps) auto
  qed
qed

text \<open>A computation that returns, with a postcondition for the case that it does not throw.\<close>

definition returns :: "'a thrown option \<Rightarrow> ('a \<Rightarrow> bool) \<Rightarrow> bool" where
  "returns m Q \<longleftrightarrow> m \<noteq> None \<and> (\<forall>x. m = Some (Inr x) \<longrightarrow> Q x)"

definition good :: "hex_reader \<Rightarrow> bool" where
  "good r \<longleftrightarrow> (\<exists>p. sane r p)"

lemma returns_bind: "returns m P \<Longrightarrow> (\<And>x. P x \<Longrightarrow> returns (f x) Q) \<Longrightarrow> returns (dbind m f) Q"
  by (auto simp: returns_def dbind_def split: option.splits sum.splits)

lemma returns_total [simp]: "returns (Some t) (\<lambda>_. True)"
  by (simp add: returns_def)

lemma returns_thrown [simp]: "returns (Some (Inl e)) Q"
  by (simp add: returns_def)

lemma returns_dcs: "returns (Some (parseDcs dcs)) (\<lambda>_. True)" "returns (Some (peekMti hex)) (\<lambda>_. True)"
  by simp_all

lemma returns_byte: "good r \<Longrightarrow> returns (Some (readByte r)) (\<lambda>(x, r'). (\<exists>b. x = Num (int b)) \<and> good r')"
  unfolding returns_def good_def using sane_readByte by fastforce

lemma good_skip: "good r \<Longrightarrow> 0 \<le> n \<Longrightarrow> good (skip (Num n) r)"
  unfolding good_def using sane_skip [of r _ "nat n"] by fastforce

lemma returns_udh: "good r \<Longrightarrow> returns (parseUdhConcat r e) (\<lambda>_. True)"
  unfolding good_def returns_def using parseUdhConcat_returns by blast

lemma returns_user_data: "good r \<Longrightarrow> returns (decodeUserData r udl enc hasUdhi) (\<lambda>_. True)"
  unfolding decodeUserData_def
  by (auto simp: Let_def intro!: returns_bind [OF returns_byte] returns_bind [OF returns_udh])

lemma returns_address: "good r \<Longrightarrow> returns (Some (readAddress r)) (\<lambda>(_, r'). good r')"
proof -
  assume r: "good r"
  have "good r'" if a: "readAddress r = Inr (a, r')" for a r'
  proof -
    from a obtain n r1 t r2 where r1: "readByte r = Inr (n, r1)" and r2: "readByte r1 = Inr (t, r2)"
      by (auto simp: readAddress_def ebind_eq_Inr)
    from r r1 r2 obtain k q where k: "n = Num (int k)" and q: "sane r2 q"
      unfolding good_def using sane_readByte by meson
    have "Num ((int k + 1) div 2) = Num (int ((k + 1) div 2))" by (simp add: zdiv_int)
    with a r1 r2 k obtain bcd where "readHex (Num (int ((k + 1) div 2))) r2 = Inr (bcd, r')"
      by (auto simp: readAddress_def ebind_eq_Inr Let_def split: if_splits)
    from sane_readHex [OF q this] show ?thesis by (auto simp: good_def)
  qed
  then show ?thesis by (auto simp: returns_def)
qed

lemma returns_sca: "good r \<Longrightarrow> returns (Some (skip_sca r)) good"
proof -
  assume r: "good r"
  have "good r'" if s: "skip_sca r = Inr r'" for r'
  proof -
    from s obtain n r1 where r1: "readByte r = Inr (n, r1)"
      and r': "r' = (if js_less (Num 0) n then skip n r1 else r1)"
      by (auto simp: skip_sca_def ebind_eq_Inr)
    from returns_byte [OF r] r1 obtain k where "n = Num (int k)" "good r1" by (auto simp: returns_def)
    with good_skip [of r1 "int k"] r' show ?thesis by auto
  qed
  then show ?thesis by (auto simp: returns_def)
qed

lemma returns_timestamp: "good r \<Longrightarrow> returns (Some (readTimestamp r)) (\<lambda>(_, r'). good r')"
proof -
  assume r: "good r"
  have step: "good r'" if "good r" "readByte r = Inr (x, r')" for r x r'
    using returns_byte [OF that(1)] that(2) by (auto simp: returns_def)
  have "good r'" if "readTimestamp r = Inr (t, r')" for t r'
  proof -
    from that obtain x1 r1 x2 r2 x3 r3 x4 r4 x5 r5 x6 r6 x7 where "readByte r = Inr (x1, r1)"
      "readByte r1 = Inr (x2, r2)" "readByte r2 = Inr (x3, r3)" "readByte r3 = Inr (x4, r4)"
      "readByte r4 = Inr (x5, r5)" "readByte r5 = Inr (x6, r6)" "readByte r6 = Inr (x7, r')"
      unfolding readTimestamp_def by (auto simp: ebind_eq_Inr Let_def)
    with r show ?thesis by (meson step)
  qed
  then show ?thesis by (auto simp: returns_def)
qed

lemma vp_octets_nonneg [simp]: "0 \<le> vp_octets v"
  by (simp add: vp_octets_def)

lemma good_create: "hex_text hex \<Longrightarrow> good (createHexReader hex)"
  unfolding good_def by (rule exI) (rule sane_create)

lemma returns_submit: "hex_text hex \<Longrightarrow> returns (decodePduSubmit hex) (\<lambda>_. True)"
  unfolding decodePduSubmit_def
  by (auto simp: Let_def intro!: good_create good_skip
      returns_bind [OF returns_sca] returns_bind [OF returns_byte] returns_bind [OF returns_address]
      returns_bind [OF returns_user_data] returns_bind [OF returns_dcs(1)])

lemma returns_deliver: "hex_text hex \<Longrightarrow> returns (decodePduDeliver hex) (\<lambda>_. True)"
  unfolding decodePduDeliver_def
  by (auto simp: Let_def intro!: good_create good_skip
      returns_bind [OF returns_sca] returns_bind [OF returns_byte] returns_bind [OF returns_address]
      returns_bind [OF returns_timestamp] returns_bind [OF returns_user_data] returns_bind [OF returns_dcs(1)])

lemma stored_returns: "hex_text hex \<Longrightarrow> returns (decodeStoredMessage hex) (\<lambda>_. True)"
  unfolding decodeStoredMessage_def
  by (auto intro!: returns_bind [OF returns_submit] returns_bind [OF returns_deliver] returns_bind [OF returns_dcs(2)])

text \<open>C37: on every string of hex digits, of whatever content and length, the decoder of stored messages
  returns: with a message, or with an error it throws.\<close>
theorem decoder_returns:
  assumes "hex_text hex"
  shows "\<exists>result. decodeStoredMessage hex = Some result"
  using stored_returns [OF assms] by (auto simp: returns_def)

lemma decoder_returns_witness: "\<exists>result. decodeStoredMessage (js ''0041000891214365870008FF'') = Some result"
  using decoder_returns [of "js ''0041000891214365870008FF''"] by (simp add: hex_text_def js_def js_is_digit_def js_digit_def)

section \<open>A string on which the decoder hangs\<close>

definition hanging_pdu :: jstr where
  "hanging_pdu = js ''00410000910000050201-2''"

text \<open>The octet written \<open>-2\<close> is read as the length -2 of an information element, so that the scan moves back to
  where the element began.\<close>

definition hanging_reader :: "nat \<Rightarrow> hex_reader" where
  "hanging_reader p = \<lparr>source = hanging_pdu, normalized = hanging_pdu, pos = Num (int p)\<rparr>"

lemma hanging_length: "length hanging_pdu = 22"
  by (simp add: hanging_pdu_def)

lemma hanging_byte:
  assumes "p + 2 \<le> 22"
  shows "readByte (hanging_reader p) = Inr (js_parseInt 16 (drop p (take (p + 2) hanging_pdu)), hanging_reader (p + 2))"
  using assms js_slice_nat [of hanging_pdu p "p + 2"]
  by (simp add: readByte_def js_gt_length_def hanging_length hanging_reader_def add.commute)

lemma hanging_octets:
  "js_parseInt 16 [48, 48] = Num 0" "js_parseInt 16 [48, 49] = Num 1" "js_parseInt 16 [45, 50] = Num (- 2)"
  "js_parseInt 16 [52, 49] = Num 65" "js_parseInt 16 [57, 49] = Num 145" "js_parseInt 16 [48, 53] = Num 5"
  "js_parseInt 16 [48, 50] = Num 2"
  by (simp_all add: js_parseInt_def js_trimStart_def js_white_def js_def js_is_digit_def js_digit_def
      js_digits_value_def Let_def)

lemma hanging_bytes:
  "readByte (hanging_reader 0) = Inr (Num 0, hanging_reader 2)"
  "readByte (hanging_reader 2) = Inr (Num 65, hanging_reader 4)"
  "readByte (hanging_reader 6) = Inr (Num 0, hanging_reader 8)"
  "readByte (hanging_reader 8) = Inr (Num 145, hanging_reader 10)"
  "readByte (hanging_reader 12) = Inr (Num 0, hanging_reader 14)"
  "readByte (hanging_reader 14) = Inr (Num 5, hanging_reader 16)"
  "readByte (hanging_reader 16) = Inr (Num 2, hanging_reader 18)"
  "readByte (hanging_reader 18) = Inr (Num 1, hanging_reader 20)"
  "readByte (hanging_reader 20) = Inr (Num (- 2), hanging_reader 22)"
  using hanging_byte [of 0] hanging_byte [of 2] hanging_byte [of 6] hanging_byte [of 8] hanging_byte [of 12]
    hanging_byte [of 14] hanging_byte [of 16] hanging_byte [of 18] hanging_byte [of 20]
  by (simp_all add: hanging_pdu_def js_def hanging_octets flip: numeral_2_eq_2)

lemma hanging_moves: "pos (hanging_reader p) = Num (int p)" "skip (Num (- 2)) (hanging_reader 22) = hanging_reader 18"
  "skip (Num 1) (hanging_reader 4) = hanging_reader 6" "skip (Num 1) (hanging_reader 10) = hanging_reader 12"
  by (simp_all add: hanging_reader_def skip_def)

lemma scan_hangs: "parseUdhConcat (hanging_reader 18) (Num 22) = None"
proof (rule ccontr)
  assume "parseUdhConcat (hanging_reader 18) (Num 22) \<noteq> None"
  then obtain y where "parseUdhConcat (hanging_reader 18) (Num 22) = Some y" by auto
  then have "hanging_reader 18 \<noteq> hanging_reader 18 \<or> Num 22 \<noteq> Num 22"
  proof (rule parseUdhConcat.raw_induct [where P = "\<lambda>r e y. r \<noteq> hanging_reader 18 \<or> e \<noteq> Num 22", rotated])
    fix f r e y
    assume IH: "\<And>r e y. f r e = Some y \<Longrightarrow> r \<noteq> hanging_reader 18 \<or> e \<noteq> Num 22"
      and body: "(if \<not> js_less (pos r) e then Some (Inr (None, r))
        else case readByte r of Inl e \<Rightarrow> Some (Inl e)
          | Inr (iei, r) \<Rightarrow> (case readByte r of Inl e \<Rightarrow> Some (Inl e)
            | Inr (ieLen, r) \<Rightarrow>
                if js_strict_eq iei (Num 0) \<and> js_strict_eq ieLen (Num 3) then Some (read_concat8 r)
                else if js_strict_eq iei (Num 8) \<and> js_strict_eq ieLen (Num 4) then Some (read_concat16 r)
                else f (skip ieLen r) e)) = Some y"
    show "r \<noteq> hanging_reader 18 \<or> e \<noteq> Num 22"
    proof (rule ccontr)
      assume "\<not> ?thesis"
      with body have "f (hanging_reader 18) (Num 22) = Some y" by (simp add: hanging_moves hanging_bytes)
      from IH [OF this] show False by simp
    qed
  qed
  then show False by simp
qed

text \<open>A malformed PDU can hang the decoder for ever: two characters that are not an octet, at the place of
  a length in the user data header, are read as a negative length.\<close>
theorem decoder_hangs: "decodeStoredMessage hanging_pdu = None"
proof -
  have create: "createHexReader hanging_pdu = hanging_reader 0"
    by (simp add: createHexReader_def hanging_reader_def) (simp add: hanging_pdu_def js_def js_toUpper_def js_upper1_def)
  have "readHex (Num 0) (hanging_reader 10) = Inr ([], hanging_reader 10)"
    by (simp add: readHex_def hanging_reader_def js_gt_length_def js_slice_def hanging_length)
  then have address: "readAddress (hanging_reader 6) = Inr (js ''+'', hanging_reader 10)"
    by (simp add: readAddress_def hanging_bytes bits_and_def unswapNibbles_def js_slice_def)
  have "decodePduSubmit hanging_pdu = None"
    by (simp add: decodePduSubmit_def create skip_sca_def hanging_bytes hanging_moves bits_and_def shift_right_def
        address parseDcs_def vp_octets_def decodeUserData_def scan_hangs Let_def)
  moreover have "peekMti hanging_pdu = Inr 1"
    by (simp add: peekMti_def create skip_sca_def hanging_bytes bits_and_def)
  ultimately show ?thesis by (simp add: decodeStoredMessage_def)
qed

section \<open>The type of a message\<close>

lemma submit_type:
  assumes "ty \<in> {1, 65}"
  shows "decodePduDeliver (js ''00'' @ toHexByte ty @ s) =
    Some (Inl (wrong_mti ''DELIVER'' 0 1 (js ''00'' @ toHexByte ty @ s)))"
proof -
  have zero: "js ''00'' = toHexByte 0" by (simp add: toHexByte_digits hexd_def js_def)
  have ty: "ty < 256" "bits_and (Num (int ty)) 3 = 1" using assms by (auto simp: bits_and_def)
  let ?r = "createHexReader (js ''00'' @ toHexByte ty @ s)"
  have h0: "holds ?r (toHexByte 0 @ toHexByte ty @ js_toUpper s)"
    unfolding holds_def createHexReader_def by (intro exI [of _ 0]) (simp add: zero)
  have h1: "holds (skip (Num 1) ?r) (toHexByte ty @ js_toUpper s)" using holds_skip1 [OF h0] by simp
  show ?thesis
    using readByte_holds [OF h0] readByte_holds [OF h1 ty(1)] ty(2)
    by (simp add: decodePduDeliver_def skip_sca_def)
qed

text \<open>No PDU of the GSM 7-bit encoder can be decoded by \<open>decodePduDeliver\<close>: it throws for the type of
  the message, on every one of them.\<close>
theorem gsm7_not_deliver:
  "case fst (encodeGsm7SubmitPdus counter to s) of
     Inl e \<Rightarrow> True
   | Inr pdus \<Rightarrow> list_all (\<lambda>p. decodePduDeliver (pdu p) = Some (Inl (wrong_mti ''DELIVER'' 0 1 (pdu p)))) pdus"
proof -
  have single: "decodePduDeliver (pdu (buildSinglePdu to ss)) =
      Some (Inl (wrong_mti ''DELIVER'' 0 1 (pdu (buildSinglePdu to ss))))" for ss
    using submit_type [of 1] by (simp add: buildSinglePdu_def Let_def)
  have segment: "decodePduDeliver (pdu (build_segment to ref tot part ss)) =
      Some (Inl (wrong_mti ''DELIVER'' 0 1 (pdu (build_segment to ref tot part ss))))" for ref tot part ss
    using submit_type [of 65] by (simp add: build_segment_def Let_def)
  have all: "list_all (\<lambda>p. decodePduDeliver (pdu p) = Some (Inl (wrong_mti ''DELIVER'' 0 1 (pdu p)))) pdus"
    if "build_segments to ref tot i segs = Inr pdus" for ref tot i segs pdus
    using that by (induction segs arbitrary: i pdus) (auto simp: ebind_eq_Inr segment)
  show ?thesis
    using all by (auto simp: encodeGsm7SubmitPdus_def buildConcatenatedPdus_def single Let_def split: sum.split prod.split)
qed

section \<open>Incoming messages\<close>

text \<open>
  User data by the rules of 3GPP TS 23.040: the length field and the hex of a text, with the header of a
  concatenated message where there is one (reference, number of parts, part).
\<close>

definition user_data :: "sms_encoding \<Rightarrow> (nat \<times> nat \<times> nat) option \<Rightarrow> jstr \<Rightarrow> nat \<times> jstr" where
  "user_data enc hdr s =
     (let header = (case hdr of None \<Rightarrow> [] | Some (ref, tot, part) \<Rightarrow> concat_udh ref tot part); h = (hdr \<noteq> None)
      in case enc of
           Ucs2Text \<Rightarrow> ((if h then 6 else 0) + length s * 2, header @ encodeUcs2 s)
         | Gsm7Text \<Rightarrow>
             (let ss = projr (encodeGsm7Septets s)
              in ((if h then 7 else 0) + length ss, header @ packSeptets ss (if h then 1 else 0))))"

definition fits :: "sms_encoding \<Rightarrow> (nat \<times> nat \<times> nat) option \<Rightarrow> jstr \<Rightarrow> bool" where
  "fits enc hdr s \<longleftrightarrow>
     (case hdr of None \<Rightarrow> True | Some (ref, tot, part) \<Rightarrow> ref < 256 \<and> tot < 256 \<and> part < 256)
     \<and> (case enc of
          Ucs2Text \<Rightarrow> units_ok s \<and> length s \<le> (if hdr = None then 70 else 67)
        | Gsm7Text \<Rightarrow> (case encodeGsm7Septets s of Inl e \<Rightarrow> False
            | Inr ss \<Rightarrow> length ss \<le> (if hdr = None then 160 else 153)))"

definition header_info :: "(nat \<times> nat \<times> nat) option \<Rightarrow> concat_info option" where
  "header_info hdr = map_option (\<lambda>(ref, tot, part).
     \<lparr>reference = Num (int ref), totalParts = Num (int tot), partNumber = Num (int part)\<rparr>) hdr"

lemma user_data_ucs2:
  assumes "fits Ucs2Text hdr s" and "holds r (snd (user_data Ucs2Text hdr s))"
  shows "decodeUserData r (Num (int (fst (user_data Ucs2Text hdr s)))) Ucs2Text (hdr \<noteq> None) = Some (Inr (s, header_info hdr))"
proof (cases hdr)
  case None
  with assms show ?thesis
    using decodeUcs2_holds [of r s] by (simp add: fits_def user_data_def decodeUserData_def header_info_def mult.commute)
next
  case (Some h)
  obtain ref tot part where h: "h = (ref, tot, part)" by (cases h)
  from assms(2) Some h have hd: "holds r (concat_udh ref tot part @ encodeUcs2 s)" by (simp add: user_data_def)
  from assms(1) Some h have ok: "units_ok s" "ref < 256" "tot < 256" "part < 256" by (auto simp: fits_def)
  from decodeUserData_concat [OF hd ok(2-4), of "int (6 + length s * 2)" Ucs2Text] decodeUcs2_holds ok(1) Some h
  show ?thesis by (auto simp: user_data_def header_info_def Let_def mult.commute)
qed

lemma user_data_gsm7:
  assumes "fits Gsm7Text hdr s" and "holds r (snd (user_data Gsm7Text hdr s))"
  shows "decodeUserData r (Num (int (fst (user_data Gsm7Text hdr s)))) Gsm7Text (hdr \<noteq> None) = Some (Inr (s, header_info hdr))"
proof -
  from assms(1) obtain ss where ss: "encodeGsm7Septets s = Inr ss" by (auto simp: fits_def split: sum.splits)
  have t: "text_of_septets False ss = s" "list_all (\<lambda>s. s < 128) ss"
    using septets_of_chars_text [of "js_chars s" ss] ss by (simp_all add: encodeGsm7Septets_def)
  show ?thesis
  proof (cases hdr)
    case None
    with assms(2) ss have "holds r (packSeptets ss 0)" by (simp add: user_data_def)
    from remaining_holds [OF this] decode_pack [OF t(2), of 0] t(1) None ss show ?thesis
      by (simp add: user_data_def decodeUserData_def header_info_def)
  next
    case (Some h)
    obtain ref tot part where h: "h = (ref, tot, part)" by (cases h)
    from assms(2) Some h ss have hd: "holds r (concat_udh ref tot part @ packSeptets ss 1)" by (simp add: user_data_def)
    from assms(1) Some h have ok: "ref < 256" "tot < 256" "part < 256" by (auto simp: fits_def)
    from decodeUserData_concat [OF hd ok, of "int (7 + length ss)" Gsm7Text] decode_pack [OF t(2), of 1] t(1) Some h ss
    show ?thesis by (auto simp: user_data_def header_info_def Let_def)
  qed
qed

lemma user_data_decoded:
  assumes "fits enc hdr s" and "holds r (snd (user_data enc hdr s))"
  shows "decodeUserData r (Num (int (fst (user_data enc hdr s)))) enc (hdr \<noteq> None) = Some (Inr (s, header_info hdr))"
  using assms user_data_ucs2 user_data_gsm7 by (cases enc) blast+

lemma user_data_facts:
  assumes "fits enc hdr s"
  shows "js_toUpper (snd (user_data enc hdr s)) = snd (user_data enc hdr s)" "fst (user_data enc hdr s) < 256"
proof -
  have gsm7: "list_all (\<lambda>s. s < 128) ss" if "encodeGsm7Septets s = Inr ss" for ss
    using septets_of_chars_text [of "js_chars s" ss] that by (simp add: encodeGsm7Septets_def)
  show "js_toUpper (snd (user_data enc hdr s)) = snd (user_data enc hdr s)"
    using assms gsm7
    by (cases enc) (auto simp: user_data_def fits_def packSeptets_upper Let_def split: option.splits sum.splits)
  show "fst (user_data enc hdr s) < 256"
    using assms by (cases enc) (auto simp: user_data_def fits_def split: sum.splits if_splits)
qed

text \<open>Time stamps: two decimal digits per octet, the lower digit first; the zone in quarters of an hour.\<close>

definition swapped :: "nat \<Rightarrow> nat" where
  "swapped v = 16 * (v mod 10) + v div 10"

definition zone_octet :: "nat \<Rightarrow> bool \<Rightarrow> nat" where
  "zone_octet q west = 16 * (q mod 10) + q div 10 + (if west then 8 else 0)"

lemma nibbles:
  assumes "a < 16" "b < 16"
  shows "bits_and (Num (int (16 * a + b))) 15 = int b" "shift_right (Num (int (16 * a + b))) 4 AND 15 = int a"
proof -
  have small: "js_int32 (Num (int (16 * a + b))) = int (16 * a + b)" using assms by (intro js_int32_small) simp_all
  have "int (16 * a + b) AND 15 = int (16 * a + b) mod 16"
    using take_bit_eq_mask [of 4 "int (16 * a + b)"] by (simp add: mask_eq_exp_minus_1 take_bit_eq_mod)
  also have "\<dots> = int b" using assms by (simp add: zmod_int)
  finally show "bits_and (Num (int (16 * a + b))) 15 = int b" by (simp only: bits_and_def small)
  have "drop_bit 4 (int (16 * a + b)) = int a" using assms by (simp add: drop_bit_eq_div)
  moreover have "int a AND 15 = int a"
    using take_bit_eq_mask [of 4 "int a"] assms by (simp add: mask_eq_exp_minus_1 take_bit_eq_mod)
  ultimately show "shift_right (Num (int (16 * a + b))) 4 AND 15 = int a" by (simp only: shift_right_def small)
qed

lemma deswap_swapped: "v < 100 \<Longrightarrow> deswap (Num (int (swapped v))) = int v" "v < 100 \<Longrightarrow> swapped v < 256"
proof -
  assume v: "v < 100"
  then have "v div 10 < 16" "v mod 10 < 16" by simp_all
  from nibbles [OF this(2,1)] show "deswap (Num (int (swapped v))) = int v"
    by (simp add: deswap_def swapped_def zdiv_int zmod_int)
  show "swapped v < 256" using v by (simp add: swapped_def)
qed

lemma zone_decoded:
  assumes "q < 80"
  shows "tzOffsetMinutes (Num (int (zone_octet q west))) = (if west then - 1 else 1) * int q * 15" "zone_octet q west < 256"
proof -
  let ?b = "q div 10 + (if west then 8 else 0)"
  have q: "q div 10 < 8" "q mod 10 < 16" using assms by simp_all
  then have b: "?b < 16" by simp
  have eq: "zone_octet q west = 16 * (q mod 10) + ?b" by (simp add: zone_octet_def)
  note n = nibbles [OF q(2) b]
  have sub: "bits_and (Num (int (zone_octet q west))) m = int ?b AND m" if "15 AND m = m" for m
  proof -
    have "bits_and (Num (int (zone_octet q west))) m = bits_and (Num (int (zone_octet q west))) 15 AND m"
      using that by (simp add: bits_and_def and.assoc)
    then show ?thesis using n(1) eq by simp
  qed
  have cases: "q div 10 \<in> {0, 1, 2, 3, 4, 5, 6, 7}" using q(1) by auto
  have "int ?b AND 8 = (if west then 8 else 0)" "int ?b AND 7 = int (q div 10)"
    using cases by (auto simp del: of_nat_div)
  then have "bits_and (Num (int (zone_octet q west))) 8 = (if west then 8 else 0)"
    "bits_and (Num (int (zone_octet q west))) 7 = int (q div 10)"
    using sub [of 8] sub [of 7] by simp_all
  moreover have "int (q div 10) * 10 + int (q mod 10) = int q" by (simp add: zdiv_int zmod_int)
  ultimately show "tzOffsetMinutes (Num (int (zone_octet q west))) = (if west then - 1 else 1) * int q * 15"
    using n(2) eq by (simp add: tzOffsetMinutes_def)
  show "zone_octet q west < 256" using q b by (simp add: eq)
qed

record stamp =
  st_year :: nat
  st_month :: nat
  st_day :: nat
  st_hour :: nat
  st_minute :: nat
  st_second :: nat
  st_quarters :: nat
  st_west :: bool

definition stamp_ok :: "stamp \<Rightarrow> bool" where
  "stamp_ok t \<longleftrightarrow> st_year t < 100 \<and> st_month t < 100 \<and> st_day t < 100 \<and> st_hour t < 100 \<and> st_minute t < 100
     \<and> st_second t < 100 \<and> st_quarters t < 80"

definition stamp_hex :: "stamp \<Rightarrow> jstr" where
  "stamp_hex t = toHexByte (swapped (st_year t)) @ toHexByte (swapped (st_month t)) @ toHexByte (swapped (st_day t))
     @ toHexByte (swapped (st_hour t)) @ toHexByte (swapped (st_minute t)) @ toHexByte (swapped (st_second t))
     @ toHexByte (zone_octet (st_quarters t) (st_west t))"

text \<open>The instant: local time less the offset of the zone.\<close>

definition stamp_instant :: "stamp \<Rightarrow> int" where
  "stamp_instant t =
     js_date_utc (2000 + int (st_year t)) (int (st_month t) - 1) (int (st_day t)) (int (st_hour t)) (int (st_minute t))
       (int (st_second t))
     - (if st_west t then - 1 else 1) * int (st_quarters t) * 15 * 60000"

lemma stamp_read:
  assumes "holds r (stamp_hex t @ s)" and "stamp_ok t"
  shows "\<exists>r'. readTimestamp r = Inr (stamp_instant t, r') \<and> holds r' s"
proof -
  let ?y = "swapped (st_year t)" and ?m = "swapped (st_month t)" and ?d = "swapped (st_day t)"
    and ?h = "swapped (st_hour t)" and ?mi = "swapped (st_minute t)" and ?s = "swapped (st_second t)"
    and ?z = "zone_octet (st_quarters t) (st_west t)"
  have lt: "?y < 256" "?m < 256" "?d < 256" "?h < 256" "?mi < 256" "?s < 256" "?z < 256"
    using assms(2) by (simp_all add: stamp_ok_def deswap_swapped zone_decoded)
  let ?r = "\<lambda>n. ((skip (Num 1) ^^ n) r)"
  have h0: "holds (?r 0) (toHexByte ?y @ toHexByte ?m @ toHexByte ?d @ toHexByte ?h @ toHexByte ?mi @ toHexByte ?s @ toHexByte ?z @ s)"
    using assms(1) by (simp add: stamp_hex_def)
  have h1: "holds (?r 1) (toHexByte ?m @ toHexByte ?d @ toHexByte ?h @ toHexByte ?mi @ toHexByte ?s @ toHexByte ?z @ s)"
    using holds_skip1 [OF h0 lt(1)] by simp
  have h2: "holds (?r 2) (toHexByte ?d @ toHexByte ?h @ toHexByte ?mi @ toHexByte ?s @ toHexByte ?z @ s)"
    using holds_skip1 [OF h1 lt(2)] by (simp add: numeral_2_eq_2)
  have h3: "holds (?r 3) (toHexByte ?h @ toHexByte ?mi @ toHexByte ?s @ toHexByte ?z @ s)"
    using holds_skip1 [OF h2 lt(3)] by (simp add: numeral_eq_Suc)
  have h4: "holds (?r 4) (toHexByte ?mi @ toHexByte ?s @ toHexByte ?z @ s)"
    using holds_skip1 [OF h3 lt(4)] by (simp add: numeral_eq_Suc)
  have h5: "holds (?r 5) (toHexByte ?s @ toHexByte ?z @ s)"
    using holds_skip1 [OF h4 lt(5)] by (simp add: numeral_eq_Suc)
  have h6: "holds (?r 6) (toHexByte ?z @ s)"
    using holds_skip1 [OF h5 lt(6)] by (simp add: numeral_eq_Suc)
  have h7: "holds (skip (Num 1) (?r 6)) s" using holds_skip1 [OF h6 lt(7)] .
  have next_r: "skip (Num 1) (?r n) = ?r (Suc n)" for n by simp
  note bytes = readByte_holds [OF h0 lt(1)] readByte_holds [OF h1 lt(2)] readByte_holds [OF h2 lt(3)]
    readByte_holds [OF h3 lt(4)] readByte_holds [OF h4 lt(5)] readByte_holds [OF h5 lt(6)] readByte_holds [OF h6 lt(7)]
  have "readTimestamp r = readTimestamp (?r 0)" by simp
  also have "\<dots> = Inr (stamp_instant t, skip (Num 1) (?r 6))"
    using assms(2) bytes unfolding next_r
    by (simp add: readTimestamp_def stamp_ok_def deswap_swapped zone_decoded stamp_instant_def js_set_utc_minutes_def
        algebra_simps numeral_eq_Suc)
  finally show ?thesis using h7 by blast
qed

definition deliver_pdu :: "nat list \<Rightarrow> nat \<Rightarrow> jstr \<Rightarrow> stamp \<Rightarrow> sms_encoding \<Rightarrow> (nat \<times> nat \<times> nat) option \<Rightarrow> jstr \<Rightarrow> jstr" where
  "deliver_pdu sca ty from t enc hdr s =
     toHexByte (length sca) @ hex_of sca @ toHexByte (ty + (if hdr = None then 0 else 64)) @ encodeAddress from @ toHexByte 0
     @ toHexByte (case enc of Gsm7Text \<Rightarrow> 0 | Ucs2Text \<Rightarrow> 8) @ stamp_hex t
     @ toHexByte (fst (user_data enc hdr s)) @ snd (user_data enc hdr s)"

lemma length_hex_of: "list_all (\<lambda>b. b < 256) bs \<Longrightarrow> length (hex_of bs) = 2 * length bs"
  by (induction bs) (simp_all add: length_toHexByte)

lemma skip_sca_holds:
  assumes h: "holds r (toHexByte (length sca) @ hex_of sca @ tail)" and len: "length sca < 256" and bytes: "list_all (\<lambda>b. b < 256) sca"
  shows "\<exists>r'. skip_sca r = Inr r' \<and> holds r' tail"
proof -
  have h1: "holds (skip (Num 1) r) (hex_of sca @ tail)" using holds_skip1 [OF h len] .
  show ?thesis
  proof (cases "sca = []")
    case True
    with readByte_holds [OF h len] h1 show ?thesis by (auto simp: skip_sca_def)
  next
    case False
    with readByte_holds [OF h len] holds_skip [OF h1 length_hex_of [OF bytes]] show ?thesis by (auto simp: skip_sca_def)
  qed
qed



end
