(* ===== verification/Sms_Service.thy ===== *)
theory Sms_Service imports Script Sms_Decoder "HOL-Library.Multiset" begin

text \<open>
  \<^verbatim>\<open>packages/core/src/protocols/at/services/sms/index.ts\<close>: sending, listing, reading and counting messages,
  and the assembly of concatenated messages. Numbers printed by the device are taken as exact integers.
  A map of the language, which iterates in the order of insertion, is an association list.
\<close>

section \<open>Commands\<close>

datatype sms_status = Unread | Read | Unsent | Sent

record sms_message =
  sm_index :: jsnum
  sm_address :: jstr
  sm_incoming :: bool
  sm_text :: jstr
  sm_timestamp :: "int option"
  sm_status :: sms_status

record decoded_segment =
  sg_index :: jsnum
  sg_status :: sms_status
  sg_message :: stored_message

definition PDU_LIST_STATUS :: "jstr \<Rightarrow> int option" where
  "PDU_LIST_STATUS s = map_of [(js ''unread'', 0), (js ''read'', 1), (js ''unsent'', 2), (js ''sent'', 3), (js ''all'', 4)] s"

definition PDU_STATUS_MAP :: "jsnum \<Rightarrow> sms_status option" where
  "PDU_STATUS_MAP n = map_of [(Num 0, Unread), (Num 1, Read), (Num 2, Unsent), (Num 3, Sent)] n"

definition CMGL_PDU_REGEX :: "jstr \<Rightarrow> jstr list option" where
  "CMGL_PDU_REGEX = rx_anchored [rx_lit (js ''+CMGL:''), rx_star js_white, rx_group rx_digit, rx_lit (js '',''),
     rx_group rx_digit, rx_lit (js '',''), rx_star (rx_not CHR '',''), rx_lit (js '',''), rx_group rx_digit, rx_end]"

definition CMGR_PDU_REGEX :: "jstr \<Rightarrow> jstr list option" where
  "CMGR_PDU_REGEX = rx_anchored [rx_lit (js ''+CMGR:''), rx_star js_white, rx_group rx_digit, rx_lit (js '',''),
     rx_star (rx_not CHR '',''), rx_lit (js '',''), rx_group rx_digit, rx_end]"

definition CPMS_REGEX :: "jstr \<Rightarrow> jstr list option" where
  "CPMS_REGEX = rx_search [rx_lit (js ''+CPMS:''), rx_star js_white, rx_lit [34], rx_star (rx_not CHR 0x22), rx_lit [34],
     rx_lit (js '',''), rx_group rx_digit, rx_lit (js '',''), rx_group rx_digit]"

definition CMGS_REGEX :: "jstr \<Rightarrow> jstr list option" where
  "CMGS_REGEX = rx_search [rx_lit (js ''+CMGS:''), rx_star js_white, rx_group rx_digit]"

definition parseMessageReference :: "jstr list \<Rightarrow> jsnum thrown" where
  "parseMessageReference lines =
     (case lines of
        [] \<Rightarrow> Inl (ParseError (js ''AT+CMGS: no response line after send'') (js_join [10] lines))
      | line # _ \<Rightarrow>
          (case CMGS_REGEX line of
             Some [ref] \<Rightarrow> Inr (js_parseInt 10 ref)
           | _ \<Rightarrow> Inl (ParseError (js ''AT+CMGS: failed to parse message reference'') line)))"

definition prompt_options :: "jstr \<Rightarrow> execute_options" where
  "prompt_options data =
     \<lparr>opt_timeout = Some 30000, opt_expectsPrompt = True, opt_promptData = Some data, opt_suppressURC = False\<rparr>"

definition sendTextMode :: "jstr \<Rightarrow> jstr \<Rightarrow> jsnum script" where
  "sendTextMode to text =
     Exec (js ''AT+CMGF=1'') no_options (\<lambda>_.
     Exec (js ''AT+CMGS='' @ [34] @ to @ [34]) (prompt_options text) (\<lambda>lines.
       throwing (parseMessageReference lines)))"

fun send_segments :: "pdu_result list \<Rightarrow> jsnum option \<Rightarrow> jsnum script" where
  "send_segments [] firstRef =
     (case firstRef of None \<Rightarrow> Throw (ParseError (js ''AT+CMGS: no segments were sent'') [])
      | Some ref \<Rightarrow> Return ref)"
| "send_segments (segment # segments) firstRef =
     Exec (js ''AT+CMGS='' @ js_show_nat (pdu_length segment)) (prompt_options (pdu segment)) (\<lambda>lines.
       script_bind (throwing (parseMessageReference lines)) (\<lambda>ref.
         send_segments segments (Some (case firstRef of None \<Rightarrow> ref | Some r \<Rightarrow> r))))"

definition sendPdus :: "pdu_result list \<Rightarrow> jsnum script" where
  "sendPdus segments = Exec (js ''AT+CMGF=0'') no_options (\<lambda>_. send_segments segments None)"

definition send_encoded :: "pdu_result list thrown \<Rightarrow> jsnum script" where
  "send_encoded r = (case r of Inl e \<Rightarrow> Throw e | Inr segments \<Rightarrow> sendPdus segments)"

text \<open>The method and the reference counter after it; \<open>None\<close> if the encoder does not return.\<close>

definition send :: "nat \<Rightarrow> jstr \<Rightarrow> jstr \<Rightarrow> (jsnum script \<times> nat) option" where
  "send counter to text =
     (if isGsm7BitCompatible text then
        (if gsm7SeptetLength text \<le> 160 then Some (sendTextMode to text, counter)
         else (let (r, counter') = encodeGsm7SubmitPdus counter to text in Some (send_encoded r, counter')))
      else (case encodePduSubmit counter to text of
          None \<Rightarrow> None
        | Some (r, counter') \<Rightarrow> Some (send_encoded r, counter')))"

section \<open>Assembly\<close>

definition message_timestamp :: "stored_message \<Rightarrow> int option" where
  "message_timestamp m = (case m of Incoming _ _ t _ \<Rightarrow> Some t | Outgoing _ _ _ \<Rightarrow> None)"

definition message_concat :: "stored_message \<Rightarrow> concat_info option" where
  "message_concat m = (case m of Incoming _ _ _ c \<Rightarrow> c | Outgoing _ _ c \<Rightarrow> c)"

definition is_incoming :: "stored_message \<Rightarrow> bool" where
  "is_incoming m = (case m of Incoming _ _ _ _ \<Rightarrow> True | Outgoing _ _ _ \<Rightarrow> False)"

definition toSmsMessage :: "jsnum \<Rightarrow> sms_status \<Rightarrow> stored_message \<Rightarrow> sms_message" where
  "toSmsMessage index status m =
     \<lparr>sm_index = index, sm_address = address m, sm_incoming = is_incoming m, sm_text = msg_text m,
      sm_timestamp = message_timestamp m, sm_status = status\<rparr>"

definition concatKey :: "jstr \<Rightarrow> concat_info \<Rightarrow> jstr" where
  "concatKey addr c = addr @ js '':'' @ js_show (reference c)"

record multipart_group =
  mg_address :: jstr
  mg_incoming :: bool
  mg_status :: sms_status
  mg_firstIndex :: jsnum
  mg_concat :: concat_info
  mg_parts :: "jsnum \<Rightarrow> (jstr \<times> int option) option"

definition add_segment ::
  "sms_message list \<times> (jstr \<times> multipart_group) list \<Rightarrow> decoded_segment \<Rightarrow>
    sms_message list \<times> (jstr \<times> multipart_group) list" where
  "add_segment st seg =
     (let (singles, groups) = st; m = sg_message seg
      in case message_concat m of
           None \<Rightarrow> (singles @ [toSmsMessage (sg_index seg) (sg_status seg) m], groups)
         | Some c \<Rightarrow>
             (let key = concatKey (address m) c;
                  group = (case map_of groups key of
                      Some g \<Rightarrow> g
                    | None \<Rightarrow> \<lparr>mg_address = address m, mg_incoming = is_incoming m, mg_status = sg_status seg,
                               mg_firstIndex = sg_index seg, mg_concat = c, mg_parts = Map.empty\<rparr>)
              in (singles, map_set key
                   (group\<lparr>mg_parts := (mg_parts group)(partNumber c \<mapsto> (msg_text m, message_timestamp m))\<rparr>) groups)))"

definition part_numbers :: "jsnum \<Rightarrow> jsnum list" where
  "part_numbers tot = (case tot of NaN \<Rightarrow> [] | Num n \<Rightarrow> map (\<lambda>i. Num (int i)) [1..<Suc (nat n)])"

definition assemble_group :: "multipart_group \<Rightarrow> sms_message" where
  "assemble_group g =
     \<lparr>sm_index = mg_firstIndex g, sm_address = mg_address g, sm_incoming = mg_incoming g,
      sm_text = concat (map fst (List.map_filter (mg_parts g) (part_numbers (totalParts (mg_concat g))))),
      sm_timestamp = (if Num 1 \<in> set (part_numbers (totalParts (mg_concat g)))
                      then Option.bind (mg_parts g (Num 1)) snd else None),
      sm_status = mg_status g\<rparr>"

definition newest_first :: "sms_message list \<Rightarrow> sms_message list" where
  "newest_first ms = sort_key (\<lambda>m. - (case sm_timestamp m of None \<Rightarrow> 0 | Some t \<Rightarrow> t)) ms"

definition assembleMessages :: "decoded_segment list \<Rightarrow> sms_message list" where
  "assembleMessages segments =
     (let (singles, groups) = foldl add_segment ([], []) segments
      in newest_first (singles @ map (assemble_group \<circ> snd) groups))"

section \<open>Listing and reading\<close>

fun parse_listing :: "jstr list \<Rightarrow> decoded_segment list option" where
  "parse_listing [] = Some []"
| "parse_listing (headerLine # lines) =
     (case CMGL_PDU_REGEX headerLine of
        Some [indexStr, statusStr, _] \<Rightarrow>
          (case PDU_STATUS_MAP (js_parseInt 10 statusStr) of
             None \<Rightarrow> parse_listing lines
           | Some msgStatus \<Rightarrow>
               (case lines of
                  [] \<Rightarrow> parse_listing lines
                | pduLine # lines' \<Rightarrow>
                    (if js_startsWith pduLine (js ''+CMGL:'') then parse_listing lines
                     else (case decodeStoredMessage pduLine of
                         None \<Rightarrow> None
                       | Some (Inl e) \<Rightarrow> parse_listing lines'
                       | Some (Inr m) \<Rightarrow>
                           map_option (Cons \<lparr>sg_index = js_parseInt 10 indexStr, sg_status = msgStatus, sg_message = m\<rparr>)
                             (parse_listing lines')))))
      | _ \<Rightarrow> parse_listing lines)"

text \<open>The result \<open>None\<close> of a listing or reading script: the decoder does not return.\<close>

definition list_messages :: "jstr \<Rightarrow> sms_message list option script" where
  "list_messages status =
     Exec (js ''AT+CMGF=0'') no_options (\<lambda>_.
     Exec (js ''AT+CMGL='' @ js_show_int (or_else (PDU_LIST_STATUS status) 4)) no_options (\<lambda>lines.
       Return (map_option assembleMessages (parse_listing lines))))"

definition parse_reading :: "jsnum \<Rightarrow> jstr list \<Rightarrow> sms_message thrown option" where
  "parse_reading index lines =
     (let none = Some (Inl (ParseError (js ''No SMS at index '' @ js_show index) (js_join [10] lines)))
      in case lines of
           [] \<Rightarrow> none
         | headerLine # rest \<Rightarrow>
             (if headerLine = [] then none
              else (case CMGR_PDU_REGEX headerLine of
                  Some [statusStr, _] \<Rightarrow>
                    (case PDU_STATUS_MAP (js_parseInt 10 statusStr) of
                       None \<Rightarrow> Some (Inl (ParseError (js ''Unknown SMS status code: '' @ statusStr) headerLine))
                     | Some msgStatus \<Rightarrow>
                         (case rest of
                            [] \<Rightarrow> Some (Inl (ParseError (js ''No PDU data for SMS at index '' @ js_show index) (js_join [10] lines)))
                          | pduLine # _ \<Rightarrow>
                              dbind (decodeStoredMessage pduLine) (\<lambda>m. Some (Inr (toSmsMessage index msgStatus m)))))
                | _ \<Rightarrow> Some (Inl (ParseError (js ''Failed to parse PDU SMS header'') headerLine)))))"

definition read_message :: "jsnum \<Rightarrow> sms_message option script" where
  "read_message index =
     Exec (js ''AT+CMGF=0'') no_options (\<lambda>_.
     Exec (js ''AT+CMGR='' @ js_show index) no_options (\<lambda>lines.
       (case parse_reading index lines of
          None \<Rightarrow> Return None
        | Some r \<Rightarrow> script_bind (throwing r) (\<lambda>m. Return (Some m)))))"

definition delete_message :: "jsnum \<Rightarrow> unit script" where
  "delete_message index = Exec (js ''AT+CMGD='' @ js_show index) no_options (\<lambda>_. Return ())"

record sms_count =
  inbox :: jsnum
  capacity :: jsnum

definition count_messages :: "sms_count script" where
  "count_messages =
     Exec (js ''AT+CPMS?'') no_options (\<lambda>lines.
       case lines of
         [] \<Rightarrow> Throw (ParseError (js ''AT+CPMS? returned no data'') (js_join [10] lines))
       | line # _ \<Rightarrow>
           (case CPMS_REGEX line of
              Some [usedStr, totalStr] \<Rightarrow> Return \<lparr>inbox = js_parseInt 10 usedStr, capacity = js_parseInt 10 totalStr\<rparr>
            | _ \<Rightarrow> Throw (ParseError (js ''Failed to parse AT+CPMS? response'') line)))"

end
