(* ===== verification/Sms_Service_Props.thy ===== *)
theory Sms_Service_Props imports Sms_Service begin

text \<open>
  The message service as a whole: the commands of a send, what a listing shows of a sent message, and
  the assembly of concatenated messages in whatever order their parts are stored.
\<close>

section \<open>Sending\<close>

definition sent_command :: "pdu_result \<Rightarrow> jstr \<times> execute_options" where
  "sent_command p = (js ''AT+CMGS='' @ js_show_nat (pdu_length p), prompt_options (pdu p))"

definition accepted :: "nat \<Rightarrow> device_response" where
  "accepted n = Inr [js ''+CMGS: '' @ js_toString 10 n]"

lemma CMGS_accepted: "CMGS_REGEX (js ''+CMGS: '' @ js_toString 10 n) = Some [js_toString 10 n]"
proof -
  let ?s = "js_toString 10 n"
  have d: "list_all (\<lambda>c. 48 \<le> c \<and> c \<le> 57) ?s" "?s \<noteq> []" using js_toString_decimal [of n] by simp_all
  have all: "takeWhile rx_digit ?s = ?s" "dropWhile rx_digit ?s = []"
    using d(1) by (auto simp: takeWhile_eq_all_conv dropWhile_eq_Nil_conv list_all_iff rx_digit_def)
  have group: "rx_group rx_digit ?s = Some ([?s], [])" unfolding rx_group_def all using d(2) by simp
  have white: "dropWhile js_white (js '' '' @ ?s) = ?s"
    using d by (cases ?s) (auto simp: js_def js_white_def)
  have colon: "js ''+CMGS: '' @ ?s = 43 # (js ''CMGS:'' @ js '' '' @ ?s)" by (simp add: js_def)
  have "rx_anchored [rx_lit (js ''+CMGS:''), rx_star js_white, rx_group rx_digit] (js ''+CMGS: '' @ ?s) = Some [?s]"
    using white group by (simp add: rx_anchored_def rx_lit_def rx_star_def js_startsWith_def js_def)
  then show ?thesis unfolding CMGS_REGEX_def colon by simp
qed

lemma parse_accepted: "parseMessageReference [js ''+CMGS: '' @ js_toString 10 n] = Inr (Num (int n))"
  by (simp add: parseMessageReference_def CMGS_accepted js_parse_decimal)

lemma send_segments_run:
  "length ns = length ps \<Longrightarrow>
    run_script (send_segments (ps @ qs) first) (map accepted ns @ rs) =
      (let first' = (case first of Some r \<Rightarrow> Some r | None \<Rightarrow> (case ns of [] \<Rightarrow> None | n # _ \<Rightarrow> Some (Num (int n))));
           (cmds, res) = run_script (send_segments qs first') rs
       in (map sent_command ps @ cmds, res))"
proof (induction ps arbitrary: ns first)
  case Nil
  then show ?case by (cases first) (simp_all add: split_beta)
next
  case (Cons p ps)
  then obtain n ms where ns: "ns = n # ms" "length ms = length ps" by (cases ns) auto
  from Cons.IH [OF ns(2)] show ?case
    by (cases first) (simp_all add: ns accepted_def parse_accepted throwing_def sent_command_def split_beta Let_def)
qed

text \<open>A message sent in PDUs is sent in order, a command per segment after the one that selects PDU mode;
  when the device refuses a segment, the ones after it are not sent and the error is thrown; when it
  accepts all of them, the reference of the first is returned.\<close>
theorem send_protocol:
  assumes "length ns = length ps" and "length ms = length qs"
  shows "run_script (sendPdus (ps @ p # qs)) (Inr [] # map accepted ns @ [Inl e]) =
      ((js ''AT+CMGF=0'', no_options) # map sent_command (ps @ [p]), Thrown e)
    \<and> run_script (sendPdus (p # qs)) (Inr [] # map accepted (n # ms)) =
      ((js ''AT+CMGF=0'', no_options) # map sent_command (p # qs), Returned (Num (int n)))"
proof
  show "run_script (sendPdus (ps @ p # qs)) (Inr [] # map accepted ns @ [Inl e]) =
      ((js ''AT+CMGF=0'', no_options) # map sent_command (ps @ [p]), Thrown e)"
    using send_segments_run [OF assms(1), of "p # qs" None "[Inl e]"]
    by (simp add: sendPdus_def sent_command_def Let_def)
  have "length (n # ms) = length (p # qs)" using assms(2) by simp
  from send_segments_run [OF this, of "[]" None "[]"]
  show "run_script (sendPdus (p # qs)) (Inr [] # map accepted (n # ms)) =
      ((js ''AT+CMGF=0'', no_options) # map sent_command (p # qs), Returned (Num (int n)))"
    by (simp add: sendPdus_def Let_def del: send_segments.simps(2))
qed

lemma send_protocol_witness:
  defines "p \<equiv> encodeSinglePdu (js ''112'') [1329]"
  shows "run_script (sendPdus [p, p, p]) [Inr [], accepted 5, Inl ChannelDisposedError] =
      ([(js ''AT+CMGF=0'', no_options), sent_command p, sent_command p], Thrown ChannelDisposedError)
    \<and> run_script (sendPdus [p, p]) [Inr [], accepted 5, accepted 6] =
      ([(js ''AT+CMGF=0'', no_options), sent_command p, sent_command p], Returned (Num 5))"
  using send_protocol [of "[5]" "[p]" "[6]" "[p]" p ChannelDisposedError 5] by simp

section \<open>Grouping\<close>

definition key_of :: "decoded_segment \<Rightarrow> jstr option" where
  "key_of seg = map_option (concatKey (address (sg_message seg))) (message_concat (sg_message seg))"

definition part_of :: "decoded_segment \<Rightarrow> jsnum \<times> jstr \<times> int option" where
  "part_of seg = (partNumber (the (message_concat (sg_message seg))),
     msg_text (sg_message seg), message_timestamp (sg_message seg))"

definition group_of :: "decoded_segment list \<Rightarrow> multipart_group" where
  "group_of fs =
     (let m = sg_message (hd fs)
      in \<lparr>mg_address = address m, mg_incoming = is_incoming m, mg_status = sg_status (hd fs),
          mg_firstIndex = sg_index (hd fs), mg_concat = the (message_concat m), mg_parts = map_of (rev (map part_of fs))\<rparr>)"

lemma groups_spec:
  "foldl add_segment ([], []) segs = (singles, groups) \<Longrightarrow>
    singles = map (\<lambda>seg. toSmsMessage (sg_index seg) (sg_status seg) (sg_message seg)) [seg \<leftarrow> segs. key_of seg = None]
    \<and> distinct (map fst groups) \<and> (\<forall>k. k \<in> fst ` set groups \<longleftrightarrow> Some k \<in> key_of ` set segs)
    \<and> (\<forall>k. Some k \<in> key_of ` set segs \<longrightarrow> map_of groups k = Some (group_of [seg \<leftarrow> segs. key_of seg = Some k]))"
proof (induction segs arbitrary: singles groups rule: rev_induct)
  case Nil
  then show ?case by simp
next
  case (snoc seg segs)
  obtain s g where sg: "foldl add_segment ([], []) segs = (s, g)" by fastforce
  note IH = snoc.IH [OF sg]
  show ?case
  proof (cases "message_concat (sg_message seg)")
    case None
    then have "add_segment (s, g) seg = (s @ [toSmsMessage (sg_index seg) (sg_status seg) (sg_message seg)], g)"
      by (simp add: add_segment_def)
    with snoc.prems sg have "singles = s @ [toSmsMessage (sg_index seg) (sg_status seg) (sg_message seg)]" "groups = g"
      by simp_all
    moreover have "key_of seg = None" using None by (simp add: key_of_def)
    ultimately show ?thesis using IH by simp
  next
    case (Some c)
    let ?k = "concatKey (address (sg_message seg)) c" and ?m = "sg_message seg"
    let ?old = "[seg \<leftarrow> segs. key_of seg = Some ?k]"
    have key: "key_of seg = Some ?k" by (simp add: key_of_def Some)
    let ?g = "case map_of g ?k of Some gr \<Rightarrow> gr
      | None \<Rightarrow> \<lparr>mg_address = address ?m, mg_incoming = is_incoming ?m, mg_status = sg_status seg,
                mg_firstIndex = sg_index seg, mg_concat = c, mg_parts = Map.empty\<rparr>"
    have out: "singles = s" "groups = map_set ?k
        (?g\<lparr>mg_parts := (mg_parts ?g)(partNumber c \<mapsto> (msg_text ?m, message_timestamp ?m))\<rparr>) g"
    proof -
      have "add_segment (s, g) seg = (s, map_set ?k
          (?g\<lparr>mg_parts := (mg_parts ?g)(partNumber c \<mapsto> (msg_text ?m, message_timestamp ?m))\<rparr>) g)"
        by (simp add: add_segment_def Some Let_def)
      with snoc.prems sg show "singles = s" "groups = map_set ?k
          (?g\<lparr>mg_parts := (mg_parts ?g)(partNumber c \<mapsto> (msg_text ?m, message_timestamp ?m))\<rparr>) g"
        by simp_all
    qed
    have new: "?g\<lparr>mg_parts := (mg_parts ?g)(partNumber c \<mapsto> (msg_text ?m, message_timestamp ?m))\<rparr> = group_of (?old @ [seg])"
    proof (cases "?old = []")
      case True
      then have "Some ?k \<notin> key_of ` set segs" by (force simp: filter_empty_conv)
      then have "?k \<notin> fst ` set g" using IH by blast
      then have "map_of g ?k = None" by (simp add: map_of_eq_None_iff)
      with True show ?thesis by (simp add: group_of_def part_of_def Some Let_def)
    next
      case False
      then have "Some ?k \<in> key_of ` set segs" by (force simp: filter_empty_conv)
      with IH have "map_of g ?k = Some (group_of ?old)" by blast
      with False show ?thesis by (simp add: group_of_def part_of_def Some Let_def)
    qed
    have keys: "map fst groups = map fst g @ (if ?k \<in> fst ` set g then [] else [?k])"
      unfolding out keys_map_set ..
    have "map_of groups k = Some (group_of [seg' \<leftarrow> segs @ [seg]. key_of seg' = Some k])"
      if "Some k \<in> key_of ` set (segs @ [seg])" for k
    proof (cases "k = ?k")
      case True
      then show ?thesis using new key by (simp add: out map_of_map_set)
    next
      case False
      with that key have "Some k \<in> key_of ` set segs" by auto
      with IH False key show ?thesis by (auto simp: out map_of_map_set)
    qed
    moreover have "distinct (map fst groups)" using IH by (simp add: keys)
    moreover have "k \<in> fst ` set groups \<longleftrightarrow> Some k \<in> key_of ` set (segs @ [seg])" for k
      using arg_cong [OF keys, of set] IH key by (auto split: if_splits)
    ultimately show ?thesis using IH out(1) key by simp
  qed
qed

section \<open>Assembly\<close>

definition numbered :: "(jstr \<times> int option) list \<Rightarrow> (jsnum \<times> jstr \<times> int option) list" where
  "numbered parts = map (\<lambda>(i, p). (Num (int i), p)) (enumerate 1 parts)"

lemma numbered_facts:
  "map fst (numbered parts) = part_numbers (Num (int (length parts)))" "map snd (numbered parts) = parts"
  "distinct (map fst (numbered parts))"
proof -
  have keys: "map fst (numbered parts) = map (\<lambda>i. Num (int i)) (map fst (enumerate 1 parts))"
    unfolding numbered_def map_map by (rule map_cong) auto
  also have "map fst (enumerate 1 parts) = [1..<Suc (length parts)]" by (simp add: map_fst_enumerate del: upt_Suc)
  finally show one: "map fst (numbered parts) = part_numbers (Num (int (length parts)))"
    by (simp add: part_numbers_def del: upt_Suc)
  have "map snd (numbered parts) = map snd (enumerate 1 parts)" by (simp add: numbered_def split_beta comp_def)
  then show "map snd (numbered parts) = parts" by (simp only: map_snd_enumerate)
  show "distinct (map fst (numbered parts))" unfolding one by (auto simp: part_numbers_def distinct_map inj_on_def)
qed

lemma map_filter_map_of: "distinct (map fst xs) \<Longrightarrow> List.map_filter (map_of xs) (map fst xs) = map snd xs"
proof -
  assume d: "distinct (map fst xs)"
  have "List.map_filter (map_of xs) (map fst ys) = map snd ys" if "set ys \<subseteq> set xs" for ys
    using that d by (induction ys) (auto simp: List.map_filter_simps)
  then show ?thesis by simp
qed

lemma assembled_group:
  assumes "mset (map part_of fs) = mset (numbered parts)" and "parts \<noteq> []"
    and "totalParts (the (message_concat (sg_message (hd fs)))) = Num (int (length parts))"
  shows "assemble_group (group_of fs) =
    \<lparr>sm_index = sg_index (hd fs), sm_address = address (sg_message (hd fs)),
     sm_incoming = is_incoming (sg_message (hd fs)), sm_text = concat (map fst parts),
     sm_timestamp = snd (hd parts), sm_status = sg_status (hd fs)\<rparr>"
proof -
  note n = numbered_facts [of parts]
  have "mset (map fst (rev (map part_of fs))) = mset (map fst (numbered parts))"
    using arg_cong [OF assms(1), of "image_mset fst"] by (simp flip: mset_map rev_map)
  then have "distinct (map fst (rev (map part_of fs)))" using n(3) mset_eq_imp_distinct_iff by blast
  moreover have "set (rev (map part_of fs)) = set (numbered parts)" using mset_eq_setD [OF assms(1)] by simp
  ultimately have parts: "map_of (rev (map part_of fs)) = map_of (numbered parts)"
    using n(3) map_of_inject_set by blast
  have "List.map_filter (map_of (numbered parts)) (part_numbers (Num (int (length parts)))) = parts"
    using map_filter_map_of [OF n(3)] n(1,2) by simp
  moreover have "Num 1 \<in> set (part_numbers (Num (int (length parts))))"
    using assms(2) by (cases parts) (auto simp: part_numbers_def image_iff intro!: bexI [of _ "1 :: nat"])
  moreover have "map_of (numbered parts) (Num 1) = Some (hd parts)"
    using assms(2) by (cases parts) (simp_all add: numbered_def)
  ultimately show ?thesis
    using assms(3) parts by (simp add: assemble_group_def group_of_def Let_def)
qed

lemma assembled_set:
  assumes "foldl add_segment ([], []) segs = (singles, groups)"
  shows "mset (assembleMessages segs) = mset (singles @ map (assemble_group \<circ> snd) groups)"
  using assms by (simp add: assembleMessages_def newest_first_def)


definition stored_part :: "nat \<Rightarrow> bool \<Rightarrow> jstr \<Rightarrow> nat \<Rightarrow> nat \<Rightarrow> jstr \<Rightarrow> decoded_segment" where
  "stored_part index incoming addr tot part t =
     (let c = Some \<lparr>reference = Num 0, totalParts = Num (int tot), partNumber = Num (int part)\<rparr>
      in \<lparr>sg_index = Num (int index), sg_status = (if incoming then Read else Sent),
          sg_message = (if incoming then Incoming addr t (int index) c else Outgoing addr t c)\<rparr>)"

lemma js_show_zero: "js_show (Num 0) = [48]"
  by (simp add: js_show_def js_show_int_def)


lemma some_in_image: "Some k \<in> X \<longleftrightarrow> k \<in> the ` (X - {None})"
proof
  show "Some k \<in> X \<Longrightarrow> k \<in> the ` (X - {None})" by (rule image_eqI [of _ _ "Some k"]) simp_all
  assume "k \<in> the ` (X - {None})"
  then obtain x where "x \<in> X" "x \<noteq> None" "k = the x" by blast
  then show "Some k \<in> X" by (cases x) simp_all
qed


text \<open>A received and a sent message of one peer that carry the same reference are shown as one: the parts
  of the sent message replace those of the received one, whose text is lost.\<close>
theorem directions_merged:
  "assembleMessages [stored_part 1 True p 2 1 t1, stored_part 2 True p 2 2 t2,
                     stored_part 3 False p 2 1 u1, stored_part 4 False p 2 2 u2] =
    [\<lparr>sm_index = Num 1, sm_address = p, sm_incoming = True, sm_text = u1 @ u2, sm_timestamp = None, sm_status = Read\<rparr>]"
  by (simp add: assembleMessages_def add_segment_def stored_part_def message_concat_def message_timestamp_def
      is_incoming_def concatKey_def assemble_group_def part_numbers_def newest_first_def List.map_filter_simps
      upt_rec numeral_2_eq_2)

section \<open>Listing a sent message\<close>

lemma group_digits:
  "rx_group rx_digit (js_toString 10 n @ s) =
    (if s = [] \<or> \<not> rx_digit (hd s) then Some ([js_toString 10 n], s) else rx_group rx_digit (js_toString 10 n @ s))"
proof -
  have d: "\<forall>c \<in> set (js_toString 10 n). rx_digit c" "js_toString 10 n \<noteq> []"
    using js_toString_decimal [of n] by (auto simp: list_all_iff rx_digit_def)
  have run: "takeWhile rx_digit (js_toString 10 n @ s) = js_toString 10 n @ takeWhile rx_digit s"
    "dropWhile rx_digit (js_toString 10 n @ s) = dropWhile rx_digit s"
    using d(1) by (simp_all add: takeWhile_append2 dropWhile_append2)
  show ?thesis
  proof (cases s)
    case Nil
    with run d(2) show ?thesis unfolding rx_group_def by (simp only: append_Nil2 takeWhile.simps dropWhile.simps) simp
  next
    case (Cons c t)
    with d(2) show ?thesis unfolding rx_group_def run by simp
  qed
qed

definition listing_header :: "nat \<Rightarrow> nat \<Rightarrow> jstr" where
  "listing_header index len = js ''+CMGL: '' @ js_toString 10 index @ js '',3,,'' @ js_toString 10 len"

lemma listing_header_parsed:
  "CMGL_PDU_REGEX (listing_header index len) = Some [js_toString 10 index, [51], js_toString 10 len]"
proof -
  have d: "list_all (\<lambda>c. 48 \<le> c \<and> c \<le> 57) (js_toString 10 index)" "js_toString 10 index \<noteq> []"
    using js_toString_decimal [of index] by simp_all
  then have "dropWhile js_white (js_toString 10 index @ s) = js_toString 10 index @ s" for s
    by (cases "js_toString 10 index") (auto simp: js_white_def)
  moreover have "js_white 32" by (simp add: js_white_def)
  ultimately have white: "dropWhile js_white (32 # js_toString 10 index @ s) = js_toString 10 index @ s"
    "dropWhile js_white (js_toString 10 index @ s) = js_toString 10 index @ s" "js_white 32" for s by simp_all
  have len: "rx_group rx_digit (js_toString 10 len) = Some ([js_toString 10 len], [])"
    using group_digits [of len "[]"] by simp
  have index: "rx_group rx_digit (js_toString 10 index @ 44 # s) = Some ([js_toString 10 index], 44 # s)" for s
    using group_digits [of index "44 # s"] by (simp add: rx_digit_def)
  have split: "listing_header index len =
      js ''+CMGL:'' @ 32 # js_toString 10 index @ 44 # 51 # 44 # 44 # js_toString 10 len"
    by (simp add: listing_header_def js_def)
  have three: "rx_group rx_digit (51 # 44 # s) = Some ([[51]], 44 # s)" for s by (simp add: rx_group_def rx_digit_def)
  show ?thesis
    unfolding CMGL_PDU_REGEX_def rx_anchored_def split
    by (simp add: rx_lit_def rx_star_def white index three len rx_end_def rx_not_def js_def js_startsWith_def)
qed

definition listing_lines :: "nat \<Rightarrow> pdu_result list \<Rightarrow> jstr list" where
  "listing_lines k ps = concat (map (\<lambda>(i, p). [listing_header i (pdu_length p), pdu p]) (enumerate k ps))"

lemma submit_stored:
  assumes "decodePduSubmit hex = Some (Inr d)"
  shows "decodeStoredMessage hex = Some (Inr (Outgoing (recipient d) (sb_text d) (sb_concat d)))"
proof -
  from assms obtain r pduType r' where r: "skip_sca (createHexReader hex) = Inr r" "readByte r = Inr (pduType, r')"
    by (auto simp: decodePduSubmit_def dbind_def Let_def split: sum.splits prod.splits option.splits)
  with assms have "bits_and pduType 3 = 1"
    by (auto simp: decodePduSubmit_def Let_def split: if_splits)
  with r have "peekMti hex = Inr 1" by (simp add: peekMti_def)
  with assms show ?thesis by (simp add: decodeStoredMessage_def)
qed

lemma parse_listing_lines:
  assumes "map (decodePduSubmit \<circ> pdu) ps = map (Some \<circ> Inr) ds" and "list_all (\<lambda>p. take 1 (pdu p) = [48]) ps"
  shows "parse_listing (listing_lines k ps) = Some (map (\<lambda>(i, d). \<lparr>sg_index = Num (int i), sg_status = Sent,
    sg_message = Outgoing (recipient d) (sb_text d) (sb_concat d)\<rparr>) (enumerate k ds))"
  using assms
proof (induction ps arbitrary: ds k)
  case Nil
  then show ?case by (simp add: listing_lines_def)
next
  case (Cons p ps)
  then obtain d es where ds: "ds = d # es" "decodePduSubmit (pdu p) = Some (Inr d)"
    "map (decodePduSubmit \<circ> pdu) ps = map (Some \<circ> Inr) es" by (cases ds) (simp_all add: comp_def)
  have "take 1 (pdu p) = [48]" using Cons.prems(2) by simp
  then have "\<not> js_startsWith (pdu p) (js ''+CMGL:'')" by (cases "pdu p") (auto simp: js_startsWith_def js_def)
  moreover have "js_parseInt 10 [51] = Num 3"
    by (simp add: js_parseInt_def js_trimStart_def js_white_def js_def js_is_digit_def js_digit_def js_digits_value_def)
  ultimately show ?case
    using Cons.IH [OF ds(3), of "Suc k"] Cons.prems(2) submit_stored [OF ds(2)] ds(1)
    by (simp add: listing_lines_def listing_header_parsed PDU_STATUS_MAP_def js_parse_decimal)
qed

lemma ucs2_starts: "encodePduSubmit counter to s = Some (Inr ps, c) \<Longrightarrow> list_all (\<lambda>p. take 1 (pdu p) = [48]) ps"
  by (auto simp: encodePduSubmit_cases encodeSinglePdu_def encode_segment_def Let_def js_def list_all_iff split: if_splits)

lemma gsm7_starts: "encodeGsm7SubmitPdus counter to s = (Inr ps, c) \<Longrightarrow> list_all (\<lambda>p. take 1 (pdu p) = [48]) ps"
proof -
  have all: "list_all (\<lambda>p. take 1 (pdu p) = [48]) ps" if "build_segments to ref tot i segs = Inr ps" for ref tot i segs ps
    using that by (induction segs arbitrary: i ps) (auto simp: ebind_eq_Inr build_segment_def Let_def js_def)
  assume "encodeGsm7SubmitPdus counter to s = (Inr ps, c)"
  then show ?thesis
    using all by (auto simp: encodeGsm7SubmitPdus_def buildConcatenatedPdus_def buildSinglePdu_def Let_def js_def
        split: sum.splits if_splits prod.splits)
qed

text \<open>What the storage holds of a message sent in the given segments, listed and assembled.\<close>

lemma assemble_expected:
  assumes "segs \<noteq> []" and "single \<Longrightarrow> length segs = 1"
  shows "assembleMessages (map (\<lambda>(i, d). \<lparr>sg_index = Num (int i), sg_status = Sent,
      sg_message = Outgoing (recipient d) (sb_text d) (sb_concat d)\<rparr>) (enumerate k (expected_parts to enc ref single segs))) =
    [\<lparr>sm_index = Num (int k), sm_address = to, sm_incoming = False, sm_text = concat segs, sm_timestamp = None,
      sm_status = Sent\<rparr>]"
    (is "assembleMessages ?stored = [?m]")
proof (cases single)
  case True
  with assms obtain t where "segs = [t]" by (cases segs) auto
  with True show ?thesis
    by (simp add: expected_parts_def assembleMessages_def add_segment_def message_concat_def toSmsMessage_def
        message_timestamp_def is_incoming_def newest_first_def)
next
  case False
  let ?c = "\<lambda>i. \<lparr>reference = Num (int ref), totalParts = Num (int (length segs)), partNumber = Num (int (i + 1))\<rparr>"
  define stored where "stored = ?stored"
  have stored: "stored = map (\<lambda>i. \<lparr>sg_index = Num (int (k + i)), sg_status = Sent,
      sg_message = Outgoing to (segs ! i) (Some (?c i))\<rparr>) [0..<length segs]"
    unfolding stored_def using False by (intro nth_equalityI) (simp_all add: expected_parts_def nth_enumerate_eq)
  let ?key = "concatKey to (?c 0)"
  have key: "key_of seg = Some ?key" if "seg \<in> set stored" for seg
  proof -
    from that obtain i where "seg = \<lparr>sg_index = Num (int (k + i)), sg_status = Sent,
        sg_message = Outgoing to (segs ! i) (Some (?c i))\<rparr>"
      unfolding stored by auto
    then show ?thesis by (simp add: key_of_def message_concat_def concatKey_def)
  qed
  then have all: "[seg \<leftarrow> stored. key_of seg = Some ?key] = stored" unfolding filter_id_conv by blast
  have none: "[seg \<leftarrow> stored. key_of seg = None] = []"
    unfolding filter_empty_conv using key by (metis option.distinct(1))
  obtain singles groups where run: "foldl add_segment ([], []) stored = (singles, groups)" by fastforce
  note spec = groups_spec [OF run]
  have "stored \<noteq> []" using assms(1) by (simp add: stored)
  then obtain first where "first \<in> set stored" by (meson list.set_sel(1))
  have keys: "key_of ` set stored = {Some ?key}"
  proof
    show "key_of ` set stored \<subseteq> {Some ?key}" using key by blast
    show "{Some ?key} \<subseteq> key_of ` set stored" using key [OF \<open>first \<in> _\<close>] \<open>first \<in> _\<close> by (metis imageI singletonD subsetI)
  qed
  then have "fst ` set groups = {?key}" using spec by auto
  moreover have "distinct (map fst groups)" using spec by blast
  ultimately obtain g where g: "groups = [(?key, g)]"
    by (cases groups; cases "tl groups") (auto simp: insert_eq_iff)
  then have "g = group_of stored" using spec keys all by simp
  moreover have "singles = []" using spec none by simp
  moreover have "assemble_group (group_of stored) = ?m"
  proof -
    let ?parts = "map (\<lambda>t. (t, None)) segs"
    have "map part_of stored = numbered ?parts"
      by (intro nth_equalityI) (simp_all add: stored numbered_def part_of_def message_concat_def message_timestamp_def
          nth_enumerate_eq)
    then have "mset (map part_of stored) = mset (numbered ?parts)" by simp
    moreover have "hd stored = \<lparr>sg_index = Num (int k), sg_status = Sent, sg_message = Outgoing to (segs ! 0) (Some (?c 0))\<rparr>"
      using assms(1) by (simp add: stored hd_map)
    moreover have "concat (map fst ?parts) = concat segs" by (simp add: comp_def)
    moreover have "snd (hd ?parts) = None" using assms(1) by (simp add: hd_map)
    ultimately show ?thesis
      using assembled_group [of stored ?parts] assms(1) by (simp add: message_concat_def is_incoming_def)
  qed
  ultimately have "assembleMessages stored = [?m]" using run g by (simp add: assembleMessages_def newest_first_def)
  then show ?thesis by (simp only: stored_def)
qed

text \<open>C11: what is sent is listed: when the PDUs of an encoded message, in either alphabet and however many,
  are stored at consecutive indices, a listing shows one outgoing message with the number and the whole
  text that were sent, at the index of the first.\<close>
theorem sent_message_listed:
  assumes "phone_number to" and "units_ok s" and "counter < 256"
    and "Some (Inr ps, c) \<in> {encodePduSubmit counter to s, Some (encodeGsm7SubmitPdus counter to s)}"
  shows "map_option assembleMessages (parse_listing (listing_lines k ps)) =
    Some [\<lparr>sm_index = Num (int k), sm_address = to, sm_incoming = False, sm_text = s, sm_timestamp = None,
           sm_status = Sent\<rparr>]"
proof -
  from assms(4) consider (ucs2) "encodePduSubmit counter to s = Some (Inr ps, c)"
    | (gsm7) "encodeGsm7SubmitPdus counter to s = (Inr ps, c)" by auto
  then obtain segs enc single where segs: "concat segs = s" "segs \<noteq> []" "single \<Longrightarrow> length segs = 1"
    "map (decodePduSubmit \<circ> pdu) ps = map (Some \<circ> Inr) (expected_parts to enc counter single segs)"
    and starts: "list_all (\<lambda>p. take 1 (pdu p) = [48]) ps"
  proof cases
    case ucs2
    from ucs2_encoded [OF assms(1-3) ucs2] obtain segs where segs: "concat segs = s" "segs \<noteq> []"
      "length s \<le> 70 \<longrightarrow> segs = [s]"
      "map (decodePduSubmit \<circ> pdu) ps = map (Some \<circ> Inr) (expected_parts to Ucs2Text counter (length s \<le> 70) segs)"
      by blast
    then have "length s \<le> 70 \<Longrightarrow> length segs = 1" by simp
    from that [OF segs(1,2) this segs(4) ucs2_starts [OF ucs2]] show ?thesis .
  next
    case gsm7
    from gsm7_encoded [OF assms(1,3) gsm7] obtain segs where segs: "concat segs = s" "segs \<noteq> []"
      "gsm7SeptetLength s \<le> 160 \<longrightarrow> segs = [s]"
      "map (decodePduSubmit \<circ> pdu) ps = map (Some \<circ> Inr) (expected_parts to Gsm7Text counter (gsm7SeptetLength s \<le> 160) segs)"
      by blast
    then have "gsm7SeptetLength s \<le> 160 \<Longrightarrow> length segs = 1" by simp
    from that [OF segs(1,2) this segs(4) gsm7_starts [OF gsm7]] show ?thesis .
  qed
  show ?thesis
    unfolding parse_listing_lines [OF segs(4) starts] by (simp add: assemble_expected segs)
qed

lemma sent_message_listed_witness:
  "map_option assembleMessages (parse_listing (listing_lines 4 [encodeSinglePdu (js ''+1'') [1329]])) =
    Some [\<lparr>sm_index = Num 4, sm_address = js ''+1'', sm_incoming = False, sm_text = [1329], sm_timestamp = None,
           sm_status = Sent\<rparr>]"
  using sent_message_listed [of "js ''+1''" "[1329]" 0 "[encodeSinglePdu (js ''+1'') [1329]]" 0 4]
  by (simp add: phone_number_def digits_of_def js_def js_startsWith_def units_ok_def encodePduSubmit_cases)

end
