(* ===== verification/Lifecycle_Graph.thy ===== *)
theory Lifecycle_Graph imports Errors begin

text \<open>
  \<^verbatim>\<open>packages/core/src/lifecycle/graph.ts\<close> and the types of \<^verbatim>\<open>lifecycle/types.ts\<close>: the state graph of a
  device, composed of layers, and the search of the cheapest transitions. Costs are natural numbers.
  The searching loop and the loop that follows the predecessors are \<open>partial_function\<close>s: \<open>None\<close> is a
  loop that does not return. Maps that the code iterates over are association lists.
\<close>

section \<open>Data\<close>

datatype state_severity = Normal | Degraded | Critical

record state_node =
  node_id :: jstr
  node_label :: jstr
  severity :: state_severity
  refines :: "jstr option"
  terminal :: bool
  tags :: "jstr list"

record state_edge =
  edge_from :: jstr
  edge_to :: jstr
  edge_label :: jstr
  edge_cost :: nat
  reversible :: bool
  manual :: bool

record graph_layer =
  layer_name :: jstr
  layer_nodes :: "state_node list"
  layer_edges :: "state_edge list"

record composed_graph =
  layers :: "graph_layer list"
  nodes :: "(jstr \<times> state_node) list"
  adjacency :: "(jstr \<times> state_edge list) list"

record path_result =
  path_edges :: "state_edge list"
  totalCost :: nat
  hasManualStep :: bool

section \<open>Composition\<close>

definition edge_key :: "state_edge \<Rightarrow> jstr" where
  "edge_key e = edge_from e @ js ''->'' @ edge_to e"

definition add_node ::
  "(jstr \<times> state_node) list \<times> (jstr \<times> state_edge list) list \<Rightarrow> state_node \<Rightarrow>
    (jstr \<times> state_node) list \<times> (jstr \<times> state_edge list) list" where
  "add_node st node =
     (let (ns, adj) = st
      in (map_set (node_id node) node ns,
          if map_of adj (node_id node) = None then map_set (node_id node) [] adj else adj))"

definition add_layer ::
  "(jstr \<times> state_node) list \<times> (jstr \<times> state_edge list) list \<times> (jstr \<times> state_edge) list \<Rightarrow> graph_layer \<Rightarrow>
    (jstr \<times> state_node) list \<times> (jstr \<times> state_edge list) list \<times> (jstr \<times> state_edge) list" where
  "add_layer st layer =
     (let (ns, adj, es) = st; (ns', adj') = foldl add_node (ns, adj) (layer_nodes layer)
      in (ns', adj', foldl (\<lambda>es e. map_set (edge_key e) e es) es (layer_edges layer)))"

definition check_refines :: "(jstr \<times> state_node) list \<Rightarrow> jstr \<times> state_node \<Rightarrow> cellary_error option" where
  "check_refines ns entry =
     (case refines (snd entry) of
        None \<Rightarrow> None
      | Some r \<Rightarrow>
          (if map_of ns r = None
           then Some (OtherError (js [CHR ''S'', CHR ''t'', CHR ''a'', CHR ''t'', CHR ''e'', CHR '' '', CHR 0x27] @ fst entry
             @ [39] @ js '' refines '' @ [39] @ r @ [39] @ js '' which does not exist in the composed graph''))
           else None))"

definition check_edge :: "(jstr \<times> state_node) list \<Rightarrow> state_edge \<Rightarrow> cellary_error option" where
  "check_edge ns e =
     (let fail = (\<lambda>which name. Some (OtherError (js ''Edge '' @ [39] @ edge_key e @ [39]
          @ js '' references unknown '' @ which @ js '' state '' @ [39] @ name @ [39])))
      in if map_of ns (edge_from e) = None then fail (js ''source'') (edge_from e)
         else if map_of ns (edge_to e) = None then fail (js ''target'') (edge_to e)
         else None)"

fun first_error :: "('a \<Rightarrow> cellary_error option) \<Rightarrow> 'a list \<Rightarrow> cellary_error option" where
  "first_error check [] = None"
| "first_error check (x # xs) = (case check x of Some e \<Rightarrow> Some e | None \<Rightarrow> first_error check xs)"

definition add_adjacent :: "(jstr \<times> state_edge list) list \<Rightarrow> state_edge \<Rightarrow> (jstr \<times> state_edge list) list" where
  "add_adjacent adj e =
     map_set (edge_from e) ((case map_of adj (edge_from e) of Some es \<Rightarrow> es | None \<Rightarrow> []) @ [e]) adj"

definition compose :: "graph_layer list \<Rightarrow> cellary_error + composed_graph" where
  "compose ls =
     (let (ns, adj, es) = foldl add_layer ([], [], []) ls
      in case first_error (check_refines ns) ns of
           Some err \<Rightarrow> Inl err
         | None \<Rightarrow>
             (case first_error (check_edge ns) (map snd es) of
                Some err \<Rightarrow> Inl err
              | None \<Rightarrow> Inr \<lparr>layers = ls, nodes = ns, adjacency = foldl add_adjacent adj (map snd es)\<rparr>))"

section \<open>Refinement\<close>

definition has_node :: "composed_graph \<Rightarrow> jstr \<Rightarrow> bool" where
  "has_node g s \<longleftrightarrow> map_of (nodes g) s \<noteq> None"

definition parent :: "composed_graph \<Rightarrow> jstr \<Rightarrow> jstr option" where
  "parent g s = (case map_of (nodes g) s of None \<Rightarrow> None | Some n \<Rightarrow> refines n)"

lemma parent_has_node: "parent g s = Some r \<Longrightarrow> s \<in> fst ` set (nodes g)"
  by (auto simp: parent_def split: option.splits dest: map_of_SomeD intro: rev_image_eqI)

lemma unseen_decrease:
  assumes "x \<in> fst ` set xs - set seen"
  shows "card (fst ` set xs - set (x # seen)) < card (fst ` set xs - set seen)"
proof (rule psubset_card_mono)
  show "fst ` set xs - set (x # seen) \<subset> fst ` set xs - set seen" using assms by auto
qed simp

text \<open>The loop with its cycle guard: it visits every state at most once.\<close>

function refines_from :: "composed_graph \<Rightarrow> jstr \<Rightarrow> jstr \<Rightarrow> jstr list \<Rightarrow> bool" where
  "refines_from g targetId current seen =
     (if current \<in> set seen then False
      else (case parent g current of
          None \<Rightarrow> False
        | Some r \<Rightarrow> if r = targetId then True else refines_from g targetId r (current # seen)))"
  by pat_completeness auto

termination refines_from
proof (relation "measure (\<lambda>(g, t, c, seen). card (fst ` set (nodes g) - set seen))")
  fix g targetId current seen r
  assume "current \<notin> set seen" "parent g current = Some r"
  then have "current \<in> fst ` set (nodes g) - set seen" using parent_has_node by blast
  then have "card (fst ` set (nodes g) - set (current # seen)) < card (fst ` set (nodes g) - set seen)"
    by (rule unseen_decrease)
  then show "((g, targetId, r, current # seen), g, targetId, current, seen)
      \<in> measure (\<lambda>(g, t, c, seen). card (fst ` set (nodes g) - set seen))"
    by simp
qed simp

declare refines_from.simps [simp del]

definition isRefinementOf :: "composed_graph \<Rightarrow> jstr \<Rightarrow> jstr \<Rightarrow> bool" where
  "isRefinementOf g stateId targetId \<longleftrightarrow> stateId = targetId \<or> refines_from g targetId stateId []"

function depth_from :: "composed_graph \<Rightarrow> jstr \<Rightarrow> jstr list \<Rightarrow> nat" where
  "depth_from g current seen =
     (if current \<in> set seen then 0
      else (case parent g current of None \<Rightarrow> 0 | Some r \<Rightarrow> Suc (depth_from g r (current # seen))))"
  by pat_completeness auto

termination depth_from
proof (relation "measure (\<lambda>(g, c, seen). card (fst ` set (nodes g) - set seen))")
  fix g current seen r
  assume "current \<notin> set seen" "parent g current = Some r"
  then have "current \<in> fst ` set (nodes g) - set seen" using parent_has_node by blast
  then have "card (fst ` set (nodes g) - set (current # seen)) < card (fst ` set (nodes g) - set seen)"
    by (rule unseen_decrease)
  then show "((g, r, current # seen), g, current, seen) \<in> measure (\<lambda>(g, c, seen). card (fst ` set (nodes g) - set seen))"
    by simp
qed simp

declare depth_from.simps [simp del]

definition refinementDepth :: "composed_graph \<Rightarrow> jstr \<Rightarrow> nat" where
  "refinementDepth g stateId = depth_from g stateId []"

section \<open>Search\<close>

record search =
  dist :: "jstr \<Rightarrow> nat option"
  prev :: "(jstr \<times> jstr \<times> state_edge) list"
  visited :: "jstr set"
  frontier :: "jstr list"

text \<open>Distances, \<open>None\<close> for infinity.\<close>

fun dist_less :: "nat option \<Rightarrow> nat option \<Rightarrow> bool" where
  "dist_less (Some a) (Some b) \<longleftrightarrow> a < b"
| "dist_less (Some a) None \<longleftrightarrow> True"
| "dist_less None b \<longleftrightarrow> False"

fun min_index :: "(jstr \<Rightarrow> nat option) \<Rightarrow> nat \<Rightarrow> nat \<Rightarrow> nat option \<Rightarrow> jstr list \<Rightarrow> nat" where
  "min_index d i minIdx minDist [] = minIdx"
| "min_index d i minIdx minDist (q # qs) =
     (if dist_less (d q) minDist then min_index d (i + 1) i (d q) qs else min_index d (i + 1) minIdx minDist qs)"

definition select_min :: "(jstr \<Rightarrow> nat option) \<Rightarrow> jstr list \<Rightarrow> nat" where
  "select_min d queue = min_index d 1 0 (d (hd queue)) (tl queue)"

definition adjacent :: "composed_graph \<Rightarrow> jstr \<Rightarrow> state_edge list" where
  "adjacent g s = (case map_of (adjacency g) s of None \<Rightarrow> [] | Some es \<Rightarrow> es)"

definition relax :: "bool \<Rightarrow> jstr \<Rightarrow> search \<Rightarrow> state_edge \<Rightarrow> search" where
  "relax includeManual current s e =
     (if \<not> includeManual \<and> manual e then s
      else if edge_to e \<in> visited s then s
      else
        (let newDist = map_option (\<lambda>d. d + edge_cost e) (dist s current)
         in if dist_less newDist (dist s (edge_to e))
            then s\<lparr>dist := (dist s)(edge_to e := newDist), prev := map_set (edge_to e) (current, e) (prev s),
                   frontier := frontier s @ [edge_to e]\<rparr>
            else s))"

partial_function (option) search_loop :: "composed_graph \<Rightarrow> bool \<Rightarrow> jstr \<Rightarrow> search \<Rightarrow> search option" where
  "search_loop g includeManual to s =
     (if frontier s = [] then Some s
      else
        (let i = select_min (dist s) (frontier s); current = frontier s ! i;
             s1 = s\<lparr>frontier := take i (frontier s) @ drop (Suc i) (frontier s)\<rparr>
         in if current \<in> visited s then search_loop g includeManual to s1
            else
              (let s2 = s1\<lparr>visited := insert current (visited s)\<rparr>
               in if current = to then Some s2
                  else search_loop g includeManual to (foldl (relax includeManual current) s2 (adjacent g current)))))"

partial_function (option) trace_back :: "(jstr \<times> jstr \<times> state_edge) list \<Rightarrow> jstr \<Rightarrow> state_edge list option" where
  "trace_back pr current =
     (case map_of pr current of
        None \<Rightarrow> Some []
      | Some (node, edge) \<Rightarrow> Option.bind (trace_back pr node) (\<lambda>edges. Some (edges @ [edge])))"

declare search_loop.simps [code] trace_back.simps [code]

definition reconstructPath :: "(jstr \<times> jstr \<times> state_edge) list \<Rightarrow> jstr \<Rightarrow> path_result option" where
  "reconstructPath pr to =
     Option.bind (trace_back pr to) (\<lambda>edges.
       Some \<lparr>path_edges = edges, totalCost = sum_list (map edge_cost edges), hasManualStep = list_ex manual edges\<rparr>)"

text \<open>The cheapest refinement of the target among the states with a predecessor, the first one of several.\<close>

fun best_refinement ::
  "composed_graph \<Rightarrow> jstr \<Rightarrow> (jstr \<times> jstr \<times> state_edge) list \<Rightarrow> (jstr \<times> nat) option \<Rightarrow> jstr list \<Rightarrow>
    (jstr \<times> nat) option option" where
  "best_refinement g targetId pr best [] = Some best"
| "best_refinement g targetId pr best (sid # ids) =
     (if isRefinementOf g sid targetId then
        Option.bind (reconstructPath pr sid) (\<lambda>path.
          best_refinement g targetId pr
            (if dist_less (Some (totalCost path)) (map_option snd best) then Some (sid, totalCost path) else best) ids)
      else best_refinement g targetId pr best ids)"

definition findReachableRefinement ::
  "composed_graph \<Rightarrow> jstr \<Rightarrow> (jstr \<times> jstr \<times> state_edge) list \<Rightarrow> jstr option option" where
  "findReachableRefinement g targetId pr =
     map_option (map_option fst) (best_refinement g targetId pr None (map fst pr))"

definition start_search :: "jstr \<Rightarrow> search" where
  "start_search from = \<lparr>dist = (\<lambda>_. None)(from := Some 0), prev = [], visited = {}, frontier = [from]\<rparr>"

definition empty_path :: path_result where
  "empty_path = \<lparr>path_edges = [], totalCost = 0, hasManualStep = False\<rparr>"

text \<open>The outer option: whether the loops return; the inner one: the result of the function.\<close>

definition findPath :: "composed_graph \<Rightarrow> bool \<Rightarrow> jstr \<Rightarrow> jstr \<Rightarrow> path_result option option" where
  "findPath g includeManual from to =
     (if \<not> has_node g from then Some None
      else if \<not> has_node g to then Some None
      else if from = to then Some (Some empty_path)
      else if isRefinementOf g from to then Some (Some empty_path)
      else
        Option.bind (search_loop g includeManual to (start_search from)) (\<lambda>s.
          if map_of (prev s) to = None then
            Option.bind (findReachableRefinement g to (prev s)) (\<lambda>reachable.
              case reachable of None \<Rightarrow> Some None | Some r \<Rightarrow> map_option Some (reconstructPath (prev s) r))
          else map_option Some (reconstructPath (prev s) to)))"

text \<open>The candidates in the order of the nodes, with the best target so far, its cost and depth.\<close>

fun best_target ::
  "composed_graph \<Rightarrow> bool \<Rightarrow> jstr \<Rightarrow> (jstr \<times> nat \<times> nat) option \<Rightarrow> (jstr \<times> state_node) list \<Rightarrow>
    (jstr \<times> nat \<times> nat) option option" where
  "best_target g includeManual from best [] = Some best"
| "best_target g includeManual from best ((sid, node) # ns) =
     (if \<not> terminal node then best_target g includeManual from best ns
      else
        Option.bind (findPath g includeManual from sid) (\<lambda>path.
          case path of
            None \<Rightarrow> best_target g includeManual from best ns
          | Some p \<Rightarrow>
              (let depth = refinementDepth g sid;
                   better = (case best of None \<Rightarrow> True
                     | Some (_, bestCost, bestDepth) \<Rightarrow>
                         depth > bestDepth \<or> depth = bestDepth \<and> totalCost p < bestCost)
               in best_target g includeManual from (if better then Some (sid, totalCost p, depth) else best) ns)))"

definition findBestTarget :: "composed_graph \<Rightarrow> bool \<Rightarrow> jstr \<Rightarrow> jstr option option" where
  "findBestTarget g includeManual from = map_option (map_option fst) (best_target g includeManual from None (nodes g))"

end
