(* ===== verification/Lifecycle_Search.thy ===== *)
theory Lifecycle_Search imports Lifecycle_Graph begin

text \<open>
  The path search of \<open>Lifecycle_Graph\<close> is compared with the walks of the graph: the loops return, the
  predecessors record walks, and the distances of the settled states are least.
\<close>

section \<open>What a search must find\<close>

definition usable :: "composed_graph \<Rightarrow> bool \<Rightarrow> jstr \<Rightarrow> state_edge \<Rightarrow> bool" where
  "usable g includeManual s e \<longleftrightarrow> e \<in> set (adjacent g s) \<and> (includeManual \<or> \<not> manual e)"

text \<open>The reference: \<open>es\<close> leads from \<open>s\<close> to \<open>t\<close> along edges of the graph that may be used.\<close>

fun walk :: "composed_graph \<Rightarrow> bool \<Rightarrow> jstr \<Rightarrow> state_edge list \<Rightarrow> jstr \<Rightarrow> bool" where
  "walk g inc s [] t \<longleftrightarrow> s = t"
| "walk g inc s (e # es) t \<longleftrightarrow> usable g inc s e \<and> walk g inc (edge_to e) es t"

abbreviation cost :: "state_edge list \<Rightarrow> nat" where
  "cost es \<equiv> sum_list (map edge_cost es)"

lemma walk_append: "walk g inc s (es @ fs) t \<longleftrightarrow> (\<exists>u. walk g inc s es u \<and> walk g inc u fs t)"
  by (induction es arbitrary: s) auto

lemma dist_less_Some [simp]: "dist_less (Some a) b \<longleftrightarrow> (case b of None \<Rightarrow> True | Some b \<Rightarrow> a < b)"
  by (cases b) auto

lemma dist_less_not_trans: "dist_less a b \<Longrightarrow> \<not> dist_less c b \<Longrightarrow> \<not> dist_less c a"
  by (cases a; cases b; cases c) auto

lemma dist_less_irrefl [simp]: "\<not> dist_less a a"
  by (cases a) auto

section \<open>Selection\<close>

lemma min_index_minimal:
  assumes "m < length pre" "\<forall>q\<in>set pre. \<not> dist_less (d q) (d (pre ! m))"
  shows "min_index d (length pre) m (d (pre ! m)) qs < length (pre @ qs) \<and>
    (\<forall>q\<in>set (pre @ qs). \<not> dist_less (d q) (d ((pre @ qs) ! min_index d (length pre) m (d (pre ! m)) qs)))"
  using assms
proof (induction qs arbitrary: m pre)
  case (Cons q qs)
  show ?case
  proof (cases "dist_less (d q) (d (pre ! m))")
    case True
    have "\<forall>x\<in>set (pre @ [q]). \<not> dist_less (d x) (d q)"
      using Cons.prems(2) dist_less_not_trans[OF True] by simp
    then show ?thesis using Cons.IH[of "length pre" "pre @ [q]"] True by simp
  next
    case False
    then show ?thesis using Cons.IH[of m "pre @ [q]"] Cons.prems by (simp add: nth_append)
  qed
qed (simp add: nth_append)

lemma select_min_minimal:
  assumes "queue \<noteq> []"
  shows "select_min d queue < length queue"
    and "q \<in> set queue \<Longrightarrow> \<not> dist_less (d q) (d (queue ! select_min d queue))"
proof -
  obtain x xs where q: "queue = x # xs" using assms by (cases queue) auto
  have "min_index d 1 0 (d x) xs < length ([x] @ xs) \<and>
      (\<forall>q\<in>set ([x] @ xs). \<not> dist_less (d q) (d (([x] @ xs) ! min_index d 1 0 (d x) xs)))"
    using min_index_minimal[of 0 "[x]" d xs] by simp
  then show "select_min d queue < length queue"
    and "q \<in> set queue \<Longrightarrow> \<not> dist_less (d q) (d (queue ! select_min d queue))"
    unfolding q select_min_def by auto
qed

section \<open>The invariant of the search\<close>

text \<open>The path that the predecessors record for a state, through visited states only.\<close>

inductive traced :: "(jstr \<times> jstr \<times> state_edge) list \<Rightarrow> jstr set \<Rightarrow> jstr \<Rightarrow> jstr \<Rightarrow> state_edge list \<Rightarrow> bool"
  for pr :: "(jstr \<times> jstr \<times> state_edge) list" and V :: "jstr set" and s0 :: jstr where
  start: "traced pr V s0 s0 []"
| step: "traced pr V s0 n es \<Longrightarrow> n \<in> V \<Longrightarrow> map_of pr t = Some (n, e) \<Longrightarrow> traced pr V s0 t (es @ [e])"

lemma traced_change:
  assumes "traced pr V from n es" "n \<in> V" "\<forall>v\<in>V. map_of pr' v = map_of pr v" "V \<subseteq> V'"
  shows "traced pr' V' from n es"
  using assms by (induction) (auto intro: traced.intros)

lemma traced_mono: "traced pr V from n es \<Longrightarrow> V \<subseteq> V' \<Longrightarrow> traced pr V' from n es"
  by (induction rule: traced.induct) (auto intro: traced.intros)

lemma traced_back:
  assumes "traced pr V from n es" "map_of pr from = None"
  shows "trace_back pr n = Some es"
  using assms by (induction) (auto simp: trace_back.simps)

definition recorded :: "composed_graph \<Rightarrow> bool \<Rightarrow> jstr \<Rightarrow> search \<Rightarrow> bool" where
  "recorded g inc from s \<longleftrightarrow>
     map_of (prev s) from = None \<and> dist s from = Some 0 \<and>
     (\<forall>t. dist s t \<noteq> None \<longrightarrow> t = from \<or> map_of (prev s) t \<noteq> None) \<and>
     (\<forall>t n e. map_of (prev s) t = Some (n, e) \<longrightarrow>
        n \<in> visited s \<and> usable g inc n e \<and> edge_to e = t \<and> dist s t = map_option (\<lambda>d. d + edge_cost e) (dist s n)) \<and>
     (\<forall>t. dist s t \<noteq> None \<longrightarrow> (\<exists>es. traced (prev s) (visited s) from t es))"

definition ordered :: "search \<Rightarrow> bool" where
  "ordered s \<longleftrightarrow>
     visited s \<subseteq> dom (dist s) \<and> dom (dist s) - visited s \<subseteq> set (frontier s) \<and> set (frontier s) \<subseteq> dom (dist s) \<and>
     (\<forall>v\<in>visited s. \<forall>u. u \<notin> visited s \<longrightarrow> \<not> dist_less (dist s u) (dist s v))"

definition relaxed_edge :: "search \<Rightarrow> jstr \<Rightarrow> state_edge \<Rightarrow> bool" where
  "relaxed_edge s v e \<longleftrightarrow> \<not> dist_less (map_option (\<lambda>d. d + edge_cost e) (dist s v)) (dist s (edge_to e))"

definition explored :: "composed_graph \<Rightarrow> bool \<Rightarrow> jstr set \<Rightarrow> search \<Rightarrow> bool" where
  "explored g inc V s \<longleftrightarrow> (\<forall>v\<in>V. \<forall>e. usable g inc v e \<longrightarrow> relaxed_edge s v e)"

lemma recorded_walk:
  assumes "recorded g inc from s" "traced (prev s) (visited s) from t es"
  shows "walk g inc from es t \<and> dist s t = Some (cost es)"
  using assms(2)
proof (induction)
  case start
  then show ?case using assms(1) by (simp add: recorded_def)
next
  case (step n es t e)
  then have "usable g inc n e" "edge_to e = t" "dist s t = map_option (\<lambda>d. d + edge_cost e) (dist s n)"
    using assms(1) unfolding recorded_def by blast+
  then show ?case using step.IH by (auto simp: walk_append)
qed

lemma recorded_path:
  assumes "recorded g inc from s" "dist s t = Some d"
  shows "\<exists>es. reconstructPath (prev s) t = Some \<lparr>path_edges = es, totalCost = d, hasManualStep = list_ex manual es\<rparr> \<and>
    walk g inc from es t \<and> cost es = d"
proof -
  obtain es where es: "traced (prev s) (visited s) from t es" using assms unfolding recorded_def by blast
  moreover have "trace_back (prev s) t = Some es"
    using es assms(1) by (intro traced_back) (auto simp: recorded_def)
  ultimately show ?thesis using recorded_walk[OF assms(1) es] assms(2) by (auto simp: reconstructPath_def)
qed

section \<open>One edge\<close>

definition latest :: "jstr \<Rightarrow> search \<Rightarrow> bool" where
  "latest current s \<longleftrightarrow> current \<in> visited s \<and> (\<forall>v\<in>visited s. \<not> dist_less (dist s current) (dist s v))"

lemma relax_cases:
  assumes "usable g inc current e"
  obtains "relax inc current s e = s" "edge_to e \<in> visited s \<or> relaxed_edge s current e"
  | d where "edge_to e \<notin> visited s" "dist s current = Some d"
      "dist_less (Some (d + edge_cost e)) (dist s (edge_to e))"
      "relax inc current s e = s\<lparr>dist := (dist s)(edge_to e \<mapsto> d + edge_cost e),
         prev := map_set (edge_to e) (current, e) (prev s), frontier := frontier s @ [edge_to e]\<rparr>"
proof (cases "edge_to e \<notin> visited s \<and> dist_less (map_option (\<lambda>d. d + edge_cost e) (dist s current)) (dist s (edge_to e))")
  case True
  then obtain d where "dist s current = Some d" by (cases "dist s current") auto
  then show ?thesis using True assms that(2)[of d] by (auto simp: relax_def usable_def)
next
  case False
  then show ?thesis using assms that(1) by (auto simp: relax_def usable_def relaxed_edge_def Let_def)
qed

lemma relax_visited [simp]: "visited (relax inc current s e) = visited s"
  by (simp add: relax_def Let_def)

lemma relax_dist_visited: "v \<in> visited s \<Longrightarrow> dist (relax inc current s e) v = dist s v"
  by (auto simp: relax_def Let_def)

lemma relax_dist_le: "\<not> dist_less (dist s u) (dist (relax inc current s e) u)"
  by (cases "dist s u"; cases "dist s current") (auto simp: relax_def Let_def)

lemma relax_relaxed:
  assumes "v \<in> visited s" "relaxed_edge s v e'"
  shows "relaxed_edge (relax inc current s e) v e'"
  using assms relax_dist_le[of s "edge_to e'" inc current e]
  by (cases "dist s v"; cases "dist s (edge_to e')"; cases "dist (relax inc current s e) (edge_to e')")
    (auto simp: relaxed_edge_def relax_dist_visited)

lemma relax_recorded:
  assumes "usable g inc current e" "recorded g inc from s" "current \<in> visited s"
  shows "recorded g inc from (relax inc current s e)"
  using assms(1)
proof (cases rule: relax_cases[where s = s])
  case (2 d)
  let ?s = "relax inc current s e"
  have not_from: "edge_to e \<noteq> from" using 2(3) assms(2) by (auto simp: recorded_def)
  have pred_visited: "n \<in> visited s" if "map_of (prev s) t = Some (n, e')" for t n e'
    using that assms(2) by (auto simp: recorded_def)
  obtain es where es: "traced (prev s) (visited s) from current es"
    using 2(2) assms(2) unfolding recorded_def by blast
  have agree: "\<forall>v\<in>visited s. map_of (prev ?s) v = map_of (prev s) v"
    using 2(1,4) by (auto simp: map_of_map_set)
  have change: "traced (prev ?s) (visited s) from v fs" if "traced (prev s) (visited s) from v fs" "v \<in> visited s" for v fs
    using traced_change[OF that agree subset_refl] .
  have traces: "\<exists>fs. traced (prev ?s) (visited s) from t fs" if "dist ?s t \<noteq> None" for t
  proof (cases "t = edge_to e")
    case True
    then show ?thesis
      using traced.step[OF change[OF es assms(3)] assms(3), of t e] 2 by (auto simp: map_of_map_set)
  next
    case False
    then have "dist s t \<noteq> None" using that 2 by simp
    then obtain fs where "traced (prev s) (visited s) from t fs" using assms(2) unfolding recorded_def by blast
    then show ?thesis
    proof cases
      case start
      then show ?thesis by (auto intro: traced.start)
    next
      case (step n gs e')
      then have "traced (prev ?s) (visited s) from n gs" by (intro change)
      then show ?thesis using step False 2 by (auto simp: map_of_map_set intro!: exI traced.step)
    qed
  qed
  have entries: "n \<in> visited s \<and> usable g inc n e' \<and> edge_to e' = t
      \<and> dist ?s t = map_option (\<lambda>d. d + edge_cost e') (dist ?s n)"
    if "map_of (prev ?s) t = Some (n, e')" for t n e'
  proof (cases "t = edge_to e")
    case True
    then show ?thesis using that 2 assms by (auto simp: map_of_map_set)
  next
    case False
    then have old: "map_of (prev s) t = Some (n, e')" using that 2 by (simp add: map_of_map_set)
    then have "n \<noteq> edge_to e" using pred_visited 2(1) by auto
    then show ?thesis using old assms(2) 2 False unfolding recorded_def by auto
  qed
  have "map_of (prev ?s) from = None" "dist ?s from = Some 0"
    using assms(2) not_from 2(4) by (auto simp: recorded_def map_of_map_set)
  moreover have "t = from \<or> map_of (prev ?s) t \<noteq> None" if "dist ?s t \<noteq> None" for t
    using that assms(2) 2(4) by (cases "t = edge_to e") (auto simp: recorded_def map_of_map_set)
  ultimately show ?thesis
    using traces entries unfolding recorded_def relax_visited by blast
qed (use assms in simp)

lemma relax_ordered:
  assumes "usable g inc current e" "ordered s" "latest current s"
  shows "ordered (relax inc current s e)"
  using assms(1)
proof (cases rule: relax_cases[where s = s])
  case (2 d)
  have new: "\<not> dist_less (Some (d + edge_cost e)) (dist s v)" if "v \<in> visited s" for v
    using that assms(3) 2(2) by (cases "dist s v") (auto simp: latest_def)
  have old: "visited s \<subseteq> dom (dist s)" "dom (dist s) - visited s \<subseteq> set (frontier s)" "set (frontier s) \<subseteq> dom (dist s)"
    "\<And>v u. v \<in> visited s \<Longrightarrow> u \<notin> visited s \<Longrightarrow> \<not> dist_less (dist s u) (dist s v)"
    using assms(2) by (auto simp: ordered_def)
  show ?thesis
    unfolding ordered_def
  proof (intro conjI ballI allI impI)
    fix v u assume v: "v \<in> visited (relax inc current s e)" and u: "u \<notin> visited (relax inc current s e)"
    then show "\<not> dist_less (dist (relax inc current s e) u) (dist (relax inc current s e) v)"
      using new[of v] old(4)[of v u] 2(1) 2(4) relax_dist_visited[of v s] by (cases "u = edge_to e") auto
  qed (use old 2 in auto)
qed (use assms in simp)

lemma relax_latest:
  assumes "latest current s" shows "latest current (relax inc current s e)"
  using assms by (auto simp: latest_def relax_dist_visited)

lemma relax_manual: "\<not> inc \<Longrightarrow> manual e \<Longrightarrow> relax inc current s e = s"
  by (simp add: relax_def)

lemma relax_done:
  assumes "usable g inc current e" "latest current s"
  shows "relaxed_edge (relax inc current s e) current e"
  using assms(1)
proof (cases rule: relax_cases[where s = s])
  case 1
  then show ?thesis
    using assms(2) by (cases "dist s current"; cases "dist s (edge_to e)") (auto simp: latest_def relaxed_edge_def)
next
  case (2 d)
  then have "current \<noteq> edge_to e" using assms(2) by (auto simp: latest_def)
  then show ?thesis using 2 by (simp add: relaxed_edge_def)
qed

text \<open>All the edges of the state just visited.\<close>

lemma relax_all:
  assumes "recorded g inc from s" "ordered s" "latest current s" "explored g inc V s" "V \<subseteq> visited s"
    and "set es \<subseteq> set (adjacent g current)"
  shows "recorded g inc from (foldl (relax inc current) s es) \<and> ordered (foldl (relax inc current) s es)
    \<and> explored g inc V (foldl (relax inc current) s es) \<and> visited (foldl (relax inc current) s es) = visited s
    \<and> (\<forall>e\<in>set es. usable g inc current e \<longrightarrow> relaxed_edge (foldl (relax inc current) s es) current e)
    \<and> set (frontier (foldl (relax inc current) s es)) \<subseteq> set (frontier s) \<union> edge_to ` set es"
  using assms
proof (induction es arbitrary: s rule: rev_induct)
  case (snoc e es)
  let ?s = "foldl (relax inc current) s es"
  have IH: "recorded g inc from ?s" "ordered ?s" "explored g inc V ?s" "visited ?s = visited s"
    "\<forall>e\<in>set es. usable g inc current e \<longrightarrow> relaxed_edge ?s current e"
    "set (frontier ?s) \<subseteq> set (frontier s) \<union> edge_to ` set es"
    using snoc.IH[of s] snoc.prems by auto
  have latest: "latest current ?s"
    using snoc.prems(3) by (induction es arbitrary: s rule: rev_induct) (auto intro: relax_latest)
  have current: "current \<in> visited ?s" using latest by (simp add: latest_def)
  have keep: "explored g inc V (relax inc current ?s e)"
    using IH(3) relax_relaxed[of _ ?s] snoc.prems(5) unfolding explored_def IH(4) by blast
  have frontier: "set (frontier (relax inc current ?s e)) \<subseteq> insert (edge_to e) (set (frontier ?s))"
    by (auto simp: relax_def Let_def)
  show ?case
  proof (cases "usable g inc current e")
    case True
    have "relaxed_edge (relax inc current ?s e) current e'"
      if "e' \<in> set (es @ [e])" "usable g inc current e'" for e'
      using that IH(5) relax_relaxed[OF current] relax_done[OF True latest] by (cases "e' = e") auto
    then show ?thesis
      using relax_recorded[OF True IH(1) current] relax_ordered[OF True IH(2) latest] keep IH(4,6) frontier by auto
  next
    case False
    then have "relax inc current ?s e = ?s"
      using snoc.prems(6) by (intro relax_manual) (auto simp: usable_def)
    then show ?thesis using IH False by auto
  qed
qed auto

section \<open>The whole search\<close>

lemma remove_nth_set: "i < length xs \<Longrightarrow> set (take i xs @ drop (Suc i) xs) \<union> {xs ! i} = set xs"
  using arg_cong[OF id_take_nth_drop[of i xs], of set] by simp

definition universe :: "composed_graph \<Rightarrow> jstr set" where
  "universe g = edge_to ` (\<Union>s\<in>fst ` set (adjacency g). set (adjacent g s))"

lemma finite_universe [simp]: "finite (universe g)"
  by (simp add: universe_def)

lemma adjacent_universe: "e \<in> set (adjacent g s) \<Longrightarrow> edge_to e \<in> universe g"
proof -
  assume e: "e \<in> set (adjacent g s)"
  then have "s \<in> fst ` set (adjacency g)"
    by (cases "map_of (adjacency g) s") (auto simp: adjacent_def intro: rev_image_eqI dest: map_of_SomeD)
  then show ?thesis using e by (auto simp: universe_def)
qed

lemma adjacent_edges: "edge_to ` set (adjacent g s) \<subseteq> universe g"
  using adjacent_universe by blast

definition search_inv :: "composed_graph \<Rightarrow> bool \<Rightarrow> jstr \<Rightarrow> search \<Rightarrow> bool" where
  "search_inv g inc from s \<longleftrightarrow> recorded g inc from s \<and> ordered s"

text \<open>What holds when the loop ends: every state seen is settled, or the target has been.\<close>

definition search_end :: "composed_graph \<Rightarrow> bool \<Rightarrow> jstr \<Rightarrow> jstr \<Rightarrow> search \<Rightarrow> bool" where
  "search_end g inc from to s \<longleftrightarrow> search_inv g inc from s \<and>
     (frontier s = [] \<and> to \<notin> visited s \<and> explored g inc (visited s) s \<or>
      to \<in> visited s \<and> latest to s \<and> explored g inc (visited s - {to}) s)"

lemma recorded_visit:
  assumes "recorded g inc from s"
  shows "recorded g inc from (s\<lparr>frontier := queue, visited := insert c (visited s)\<rparr>)"
proof -
  have "\<exists>es. traced (prev s) (insert c (visited s)) from t es" if "dist s t \<noteq> None" for t
    using that assms traced_mono[OF _ subset_insertI] unfolding recorded_def by meson
  then show ?thesis using assms unfolding recorded_def by simp
qed

lemma drop_visited:
  assumes "set (frontier s) - visited s \<subseteq> set queue" "set queue \<subseteq> set (frontier s)" "ordered s"
  shows "ordered (s\<lparr>frontier := queue\<rparr>)"
  using assms by (simp add: ordered_def) blast

lemma visit_state:
  assumes "search_inv g inc from s" "frontier s \<noteq> []"
    and "i = select_min (dist s) (frontier s)" "current = frontier s ! i" "current \<notin> visited s"
    and "explored g inc (visited s) s"
    and "s2 = s\<lparr>frontier := take i (frontier s) @ drop (Suc i) (frontier s), visited := insert current (visited s)\<rparr>"
  shows "recorded g inc from s2 \<and> ordered s2 \<and> latest current s2 \<and> explored g inc (visited s) s2"
proof -
  have i: "i < length (frontier s)" and least: "\<And>q. q \<in> set (frontier s) \<Longrightarrow> \<not> dist_less (dist s q) (dist s current)"
    using select_min_minimal[OF assms(2), where d = "dist s"] assms(3,4) by auto
  have rec: "recorded g inc from s" and ord: "ordered s" using assms(1) by (auto simp: search_inv_def)
  have front: "set (frontier s2) \<union> {current} = set (frontier s)"
    using remove_nth_set[OF i] assms(4,7) by simp
  have "current \<in> set (frontier s)" using i assms(4) by simp
  then obtain c where c: "dist s current = Some c" using ord by (auto simp: ordered_def)
  have outside: "\<not> dist_less (dist s u) (dist s current)" if "u \<notin> visited s" for u
    using that least[of u] ord c by (cases "dist s u") (auto simp: ordered_def)
  have "ordered s2"
    unfolding ordered_def
  proof (intro conjI ballI allI impI)
    show "visited s2 \<subseteq> dom (dist s2)" using ord c assms(7) by (auto simp: ordered_def)
    show "dom (dist s2) - visited s2 \<subseteq> set (frontier s2)" "set (frontier s2) \<subseteq> dom (dist s2)"
      using ord front assms(7) by (auto simp: ordered_def)
    fix v u assume "v \<in> visited s2" "u \<notin> visited s2"
    then show "\<not> dist_less (dist s2 u) (dist s2 v)"
      using outside[of u] ord assms(7) by (auto simp: ordered_def)
  qed
  moreover have "latest current s2"
    using ord assms(5,7) by (simp add: latest_def ordered_def)
  moreover have "recorded g inc from s2"
    unfolding assms(7) by (rule recorded_visit[OF rec])
  moreover have "explored g inc (visited s) s2"
    using assms(6,7) by (auto simp: explored_def relaxed_edge_def)
  ultimately show ?thesis by blast
qed

lemma search_returns:
  assumes "search_inv g inc from s" "explored g inc (visited s) s" "to \<notin> visited s"
    and "set (frontier s) \<subseteq> insert from (universe g)"
  shows "\<exists>s'. search_loop g inc to s = Some s' \<and> search_end g inc from to s'"
  using assms
proof (induction "(card (insert from (universe g) - visited s), length (frontier s))" arbitrary: s
    rule: wf_induct_rule[OF wf_lex_prod[OF wf_less wf_less]])
  case (1 s)
  let ?i = "select_min (dist s) (frontier s)" and ?c = "frontier s ! select_min (dist s) (frontier s)"
  let ?s1 = "s\<lparr>frontier := take ?i (frontier s) @ drop (Suc ?i) (frontier s)\<rparr>"
  let ?s2 = "?s1\<lparr>visited := insert ?c (visited s)\<rparr>"
  show ?case
  proof (cases "frontier s = []")
    case True
    then show ?thesis using 1(2-) by (auto simp: search_loop.simps search_end_def)
  next
    case False
    have i: "?i < length (frontier s)" using select_min_minimal(1)[OF False] .
    have front: "set (frontier ?s1) \<union> {?c} = set (frontier s)" using remove_nth_set[OF i] by simp
    then have front_sub: "set (frontier ?s1) \<subseteq> insert from (universe g)" using 1(5) by auto
    show ?thesis
    proof (cases "?c \<in> visited s")
      case True
      have "set (frontier s) - visited s \<subseteq> set (frontier ?s1)" "set (frontier ?s1) \<subseteq> set (frontier s)"
        using front True by blast+
      then have "ordered ?s1"
        using 1(2) by (intro drop_visited) (simp_all add: search_inv_def)
      then have inv: "search_inv g inc from ?s1" using 1(2) unfolding search_inv_def recorded_def by simp
      have "\<exists>s'. search_loop g inc to ?s1 = Some s' \<and> search_end g inc from to s'"
      proof (rule 1(1)[OF _ inv _ _ front_sub])
        show "((card (insert from (universe g) - visited ?s1), length (frontier ?s1)),
            card (insert from (universe g) - visited s), length (frontier s)) \<in> {(x, y). x < y} <*lex*> {(x, y). x < y}"
          using i by simp
        show "explored g inc (visited ?s1) ?s1" using 1(3) by (simp add: explored_def relaxed_edge_def)
        show "to \<notin> visited ?s1" using 1(4) by simp
      qed
      then show ?thesis using False True by (subst search_loop.simps) (simp add: Let_def)
    next
      case unvisited: False
      have vis: "recorded g inc from ?s2 \<and> ordered ?s2 \<and> latest ?c ?s2 \<and> explored g inc (visited s) ?s2"
        by (rule visit_state[OF 1(2) False refl refl unvisited 1(3)]) simp
      show ?thesis
      proof (cases "?c = to")
        case True
        then have "search_end g inc from to ?s2"
          using vis 1(4) by (auto simp: search_end_def search_inv_def explored_def)
        then show ?thesis using False unvisited True by (subst search_loop.simps) (simp add: Let_def)
      next
        case other: False
        let ?s3 = "foldl (relax inc ?c) ?s2 (adjacent g ?c)"
        have each: "recorded g inc from ?s3" "ordered ?s3" "explored g inc (visited s) ?s3" "visited ?s3 = visited ?s2"
          "\<forall>e\<in>set (adjacent g ?c). usable g inc ?c e \<longrightarrow> relaxed_edge ?s3 ?c e"
          "set (frontier ?s3) \<subseteq> set (frontier ?s2) \<union> edge_to ` set (adjacent g ?c)"
          using relax_all[of g inc "from" ?s2 ?c "visited s" "adjacent g ?c"] vis by auto
        have current_edges: "relaxed_edge ?s3 ?c e" if "usable g inc ?c e" for e
          using that each(5) unfolding usable_def by blast
        have "\<exists>s'. search_loop g inc to ?s3 = Some s' \<and> search_end g inc from to s'"
        proof (rule 1(1))
          have "?c \<in> insert from (universe g) - visited s" using front 1(5) unvisited by auto
          then have "card (insert from (universe g) - visited ?s3) < card (insert from (universe g) - visited s)"
            unfolding each(4) by (intro psubset_card_mono) auto
          then show "((card (insert from (universe g) - visited ?s3), length (frontier ?s3)),
              card (insert from (universe g) - visited s), length (frontier s)) \<in> {(x, y). x < y} <*lex*> {(x, y). x < y}"
            by simp
          show "search_inv g inc from ?s3" using each by (simp add: search_inv_def)
          show "explored g inc (visited ?s3) ?s3"
            using each(3) current_edges unfolding each(4) explored_def by simp
          show "to \<notin> visited ?s3" using each(4) 1(4) other by auto
          show "set (frontier ?s3) \<subseteq> insert from (universe g)"
            using order_trans[OF each(6) Un_mono[OF _ adjacent_edges]] front_sub by simp blast
        qed
        then show ?thesis using False unvisited other by (subst search_loop.simps) (simp add: Let_def)
      qed
    qed
  qed
qed

lemma search_started:
  "\<exists>s. search_loop g inc to (start_search from) = Some s \<and> search_end g inc from to s"
proof (rule search_returns)
  show "search_inv g inc from (start_search from)"
    by (auto simp: search_inv_def recorded_def ordered_def start_search_def intro: traced.start split: if_splits)
qed (auto simp: explored_def start_search_def)

lemma settled_least:
  assumes "explored g inc (visited s - {v}) s" "\<And>u. u \<notin> visited s \<Longrightarrow> \<not> dist_less (dist s u) (dist s v)"
    and "walk g inc x es v" "dist s x = Some d"
  shows "\<exists>d'. dist s v = Some d' \<and> d' \<le> d + cost es"
  using assms(3,4)
proof (induction es arbitrary: x d)
  case (Cons e es)
  show ?case
  proof (cases "x \<in> visited s - {v}")
    case True
    then have "relaxed_edge s x e" using assms(1) Cons.prems(1) by (auto simp: explored_def)
    then obtain d' where "dist s (edge_to e) = Some d'" "d' \<le> d + edge_cost e"
      using Cons.prems(2) by (auto simp: relaxed_edge_def split: option.splits)
    then show ?thesis using Cons.IH[of "edge_to e" d'] Cons.prems(1) by fastforce
  next
    case False
    then show ?thesis using assms(2)[of x] Cons.prems(2) by (cases "x = v") (auto split: option.splits)
  qed
qed simp

end
