(* ===== verification/Lifecycle_Detector.thy ===== *)
theory Lifecycle_Detector imports Lifecycle_Graph begin

text \<open>
  \<^verbatim>\<open>packages/core/src/lifecycle/detector.ts\<close>, \<^verbatim>\<open>generic-detectors.ts\<close> and \<^verbatim>\<open>generic-states.ts\<close>: from the
  observation of a device to the state it is in, and the generic layer of states and detectors. Awaiting a
  detector has no effect on the model; a detector that throws is an \<open>Inl\<close>.
\<close>

section \<open>Probes\<close>

datatype probe_mode = Storage_Mode | Modem_Usb | Http_Mode | Serial_Mode | Download_Mode | Emergency_Mode

record usb_interface =
  bInterfaceClass :: nat
  bInterfaceSubClass :: nat
  bInterfaceProtocol :: nat

record device_probe =
  probe_vendorId :: nat
  probe_productId :: nat
  probe_present :: bool
  mode_of :: "probe_mode option"
  httpUrl :: "jstr option"
  probe_interfaces :: "usb_interface list option"
  probeHttp :: "jstr \<Rightarrow> cellary_error + bool"

definition VALID_MODES :: "(jstr \<times> probe_mode) list" where
  "VALID_MODES =
     [(js ''storage'', Storage_Mode), (js ''modem-usb'', Modem_Usb), (js ''http'', Http_Mode),
      (js ''serial'', Serial_Mode), (js ''download'', Download_Mode), (js ''emergency'', Emergency_Mode)]"

definition isProbeMode :: "jstr \<Rightarrow> bool" where
  "isProbeMode value \<longleftrightarrow> list_ex (\<lambda>m. fst m = value) VALID_MODES"

definition createProbe ::
  "nat \<Rightarrow> nat \<Rightarrow> bool \<Rightarrow> probe_mode option \<Rightarrow> jstr option \<Rightarrow> usb_interface list option \<Rightarrow>
    (jstr \<Rightarrow> cellary_error + bool) option \<Rightarrow> device_probe" where
  "createProbe vid pid here mode url interfaces httpProber =
     \<lparr>probe_vendorId = vid, probe_productId = pid, probe_present = here, mode_of = mode, httpUrl = url,
      probe_interfaces = interfaces, probeHttp = (case httpProber of Some f \<Rightarrow> f | None \<Rightarrow> (\<lambda>_. Inr False))\<rparr>"

definition probeFromDiscovered ::
  "jstr \<Rightarrow> nat \<Rightarrow> nat \<Rightarrow> jstr option \<Rightarrow> (jstr \<Rightarrow> cellary_error + bool) option \<Rightarrow> device_probe" where
  "probeFromDiscovered mode vid pid url httpProber =
     \<lparr>probe_vendorId = vid, probe_productId = pid, probe_present = True,
      mode_of = (if isProbeMode mode then map_of VALID_MODES mode else None), httpUrl = url,
      probe_interfaces = None, probeHttp = (case httpProber of Some f \<Rightarrow> f | None \<Rightarrow> (\<lambda>_. Inr False))\<rparr>"

section \<open>Detection\<close>

datatype confidence = Identified | Classified | Observed

record detection =
  detected_state :: jstr
  detected_confidence :: confidence

record state_detector =
  detector_state :: jstr
  detector_layer :: jstr
  detector_confidence :: confidence
  detects :: "device_probe \<Rightarrow> cellary_error + bool"

definition layerPriority :: "graph_layer list \<Rightarrow> (jstr \<times> nat) list" where
  "layerPriority ls = foldl (\<lambda>m (i, layer). map_set (layer_name layer) i m) [] (enumerate 0 ls)"

definition detector_priority :: "graph_layer list \<Rightarrow> state_detector \<Rightarrow> int" where
  "detector_priority ls d = (case map_of (layerPriority ls) (detector_layer d) of Some i \<Rightarrow> int i | None \<Rightarrow> 0)"

fun first_match :: "device_probe \<Rightarrow> state_detector list \<Rightarrow> cellary_error + detection option" where
  "first_match probe [] = Inr None"
| "first_match probe (d # ds) =
     (case detects d probe of
        Inl err \<Rightarrow> Inl err
      | Inr matches \<Rightarrow>
          if matches then Inr (Some \<lparr>detected_state = detector_state d, detected_confidence = detector_confidence d\<rparr>)
          else first_match probe ds)"

definition detectState ::
  "device_probe \<Rightarrow> state_detector list \<Rightarrow> graph_layer list \<Rightarrow> cellary_error + detection option" where
  "detectState probe detectors ls = first_match probe (sort_key (\<lambda>d. - detector_priority ls d) detectors)"

section \<open>The generic layer\<close>

definition GENERIC :: jstr where "GENERIC = js ''generic''"

definition absentDetector :: state_detector where
  "absentDetector = \<lparr>detector_state = js ''absent'', detector_layer = GENERIC, detector_confidence = Classified,
     detects = (\<lambda>p. Inr (\<not> probe_present p))\<rparr>"

definition mode_detector :: "string \<Rightarrow> probe_mode list \<Rightarrow> state_detector" where
  "mode_detector state modes = \<lparr>detector_state = js state, detector_layer = GENERIC, detector_confidence = Classified,
     detects = (\<lambda>p. Inr (if \<not> probe_present p then False else case mode_of p of None \<Rightarrow> False | Some m \<Rightarrow> m \<in> set modes))\<rparr>"

definition storageDetector :: state_detector where
  "storageDetector = mode_detector ''storage'' [Storage_Mode]"

definition modemDetector :: state_detector where
  "modemDetector = mode_detector ''modem'' [Modem_Usb, Http_Mode, Serial_Mode]"

definition downloadDetector :: state_detector where
  "downloadDetector = mode_detector ''download'' [Download_Mode]"

definition emergencyDetector :: state_detector where
  "emergencyDetector = mode_detector ''emergency'' [Emergency_Mode]"

definition hasInterfaceClass :: "usb_interface list option \<Rightarrow> nat \<Rightarrow> nat option \<Rightarrow> bool" where
  "hasInterfaceClass interfaces classId subClassId =
     (case interfaces of
        None \<Rightarrow> False
      | Some ifs \<Rightarrow> list_ex (\<lambda>i. bInterfaceClass i = classId \<and>
          (case subClassId of None \<Rightarrow> True | Some sub \<Rightarrow> bInterfaceSubClass i = sub)) ifs)"

definition modemProbeDetector :: state_detector where
  "modemProbeDetector = \<lparr>detector_state = js ''modem'', detector_layer = GENERIC, detector_confidence = Observed,
     detects = (\<lambda>p. Inr (if \<not> probe_present p \<or> mode_of p \<noteq> None then False
       else hasInterfaceClass (probe_interfaces p) 0x02 (Some 0x02)))\<rparr>"

definition storageProbeDetector :: state_detector where
  "storageProbeDetector = \<lparr>detector_state = js ''storage'', detector_layer = GENERIC, detector_confidence = Observed,
     detects = (\<lambda>p. Inr (if \<not> probe_present p \<or> mode_of p \<noteq> None then False
       else hasInterfaceClass (probe_interfaces p) 0x08 None))\<rparr>"

definition GENERIC_DETECTORS :: "state_detector list" where
  "GENERIC_DETECTORS =
     [absentDetector, storageDetector, modemDetector, downloadDetector, emergencyDetector,
      modemProbeDetector, storageProbeDetector]"

definition generic_node :: "string \<Rightarrow> string \<Rightarrow> state_severity \<Rightarrow> bool \<Rightarrow> string list \<Rightarrow> state_node" where
  "generic_node sid label sev final ts = \<lparr>node_id = js sid, node_label = js label, severity = sev, refines = None,
     terminal = final, tags = map js ts\<rparr>"

definition generic_edge :: "string \<Rightarrow> string \<Rightarrow> string \<Rightarrow> nat \<Rightarrow> bool \<Rightarrow> bool \<Rightarrow> state_edge" where
  "generic_edge src dst label c back man = \<lparr>edge_from = js src, edge_to = js dst, edge_label = js label, edge_cost = c,
     reversible = back, manual = man\<rparr>"

definition GENERIC_LAYER :: graph_layer where
  "GENERIC_LAYER = \<lparr>layer_name = GENERIC,
     layer_nodes =
       [generic_node ''absent'' ''Not connected'' Normal False [],
        generic_node ''storage'' ''Storage / CD-ROM mode'' Degraded False [''switchable''],
        generic_node ''modem'' ''Modem mode'' Normal True [''usable''],
        generic_node ''download'' ''Firmware download mode'' Degraded False [''flash''],
        generic_node ''emergency'' ''Emergency / BootROM mode'' Critical False [''recovery'']],
     layer_edges =
       [generic_edge ''absent'' ''storage'' ''Device plugged in (storage mode)'' 100 True True,
        generic_edge ''absent'' ''modem'' ''Device plugged in (modem mode)'' 100 True True,
        generic_edge ''storage'' ''modem'' ''USB mode switch'' 5 False False,
        generic_edge ''modem'' ''absent'' ''Device unplugged'' 100 True True,
        generic_edge ''storage'' ''absent'' ''Device unplugged'' 100 True True,
        generic_edge ''download'' ''absent'' ''Device unplugged'' 100 True True,
        generic_edge ''emergency'' ''absent'' ''Device unplugged'' 100 True True]\<rparr>"

text \<open>The graph of the generic layer alone.\<close>

definition generic_graph :: composed_graph where
  "generic_graph = projr (compose [GENERIC_LAYER])"

end
