(* ===== verification/Lifecycle_Path.thy ===== *)
theory Lifecycle_Path imports Lifecycle_Search Lifecycle_Detector begin

text \<open>
  What \<open>findPath\<close> returns (\<^verbatim>\<open>packages/core/src/lifecycle/graph.ts\<close>): a cheapest walk to the target, or to
  a refinement of it when the target itself cannot be reached, and nothing only when there is no such walk.
\<close>

section \<open>The best refinement\<close>

lemma keys_map_of: "x \<in> set (map fst m) \<longleftrightarrow> map_of m x \<noteq> None"
  by (simp add: map_of_eq_None_iff)

lemma dist_less_not_less: "\<not> dist_less a b \<Longrightarrow> \<not> dist_less b c \<Longrightarrow> \<not> dist_less a c"
  by (cases a; cases b; cases c) auto

lemma best_refinement_least:
  assumes "\<And>x. x \<in> set xs \<Longrightarrow> \<exists>p. reconstructPath pr x = Some p \<and> totalCost p = c x"
  shows "\<exists>r. best_refinement g t pr best xs = Some r \<and>
    (r = best \<or> (\<exists>x\<in>set xs. isRefinementOf g x t \<and> r = Some (x, c x))) \<and>
    (\<forall>x\<in>set xs. isRefinementOf g x t \<longrightarrow> \<not> dist_less (Some (c x)) (map_option snd r)) \<and>
    \<not> dist_less (map_option snd best) (map_option snd r)"
  using assms
proof (induction xs arbitrary: best)
  case (Cons x xs)
  define b where "b = (if isRefinementOf g x t \<and> dist_less (Some (c x)) (map_option snd best) then Some (x, c x) else best)"
  obtain p where "reconstructPath pr x = Some p" "totalCost p = c x" using Cons.prems[of x] by auto
  then have step: "best_refinement g t pr best (x # xs) = best_refinement g t pr b xs"
    by (simp add: b_def del: dist_less_Some)
  obtain r where r: "best_refinement g t pr b xs = Some r"
      "r = b \<or> (\<exists>y\<in>set xs. isRefinementOf g y t \<and> r = Some (y, c y))"
      "\<forall>y\<in>set xs. isRefinementOf g y t \<longrightarrow> \<not> dist_less (Some (c y)) (map_option snd r)"
      "\<not> dist_less (map_option snd b) (map_option snd r)"
    using Cons.IH[of b] Cons.prems by auto
  have "\<not> dist_less (map_option snd best) (map_option snd b)"
    "isRefinementOf g x t \<Longrightarrow> \<not> dist_less (Some (c x)) (map_option snd b)"
    by (cases best; cases "c x < snd (the best)"; simp add: b_def)+
  then have "\<not> dist_less (map_option snd best) (map_option snd r)"
    "isRefinementOf g x t \<Longrightarrow> \<not> dist_less (Some (c x)) (map_option snd r)"
    using r(4) dist_less_not_less by blast+
  moreover have "r = best \<or> (\<exists>y\<in>set (x # xs). isRefinementOf g y t \<and> r = Some (y, c y))"
    using r(2) by (auto simp: b_def split: if_splits)
  ultimately show ?case unfolding step using r(1,3) by (simp del: dist_less_Some) 
qed auto

section \<open>The result\<close>

text \<open>A cheapest walk to one of the states of a set.\<close>

definition cheapest :: "composed_graph \<Rightarrow> bool \<Rightarrow> jstr \<Rightarrow> (jstr \<Rightarrow> bool) \<Rightarrow> state_edge list \<Rightarrow> bool" where
  "cheapest g inc from T es \<longleftrightarrow>
     (\<exists>t. T t \<and> walk g inc from es t) \<and> (\<forall>t fs. T t \<longrightarrow> walk g inc from fs t \<longrightarrow> cost es \<le> cost fs)"

lemma end_to:
  assumes "search_end g inc from to s" "from \<noteq> to" "dist s to = Some d"
  shows "to \<in> visited s \<and> latest to s \<and> explored g inc (visited s - {to}) s"
  using assms by (auto simp: search_end_def search_inv_def ordered_def)

lemma end_open:
  assumes "search_end g inc from to s" "dist s to = None"
  shows "explored g inc (visited s) s \<and> visited s = dom (dist s)"
  using assms by (auto simp: search_end_def search_inv_def ordered_def)

lemma reached_to:
  assumes "search_end g inc from to s" "dist s to = Some d" "from \<noteq> to" "walk g inc from fs to"
  shows "d \<le> cost fs"
proof -
  have s: "explored g inc (visited s - {to}) s" "to \<in> visited s" using end_to[OF assms(1,3,2)] by auto
  have "\<not> dist_less (dist s u) (dist s to)" if "u \<notin> visited s" for u
    using that s(2) assms(1) by (auto simp: search_end_def search_inv_def ordered_def)
  moreover have "dist s from = Some 0" using assms(1) by (simp add: search_end_def search_inv_def recorded_def)
  ultimately show ?thesis using settled_least[OF s(1) _ assms(4)] assms(2) by force
qed

lemma reached_all:
  assumes "search_end g inc from to s" "dist s to = None" "walk g inc from fs v"
  shows "\<exists>d. dist s v = Some d \<and> d \<le> cost fs"
proof -
  have s: "explored g inc (visited s - {v}) s" "\<And>u. u \<notin> visited s \<Longrightarrow> dist s u = None"
    using end_open[OF assms(1,2)] by (auto simp: explored_def)
  have "dist s from = Some 0" using assms(1) by (simp add: search_end_def search_inv_def recorded_def)
  then show ?thesis using settled_least[OF s(1) _ assms(3)] s(2) by force
qed

lemma search_end_recorded: "search_end g inc from to s \<Longrightarrow> recorded g inc from s"
  by (simp add: search_end_def search_inv_def)

lemma predecessor_dist:
  assumes "search_end g inc from to s" "t \<noteq> from"
  shows "map_of (prev s) t = None \<longleftrightarrow> dist s t = None"
proof
  assume unknown: "dist s t = None"
  show "map_of (prev s) t = None"
  proof (rule ccontr)
    assume "map_of (prev s) t \<noteq> None"
    then obtain n e where "map_of (prev s) t = Some (n, e)" by auto
    then have "n \<in> visited s" "dist s t = map_option (\<lambda>d. d + edge_cost e) (dist s n)"
      using search_end_recorded[OF assms(1)] unfolding recorded_def by blast+
    moreover have "visited s \<subseteq> dom (dist s)" using assms(1) by (simp add: search_end_def search_inv_def ordered_def)
    ultimately show False using unknown by auto
  qed
qed (use search_end_recorded[OF assms(1)] assms(2) in \<open>auto simp: recorded_def\<close>)

lemma findPath_searching:
  assumes "has_node g from" "has_node g to" "\<not> isRefinementOf g from to" "search_end g inc from to s"
    and "search_loop g inc to (start_search from) = Some s"
  shows "case dist s to of
      Some d \<Rightarrow> \<exists>es. findPath g inc from to = Some (Some \<lparr>path_edges = es, totalCost = d, hasManualStep = list_ex manual es\<rparr>)
        \<and> walk g inc from es to \<and> cost es = d
    | None \<Rightarrow>
        (\<forall>t. isRefinementOf g t to \<longrightarrow> dist s t = None) \<and> findPath g inc from to = Some None \<or>
        (\<exists>t d es. isRefinementOf g t to \<and> dist s t = Some d \<and> (\<forall>u d'. isRefinementOf g u to \<longrightarrow> dist s u = Some d' \<longrightarrow> d \<le> d')
          \<and> findPath g inc from to = Some (Some \<lparr>path_edges = es, totalCost = d, hasManualStep = list_ex manual es\<rparr>)
          \<and> walk g inc from es t \<and> cost es = d)"
proof -
  have ft: "from \<noteq> to" using assms(3) by (auto simp: isRefinementOf_def)
  note rec = search_end_recorded[OF assms(4)]
  note keys = predecessor_dist[OF assms(4)]
  have start: "findPath g inc from to = (if map_of (prev s) to = None then
            Option.bind (findReachableRefinement g to (prev s)) (\<lambda>reachable.
              case reachable of None \<Rightarrow> Some None | Some r \<Rightarrow> map_option Some (reconstructPath (prev s) r))
          else map_option Some (reconstructPath (prev s) to))"
    using assms(1,2,3,5) ft by (simp add: findPath_def)
  show ?thesis
  proof (cases "dist s to")
    case (Some d)
    then show ?thesis using recorded_path[OF rec Some] start keys[of to] ft by auto
  next
    case None
    define c where "c = (\<lambda>t. the (dist s t))"
    have entries: "\<exists>p. reconstructPath (prev s) x = Some p \<and> totalCost p = c x" if "x \<in> set (map fst (prev s))" for x
    proof -
      have "x \<noteq> from" "map_of (prev s) x \<noteq> None" using that rec unfolding keys_map_of recorded_def by auto
      then obtain d where "dist s x = Some d" using keys[of x] by auto
      then show ?thesis using recorded_path[OF rec] by (fastforce simp: c_def)
    qed
    have known: "x \<in> set (map fst (prev s))" if "isRefinementOf g x to" "dist s x \<noteq> None" for x
      using that assms(3) keys[of x] unfolding keys_map_of by metis
    obtain r where r: "best_refinement g to (prev s) None (map fst (prev s)) = Some r"
        "r = None \<or> (\<exists>x\<in>set (map fst (prev s)). isRefinementOf g x to \<and> r = Some (x, c x))"
        "\<forall>x\<in>set (map fst (prev s)). isRefinementOf g x to \<longrightarrow> \<not> dist_less (Some (c x)) (map_option snd r)"
      using best_refinement_least[of "map fst (prev s)" "prev s" c g to None] entries by blast
    have reach: "findPath g inc from to = (case map_option fst r of None \<Rightarrow> Some None | Some x \<Rightarrow> map_option Some (reconstructPath (prev s) x))"
      using start None keys[of to] ft r(1) by (simp add: findReachableRefinement_def)
    show ?thesis
    proof (cases r)
      case r_none: None
      then have "\<forall>t. isRefinementOf g t to \<longrightarrow> dist s t = None" using r(3) known by fastforce
      then show ?thesis using None reach r_none by simp
    next
      case (Some y)
      then obtain x where x: "r = Some (x, c x)" "x \<in> set (map fst (prev s))" "isRefinementOf g x to" using r(2) by auto
      have "x \<noteq> from" using x(2) rec unfolding keys_map_of recorded_def by metis
      then have "dist s x = Some (c x)" using keys[of x] x(2) unfolding keys_map_of c_def by auto
      moreover obtain es where "reconstructPath (prev s) x = Some \<lparr>path_edges = es, totalCost = c x, hasManualStep = list_ex manual es\<rparr>"
          "walk g inc from es x" "cost es = c x"
        using recorded_path[OF rec calculation] by auto
      moreover have "c x \<le> d'" if "isRefinementOf g u to" "dist s u = Some d'" for u d'
        using r(3) known[OF that(1)] that x(1) by (fastforce simp: c_def)
      ultimately show ?thesis using None reach x(1,3) by auto
    qed
  qed
qed

lemma findPath_cases:
  obtains (unknown) "\<not> has_node g from \<or> \<not> has_node g to" "findPath g inc from to = Some None"
  | (here) "has_node g from" "has_node g to" "isRefinementOf g from to" "findPath g inc from to = Some (Some empty_path)"
  | (search) s where "has_node g from" "has_node g to" "\<not> isRefinementOf g from to"
      "search_end g inc from to s" "search_loop g inc to (start_search from) = Some s"
proof -
  obtain s where "search_loop g inc to (start_search from) = Some s" "search_end g inc from to s"
    using search_started by blast
  note s = this
  show ?thesis
  proof (cases "has_node g from \<and> has_node g to")
    case True
    then show ?thesis
      using that(2,3) s by (cases "isRefinementOf g from to") (auto simp: findPath_def)
  next
    case False
    then show ?thesis using that(1) by (simp add: findPath_def)
  qed
qed

lemma walk_manual: "walk g inc s es t \<Longrightarrow> inc \<or> \<not> list_ex manual es"
  by (induction es arbitrary: s) (auto simp: usable_def)

lemma findPath_result:
  "\<exists>r. findPath g inc from to = Some r \<and>
     (case r of
        None \<Rightarrow> \<not> has_node g from \<or> \<not> has_node g to \<or> (\<nexists>es t. isRefinementOf g t to \<and> walk g inc from es t)
      | Some p \<Rightarrow> has_node g from \<and> has_node g to \<and>
          (\<exists>t. isRefinementOf g t to \<and> walk g inc from (path_edges p) t) \<and>
          totalCost p = cost (path_edges p) \<and> hasManualStep p = list_ex manual (path_edges p) \<and>
          (inc \<or> \<not> hasManualStep p))"
proof (cases rule: findPath_cases[of g "from" to inc])
  case here
  then show ?thesis by (auto simp: empty_path_def intro!: exI[of _ "from"])
next
  case (search s)
  show ?thesis
  proof (cases "dist s to")
    case (Some d)
    have "isRefinementOf g to to" by (simp add: isRefinementOf_def)
    then show ?thesis using findPath_searching[OF search] Some search(1,2) by (auto dest: walk_manual)
  next
    case None
    then have unreachable: "\<nexists>es t. isRefinementOf g t to \<and> walk g inc from es t"
      if "\<forall>t. isRefinementOf g t to \<longrightarrow> dist s t = None"
      using that reached_all[OF search(4)] by fastforce
    show ?thesis
      using findPath_searching[OF search] None search(1,2) unreachable by (auto dest: walk_manual)
  qed
qed auto

lemma findPath_least:
  assumes "findPath g inc from to = Some (Some p)"
  shows "if isRefinementOf g from to then path_edges p = []
    else if \<exists>es. walk g inc from es to then cheapest g inc from (\<lambda>t. t = to) (path_edges p)
    else cheapest g inc from (\<lambda>t. isRefinementOf g t to) (path_edges p)"
proof (cases rule: findPath_cases[of g "from" to inc])
  case (search s)
  then have "from \<noteq> to" by (auto simp: isRefinementOf_def)
  show ?thesis
  proof (cases "dist s to")
    case (Some d)
    then show ?thesis
      using findPath_searching[OF search] assms search(3) reached_to[OF search(4) Some \<open>from \<noteq> to\<close>]
      by (auto simp: cheapest_def)
  next
    case None
    then have "\<nexists>es. walk g inc from es to" using reached_all[OF search(4)] by fastforce
    then show ?thesis
      using findPath_searching[OF search] None assms search(3) reached_all[OF search(4) None]
      by (fastforce simp: cheapest_def)
  qed
qed (use assms in \<open>auto simp: empty_path_def\<close>)


text \<open>C29: \<open>findPath\<close> always returns, and between known states its result is what the graph allows. No
  path is returned only when no state that refines the target can be reached. A path that is returned is a
  walk over edges of the graph, without manual steps unless they were asked for, to the target or one of its
  refinements, with its cost and its manual flag summed up correctly.\<close>

theorem findPath_sound_complete:
  "\<exists>r. findPath g inc from to = Some r \<and>
     (case r of
        None \<Rightarrow> \<not> has_node g from \<or> \<not> has_node g to \<or> (\<nexists>es t. isRefinementOf g t to \<and> walk g inc from es t)
      | Some p \<Rightarrow> has_node g from \<and> has_node g to \<and>
          (\<exists>t. isRefinementOf g t to \<and> walk g inc from (path_edges p) t) \<and>
          totalCost p = cost (path_edges p) \<and> hasManualStep p = list_ex manual (path_edges p) \<and>
          (inc \<or> \<not> hasManualStep p))"
  by (rule findPath_result)

lemma mode_switch_path:
  "findPath generic_graph False (js ''storage'') (js ''modem'') =
    Some (Some \<lparr>path_edges = [generic_edge ''storage'' ''modem'' ''USB mode switch'' 5 False False], totalCost = 5,
      hasManualStep = False\<rparr>)"
  by code_simp

lemma findPath_sound_complete_witness:
  "\<exists>t. isRefinementOf generic_graph t (js ''modem'') \<and>
    walk generic_graph False (js ''storage'') [generic_edge ''storage'' ''modem'' ''USB mode switch'' 5 False False] t"
  using findPath_sound_complete[of generic_graph False "js ''storage''" "js ''modem''"] mode_switch_path by auto

text \<open>C14: The path is a cheapest one. When the start already refines the target it is empty; when the
  target can be reached no walk to the target costs less; otherwise no walk to any refinement of the
  target costs less.\<close>

theorem findPath_cheapest:
  assumes "findPath g inc from to = Some (Some p)"
  shows "if isRefinementOf g from to then path_edges p = []
    else if \<exists>es. walk g inc from es to then cheapest g inc from (\<lambda>t. t = to) (path_edges p)
    else cheapest g inc from (\<lambda>t. isRefinementOf g t to) (path_edges p)"
  using assms by (rule findPath_least)

lemma findPath_cheapest_witness:
  "cheapest generic_graph False (js ''storage'') (\<lambda>t. t = js ''modem'')
    [generic_edge ''storage'' ''modem'' ''USB mode switch'' 5 False False]"
proof -
  have "walk generic_graph False (js ''storage'') [generic_edge ''storage'' ''modem'' ''USB mode switch'' 5 False False] (js ''modem'')"
    by code_simp
  then have ex: "\<exists>es. walk generic_graph False (js ''storage'') es (js ''modem'')" by blast
  moreover have "\<not> isRefinementOf generic_graph (js ''storage'') (js ''modem'')" by code_simp
  ultimately show ?thesis using findPath_cheapest[OF mode_switch_path] by simp
qed

end
