(* ===== verification/Lifecycle_Navigator.thy ===== *)
theory Lifecycle_Navigator imports Lifecycle_Path Lifecycle_Detector begin

text \<open>
  \<^verbatim>\<open>packages/core/src/lifecycle/navigator.ts\<close> and \<^verbatim>\<open>device-lifecycle.ts\<close>. The device and everything else
  outside the program is a world of type \<open>'w\<close>: a probe factory and an action are functions that read and
  change it and may throw. A run of \<open>navigate\<close> gives its progress events and the executed transitions in
  order, its result or the error it throws, and the world it leaves. The outer option of the model is
  \<open>None\<close> only where \<open>findPath\<close> would not return.
\<close>

section \<open>Types\<close>

datatype 'w probe_source = Static_Probe device_probe | Probe_Factory "'w \<Rightarrow> (cellary_error + device_probe) \<times> 'w"

record transition_context =
  context_vendorId :: nat
  context_productId :: nat

record 'w transition_action =
  action_key :: jstr
  action_execute :: "transition_context \<Rightarrow> 'w \<Rightarrow> (cellary_error + unit) \<times> 'w"

datatype navigation_event =
    Detecting
  | Planning jstr
  | Transitioning jstr state_edge nat nat
  | Executed state_edge
  | Verifying jstr

datatype navigation_result =
    Navigated (final_state: jstr) (final_confidence: confidence) (steps_executed: nat)
  | Not_Navigated (nav_error: jstr) (last_state: "jstr option")

type_synonym 'w navigation_run = "navigation_event list \<times> (cellary_error + navigation_result) \<times> 'w"

section \<open>Navigation\<close>

definition getProbe :: "'w probe_source \<Rightarrow> 'w \<Rightarrow> (cellary_error + device_probe) \<times> 'w" where
  "getProbe src w = (case src of Static_Probe p \<Rightarrow> (Inr p, w) | Probe_Factory f \<Rightarrow> f w)"

definition action_map :: "'w transition_action list \<Rightarrow> (jstr \<times> 'w transition_action) list" where
  "action_map actions = foldl (\<lambda>m a. map_set (action_key a) a m) [] actions"

text \<open>The loop of \<open>isAtTarget\<close>, the same as the one of \<open>isRefinementOf\<close>.\<close>

definition isAtTarget :: "composed_graph \<Rightarrow> jstr \<Rightarrow> jstr \<Rightarrow> bool" where
  "isAtTarget g currentState targetState \<longleftrightarrow>
     (if currentState = targetState then True else refines_from g targetState currentState [])"

definition probeToContext :: "device_probe \<Rightarrow> transition_context" where
  "probeToContext p = \<lparr>context_vendorId = probe_vendorId p, context_productId = probe_productId p\<rparr>"

text \<open>One round: either the run is over, or a transition has been executed.\<close>

datatype navigation_step = Finished "cellary_error + navigation_result" | Continue

definition quoted :: "jstr \<Rightarrow> jstr" where
  "quoted s = [39] @ s @ [39]"

definition no_path_error :: "bool \<Rightarrow> jstr \<Rightarrow> jstr \<Rightarrow> jstr" where
  "no_path_error inc cur tgt = js ''No path from '' @ quoted cur @ js '' to '' @ quoted tgt @ js ''. '' @
     (if inc then js ''No transitions exist between these states.''
      else js ''Try with includeManual: true if manual steps are acceptable.'')"

definition no_action_error :: "jstr \<Rightarrow> jstr" where
  "no_action_error key = js ''No action registered for transition '' @ quoted key @
     js ''. The lifecycle definition is missing an action for this edge.''"

definition manual_error :: "jstr \<Rightarrow> state_edge \<Rightarrow> jstr" where
  "manual_error key e = js ''Transition '' @ quoted key @ js '' requires manual intervention: '' @ edge_label e"

definition undetected_error :: jstr where
  "undetected_error = js ''Could not detect device state. Device may be disconnected or unrecognized.''"

definition max_steps_error :: "nat \<Rightarrow> jstr" where
  "max_steps_error n = js ''Navigation exceeded maximum steps ('' @ js_toString 10 n @ js ''). Possible loop detected.''"

definition execute_edge ::
  "'w transition_action list \<Rightarrow> device_probe \<Rightarrow> jstr \<Rightarrow> path_result \<Rightarrow> state_edge \<Rightarrow> nat \<Rightarrow> 'w \<Rightarrow>
    navigation_event list \<times> navigation_step \<times> 'w" where
  "execute_edge actions probe currentState path edge stepsExecuted w =
     (let edgeKey = edge_key edge
      in case map_of (action_map actions) edgeKey of
           None \<Rightarrow> ([], Finished (Inr (Not_Navigated (no_action_error edgeKey) (Some currentState))), w)
         | Some action \<Rightarrow>
             if manual edge then ([], Finished (Inr (Not_Navigated (manual_error edgeKey edge) (Some currentState))), w)
             else
               (let transitioning = Transitioning currentState edge (stepsExecuted + 1) (length (path_edges path) + stepsExecuted);
                    (r, w') = action_execute action (probeToContext probe) w
                in case r of
                     Inl err \<Rightarrow> ([transitioning, Executed edge], Finished (Inl err), w')
                   | Inr _ \<Rightarrow> ([transitioning, Executed edge, Verifying (edge_to edge)], Continue, w')))"

definition plan_and_execute ::
  "composed_graph \<Rightarrow> 'w transition_action list \<Rightarrow> jstr \<Rightarrow> bool \<Rightarrow> device_probe \<Rightarrow> detection \<Rightarrow> nat \<Rightarrow> 'w \<Rightarrow>
    (navigation_event list \<times> navigation_step \<times> 'w) option" where
  "plan_and_execute g actions target inc probe d stepsExecuted w =
     (let cur = detected_state d;
          arrived = Finished (Inr (Navigated cur (detected_confidence d) stepsExecuted))
      in if isAtTarget g cur target then Some ([], arrived, w)
         else
           Option.bind (findPath g inc cur target) (\<lambda>found.
             case found of
               None \<Rightarrow> Some ([Planning cur], Finished (Inr (Not_Navigated (no_path_error inc cur target) (Some cur))), w)
             | Some path \<Rightarrow>
                 (case path_edges path of
                    [] \<Rightarrow> Some ([Planning cur], arrived, w)
                  | edge # _ \<Rightarrow>
                      (let (es, r, w') = execute_edge actions probe cur path edge stepsExecuted w
                       in Some (Planning cur # es, r, w')))))"

definition navigate_round ::
  "composed_graph \<Rightarrow> state_detector list \<Rightarrow> 'w transition_action list \<Rightarrow> 'w probe_source \<Rightarrow> jstr \<Rightarrow> bool \<Rightarrow>
    nat \<Rightarrow> 'w \<Rightarrow> (navigation_event list \<times> navigation_step \<times> 'w) option" where
  "navigate_round g detectors actions src target inc stepsExecuted w =
     (case getProbe src w of
        (Inl err, w') \<Rightarrow> Some ([Detecting], Finished (Inl err), w')
      | (Inr probe, w') \<Rightarrow>
          (case detectState probe detectors (layers g) of
             Inl err \<Rightarrow> Some ([Detecting], Finished (Inl err), w')
           | Inr None \<Rightarrow> Some ([Detecting], Finished (Inr (Not_Navigated undetected_error None)), w')
           | Inr (Some d) \<Rightarrow>
               map_option (\<lambda>(es, r, w''). (Detecting # es, r, w''))
                 (plan_and_execute g actions target inc probe d stepsExecuted w')))"

definition give_up ::
  "composed_graph \<Rightarrow> state_detector list \<Rightarrow> 'w probe_source \<Rightarrow> nat \<Rightarrow> 'w \<Rightarrow> 'w navigation_run" where
  "give_up g detectors src maxSteps w =
     (case getProbe src w of
        (Inl err, w') \<Rightarrow> ([], Inl err, w')
      | (Inr probe, w') \<Rightarrow>
          (case detectState probe detectors (layers g) of
             Inl err \<Rightarrow> ([], Inl err, w')
           | Inr d \<Rightarrow> ([], Inr (Not_Navigated (max_steps_error maxSteps) (map_option detected_state d)), w')))"

text \<open>The loop, with the steps that may still be executed.\<close>

fun navigate_loop ::
  "composed_graph \<Rightarrow> state_detector list \<Rightarrow> 'w transition_action list \<Rightarrow> 'w probe_source \<Rightarrow> jstr \<Rightarrow> bool \<Rightarrow>
    nat \<Rightarrow> nat \<Rightarrow> 'w \<Rightarrow> 'w navigation_run option" where
  "navigate_loop g detectors actions src target inc maxSteps 0 w = Some (give_up g detectors src maxSteps w)"
| "navigate_loop g detectors actions src target inc maxSteps (Suc n) w =
     Option.bind (navigate_round g detectors actions src target inc (maxSteps - Suc n) w) (\<lambda>(es, r, w').
       case r of
         Finished res \<Rightarrow> Some (es, res, w')
       | Continue \<Rightarrow>
           map_option (\<lambda>(es', res, w''). (es @ es', res, w''))
             (navigate_loop g detectors actions src target inc maxSteps n w'))"

definition navigate ::
  "composed_graph \<Rightarrow> state_detector list \<Rightarrow> 'w transition_action list \<Rightarrow> 'w probe_source \<Rightarrow> jstr \<Rightarrow> bool option \<Rightarrow>
    nat option \<Rightarrow> 'w \<Rightarrow> 'w navigation_run option" where
  "navigate g detectors actions src target includeManual maxSteps w =
     (let n = (case maxSteps of Some n \<Rightarrow> n | None \<Rightarrow> 10)
      in navigate_loop g detectors actions src target (includeManual = Some True) n n w)"

section \<open>A device\<close>

record 'w device_lifecycle =
  lifecycle_graph :: composed_graph
  lifecycle_detectors :: "state_detector list"
  lifecycle_actions :: "'w transition_action list"
  lifecycle_source :: "'w probe_source"

record 'w lifecycle_definition =
  definition_layers :: "graph_layer list"
  definition_detectors :: "state_detector list"
  definition_actions :: "'w transition_action list"

definition new_lifecycle ::
  "'w lifecycle_definition \<Rightarrow> 'w probe_source \<Rightarrow> graph_layer list \<Rightarrow> state_detector list \<Rightarrow>
    'w transition_action list \<Rightarrow> cellary_error + 'w device_lifecycle" where
  "new_lifecycle def src extraLayers extraDetectors extraActions =
     (case compose (definition_layers def @ extraLayers) of
        Inl err \<Rightarrow> Inl err
      | Inr g \<Rightarrow> Inr
          \<lparr>lifecycle_graph = g, lifecycle_detectors = definition_detectors def @ extraDetectors,
           lifecycle_actions = map snd (action_map (definition_actions def @ extraActions)), lifecycle_source = src\<rparr>)"

definition detect_device :: "'w device_lifecycle \<Rightarrow> 'w \<Rightarrow> (cellary_error + detection option) \<times> 'w" where
  "detect_device lc w =
     (case getProbe (lifecycle_source lc) w of
        (Inl err, w') \<Rightarrow> (Inl err, w')
      | (Inr probe, w') \<Rightarrow> (detectState probe (lifecycle_detectors lc) (layers (lifecycle_graph lc)), w'))"

definition navigateTo ::
  "'w device_lifecycle \<Rightarrow> jstr \<Rightarrow> bool option \<Rightarrow> nat option \<Rightarrow> 'w \<Rightarrow> 'w navigation_run option" where
  "navigateTo lc target includeManual maxSteps w =
     navigate (lifecycle_graph lc) (lifecycle_detectors lc) (lifecycle_actions lc) (lifecycle_source lc)
       target includeManual maxSteps w"

definition lifecycle_states :: "'w device_lifecycle \<Rightarrow> jstr list" where
  "lifecycle_states lc = map fst (nodes (lifecycle_graph lc))"

definition terminalStates :: "'w device_lifecycle \<Rightarrow> jstr list" where
  "terminalStates lc = map fst (filter (\<lambda>n. terminal (snd n)) (nodes (lifecycle_graph lc)))"

definition registeredActions :: "'w device_lifecycle \<Rightarrow> jstr list" where
  "registeredActions lc = map action_key (lifecycle_actions lc)"

end
