(* ===== verification/Lifecycle_Compose.thy ===== *)
theory Lifecycle_Compose imports Lifecycle_Detector begin

text \<open>
  What \<open>compose\<close> builds from the layers (\<^verbatim>\<open>packages/core/src/lifecycle/graph.ts\<close>), and which detector
  \<open>detectState\<close> follows (\<^verbatim>\<open>detector.ts\<close>).
\<close>

section \<open>Composition\<close>

abbreviation all_nodes :: "graph_layer list \<Rightarrow> state_node list" where
  "all_nodes ls \<equiv> concat (map layer_nodes ls)"

abbreviation all_edges :: "graph_layer list \<Rightarrow> state_edge list" where
  "all_edges ls \<equiv> concat (map layer_edges ls)"

lemma add_node_fold:
  "foldl add_node (ns, adj) xs = (ns', adj') \<Longrightarrow> \<forall>s. map_of adj s \<in> {None, Some []} \<Longrightarrow>
    ns' = map_fill node_id xs ns \<and> (\<forall>s. map_of adj' s \<in> {None, Some []})"
  by (induction xs arbitrary: ns adj) (auto simp: add_node_def map_fill_def map_of_map_set)

lemma add_layer_fold:
  "foldl add_layer (ns, adj, es) ls = (ns', adj', es') \<Longrightarrow> \<forall>s. map_of adj s \<in> {None, Some []} \<Longrightarrow>
    ns' = map_fill node_id (all_nodes ls) ns \<and> es' = map_fill edge_key (all_edges ls) es \<and>
    (\<forall>s. map_of adj' s \<in> {None, Some []})"
proof (induction ls arbitrary: ns adj es)
  case (Cons l ls)
  obtain ns1 adj1 where 1: "foldl add_node (ns, adj) (layer_nodes l) = (ns1, adj1)" by fastforce
  then have "add_layer (ns, adj, es) l = (ns1, adj1, map_fill edge_key (layer_edges l) es)"
    by (simp add: add_layer_def map_fill_def)
  then show ?case
    using Cons.IH[of ns1 adj1 "map_fill edge_key (layer_edges l) es"] Cons.prems add_node_fold[OF 1 Cons.prems(2)]
    by (simp add: map_fill_append)
qed (simp add: map_fill_def)

lemma add_adjacent_fold:
  assumes "\<forall>s. map_of adj s \<in> {None, Some []}"
  shows "(case map_of (foldl add_adjacent adj es) s of None \<Rightarrow> [] | Some xs \<Rightarrow> xs) = filter (\<lambda>e. edge_from e = s) es"
proof (induction es rule: rev_induct)
  case Nil
  then show ?case using assms by (auto split: option.splits dest: spec[of _ s])
qed (auto simp: add_adjacent_def map_of_map_set)

lemma first_error_None: "first_error f xs = None \<longleftrightarrow> (\<forall>x\<in>set xs. f x = None)"
  by (induction xs) (auto split: option.splits)

lemma compose_eq:
  obtains adj where
    "compose ls =
       (case first_error (check_refines (map_fill node_id (all_nodes ls) [])) (map_fill node_id (all_nodes ls) []) of
          Some err \<Rightarrow> Inl err
        | None \<Rightarrow>
            (case first_error (check_edge (map_fill node_id (all_nodes ls) [])) (map snd (map_fill edge_key (all_edges ls) [])) of
               Some err \<Rightarrow> Inl err
             | None \<Rightarrow> Inr \<lparr>layers = ls, nodes = map_fill node_id (all_nodes ls) [],
                 adjacency = foldl add_adjacent adj (map snd (map_fill edge_key (all_edges ls) []))\<rparr>))"
    "\<forall>s. map_of adj s \<in> {None, Some []}"
proof -
  obtain ns adj es where f: "foldl add_layer ([], [], []) ls = (ns, adj, es)" using prod_cases3 by blast
  then show thesis using add_layer_fold[OF f] that[of adj] by (simp add: compose_def)
qed

text \<open>The states and transitions that the layers define, the later layers first.\<close>

definition known_state :: "graph_layer list \<Rightarrow> jstr \<Rightarrow> bool" where
  "known_state ls s \<longleftrightarrow> last_with node_id s (all_nodes ls) \<noteq> None"

definition dangling_refines :: "graph_layer list \<Rightarrow> jstr \<Rightarrow> bool" where
  "dangling_refines ls s \<longleftrightarrow>
     (\<exists>n r. last_with node_id s (all_nodes ls) = Some n \<and> refines n = Some r \<and> \<not> known_state ls r)"

definition dangling_edge :: "graph_layer list \<Rightarrow> state_edge \<Rightarrow> bool" where
  "dangling_edge ls e \<longleftrightarrow> last_with edge_key (edge_key e) (all_edges ls) = Some e \<and>
     \<not> (known_state ls (edge_from e) \<and> known_state ls (edge_to e))"

lemma check_refines_None:
  "(\<forall>x\<in>set (map_fill node_id (all_nodes ls) []). check_refines (map_fill node_id (all_nodes ls) []) x = None)
    \<longleftrightarrow> (\<nexists>s. dangling_refines ls s)"
  by (force simp: set_map_fill check_refines_def map_of_map_fill dangling_refines_def known_state_def split: option.splits)

lemma final_edges: "set (map snd (map_fill edge_key (all_edges ls) [])) = {e. last_with edge_key (edge_key e) (all_edges ls) = Some e}"
proof -
  have "last_with edge_key (edge_key e) (all_edges ls) = Some e" if "last_with edge_key k (all_edges ls) = Some e" for k e
    using that last_with_key[OF that] by simp
  then show ?thesis by (force simp: set_map_fill)
qed

lemma check_edge_None:
  "(\<forall>x\<in>set (map snd (map_fill edge_key (all_edges ls) [])). check_edge (map_fill node_id (all_nodes ls) []) x = None)
    \<longleftrightarrow> (\<nexists>e. dangling_edge ls e)"
  unfolding final_edges by (auto simp: check_edge_def Let_def map_of_map_fill dangling_edge_def known_state_def)

lemma compose_cases:
  "case compose ls of
     Inl _ \<Rightarrow> (\<exists>s. dangling_refines ls s) \<or> (\<exists>e. dangling_edge ls e)
   | Inr g \<Rightarrow> (\<nexists>s. dangling_refines ls s) \<and> (\<nexists>e. dangling_edge ls e) \<and> layers g = ls \<and>
       (\<forall>s. map_of (nodes g) s = last_with node_id s (all_nodes ls)) \<and>
       (\<forall>s. adjacent g s = filter (\<lambda>e. edge_from e = s) (map snd (map_fill edge_key (all_edges ls) [])))"
proof -
  obtain adj where c: "compose ls =
       (case first_error (check_refines (map_fill node_id (all_nodes ls) [])) (map_fill node_id (all_nodes ls) []) of
          Some err \<Rightarrow> Inl err
        | None \<Rightarrow>
            (case first_error (check_edge (map_fill node_id (all_nodes ls) [])) (map snd (map_fill edge_key (all_edges ls) [])) of
               Some err \<Rightarrow> Inl err
             | None \<Rightarrow> Inr \<lparr>layers = ls, nodes = map_fill node_id (all_nodes ls) [],
                 adjacency = foldl add_adjacent adj (map snd (map_fill edge_key (all_edges ls) []))\<rparr>))"
    "\<forall>s. map_of adj s \<in> {None, Some []}"
    using compose_eq by blast
  let ?r = "first_error (check_refines (map_fill node_id (all_nodes ls) [])) (map_fill node_id (all_nodes ls) [])"
  let ?e = "first_error (check_edge (map_fill node_id (all_nodes ls) [])) (map snd (map_fill edge_key (all_edges ls) []))"
  have "?r = None \<longleftrightarrow> (\<nexists>s. dangling_refines ls s)" "?e = None \<longleftrightarrow> (\<nexists>e. dangling_edge ls e)"
    unfolding first_error_None check_refines_None check_edge_None by (rule refl)+
  then show ?thesis
    unfolding c(1) by (cases ?r; cases ?e) (simp_all add: adjacent_def add_adjacent_fold[OF c(2)] map_of_map_fill)
qed

text \<open>Layers compose by overriding: a composed graph knows every state as the last layer that names it
  defines it, and for every pair of states exactly the last transition defined for it, listed once under its
  source. Composition fails exactly when a state that remains refines an unknown state or a transition that
  remains leads from or to one, so in a composed graph no reference dangles.\<close>

theorem compose_layers:
  "case compose ls of
     Inl _ \<Rightarrow> (\<exists>s. dangling_refines ls s) \<or> (\<exists>e. dangling_edge ls e)
   | Inr g \<Rightarrow> layers g = ls \<and>
       (\<forall>s. map_of (nodes g) s = last_with node_id s (all_nodes ls)) \<and>
       (\<forall>s. distinct (adjacent g s) \<and>
         set (adjacent g s) = {e. edge_from e = s \<and> last_with edge_key (edge_key e) (all_edges ls) = Some e}) \<and>
       (\<forall>s. \<forall>e\<in>set (adjacent g s). has_node g (edge_from e) \<and> has_node g (edge_to e)) \<and>
       (\<forall>s r. parent g s = Some r \<longrightarrow> has_node g r)"
proof (cases "compose ls")
  case (Inr g)
  have g: "\<nexists>s. dangling_refines ls s" "\<nexists>e. dangling_edge ls e" "layers g = ls"
    "\<And>s. map_of (nodes g) s = last_with node_id s (all_nodes ls)"
    "\<And>s. adjacent g s = filter (\<lambda>e. edge_from e = s) (map snd (map_fill edge_key (all_edges ls) []))"
    using compose_cases[of ls] Inr by auto
  have edges: "set (adjacent g s) = {e. edge_from e = s \<and> last_with edge_key (edge_key e) (all_edges ls) = Some e}" for s
    unfolding g(5) set_filter final_edges by auto
  have "inj_on snd (set (map_fill edge_key (all_edges ls) []))"
    by (auto simp: inj_on_def set_map_fill dest: last_with_key)
  then have "distinct (map snd (map_fill edge_key (all_edges ls) []))"
    using distinct_map_fill[of edge_key "all_edges ls"] by (simp add: distinct_map)
  then have "distinct (adjacent g s)" for s unfolding g(5) by simp
  moreover have "has_node g (edge_from e) \<and> has_node g (edge_to e)" if "e \<in> set (adjacent g s)" for s e
    using that g(2) unfolding edges by (auto simp: has_node_def g(4) dangling_edge_def known_state_def)
  moreover have "has_node g r" if "parent g s = Some r" for s r
    using that g(1) by (auto simp: parent_def has_node_def g(4) dangling_refines_def known_state_def split: option.splits)
  ultimately show ?thesis using Inr g(3,4) edges by auto
qed (use compose_cases[of ls] in simp)

lemma compose_layers_witness:
  "case compose [GENERIC_LAYER] of Inl _ \<Rightarrow> False
   | Inr g \<Rightarrow> layers g = [GENERIC_LAYER] \<and> distinct (adjacent g (js ''storage'')) \<and> length (adjacent g (js ''storage'')) = 2"
proof -
  have "case compose [GENERIC_LAYER] of Inl _ \<Rightarrow> False | Inr g \<Rightarrow> length (adjacent g (js ''storage'')) = 2" by code_simp
  then show ?thesis using compose_layers[of "[GENERIC_LAYER]"] by (auto split: sum.splits)
qed

section \<open>Detection\<close>

lemma first_match_find:
  assumes "\<forall>d\<in>set ds. \<exists>b. detects d probe = Inr b"
  shows "first_match probe ds = Inr (map_option
    (\<lambda>d. \<lparr>detected_state = detector_state d, detected_confidence = detector_confidence d\<rparr>)
    (find (\<lambda>d. detects d probe = Inr True) ds))"
  using assms by (induction ds) auto

text \<open>C30: When no detector throws, detection is deterministic and most specific: no state is detected only when
  no detector matches, and otherwise the winner is a matching detector such that every matching detector
  registered before it belongs to a strictly less specific layer, and none registered after it to a more
  specific one.\<close>

theorem detect_most_specific:
  assumes "\<forall>d\<in>set detectors. \<exists>b. detects d probe = Inr b"
  shows "case detectState probe detectors ls of
      Inl err \<Rightarrow> False
    | Inr None \<Rightarrow> \<forall>d\<in>set detectors. detects d probe = Inr False
    | Inr (Some r) \<Rightarrow> \<exists>before d after. detectors = before @ d # after \<and> detects d probe = Inr True \<and>
        r = \<lparr>detected_state = detector_state d, detected_confidence = detector_confidence d\<rparr> \<and>
        (\<forall>x\<in>set before. detects x probe = Inr True \<longrightarrow> detector_priority ls x < detector_priority ls d) \<and>
        (\<forall>x\<in>set after. detects x probe = Inr True \<longrightarrow> detector_priority ls x \<le> detector_priority ls d)"
proof -
  let ?f = "find (\<lambda>d. detects d probe = Inr True) (sort_key (\<lambda>d. - detector_priority ls d) detectors)"
  have eq: "detectState probe detectors ls = Inr (map_option
      (\<lambda>d. \<lparr>detected_state = detector_state d, detected_confidence = detector_confidence d\<rparr>) ?f)"
    unfolding detectState_def using assms by (intro first_match_find) simp
  show ?thesis
  proof (cases ?f)
    case None
    then have "detects d probe = Inr False" if "d \<in> set detectors" for d
      using find_sort_key[where P = "\<lambda>d. detects d probe = Inr True" and f = "\<lambda>d. - detector_priority ls d" and xs = detectors] that assms by fastforce
    then show ?thesis unfolding eq None by simp
  next
    case (Some d)
    then have "detects d probe = Inr True \<and> (\<exists>before after. detectors = before @ d # after \<and>
        (\<forall>x\<in>set before. detects x probe = Inr True \<longrightarrow> detector_priority ls x < detector_priority ls d) \<and>
        (\<forall>x\<in>set after. detects x probe = Inr True \<longrightarrow> detector_priority ls x \<le> detector_priority ls d))"
      using find_sort_key[where P = "\<lambda>d. detects d probe = Inr True" and f = "\<lambda>d. - detector_priority ls d" and xs = detectors]
      by simp
    then show ?thesis unfolding eq Some by auto
  qed
qed

lemma detect_most_specific_witness:
  "\<exists>d\<in>set GENERIC_DETECTORS. detector_state d = js ''modem'' \<and>
     detectState (probeFromDiscovered (js ''serial'') 0x12d1 0x1506 None None) GENERIC_DETECTORS [GENERIC_LAYER]
       = Inr (Some \<lparr>detected_state = js ''modem'', detected_confidence = detector_confidence d\<rparr>)"
proof -
  let ?p = "probeFromDiscovered (js ''serial'') 0x12d1 0x1506 None None"
  have "\<forall>d\<in>set GENERIC_DETECTORS. \<exists>b. detects d ?p = Inr b"
    by (simp add: GENERIC_DETECTORS_def absentDetector_def storageDetector_def modemDetector_def downloadDetector_def
        emergencyDetector_def modemProbeDetector_def storageProbeDetector_def mode_detector_def)
  note most_specific = detect_most_specific[OF this, of "[GENERIC_LAYER]"]
  have "case detectState ?p GENERIC_DETECTORS [GENERIC_LAYER] of Inr (Some r) \<Rightarrow> detected_state r = js ''modem'' | _ \<Rightarrow> False"
    by code_simp
  then obtain r where r: "detectState ?p GENERIC_DETECTORS [GENERIC_LAYER] = Inr (Some r)" "detected_state r = js ''modem''"
    by (auto split: sum.splits option.splits)
  then obtain before d after where "GENERIC_DETECTORS = before @ d # after"
      "r = \<lparr>detected_state = detector_state d, detected_confidence = detector_confidence d\<rparr>"
    using most_specific by auto
  moreover from this(1) have "d \<in> set GENERIC_DETECTORS" by (metis in_set_conv_decomp)
  ultimately show ?thesis using r by auto
qed

end
