(* ===== verification/Lifecycle_Navigator_Props.thy ===== *)
theory Lifecycle_Navigator_Props imports Lifecycle_Navigator Lifecycle_Compose begin

text \<open>
  What \<open>navigate\<close> does in every world, and in a world whose device obeys its actions.
\<close>

section \<open>Every world\<close>

fun executed :: "navigation_event list \<Rightarrow> state_edge list" where
  "executed [] = []"
| "executed (Executed e # es) = e # executed es"
| "executed (_ # es) = executed es"

lemma executed_append [simp]: "executed (es @ fs) = executed es @ executed fs"
  by (induction es rule: executed.induct) auto

definition graph_edge :: "composed_graph \<Rightarrow> state_edge \<Rightarrow> bool" where
  "graph_edge g e \<longleftrightarrow> (\<exists>s\<in>set (map fst (adjacency g)). e \<in> set (adjacent g s))"

lemma usable_graph_edge: "usable g inc s e \<Longrightarrow> graph_edge g e"
proof -
  assume u: "usable g inc s e"
  then have "map_of (adjacency g) s \<noteq> None"
    by (cases "map_of (adjacency g) s") (auto simp: usable_def adjacent_def)
  then have "s \<in> set (map fst (adjacency g))" unfolding keys_map_of .
  then show ?thesis using u by (auto simp: graph_edge_def usable_def)
qed

lemma has_node_keys: "has_node g s \<longleftrightarrow> s \<in> set (map fst (nodes g))"
  unfolding has_node_def keys_map_of ..

lemma findPath_returned:
  assumes "findPath g inc s t = Some (Some p)"
  obtains u where "isRefinementOf g u t" "walk g inc s (path_edges p) u" "totalCost p = cost (path_edges p)"
    "has_node g s" "has_node g t"
  using findPath_result[of g inc s t] assms by auto

lemma execute_edge_cases:
  assumes "execute_edge actions probe cur path e n w = (es, r, w')"
  shows "executed es = [] \<and> (\<exists>err last. r = Finished (Inr (Not_Navigated err last))) \<or>
    executed es = [e] \<and> \<not> manual e \<and> (r = Continue \<or> (\<exists>err. r = Finished (Inl err)))"
  using assms by (auto simp: execute_edge_def Let_def split: option.splits if_splits prod.splits sum.splits)

lemma isAtTarget_refinement: "isAtTarget g s t \<longleftrightarrow> isRefinementOf g s t"
  by (simp add: isAtTarget_def isRefinementOf_def)

text \<open>A round ends the run without executing anything, or executes one transition.\<close>

definition round_ends :: "composed_graph \<Rightarrow> jstr \<Rightarrow> nat \<Rightarrow> navigation_event list \<Rightarrow> navigation_step \<Rightarrow> bool" where
  "round_ends g target n es r \<longleftrightarrow> executed es = [] \<and>
     (\<exists>x. r = Finished x \<and> (\<forall>s c k. x = Inr (Navigated s c k) \<longrightarrow> k = n \<and> isRefinementOf g s target))"

definition round_executes :: "composed_graph \<Rightarrow> navigation_event list \<Rightarrow> navigation_step \<Rightarrow> bool" where
  "round_executes g es r \<longleftrightarrow>
     (\<exists>e. executed es = [e] \<and> \<not> manual e \<and> graph_edge g e \<and> (r = Continue \<or> (\<exists>err. r = Finished (Inl err))))"

lemma plan_cases:
  "\<exists>es r w'. plan_and_execute g actions target inc probe d n w = Some (es, r, w') \<and>
    (round_ends g target n es r \<or> round_executes g es r)"
proof (cases "isAtTarget g (detected_state d) target")
  case True
  then show ?thesis by (simp add: plan_and_execute_def round_ends_def isAtTarget_refinement)
next
  case False
  obtain found where found: "findPath g inc (detected_state d) target = Some found" using findPath_result by blast
  show ?thesis
  proof (cases found)
    case None
    then show ?thesis using found False by (simp add: plan_and_execute_def round_ends_def Let_def)
  next
    case (Some p)
    obtain u where u: "isRefinementOf g u target" "walk g inc (detected_state d) (path_edges p) u"
      using findPath_returned found Some by blast
    show ?thesis
    proof (cases "path_edges p")
      case Nil
      then show ?thesis using u False by (simp add: isAtTarget_refinement)
    next
      case (Cons e rest)
      obtain es r w' where x: "execute_edge actions probe (detected_state d) p e n w = (es, r, w')" by (metis prod_cases3)
      have "graph_edge g e" using u(2) Cons usable_graph_edge by auto
      then show ?thesis
        using execute_edge_cases[OF x] found Some Cons False x
        by (auto simp: plan_and_execute_def round_ends_def round_executes_def Let_def)
    qed
  qed
qed

lemma round_cases:
  "\<exists>es r w'. navigate_round g detectors actions src target inc n w = Some (es, r, w') \<and>
    (round_ends g target n es r \<or> round_executes g es r)"
proof -
  obtain pr w1 where src: "getProbe src w = (pr, w1)" by fastforce
  show ?thesis
  proof (cases pr)
    case (Inr probe)
    show ?thesis
    proof (cases "detectState probe detectors (layers g)")
      case det: (Inr found)
      show ?thesis
      proof (cases found)
        case (Some d)
        then show ?thesis
          using plan_cases[of g actions target inc probe d n w1] src Inr det
          by (fastforce simp: navigate_round_def round_ends_def round_executes_def)
      qed (use src Inr det in \<open>auto simp: navigate_round_def round_ends_def\<close>)
    qed (use src Inr in \<open>auto simp: navigate_round_def round_ends_def\<close>)
  qed (use src in \<open>auto simp: navigate_round_def round_ends_def\<close>)
qed

text \<open>A success that is reported after \<open>k\<close> steps, fewer than \<open>m\<close>.\<close>

fun reported :: "composed_graph \<Rightarrow> jstr \<Rightarrow> nat \<Rightarrow> nat \<Rightarrow> cellary_error + navigation_result \<Rightarrow> bool" where
  "reported g target m n (Inr (Navigated s c k)) \<longleftrightarrow> k = n \<and> k < m \<and> isRefinementOf g s target"
| "reported g target m n _ \<longleftrightarrow> True"

lemma give_up_reported:
  "\<exists>r w'. give_up g detectors src m w = ([], r, w') \<and> reported g target m n r"
  by (auto simp: give_up_def split: prod.splits sum.splits)

lemma round_ends_reported:
  "round_ends g target n es (Finished x) \<Longrightarrow> n < m \<Longrightarrow> reported g target m n x \<and> executed es = []"
  by (cases "(g, target, m, n, x)" rule: reported.cases) (auto simp: round_ends_def)

lemma loop_bounded:
  assumes "fuel \<le> m"
  shows "\<exists>es r w'. navigate_loop g detectors actions src target inc m fuel w = Some (es, r, w') \<and>
    length (executed es) \<le> fuel \<and> list_all (\<lambda>e. \<not> manual e \<and> graph_edge g e) (executed es) \<and>
    reported g target m ((m - fuel) + length (executed es)) r"
  using assms
proof (induction fuel arbitrary: w)
  case 0
  obtain r w' where "give_up g detectors src m w = ([], r, w')" "reported g target m m r"
    using give_up_reported[of g detectors src m w target m] by auto
  then show ?case by simp
next
  case (Suc fuel)
  obtain es r w' where r: "navigate_round g detectors actions src target inc (m - Suc fuel) w = Some (es, r, w')"
      "round_ends g target (m - Suc fuel) es r \<or> round_executes g es r"
    using round_cases[of g detectors actions src target inc "m - Suc fuel" w] by auto
  show ?case
  proof (cases r)
    case (Finished x)
    show ?thesis
    proof (cases "round_ends g target (m - Suc fuel) es r")
      case True
      then have "reported g target m (m - Suc fuel) x \<and> executed es = []"
        using round_ends_reported[of g target "m - Suc fuel" es x m] Finished Suc.prems by simp
      then show ?thesis using r(1) Finished by simp
    next
      case False
      then obtain e err where "executed es = [e]" "\<not> manual e" "graph_edge g e" "x = Inl err"
        using r(2) Finished by (auto simp: round_executes_def)
      then show ?thesis using r(1) Finished by simp
    qed
  next
    case Continue
    then obtain e where e: "executed es = [e]" "\<not> manual e" "graph_edge g e"
      using r(2) by (auto simp: round_ends_def round_executes_def)
    have "m - fuel = Suc (m - Suc fuel)" using Suc.prems by simp
    then obtain es' x w'' where "navigate_loop g detectors actions src target inc m fuel w' = Some (es', x, w'')"
        "length (executed es') \<le> fuel" "list_all (\<lambda>e. \<not> manual e \<and> graph_edge g e) (executed es')"
        "reported g target m (Suc (m - Suc fuel) + length (executed es')) x"
      using Suc.IH[of w'] Suc.prems by auto
    then show ?thesis using r(1) Continue e by simp
  qed
qed

definition step_budget :: "nat option \<Rightarrow> nat" where
  "step_budget maxSteps = (case maxSteps of Some n \<Rightarrow> n | None \<Rightarrow> 10)"

text \<open>C27: Whatever the world does - probes and actions that throw, actions that lead elsewhere, detectors that
  contradict each other - navigation returns after at most the allowed number of transitions, never executes a
  manual one (even when manual ones were allowed for planning) and executes only transitions of the graph. Success is
  reported only for a detected state that is the target or refines it, with the exact number of steps.\<close>

theorem navigate_bounded:
  "\<exists>es r w'. navigate g detectors actions src target includeManual maxSteps w = Some (es, r, w') \<and>
     length (executed es) \<le> step_budget maxSteps \<and> list_all (\<lambda>e. \<not> manual e \<and> graph_edge g e) (executed es) \<and>
     reported g target (step_budget maxSteps) (length (executed es)) r"
  using loop_bounded[of "step_budget maxSteps" "step_budget maxSteps" g detectors actions src target "includeManual = Some True" w]
  by (simp add: navigate_def Let_def step_budget_def)

section \<open>A stick that can be switched\<close>

text \<open>A small world for the witnesses: the product id of a stick, 0 in storage and 1 in modem mode.\<close>

definition stick_node :: "nat \<Rightarrow> state_node" where
  "stick_node i = \<lparr>node_id = [i], node_label = [], severity = Normal, refines = None, terminal = (i = 1), tags = []\<rparr>"

definition stick_edge :: state_edge where
  "stick_edge = \<lparr>edge_from = [0], edge_to = [1], edge_label = [], edge_cost = 5, reversible = False, manual = False\<rparr>"

definition stick_graph :: composed_graph where
  "stick_graph = \<lparr>layers = [], nodes = [([0], stick_node 0), ([1], stick_node 1)], adjacency = [([0], [stick_edge]), ([1], [])]\<rparr>"

definition stick_detectors :: "state_detector list" where
  "stick_detectors = map (\<lambda>i. \<lparr>detector_state = [i], detector_layer = [], detector_confidence = Identified,
     detects = (\<lambda>p. Inr (probe_productId p = i))\<rparr>) [0, 1]"

definition stick :: "nat probe_source" where
  "stick = Probe_Factory (\<lambda>w. (Inr (createProbe 0x12d1 w True None None None None), w))"

definition switch_action :: "nat transition_action" where
  "switch_action = \<lparr>action_key = edge_key stick_edge, action_execute = (\<lambda>_ _. (Inr (), 1))\<rparr>"

lemma stick_path: "findPath stick_graph False [0] [1] = Some (Some \<lparr>path_edges = [stick_edge], totalCost = 5, hasManualStep = False\<rparr>)"
  by code_simp

section \<open>The budget\<close>

lemma give_up_cases:
  "\<exists>r w'. give_up g detectors src m w = ([], r, w') \<and> (\<forall>s c k. r \<noteq> Inr (Navigated s c k))"
  by (auto simp: give_up_def split: prod.splits sum.splits)

lemma round_navigated:
  assumes "navigate_round g detectors actions src target inc n w = Some (es, Finished (Inr (Navigated s c k)), w')"
  shows "k = n \<and> executed es = [] \<and> (\<exists>w''. give_up g detectors src m w = ([], Inr (Not_Navigated (max_steps_error m) (Some s)), w''))"
proof -
  have k: "k = n" "executed es = []"
    using round_cases[of g detectors actions src target inc n w] assms by (auto simp: round_ends_def round_executes_def)
  obtain pr w1 where src: "getProbe src w = (pr, w1)" by fastforce
  then obtain probe where probe: "pr = Inr probe" using assms by (cases pr) (auto simp: navigate_round_def)
  then obtain d where d: "detectState probe detectors (layers g) = Inr (Some d)"
    using assms src by (auto simp: navigate_round_def split: sum.splits option.splits)
  have "s = detected_state d"
    using assms src probe d
    by (auto simp: navigate_round_def plan_and_execute_def execute_edge_def Let_def
        split: if_splits option.splits list.splits prod.splits sum.splits bind_splits)
  then show ?thesis using k src probe d by (simp add: give_up_def)
qed

lemma loop_short:
  assumes "navigate_loop g detectors actions src target inc (Suc m) (Suc fuel) w = Some (es, Inr (Navigated s c m), w')" "fuel \<le> m"
  shows "\<exists>es' w''. navigate_loop g detectors actions src target inc m fuel w
    = Some (es', Inr (Not_Navigated (max_steps_error m) (Some s)), w'') \<and> executed es' = executed es"
  using assms
proof (induction fuel arbitrary: w es)
  case 0
  obtain es1 r w1 where r: "navigate_round g detectors actions src target inc m w = Some (es1, r, w1)"
    using round_cases[of g detectors actions src target inc m w] by auto
  have "r = Finished (Inr (Navigated s c m)) \<and> es = es1"
  proof (cases r)
    case (Finished x) then show ?thesis using 0 r by auto
  next
    case Continue then show ?thesis using 0 r give_up_cases[of g detectors src "Suc m" w1] by auto
  qed
  then show ?case using round_navigated[of g detectors actions src target inc m w es1 s c m w1 m] r by auto
next
  case (Suc fuel)
  obtain es1 r w1 where r: "navigate_round g detectors actions src target inc (m - Suc fuel) w = Some (es1, r, w1)"
    using round_cases[of g detectors actions src target inc "m - Suc fuel" w] by auto
  show ?case
  proof (cases r)
    case (Finished x)
    then have "x = Inr (Navigated s c m)" using Suc.prems(1) r by simp
    then have "m = m - Suc fuel" using round_navigated[of g detectors actions src target inc "m - Suc fuel" w es1 s c m w1] r Finished by blast
    then show ?thesis using Suc.prems(2) by simp
  next
    case Continue
    then obtain es2 where "es = es1 @ es2"
        "navigate_loop g detectors actions src target inc (Suc m) (Suc fuel) w1 = Some (es2, Inr (Navigated s c m), w')"
      using Suc.prems(1) r by auto
    then show ?thesis using Suc.IH[of w1 es2] Suc.prems(2) r Continue by auto
  qed
qed

text \<open>A run that would succeed after exactly \<open>n\<close> transitions fails when \<open>maxSteps\<close> is \<open>n\<close>: the same
  transitions are executed, the device is at the target, and the error nevertheless reports an exceeded
  maximum and a possible loop, with the target as the last state.\<close>

theorem navigate_exact_budget:
  assumes "navigate g detectors actions src target includeManual (Some (Suc n)) w = Some (es, Inr (Navigated s c n), w')"
  shows "\<exists>es' w''. navigate g detectors actions src target includeManual (Some n) w
      = Some (es', Inr (Not_Navigated (max_steps_error n) (Some s)), w'') \<and> executed es' = executed es"
  using assms loop_short[of g detectors actions src target "includeManual = Some True" n n w es s c w']
  by (simp add: navigate_def)

lemma navigate_exact_budget_witness:
  "\<exists>es w'. navigate stick_graph stick_detectors [switch_action] stick [1] None (Some 1) 0
    = Some (es, Inr (Not_Navigated (max_steps_error 1) (Some [1])), w')"
proof -
  have "case navigate stick_graph stick_detectors [switch_action] stick [1] None (Some (Suc 1)) 0 of
      Some (es, Inr (Navigated s c k), w') \<Rightarrow> s = [1] \<and> k = 1 | _ \<Rightarrow> False"
    by code_simp
  then obtain es x w' where x: "navigate stick_graph stick_detectors [switch_action] stick [1] None (Some (Suc 1)) 0 = Some (es, Inr x, w')"
      "case x of Navigated s c k \<Rightarrow> s = [1] \<and> k = 1 | _ \<Rightarrow> False"
    by (auto split: option.splits sum.splits)
  then obtain c where "navigate stick_graph stick_detectors [switch_action] stick [1] None (Some (Suc 1)) 0
      = Some (es, Inr (Navigated [1] c 1), w')"
    by (cases x) auto
  from navigate_exact_budget[OF this] show ?thesis by auto
qed

section \<open>A device that obeys\<close>

text \<open>The state of the device is observed as it is, and every software transition has an action that takes the
  device where the graph says.\<close>

definition observes ::
  "composed_graph \<Rightarrow> state_detector list \<Rightarrow> 'w probe_source \<Rightarrow> ('w \<Rightarrow> jstr) \<Rightarrow> bool" where
  "observes g detectors src state \<longleftrightarrow>
     (\<forall>w. has_node g (state w) \<longrightarrow> (\<exists>probe w' c. getProbe src w = (Inr probe, w') \<and> state w' = state w \<and>
        detectState probe detectors (layers g) = Inr (Some \<lparr>detected_state = state w, detected_confidence = c\<rparr>)))"

definition obeys :: "composed_graph \<Rightarrow> 'w transition_action list \<Rightarrow> ('w \<Rightarrow> jstr) \<Rightarrow> bool" where
  "obeys g actions state \<longleftrightarrow>
     (\<forall>s e. e \<in> set (adjacent g s) \<longrightarrow> \<not> manual e \<longrightarrow> (\<exists>a. map_of (action_map actions) (edge_key e) = Some a \<and>
        (\<forall>ctx w. state w = s \<longrightarrow> (\<exists>w'. action_execute a ctx w = (Inr (), w') \<and> state w' = edge_to e))))"

definition sound_graph :: "composed_graph \<Rightarrow> bool" where
  "sound_graph g \<longleftrightarrow> (\<forall>s e. e \<in> set (adjacent g s) \<longrightarrow> has_node g (edge_to e) \<and> 0 < edge_cost e)"

text \<open>After the first transition of a plan, the new plan costs at most what is left of the old one.\<close>

lemma replan_cheaper:
  assumes "findPath g inc s t = Some (Some p)" "path_edges p = e # es" "\<not> isRefinementOf g s t" "sound_graph g"
  shows "\<exists>q. findPath g inc (edge_to e) t = Some (Some q) \<and> totalCost q + edge_cost e \<le> totalCost p"
proof -
  obtain u where u: "isRefinementOf g u t" "walk g inc s (e # es) u" "totalCost p = edge_cost e + cost es" "has_node g t"
    using findPath_returned[OF assms(1)] unfolding assms(2) by auto
  then have rest: "walk g inc (edge_to e) es u" "usable g inc s e" by simp_all
  then have "has_node g (edge_to e)" using assms(4) by (auto simp: sound_graph_def usable_def)
  then obtain q where q: "findPath g inc (edge_to e) t = Some (Some q)"
    using findPath_result[of g inc "edge_to e" t] u(1,4) rest(1) by (auto split: option.splits)
  have cq: "totalCost q = cost (path_edges q)" using findPath_returned[OF q] by metis
  note least = findPath_least[OF q]
  have "cost (path_edges q) \<le> cost es"
  proof (cases "\<exists>fs. walk g inc (edge_to e) fs t")
    case True
    then obtain fs where "walk g inc (edge_to e) fs t" by blast
    then have "walk g inc s (e # fs) t" using rest(2) by simp
    then have "\<exists>fs. walk g inc s fs t" by blast
    then have "cheapest g inc s (\<lambda>x. x = t) (e # es)"
      using findPath_least[OF assms(1)] assms(2,3) by simp
    then have "walk g inc (edge_to e) es t" by (simp add: cheapest_def)
    then show ?thesis using least True by (auto simp: cheapest_def split: if_splits)
  next
    case False
    then show ?thesis using least rest(1) u(1) by (auto simp: cheapest_def split: if_splits)
  qed
  then show ?thesis using q cq u(3) by auto
qed

definition cheaper_states :: "composed_graph \<Rightarrow> jstr \<Rightarrow> nat \<Rightarrow> jstr set" where
  "cheaper_states g t c =
     {s \<in> set (map fst (nodes g)). \<exists>q. findPath g False s t = Some (Some q) \<and> totalCost q < c}"

lemma cheaper_states_decrease:
  assumes "findPath g False s t = Some (Some q)" "totalCost q < c"
  shows "card (cheaper_states g t (totalCost q)) < card (cheaper_states g t c)"
proof (rule psubset_card_mono)
  have "has_node g s" using findPath_returned[OF assms(1)] by metis
  then have "s \<in> cheaper_states g t c" "s \<notin> cheaper_states g t (totalCost q)"
    unfolding has_node_keys using assms by (auto simp: cheaper_states_def)
  then show "cheaper_states g t (totalCost q) \<subset> cheaper_states g t c" using assms(2) by (auto simp: cheaper_states_def)
qed (simp add: cheaper_states_def)

lemma obedient_round:
  assumes "observes g detectors src state" "obeys g actions state" "findPath g False (state w) t = Some (Some p)"
  shows "isRefinementOf g (state w) t \<and> (\<exists>es c w'. navigate_round g detectors actions src t False n w
      = Some (es, Finished (Inr (Navigated (state w) c n)), w') \<and> executed es = [] \<and> state w' = state w) \<or>
    \<not> isRefinementOf g (state w) t \<and> (\<exists>e rest es w'. path_edges p = e # rest \<and>
      navigate_round g detectors actions src t False n w = Some (es, Continue, w') \<and> executed es = [e] \<and> state w' = edge_to e)"
proof -
  obtain u where u: "isRefinementOf g u t" "walk g False (state w) (path_edges p) u" "has_node g (state w)"
    using findPath_returned[OF assms(3)] by metis
  then obtain probe w1 c where probe: "getProbe src w = (Inr probe, w1)" "state w1 = state w"
      "detectState probe detectors (layers g) = Inr (Some \<lparr>detected_state = state w, detected_confidence = c\<rparr>)"
    using assms(1) unfolding observes_def by blast
  show ?thesis
  proof (cases "isRefinementOf g (state w) t")
    case True
    then show ?thesis using probe by (auto simp: navigate_round_def plan_and_execute_def isAtTarget_refinement Let_def)
  next
    case False
    then obtain e rest where e: "path_edges p = e # rest" using u(1,2) by (cases "path_edges p") auto
    then have "e \<in> set (adjacent g (state w))" "\<not> manual e" using u(2) by (auto simp: usable_def)
    then obtain a w2 where a: "map_of (action_map actions) (edge_key e) = Some a"
        "action_execute a (probeToContext probe) w1 = (Inr (), w2)" "state w2 = edge_to e"
      using assms(2) probe(2) unfolding obeys_def by metis
    have "execute_edge actions probe (state w) p e n w1 = ([Transitioning (state w) e (n + 1) (length (path_edges p) + n), Executed e, Verifying (edge_to e)], Continue, w2)"
      using a \<open>\<not> manual e\<close> by (simp add: execute_edge_def Let_def)
    then show ?thesis
      using False e a(3) probe assms(3) by (simp add: navigate_round_def plan_and_execute_def isAtTarget_refinement Let_def)
  qed
qed

lemma obedient_loop:
  assumes "observes g detectors src state" "obeys g actions state" "sound_graph g"
    and "findPath g False (state w) t = Some (Some p)" "card (cheaper_states g t (totalCost p)) < fuel"
  shows "\<exists>es s c k w'. navigate_loop g detectors actions src t False m fuel w = Some (es, Inr (Navigated s c k), w') \<and>
    isRefinementOf g s t \<and> state w' = s \<and> walk g False (state w) (executed es) s \<and> cost (executed es) \<le> totalCost p"
  using assms(4,5)
proof (induction fuel arbitrary: w p)
  case (Suc fuel)
  consider (here) es c w' where "isRefinementOf g (state w) t" "navigate_round g detectors actions src t False (m - Suc fuel) w
      = Some (es, Finished (Inr (Navigated (state w) c (m - Suc fuel))), w')" "executed es = []" "state w' = state w"
    | (move) e rest es w' where "\<not> isRefinementOf g (state w) t" "path_edges p = e # rest"
      "navigate_round g detectors actions src t False (m - Suc fuel) w = Some (es, Continue, w')" "executed es = [e]" "state w' = edge_to e"
    using obedient_round[OF assms(1,2) Suc.prems(1), of "m - Suc fuel"] by auto
  then show ?case
  proof cases
    case here
    then show ?thesis by simp
  next
    case move
    obtain q where q: "findPath g False (state w') t = Some (Some q)" "totalCost q + edge_cost e \<le> totalCost p"
      using replan_cheaper[OF Suc.prems(1) move(2,1) assms(3)] move(5) by auto
    have use: "usable g False (state w) e" using findPath_returned[OF Suc.prems(1)] move(2) by (metis walk.simps(2))
    then have "totalCost q < totalCost p" using q(2) assms(3) by (fastforce simp: sound_graph_def usable_def)
    then have "card (cheaper_states g t (totalCost q)) < fuel"
      using cheaper_states_decrease[OF q(1)] Suc.prems(2) by fastforce
    then obtain es' s c k w'' where "navigate_loop g detectors actions src t False m fuel w' = Some (es', Inr (Navigated s c k), w'')"
        "isRefinementOf g s t" "state w'' = s" "walk g False (state w') (executed es') s" "cost (executed es') \<le> totalCost q"
      using Suc.IH[OF q(1)] by auto
    then show ?thesis using move q(2) use by auto
  qed
qed simp

text \<open>C15: On a device that obeys, navigation succeeds: in a graph of known states with positive costs, when every
  software transition has an action that does what the graph says and the device is observed as it is, a target that
  the planner can reach is reached by executing a walk of the graph that costs no more than the first plan, provided
  that \<open>maxSteps\<close> is at least the number of states - although the navigator plans afresh after every
  transition.\<close>

theorem navigate_reaches:
  assumes "observes g detectors src state" "obeys g actions state" "sound_graph g"
    and "findPath g False (state w) t = Some (Some p)" "length (nodes g) \<le> step_budget maxSteps"
  shows "\<exists>es s c k w'. navigate g detectors actions src t None maxSteps w = Some (es, Inr (Navigated s c k), w') \<and>
    isRefinementOf g s t \<and> state w' = s \<and> walk g False (state w) (executed es) s \<and> cost (executed es) \<le> totalCost p"
proof -
  have "has_node g (state w)" using findPath_returned[OF assms(4)] by metis
  then have "state w \<in> set (map fst (nodes g)) - cheaper_states g t (totalCost p)"
    unfolding has_node_keys using assms(4) by (auto simp: cheaper_states_def)
  then have "cheaper_states g t (totalCost p) \<subset> set (map fst (nodes g))" by (auto simp: cheaper_states_def)
  then have "card (cheaper_states g t (totalCost p)) < card (set (map fst (nodes g)))" by (intro psubset_card_mono) simp_all
  also have "\<dots> \<le> step_budget maxSteps" using card_length[of "map fst (nodes g)"] assms(5) by simp
  finally show ?thesis
    using obedient_loop[OF assms(1-4)] by (simp add: navigate_def Let_def step_budget_def)
qed

lemma stick_adjacent: "e \<in> set (adjacent stick_graph s) \<longleftrightarrow> s = [0] \<and> e = stick_edge"
  by (simp add: adjacent_def stick_graph_def)

lemma stick_observed: "observes stick_graph stick_detectors stick (\<lambda>w. [w])"
proof -
  have "detectState (createProbe 0x12d1 w True None None None None) stick_detectors (layers stick_graph)
      = Inr (Some \<lparr>detected_state = [w], detected_confidence = Identified\<rparr>)" if "w \<in> {0, 1}" for w
    using that by (auto simp: detectState_def stick_detectors_def createProbe_def stick_graph_def detector_priority_def layerPriority_def)
  moreover have "has_node stick_graph [w] \<longleftrightarrow> w \<in> {0, 1}" for w
    by (simp add: has_node_def stick_graph_def)
  ultimately show ?thesis by (auto simp: observes_def getProbe_def stick_def)
qed

lemma stick_obeys: "obeys stick_graph [switch_action] (\<lambda>w. [w])"
  by (simp add: obeys_def stick_adjacent action_map_def switch_action_def) (simp add: stick_edge_def)

lemma stick_sound: "sound_graph stick_graph"
  by (simp add: sound_graph_def stick_adjacent) (simp add: stick_edge_def has_node_def stick_graph_def)

lemma navigate_reaches_witness:
  "\<exists>es s c k w'. navigate stick_graph stick_detectors [switch_action] stick [1] None None 0
    = Some (es, Inr (Navigated s c k), w') \<and> isRefinementOf stick_graph s [1]"
proof -
  have "length (nodes stick_graph) \<le> step_budget None" by (simp add: stick_graph_def step_budget_def)
  from navigate_reaches[OF stick_observed stick_obeys stick_sound stick_path this] show ?thesis by blast
qed

end
