(* ===== verification/Timer_Encoding.thy ===== *)
theory Timer_Encoding imports Errors begin

text \<open>
  \<^verbatim>\<open>packages/core/src/protocols/at/services/timer-encoding.ts\<close>: the binary codes of the GPRS timers and of
  the eDRX cycles. Seconds of the GPRS timers are integers; \<open>Math.round\<close> of a quotient is the floor of
  the quotient plus a half. The durations of the eDRX tables are written in hundredths of a second and
  compared exactly.
\<close>

section \<open>GPRS timers\<close>

definition GPRS_TIMER_UNITS :: "(int \<times> int) list" where
  "GPRS_TIMER_UNITS = [(0, 2), (1, 60), (2, 360)]"

definition GPRS_TIMER3_UNITS :: "(int \<times> int) list" where
  "GPRS_TIMER3_UNITS = [(3, 2), (4, 30), (5, 60), (0, 600), (1, 3600), (2, 36000), (6, 1152000)]"

definition decode_timer :: "(int \<times> int) list \<Rightarrow> jstr \<Rightarrow> int option" where
  "decode_timer units binary =
     (if length binary \<noteq> 8 then None
      else
        (let byte = js_int32 (js_parseInt 2 binary);
             unitBits = drop_bit 5 byte AND 0x07
         in if unitBits = 7 then None
            else
              (case find (\<lambda>entry. fst entry = unitBits) units of
                 None \<Rightarrow> None
               | Some (_, unitSeconds) \<Rightarrow> Some ((byte AND 0x1f) * unitSeconds))))"

definition decodeGprsTimer :: "jstr \<Rightarrow> int option" where
  "decodeGprsTimer binary = decode_timer GPRS_TIMER_UNITS binary"

definition decodeGprsTimer3 :: "jstr \<Rightarrow> int option" where
  "decodeGprsTimer3 binary = decode_timer GPRS_TIMER3_UNITS binary"

definition timer_code :: "int \<Rightarrow> int \<Rightarrow> jstr" where
  "timer_code unitBits value = js_padStart 8 48 (js_toString 2 (nat (push_bit 5 unitBits OR value)))"

fun exact_code :: "int \<Rightarrow> (int \<times> int) list \<Rightarrow> jstr option" where
  "exact_code seconds [] = None"
| "exact_code seconds ((unitBits, unitSec) # units) =
     (if seconds mod unitSec = 0 \<and> 0 \<le> seconds div unitSec \<and> seconds div unitSec \<le> 31
      then Some (timer_code unitBits (seconds div unitSec)) else exact_code seconds units)"

definition js_round_quotient :: "int \<Rightarrow> int \<Rightarrow> int" where
  "js_round_quotient a b = (2 * a + b) div (2 * b)"

fun nearest_code :: "int \<Rightarrow> (int \<times> int) list \<Rightarrow> jstr option" where
  "nearest_code seconds [] = None"
| "nearest_code seconds ((unitBits, unitSec) # units) =
     (let value = js_round_quotient seconds unitSec
      in if 0 \<le> value \<and> value \<le> 31 then Some (timer_code unitBits value) else nearest_code seconds units)"

definition encode_timer :: "string \<Rightarrow> (int \<times> int) list \<Rightarrow> int \<Rightarrow> cellary_error + jstr" where
  "encode_timer name units seconds =
     (case exact_code seconds units of
        Some code \<Rightarrow> Inr code
      | None \<Rightarrow>
          (case nearest_code seconds units of
             Some code \<Rightarrow> Inr code
           | None \<Rightarrow> Inl (ParseError (js ''Cannot encode '' @ js_show_int seconds @ js ''s as '' @ js name) (js_show_int seconds))))"

definition encodeGprsTimer :: "int \<Rightarrow> cellary_error + jstr" where
  "encodeGprsTimer seconds = encode_timer ''GPRS Timer'' GPRS_TIMER_UNITS seconds"

definition encodeGprsTimer3 :: "int \<Rightarrow> cellary_error + jstr" where
  "encodeGprsTimer3 seconds = encode_timer ''GPRS Timer 3'' (rev GPRS_TIMER3_UNITS) seconds"

section \<open>eDRX\<close>

datatype edrx_access = No_Edrx | Ec_Gsm_Iot | Gsm | Utran | Eutran_Wb | Eutran_Nb

definition EUTRAN_WB_EDRX :: "(int \<times> int) list" where
  "EUTRAN_WB_EDRX =
     [(0, 512), (1, 1024), (2, 2048), (3, 4096), (4, 6144), (5, 8192), (6, 10240), (7, 12288), (8, 14336),
      (9, 16384), (10, 32768), (11, 65536), (12, 131072), (13, 262144)]"

definition EUTRAN_NB_EDRX :: "(int \<times> int) list" where
  "EUTRAN_NB_EDRX = EUTRAN_WB_EDRX @ [(14, 524288), (15, 1048576)]"

definition UTRAN_EDRX :: "(int \<times> int) list" where
  "UTRAN_EDRX =
     [(1, 256), (2, 512), (3, 1024), (4, 2048), (5, 4096), (6, 8192), (7, 16384), (8, 32768), (9, 65536), (10, 131072)]"

definition GSM_EDRX :: "(int \<times> int) list" where
  "GSM_EDRX = [(0, 188), (1, 376), (2, 752), (3, 1128), (4, 2256), (5, 3384)]"

definition EUTRAN_WB_PTW :: "(int \<times> int) list" where
  "EUTRAN_WB_PTW =
     [(0, 128), (1, 256), (2, 384), (3, 512), (4, 640), (5, 768), (6, 896), (7, 1024), (8, 1152), (9, 1280),
      (10, 1408), (11, 1536)]"

definition EUTRAN_NB_PTW :: "(int \<times> int) list" where
  "EUTRAN_NB_PTW =
     [(0, 256), (1, 512), (2, 768), (3, 1024), (4, 1280), (5, 1536), (6, 1792), (7, 2048), (8, 2304), (9, 2560),
      (10, 2816), (11, 3072), (12, 3328), (13, 3584), (14, 3840), (15, 4096)]"

fun cycleTable :: "edrx_access \<Rightarrow> (int \<times> int) list option" where
  "cycleTable No_Edrx = None"
| "cycleTable Ec_Gsm_Iot = Some GSM_EDRX"
| "cycleTable Gsm = Some GSM_EDRX"
| "cycleTable Utran = Some UTRAN_EDRX"
| "cycleTable Eutran_Wb = Some EUTRAN_WB_EDRX"
| "cycleTable Eutran_Nb = Some EUTRAN_NB_EDRX"

fun ptwTable :: "edrx_access \<Rightarrow> (int \<times> int) list option" where
  "ptwTable Eutran_Wb = Some EUTRAN_WB_PTW"
| "ptwTable Eutran_Nb = Some EUTRAN_NB_PTW"
| "ptwTable _ = None"

fun table_at :: "(int \<times> int) list \<Rightarrow> jsnum \<Rightarrow> int option" where
  "table_at table NaN = None"
| "table_at table (Num code) = map_of table code"

definition decodeEdrxCycle :: "jstr \<Rightarrow> edrx_access \<Rightarrow> int option" where
  "decodeEdrxCycle binary accessType =
     (case cycleTable accessType of None \<Rightarrow> None | Some table \<Rightarrow> table_at table (js_parseInt 2 binary))"

definition decodePagingWindow :: "jstr \<Rightarrow> edrx_access \<Rightarrow> int option" where
  "decodePagingWindow binary accessType =
     (case ptwTable accessType of None \<Rightarrow> None | Some table \<Rightarrow> table_at table (js_parseInt 2 binary))"

text \<open>The first entry with the least difference.\<close>

fun closest :: "int \<Rightarrow> (int \<times> int) option \<Rightarrow> (int \<times> int) list \<Rightarrow> (int \<times> int) option" where
  "closest seconds best [] = best"
| "closest seconds best ((code, cycleSec) # table) =
     (let diff = \<bar>cycleSec - seconds\<bar>
      in closest seconds
           (if (case best of None \<Rightarrow> True | Some (_, bestDiff) \<Rightarrow> diff < bestDiff) then Some (code, diff) else best) table)"

fun access_name :: "edrx_access \<Rightarrow> jstr" where
  "access_name No_Edrx = js ''none''"
| "access_name Ec_Gsm_Iot = js ''ecGsmIot''"
| "access_name Gsm = js ''gsm''"
| "access_name Utran = js ''utran''"
| "access_name Eutran_Wb = js ''eutranWb''"
| "access_name Eutran_Nb = js ''eutranNb''"

text \<open>The printed form of the seconds, kept by the errors as the raw text, is a parameter.\<close>

definition encodeEdrxCycle :: "(int \<Rightarrow> jstr) \<Rightarrow> int \<Rightarrow> edrx_access \<Rightarrow> cellary_error + jstr" where
  "encodeEdrxCycle show seconds accessType =
     (case cycleTable accessType of
        None \<Rightarrow> Inl (ParseError (js ''eDRX not supported for '' @ [39] @ access_name accessType @ [39]) (show seconds))
      | Some table \<Rightarrow>
          (case closest seconds None table of
             None \<Rightarrow> Inl (ParseError (js ''No valid eDRX cycle for '' @ [39] @ access_name accessType @ [39]) (show seconds))
           | Some (bestCode, _) \<Rightarrow> Inr (js_padStart 4 48 (js_toString 2 (nat bestCode)))))"

section \<open>Codes\<close>

lemma timer_code_facts:
  assumes "0 \<le> u" "u \<le> 6" "0 \<le> v" "v \<le> 31"
  shows "length (timer_code u v) = 8" "js_int32 (js_parseInt 2 (timer_code u v)) = 32 * u + v"
    "drop_bit 5 (32 * u + v) AND 7 = u" "(32 * u + v) AND 31 = v"
proof -
  have "push_bit 5 u OR v = concat_bit 5 v u"
    using assms by (simp add: concat_bit_def take_bit_int_eq_self or.commute)
  then have or: "push_bit 5 u OR v = 32 * u + v"
    using assms by (simp add: concat_bit_eq take_bit_int_eq_self push_bit_eq_mult)
  have n: "nat (32 * u + v) < 2 ^ Suc 7" using assms by simp
  then have "length (js_toString 2 (nat (32 * u + v))) \<le> 8" using length_js_toString[of 2 _ 7] by simp
  then show "length (timer_code u v) = 8" by (simp add: timer_code_def js_padStart_def or)
  have "js_int32 (Num (32 * u + v)) = 32 * u + v" using assms by (intro js_int32_small) simp_all
  then show "js_int32 (js_parseInt 2 (timer_code u v)) = 32 * u + v"
    using assms by (simp add: timer_code_def js_padStart_def or js_parse_padded)
  have "(32 * u + v) div 32 = u" "(32 * u + v) mod 32 = v" using assms by auto
  moreover have "x AND 7 = x mod 8" "x AND 31 = x mod 32" for x :: int
    using take_bit_eq_mask[of 3 x] take_bit_eq_mask[of 5 x] by (simp_all add: mask_eq_exp_minus_1 take_bit_eq_mod)
  ultimately show "drop_bit 5 (32 * u + v) AND 7 = u" "(32 * u + v) AND 31 = v"
    using assms by (simp_all add: drop_bit_eq_div)
qed

definition timer_units :: "(int \<times> int) list \<Rightarrow> bool" where
  "timer_units units \<longleftrightarrow> distinct (map fst units) \<and> list_all (\<lambda>(u, sec). 0 \<le> u \<and> u \<le> 6 \<and> 0 < sec) units"

lemma find_key: "distinct (map fst xs) \<Longrightarrow> (k, v) \<in> set xs \<Longrightarrow> find (\<lambda>e. fst e = k) xs = Some (k, v)"
  by (induction xs) (auto intro: rev_image_eqI)

lemma decode_code:
  assumes "timer_units units" "(u, sec) \<in> set units" "0 \<le> v" "v \<le> 31"
  shows "decode_timer units (timer_code u v) = Some (v * sec)"
proof -
  have u: "0 \<le> u" "u \<le> 6" using assms(1,2) by (auto simp: timer_units_def list_all_iff)
  note facts = timer_code_facts[OF u assms(3,4)]
  have "find (\<lambda>e. fst e = u) units = Some (u, sec)" using assms(1,2) find_key by (auto simp: timer_units_def)
  then show ?thesis using facts u by (simp add: decode_timer_def Let_def)
qed

lemma decoded_shape:
  assumes "decode_timer units b = Some s"
  shows "\<exists>u sec v. (u, sec) \<in> set units \<and> 0 \<le> v \<and> v \<le> 31 \<and> s = v * sec"
proof -
  let ?v = "js_int32 (js_parseInt 2 b) AND 31"
  have "?v = js_int32 (js_parseInt 2 b) mod 32"
    using take_bit_eq_mask[of 5 "js_int32 (js_parseInt 2 b)"] by (simp add: mask_eq_exp_minus_1 take_bit_eq_mod)
  then have "0 \<le> ?v" "?v \<le> 31" by simp_all
  moreover obtain e where "find (\<lambda>entry. fst entry = drop_bit 5 (js_int32 (js_parseInt 2 b)) AND 7) units = Some e" "s = ?v * snd e"
    using assms by (auto simp: decode_timer_def Let_def split: if_splits option.splits)
  then have "(fst e, snd e) \<in> set units" "s = ?v * snd e" by (auto simp: find_Some_iff)
  ultimately show ?thesis by blast
qed

lemma exact_code_found:
  assumes "timer_units units" "(u, sec) \<in> set units" "0 \<le> v" "v \<le> 31" "s = v * sec"
  shows "\<exists>u' sec' v'. exact_code s units = Some (timer_code u' v') \<and> (u', sec') \<in> set units \<and> 0 \<le> v' \<and> v' \<le> 31 \<and> s = v' * sec'"
  using assms
proof (induction units)
  case (Cons e units)
  obtain u0 sec0 where e: "e = (u0, sec0)" by fastforce
  have pos: "0 < sec0" "timer_units units" using Cons.prems(1) e by (auto simp: timer_units_def)
  show ?case
  proof (cases "s mod sec0 = 0 \<and> 0 \<le> s div sec0 \<and> s div sec0 \<le> 31")
    case True
    then show ?thesis using e by (intro exI[of _ u0] exI[of _ sec0] exI[of _ "s div sec0"]) auto
  next
    case False
    then have "(u, sec) \<noteq> e" using Cons.prems(3-5) e pos(1) by auto
    then have "(u, sec) \<in> set units" using Cons.prems(2) by simp
    from Cons.IH[OF pos(2) this Cons.prems(3-5)] show ?thesis using False e by auto
  qed
qed simp

lemma exact_code_sound:
  "exact_code s units = Some c \<Longrightarrow> \<exists>u sec v. (u, sec) \<in> set units \<and> 0 \<le> v \<and> v \<le> 31 \<and> s = v * sec"
proof (induction units)
  case (Cons e units)
  obtain u sec where e: "e = (u, sec)" by fastforce
  show ?case
  proof (cases "s mod sec = 0 \<and> 0 \<le> s div sec \<and> s div sec \<le> 31")
    case True
    then show ?thesis using e by (intro exI[of _ u] exI[of _ sec] exI[of _ "s div sec"]) auto
  next
    case False
    then show ?thesis using Cons e by (auto split: if_splits)
  qed
qed simp

lemma encode_decode:
  assumes "timer_units units" "decode_timer units b = Some s"
  shows "\<exists>c. encode_timer name units s = Inr c \<and> length c = 8 \<and> decode_timer units c = Some s"
proof -
  obtain u sec v where "(u, sec) \<in> set units" "0 \<le> v" "v \<le> 31" "s = v * sec" using decoded_shape[OF assms(2)] by blast
  then obtain u' sec' v' where c: "exact_code s units = Some (timer_code u' v')" "(u', sec') \<in> set units" "0 \<le> v'" "v' \<le> 31" "s = v' * sec'"
    using exact_code_found[OF assms(1)] by metis
  have "0 \<le> u'" "u' \<le> 6" using assms(1) c(2) by (auto simp: timer_units_def list_all_iff)
  then show ?thesis
    using c decode_code[OF assms(1) c(2-4)] timer_code_facts(1)[of u' v'] by (simp add: encode_timer_def)
qed

lemma units_ok: "timer_units GPRS_TIMER_UNITS" "timer_units GPRS_TIMER3_UNITS" "timer_units (rev GPRS_TIMER3_UNITS)"
  by (simp_all add: timer_units_def GPRS_TIMER_UNITS_def GPRS_TIMER3_UNITS_def)

lemma decode_timer_rev:
  assumes "distinct (map fst units)"
  shows "decode_timer (rev units) b = decode_timer units b"
proof -
  have "find (\<lambda>e. fst e = k) (rev units) = find (\<lambda>e. fst e = k) units" for k
  proof (cases "find (\<lambda>e. fst e = k) units")
    case None
    then show ?thesis using find_None_iff[of "\<lambda>e. fst e = k" "rev units"] find_None_iff[of "\<lambda>e. fst e = k" units] by simp
  next
    case (Some e)
    then have "(k, snd e) \<in> set (rev units)" "e = (k, snd e)" by (auto simp: find_Some_iff)
    moreover have "distinct (map fst (rev units))" using assms by (simp add: rev_map[symmetric])
    ultimately show ?thesis using find_key[of "rev units" k "snd e"] Some by simp
  qed
  then show ?thesis by (simp add: decode_timer_def Let_def)
qed

lemma closest_stays: "closest sec (Some (c, 0)) table = Some (c, 0)"
  by (induction table) auto

lemma closest_exact:
  assumes "(code, sec) \<in> set table" "distinct (map snd table)" "case best of None \<Rightarrow> True | Some (_, diff) \<Rightarrow> 0 < diff"
  shows "closest sec best table = Some (code, 0)"
  using assms
proof (induction table arbitrary: best)
  case (Cons e table)
  show ?case
  proof (cases "e = (code, sec)")
    case True
    then show ?thesis using Cons.prems(3) by (auto simp: closest_stays split: option.splits)
  next
    case False
    then have tail: "(code, sec) \<in> set table" using Cons.prems(1) by simp
    then have "snd e \<noteq> sec" using Cons.prems(2) by (force intro: rev_image_eqI)
    then show ?thesis using Cons.IH[OF tail] Cons.prems(2,3) by (cases e) (auto split: option.splits)
  qed
qed simp

definition edrx_table :: "(int \<times> int) list \<Rightarrow> bool" where
  "edrx_table table \<longleftrightarrow> distinct (map snd table) \<and> list_all (\<lambda>(code, sec). 0 \<le> code \<and> code < 16) table"

lemma edrx_tables: "cycleTable a = Some table \<Longrightarrow> edrx_table table"
  by (cases a) (auto simp: edrx_table_def EUTRAN_WB_EDRX_def EUTRAN_NB_EDRX_def UTRAN_EDRX_def GSM_EDRX_def)

lemma edrx_encoded:
  assumes "decodeEdrxCycle b a = Some s"
  shows "\<exists>c. encodeEdrxCycle show s a = Inr c \<and> length c = 4 \<and> decodeEdrxCycle c a = Some s"
proof -
  obtain table code where t: "cycleTable a = Some table" "map_of table code = Some s"
    using assms by (cases "js_parseInt 2 b") (auto simp: decodeEdrxCycle_def split: option.splits)
  have "closest s None table = Some (code, 0)" "0 \<le> code" "code < 16"
    using edrx_tables[OF t(1)] map_of_SomeD[OF t(2)] closest_exact[of code s table None]
    unfolding edrx_table_def list_all_iff by auto
  moreover from this have "length (js_toString 2 (nat code)) \<le> 4" using length_js_toString[of 2 "nat code" 3] by simp
  ultimately show ?thesis
    using t by (simp add: encodeEdrxCycle_def decodeEdrxCycle_def js_padStart_def js_parse_padded)
qed



lemma zero_code: "timer_code 6 0 = js ''11000000''"
proof -
  have "timer_code 6 0 = [49, 49, 48, 48, 48, 48, 48, 48]"
    by (simp add: timer_code_def js_padStart_def js_toString_step push_bit_eq_mult)
  also have "\<dots> = js ''11000000''" by code_simp
  finally show ?thesis .
qed

text \<open>The fallback of the third timer is not the nearest code: every positive duration below 576000 seconds
  that no unit divides suitably is encoded as \<open>11000000\<close>, zero times 320 hours.\<close>

theorem timer3_fallback_zero:
  assumes "0 < s" "s < 576000" "\<nexists>b. decodeGprsTimer3 b = Some s"
  shows "encodeGprsTimer3 s = Inr (js ''11000000'') \<and> decodeGprsTimer3 (js ''11000000'') = Some 0"
proof -
  have "exact_code s (rev GPRS_TIMER3_UNITS) = None"
  proof (rule ccontr)
    assume "exact_code s (rev GPRS_TIMER3_UNITS) \<noteq> None"
    then obtain u sec v where "(u, sec) \<in> set GPRS_TIMER3_UNITS" "0 \<le> v" "v \<le> 31" "s = v * sec"
      using exact_code_sound by fastforce
    then have "decodeGprsTimer3 (timer_code u v) = Some s" using decode_code[OF units_ok(2)] by (simp add: decodeGprsTimer3_def)
    then show False using assms(3) by blast
  qed
  moreover have "js_round_quotient s 1152000 = 0" using assms(1,2) by (simp add: js_round_quotient_def)
  ultimately have "encodeGprsTimer3 s = Inr (timer_code 6 0)"
    by (simp add: encodeGprsTimer3_def encode_timer_def GPRS_TIMER3_UNITS_def)
  moreover have "decodeGprsTimer3 (timer_code 6 0) = Some (0 * 1152000)"
    unfolding decodeGprsTimer3_def by (rule decode_code[OF units_ok(2)]) (simp_all add: GPRS_TIMER3_UNITS_def)
  ultimately show ?thesis by (simp add: zero_code)
qed

lemma timer3_fallback_zero_witness:
  "(\<nexists>b. decodeGprsTimer3 b = Some 61) \<and> encodeGprsTimer3 61 = Inr (js ''11000000'')"
proof -
  have no: "\<nexists>b. decodeGprsTimer3 b = Some 61"
  proof
    assume "\<exists>b. decodeGprsTimer3 b = Some 61"
    then obtain u sec v where "(u, sec) \<in> set GPRS_TIMER3_UNITS" "61 = v * sec"
      using decoded_shape unfolding decodeGprsTimer3_def by blast
    moreover from this(1) have "even sec" by (auto simp: GPRS_TIMER3_UNITS_def)
    ultimately have "even (61 :: int)" by (metis dvd_mult)
    then show False by simp
  qed
  then show ?thesis using timer3_fallback_zero[of 61] by simp
qed

end
