(* ===== verification/Bytes.thy ===== *)
theory Bytes imports Line_Assembler begin

text \<open>
  Byte buffers as the sources use them (\<^verbatim>\<open>Buffer\<close>, \<^verbatim>\<open>Uint8Array\<close>, \<^verbatim>\<open>DataView\<close>): a buffer is a list of
  octets, a multi-byte field is read and written at an offset. \<open>utf8_encode\<close> is \<^verbatim>\<open>Buffer.from(s, 'utf-8')\<close>,
  \<open>utf8_decode\<close> is \<^verbatim>\<open>toString('utf-8')\<close>, which keeps a leading byte order mark.
\<close>

section \<open>Fields\<close>

definition byte_at :: "u8s \<Rightarrow> nat \<Rightarrow> nat" where
  "byte_at bs i = (if i < length bs then bs ! i else 0)"

definition le32 :: "nat \<Rightarrow> u8s" where
  "le32 n = [n mod 256, n div 256 mod 256, n div 65536 mod 256, n div 16777216 mod 256]"

definition read_le32 :: "u8s \<Rightarrow> nat \<Rightarrow> nat" where
  "read_le32 bs i = byte_at bs i + 256 * byte_at bs (i + 1) + 65536 * byte_at bs (i + 2) + 16777216 * byte_at bs (i + 3)"

definition octets :: "u8s \<Rightarrow> bool" where
  "octets bs \<longleftrightarrow> list_all (\<lambda>b. b < 256) bs"

lemma length_le32 [simp]: "length (le32 n) = 4"
  by (simp add: le32_def)

lemma octets_simps [simp]: "octets []" "octets (b # bs) \<longleftrightarrow> b < 256 \<and> octets bs" "octets (bs @ cs) \<longleftrightarrow> octets bs \<and> octets cs"
  by (simp_all add: octets_def)

lemma octets_le32 [simp]: "octets (le32 n)"
  by (simp add: le32_def)

lemma octets_drop: "octets bs \<Longrightarrow> octets (drop n bs)"
  by (auto simp: octets_def list_all_iff dest: in_set_dropD)

lemma octets_take: "octets bs \<Longrightarrow> octets (take n bs)"
  by (auto simp: octets_def list_all_iff dest: in_set_takeD)

lemma le32_value: "n < 2 ^ 32 \<Longrightarrow> (n :: nat) mod 256 + 256 * (n div 256 mod 256) + 65536 * (n div 65536 mod 256)
    + 16777216 * (n div 16777216 mod 256) = n"
proof -
  assume n: "n < 2 ^ 32"
  have 1: "n = 256 * (n div 256) + n mod 256" by simp
  have 2: "n div 256 = 256 * (n div 65536) + n div 256 mod 256"
    using div_mult2_eq[of n 256 256] by (simp add: mult.commute)
  have 3: "n div 65536 = 256 * (n div 16777216) + n div 65536 mod 256"
    using div_mult2_eq[of n 65536 256] by (simp add: mult.commute)
  have 4: "n div 16777216 mod 256 = n div 16777216" using n by simp
  show ?thesis using 1 2 3 4 by linarith
qed

lemma read_le32_at:
  assumes "n < 2 ^ 32" "length pre = i"
  shows "read_le32 (pre @ le32 n @ post) i = n"
  using assms le32_value[OF assms(1)] by (simp add: read_le32_def byte_at_def le32_def nth_append)

lemma read_le32_lt: "octets bs \<Longrightarrow> read_le32 bs i < 2 ^ 32"
proof -
  assume "octets bs"
  then have "byte_at bs j < 256" for j by (auto simp: byte_at_def octets_def list_all_length)
  from this[of i] this[of "i + 1"] this[of "i + 2"] this[of "i + 3"] show ?thesis by (simp add: read_le32_def)
qed

lemma read_le32_append: "i + 4 \<le> length bs \<Longrightarrow> read_le32 (bs @ cs) i = read_le32 bs i"
  by (simp add: read_le32_def byte_at_def nth_append)

section \<open>Text\<close>

definition utf8_code :: "nat \<Rightarrow> u8s" where
  "utf8_code cp =
     (if cp < 128 then [cp]
      else if cp < 2048 then [192 + cp div 64, 128 + cp mod 64]
      else if cp < 65536 then [224 + cp div 4096, 128 + cp div 64 mod 64, 128 + cp mod 64]
      else [240 + cp div 262144, 128 + cp div 4096 mod 64, 128 + cp div 64 mod 64, 128 + cp mod 64])"

text \<open>An unpaired surrogate becomes the replacement character.\<close>

fun utf8_encode :: "jstr \<Rightarrow> u8s" where
  "utf8_encode [] = []"
| "utf8_encode (u # us) =
     (if 55296 \<le> u \<and> u < 56320 then
        (case us of
           v # vs \<Rightarrow>
             if 56320 \<le> v \<and> v < 57344
             then utf8_code (65536 + (u - 55296) * 1024 + (v - 56320)) @ utf8_encode vs
             else utf8_code 65533 @ utf8_encode us
         | [] \<Rightarrow> utf8_code 65533)
      else if 56320 \<le> u \<and> u < 57344 then utf8_code 65533 @ utf8_encode us
      else utf8_code u @ utf8_encode us)"

definition utf8_decode :: "u8s \<Rightarrow> jstr" where
  "utf8_decode bs = concat (map utf16_units (utf8_run utf8_idle bs))"

end
