(* ===== verification/Adb_Wire.thy ===== *)
theory Adb_Wire imports Bytes Errors begin

text \<open>
  \<^verbatim>\<open>packages/core/src/protocols/adb/wire.ts\<close> with \<^verbatim>\<open>constants.ts\<close> and \<^verbatim>\<open>types.ts\<close>: the ADB connection. The
  record \<open>adb_conn\<close> holds the fields of the class. An asynchronous method is cut at its \<open>await\<close>s: what it
  does after one is an \<open>adb_call\<close>, a continuation that waits for a message. \<open>waiters\<close> is the map \<open>_streams\<close>,
  \<open>timers\<close> the reads whose promise is not settled, with their timers running, and \<open>ready\<close> the continuations
  whose promise is settled, in the order in which the runtime will run them; the event \<open>Tick\<close> runs the first.
  Callers are told apart by a number that each call carries. Callbacks of the users are actions.
\<close>

section \<open>Messages\<close>

definition A_CNXN :: nat where "A_CNXN = 0x4e584e43"
definition A_OPEN :: nat where "A_OPEN = 0x4e45504f"
definition A_WRTE :: nat where "A_WRTE = 0x45545257"
definition A_OKAY :: nat where "A_OKAY = 0x59414b4f"
definition A_CLSE :: nat where "A_CLSE = 0x45534c43"
definition A_AUTH :: nat where "A_AUTH = 0x48545541"
definition ADB_VERSION :: nat where "ADB_VERSION = 0x01000000"
definition ADB_MAX_PAYLOAD :: nat where "ADB_MAX_PAYLOAD = 4096"
definition ADB_HEADER_SIZE :: nat where "ADB_HEADER_SIZE = 24"

record adb_message =
  msg_command :: nat
  msg_arg0 :: nat
  msg_arg1 :: nat
  msg_payload :: u8s

text \<open>The mask \<open>& 0xffff_ffff\<close> makes a signed 32-bit number.\<close>

definition checksum :: "u8s \<Rightarrow> int" where
  "checksum data = js_int32 (Num (int (sum_list data)))"

text \<open>\<open>writeUInt32LE\<close> throws for a value that is not an unsigned 32-bit number.\<close>

definition write_uint32 :: "int \<Rightarrow> u8s option" where
  "write_uint32 v = (if 0 \<le> v \<and> v < 2 ^ 32 then Some (le32 (nat v)) else None)"

definition serializeHeader :: "nat \<Rightarrow> nat \<Rightarrow> nat \<Rightarrow> u8s \<Rightarrow> u8s option" where
  "serializeHeader command arg0 arg1 payload =
     map_option concat (those
       [write_uint32 (int command), write_uint32 (int arg0), write_uint32 (int arg1),
        write_uint32 (int (length payload)), write_uint32 (checksum payload),
        write_uint32 (int ((command XOR 0xffffffff) mod 2 ^ 32))])"

definition parseHeader :: "u8s \<Rightarrow> nat \<times> nat \<times> nat \<times> nat" where
  "parseHeader buf = (read_le32 buf 0, read_le32 buf 4, read_le32 buf 8, read_le32 buf 12)"

section \<open>State\<close>

datatype wire_error = Wire_Error cellary_error | Range_Error

datatype adb_call =
    Await_Cnxn nat
  | Await_Shell_Ok nat nat jstr
  | Await_Shell_Data nat nat nat "u8s list"
  | Await_Stream_Ok nat nat jstr
  | Await_Ack nat nat

datatype settled_read = Got adb_message | Rejected wire_error

record adb_conn =
  buffer :: u8s
  last_id :: nat
  conn_closed :: bool
  waiters :: "(nat \<times> nat) list"
  handlers :: "nat list"
  unread :: "(nat \<times> adb_message list) list"
  next_waiter :: nat
  timers :: "(nat \<times> nat \<times> adb_call) list"
  ready :: "(adb_call \<times> settled_read) list"
  listening :: "nat list"
  watching :: "nat list"
  notifies :: bool

datatype adb_action =
    Wire u8s
  | Connected nat
  | Shell_Done nat jstr
  | Stream_Opened nat nat nat
  | Write_Done nat
  | Call_Failed nat wire_error
  | Stream_Data nat u8s
  | Stream_Closed nat
  | Disconnected
  | Destroyed

definition new_conn :: adb_conn where
  "new_conn = \<lparr>buffer = [], last_id = 0, conn_closed = False, waiters = [], handlers = [], unread = [],
     next_waiter = 0, timers = [], ready = [], listening = [], watching = [], notifies = False\<rparr>"

definition unread_of :: "adb_conn \<Rightarrow> nat \<Rightarrow> adb_message list" where
  "unread_of c sid = (case map_of (unread c) sid of Some q \<Rightarrow> q | None \<Rightarrow> [])"

section \<open>Operations\<close>

definition send :: "adb_conn \<Rightarrow> nat \<Rightarrow> nat \<Rightarrow> nat \<Rightarrow> u8s \<Rightarrow> wire_error + adb_action list" where
  "send c command arg0 arg1 payload =
     (if conn_closed c then Inr []
      else
        (case serializeHeader command arg0 arg1 payload of
           None \<Rightarrow> Inl Range_Error
         | Some header \<Rightarrow> Inr (Wire header # (if payload = [] then [] else [Wire payload]))))"

text \<open>A message that is sent with arguments known to be in range.\<close>

definition send_plain :: "adb_conn \<Rightarrow> nat \<Rightarrow> nat \<Rightarrow> nat \<Rightarrow> adb_action list" where
  "send_plain c command arg0 arg1 = (case send c command arg0 arg1 [] of Inr out \<Rightarrow> out | Inl _ \<Rightarrow> [])"

definition takePending :: "adb_conn \<Rightarrow> nat \<Rightarrow> (adb_message \<times> adb_conn) option" where
  "takePending c sid =
     (case unread_of c sid of
        [] \<Rightarrow> None
      | m # q \<Rightarrow> Some (m, c\<lparr>unread := (if q = [] then map_delete sid (unread c) else map_set sid q (unread c))\<rparr>))"

definition cleanupStream :: "adb_conn \<Rightarrow> nat \<Rightarrow> adb_conn" where
  "cleanupStream c sid =
     c\<lparr>waiters := map_delete sid (waiters c), handlers := filter (\<lambda>h. h \<noteq> sid) (handlers c),
       unread := map_delete sid (unread c)\<rparr>"

definition settle_waiter :: "adb_conn \<Rightarrow> nat \<Rightarrow> nat \<Rightarrow> settled_read \<Rightarrow> adb_conn" where
  "settle_waiter c sid wid r =
     (case map_of (timers c) wid of
        None \<Rightarrow> c\<lparr>waiters := map_delete sid (waiters c)\<rparr>
      | Some (_, call) \<Rightarrow>
          c\<lparr>waiters := map_delete sid (waiters c), timers := map_delete wid (timers c), ready := ready c @ [(call, r)]\<rparr>)"

definition target_id :: "adb_message \<Rightarrow> nat" where
  "target_id m = (if msg_command m = A_CNXN \<or> msg_command m = A_AUTH then 0 else msg_arg1 m)"

definition deliver :: "adb_conn \<Rightarrow> nat \<Rightarrow> adb_message \<Rightarrow> adb_conn" where
  "deliver c sid m =
     (case map_of (waiters c) sid of
        Some wid \<Rightarrow> settle_waiter c sid wid (Got m)
      | None \<Rightarrow> c\<lparr>unread := map_set sid (unread_of c sid @ [m]) (unread c)\<rparr>)"

definition close_handler :: "adb_conn \<Rightarrow> nat \<Rightarrow> adb_action list" where
  "close_handler c sid = (if sid \<in> set (watching c) then [Stream_Closed sid] else [])"

definition routeMessage :: "adb_conn \<Rightarrow> adb_message \<Rightarrow> adb_conn \<times> adb_action list" where
  "routeMessage c m =
     (let sid = target_id m
      in if sid \<in> set (handlers c) \<and> msg_command m = A_WRTE then
           (c, (if sid \<in> set (listening c) then [Stream_Data sid (msg_payload m)] else [])
               @ send_plain c A_OKAY sid (msg_arg0 m))
         else if sid \<in> set (handlers c) \<and> msg_command m = A_CLSE then
           (c\<lparr>handlers := filter (\<lambda>h. h \<noteq> sid) (handlers c)\<rparr>, close_handler c sid)
         else (deliver c sid m, []))"

definition tryParseMessage :: "u8s \<Rightarrow> (adb_message \<times> u8s) option" where
  "tryParseMessage buf =
     (if length buf < ADB_HEADER_SIZE then None
      else
        (let (command, arg0, arg1, dataLength) = parseHeader buf; totalLength = ADB_HEADER_SIZE + dataLength
         in if length buf < totalLength then None
            else Some (\<lparr>msg_command = command, msg_arg0 = arg0, msg_arg1 = arg1,
                         msg_payload = drop ADB_HEADER_SIZE (take totalLength buf)\<rparr>, drop totalLength buf)))"

text \<open>All complete messages of a buffer, in order, and what is left.\<close>

function parse_all :: "u8s \<Rightarrow> adb_message list \<times> u8s" where
  "parse_all buf =
     (case tryParseMessage buf of
        None \<Rightarrow> ([], buf)
      | Some (m, rest) \<Rightarrow> (let (ms, rest') = parse_all rest in (m # ms, rest')))"
  by pat_completeness auto

termination
  by (relation "measure length") (auto simp: tryParseMessage_def Let_def ADB_HEADER_SIZE_def split: if_splits prod.splits)

declare parse_all.simps [simp del]

fun route_all :: "adb_conn \<Rightarrow> adb_message list \<Rightarrow> adb_conn \<times> adb_action list" where
  "route_all c [] = (c, [])"
| "route_all c (m # ms) = (let (c', out) = routeMessage c m; (c'', out') = route_all c' ms in (c'', out @ out'))"

text \<open>The loop takes a message off the buffer and routes it; routing does not look at the buffer.\<close>

definition drainBuffer :: "adb_conn \<Rightarrow> adb_conn \<times> adb_action list" where
  "drainBuffer c = (let (ms, rest) = parse_all (buffer c) in route_all (c\<lparr>buffer := rest\<rparr>) ms)"

definition onData :: "adb_conn \<Rightarrow> u8s \<Rightarrow> adb_conn \<times> adb_action list" where
  "onData c chunk = drainBuffer (c\<lparr>buffer := buffer c @ chunk\<rparr>)"

definition readStreamMessage :: "adb_conn \<Rightarrow> nat \<Rightarrow> adb_call \<Rightarrow> adb_conn \<times> adb_action list" where
  "readStreamMessage c sid call =
     (case takePending c sid of
        Some (m, c') \<Rightarrow> (c'\<lparr>ready := ready c' @ [(call, Got m)]\<rparr>, [])
      | None \<Rightarrow>
          (let (c1, out) = drainBuffer c
           in case takePending c1 sid of
                Some (m, c2) \<Rightarrow> (c2\<lparr>ready := ready c2 @ [(call, Got m)]\<rparr>, out)
              | None \<Rightarrow>
                  (c1\<lparr>waiters := map_set sid (next_waiter c1) (waiters c1), next_waiter := next_waiter c1 + 1,
                      timers := timers c1 @ [(next_waiter c1, sid, call)]\<rparr>, out)))"

section \<open>Errors\<close>

definition transport_error :: "jstr \<Rightarrow> wire_error" where
  "transport_error m = Wire_Error (TransportError m)"

definition closed_error :: wire_error where
  "closed_error = transport_error (js ''ADB connection is closed'')"

definition hex_command :: "nat \<Rightarrow> jstr" where
  "hex_command command = js ''0x'' @ js_toString 16 command"

section \<open>Continuations\<close>

definition send_then ::
  "adb_conn \<Rightarrow> nat \<Rightarrow> nat \<Rightarrow> nat \<Rightarrow> u8s \<Rightarrow> (wire_error \<Rightarrow> adb_conn \<times> adb_action list) \<Rightarrow>
    (adb_conn \<times> adb_action list) \<Rightarrow> adb_conn \<times> adb_action list" where
  "send_then c command arg0 arg1 payload failed continued =
     (case send c command arg0 arg1 payload of
        Inl e \<Rightarrow> failed e
      | Inr out \<Rightarrow> (let (c', out') = continued in (c', out @ out')))"

definition resume_shell_ok :: "adb_conn \<Rightarrow> nat \<Rightarrow> nat \<Rightarrow> jstr \<Rightarrow> adb_message \<Rightarrow> adb_conn \<times> adb_action list" where
  "resume_shell_ok c cid localId command okay =
     (if msg_command okay = A_CLSE then
        (cleanupStream c localId, [Call_Failed cid (transport_error (js ''ADB shell command rejected: '' @ command))])
      else if msg_command okay \<noteq> A_OKAY then
        (cleanupStream c localId,
         [Call_Failed cid (transport_error (js ''Expected OKAY, got '' @ hex_command (msg_command okay)))])
      else readStreamMessage c localId (Await_Shell_Data cid localId (msg_arg0 okay) []))"

definition resume_shell_data ::
  "adb_conn \<Rightarrow> nat \<Rightarrow> nat \<Rightarrow> nat \<Rightarrow> u8s list \<Rightarrow> adb_message \<Rightarrow> adb_conn \<times> adb_action list" where
  "resume_shell_data c cid localId remoteId chunks m =
     (if msg_command m = A_WRTE then
        send_then c A_OKAY localId remoteId [] (\<lambda>e. (cleanupStream c localId, [Call_Failed cid e]))
          (readStreamMessage c localId (Await_Shell_Data cid localId remoteId (chunks @ [msg_payload m])))
      else if msg_command m = A_CLSE then
        send_then c A_CLSE localId remoteId [] (\<lambda>e. (cleanupStream c localId, [Call_Failed cid e]))
          (cleanupStream c localId, [Shell_Done cid (utf8_decode (concat chunks))])
      else readStreamMessage c localId (Await_Shell_Data cid localId remoteId chunks))"

definition resume_stream_ok :: "adb_conn \<Rightarrow> nat \<Rightarrow> nat \<Rightarrow> jstr \<Rightarrow> adb_message \<Rightarrow> adb_conn \<times> adb_action list" where
  "resume_stream_ok c cid localId destination okay =
     (if msg_command okay = A_CLSE then
        (cleanupStream c localId, [Call_Failed cid (transport_error (js ''ADB stream rejected: '' @ destination))])
      else if msg_command okay \<noteq> A_OKAY then
        (cleanupStream c localId,
         [Call_Failed cid (transport_error (js ''Expected OKAY, got '' @ hex_command (msg_command okay)))])
      else (c\<lparr>handlers := handlers c @ (if localId \<in> set (handlers c) then [] else [localId])\<rparr>,
            [Stream_Opened cid localId (msg_arg0 okay)]))"

definition resume_ack :: "adb_conn \<Rightarrow> nat \<Rightarrow> adb_message \<Rightarrow> adb_conn \<times> adb_action list" where
  "resume_ack c cid ack =
     (c, [if msg_command ack \<noteq> A_OKAY
          then Call_Failed cid (transport_error (js ''Expected OKAY after WRTE, got '' @ hex_command (msg_command ack)))
          else Write_Done cid])"

text \<open>A failed handshake closes the connection.\<close>

definition handshake_failed :: "adb_conn \<Rightarrow> nat \<Rightarrow> wire_error \<Rightarrow> adb_conn \<times> adb_action list" where
  "handshake_failed c cid e = (c\<lparr>conn_closed := True\<rparr>, [Destroyed, Call_Failed cid e])"

definition resume_cnxn :: "adb_conn \<Rightarrow> nat \<Rightarrow> adb_message \<Rightarrow> adb_conn \<times> adb_action list" where
  "resume_cnxn c cid response =
     (let c' = cleanupStream c 0
      in if msg_command response = A_AUTH then
           handshake_failed c' cid (transport_error (js ''ADB device requires authentication (RSA key exchange). cellary currently only supports insecure adbd connections. On the device, run: setprop ro.adb.secure 0''))
         else if msg_command response \<noteq> A_CNXN then
           handshake_failed c' cid (transport_error (js ''ADB handshake failed: expected CNXN, got '' @ hex_command (msg_command response)))
         else (c', [Connected cid]))"

fun resume :: "adb_conn \<Rightarrow> adb_call \<Rightarrow> settled_read \<Rightarrow> adb_conn \<times> adb_action list" where
  "resume c (Await_Cnxn cid) (Got m) = resume_cnxn c cid m"
| "resume c (Await_Cnxn cid) (Rejected e) = handshake_failed c cid e"
| "resume c (Await_Shell_Ok cid localId command) (Got m) = resume_shell_ok c cid localId command m"
| "resume c (Await_Shell_Ok cid localId command) (Rejected e) = (c, [Call_Failed cid e])"
| "resume c (Await_Shell_Data cid localId remoteId chunks) (Got m) = resume_shell_data c cid localId remoteId chunks m"
| "resume c (Await_Shell_Data cid localId remoteId chunks) (Rejected e) = (cleanupStream c localId, [Call_Failed cid e])"
| "resume c (Await_Stream_Ok cid localId destination) (Got m) = resume_stream_ok c cid localId destination m"
| "resume c (Await_Stream_Ok cid localId destination) (Rejected e) = (c, [Call_Failed cid e])"
| "resume c (Await_Ack cid localId) (Got m) = resume_ack c cid m"
| "resume c (Await_Ack cid localId) (Rejected e) = (c, [Call_Failed cid e])"

section \<open>Calls\<close>

definition handshake :: "adb_conn \<Rightarrow> nat \<Rightarrow> adb_conn \<times> adb_action list" where
  "handshake c cid =
     send_then c A_CNXN ADB_VERSION ADB_MAX_PAYLOAD (utf8_encode (js ''host::'' @ [0])) (handshake_failed c cid)
       (readStreamMessage c 0 (Await_Cnxn cid))"

definition openShell :: "adb_conn \<Rightarrow> nat \<Rightarrow> jstr \<Rightarrow> adb_conn \<times> adb_action list" where
  "openShell c cid command =
     (if conn_closed c then (c, [Call_Failed cid closed_error])
      else
        (let localId = last_id c + 1; c' = c\<lparr>last_id := localId\<rparr>
         in send_then c' A_OPEN localId 0 (utf8_encode (js ''shell:'' @ command @ [0])) (\<lambda>e. (c', [Call_Failed cid e]))
              (readStreamMessage c' localId (Await_Shell_Ok cid localId command))))"

definition openStream :: "adb_conn \<Rightarrow> nat \<Rightarrow> jstr \<Rightarrow> adb_conn \<times> adb_action list" where
  "openStream c cid destination =
     (if conn_closed c then (c, [Call_Failed cid closed_error])
      else
        (let localId = last_id c + 1; c' = c\<lparr>last_id := localId\<rparr>
         in send_then c' A_OPEN localId 0 (utf8_encode (destination @ [0])) (\<lambda>e. (c', [Call_Failed cid e]))
              (readStreamMessage c' localId (Await_Stream_Ok cid localId destination))))"

definition stream_write :: "adb_conn \<Rightarrow> nat \<Rightarrow> nat \<Rightarrow> nat \<Rightarrow> u8s \<Rightarrow> adb_conn \<times> adb_action list" where
  "stream_write c cid localId remoteId data =
     (if conn_closed c then (c, [Call_Failed cid closed_error])
      else send_then c A_WRTE localId remoteId data (\<lambda>e. (c, [Call_Failed cid e]))
             (readStreamMessage c localId (Await_Ack cid localId)))"

definition stream_close :: "adb_conn \<Rightarrow> nat \<Rightarrow> nat \<Rightarrow> adb_conn \<times> adb_action list" where
  "stream_close c localId remoteId =
     (c\<lparr>handlers := filter (\<lambda>h. h \<noteq> localId) (handlers c), unread := map_delete localId (unread c)\<rparr>,
      send_plain c A_CLSE localId remoteId)"

definition conn_close :: "adb_conn \<Rightarrow> adb_conn \<times> adb_action list" where
  "conn_close c =
     (if conn_closed c then (c, [])
      else (c\<lparr>conn_closed := True, handlers := []\<rparr>, concat (map (close_handler c) (handlers c)) @ [Destroyed]))"

fun reject_all :: "adb_conn \<Rightarrow> wire_error \<Rightarrow> (nat \<times> nat) list \<Rightarrow> adb_conn" where
  "reject_all c e [] = c"
| "reject_all c e ((sid, wid) # ws) = reject_all (settle_waiter c sid wid (Rejected e)) e ws"

definition connection_lost :: "adb_conn \<Rightarrow> wire_error \<Rightarrow> adb_conn \<times> adb_action list" where
  "connection_lost c e =
     (if conn_closed c then (c, [])
      else
        ((reject_all (c\<lparr>conn_closed := True\<rparr>) e (waiters c))\<lparr>waiters := [], handlers := []\<rparr>,
         concat (map (close_handler c) (handlers c)) @ (if notifies c then [Disconnected] else [])))"

definition onClose :: "adb_conn \<Rightarrow> adb_conn \<times> adb_action list" where
  "onClose c = connection_lost c (transport_error (js ''ADB connection closed unexpectedly''))"

definition onError :: "adb_conn \<Rightarrow> jstr \<Rightarrow> adb_conn \<times> adb_action list" where
  "onError c m = connection_lost c (transport_error (js ''ADB socket error: '' @ m))"

definition read_timeout :: "adb_conn \<Rightarrow> nat \<Rightarrow> adb_conn" where
  "read_timeout c wid =
     (case map_of (timers c) wid of
        None \<Rightarrow> c
      | Some (sid, call) \<Rightarrow>
          c\<lparr>waiters := map_delete sid (waiters c), timers := map_delete wid (timers c),
            ready := ready c @ [(call, Rejected (transport_error (js ''ADB message read timeout'')))]\<rparr>)"

section \<open>Events\<close>

datatype adb_event =
    Chunk u8s
  | Tick
  | Read_Timeout nat
  | Handshake nat
  | Open_Shell nat jstr
  | Open_Stream nat jstr
  | Stream_Write nat nat nat u8s
  | Stream_Close nat nat
  | On_Stream_Data nat
  | On_Stream_Close nat
  | On_Disconnect
  | Close_Connection
  | Io_Closed
  | Io_Error jstr

fun adb_step :: "adb_conn \<Rightarrow> adb_event \<Rightarrow> adb_conn \<times> adb_action list" where
  "adb_step c (Chunk chunk) = onData c chunk"
| "adb_step c Tick =
     (case ready c of [] \<Rightarrow> (c, []) | (call, r) # rest \<Rightarrow> resume (c\<lparr>ready := rest\<rparr>) call r)"
| "adb_step c (Read_Timeout wid) = (read_timeout c wid, [])"
| "adb_step c (Handshake cid) = handshake c cid"
| "adb_step c (Open_Shell cid command) = openShell c cid command"
| "adb_step c (Open_Stream cid destination) = openStream c cid destination"
| "adb_step c (Stream_Write cid localId remoteId data) = stream_write c cid localId remoteId data"
| "adb_step c (Stream_Close localId remoteId) = stream_close c localId remoteId"
| "adb_step c (On_Stream_Data sid) = (c\<lparr>listening := sid # listening c\<rparr>, [])"
| "adb_step c (On_Stream_Close sid) = (c\<lparr>watching := sid # watching c\<rparr>, [])"
| "adb_step c On_Disconnect = (c\<lparr>notifies := True\<rparr>, [])"
| "adb_step c Close_Connection = conn_close c"
| "adb_step c Io_Closed = onClose c"
| "adb_step c (Io_Error m) = onError c m"

end
