(* ===== verification/Adb_Wire_Inv.thy ===== *)
theory Adb_Wire_Inv imports Adb_Wire begin

text \<open>
  Framing of the ADB connection, its invariant, and what a step leaves alone: the view that one stream has of
  the connection changes only by messages and operations of that stream.
\<close>

section \<open>Framing\<close>

lemma tryParse_append:
  assumes "tryParseMessage a = Some (m, r)"
  shows "tryParseMessage (a @ b) = Some (m, r @ b)"
proof -
  have len: "24 \<le> length a" "24 + read_le32 a 12 \<le> length a"
    using assms by (auto simp: tryParseMessage_def parseHeader_def Let_def ADB_HEADER_SIZE_def split: if_splits)
  then show ?thesis
    using assms by (auto simp: tryParseMessage_def parseHeader_def Let_def ADB_HEADER_SIZE_def read_le32_append split: if_splits)
qed

lemma parse_all_None: "tryParseMessage buf = None \<Longrightarrow> parse_all buf = ([], buf)"
  by (simp add: parse_all.simps)

lemma parse_all_Some: "tryParseMessage buf = Some (m, r) \<Longrightarrow> parse_all buf = (m # fst (parse_all r), snd (parse_all r))"
  by (simp add: parse_all.simps[of buf] split: prod.splits)

lemma parse_all_append:
  "parse_all (a @ b) = (fst (parse_all a) @ fst (parse_all (snd (parse_all a) @ b)), snd (parse_all (snd (parse_all a) @ b)))"
proof (induction a rule: parse_all.induct)
  case (1 a)
  show ?case
  proof (cases "tryParseMessage a")
    case None
    then show ?thesis by (simp add: parse_all_None)
  next
    case (Some p)
    obtain m r where p: "p = (m, r)" by fastforce
    then have "tryParseMessage (a @ b) = Some (m, r @ b)" using Some tryParse_append by simp
    then show ?thesis using 1 Some p by (simp add: parse_all_Some)
  qed
qed

lemma parse_all_rest: "tryParseMessage (snd (parse_all buf)) = None"
proof (induction buf rule: parse_all.induct)
  case (1 buf)
  then show ?case by (cases "tryParseMessage buf") (auto simp: parse_all_None parse_all_Some)
qed

text \<open>The bytes of a message, as the peer sends it; receivers look at neither checksum nor magic.\<close>

definition wire_message :: "adb_message \<Rightarrow> bool" where
  "wire_message m \<longleftrightarrow> msg_command m < 2 ^ 32 \<and> msg_arg0 m < 2 ^ 32 \<and> msg_arg1 m < 2 ^ 32 \<and> length (msg_payload m) < 2 ^ 32"

definition message_bytes :: "nat \<Rightarrow> nat \<Rightarrow> adb_message \<Rightarrow> u8s" where
  "message_bytes check magic m = le32 (msg_command m) @ le32 (msg_arg0 m) @ le32 (msg_arg1 m) @
     le32 (length (msg_payload m)) @ le32 check @ le32 magic @ msg_payload m"

lemma header_fields:
  assumes "wire_message m"
  shows "parseHeader (message_bytes check magic m @ bs) = (msg_command m, msg_arg0 m, msg_arg1 m, length (msg_payload m))"
  using read_le32_at[of "msg_command m" "[]" 0] read_le32_at[of "msg_arg0 m" "le32 (msg_command m)" 4]
    read_le32_at[of "msg_arg1 m" "le32 (msg_command m) @ le32 (msg_arg0 m)" 8]
    read_le32_at[of "length (msg_payload m)" "le32 (msg_command m) @ le32 (msg_arg0 m) @ le32 (msg_arg1 m)" 12] assms
  by (simp add: wire_message_def parseHeader_def message_bytes_def)

lemma tryParse_message:
  assumes "wire_message m"
  shows "tryParseMessage (message_bytes check magic m @ bs) = Some (m, bs)"
proof -
  have "drop 24 (message_bytes check magic m @ bs) = msg_payload m @ bs"
    "length (message_bytes check magic m) = 24 + length (msg_payload m)"
    by (simp_all add: message_bytes_def)
  then show ?thesis
    using header_fields[OF assms, of check magic bs]
    by (simp add: tryParseMessage_def ADB_HEADER_SIZE_def drop_take)
qed

lemma parse_messages:
  assumes "list_all (\<lambda>(check, magic, m). wire_message m) fs"
  shows "parse_all (concat (map (\<lambda>(check, magic, m). message_bytes check magic m) fs)) = (map (snd \<circ> snd) fs, [])"
  using assms
proof (induction fs)
  case Nil
  then show ?case by (simp add: parse_all_None tryParseMessage_def ADB_HEADER_SIZE_def)
next
  case (Cons f fs)
  obtain check magic m where f: "f = (check, magic, m)" using prod_cases3 by blast
  then show ?case using Cons parse_all_Some[OF tryParse_message] by auto
qed

text \<open>What \<open>send\<close> writes is such a message.\<close>

lemma serialized:
  assumes "serializeHeader command arg0 arg1 payload = Some header"
  shows "\<exists>check magic. header @ payload = message_bytes check magic
      \<lparr>msg_command = command, msg_arg0 = arg0, msg_arg1 = arg1, msg_payload = payload\<rparr>
    \<and> wire_message \<lparr>msg_command = command, msg_arg0 = arg0, msg_arg1 = arg1, msg_payload = payload\<rparr>"
  using assms by (auto simp: serializeHeader_def write_uint32_def message_bytes_def wire_message_def split: if_splits)

section \<open>The invariant\<close>

fun stream_of :: "adb_call \<Rightarrow> nat" where
  "stream_of (Await_Cnxn cid) = 0"
| "stream_of (Await_Shell_Ok cid s command) = s"
| "stream_of (Await_Shell_Data cid s r chunks) = s"
| "stream_of (Await_Stream_Ok cid s destination) = s"
| "stream_of (Await_Ack cid s) = s"

fun caller_of :: "adb_call \<Rightarrow> nat" where
  "caller_of (Await_Cnxn cid) = cid"
| "caller_of (Await_Shell_Ok cid s command) = cid"
| "caller_of (Await_Shell_Data cid s r chunks) = cid"
| "caller_of (Await_Stream_Ok cid s destination) = cid"
| "caller_of (Await_Ack cid s) = cid"

definition drained :: "adb_conn \<Rightarrow> bool" where
  "drained c \<longleftrightarrow> tryParseMessage (buffer c) = None"

definition adb_inv :: "adb_conn \<Rightarrow> bool" where
  "adb_inv c \<longleftrightarrow> drained c \<and>
     (\<forall>s w. map_of (waiters c) s = Some w \<longrightarrow> (\<exists>call. map_of (timers c) w = Some (s, call))) \<and>
     (\<forall>w s call. map_of (timers c) w = Some (s, call) \<longrightarrow> w < next_waiter c \<and> stream_of call = s)"

lemma unread_of_set: "unread_of (c\<lparr>unread := map_set s q (unread c)\<rparr>) t = (if s = t then q else unread_of c t)"
  by (simp add: unread_of_def map_of_map_set)

lemma unread_of_delete: "unread_of (c\<lparr>unread := map_delete s (unread c)\<rparr>) t = (if s = t then [] else unread_of c t)"
  by (simp add: unread_of_def map_of_delete)

lemma drained_drain [simp]: "drained c \<Longrightarrow> drainBuffer c = (c, [])"
  by (simp add: drained_def drainBuffer_def parse_all_None)

lemma take_pending_cases:
  "takePending c s = (case unread_of c s of [] \<Rightarrow> None
    | m # q \<Rightarrow> Some (m, c\<lparr>unread := (if q = [] then map_delete s (unread c) else map_set s q (unread c))\<rparr>))"
  by (rule takePending_def)

text \<open>With an empty buffer a read takes an unread message or waits.\<close>

lemma read_drained:
  assumes "drained c"
  shows "readStreamMessage c s call = (case unread_of c s of
      [] \<Rightarrow> (c\<lparr>waiters := map_set s (next_waiter c) (waiters c), next_waiter := next_waiter c + 1,
              timers := timers c @ [(next_waiter c, s, call)]\<rparr>, [])
    | m # q \<Rightarrow> (c\<lparr>unread := (if q = [] then map_delete s (unread c) else map_set s q (unread c)), ready := ready c @ [(call, Got m)]\<rparr>, []))"
  using assms by (auto simp: readStreamMessage_def takePending_def split: list.splits)

section \<open>The view of a stream\<close>

definition waiting :: "adb_conn \<Rightarrow> nat \<Rightarrow> adb_call option" where
  "waiting c s = (case map_of (waiters c) s of None \<Rightarrow> None | Some w \<Rightarrow> map_option snd (map_of (timers c) w))"

definition ready_of :: "adb_conn \<Rightarrow> nat \<Rightarrow> (adb_call \<times> settled_read) list" where
  "ready_of c s = filter (\<lambda>r. stream_of (fst r) = s) (ready c)"

definition view :: "adb_conn \<Rightarrow> nat \<Rightarrow>
    adb_call option \<times> adb_message list \<times> bool \<times> (adb_call \<times> settled_read) list" where
  "view c s = (waiting c s, unread_of c s, s \<in> set (handlers c), ready_of c s)"

lemma frame_simps [simp]:
  "waiting (c\<lparr>unread := x1\<rparr>) s = waiting c s" "waiting (c\<lparr>ready := x2\<rparr>) s = waiting c s"
  "waiting (c\<lparr>buffer := x3\<rparr>) s = waiting c s" "waiting (c\<lparr>handlers := x4\<rparr>) s = waiting c s"
  "waiting (c\<lparr>last_id := x5\<rparr>) s = waiting c s" "waiting (c\<lparr>conn_closed := x6\<rparr>) s = waiting c s"
  "waiting (c\<lparr>listening := x7\<rparr>) s = waiting c s" "waiting (c\<lparr>watching := x7\<rparr>) s = waiting c s"
  "waiting (c\<lparr>notifies := x8\<rparr>) s = waiting c s"
  "unread_of (c\<lparr>ready := x2\<rparr>) s = unread_of c s" "unread_of (c\<lparr>buffer := x3\<rparr>) s = unread_of c s"
  "unread_of (c\<lparr>handlers := x4\<rparr>) s = unread_of c s" "unread_of (c\<lparr>last_id := x5\<rparr>) s = unread_of c s"
  "unread_of (c\<lparr>conn_closed := x6\<rparr>) s = unread_of c s" "unread_of (c\<lparr>listening := x7\<rparr>) s = unread_of c s"
  "unread_of (c\<lparr>watching := x7\<rparr>) s = unread_of c s" "unread_of (c\<lparr>notifies := x8\<rparr>) s = unread_of c s"
  "unread_of (c\<lparr>waiters := x9\<rparr>) s = unread_of c s" "unread_of (c\<lparr>timers := x10\<rparr>) s = unread_of c s"
  "ready_of (c\<lparr>unread := x1\<rparr>) s = ready_of c s" "ready_of (c\<lparr>buffer := x3\<rparr>) s = ready_of c s"
  "ready_of (c\<lparr>handlers := x4\<rparr>) s = ready_of c s" "ready_of (c\<lparr>last_id := x5\<rparr>) s = ready_of c s"
  "ready_of (c\<lparr>conn_closed := x6\<rparr>) s = ready_of c s" "ready_of (c\<lparr>listening := x7\<rparr>) s = ready_of c s"
  "ready_of (c\<lparr>watching := x7\<rparr>) s = ready_of c s" "ready_of (c\<lparr>notifies := x8\<rparr>) s = ready_of c s"
  "ready_of (c\<lparr>waiters := x9\<rparr>) s = ready_of c s" "ready_of (c\<lparr>timers := x10\<rparr>) s = ready_of c s"
  by (simp_all add: waiting_def unread_of_def ready_of_def cong: option.case_cong)

definition calls :: "adb_conn \<Rightarrow> adb_call set" where
  "calls c = (snd \<circ> snd) ` set (timers c) \<union> fst ` set (ready c)"

lemma inv_waiter: "adb_inv c \<Longrightarrow> map_of (waiters c) s = Some w \<Longrightarrow> \<exists>call. map_of (timers c) w = Some (s, call) \<and> w < next_waiter c"
  unfolding adb_inv_def by blast

lemma inv_timer: "adb_inv c \<Longrightarrow> map_of (timers c) w = Some e \<Longrightarrow> w < next_waiter c \<and> stream_of (snd e) = fst e"
  unfolding adb_inv_def by (cases e) auto

lemma inv_drained: "adb_inv c \<Longrightarrow> drained c"
  by (simp add: adb_inv_def)

lemma inv_next: "adb_inv c \<Longrightarrow> map_of (timers c) (next_waiter c) = None"
  using inv_timer[of c "next_waiter c"] by (cases "map_of (timers c) (next_waiter c)") auto

lemma map_of_snoc: "map_of (xs @ [(k, v)]) w = (case map_of xs w of Some x \<Rightarrow> Some x | None \<Rightarrow> if w = k then Some v else None)"
  by (simp add: map_add_def split: option.splits)

lemma adb_invI:
  assumes "drained c" "\<And>s w. map_of (waiters c) s = Some w \<Longrightarrow> \<exists>call. map_of (timers c) w = Some (s, call)"
    "\<And>w s call. map_of (timers c) w = Some (s, call) \<Longrightarrow> w < next_waiter c \<and> stream_of call = s"
  shows "adb_inv c"
  using assms unfolding adb_inv_def by blast

definition register :: "adb_conn \<Rightarrow> nat \<Rightarrow> adb_call \<Rightarrow> adb_conn" where
  "register c s call = c\<lparr>waiters := map_set s (next_waiter c) (waiters c), next_waiter := next_waiter c + 1,
     timers := timers c @ [(next_waiter c, s, call)]\<rparr>"

lemma register_simps [simp]:
  "map_of (waiters (register c s call)) t = (if s = t then Some (next_waiter c) else map_of (waiters c) t)"
  "map_of (timers (register c s call)) w = (case map_of (timers c) w of Some x \<Rightarrow> Some x
    | None \<Rightarrow> if w = next_waiter c then Some (s, call) else None)"
  "next_waiter (register c s call) = Suc (next_waiter c)" "ready (register c s call) = ready c"
  "handlers (register c s call) = handlers c" "buffer (register c s call) = buffer c"
  "conn_closed (register c s call) = conn_closed c" "unread_of (register c s call) t = unread_of c t"
  by (simp_all add: register_def map_of_map_set unread_of_def map_add_def split: option.splits)

definition take_unread :: "adb_conn \<Rightarrow> nat \<Rightarrow> adb_message list \<Rightarrow> adb_conn" where
  "take_unread c s q = c\<lparr>unread := (if q = [] then map_delete s (unread c) else map_set s q (unread c))\<rparr>"

lemma take_unread_simps [simp]:
  "waiters (take_unread c s q) = waiters c" "timers (take_unread c s q) = timers c" "ready (take_unread c s q) = ready c"
  "handlers (take_unread c s q) = handlers c" "buffer (take_unread c s q) = buffer c" "conn_closed (take_unread c s q) = conn_closed c"
  "next_waiter (take_unread c s q) = next_waiter c" "unread_of (take_unread c s q) t = (if s = t then q else unread_of c t)"
  by (simp_all add: take_unread_def unread_of_def map_of_map_set map_of_delete)

lemma read_cases:
  assumes "drained c"
  shows "readStreamMessage c s call = (case unread_of c s of
      [] \<Rightarrow> (register c s call, [])
    | m # q \<Rightarrow> ((take_unread c s q)\<lparr>ready := ready c @ [(call, Got m)]\<rparr>, []))"
  using read_drained[OF assms] by (simp add: register_def take_unread_def split: list.splits)

lemma register_inv:
  assumes "adb_inv c" "stream_of call = s"
  shows "adb_inv (register c s call)"
proof (rule adb_invI)
  show "drained (register c s call)" using assms(1) by (simp add: drained_def adb_inv_def)
next
  fix t w assume "map_of (waiters (register c s call)) t = Some w"
  then show "\<exists>call'. map_of (timers (register c s call)) w = Some (t, call')"
    using inv_waiter[OF assms(1), of t w] inv_next[OF assms(1)] by (auto split: if_splits option.splits)
next
  fix w t call' assume "map_of (timers (register c s call)) w = Some (t, call')"
  then show "w < next_waiter (register c s call) \<and> stream_of call' = t"
    using inv_timer[OF assms(1), of w] assms(2) by (auto simp: less_Suc_eq split: if_splits option.splits)
qed

lemma register_waiting:
  assumes "adb_inv c"
  shows "waiting (register c s call) t = (if s = t then Some call else waiting c t)"
proof (cases "map_of (waiters c) t")
  case None
  then show ?thesis using inv_next[OF assms] by (simp add: waiting_def)
next
  case (Some w)
  obtain call' where "map_of (timers c) w = Some (t, call')" "w < next_waiter c" using inv_waiter[OF assms Some] by blast
  then show ?thesis using Some inv_next[OF assms] by (simp add: waiting_def)
qed

lemma register_view:
  assumes "adb_inv c"
  shows "view (register c s call) t = (if s = t then Some call else waiting c t, unread_of c t, t \<in> set (handlers c), ready_of c t)"
  using register_waiting[OF assms] by (simp add: view_def ready_of_def)

lemma read_inv:
  assumes "adb_inv c" "stream_of call = s"
  shows "adb_inv (fst (readStreamMessage c s call))"
proof (cases "unread_of c s")
  case Nil
  then show ?thesis using register_inv[OF assms] read_cases[OF inv_drained[OF assms(1)]] by simp
next
  case (Cons m q)
  have "adb_inv ((take_unread c s q)\<lparr>ready := ready c @ [(call, Got m)]\<rparr>)"
    using assms(1) by (simp add: adb_inv_def drained_def)
  then show ?thesis using Cons read_cases[OF inv_drained[OF assms(1)]] by simp
qed

lemma read_view:
  assumes "adb_inv c" "stream_of call = s"
  shows "view (fst (readStreamMessage c s call)) t =
      (if s = t then (case unread_of c s of
          [] \<Rightarrow> (Some call, [], s \<in> set (handlers c), ready_of c s)
        | m # q \<Rightarrow> (waiting c s, q, s \<in> set (handlers c), ready_of c s @ [(call, Got m)]))
       else view c t)"
    "snd (readStreamMessage c s call) = []"
proof -
  note cases = read_cases[OF inv_drained[OF assms(1)], of s call]
  show "snd (readStreamMessage c s call) = []" unfolding cases by (simp split: list.splits)
  show "view (fst (readStreamMessage c s call)) t =
      (if s = t then (case unread_of c s of
          [] \<Rightarrow> (Some call, [], s \<in> set (handlers c), ready_of c s)
        | m # q \<Rightarrow> (waiting c s, q, s \<in> set (handlers c), ready_of c s @ [(call, Got m)]))
       else view c t)"
  proof (cases "unread_of c s")
    case Nil
    then show ?thesis unfolding cases by (cases "s = t") (auto simp: register_view[OF assms(1)] view_def[of c])
  next
    case (Cons m q)
    have "waiting (take_unread c s q) u = waiting c u" for u by (simp add: waiting_def cong: option.case_cong)
    then show ?thesis unfolding cases using Cons assms(2) by (auto simp: view_def) (auto simp: ready_of_def)
  qed
qed

section \<open>Routing\<close>

lemma settle_waiter_inv:
  assumes "adb_inv c" "map_of (waiters c) s = Some w"
  shows "adb_inv (settle_waiter c s w r)"
proof -
  obtain call where call: "map_of (timers c) w = Some (s, call)" using inv_waiter[OF assms] by blast
  show ?thesis
  proof (rule adb_invI)
    fix t w' assume t: "map_of (waiters (settle_waiter c s w r)) t = Some w'"
    then have t': "t \<noteq> s" "map_of (waiters c) t = Some w'"
      using call by (auto simp: settle_waiter_def map_of_delete split: if_splits)
    then obtain call' where call': "map_of (timers c) w' = Some (t, call')" using inv_waiter[OF assms(1)] by blast
    then have "w' \<noteq> w" using call t'(1) by auto
    then show "\<exists>call. map_of (timers (settle_waiter c s w r)) w' = Some (t, call)"
      using call call' by (simp add: settle_waiter_def map_of_delete)
  next
    fix w' t call' assume "map_of (timers (settle_waiter c s w r)) w' = Some (t, call')"
    then show "w' < next_waiter (settle_waiter c s w r) \<and> stream_of call' = t"
      using call inv_timer[OF assms(1), of w'] by (auto simp: settle_waiter_def map_of_delete split: if_splits)
  qed (use assms(1) call in \<open>simp add: settle_waiter_def drained_def adb_inv_def\<close>)
qed

lemma settle_view:
  assumes "adb_inv c" "map_of (waiters c) s = Some w" "map_of (timers c) w = Some (s, call)"
  shows "view (settle_waiter c s w r) t =
    (if s = t then (None, unread_of c s, s \<in> set (handlers c), ready_of c s @ [(call, r)]) else view c t)"
proof -
  have keep: "w' \<noteq> w" if "t \<noteq> s" "map_of (waiters c) t = Some w'" for w'
    using inv_waiter[OF assms(1) that(2)] assms(3) that(1) by auto
  have "waiting (settle_waiter c s w r) t = (if s = t then None else waiting c t)"
    using keep assms(3) by (auto simp: waiting_def settle_waiter_def map_of_delete split: option.splits)
  moreover have "stream_of call = s" using inv_timer[OF assms(1,3)] by simp
  ultimately show ?thesis using assms(3) by (auto simp: view_def settle_waiter_def unread_of_def ready_of_def)
qed

text \<open>A message that no handler takes goes to the waiting read of its stream or is kept.\<close>

fun absorb :: "adb_call option \<times> adb_message list \<times> bool \<times> (adb_call \<times> settled_read) list \<Rightarrow> adb_message \<Rightarrow>
    adb_call option \<times> adb_message list \<times> bool \<times> (adb_call \<times> settled_read) list" where
  "absorb (Some call, u, h, r) m = (None, u, h, r @ [(call, Got m)])"
| "absorb (None, u, h, r) m = (None, u @ [m], h, r)"

lemma deliver_inv: "adb_inv c \<Longrightarrow> adb_inv (deliver c s m)"
proof -
  assume inv: "adb_inv c"
  have "adb_inv (c\<lparr>unread := x\<rparr>)" for x using inv by (simp add: adb_inv_def drained_def)
  then show ?thesis using settle_waiter_inv[OF inv, of s] by (auto simp: deliver_def split: option.splits)
qed

lemma deliver_view:
  assumes "adb_inv c"
  shows "view (deliver c s m) t = (if s = t then absorb (view c t) m else view c t)"
proof (cases "map_of (waiters c) s")
  case None
  then have "waiting c s = None" by (simp add: waiting_def)
  then show ?thesis using None by (auto simp: deliver_def view_def unread_of_set)
next
  case (Some w)
  obtain call where call: "map_of (timers c) w = Some (s, call)" using inv_waiter[OF assms Some] by blast
  then have waiting_some: "waiting c s = Some call" using Some by (simp add: waiting_def)
  then show ?thesis
    using call settle_view[OF assms Some call, of "Got m" t] Some waiting_some by (auto simp: deliver_def view_def)
qed

lemma route_inv: "adb_inv c \<Longrightarrow> adb_inv (fst (routeMessage c m))"
  using deliver_inv[of c "target_id m" m] by (auto simp: routeMessage_def Let_def adb_inv_def drained_def)

lemma route_view:
  assumes "adb_inv c" "t \<notin> set (handlers c)"
  shows "view (fst (routeMessage c m)) t = (if target_id m = t then absorb (view c t) m else view c t)
    \<and> t \<notin> set (handlers (fst (routeMessage c m)))"
proof -
  have "handlers (deliver c s m) = handlers c" for s
    by (auto simp: deliver_def settle_waiter_def split: option.splits)
  moreover have "t \<noteq> target_id m" if "target_id m \<in> set (handlers c)" using that assms(2) by auto
  moreover have "view (c\<lparr>handlers := filter (\<lambda>h. h \<noteq> target_id m) (handlers c)\<rparr>) t = view c t" if "t \<noteq> target_id m"
    using that by (simp add: view_def)
  ultimately show ?thesis
    using deliver_view[OF assms(1), of "target_id m" m t] assms(2) by (auto simp: routeMessage_def Let_def)
qed

lemma route_all_inv: "adb_inv c \<Longrightarrow> adb_inv (fst (route_all c ms))"
  by (induction ms arbitrary: c) (auto simp: Let_def split_beta route_inv)

lemma route_all_view:
  assumes "adb_inv c" "t \<notin> set (handlers c)"
  shows "view (fst (route_all c ms)) t = foldl absorb (view c t) (filter (\<lambda>m. target_id m = t) ms)
    \<and> t \<notin> set (handlers (fst (route_all c ms)))"
  using assms
proof (induction ms arbitrary: c)
  case (Cons m ms)
  note r = route_view[OF Cons.prems, of m]
  show ?case using Cons.IH[OF route_inv[OF Cons.prems(1), of m]] r by (auto simp: Let_def split_beta)
qed simp

lemma buffer_inv: "adb_inv c \<Longrightarrow> tryParseMessage b = None \<Longrightarrow> adb_inv (c\<lparr>buffer := b\<rparr>)"
  by (simp add: adb_inv_def drained_def)

lemma onData_view:
  assumes "adb_inv c" "t \<notin> set (handlers c)"
  shows "adb_inv (fst (onData c chunk)) \<and> t \<notin> set (handlers (fst (onData c chunk))) \<and>
    view (fst (onData c chunk)) t = foldl absorb (view c t) (filter (\<lambda>m. target_id m = t) (fst (parse_all (buffer c @ chunk))))"
proof -
  let ?c = "c\<lparr>buffer := snd (parse_all (buffer c @ chunk))\<rparr>"
  have inv: "adb_inv ?c" using buffer_inv[OF assms(1) parse_all_rest] .
  have "view ?c t = view c t" by (simp add: view_def)
  then show ?thesis
    using route_all_inv[OF inv] route_all_view[OF inv] assms(2)
    by (simp add: onData_def drainBuffer_def split_beta Let_def)
qed

end
