(* ===== verification/Adb_Wire_Props.thy ===== *)
theory Adb_Wire_Props imports Adb_Wire_Inv begin

text \<open>
  Shell commands over a shared connection: whatever else happens on the connection, a command gets exactly the
  output that the device writes to its stream. And what a persistent stream does with data that arrives early.
\<close>

section \<open>Steps and one stream\<close>

lemma send_then_cases:
  "(\<exists>e. send c command a0 a1 payload = Inl e \<and> send_then c command a0 a1 payload failed continued = failed e) \<or>
   (\<exists>out. send c command a0 a1 payload = Inr out \<and>
     send_then c command a0 a1 payload failed continued = (fst continued, out @ snd continued))"
  by (cases "send c command a0 a1 payload") (simp_all add: send_then_def split_beta Let_def)

lemma cleanup_inv: "adb_inv c \<Longrightarrow> adb_inv (cleanupStream c s)"
  by (auto simp: adb_inv_def cleanupStream_def drained_def map_of_delete split: if_splits)

lemma waiting_delete: "waiting (c\<lparr>waiters := map_delete s (waiters c)\<rparr>) t = (if s = t then None else waiting c t)"
  by (simp add: waiting_def map_of_delete cong: option.case_cong)

lemma cleanup_waiting: "waiting (cleanupStream c s) t = (if s = t then None else waiting c t)"
  using waiting_delete[of s c t] by (simp add: cleanupStream_def waiting_def cong: option.case_cong)

lemma cleanup_view: "view (cleanupStream c s) t = (if s = t then (None, [], False, ready_of c s) else view c t)"
proof -
  have "ready_of (cleanupStream c s) t = ready_of c t" by (simp add: cleanupStream_def ready_of_def)
  then show ?thesis
    using cleanup_waiting[of c s t] by (auto simp: view_def unread_of_def cleanupStream_def map_of_delete)
qed

text \<open>A continuation of another stream leaves the view alone.\<close>

definition leaves :: "adb_conn \<Rightarrow> nat \<Rightarrow> adb_conn \<times> adb_action list \<Rightarrow> bool" where
  "leaves c t r \<longleftrightarrow> adb_inv (fst r) \<and> view (fst r) t = view c t"

lemma leaves_read:
  "adb_inv c \<Longrightarrow> stream_of call = s \<Longrightarrow> s \<noteq> t \<Longrightarrow> leaves c t (readStreamMessage c s call)"
  by (simp add: leaves_def read_inv read_view)

lemma leaves_cleanup: "adb_inv c \<Longrightarrow> s \<noteq> t \<Longrightarrow> leaves c t (cleanupStream c s, out)"
  by (simp add: leaves_def cleanup_inv cleanup_view)

lemma leaves_same: "adb_inv c \<Longrightarrow> leaves c t (c, out)"
  by (simp add: leaves_def)

lemma leaves_send:
  assumes "\<And>e. leaves c t (failed e)" "leaves c t continued"
  shows "leaves c t (send_then c command a0 a1 payload failed continued)"
  using send_then_cases[of c command a0 a1 payload failed continued] assms by (auto simp: leaves_def)

lemma closed_inv: "adb_inv c \<Longrightarrow> adb_inv (c\<lparr>conn_closed := b\<rparr>)"
  by (simp add: adb_inv_def drained_def)

lemma leaves_handshake_failed: "adb_inv c \<Longrightarrow> leaves c t (handshake_failed c cid e)"
  by (simp add: leaves_def handshake_failed_def closed_inv) (simp add: view_def)

lemma leaves_trans: "leaves c t (c', out) \<Longrightarrow> leaves c' t r \<Longrightarrow> leaves c t r"
  by (simp add: leaves_def)

lemma resume_leaves:
  assumes "adb_inv c" "stream_of call \<noteq> t"
  shows "leaves c t (resume c call r)"
proof -
  have hs: "leaves c t (handshake_failed (cleanupStream c 0) cid e)" if "0 \<noteq> t" for cid e
    using leaves_trans[OF leaves_cleanup[OF assms(1) that] leaves_handshake_failed[OF cleanup_inv[OF assms(1)]]] .
  have handler: "leaves c t (c\<lparr>handlers := handlers c @ hs'\<rparr>, out)" if "t \<notin> set hs'" for hs' out
    using assms(1) that by (simp add: leaves_def adb_inv_def drained_def) (simp add: view_def)
  show ?thesis
    using assms
    by (cases "(c, call, r)" rule: resume.cases)
      (auto simp: resume_cnxn_def resume_shell_ok_def resume_shell_data_def resume_stream_ok_def resume_ack_def Let_def
        intro!: leaves_read leaves_cleanup leaves_same leaves_send leaves_handshake_failed hs handler split: if_splits)
qed

section \<open>Callers\<close>

fun outcome :: "nat \<Rightarrow> adb_action \<Rightarrow> bool" where
  "outcome cid (Connected k) = (k = cid)"
| "outcome cid (Shell_Done k x) = (k = cid)"
| "outcome cid (Stream_Opened k s r) = (k = cid)"
| "outcome cid (Write_Done k) = (k = cid)"
| "outcome cid (Call_Failed k e) = (k = cid)"
| "outcome cid _ = False"

abbreviation outcomes :: "nat \<Rightarrow> adb_action list \<Rightarrow> adb_action list" where
  "outcomes cid out \<equiv> filter (outcome cid) out"

lemma send_outcomes: "send c command a0 a1 payload = Inr out \<Longrightarrow> outcomes cid out = []"
  by (auto simp: send_def split: if_splits option.splits)

lemma send_plain_outcomes [simp]: "outcomes cid (send_plain c command a0 a1) = []"
  by (auto simp: send_plain_def send_outcomes split: sum.splits)

lemma route_outcomes [simp]: "outcomes cid (snd (routeMessage c m)) = []"
  by (simp add: routeMessage_def Let_def close_handler_def)

lemma route_all_outcomes [simp]: "outcomes cid (snd (route_all c ms)) = []"
  by (induction ms arbitrary: c) (simp_all add: Let_def split_beta)

lemma onData_outcomes [simp]: "outcomes cid (snd (onData c chunk)) = []"
  by (simp add: onData_def drainBuffer_def split_beta Let_def)

lemma read_outcomes: "adb_inv c \<Longrightarrow> snd (readStreamMessage c s call) = []"
  using read_cases[OF inv_drained, of c s call] by (simp split: list.splits)

lemma send_then_outcomes:
  assumes "\<And>e. outcomes cid (snd (failed e)) = []" "outcomes cid (snd continued) = []"
  shows "outcomes cid (snd (send_then c command a0 a1 payload failed continued)) = []"
  using send_then_cases[of c command a0 a1 payload failed continued] assms by (auto simp: send_outcomes)

lemma resume_outcomes:
  assumes "adb_inv c" "caller_of call \<noteq> cid"
  shows "outcomes cid (snd (resume c call r)) = []"
  using assms
  by (cases "(c, call, r)" rule: resume.cases)
    (auto simp: resume_cnxn_def resume_shell_ok_def resume_shell_data_def resume_stream_ok_def resume_ack_def Let_def
      handshake_failed_def read_outcomes intro!: send_then_outcomes split: if_splits)

definition owned :: "nat \<Rightarrow> nat \<Rightarrow> adb_conn \<Rightarrow> bool" where
  "owned cid s c \<longleftrightarrow> (\<forall>call\<in>calls c. caller_of call = cid \<longrightarrow> stream_of call = s)"

lemma owned_subset: "owned cid s c \<Longrightarrow> calls c' \<subseteq> calls c \<Longrightarrow> owned cid s c'"
  by (auto simp: owned_def)

lemma calls_settle: "calls (settle_waiter c s w r) \<subseteq> calls c"
  by (force simp: settle_waiter_def calls_def map_delete_def split: option.splits dest: map_of_SomeD)

lemma calls_route: "calls (fst (routeMessage c m)) \<subseteq> calls c"
  using calls_settle[of c] by (auto simp: routeMessage_def Let_def deliver_def calls_def split: option.splits)

lemma calls_route_all: "calls (fst (route_all c ms)) \<subseteq> calls c"
proof (induction ms arbitrary: c)
  case (Cons m ms)
  then show ?case using calls_route[of c m] by (force simp: Let_def split_beta)
qed simp

lemma calls_onData: "calls (fst (onData c chunk)) \<subseteq> calls c"
  using calls_route_all[of "c\<lparr>buffer := snd (parse_all (buffer c @ chunk))\<rparr>"]
  by (simp add: onData_def drainBuffer_def split_beta Let_def) (simp add: calls_def)

lemma calls_read: "adb_inv c \<Longrightarrow> calls (fst (readStreamMessage c s call)) \<subseteq> insert call (calls c)"
  using read_cases[OF inv_drained, of c s call]
  by (auto simp: calls_def register_def split: list.splits)

lemma calls_cleanup [simp]: "calls (cleanupStream c s) = calls c"
  by (simp add: calls_def cleanupStream_def)

lemma owned_read:
  "adb_inv c \<Longrightarrow> owned cid s c \<Longrightarrow> (caller_of call = cid \<Longrightarrow> stream_of call = s) \<Longrightarrow>
    owned cid s (fst (readStreamMessage c t call))"
  using calls_read[of c t call] by (auto simp: owned_def)

lemma owned_send:
  assumes "\<And>e. owned cid s (fst (failed e))" "owned cid s (fst continued)"
  shows "owned cid s (fst (send_then c command a0 a1 payload failed continued))"
  using send_then_cases[of c command a0 a1 payload failed continued] assms by auto

lemma owned_cleanup [simp]: "owned cid s (cleanupStream c t) \<longleftrightarrow> owned cid s c"
  by (simp add: owned_def)

lemma owned_fields [simp]: "owned cid s (c\<lparr>conn_closed := b\<rparr>) \<longleftrightarrow> owned cid s c" "owned cid s (c\<lparr>handlers := h\<rparr>) \<longleftrightarrow> owned cid s c"
  "owned cid s (c\<lparr>last_id := i\<rparr>) \<longleftrightarrow> owned cid s c" "owned cid s (c\<lparr>listening := l\<rparr>) \<longleftrightarrow> owned cid s c"
  "owned cid s (c\<lparr>watching := l\<rparr>) \<longleftrightarrow> owned cid s c" "owned cid s (c\<lparr>notifies := b\<rparr>) \<longleftrightarrow> owned cid s c"
  "owned cid s (c\<lparr>unread := u\<rparr>) \<longleftrightarrow> owned cid s c" "owned cid s (c\<lparr>waiters := v\<rparr>) \<longleftrightarrow> owned cid s c"
  by (simp_all add: owned_def calls_def)

lemma owned_resume:
  assumes "adb_inv c" "owned cid s c" "caller_of call = cid \<Longrightarrow> stream_of call = s"
  shows "owned cid s (fst (resume c call r))"
  using assms
  by (cases "(c, call, r)" rule: resume.cases)
    (auto simp: resume_cnxn_def resume_shell_ok_def resume_shell_data_def resume_stream_ok_def resume_ack_def Let_def
      handshake_failed_def intro!: owned_send owned_read split: if_splits)

section \<open>Steps that do not concern a stream\<close>

definition undisturbed :: "nat \<Rightarrow> nat \<Rightarrow> adb_conn \<Rightarrow> adb_conn \<times> adb_action list \<Rightarrow> bool" where
  "undisturbed cid s c r \<longleftrightarrow> adb_inv (fst r) \<and> buffer (fst r) = buffer c \<and> last_id c \<le> last_id (fst r) \<and>
     owned cid s (fst r) \<and> view (fst r) s = view c s \<and> outcomes cid (snd r) = []"

definition quiet :: "adb_conn \<Rightarrow> adb_conn \<times> adb_action list \<Rightarrow> bool" where
  "quiet c r \<longleftrightarrow> buffer (fst r) = buffer c \<and> last_id (fst r) = last_id c"

lemma quiet_read: "adb_inv c \<Longrightarrow> quiet c (readStreamMessage c s call)"
  using read_cases[OF inv_drained, of c s call]
  by (auto simp: quiet_def register_def take_unread_def split: list.splits)

lemma quiet_send: "(\<And>e. quiet c (failed e)) \<Longrightarrow> quiet c continued \<Longrightarrow> quiet c (send_then c command a0 a1 payload failed continued)"
  using send_then_cases[of c command a0 a1 payload failed continued] by (auto simp: quiet_def)

lemma quiet_cleanup: "quiet c (cleanupStream c s, out)"
  by (simp add: quiet_def cleanupStream_def)

lemma quiet_handshake_failed: "quiet c (handshake_failed c cid e)" "quiet c (handshake_failed (cleanupStream c s) cid e)"
  by (simp_all add: quiet_def handshake_failed_def cleanupStream_def)

lemma quiet_resume: "adb_inv c \<Longrightarrow> quiet c (resume c call r)"
  by (cases "(c, call, r)" rule: resume.cases)
    (auto simp: resume_cnxn_def resume_shell_ok_def resume_shell_data_def resume_stream_ok_def resume_ack_def Let_def
      intro!: quiet_read quiet_send quiet_cleanup quiet_handshake_failed, auto simp: quiet_def)

lemma undisturbed_read:
  assumes "adb_inv c" "owned cid s c" "stream_of call = t" "t \<noteq> s" "caller_of call \<noteq> cid"
  shows "undisturbed cid s c (readStreamMessage c t call)"
  using leaves_read[OF assms(1,3,4)] quiet_read[OF assms(1), of t call] owned_read[OF assms(1,2), of call t] assms(5)
    read_outcomes[OF assms(1), of t call]
  by (simp add: undisturbed_def leaves_def quiet_def)

lemma undisturbed_send:
  assumes "\<And>e. undisturbed cid s c (failed e)" "undisturbed cid s c continued"
  shows "undisturbed cid s c (send_then c command a0 a1 payload failed continued)"
  using send_then_cases[of c command a0 a1 payload failed continued] assms by (auto simp: undisturbed_def send_outcomes)

lemma undisturbed_failed: "adb_inv c \<Longrightarrow> owned cid s c \<Longrightarrow> k \<noteq> cid \<Longrightarrow> undisturbed cid s c (c, [Call_Failed k e])"
  by (simp add: undisturbed_def)

lemma undisturbed_resume:
  assumes "adb_inv c" "owned cid s c" "stream_of call \<noteq> s" "caller_of call \<noteq> cid"
  shows "undisturbed cid s c (resume c call r)"
  using resume_leaves[OF assms(1,3)] quiet_resume[OF assms(1), of call r] owned_resume[OF assms(1,2), of call r]
    resume_outcomes[OF assms(1,4)] assms(4)
  by (simp add: undisturbed_def leaves_def quiet_def)

text \<open>A call that opens the next stream.\<close>

lemma undisturbed_open:
  assumes "adb_inv c" "owned cid s c" "s \<le> last_id c" "k \<noteq> cid" "stream_of call = last_id c + 1" "caller_of call = k"
  shows "undisturbed cid s c (let localId = last_id c + 1; c' = c\<lparr>last_id := localId\<rparr>
    in send_then c' A_OPEN localId 0 payload (\<lambda>e. (c', [Call_Failed k e])) (readStreamMessage c' localId call))"
proof -
  let ?c = "c\<lparr>last_id := last_id c + 1\<rparr>"
  have inv: "adb_inv ?c" using assms(1) by (simp add: adb_inv_def drained_def)
  have own: "owned cid s ?c" using assms(2) by simp
  have "undisturbed cid s ?c (send_then ?c A_OPEN (last_id c + 1) 0 payload (\<lambda>e. (?c, [Call_Failed k e]))
      (readStreamMessage ?c (last_id c + 1) call))"
    using assms(3-) by (intro undisturbed_send undisturbed_failed undisturbed_read inv own) auto
  moreover have "view ?c s = view c s" by (simp add: view_def)
  ultimately show ?thesis by (simp add: undisturbed_def Let_def)
qed

lemma timeout_inv:
  assumes "adb_inv c"
  shows "adb_inv (read_timeout c w)"
proof (cases "map_of (timers c) w")
  case (Some e)
  obtain t call where e: "e = (t, call)" by fastforce
  let ?c = "read_timeout c w"
  have other: "w' \<noteq> w" if "u \<noteq> t" "map_of (waiters c) u = Some w'" for u w'
    using inv_waiter[OF assms that(2)] Some e that(1) by auto
  show ?thesis
  proof (rule adb_invI)
    fix u w' assume u: "map_of (waiters ?c) u = Some w'"
    then have "u \<noteq> t" "map_of (waiters c) u = Some w'" using Some e by (auto simp: read_timeout_def map_of_delete split: if_splits)
    then show "\<exists>call. map_of (timers ?c) w' = Some (u, call)"
      using other inv_waiter[OF assms, of u w'] Some e by (auto simp: read_timeout_def map_of_delete)
  next
    fix w' u call' assume "map_of (timers ?c) w' = Some (u, call')"
    then show "w' < next_waiter ?c \<and> stream_of call' = u"
      using Some e inv_timer[OF assms, of w'] by (auto simp: read_timeout_def map_of_delete split: if_splits)
  qed (use assms Some e in \<open>simp add: read_timeout_def drained_def adb_inv_def\<close>)
qed (use assms in \<open>simp add: read_timeout_def\<close>)

lemma timeout_undisturbed:
  assumes "adb_inv c" "owned cid s c" "\<And>t call. map_of (timers c) w = Some (t, call) \<Longrightarrow> t \<noteq> s"
  shows "undisturbed cid s c (read_timeout c w, [])"
proof (cases "map_of (timers c) w")
  case None
  then show ?thesis using assms by (simp add: read_timeout_def undisturbed_def)
next
  case (Some e)
  obtain t call where e: "e = (t, call)" by fastforce
  have t: "t \<noteq> s" "stream_of call = t" using assms(3) Some e inv_timer[OF assms(1) Some] by auto
  let ?c = "read_timeout c w"
  have other: "w' \<noteq> w" if "u \<noteq> t" "map_of (waiters c) u = Some w'" for u w'
    using inv_waiter[OF assms(1) that(2)] Some e that(1) by auto
  have "adb_inv ?c" using timeout_inv[OF assms(1)] .
  moreover have "waiting ?c s = waiting c s"
    using other[of s] t(1) Some e by (auto simp: waiting_def read_timeout_def map_of_delete split: option.splits)
  moreover have "calls ?c \<subseteq> calls c"
    using Some e by (force simp: read_timeout_def calls_def map_delete_def dest: map_of_SomeD)
  ultimately show ?thesis
    using assms(2) t Some e
    by (auto simp: undisturbed_def view_def read_timeout_def unread_of_def ready_of_def intro: owned_subset)
qed

text \<open>Events that leave the caller \<open>cid\<close> and its stream alone; chunks and ticks are treated apart.\<close>

fun calm :: "nat \<Rightarrow> nat \<Rightarrow> adb_conn \<Rightarrow> adb_event \<Rightarrow> bool" where
  "calm cid s c (Chunk chunk) = True"
| "calm cid s c Tick = True"
| "calm cid s c (Read_Timeout w) = (case map_of (timers c) w of None \<Rightarrow> True | Some (t, _) \<Rightarrow> t \<noteq> s)"
| "calm cid s c (Handshake k) = (k \<noteq> cid)"
| "calm cid s c (Open_Shell k command) = (k \<noteq> cid)"
| "calm cid s c (Open_Stream k destination) = (k \<noteq> cid)"
| "calm cid s c (Stream_Write k t r data) = (k \<noteq> cid \<and> t \<noteq> s)"
| "calm cid s c (Stream_Close t r) = (t \<noteq> s)"
| "calm cid s c (On_Stream_Data t) = True"
| "calm cid s c (On_Stream_Close t) = True"
| "calm cid s c On_Disconnect = True"
| "calm cid s c Close_Connection = False"
| "calm cid s c Io_Closed = False"
| "calm cid s c (Io_Error m) = False"

fun chunk_of :: "adb_event \<Rightarrow> u8s" where
  "chunk_of (Chunk chunk) = chunk"
| "chunk_of _ = []"

lemma calm_undisturbed:
  assumes "adb_inv c" "owned cid s c" "s \<le> last_id c" "0 < s" "calm cid s c e" "\<And>chunk. e \<noteq> Chunk chunk" "e \<noteq> Tick"
  shows "undisturbed cid s c (adb_step c e)"
proof (cases e)
  case (Handshake k)
  have "undisturbed cid s c (handshake_failed c k e')" for e'
    using leaves_handshake_failed[OF assms(1), of s k e'] quiet_handshake_failed(1)[of c k e'] assms(2,5) Handshake
    by (simp add: undisturbed_def leaves_def quiet_def) (simp add: handshake_failed_def)
  then show ?thesis
    using Handshake assms by (auto simp: handshake_def intro!: undisturbed_send undisturbed_read)
next
  case (Open_Shell k command)
  then show ?thesis
    using undisturbed_open[OF assms(1-3), of k "Await_Shell_Ok k (last_id c + 1) command"] assms undisturbed_failed[OF assms(1,2), of k]
    by (simp add: openShell_def)
next
  case (Open_Stream k destination)
  then show ?thesis
    using undisturbed_open[OF assms(1-3), of k "Await_Stream_Ok k (last_id c + 1) destination"] assms undisturbed_failed[OF assms(1,2), of k]
    by (simp add: openStream_def)
next
  case (Stream_Write k t r data)
  then show ?thesis
    using assms by (auto simp: stream_write_def intro!: undisturbed_send undisturbed_read undisturbed_failed)
next
  case (Stream_Close t r)
  then have "adb_inv (fst (adb_step c e))" "calls (fst (adb_step c e)) = calls c"
    using assms(1) by (simp_all add: stream_close_def adb_inv_def drained_def calls_def)
  then show ?thesis
    using Stream_Close assms by (auto simp: undisturbed_def stream_close_def view_def waiting_def unread_of_def ready_of_def
        map_of_delete owned_def cong: option.case_cong)
next
  case (Read_Timeout w)
  then show ?thesis using timeout_undisturbed[OF assms(1,2), of w] assms(5) by (auto split: option.splits)
qed (use assms in \<open>auto simp: undisturbed_def view_def adb_inv_def drained_def\<close>)

section \<open>The connection as a machine\<close>

text \<open>The events that may disturb a stream keep the invariant as well.\<close>

lemma timers_settle: "map_of (timers (settle_waiter c s w r)) v = Some e \<Longrightarrow> map_of (timers c) v = Some e"
  by (auto simp: settle_waiter_def map_of_delete split: option.splits if_splits)

lemma reject_all_frame:
  "buffer (reject_all c e ws) = buffer c \<and> next_waiter (reject_all c e ws) = next_waiter c \<and>
    (map_of (timers (reject_all c e ws)) v = Some x \<longrightarrow> map_of (timers c) v = Some x)"
proof (induction c e ws rule: reject_all.induct)
  case (2 c e s w ws)
  have "buffer (settle_waiter c s w (Rejected e)) = buffer c" "next_waiter (settle_waiter c s w (Rejected e)) = next_waiter c"
    by (auto simp: settle_waiter_def split: option.splits)
  then show ?case using 2 timers_settle[of c s w "Rejected e" v x] by auto
qed simp

lemma lost_inv: "adb_inv c \<Longrightarrow> adb_inv (fst (connection_lost c e))"
proof (cases "conn_closed c")
  case False
  assume inv: "adb_inv c"
  let ?c = "fst (connection_lost c e)"
  note frame = reject_all_frame[of "c\<lparr>conn_closed := True\<rparr>" e "waiters c"]
  show ?thesis
  proof (rule adb_invI)
    fix w s call assume "map_of (timers ?c) w = Some (s, call)"
    then have "map_of (timers c) w = Some (s, call)" using frame[of w] False by (simp add: connection_lost_def)
    then show "w < next_waiter ?c \<and> stream_of call = s" using inv_timer[OF inv, of w] frame False by (simp add: connection_lost_def)
  qed (use inv frame False in \<open>simp_all add: connection_lost_def drained_def adb_inv_def\<close>)
qed (simp add: connection_lost_def)

lemma onData_inv: "adb_inv c \<Longrightarrow> adb_inv (fst (onData c chunk))"
  using route_all_inv[OF buffer_inv[OF _ parse_all_rest]]
  by (simp add: onData_def drainBuffer_def split_beta Let_def)

lemma send_inv:
  assumes "\<And>e. adb_inv (fst (failed e))" "adb_inv (fst continued)"
  shows "adb_inv (fst (send_then c command a0 a1 payload failed continued))"
  using send_then_cases[of c command a0 a1 payload failed continued] assms by auto

lemma last_id_inv: "adb_inv c \<Longrightarrow> adb_inv (c\<lparr>last_id := i\<rparr>)"
  by (simp add: adb_inv_def drained_def)

lemma tick_inv: "adb_inv c \<Longrightarrow> adb_inv (fst (adb_step c Tick))"
proof (cases "ready c")
  case (Cons p ps)
  assume "adb_inv c"
  then have "adb_inv (c\<lparr>ready := ps\<rparr>)" by (simp add: adb_inv_def drained_def)
  then show ?thesis using Cons resume_leaves[of "c\<lparr>ready := ps\<rparr>" "fst p" "Suc (stream_of (fst p))" "snd p"]
    by (simp add: leaves_def split_beta)
qed simp

lemma adb_step_inv: "adb_inv c \<Longrightarrow> adb_inv (fst (adb_step c e))"
proof (cases e)
  case Tick
  assume "adb_inv c"
  then show ?thesis unfolding Tick by (rule tick_inv)
next
  case (Stream_Close t r)
  assume "adb_inv c"
  then show ?thesis unfolding Stream_Close by (simp add: stream_close_def adb_inv_def drained_def)
qed (auto simp: openShell_def openStream_def stream_write_def handshake_def handshake_failed_def Let_def onClose_def onError_def
    conn_close_def timeout_inv lost_inv onData_inv closed_inv intro!: send_inv read_inv last_id_inv,
  auto simp: adb_inv_def drained_def)

lemma adb_new_inv: "adb_inv new_conn"
  by (simp add: adb_inv_def new_conn_def drained_def tryParseMessage_def ADB_HEADER_SIZE_def)

interpretation adb: machine adb_step "\<lambda>c. c = new_conn" adb_inv
  by unfold_locales (auto simp: adb_new_inv adb_step_inv simp del: adb_step.simps)

end
