(* ===== verification/Adb_Wire_Shell.thy ===== *)
theory Adb_Wire_Shell imports Adb_Wire_Props begin

text \<open>
  The output of a shell command: the messages of its stream, cut into chunks in any way and mixed with those of
  other streams, are gathered by the call in order, and nothing else on the connection can change its result.
\<close>

section \<open>Progress of a shell call\<close>

fun shell_wait :: "nat \<Rightarrow> nat \<Rightarrow> jstr \<Rightarrow> adb_message list \<Rightarrow> adb_call" where
  "shell_wait cid s command [] = Await_Shell_Ok cid s command"
| "shell_wait cid s command (okay # ds) = Await_Shell_Data cid s (msg_arg0 okay) (map msg_payload ds)"

lemma shell_wait_stream [simp]: "stream_of (shell_wait cid s command L) = s"
  by (cases L) simp_all

lemma shell_wait_caller [simp]: "caller_of (shell_wait cid s command L) = cid"
  by (cases L) simp_all

text \<open>What a device sends for a command that it runs: an acknowledgement, the output and the end.\<close>

definition shell_reply :: "adb_message list \<Rightarrow> adb_message \<Rightarrow> adb_message list \<Rightarrow> adb_message \<Rightarrow> bool" where
  "shell_reply M okay ds clse \<longleftrightarrow> M = okay # ds @ [clse] \<and> msg_command okay = A_OKAY \<and> msg_arg0 okay < 2 ^ 32 \<and>
     list_all (\<lambda>m. msg_command m = A_WRTE) ds \<and> msg_command clse = A_CLSE"

definition shell_result :: "nat \<Rightarrow> adb_message list \<Rightarrow> adb_action" where
  "shell_result cid ds = Shell_Done cid (utf8_decode (concat (map msg_payload ds)))"

fun shell_phase :: "nat \<Rightarrow> nat \<Rightarrow> jstr \<Rightarrow> adb_message list \<Rightarrow> adb_action \<Rightarrow>
    adb_call option \<times> adb_message list \<times> bool \<times> (adb_call \<times> settled_read) list \<Rightarrow> adb_message list \<Rightarrow> adb_action list \<Rightarrow> bool" where
  "shell_phase cid s command D result (w, q, h, r) rest out =
     (\<not> h \<and>
      ((w = Some (shell_wait cid s command D) \<and> q = [] \<and> r = [] \<and> rest \<noteq> [] \<and> out = []) \<or>
       (w = None \<and> (\<exists>L m. D = L @ m # q \<and> r = [(shell_wait cid s command L, Got m)]) \<and> out = []) \<or>
       (w = None \<and> q = [] \<and> r = [] \<and> rest = [] \<and> out = [result])))"

lemma absorb_kept: "foldl absorb (None, u, h, r) ms = (None, u @ ms, h, r)"
  by (induction ms arbitrary: u) simp_all

lemma phase_absorb:
  assumes "shell_phase cid s command D result v (ms @ rest) out"
  shows "shell_phase cid s command (D @ ms) result (foldl absorb v ms) rest out"
proof -
  obtain w q h r where v: "v = (w, q, h, r)" using prod_cases4 by blast
  show ?thesis
  proof (cases ms)
    case Nil
    then show ?thesis using assms by simp
  next
    case (Cons m ms')
    then show ?thesis using assms by (cases w) (auto simp: v absorb_kept)
  qed
qed

section \<open>One step of the call\<close>

lemma send_empty:
  "a0 < 2 ^ 32 \<Longrightarrow> a1 < 2 ^ 32 \<Longrightarrow> command < 2 ^ 32 \<Longrightarrow> \<exists>out. send c command a0 a1 [] = Inr out"
  by (simp add: send_def serializeHeader_def write_uint32_def checksum_def)

lemma send_then_empty:
  assumes "a0 < 2 ^ 32" "a1 < 2 ^ 32" "command < 2 ^ 32"
  shows "\<exists>out. outcomes cid out = [] \<and> send_then c command a0 a1 [] failed continued = (fst continued, out @ snd continued)"
  using send_empty[OF assms, of c] by (auto simp: send_then_def split_beta Let_def send_outcomes)

lemma commands_distinct [simp]: "A_WRTE \<noteq> A_CLSE" "A_CLSE \<noteq> A_WRTE" "A_OKAY \<noteq> A_CLSE" "A_OKAY \<noteq> A_WRTE"
  by (simp_all add: A_WRTE_def A_CLSE_def A_OKAY_def)

text \<open>The call that takes a message other than the last reads on; the last one ends it.\<close>

lemma resume_shell_step:
  assumes "adb_inv c" "s < 2 ^ 32" "shell_reply (L @ m # N) okay ds clse"
  shows "\<exists>out. outcomes cid out = [] \<and> resume c (shell_wait cid s command L) (Got m) =
    (if N = [] then (cleanupStream c s, out @ [shell_result cid ds])
     else (fst (readStreamMessage c s (shell_wait cid s command (L @ [m]))), out))"
proof (cases L)
  case Nil
  then show ?thesis
    using assms read_outcomes[OF assms(1), of s "Await_Shell_Data cid s (msg_arg0 okay) []"]
    by (intro exI[of _ "[]"]) (auto simp: shell_reply_def resume_shell_ok_def prod_eq_iff)
next
  case (Cons okay' L')
  have okay: "okay' = okay" "msg_arg0 okay < 2 ^ 32" and tail: "L' @ m # N = ds @ [clse]"
    using assms(3) Cons by (auto simp: shell_reply_def)
  have range: "A_OKAY < 2 ^ 32" "A_CLSE < 2 ^ 32" by (simp_all add: A_OKAY_def A_CLSE_def)
  show ?thesis
  proof (cases N rule: rev_cases)
    case Nil
    then have "m = clse" "L' = ds" using tail by auto
    then have "resume c (shell_wait cid s command L) (Got m) = send_then c A_CLSE s (msg_arg0 okay) []
        (\<lambda>e. (cleanupStream c s, [Call_Failed cid e])) (cleanupStream c s, [shell_result cid ds])"
      using assms(3) Cons okay(1) by (simp add: resume_shell_data_def shell_reply_def shell_result_def)
    moreover note send_then_empty[OF assms(2) okay(2) range(2), of cid c "\<lambda>e. (cleanupStream c s, [Call_Failed cid e])"
        "(cleanupStream c s, [shell_result cid ds])"]
    ultimately show ?thesis using Nil by simp
  next
    case (snoc N' n)
    then have "(L' @ m # N') @ [n] = ds @ [clse]" using tail by simp
    then have "ds = L' @ m # N'" by blast
    then have "msg_command m = A_WRTE" using assms(3) by (simp add: shell_reply_def)
    then have "resume c (shell_wait cid s command L) (Got m) = send_then c A_OKAY s (msg_arg0 okay) []
        (\<lambda>e. (cleanupStream c s, [Call_Failed cid e])) (readStreamMessage c s (shell_wait cid s command (L @ [m])))"
      using Cons okay(1) by (simp add: resume_shell_data_def)
    moreover note send_then_empty[OF assms(2) okay(2) range(1), of cid c "\<lambda>e. (cleanupStream c s, [Call_Failed cid e])"
        "readStreamMessage c s (shell_wait cid s command (L @ [m]))"]
    ultimately show ?thesis using snoc read_outcomes[OF assms(1)] by simp
  qed
qed

lemma phase_resume:
  assumes "adb_inv c" "s < 2 ^ 32" "shell_reply (L @ m # q @ rest) okay ds clse" "view c s = (None, q, False, [])"
  shows "shell_phase cid s command (L @ m # q) (shell_result cid ds) (view (fst (resume c (shell_wait cid s command L) (Got m))) s) rest
    (outcomes cid (snd (resume c (shell_wait cid s command L) (Got m))))"
proof -
  obtain out where out: "outcomes cid out = []" "resume c (shell_wait cid s command L) (Got m) =
      (if q @ rest = [] then (cleanupStream c s, out @ [shell_result cid ds])
       else (fst (readStreamMessage c s (shell_wait cid s command (L @ [m]))), out))"
    using resume_shell_step[OF assms(1,2), where L = L and m = m and N = "q @ rest" and cid = cid and command = command, OF assms(3)] by blast
  show ?thesis
  proof (cases "q @ rest = []")
    case True
    then show ?thesis using out assms(4) cleanup_view[of c s s] by (simp add: view_def shell_result_def)
  next
    case False
    show ?thesis
    proof (cases q)
      case Nil
      then show ?thesis using out assms(4) False read_view(1)[OF assms(1), of "shell_wait cid s command (L @ [m])" s s] by (simp add: view_def)
    next
      case (Cons n q')
      then show ?thesis
        using out assms(4) read_view(1)[OF assms(1), of "shell_wait cid s command (L @ [m])" s s]
        by (simp add: view_def)
    qed
  qed
qed

section \<open>A whole run\<close>

fun calm_run :: "nat \<Rightarrow> nat \<Rightarrow> adb_conn \<Rightarrow> adb_event list \<Rightarrow> bool" where
  "calm_run cid s c [] = True"
| "calm_run cid s c (e # es) = (calm cid s c e \<and> calm_run cid s (fst (adb_step c e)) es)"

definition stream_messages :: "nat \<Rightarrow> u8s \<Rightarrow> adb_message list" where
  "stream_messages s bs = filter (\<lambda>m. target_id m = s) (fst (parse_all bs))"

lemma stream_messages_append:
  "stream_messages s (a @ b) = stream_messages s a @ stream_messages s (snd (parse_all a) @ b)"
  by (simp add: stream_messages_def parse_all_append[of a b])

definition in_shell :: "nat \<Rightarrow> nat \<Rightarrow> adb_conn \<Rightarrow> bool" where
  "in_shell cid s c \<longleftrightarrow> adb_inv c \<and> owned cid s c \<and> s \<le> last_id c"

lemma chunk_shell:
  assumes "in_shell cid s c" "shell_phase cid s command D result (view c s) (stream_messages s (buffer c @ chunk) @ rest) out"
  shows "in_shell cid s (fst (onData c chunk))"
    "shell_phase cid s command (D @ stream_messages s (buffer c @ chunk)) result (view (fst (onData c chunk)) s) rest out"
    "buffer (fst (onData c chunk)) = snd (parse_all (buffer c @ chunk))"
proof -
  have h: "s \<notin> set (handlers c)" using assms(2) by (simp add: view_def)
  note view = onData_view[OF _ h, of chunk] assms(1)
  have frame: "buffer (fst (route_all c' ms)) = buffer c' \<and> last_id (fst (route_all c' ms)) = last_id c'" for c' ms
  proof (induction ms arbitrary: c')
    case (Cons m ms)
    have "buffer (fst (routeMessage c' m)) = buffer c' \<and> last_id (fst (routeMessage c' m)) = last_id c'"
      by (auto simp: routeMessage_def Let_def deliver_def settle_waiter_def split: option.splits)
    then show ?case using Cons by (simp add: split_beta Let_def)
  qed simp
  then have "last_id (fst (onData c chunk)) = last_id c"
    and buf: "buffer (fst (onData c chunk)) = snd (parse_all (buffer c @ chunk))"
    by (simp_all add: onData_def drainBuffer_def split_beta Let_def)
  then show "in_shell cid s (fst (onData c chunk))" "buffer (fst (onData c chunk)) = snd (parse_all (buffer c @ chunk))"
    using view calls_onData[of c chunk] owned_subset[of cid s c "fst (onData c chunk)"] by (simp_all add: in_shell_def)
  show "shell_phase cid s command (D @ stream_messages s (buffer c @ chunk)) result (view (fst (onData c chunk)) s) rest out"
    using phase_absorb[OF assms(2)] view by (simp add: in_shell_def stream_messages_def)
qed

lemma tick_shell:
  assumes "in_shell cid s c" "s < 2 ^ 32" "shell_reply (D @ rest) okay ds clse"
    "shell_phase cid s command D (shell_result cid ds) (view c s) rest out"
  shows "in_shell cid s (fst (adb_step c Tick)) \<and> buffer (fst (adb_step c Tick)) = buffer c \<and>
    shell_phase cid s command D (shell_result cid ds) (view (fst (adb_step c Tick)) s) rest (out @ outcomes cid (snd (adb_step c Tick)))"
proof (cases "ready c")
  case Nil
  then show ?thesis using assms(1,4) by simp
next
  case (Cons p ps)
  obtain call r where p: "p = (call, r)" by fastforce
  let ?c = "c\<lparr>ready := ps\<rparr>"
  have inv: "adb_inv ?c" "s \<le> last_id ?c" and own: "owned cid s ?c" "caller_of call = cid \<Longrightarrow> stream_of call = s"
    using assms(1) Cons p by (auto simp: in_shell_def adb_inv_def drained_def owned_def calls_def)
  have step: "adb_step c Tick = resume ?c call r" using Cons p by simp
  have rest': "in_shell cid s (fst (adb_step c Tick))" "buffer (fst (adb_step c Tick)) = buffer c"
    using quiet_resume[OF inv(1), of call r] owned_resume[OF inv(1) own, of r] inv(2)
      adb_step_inv[of c Tick] assms(1)
    unfolding step by (simp_all add: in_shell_def quiet_def)
  show ?thesis
  proof (cases "stream_of call = s")
    case False
    then have "undisturbed cid s ?c (resume ?c call r)" using own inv by (intro undisturbed_resume) auto
    moreover have "view ?c s = view c s" using Cons p False by (simp add: view_def ready_of_def)
    ultimately show ?thesis using assms(4) step rest' by (simp add: undisturbed_def)
  next
    case True
    obtain w q h where v: "view c s = (w, q, h, ready_of c s)" by (simp add: view_def)
    have rs: "ready_of c s = p # ready_of ?c s" using Cons p True by (simp add: ready_of_def)
    then obtain L m where L: "D = L @ m # q" "p = (shell_wait cid s command L, Got m)" "ready_of ?c s = []" "w = None" "\<not> h" "out = []"
      using assms(4) v by auto
    then have "view ?c s = (None, q, False, [])" using v by (simp add: view_def)
    then show ?thesis
      using phase_resume[OF inv(1) assms(2), of L m q rest okay ds clse cid command] assms(3) L step p rest' by simp
  qed
qed

lemma run_shell:
  assumes "in_shell cid s c" "0 < s" "s < 2 ^ 32" "calm_run cid s c es"
    "shell_reply (D @ stream_messages s (buffer c @ concat (map chunk_of es))) okay ds clse"
    "shell_phase cid s command D (shell_result cid ds) (view c s) (stream_messages s (buffer c @ concat (map chunk_of es))) out"
  shows "shell_phase cid s command (D @ stream_messages s (buffer c @ concat (map chunk_of es))) (shell_result cid ds)
    (view (fst (mrun adb_step c es)) s) [] (out @ outcomes cid (snd (mrun adb_step c es)))"
  using assms(1,4-)
proof (induction es arbitrary: c D out)
  case Nil
  then have "stream_messages s (buffer c) = []"
    by (simp add: in_shell_def adb_inv_def drained_def stream_messages_def parse_all_None)
  then show ?case using Nil by simp
next
  case (Cons e es)
  let ?c = "fst (adb_step c e)" let ?out = "outcomes cid (snd (adb_step c e))"
  let ?now = "stream_messages s (buffer c @ chunk_of e)"
  let ?later = "stream_messages s (snd (parse_all (buffer c @ chunk_of e)) @ concat (map chunk_of es))"
  have split: "stream_messages s (buffer c @ concat (map chunk_of (e # es))) = ?now @ ?later"
    using stream_messages_append[of s "buffer c @ chunk_of e" "concat (map chunk_of es)"] by simp
  have idle: "parse_all (buffer c) = ([], buffer c)"
    using Cons.prems(1) by (simp add: in_shell_def adb_inv_def drained_def parse_all_None)
  have step: "in_shell cid s ?c" "buffer ?c = snd (parse_all (buffer c @ chunk_of e))"
    "shell_phase cid s command (D @ ?now) (shell_result cid ds) (view ?c s) ?later (out @ ?out)"
  proof -
    have phase: "shell_phase cid s command D (shell_result cid ds) (view c s) (?now @ ?later) out"
      using Cons.prems(4) split by simp
    consider (chunk) chunk where "e = Chunk chunk" | (tick) "e = Tick" | (other) "\<And>chunk. e \<noteq> Chunk chunk" "e \<noteq> Tick" by blast
    then have "in_shell cid s ?c \<and> buffer ?c = snd (parse_all (buffer c @ chunk_of e)) \<and>
      shell_phase cid s command (D @ ?now) (shell_result cid ds) (view ?c s) ?later (out @ ?out)"
    proof cases
      case chunk
      then show ?thesis using chunk_shell[OF Cons.prems(1), of command D "shell_result cid ds" chunk ?later out] phase by simp
    next
      case tick
      then show ?thesis
        using tick_shell[OF Cons.prems(1) assms(3), of D ?later okay ds clse command out] phase Cons.prems(3) split idle
        by (simp add: stream_messages_def del: adb_step.simps)
    next
      case other
      have none: "chunk_of e = []" using other by (cases e) auto
      have "undisturbed cid s c (adb_step c e)"
        using calm_undisturbed[of c cid s e] other Cons.prems(1,2) assms(2) by (simp add: in_shell_def)
      then show ?thesis
        using phase none idle Cons.prems(1) by (auto simp: undisturbed_def in_shell_def stream_messages_def)
    qed
    then show "in_shell cid s ?c" "buffer ?c = snd (parse_all (buffer c @ chunk_of e))"
      "shell_phase cid s command (D @ ?now) (shell_result cid ds) (view ?c s) ?later (out @ ?out)" by auto
  qed
  have "shell_phase cid s command ((D @ ?now) @ ?later) (shell_result cid ds) (view (fst (mrun adb_step ?c es)) s) []
      ((out @ ?out) @ outcomes cid (snd (mrun adb_step ?c es)))"
    using Cons.IH[OF step(1), of "D @ ?now" "out @ ?out"] step(2,3) Cons.prems(2,3) split by simp
  then show ?case unfolding split by (simp add: mrun_Cons del: mrun.simps(2))
qed

text \<open>The call itself starts in the first phase.\<close>

lemma open_shell_phase:
  assumes "adb_inv c" "\<not> conn_closed c" "s = last_id c + 1" "view c s = (None, [], False, [])" "\<forall>call\<in>calls c. caller_of call \<noteq> cid"
    "serializeHeader A_OPEN s 0 (utf8_encode (js ''shell:'' @ command @ [0])) \<noteq> None"
  shows "in_shell cid s (fst (openShell c cid command)) \<and> buffer (fst (openShell c cid command)) = buffer c \<and>
    outcomes cid (snd (openShell c cid command)) = [] \<and>
    view (fst (openShell c cid command)) s = (Some (Await_Shell_Ok cid s command), [], False, [])"
proof -
  let ?c = "c\<lparr>last_id := s\<rparr>" let ?payload = "utf8_encode (js ''shell:'' @ command @ [0])" let ?call = "Await_Shell_Ok cid s command"
  obtain out where out: "send ?c A_OPEN s 0 ?payload = Inr out" using assms(2,6) by (auto simp: send_def)
  have inv: "adb_inv ?c" "owned cid s ?c" using assms(1,5) by (simp_all add: adb_inv_def drained_def owned_def calls_def)
  have run: "openShell c cid command = (fst (readStreamMessage ?c s ?call), out)"
    using assms(2,3) out read_outcomes[OF inv(1)] by (simp add: openShell_def Let_def send_then_def split_beta)
  have "view ?c s = view c s" by (simp add: view_def)
  then have view: "view (fst (readStreamMessage ?c s ?call)) s = (Some ?call, [], False, [])"
    using read_view(1)[OF inv(1), of ?call s s] assms(4) by (simp add: view_def)
  moreover have "outcomes cid out = []" using send_outcomes[OF out] .
  ultimately show ?thesis
    using run read_inv[OF inv(1), of ?call s] owned_read[OF inv, of ?call s] quiet_read[OF inv(1), of s ?call]
    by (simp add: in_shell_def quiet_def)
qed

lemma shell_replies:
  assumes "list_all (\<lambda>(check, magic, m). wire_message m) fs"
  shows "stream_messages s (concat (map (\<lambda>(check, magic, m). message_bytes check magic m) fs)) =
    filter (\<lambda>m. target_id m = s) (map (snd \<circ> snd) fs)"
  using parse_messages[OF assms] by (simp add: stream_messages_def)

text \<open>C13: a shell command gets its output. On an open connection, in whatever state its other streams are, a
  shell call is made; then come chunks of the device, ticks, reads that time out and other calls, none of which are
  the caller's or on its stream, and no close. If the chunks cut the device's messages anywhere and those for the
  stream are an acknowledgement, data and a close, then when the runtime has nothing left to run the call has ended
  once, with the concatenated data decoded as UTF-8.\<close>

theorem shell_output:
  assumes "adb_inv c" "buffer c = []" "\<not> conn_closed c" "s = last_id c + 1" "s < 2 ^ 32"
    and "view c s = (None, [], False, [])" "\<forall>call\<in>calls c. caller_of call \<noteq> cid"
    and "serializeHeader A_OPEN s 0 (utf8_encode (js ''shell:'' @ command @ [0])) \<noteq> None"
    and "calm_run cid s (fst (openShell c cid command)) es"
    and "concat (map chunk_of es) = concat (map (\<lambda>(check, magic, m). message_bytes check magic m) fs)"
    and "list_all (\<lambda>(check, magic, m). wire_message m) fs"
    and "shell_reply (filter (\<lambda>m. target_id m = s) (map (snd \<circ> snd) fs)) okay ds clse"
    and "ready (fst (mrun adb_step c (Open_Shell cid command # es))) = []"
  shows "outcomes cid (snd (mrun adb_step c (Open_Shell cid command # es))) =
    [Shell_Done cid (utf8_decode (concat (map msg_payload ds)))]"
proof -
  let ?c = "fst (openShell c cid command)" let ?M = "filter (\<lambda>m. target_id m = s) (map (snd \<circ> snd) fs)"
  note start = open_shell_phase[OF assms(1,3,4,6-8)]
  have M: "stream_messages s (buffer ?c @ concat (map chunk_of es)) = ?M"
    using start shell_replies[OF assms(11), of s] assms(2,10) by simp
  have "?M \<noteq> []" using assms(12) by (simp add: shell_reply_def)
  then have "shell_phase cid s command ([] @ ?M) (shell_result cid ds) (view (fst (mrun adb_step ?c es)) s) []
      ([] @ outcomes cid (snd (mrun adb_step ?c es)))"
    using run_shell[of cid s ?c es "[]" okay ds clse command "[]"] start assms(4,5,9,12) M by simp
  moreover have "ready (fst (mrun adb_step ?c es)) = []" using assms(13) by (simp add: mrun_Cons del: mrun.simps(2))
  ultimately have "outcomes cid (snd (mrun adb_step ?c es)) = [shell_result cid ds]"
    by (auto simp: view_def ready_of_def)
  then show ?thesis using start by (simp add: mrun_Cons shell_result_def del: mrun.simps(2))
qed

section \<open>A run\<close>

definition okay_msg :: "nat \<Rightarrow> nat \<Rightarrow> adb_message" where
  "okay_msg r s = \<lparr>msg_command = A_OKAY, msg_arg0 = r, msg_arg1 = s, msg_payload = []\<rparr>"

definition data_msg :: "nat \<Rightarrow> nat \<Rightarrow> u8s \<Rightarrow> adb_message" where
  "data_msg r s bs = \<lparr>msg_command = A_WRTE, msg_arg0 = r, msg_arg1 = s, msg_payload = bs\<rparr>"

definition close_msg :: "nat \<Rightarrow> nat \<Rightarrow> adb_message" where
  "close_msg r s = \<lparr>msg_command = A_CLSE, msg_arg0 = r, msg_arg1 = s, msg_payload = []\<rparr>"

lemma wire_msgs [simp]:
  "r < 2 ^ 32 \<Longrightarrow> s < 2 ^ 32 \<Longrightarrow> wire_message (okay_msg r s)" "r < 2 ^ 32 \<Longrightarrow> s < 2 ^ 32 \<Longrightarrow> wire_message (close_msg r s)"
  "r < 2 ^ 32 \<Longrightarrow> s < 2 ^ 32 \<Longrightarrow> length bs < 2 ^ 32 \<Longrightarrow> wire_message (data_msg r s bs)"
  by (simp_all add: wire_message_def okay_msg_def data_msg_def close_msg_def A_OKAY_def A_WRTE_def A_CLSE_def)

lemma msg_fields [simp]:
  "msg_command (okay_msg r s) = A_OKAY" "msg_command (data_msg r s bs) = A_WRTE" "msg_command (close_msg r s) = A_CLSE"
  "msg_arg0 (okay_msg r s) = r" "msg_arg1 (okay_msg r s) = s" "msg_arg0 (data_msg r s bs) = r" "msg_arg1 (data_msg r s bs) = s"
  "msg_arg0 (close_msg r s) = r" "msg_arg1 (close_msg r s) = s" "msg_payload (data_msg r s bs) = bs"
  by (simp_all add: okay_msg_def data_msg_def close_msg_def)

lemma msg_targets [simp]: "target_id (okay_msg r s) = s" "target_id (data_msg r s bs) = s" "target_id (close_msg r s) = s"
  by (simp_all add: target_id_def A_OKAY_def A_WRTE_def A_CLSE_def A_CNXN_def A_AUTH_def)

lemma step_message:
  assumes "wire_message m" "buffer c = []"
  shows "adb_step c (Chunk (message_bytes check magic m)) = routeMessage c m"
proof -
  have same: "c\<lparr>buffer := []\<rparr> = c" using assms(2) by (cases c) simp
  show ?thesis using parse_messages[of "[(check, magic, m)]"] assms by (simp add: same onData_def drainBuffer_def split_beta Let_def)
qed

lemma drain_empty: "buffer c = [] \<Longrightarrow> drainBuffer c = (c, [])"
  by (simp add: drained_def tryParseMessage_def ADB_HEADER_SIZE_def)

lemmas adb_eval = new_conn_def openShell_def send_then_def send_def readStreamMessage_def takePending_def unread_of_def
  serializeHeader_def write_uint32_def checksum_def routeMessage_def Let_def deliver_def settle_waiter_def
  map_delete_def resume_shell_ok_def resume_shell_data_def cleanupStream_def drain_empty step_message
  A_OKAY_def A_WRTE_def A_CLSE_def A_CNXN_def A_AUTH_def A_OPEN_def js_def utf8_code_def

lemma new_inv [simp]: "adb_inv new_conn" "view new_conn s = (None, [], False, [])" "calls new_conn = {}"
  by (simp_all add: adb_inv_def new_conn_def drained_def tryParseMessage_def ADB_HEADER_SIZE_def view_def waiting_def
      unread_of_def ready_of_def calls_def)

definition sample_messages :: "(nat \<times> nat \<times> adb_message) list" where
  "sample_messages = map (\<lambda>m. (0, 0, m))
     [okay_msg 7 1, data_msg 9 2 [33], data_msg 7 1 [104], data_msg 7 1 [105], close_msg 7 1]"

definition sample_events :: "adb_event list" where
  "sample_events = [Chunk (message_bytes 0 0 (okay_msg 7 1)), Open_Shell 8 [98], Chunk (message_bytes 0 0 (data_msg 9 2 [33])), Tick,
     Chunk (message_bytes 0 0 (data_msg 7 1 [104])), Chunk (message_bytes 0 0 (data_msg 7 1 [105])), Tick, Tick,
     Chunk (message_bytes 0 0 (close_msg 7 1)), Tick, Tick]"

lemma sample_ready: "ready (fst (mrun adb_step new_conn (Open_Shell 3 [97] # sample_events))) = []"
  unfolding sample_events_def by (simp add: adb_eval del: adb_step.simps(1))

lemma sample_calm: "calm_run 3 1 c sample_events"
  by (simp add: sample_events_def)

theorem shell_output_witness:
  "outcomes 3 (snd (mrun adb_step new_conn (Open_Shell 3 [97] # sample_events))) = [Shell_Done 3 (utf8_decode [104, 105])]"
proof -
  have conn: "buffer new_conn = []" "\<not> conn_closed new_conn" "1 = last_id new_conn + 1" "(1 :: nat) < 2 ^ 32" "\<forall>call\<in>calls new_conn. caller_of call \<noteq> 3"
    by (simp_all add: new_conn_def calls_def)
  have opened: "serializeHeader A_OPEN 1 0 (utf8_encode (js ''shell:'' @ [97] @ [0])) \<noteq> None"
    by (simp add: serializeHeader_def write_uint32_def checksum_def A_OPEN_def js_def utf8_code_def)
  have chunks: "concat (map chunk_of sample_events) = concat (map (\<lambda>(check, magic, m). message_bytes check magic m) sample_messages)"
    "list_all (\<lambda>(check, magic, m). wire_message m) sample_messages"
    by (simp_all add: sample_events_def sample_messages_def)
  have reply: "shell_reply (filter (\<lambda>m. target_id m = 1) (map (snd \<circ> snd) sample_messages)) (okay_msg 7 1)
      [data_msg 7 1 [104], data_msg 7 1 [105]] (close_msg 7 1)"
    by (simp add: shell_reply_def sample_messages_def)
  show ?thesis
    using shell_output[OF new_inv(1) conn(1-4) new_inv(2) conn(5) opened sample_calm chunks reply sample_ready]
    by (simp del: mrun.simps adb_step.simps)
qed

end
