(* ===== verification/Adb_Wire_Race.thy ===== *)
theory Adb_Wire_Race imports Adb_Wire_Shell begin

text \<open>
  A persistent stream whose first data arrives with the acknowledgement: the handler of the stream is registered by
  the continuation of \<open>openStream\<close>, so data routed before it runs is put aside, and only a read takes it back.
\<close>

lemma parse_two:
  assumes "wire_message m" "wire_message m'"
  shows "parse_all (message_bytes k g m @ message_bytes k' g' m') = ([m, m'], [])"
  using parse_messages[of "[(k, g, m), (k', g', m')]"] assms by simp

lemma chunk_of_two:
  assumes "wire_message m" "wire_message m'" "buffer c = []"
  shows "adb_step c (Chunk (message_bytes k g m @ message_bytes k' g' m')) = route_all c [m, m']"
proof -
  have c: "c\<lparr>buffer := []\<rparr> = c" using assms(3) by (cases c) simp
  show ?thesis by (simp add: c onData_def drainBuffer_def parse_two[OF assms(1,2)] assms(3) Let_def split_beta del: route_all.simps)
qed

text \<open>The read that waits gets the first message, the second is kept.\<close>

lemma route_pair:
  assumes "adb_inv c" "target_id m = s" "target_id m' = s" "s \<notin> set (handlers c)" "waiting c s = Some call" "unread_of c s = []" "ready c = []"
  shows "\<exists>c'. route_all c [m, m'] = (c', []) \<and> adb_inv c' \<and> ready c' = [(call, Got m)] \<and> unread_of c' s = [m'] \<and>
    handlers c' = handlers c \<and> conn_closed c' = conn_closed c"
proof -
  obtain w where w: "map_of (waiters c) s = Some w" using assms(5) by (cases "map_of (waiters c) s") (simp_all add: waiting_def)
  then have t: "map_of (timers c) w = Some (s, call)"
    using inv_waiter[OF assms(1) w] assms(5) by (auto simp: waiting_def)
  have inv: "adb_inv (fst (route_all c [m, m']))" using route_all_inv[OF assms(1)] .
  show ?thesis
    using inv w t assms(2-7) by (simp add: routeMessage_def Let_def deliver_def settle_waiter_def map_of_delete unread_of_def map_of_map_set)
qed

lemma open_stream_run:
  assumes "adb_inv c" "\<not> conn_closed c" "s = last_id c + 1" "view c s = (None, [], False, [])"
    "serializeHeader A_OPEN s 0 (utf8_encode (destination @ [0])) = Some header"
  shows "\<exists>c' out. openStream c cid destination = (c', map Wire out) \<and> adb_inv c' \<and> waiting c' s = Some (Await_Stream_Ok cid s destination) \<and>
    unread_of c' s = [] \<and> handlers c' = handlers c \<and> ready c' = ready c \<and> buffer c' = buffer c \<and> \<not> conn_closed c'"
proof -
  let ?c = "c\<lparr>last_id := s\<rparr>" let ?call = "Await_Stream_Ok cid s destination" let ?p = "utf8_encode (destination @ [0])"
  have inv: "adb_inv ?c" using assms(1) by (simp add: adb_inv_def drained_def)
  have read: "readStreamMessage ?c s ?call = (register ?c s ?call, [])"
    using read_cases[OF inv_drained[OF inv], of s ?call] assms(4) by (simp add: view_def)
  have "openStream c cid destination = (register ?c s ?call, map Wire (header # (if ?p = [] then [] else [?p])))"
    using assms(2,3,5) read by (simp add: openStream_def Let_def send_then_def send_def)
  then show ?thesis
    using register_inv[OF inv, of ?call s] register_waiting[OF inv, of s ?call s] assms(2,4) 
    by (intro exI[of _ "register ?c s ?call"] exI[of _ "header # (if ?p = [] then [] else [?p])"]) (auto simp: view_def)
qed

definition quiet_action :: "adb_action \<Rightarrow> bool" where
  "quiet_action a = (case a of Wire bs \<Rightarrow> True | _ \<Rightarrow> False)"

lemma quiet_wires [simp]: "filter (\<lambda>a. \<not> quiet_action a) (map Wire out) = []"
  by (simp add: quiet_action_def)

lemma toString_wrte: "js_toString 16 A_WRTE = js ''45545257''"
  by (simp add: A_WRTE_def js_toString.simps js_def)

text \<open>Data that arrives in one chunk with the acknowledgement of a stream never reaches the stream's handler,
  although the handler is set as soon as the stream is open: nothing is reported and nothing acknowledged to the
  device. The next write takes that data for its own acknowledgement and fails.\<close>

theorem stream_early_data:
  assumes "adb_inv c" "buffer c = []" "\<not> conn_closed c" "s = last_id c + 1" "view c s = (None, [], False, [])" "ready c = []"
    and "serializeHeader A_OPEN s 0 (utf8_encode (destination @ [0])) = Some h"
    and "serializeHeader A_WRTE s (msg_arg0 okay) reply = Some h'"
    and "wire_message okay" "msg_command okay = A_OKAY" "msg_arg1 okay = s"
    and "wire_message early" "msg_command early = A_WRTE" "msg_arg1 early = s"
  shows "filter (\<lambda>a. \<not> quiet_action a) (snd (mrun adb_step c
      [Open_Stream cid destination, Chunk (message_bytes k g okay @ message_bytes k' g' early), Tick, On_Stream_Data s,
       Stream_Write cid' s (msg_arg0 okay) reply, Tick])) =
    [Stream_Opened cid s (msg_arg0 okay),
     Call_Failed cid' (transport_error (js ''Expected OKAY after WRTE, got 0x45545257''))]"
proof -
  have target: "target_id okay = s" "target_id early = s"
    using assms(10,11,13,14) by (simp_all add: target_id_def A_OKAY_def A_WRTE_def A_CNXN_def A_AUTH_def)
  obtain c1 out1 where c1: "adb_step c (Open_Stream cid destination) = (c1, map Wire out1)" "adb_inv c1"
    "waiting c1 s = Some (Await_Stream_Ok cid s destination)" "unread_of c1 s = []" "handlers c1 = handlers c" "ready c1 = []"
    "buffer c1 = []" "\<not> conn_closed c1"
    using open_stream_run[OF assms(1,3-5,7), of cid] assms(2,6) by auto
  have h: "s \<notin> set (handlers c1)" using assms(5) c1(5) by (simp add: view_def)
  obtain c2 where c2: "adb_step c1 (Chunk (message_bytes k g okay @ message_bytes k' g' early)) = (c2, [])" "adb_inv c2"
    "ready c2 = [(Await_Stream_Ok cid s destination, Got okay)]" "unread_of c2 s = [early]" "\<not> conn_closed c2"
    using chunk_of_two[OF assms(9,12) c1(7)] route_pair[OF c1(2) target h c1(3,4,6)] c1(8) by auto
  let ?c3 = "c2\<lparr>ready := [], handlers := handlers c2 @ (if s \<in> set (handlers c2) then [] else [s])\<rparr>"
  have c3: "adb_step c2 Tick = (?c3, [Stream_Opened cid s (msg_arg0 okay)])"
    using c2(3) assms(10) by (simp add: resume_stream_ok_def)
  let ?c4 = "?c3\<lparr>listening := s # listening ?c3\<rparr>"
  have inv: "adb_inv ?c4" using c2(2) by (simp add: adb_inv_def drained_def)
  have c5: "adb_step ?c4 (Stream_Write cid' s (msg_arg0 okay) reply) = ((take_unread ?c4 s [])\<lparr>ready := [(Await_Ack cid' s, Got early)]\<rparr>,
      map Wire (h' # (if reply = [] then [] else [reply])))"
    using c2(4,5) read_cases[OF inv_drained[OF inv], of s "Await_Ack cid' s"] assms(8)
    by (simp add: stream_write_def send_then_def send_def Let_def)
  let ?e = "transport_error (js ''Expected OKAY after WRTE, got 0x45545257'')"
  have "js ''Expected OKAY after WRTE, got '' @ hex_command A_WRTE = js ''Expected OKAY after WRTE, got 0x45545257''"
    by (simp add: hex_command_def toString_wrte js_def)
  then have "snd (adb_step (x\<lparr>ready := [(Await_Ack cid' s, Got early)]\<rparr>) Tick) = [Call_Failed cid' ?e]" for x
    using assms(13) by (simp add: resume_ack_def A_OKAY_def A_WRTE_def)
  moreover have "adb_step ?c3 (On_Stream_Data s) = (?c4, [])" by simp
  ultimately show ?thesis
    using c1(1) c2(1) c3 c5 by (simp add: mrun_Cons del: mrun.simps(2) adb_step.simps) (simp add: quiet_action_def)
qed

theorem stream_early_data_witness:
  "filter (\<lambda>a. \<not> quiet_action a) (snd (mrun adb_step new_conn
      [Open_Stream 3 [97], Chunk (message_bytes 0 0 (okay_msg 7 1) @ message_bytes 0 0 (data_msg 7 1 [33])), Tick, On_Stream_Data 1,
       Stream_Write 4 1 (msg_arg0 (okay_msg 7 1)) [65], Tick])) =
    [Stream_Opened 3 1 (msg_arg0 (okay_msg 7 1)),
     Call_Failed 4 (transport_error (js ''Expected OKAY after WRTE, got 0x45545257''))]"
proof -
  have conn: "buffer new_conn = []" "\<not> conn_closed new_conn" "1 = last_id new_conn + 1" "ready new_conn = []"
    by (simp_all add: new_conn_def)
  have "serializeHeader A_OPEN 1 0 (utf8_encode ([97] @ [0])) \<noteq> None" "serializeHeader A_WRTE 1 (msg_arg0 (okay_msg 7 1)) [65] \<noteq> None"
    by (simp_all add: serializeHeader_def write_uint32_def checksum_def A_OPEN_def A_WRTE_def utf8_code_def)
  then obtain h h' where h: "serializeHeader A_OPEN 1 0 (utf8_encode ([97] @ [0])) = Some h"
    "serializeHeader A_WRTE 1 (msg_arg0 (okay_msg 7 1)) [65] = Some h'" by blast
  have msgs: "wire_message (okay_msg 7 1)" "msg_command (okay_msg 7 1) = A_OKAY" "msg_arg1 (okay_msg 7 1) = 1"
    "wire_message (data_msg 7 1 [33])" "msg_command (data_msg 7 1 [33]) = A_WRTE" "msg_arg1 (data_msg 7 1 [33]) = 1"
    by simp_all
  show ?thesis by (rule stream_early_data[OF new_inv(1) conn(1-3) new_inv(2) conn(4) h msgs])
qed

end
