(* ===== verification/Service_Router.thy ===== *)
theory Service_Router imports Errors begin

text \<open>
  \<^verbatim>\<open>packages/core/src/service-router.ts\<close>, \<^verbatim>\<open>fallback-services.ts\<close> and the search of a network method in \<^verbatim>\<open>modem.ts\<close>:
  which adapter serves which service. A service is an object of the language: its own properties and those that it
  inherits from its class, which a spread \<open>{ ...object }\<close> does not copy. What a method of an adapter does is a
  parameter; the methods of the fallbacks reject.
\<close>

section \<open>Objects and adapters\<close>

datatype service_name =
    Network | Sms | Sim | Device | Voice | Ussd | Stk | Capabilities | Traffic | Data | Radio | Phonebook | System | Thermal

fun service_text :: "service_name \<Rightarrow> jstr" where
  "service_text Network = js ''network''"
| "service_text Sms = js ''sms''"
| "service_text Sim = js ''sim''"
| "service_text Device = js ''device''"
| "service_text Voice = js ''voice''"
| "service_text Ussd = js ''ussd''"
| "service_text Stk = js ''stk''"
| "service_text Capabilities = js ''capabilities''"
| "service_text Traffic = js ''traffic''"
| "service_text Data = js ''data''"
| "service_text Radio = js ''radio''"
| "service_text Phonebook = js ''phonebook''"
| "service_text System = js ''system''"
| "service_text Thermal = js ''thermal''"

datatype 'm method_value = Method 'm | Rejects cellary_error | Nothing

record 'm service_object =
  own_methods :: "(jstr \<times> 'm method_value) list"
  class_methods :: "(jstr \<times> 'm method_value) list"

definition service_method :: "'m service_object \<Rightarrow> jstr \<Rightarrow> 'm method_value option" where
  "service_method obj name =
     (case map_of (own_methods obj) name of Some m \<Rightarrow> Some m | None \<Rightarrow> map_of (class_methods obj) name)"

text \<open>\<open>{ ...object, name: method }\<close>\<close>

definition spread_with :: "'m service_object \<Rightarrow> jstr \<Rightarrow> 'm method_value \<Rightarrow> 'm service_object" where
  "spread_with obj name m = \<lparr>own_methods = map_set name m (own_methods obj), class_methods = []\<rparr>"

record capability =
  cap_priority :: int
  cap_reason :: jstr

record 'm adapter =
  adapter_kind :: jstr
  provides :: "service_name \<Rightarrow> 'm service_object option"
  serviceCapabilities :: "service_name \<Rightarrow> capability option"
  smsCount :: "'m method_value option"

record route_info =
  route_adapter :: jstr
  route_reason :: jstr
  route_contested :: bool

section \<open>Fallbacks\<close>

fun fallback_methods :: "service_name \<Rightarrow> string list" where
  "fallback_methods Network = [''signal'', ''registration'', ''operator'']"
| "fallback_methods Sms = [''send'', ''list'', ''read'', ''delete'']"
| "fallback_methods Sim = [''info'', ''iccid'', ''imsi'', ''enterPin'']"
| "fallback_methods Device = [''info'', ''imei'']"
| "fallback_methods Voice = [''dial'', ''answer'', ''hangup'', ''dtmf'', ''listCalls'']"
| "fallback_methods Ussd = [''send'', ''cancel'']"
| "fallback_methods Stk = [''enable'', ''select'', ''confirm'', ''input'', ''key'', ''back'', ''endSession'']"
| "fallback_methods Capabilities = [''discover'']"
| "fallback_methods Traffic = [''session'']"
| "fallback_methods Data = [''status'', ''contexts'']"
| "fallback_methods Radio = [''functionality'', ''setFunctionality'', ''lastError'']"
| "fallback_methods Phonebook = [''selectStorage'', ''read'', ''find'', ''write'', ''delete'']"
| "fallback_methods System = [''shell'']"
| "fallback_methods Thermal = [''readSensors'', ''readCpuFrequency'', ''setMaxFrequencyKhz'']"

text \<open>All are object literals, except that of STK, which is an instance of a class.\<close>

definition notSupported :: "service_name \<Rightarrow> jstr list \<Rightarrow> 'm service_object" where
  "notSupported service protocols =
     (let rejecting = map (\<lambda>name. (js name, Rejects (NotSupportedError (service_text service) protocols))) (fallback_methods service)
      in if service = Stk then \<lparr>own_methods = [], class_methods = rejecting @ [(js ''disable'', Nothing)]\<rparr>
         else \<lparr>own_methods = rejecting, class_methods = []\<rparr>)"

section \<open>Routing\<close>

definition adapter_priority :: "'m adapter \<Rightarrow> service_name \<Rightarrow> int" where
  "adapter_priority a service = (case serviceCapabilities a service of None \<Rightarrow> 0 | Some cap \<Rightarrow> cap_priority cap)"

definition adapter_reason :: "'m adapter \<Rightarrow> service_name \<Rightarrow> jstr" where
  "adapter_reason a service = (case serviceCapabilities a service of None \<Rightarrow> [] | Some cap \<Rightarrow> cap_reason cap)"

type_synonym 'm best = "'m service_object \<times> jstr \<times> int \<times> jstr"

definition pick_step :: "service_name \<Rightarrow> 'm best option \<times> nat \<Rightarrow> 'm adapter \<Rightarrow> 'm best option \<times> nat" where
  "pick_step service st a =
     (case provides a service of
        None \<Rightarrow> st
      | Some value \<Rightarrow>
          (let (best, candidateCount) = st;
               better = (case best of None \<Rightarrow> True | Some (_, _, bestPriority, _) \<Rightarrow> adapter_priority a service > bestPriority)
           in (if better then Some (value, adapter_kind a, adapter_priority a service, adapter_reason a service) else best,
               candidateCount + 1)))"

definition pickService :: "'m adapter list \<Rightarrow> service_name \<Rightarrow> ('m service_object \<times> route_info) option" where
  "pickService adapters service =
     (case foldl (pick_step service) (None, 0) adapters of
        (None, _) \<Rightarrow> None
      | (Some (value, kind, _, reason), candidateCount) \<Rightarrow>
          Some (value, \<lparr>route_adapter = kind, route_reason = reason, route_contested = candidateCount > 1\<rparr>))"

definition route_service :: "'m adapter list \<Rightarrow> jstr list \<Rightarrow> service_name \<Rightarrow> 'm service_object" where
  "route_service adapters proto service =
     (case pickService adapters service of None \<Rightarrow> notSupported service proto | Some (value, _) \<Rightarrow> value)"

definition route_sms :: "'m adapter list \<Rightarrow> jstr list \<Rightarrow> 'm service_object" where
  "route_sms adapters proto =
     (let sms = route_service adapters proto Sms
      in if service_method sms (js ''count'') \<noteq> None then sms
         else (case List.map_filter smsCount adapters of
                 [] \<Rightarrow> sms
               | countFn # _ \<Rightarrow> spread_with sms (js ''count'') countFn))"

definition all_services :: "service_name list" where
  "all_services = [Network, Sms, Sim, Device, Voice, Ussd, Traffic, Data, Radio, Capabilities, Stk, Phonebook, System, Thermal]"

record 'm routed_services =
  routed :: "service_name \<Rightarrow> 'm service_object"
  routeInfo :: "(service_name \<times> route_info) list"

definition routeServices :: "'m adapter list \<Rightarrow> jstr list \<Rightarrow> 'm routed_services" where
  "routeServices adapters proto =
     \<lparr>routed = (\<lambda>service. if service = Sms then route_sms adapters proto else route_service adapters proto service),
      routeInfo = List.map_filter (\<lambda>service. map_option (\<lambda>(_, info). (service, info)) (pickService adapters service)) all_services\<rparr>"

section \<open>Network methods\<close>

definition findNetworkMethod :: "'m adapter list \<Rightarrow> jstr \<Rightarrow> 'm service_object option" where
  "findNetworkMethod adapters name =
     find (\<lambda>net. service_method net name \<noteq> None) (List.map_filter (\<lambda>a. provides a Network) adapters)"

definition network_call :: "'m adapter list \<Rightarrow> string \<Rightarrow> string \<Rightarrow> 'm method_value" where
  "network_call adapters name what =
     (case findNetworkMethod adapters (js name) of
        None \<Rightarrow> Rejects (NotSupportedError (js what) (map adapter_kind adapters))
      | Some net \<Rightarrow> the (service_method net (js name)))"

definition scanNetworks :: "'m adapter list \<Rightarrow> 'm method_value" where
  "scanNetworks adapters = network_call adapters ''scan'' ''network scan''"

definition selectNetwork :: "'m adapter list \<Rightarrow> 'm method_value" where
  "selectNetwork adapters = network_call adapters ''selectOperator'' ''network select''"

definition selectNetworkAutomatic :: "'m adapter list \<Rightarrow> 'm method_value" where
  "selectNetworkAutomatic adapters = network_call adapters ''selectAutomatic'' ''network select''"

section \<open>The best adapter\<close>

definition providers :: "'m adapter list \<Rightarrow> service_name \<Rightarrow> 'm adapter list" where
  "providers adapters service = filter (\<lambda>a. provides a service \<noteq> None) adapters"

text \<open>The first of the providers with the highest priority.\<close>

definition best_provider :: "'m adapter list \<Rightarrow> service_name \<Rightarrow> 'm adapter \<Rightarrow> bool" where
  "best_provider adapters service a \<longleftrightarrow> (\<exists>before after. providers adapters service = before @ a # after \<and>
     (\<forall>b\<in>set before. adapter_priority b service < adapter_priority a service) \<and>
     (\<forall>b\<in>set after. adapter_priority b service \<le> adapter_priority a service))"

lemma providers_snoc: "providers (as @ [a]) s = providers as s @ (if provides a s = None then [] else [a])"
  by (simp add: providers_def)

lemma pick_step_simps:
  "provides a s = None \<Longrightarrow> pick_step s st a = st"
  "provides a s = Some v \<Longrightarrow> pick_step s (None, n) a = (Some (v, adapter_kind a, adapter_priority a s, adapter_reason a s), n + 1)"
  "provides a s = Some v \<Longrightarrow> pick_step s (Some (v', k, p, r), n) a =
    (Some (if adapter_priority a s > p then (v, adapter_kind a, adapter_priority a s, adapter_reason a s) else (v', k, p, r)), n + 1)"
  by (simp_all add: pick_step_def)

lemma pick_fold:
  "snd (foldl (pick_step s) (None, 0) as) = length (providers as s) \<and>
   (if providers as s = [] then fst (foldl (pick_step s) (None, 0) as) = None
    else \<exists>a v. best_provider as s a \<and> provides a s = Some v \<and>
      fst (foldl (pick_step s) (None, 0) as) = Some (v, adapter_kind a, adapter_priority a s, adapter_reason a s))"
proof (induction as rule: rev_induct)
  case (snoc b as)
  obtain best n where st: "foldl (pick_step s) (None, 0) as = (best, n)" by fastforce
  show ?case
  proof (cases "provides b s")
    case None
    then have "providers (as @ [b]) s = providers as s" by (simp add: providers_snoc)
    then have "best_provider (as @ [b]) s = best_provider as s" by (simp add: best_provider_def fun_eq_iff)
    then show ?thesis
      using snoc unfolding \<open>providers (as @ [b]) s = providers as s\<close> foldl_append foldl.simps pick_step_simps(1)[OF None] by (simp split: if_splits)
  next
    case (Some w)
    show ?thesis
    proof (cases "providers as s = []")
      case True
      then have "best_provider (as @ [b]) s b" using Some
        unfolding best_provider_def providers_snoc by (intro exI[of _ "[]"]) simp
      then show ?thesis using True snoc.IH st Some by (auto simp: providers_snoc pick_step_simps)
    next
      case False
      then obtain a v where a: "best_provider as s a" "provides a s = Some v"
        "best = Some (v, adapter_kind a, adapter_priority a s, adapter_reason a s)" using snoc st by auto
      then obtain before after where parts: "providers as s = before @ a # after"
        "\<forall>x\<in>set before. adapter_priority x s < adapter_priority a s" "\<forall>x\<in>set after. adapter_priority x s \<le> adapter_priority a s"
        unfolding best_provider_def by blast
      have n: "n = length (providers as s)" using snoc st by simp
      show ?thesis
      proof (cases "adapter_priority b s > adapter_priority a s")
        case True
        have "best_provider (as @ [b]) s b"
          unfolding best_provider_def providers_snoc using Some parts True
          by (intro exI[of _ "providers as s"] exI[of _ "[]"]) (force simp: parts(1))
        then show ?thesis using True Some st a n by (auto simp: providers_snoc pick_step_simps)
      next
        case False
        have "best_provider (as @ [b]) s a"
          unfolding best_provider_def providers_snoc using Some parts False
          by (intro exI[of _ before] exI[of _ "after @ [b]"]) auto
        then show ?thesis using False Some st a n by (auto simp: providers_snoc pick_step_simps)
      qed
    qed
  qed
qed (simp add: providers_def)

lemma pick_cases:
  "if providers as s = [] then pickService as s = None
   else \<exists>a v. best_provider as s a \<and> provides a s = Some v \<and> pickService as s =
     Some (v, \<lparr>route_adapter = adapter_kind a, route_reason = adapter_reason a s, route_contested = length (providers as s) > 1\<rparr>)"
  using pick_fold[of s as] by (auto simp: pickService_def split_beta split: option.splits prod.splits if_splits)

lemma fallback_rejects:
  "m \<in> set (fallback_methods s) \<Longrightarrow> service_method (notSupported s proto) (js m) = Some (Rejects (NotSupportedError (service_text s) proto))"
  by (cases s) (auto simp: notSupported_def service_method_def Let_def)

lemma map_filter_set: "x \<in> set (List.map_filter f xs) \<longleftrightarrow> (\<exists>a\<in>set xs. f a = Some x)"
  by (induction xs) (auto simp: List.map_filter_simps split: option.splits)

lemma spread_method: "service_method (spread_with obj k m) name = (if name = k then Some m else map_of (own_methods obj) name)"
  by (simp add: service_method_def spread_with_def map_of_map_set split: option.splits)

section \<open>Routed services\<close>

definition info_of :: "'m adapter list \<Rightarrow> service_name \<Rightarrow> 'm adapter \<Rightarrow> route_info" where
  "info_of as s a = \<lparr>route_adapter = adapter_kind a, route_reason = adapter_reason a s, route_contested = length (providers as s) > 1\<rparr>"

lemma all_services_complete: "s \<in> set all_services" "distinct all_services"
  by (cases s) (simp_all add: all_services_def)

lemma map_of_filter_keys: "distinct xs \<Longrightarrow> map_of (List.map_filter (\<lambda>x. map_option (\<lambda>(_, i). (x, i)) (f x)) xs) y =
    (if y \<in> set xs then map_option snd (f y) else None)"
  by (induction xs) (auto simp: List.map_filter_simps split: option.splits)

lemma routed_info: "map_of (routeInfo (routeServices as proto)) s = map_option snd (pickService as s)"
  using map_of_filter_keys[OF all_services_complete(2), of "pickService as" s] all_services_complete(1)[of s]
  by (simp add: routeServices_def)

lemma routed_sms:
  assumes "v = route_service as proto Sms"
  shows "name \<noteq> js ''count'' \<Longrightarrow> map_of (own_methods v) name = Some m \<Longrightarrow> service_method (route_sms as proto) name = Some m"
    "service_method (route_sms as proto) (js ''count'') \<noteq> None \<longleftrightarrow>
      service_method v (js ''count'') \<noteq> None \<or> (\<exists>a\<in>set as. smsCount a \<noteq> None)"
proof -
  have none: "List.map_filter smsCount as = [] \<longleftrightarrow> (\<forall>a\<in>set as. smsCount a = None)"
    by (induction as) (auto simp: List.map_filter_simps split: option.splits)
  have own: "service_method v name = Some m" if "map_of (own_methods v) name = Some m" for v name m
    using that by (simp add: service_method_def)
  show "service_method (route_sms as proto) name = Some m" if "name \<noteq> js ''count''" "map_of (own_methods v) name = Some m"
    using that assms own[OF that(2)] by (auto simp: route_sms_def Let_def spread_method split: list.splits)
  show "service_method (route_sms as proto) (js ''count'') \<noteq> None \<longleftrightarrow>
      service_method v (js ''count'') \<noteq> None \<or> (\<exists>a\<in>set as. smsCount a \<noteq> None)"
    using none assms by (auto simp: route_sms_def Let_def spread_method split: list.splits)
qed


text \<open>A service that is an instance of a class has its methods from the class; when \<open>count\<close> is added to it, they are lost.\<close>

theorem sms_methods_lost:
  assumes "pickService as Sms = Some (v, info)" "own_methods v = []" "map_of (class_methods v) (js ''count'') = None"
    and "a \<in> set as" "smsCount a \<noteq> None" "name \<noteq> js ''count''"
  shows "service_method (routed (routeServices as proto) Sms) name = None"
proof -
  have "List.map_filter smsCount as \<noteq> []" using assms(4,5) by (induction as) (auto simp: List.map_filter_simps split: option.splits)
  moreover have count: "service_method v (js ''count'') = None" using assms(2,3) by (simp add: service_method_def)
  ultimately show ?thesis
    using assms by (auto simp: routeServices_def route_sms_def route_service_def Let_def spread_method split: list.splits)
qed

definition sample_adapters :: "nat adapter list" where
  "sample_adapters =
     [\<lparr>adapter_kind = js ''at'', provides = (\<lambda>s. if s = Sim then Some \<lparr>own_methods = [], class_methods = [(js ''info'', Method 1)]\<rparr> else None),
       serviceCapabilities = (\<lambda>s. None), smsCount = None\<rparr>,
      \<lparr>adapter_kind = js ''http'', provides = (\<lambda>s. if s = Sim then Some \<lparr>own_methods = [], class_methods = [(js ''info'', Method 2)]\<rparr> else None),
       serviceCapabilities = (\<lambda>s. Some \<lparr>cap_priority = 10, cap_reason = js ''rich data''\<rparr>), smsCount = Some (Method 3)\<rparr>]"


end
