(* ===== verification/Device_Observer.thy ===== *)
theory Device_Observer imports Machines Timer_Encoding begin

text \<open>
  \<^verbatim>\<open>packages/core/src/discovery/observer.ts\<close> with the subscription of \<^verbatim>\<open>watcher.ts\<close>: the appearances of devices on
  the USB bus become sessions with a history of cycles, an analysis by the resolver of the vendor, and events.
  A session is an object that timers refer to after it left the table, so that sessions live in a store.
  The clock is an argument of the events, the devices on the bus and the classification of a device are the
  environment's. The preparation of the bus on macOS is left out, and so is the serial number of a session,
  which is never set. Of a discovered modem the record has the fields that the observer reads; its mode, location and
  database entry are only passed on.
\<close>

section \<open>Cycles and sessions\<close>

record discovered_modem =
  disc_vendorId :: int
  disc_productId :: int
  disc_name :: jstr
  disc_deviceId :: jstr

record usb_cycle =
  cycle_pid :: int
  cycle_name :: jstr
  attachedAt :: int
  detachedAt :: "int option"
  cycle_modem :: "discovered_modem option"

record device_session =
  ses_id :: jstr
  ses_vendorId :: int
  ses_vendorName :: jstr
  ses_history :: "usb_cycle list"
  ses_current :: "usb_cycle option"
  ses_firstSeenAt :: int
  ses_maxHistory :: nat

record session_snapshot =
  snap_deviceId :: jstr
  snap_vendorId :: int
  snap_vendorName :: jstr
  snap_current :: "usb_cycle option"
  snap_history :: "usb_cycle list"
  snap_firstSeenAt :: int
  snap_onBus :: bool
  snap_completedCycleCount :: nat
  snap_avgOnBus :: "int option"
  snap_avgOffBus :: "int option"

definition new_session :: "int \<Rightarrow> jstr \<Rightarrow> int \<Rightarrow> jstr \<Rightarrow> nat \<Rightarrow> device_session" where
  "new_session now key vendor name maxHistory =
     \<lparr>ses_id = key, ses_vendorId = vendor, ses_vendorName = name, ses_history = [], ses_current = None,
      ses_firstSeenAt = now, ses_maxHistory = maxHistory\<rparr>"

definition recordAttach :: "int \<Rightarrow> int \<Rightarrow> jstr \<Rightarrow> discovered_modem option \<Rightarrow> device_session \<Rightarrow> device_session" where
  "recordAttach now pid name modem ses =
     ses\<lparr>ses_current := Some \<lparr>cycle_pid = pid, cycle_name = name, attachedAt = now, detachedAt = None, cycle_modem = modem\<rparr>\<rparr>"

definition recordDetach :: "int \<Rightarrow> device_session \<Rightarrow> device_session" where
  "recordDetach now ses =
     (case ses_current ses of
        None \<Rightarrow> ses
      | Some c \<Rightarrow>
          (let history = c\<lparr>detachedAt := Some now\<rparr> # ses_history ses
           in ses\<lparr>ses_current := None,
                ses_history := (if ses_maxHistory ses < length history then butlast history else history)\<rparr>))"

definition on_bus_time :: "usb_cycle \<Rightarrow> int" where
  "on_bus_time c = (case detachedAt c of Some t \<Rightarrow> t - attachedAt c | None \<Rightarrow> 0)"

text \<open>The gap between a cycle and the one before it, which follows it in the list.\<close>

fun gaps :: "usb_cycle list \<Rightarrow> int list" where
  "gaps (newer # older # cs) =
     (case detachedAt older of Some t \<Rightarrow> [attachedAt newer - t] | None \<Rightarrow> []) @ gaps (older # cs)"
| "gaps _ = []"

definition average :: "int list \<Rightarrow> nat \<Rightarrow> int option" where
  "average xs n = (if n = 0 then None else Some (js_round_quotient (sum_list xs) (int n)))"

definition snapshot :: "device_session \<Rightarrow> session_snapshot" where
  "snapshot ses =
     (let cycles = ses_history ses; n = length cycles
      in \<lparr>snap_deviceId = ses_id ses, snap_vendorId = ses_vendorId ses, snap_vendorName = ses_vendorName ses,
          snap_current = ses_current ses, snap_history = cycles, snap_firstSeenAt = ses_firstSeenAt ses,
          snap_onBus = (ses_current ses \<noteq> None), snap_completedCycleCount = n,
          snap_avgOnBus = (if 2 \<le> n then average (map on_bus_time cycles) n else None),
          snap_avgOffBus = (if 2 \<le> n then average (gaps cycles) (length (gaps cycles)) else None)\<rparr>)"

section \<open>Analysis\<close>

datatype severity = Severity_Normal | Severity_Degraded | Severity_Critical

record device_analysis =
  an_state :: jstr
  an_severity :: severity
  an_description :: jstr
  an_recommendations :: "jstr list"
  an_expectedNextPid :: "int option"
  an_estimatedRecoveryMs :: "int option"

text \<open>A resolver is the number of its vendor and its function of the present time and a session.\<close>

type_synonym resolver = "int \<times> (int \<Rightarrow> session_snapshot \<Rightarrow> device_analysis option)"

definition genericAnalysis :: "session_snapshot \<Rightarrow> device_analysis" where
  "genericAnalysis snap =
     (if snap_onBus snap
      then \<lparr>an_state = js ''connected'', an_severity = Severity_Normal,
        an_description = snap_vendorName snap @ js '' is connected'', an_recommendations = [],
        an_expectedNextPid = None, an_estimatedRecoveryMs = None\<rparr>
      else \<lparr>an_state = js ''disconnected'', an_severity = Severity_Normal,
        an_description = snap_vendorName snap @ js '' was disconnected'', an_recommendations = [],
        an_expectedNextPid = None, an_estimatedRecoveryMs = None\<rparr>)"

fun analyze :: "resolver list \<Rightarrow> int \<Rightarrow> session_snapshot \<Rightarrow> device_analysis" where
  "analyze [] now snap = genericAnalysis snap"
| "analyze ((vendor, f) # rs) now snap =
     (if vendor = snap_vendorId snap
      then (case f now snap of Some a \<Rightarrow> a | None \<Rightarrow> analyze rs now snap)
      else analyze rs now snap)"

section \<open>The observer\<close>

datatype observer_event =
    Device_Appeared session_snapshot device_analysis
  | Device_Attached session_snapshot device_analysis
  | Device_Detached session_snapshot device_analysis
  | Device_State_Changed session_snapshot device_analysis device_analysis
  | Device_Gone session_snapshot

record observer_config =
  obs_resolvers :: "resolver list"
  obs_maxCycleHistory :: nat

text \<open>
  \<open>obs_timers\<close> are the timers of the runtime: the number of the timer with the key and the session that its
  callback holds. \<open>obs_watch\<close> is the table of known modems of the present subscription.
\<close>

record observer =
  obs_store :: "nat \<Rightarrow> device_session"
  obs_sessions :: "(jstr \<times> nat) list"
  obs_goneTimers :: "(jstr \<times> nat) list"
  obs_timers :: "(nat \<times> jstr \<times> nat) list"
  obs_lastAnalysis :: "(jstr \<times> device_analysis) list"
  obs_watch :: "(jstr \<times> discovered_modem) list option"
  obs_next :: nat

definition new_observer :: observer where
  "new_observer = \<lparr>obs_store = (\<lambda>_. new_session 0 [] 0 [] 0), obs_sessions = [], obs_goneTimers = [], obs_timers = [],
     obs_lastAnalysis = [], obs_watch = None, obs_next = 0\<rparr>"

definition cancel_gone :: "jstr \<Rightarrow> observer \<Rightarrow> observer" where
  "cancel_gone key s =
     (case map_of (obs_goneTimers s) key of
        None \<Rightarrow> s
      | Some t \<Rightarrow> s\<lparr>obs_timers := map_delete t (obs_timers s), obs_goneTimers := map_delete key (obs_goneTimers s)\<rparr>)"

definition get_session :: "observer_config \<Rightarrow> int \<Rightarrow> discovered_modem \<Rightarrow> observer \<Rightarrow> observer \<times> nat" where
  "get_session cfg now m s =
     (case map_of (obs_sessions s) (disc_deviceId m) of
        Some i \<Rightarrow> (s, i)
      | None \<Rightarrow>
          (let i = obs_next s
           in (s\<lparr>obs_store := (obs_store s)(i := new_session now (disc_deviceId m) (disc_vendorId m) (disc_name m) (obs_maxCycleHistory cfg)),
                obs_sessions := map_set (disc_deviceId m) i (obs_sessions s), obs_next := Suc i\<rparr>, i)))"

definition change_of :: "device_analysis option \<Rightarrow> session_snapshot \<Rightarrow> device_analysis \<Rightarrow> observer_event list" where
  "change_of previous snap a =
     (case previous of
        Some p \<Rightarrow> if an_state p \<noteq> an_state a then [Device_State_Changed snap a p] else []
      | None \<Rightarrow> [])"

definition handleAttach :: "observer_config \<Rightarrow> int \<Rightarrow> bool \<Rightarrow> discovered_modem \<Rightarrow> observer \<Rightarrow> observer \<times> observer_event list" where
  "handleAttach cfg now isSeed m s =
     (let key = disc_deviceId m;
          isNew = (map_of (obs_sessions s) key = None);
          (s1, i) = get_session cfg now m (cancel_gone key s);
          ses = recordAttach now (disc_productId m) (disc_name m) (Some m) (obs_store s1 i);
          s2 = s1\<lparr>obs_store := (obs_store s1)(i := ses)\<rparr>;
          snap = snapshot ses;
          a = analyze (obs_resolvers cfg) now snap;
          previous = map_of (obs_lastAnalysis s2) key;
          s3 = s2\<lparr>obs_lastAnalysis := map_set key a (obs_lastAnalysis s2)\<rparr>
      in if isNew \<or> isSeed \<and> previous = None then (s3, [Device_Appeared snap a])
         else (s3, change_of previous snap a @ [Device_Attached snap a]))"

definition handleDetach :: "observer_config \<Rightarrow> int \<Rightarrow> jstr \<Rightarrow> observer \<Rightarrow> observer \<times> observer_event list" where
  "handleDetach cfg now key s =
     (case map_of (obs_sessions s) key of
        None \<Rightarrow> (s, [])
      | Some i \<Rightarrow>
          (let ses = recordDetach now (obs_store s i);
               snap = snapshot ses;
               a = analyze (obs_resolvers cfg) now snap;
               previous = map_of (obs_lastAnalysis s) key;
               t = obs_next s
           in (s\<lparr>obs_store := (obs_store s)(i := ses), obs_lastAnalysis := map_set key a (obs_lastAnalysis s),
                 obs_timers := obs_timers s @ [(t, key, i)], obs_goneTimers := map_set key t (obs_goneTimers s), obs_next := Suc t\<rparr>,
               change_of previous snap a @ [Device_Detached snap a])))"

definition goneTimeout :: "nat \<Rightarrow> observer \<Rightarrow> observer \<times> observer_event list" where
  "goneTimeout t s =
     (case map_of (obs_timers s) t of
        None \<Rightarrow> (s, [])
      | Some (key, i) \<Rightarrow>
          (s\<lparr>obs_timers := map_delete t (obs_timers s), obs_goneTimers := map_delete key (obs_goneTimers s),
             obs_sessions := map_delete key (obs_sessions s), obs_lastAnalysis := map_delete key (obs_lastAnalysis s)\<rparr>,
           [Device_Gone (snapshot (obs_store s i))]))"

text \<open>\<open>watch\<close>: the table of a subscription begins with the modems on the bus, without events.\<close>

definition known_on :: "discovered_modem list \<Rightarrow> (jstr \<times> discovered_modem) list" where
  "known_on bus = foldl (\<lambda>known m. map_set (disc_deviceId m) m known) [] bus"

fun seed :: "observer_config \<Rightarrow> int \<Rightarrow> discovered_modem list \<Rightarrow> observer \<Rightarrow> observer \<times> observer_event list" where
  "seed cfg now [] s = (s, [])"
| "seed cfg now (m # ms) s =
     (let (s1, es) = handleAttach cfg now True m s; (s2, es') = seed cfg now ms s1 in (s2, es @ es'))"

definition start_observer :: "observer_config \<Rightarrow> int \<Rightarrow> discovered_modem list \<Rightarrow> observer \<Rightarrow> observer \<times> observer_event list" where
  "start_observer cfg now bus s =
     (if obs_watch s \<noteq> None then (s, [])
      else (let (s1, es) = seed cfg now bus s in (s1\<lparr>obs_watch := Some (known_on bus)\<rparr>, es)))"

definition pauseWatcher :: "observer \<Rightarrow> observer" where
  "pauseWatcher s = s\<lparr>obs_watch := None\<rparr>"

definition resumeWatcher :: "discovered_modem list \<Rightarrow> observer \<Rightarrow> observer" where
  "resumeWatcher bus s = (if obs_watch s \<noteq> None then s else s\<lparr>obs_watch := Some (known_on bus)\<rparr>)"

definition dispose_observer :: "observer \<Rightarrow> observer" where
  "dispose_observer s = s\<lparr>obs_watch := None, obs_timers := filter (\<lambda>(t, key, i). t \<notin> snd ` set (obs_goneTimers s)) (obs_timers s),
     obs_goneTimers := [], obs_sessions := [], obs_lastAnalysis := []\<rparr>"

definition usb_attach :: "observer_config \<Rightarrow> int \<Rightarrow> discovered_modem option \<Rightarrow> observer \<Rightarrow> observer \<times> observer_event list" where
  "usb_attach cfg now classified s =
     (case (obs_watch s, classified) of
        (Some known, Some m) \<Rightarrow>
          if map_of known (disc_deviceId m) \<noteq> None then (s, [])
          else handleAttach cfg now False m (s\<lparr>obs_watch := Some (map_set (disc_deviceId m) m known)\<rparr>)
      | _ \<Rightarrow> (s, []))"

definition usb_detach :: "observer_config \<Rightarrow> int \<Rightarrow> jstr \<Rightarrow> observer \<Rightarrow> observer \<times> observer_event list" where
  "usb_detach cfg now key s =
     (case obs_watch s of
        Some known \<Rightarrow>
          (case map_of known key of
             None \<Rightarrow> (s, [])
           | Some m \<Rightarrow> handleDetach cfg now (disc_deviceId m) (s\<lparr>obs_watch := Some (map_delete key known)\<rparr>))
      | None \<Rightarrow> (s, []))"

datatype usb_event =
    Observer_Start int "discovered_modem list"
  | Usb_Attach int "discovered_modem option"
  | Usb_Detach int jstr
  | Gone_Timeout nat
  | Watcher_Pause
  | Watcher_Resume "discovered_modem list"
  | Observer_Dispose

fun observer_step :: "observer_config \<Rightarrow> observer \<Rightarrow> usb_event \<Rightarrow> observer \<times> observer_event list" where
  "observer_step cfg s (Observer_Start now bus) = start_observer cfg now bus s"
| "observer_step cfg s (Usb_Attach now m) = usb_attach cfg now m s"
| "observer_step cfg s (Usb_Detach now key) = usb_detach cfg now key s"
| "observer_step cfg s (Gone_Timeout t) = goneTimeout t s"
| "observer_step cfg s Watcher_Pause = (pauseWatcher s, [])"
| "observer_step cfg s (Watcher_Resume bus) = (resumeWatcher bus s, [])"
| "observer_step cfg s Observer_Dispose = (dispose_observer s, [])"

end
