(* ===== verification/Fleet_Pool.thy ===== *)
theory Fleet_Pool imports Device_Observer Errors begin

text \<open>
  \<^verbatim>\<open>packages/core/src/fleet/pool.ts\<close>, \<^verbatim>\<open>pipeline.ts\<close> and \<^verbatim>\<open>managed-device.ts\<close>: the pool drives every device of the
  observer through its stages. Devices are objects that pipelines and timers hold on to, so they live in a
  store; \<open>pool_devices\<close> is the table of the tracked ones. An \<open>AbortController\<close> is named by its device and
  a number, and \<open>pool_aborted\<close> has those that were aborted. A pipeline is cut at its awaits: \<open>pl_phase\<close> says which promise it waits for, and the events say how
  that settles. Modems are numbers; \<open>pool_listening\<close> has the registrations of the listener of \<open>close\<close> in order. The
  outputs are the calls to the environment and the events of the pool. Logging is left out, and so is the listener of
  \<open>disconnect\<close>, which only logs.
\<close>

section \<open>Devices\<close>

datatype prep_verdict = Verdict_Ready | Verdict_Degraded | Verdict_Failed

datatype readiness =
    Detected
  | Assessing device_analysis
  | Preparing
  | Connecting nat
  | Checking
  | Ready nat prep_verdict
  | Degraded nat prep_verdict
  | Stage_Error jstr bool
  | Offline

fun live_modem :: "readiness \<Rightarrow> nat option" where
  "live_modem (Ready i report) = Some i"
| "live_modem (Degraded i report) = Some i"
| "live_modem _ = None"

fun is_assessing :: "readiness \<Rightarrow> bool" where
  "is_assessing (Assessing a) = True"
| "is_assessing _ = False"

fun is_error :: "readiness \<Rightarrow> bool" where
  "is_error (Stage_Error e recoverable) = True"
| "is_error _ = False"

fun is_recoverable :: "readiness \<Rightarrow> bool" where
  "is_recoverable (Stage_Error e recoverable) = recoverable"
| "is_recoverable _ = False"

record pooled_device =
  pd_vendorId :: int
  pd_name :: jstr
  pd_readiness :: readiness
  pd_session :: session_snapshot
  pd_firstSeenAt :: int

record managed_device = pooled_device +
  md_abort :: nat
  md_generation :: nat
  md_listeners :: "nat option"
  md_retryTimer :: "nat option"
  md_assessmentTimer :: "nat option"
  md_stalled :: bool
  md_retryCount :: nat

definition toPooled :: "managed_device \<Rightarrow> pooled_device" where
  "toPooled d = \<lparr>pd_vendorId = pd_vendorId d, pd_name = pd_name d, pd_readiness = pd_readiness d, pd_session = pd_session d,
     pd_firstSeenAt = pd_firstSeenAt d\<rparr>"

datatype pipeline_phase = Provisioning | Opening | Closing nat

record pipeline =
  pl_device :: nat
  pl_signal :: "nat \<times> nat"
  pl_generation :: nat
  pl_modem :: discovered_modem
  pl_phase :: pipeline_phase

record pool =
  pool_store :: "nat \<Rightarrow> managed_device"
  pool_devices :: "(jstr \<times> nat) list"
  pool_aborted :: "(nat \<times> nat) list"
  pool_retries :: "(nat \<times> nat \<times> nat \<times> discovered_modem) list"
  pool_assessments :: "(nat \<times> nat \<times> nat \<times> device_analysis) list"
  pool_pipelines :: "(nat \<times> pipeline) list"
  pool_listening :: "(nat \<times> nat) list"
  pool_started :: bool
  pool_stopping :: nat
  pool_next :: nat

datatype pool_output =
    Device_Added pooled_device
  | Device_Readiness pooled_device readiness
  | Device_Removed pooled_device
  | Modem_Ready pooled_device nat
  | Provision nat nat discovered_modem
  | Connect_Prepared nat nat
  | Close_Modem nat
  | Start_Observer
  | Cancel_Waits
  | Dispose_Observer
  | Not_In_Pool jstr

definition then_do :: "'s \<times> 'o list \<Rightarrow> ('s \<Rightarrow> 's \<times> 'o list) \<Rightarrow> 's \<times> 'o list" where
  "then_do r f = (let (s, out) = r; (s', out') = f s in (s', out @ out'))"

definition update_device :: "nat \<Rightarrow> (managed_device \<Rightarrow> managed_device) \<Rightarrow> pool \<Rightarrow> pool" where
  "update_device d f s = s\<lparr>pool_store := (pool_store s)(d := f (pool_store s d))\<rparr>"

definition setReadiness :: "nat \<Rightarrow> readiness \<Rightarrow> pool \<Rightarrow> pool \<times> pool_output list" where
  "setReadiness d r s =
     (let previous = pd_readiness (pool_store s d); s' = update_device d (pd_readiness_update (\<lambda>_. r)) s
      in (s', [Device_Readiness (toPooled (pool_store s' d)) previous]))"

definition clearRetryTimer :: "nat \<Rightarrow> pool \<Rightarrow> pool" where
  "clearRetryTimer d s =
     (case md_retryTimer (pool_store s d) of
        None \<Rightarrow> s
      | Some t \<Rightarrow> update_device d (md_retryTimer_update (\<lambda>_. None)) (s\<lparr>pool_retries := map_delete t (pool_retries s)\<rparr>))"

definition clearAssessmentTimer :: "nat \<Rightarrow> pool \<Rightarrow> pool" where
  "clearAssessmentTimer d s =
     (case md_assessmentTimer (pool_store s d) of
        None \<Rightarrow> s
      | Some t \<Rightarrow> update_device d (md_assessmentTimer_update (\<lambda>_. None)) (s\<lparr>pool_assessments := map_delete t (pool_assessments s)\<rparr>))"

definition abort_device :: "nat \<Rightarrow> pool \<Rightarrow> pool" where
  "abort_device d s = s\<lparr>pool_aborted := (d, md_abort (pool_store s d)) # pool_aborted s\<rparr>"

definition new_abort :: "nat \<Rightarrow> pool \<Rightarrow> pool" where
  "new_abort d = update_device d (md_abort_update Suc)"

definition next_generation :: "nat \<Rightarrow> pool \<Rightarrow> pool" where
  "next_generation d = update_device d (md_generation_update Suc)"

section \<open>The pipeline\<close>

definition MAX_ERROR_RETRIES :: nat where
  "MAX_ERROR_RETRIES = 3"

definition stale :: "pool \<Rightarrow> pipeline \<Rightarrow> bool" where
  "stale s pl \<longleftrightarrow> pl_signal pl \<in> set (pool_aborted s) \<or> md_generation (pool_store s (pl_device pl)) \<noteq> pl_generation pl"

definition startPreparing :: "nat \<Rightarrow> discovered_modem \<Rightarrow> pool \<Rightarrow> pool \<times> pool_output list" where
  "startPreparing d m s =
     then_do (setReadiness d Preparing s) (\<lambda>s.
       let p = pool_next s;
           pl = \<lparr>pl_device = d, pl_signal = (d, md_abort (pool_store s d)), pl_generation = md_generation (pool_store s d),
             pl_modem = m, pl_phase = Provisioning\<rparr>
       in (s\<lparr>pool_pipelines := pool_pipelines s @ [(p, pl)], pool_next := Suc p\<rparr>, [Provision p d m]))"

definition modem_on_bus :: "session_snapshot \<Rightarrow> discovered_modem option" where
  "modem_on_bus snap = (case snap_current snap of None \<Rightarrow> None | Some c \<Rightarrow> cycle_modem c)"

definition evaluateAssessment ::
  "nat \<Rightarrow> session_snapshot \<Rightarrow> device_analysis \<Rightarrow> pool \<Rightarrow> pool \<times> pool_output list" where
  "evaluateAssessment d snap a s =
     (if an_severity a = Severity_Critical then setReadiness d (Assessing a) s
      else
        (let s1 = clearAssessmentTimer d s
         in case modem_on_bus snap of None \<Rightarrow> (s1, []) | Some m \<Rightarrow> startPreparing d m s1))"

definition start_assessment_timer :: "nat \<Rightarrow> device_analysis \<Rightarrow> pool \<Rightarrow> pool" where
  "start_assessment_timer d a s =
     (let t = pool_next s
      in update_device d (md_assessmentTimer_update (\<lambda>_. Some t))
           (s\<lparr>pool_assessments := pool_assessments s @ [(t, d, md_generation (pool_store s d), a)], pool_next := Suc t\<rparr>))"

definition startAssessment ::
  "nat \<Rightarrow> session_snapshot \<Rightarrow> device_analysis \<Rightarrow> pool \<Rightarrow> pool \<times> pool_output list" where
  "startAssessment d snap a s =
     then_do (setReadiness d (Assessing a) (update_device d (md_stalled_update (\<lambda>_. False)) (clearAssessmentTimer d s)))
       (\<lambda>s. evaluateAssessment d snap a (start_assessment_timer d a s))"

definition assessment_timeout :: "nat \<Rightarrow> pool \<Rightarrow> pool \<times> pool_output list" where
  "assessment_timeout t s =
     (case map_of (pool_assessments s) t of
        None \<Rightarrow> (s, [])
      | Some (d, generation, a) \<Rightarrow>
          (let s1 = update_device d (md_assessmentTimer_update (\<lambda>_. None)) (s\<lparr>pool_assessments := map_delete t (pool_assessments s)\<rparr>)
           in if md_generation (pool_store s1 d) \<noteq> generation \<or> \<not> is_assessing (pd_readiness (pool_store s1 d)) then (s1, [])
              else setReadiness d (Stage_Error (js ''Device stuck in critical state: '' @ an_description a) True)
                     (update_device d (md_stalled_update (\<lambda>_. True)) s1)))"

definition scheduleRetry :: "nat \<Rightarrow> discovered_modem \<Rightarrow> pool \<Rightarrow> pool" where
  "scheduleRetry d m s =
     (let s1 = clearRetryTimer d s; t = pool_next s1
      in update_device d (md_retryTimer_update (\<lambda>_. Some t))
           (s1\<lparr>pool_retries := pool_retries s1 @ [(t, d, md_generation (pool_store s1 d), m)], pool_next := Suc t\<rparr>))"

text \<open>The handler that \<open>startPreparing\<close> attaches to the promise of the pipeline.\<close>

definition pipeline_failed :: "nat \<Rightarrow> pipeline \<Rightarrow> jstr \<Rightarrow> pool \<Rightarrow> pool \<times> pool_output list" where
  "pipeline_failed p pl err s =
     (let s1 = s\<lparr>pool_pipelines := map_delete p (pool_pipelines s)\<rparr>; d = pl_device pl
      in if stale s1 pl then (s1, [])
         else
           (let canRetry = md_retryCount (pool_store s1 d) < MAX_ERROR_RETRIES
            in then_do (setReadiness d (Stage_Error err canRetry) s1)
                 (\<lambda>s. (if canRetry then scheduleRetry d (pl_modem pl) s else s, []))))"

definition retry_timeout :: "nat \<Rightarrow> pool \<Rightarrow> pool \<times> pool_output list" where
  "retry_timeout t s =
     (case map_of (pool_retries s) t of
        None \<Rightarrow> (s, [])
      | Some (d, generation, m) \<Rightarrow>
          (let s1 = update_device d (md_retryTimer_update (\<lambda>_. None)) (s\<lparr>pool_retries := map_delete t (pool_retries s)\<rparr>)
           in if md_generation (pool_store s1 d) \<noteq> generation \<or> \<not> is_error (pd_readiness (pool_store s1 d)) then (s1, [])
              else startPreparing d m (update_device d (md_retryCount_update Suc) s1)))"

definition set_phase :: "nat \<Rightarrow> pipeline \<Rightarrow> pipeline_phase \<Rightarrow> pool \<Rightarrow> pool" where
  "set_phase p pl phase s = s\<lparr>pool_pipelines := map_set p (pl\<lparr>pl_phase := phase\<rparr>) (pool_pipelines s)\<rparr>"

definition wireModem :: "nat \<Rightarrow> nat \<Rightarrow> pool \<Rightarrow> pool" where
  "wireModem d i s = update_device d (md_listeners_update (\<lambda>_. Some i)) (s\<lparr>pool_listening := pool_listening s @ [(i, d)]\<rparr>)"

definition unwireModem :: "nat \<Rightarrow> pool \<Rightarrow> pool" where
  "unwireModem d s =
     (case md_listeners (pool_store s d) of
        None \<Rightarrow> s
      | Some i \<Rightarrow> update_device d (md_listeners_update (\<lambda>_. None)) (s\<lparr>pool_listening := filter (\<lambda>l. l \<noteq> (i, d)) (pool_listening s)\<rparr>))"

definition provisioned :: "nat \<Rightarrow> pipeline \<Rightarrow> jstr + nat \<Rightarrow> pool \<Rightarrow> pool \<times> pool_output list" where
  "provisioned p pl result s =
     (case result of
        Inl err \<Rightarrow> pipeline_failed p pl err s
      | Inr prepared \<Rightarrow>
          if stale s pl then (s\<lparr>pool_pipelines := map_delete p (pool_pipelines s)\<rparr>, [])
          else then_do (setReadiness (pl_device pl) (Connecting prepared) s) (\<lambda>s.
                 (set_phase p pl Opening s, [Connect_Prepared p prepared])))"

definition progress :: "pipeline \<Rightarrow> jstr \<Rightarrow> pool \<Rightarrow> pool \<times> pool_output list" where
  "progress pl phase s =
     (if stale s pl then (s, [])
      else if phase = js ''checking'' then setReadiness (pl_device pl) Checking s
      else (s, []))"

definition connected ::
  "nat \<Rightarrow> pipeline \<Rightarrow> jstr + nat \<times> prep_verdict option \<Rightarrow> pool \<Rightarrow> pool \<times> pool_output list" where
  "connected p pl result s =
     (case result of
        Inl err \<Rightarrow> pipeline_failed p pl err s
      | Inr (i, report) \<Rightarrow>
          if stale s pl then (set_phase p pl (Closing i) s, [Close_Modem i])
          else
            (let d = pl_device pl; s1 = wireModem d i s
             in case report of
                  None \<Rightarrow> pipeline_failed p pl (js ''Bug: connectFromPrepared completed without a preparation report'') s1
                | Some verdict \<Rightarrow>
                    then_do (setReadiness d (if verdict = Verdict_Degraded then Degraded i verdict else Ready i verdict) s1) (\<lambda>s.
                      (s\<lparr>pool_pipelines := map_delete p (pool_pipelines s)\<rparr>, [Modem_Ready (toPooled (pool_store s d)) i]))))"

definition stale_closed :: "nat \<Rightarrow> pipeline \<Rightarrow> jstr option \<Rightarrow> pool \<Rightarrow> pool \<times> pool_output list" where
  "stale_closed p pl err s =
     (case err of
        Some e \<Rightarrow> pipeline_failed p pl e s
      | None \<Rightarrow> (s\<lparr>pool_pipelines := map_delete p (pool_pipelines s)\<rparr>, []))"

section \<open>The pool\<close>

definition device_key :: "session_snapshot \<Rightarrow> jstr" where
  "device_key = snap_deviceId"

definition blank_device :: managed_device where
  "blank_device = \<lparr>pd_vendorId = 0, pd_name = [], pd_readiness = Detected, pd_session = snapshot (new_session 0 [] 0 [] 0), pd_firstSeenAt = 0,
     md_abort = 0, md_generation = 0, md_listeners = None, md_retryTimer = None, md_assessmentTimer = None, md_stalled = False,
     md_retryCount = 0\<rparr>"

definition new_pool :: pool where
  "new_pool = \<lparr>pool_store = (\<lambda>_. blank_device), pool_devices = [], pool_aborted = [], pool_retries = [], pool_assessments = [], pool_pipelines = [],
     pool_listening = [], pool_started = False, pool_stopping = 0, pool_next = 0\<rparr>"

definition tracked :: "pool \<Rightarrow> jstr \<Rightarrow> nat option" where
  "tracked s key = map_of (pool_devices s) key"

definition firstReady :: "pool \<Rightarrow> nat option" where
  "firstReady s =
     (case List.map_filter (\<lambda>(key, d). live_modem (pd_readiness (pool_store s d))) (pool_devices s) of
        [] \<Rightarrow> None | i # _ \<Rightarrow> Some i)"

definition devices_of :: "pool \<Rightarrow> pooled_device list" where
  "devices_of s = map (\<lambda>(key, d). toPooled (pool_store s d)) (pool_devices s)"

definition close_live :: "readiness \<Rightarrow> pool_output list" where
  "close_live r = (case live_modem r of None \<Rightarrow> [] | Some i \<Rightarrow> [Close_Modem i])"

definition onDeviceAppeared ::
  "bool \<Rightarrow> int \<Rightarrow> session_snapshot \<Rightarrow> device_analysis \<Rightarrow> pool \<Rightarrow> pool \<times> pool_output list" where
  "onDeviceAppeared autoProvision now snap a s =
     (let d = pool_next s;
          device = \<lparr>pd_vendorId = snap_vendorId snap, pd_name = snap_vendorName snap, pd_readiness = Detected, pd_session = snap,
            pd_firstSeenAt = now, md_abort = 0, md_generation = 0, md_listeners = None, md_retryTimer = None,
            md_assessmentTimer = None, md_stalled = False, md_retryCount = 0\<rparr>;
          s1 = s\<lparr>pool_store := (pool_store s)(d := device), pool_devices := map_set (device_key snap) d (pool_devices s),
            pool_next := Suc d\<rparr>
      in then_do (s1, [Device_Added (toPooled device)])
           (\<lambda>s. if autoProvision then startAssessment d snap a s else (s, [])))"

definition onDeviceReattached ::
  "bool \<Rightarrow> session_snapshot \<Rightarrow> device_analysis \<Rightarrow> nat \<Rightarrow> pool \<Rightarrow> pool \<times> pool_output list" where
  "onDeviceReattached autoProvision snap a d s =
     (let s1 = update_device d (pd_session_update (\<lambda>_. snap)) s
      in if pd_readiness (pool_store s1 d) = Offline
         then then_do (setReadiness d Detected (update_device d (md_retryCount_update (\<lambda>_. 0)) (next_generation d (new_abort d s1))))
                (\<lambda>s. if autoProvision then startAssessment d snap a s else (s, []))
         else (s1, []))"

definition onDeviceDetached :: "session_snapshot \<Rightarrow> nat \<Rightarrow> pool \<Rightarrow> pool \<times> pool_output list" where
  "onDeviceDetached snap d s =
     (let s1 = next_generation d (new_abort d (abort_device d (update_device d (pd_session_update (\<lambda>_. snap)) s)));
          s2 = update_device d (md_retryCount_update (\<lambda>_. 0)) (unwireModem d (clearAssessmentTimer d (clearRetryTimer d s1)))
      in then_do (s2, close_live (pd_readiness (pool_store s2 d))) (setReadiness d Offline))"

definition onStateChanged ::
  "session_snapshot \<Rightarrow> device_analysis \<Rightarrow> nat \<Rightarrow> pool \<Rightarrow> pool \<times> pool_output list" where
  "onStateChanged snap a d s =
     (let s1 = update_device d (pd_session_update (\<lambda>_. snap)) s; r = pd_readiness (pool_store s1 d)
      in if is_assessing r then evaluateAssessment d snap a s1
         else if is_recoverable r \<and> md_stalled (pool_store s1 d) \<and> an_severity a \<noteq> Severity_Critical \<and>
            modem_on_bus snap \<noteq> None
         then evaluateAssessment d snap a (update_device d (md_stalled_update (\<lambda>_. False)) s1)
         else (s1, []))"

definition onDeviceGone :: "jstr \<Rightarrow> nat \<Rightarrow> pool \<Rightarrow> pool \<times> pool_output list" where
  "onDeviceGone key d s =
     (let s1 = unwireModem d (clearAssessmentTimer d (clearRetryTimer d s))
      in (s1\<lparr>pool_devices := map_delete key (pool_devices s1)\<rparr>,
          close_live (pd_readiness (pool_store s1 d)) @ [Device_Removed (toPooled (pool_store s1 d))]))"

definition neutral_analysis :: device_analysis where
  "neutral_analysis = \<lparr>an_state = js ''modem'', an_severity = Severity_Normal, an_description = js ''Restarted after USB reset'',
     an_recommendations = [], an_expectedNextPid = None, an_estimatedRecoveryMs = None\<rparr>"

definition restartDevice :: "bool \<Rightarrow> nat \<Rightarrow> pool \<Rightarrow> pool \<times> pool_output list" where
  "restartDevice autoProvision d s =
     (let s1 = next_generation d (new_abort d (abort_device d s));
          s2 = update_device d (md_retryCount_update (\<lambda>_. 0)) (unwireModem d (clearRetryTimer d s1))
      in then_do (setReadiness d Detected s2)
           (\<lambda>s. if autoProvision then startAssessment d (pd_session (pool_store s d)) neutral_analysis s else (s, [])))"

fun stop_devices :: "nat list \<Rightarrow> pool \<Rightarrow> pool" where
  "stop_devices [] s = s"
| "stop_devices (d # ds) s = stop_devices ds (clearAssessmentTimer d (clearRetryTimer d (abort_device d s)))"

definition stop_pool :: "pool \<Rightarrow> pool \<times> pool_output list" where
  "stop_pool s =
     (if \<not> pool_started s then (s, [])
      else
        (let s1 = stop_devices (map snd (pool_devices s)) (s\<lparr>pool_started := False\<rparr>)
         in (s1\<lparr>pool_stopping := Suc (pool_stopping s1)\<rparr>,
             Cancel_Waits # concat (map (\<lambda>(key, d). close_live (pd_readiness (pool_store s1 d))) (pool_devices s1)))))"

definition stop_settled :: "pool \<Rightarrow> pool \<times> pool_output list" where
  "stop_settled s =
     (if pool_stopping s = 0 then (s, [])
      else (s\<lparr>pool_devices := [], pool_stopping := pool_stopping s - 1\<rparr>, [Dispose_Observer]))"

text \<open>The listeners of \<open>close\<close> of a modem, for every device they were registered for.\<close>

fun on_close :: "nat list \<Rightarrow> pool \<Rightarrow> pool \<times> pool_output list" where
  "on_close [] s = (s, [])"
| "on_close (d # ds) s =
     then_do (if live_modem (pd_readiness (pool_store s d)) \<noteq> None then setReadiness d Offline s else (s, [])) (on_close ds)"

datatype pool_event =
    Appeared int session_snapshot device_analysis
  | Attached session_snapshot device_analysis
  | Detached session_snapshot
  | State_Changed session_snapshot device_analysis
  | Gone session_snapshot
  | Assessment_Timeout nat
  | Retry_Timeout nat
  | Provisioned nat "jstr + nat"
  | Progress nat jstr
  | Connected nat "jstr + nat \<times> prep_verdict option"
  | Stale_Closed nat "jstr option"
  | Modem_Closed nat
  | Pool_Start
  | Pool_Stop
  | Stop_Settled
  | Restart jstr

definition for_device :: "pool \<Rightarrow> jstr \<Rightarrow> (nat \<Rightarrow> pool \<Rightarrow> pool \<times> pool_output list) \<Rightarrow> pool \<times> pool_output list" where
  "for_device s key f = (case tracked s key of None \<Rightarrow> (s, []) | Some d \<Rightarrow> f d s)"

definition for_pipeline ::
  "pool \<Rightarrow> nat \<Rightarrow> (pipeline_phase \<Rightarrow> bool) \<Rightarrow> (pipeline \<Rightarrow> pool \<Rightarrow> pool \<times> pool_output list) \<Rightarrow> pool \<times> pool_output list" where
  "for_pipeline s p waits f =
     (case map_of (pool_pipelines s) p of None \<Rightarrow> (s, []) | Some pl \<Rightarrow> if waits (pl_phase pl) then f pl s else (s, []))"

fun is_closing :: "pipeline_phase \<Rightarrow> bool" where
  "is_closing (Closing i) = True"
| "is_closing _ = False"

fun pool_step :: "bool \<Rightarrow> pool \<Rightarrow> pool_event \<Rightarrow> pool \<times> pool_output list" where
  "pool_step auto s (Appeared now snap a) = onDeviceAppeared auto now snap a s"
| "pool_step auto s (Attached snap a) = for_device s (device_key snap) (onDeviceReattached auto snap a)"
| "pool_step auto s (Detached snap) = for_device s (device_key snap) (onDeviceDetached snap)"
| "pool_step auto s (State_Changed snap a) = for_device s (device_key snap) (onStateChanged snap a)"
| "pool_step auto s (Gone snap) = for_device s (device_key snap) (onDeviceGone (device_key snap))"
| "pool_step auto s (Assessment_Timeout t) = assessment_timeout t s"
| "pool_step auto s (Retry_Timeout t) = retry_timeout t s"
| "pool_step auto s (Provisioned p result) = for_pipeline s p (\<lambda>phase. phase = Provisioning) (\<lambda>pl. provisioned p pl result)"
| "pool_step auto s (Progress p phase) = for_pipeline s p (\<lambda>phase. phase = Opening) (\<lambda>pl. progress pl phase)"
| "pool_step auto s (Connected p result) = for_pipeline s p (\<lambda>phase. phase = Opening) (\<lambda>pl. connected p pl result)"
| "pool_step auto s (Stale_Closed p err) = for_pipeline s p is_closing (\<lambda>pl. stale_closed p pl err)"
| "pool_step auto s (Modem_Closed i) = on_close (map snd (filter (\<lambda>l. fst l = i) (pool_listening s))) s"
| "pool_step auto s Pool_Start = (if pool_started s then (s, []) else (s\<lparr>pool_started := True\<rparr>, [Start_Observer]))"
| "pool_step auto s Pool_Stop = stop_pool s"
| "pool_step auto s Stop_Settled = stop_settled s"
| "pool_step auto s (Restart key) =
     (case tracked s key of None \<Rightarrow> (s, [Not_In_Pool key]) | Some d \<Rightarrow> restartDevice auto d s)"

end
