(* ===== verification/Fleet_Pool_Inv.thy ===== *)
theory Fleet_Pool_Inv imports Fleet_Pool begin

text \<open>
  The invariant of the pool: for every device, tracked or not, the pipeline and the timers that are under way fit
  its stage, and what is left from earlier generations is stale. Every operation works on one device, so that the
  invariant of a device is kept by the operations on the others.
\<close>

section \<open>Effects of the operations\<close>

lemma update_device_simps [simp]:
  "pool_store (update_device d f s) = (pool_store s)(d := f (pool_store s d))"
  "pool_devices (update_device d f s) = pool_devices s" "pool_aborted (update_device d f s) = pool_aborted s"
  "pool_retries (update_device d f s) = pool_retries s" "pool_assessments (update_device d f s) = pool_assessments s"
  "pool_pipelines (update_device d f s) = pool_pipelines s" "pool_listening (update_device d f s) = pool_listening s"
  "pool_started (update_device d f s) = pool_started s" "pool_stopping (update_device d f s) = pool_stopping s"
  "pool_next (update_device d f s) = pool_next s"
  by (simp_all add: update_device_def)

lemma then_do_simps [simp]:
  "fst (then_do r f) = fst (f (fst r))" "snd (then_do r f) = snd r @ snd (f (fst r))"
  by (simp_all add: then_do_def split_beta Let_def)

lemma setReadiness_simps [simp]:
  "fst (setReadiness d r s) = update_device d (pd_readiness_update (\<lambda>_. r)) s"
  "snd (setReadiness d r s) =
     [Device_Readiness (toPooled (pool_store s d)\<lparr>pd_readiness := r\<rparr>) (pd_readiness (pool_store s d))]"
  by (simp_all add: setReadiness_def Let_def toPooled_def)

lemma clearRetryTimer_simps [simp]:
  "pool_store (clearRetryTimer d s) = (pool_store s)(d := (pool_store s d)\<lparr>md_retryTimer := None\<rparr>)"
  "pool_devices (clearRetryTimer d s) = pool_devices s" "pool_aborted (clearRetryTimer d s) = pool_aborted s"
  "pool_assessments (clearRetryTimer d s) = pool_assessments s"
  "pool_pipelines (clearRetryTimer d s) = pool_pipelines s" "pool_listening (clearRetryTimer d s) = pool_listening s"
  "pool_started (clearRetryTimer d s) = pool_started s" "pool_stopping (clearRetryTimer d s) = pool_stopping s"
  "pool_next (clearRetryTimer d s) = pool_next s"
  "map_of (pool_retries (clearRetryTimer d s)) =
     (case md_retryTimer (pool_store s d) of None \<Rightarrow> map_of (pool_retries s) | Some t \<Rightarrow> (map_of (pool_retries s))(t := None))"
  by (auto simp: clearRetryTimer_def map_of_delete fun_eq_iff split: option.split)

lemma clearAssessmentTimer_simps [simp]:
  "pool_store (clearAssessmentTimer d s) = (pool_store s)(d := (pool_store s d)\<lparr>md_assessmentTimer := None\<rparr>)"
  "pool_devices (clearAssessmentTimer d s) = pool_devices s" "pool_aborted (clearAssessmentTimer d s) = pool_aborted s"
  "pool_retries (clearAssessmentTimer d s) = pool_retries s"
  "pool_pipelines (clearAssessmentTimer d s) = pool_pipelines s" "pool_listening (clearAssessmentTimer d s) = pool_listening s"
  "pool_started (clearAssessmentTimer d s) = pool_started s" "pool_stopping (clearAssessmentTimer d s) = pool_stopping s"
  "pool_next (clearAssessmentTimer d s) = pool_next s"
  "map_of (pool_assessments (clearAssessmentTimer d s)) =
     (case md_assessmentTimer (pool_store s d) of None \<Rightarrow> map_of (pool_assessments s) | Some t \<Rightarrow> (map_of (pool_assessments s))(t := None))"
  by (auto simp: clearAssessmentTimer_def map_of_delete fun_eq_iff split: option.split)

lemma unwireModem_simps [simp]:
  "pool_store (unwireModem d s) = (pool_store s)(d := (pool_store s d)\<lparr>md_listeners := None\<rparr>)"
  "pool_devices (unwireModem d s) = pool_devices s" "pool_aborted (unwireModem d s) = pool_aborted s"
  "pool_retries (unwireModem d s) = pool_retries s" "pool_assessments (unwireModem d s) = pool_assessments s"
  "pool_pipelines (unwireModem d s) = pool_pipelines s"
  "pool_started (unwireModem d s) = pool_started s" "pool_stopping (unwireModem d s) = pool_stopping s"
  "pool_next (unwireModem d s) = pool_next s"
  "set (pool_listening (unwireModem d s)) =
     set (pool_listening s) - (case md_listeners (pool_store s d) of None \<Rightarrow> {} | Some i \<Rightarrow> {(i, d)})"
  by (auto simp: unwireModem_def fun_eq_iff split: option.split)

lemma abort_simps [simp]:
  "pool_store (abort_device d s) = pool_store s" "pool_devices (abort_device d s) = pool_devices s"
  "pool_aborted (abort_device d s) = (d, md_abort (pool_store s d)) # pool_aborted s"
  "pool_retries (abort_device d s) = pool_retries s" "pool_assessments (abort_device d s) = pool_assessments s"
  "pool_pipelines (abort_device d s) = pool_pipelines s" "pool_listening (abort_device d s) = pool_listening s"
  "pool_started (abort_device d s) = pool_started s" "pool_stopping (abort_device d s) = pool_stopping s"
  "pool_next (abort_device d s) = pool_next s"
  by (simp_all add: abort_device_def)

section \<open>The invariant\<close>

definition live_pipe :: "pool \<Rightarrow> nat \<Rightarrow> nat \<Rightarrow> pipeline \<Rightarrow> bool" where
  "live_pipe s d p pl \<longleftrightarrow> map_of (pool_pipelines s) p = Some pl \<and> pl_device pl = d \<and> \<not> stale s pl"

fun stage_of :: "pipeline_phase \<Rightarrow> readiness \<Rightarrow> bool" where
  "stage_of Provisioning r = (r = Preparing)"
| "stage_of Opening r = (r = Checking \<or> (\<exists>prepared. r = Connecting prepared))"
| "stage_of (Closing i) r = False"

definition under_way :: "readiness \<Rightarrow> bool" where
  "under_way r \<longleftrightarrow> (\<exists>phase. stage_of phase r)"

text \<open>The pipelines of a device: those of the present generation that were not aborted are the one of its stage.\<close>

definition pipes_ok :: "pool \<Rightarrow> nat \<Rightarrow> bool" where
  "pipes_ok s d \<longleftrightarrow>
     (\<forall>p pl. map_of (pool_pipelines s) p = Some pl \<and> pl_device pl = d \<longrightarrow>
        pl_signal pl = (d, pl_generation pl) \<and> pl_generation pl \<le> md_generation (pool_store s d)) \<and>
     (\<forall>p pl. live_pipe s d p pl \<longrightarrow> stage_of (pl_phase pl) (pd_readiness (pool_store s d)) \<and> \<not> md_stalled (pool_store s d)) \<and>
     (\<forall>p p' pl pl'. live_pipe s d p pl \<and> live_pipe s d p' pl' \<longrightarrow> p = p')"

definition retries_ok :: "pool \<Rightarrow> nat \<Rightarrow> bool" where
  "retries_ok s d \<longleftrightarrow>
     (\<forall>t generation m. map_of (pool_retries s) t = Some (d, generation, m) \<longrightarrow>
        md_retryTimer (pool_store s d) = Some t \<and> generation \<le> md_generation (pool_store s d) \<and>
        (generation = md_generation (pool_store s d) \<longrightarrow>
           is_recoverable (pd_readiness (pool_store s d)) \<and> \<not> md_stalled (pool_store s d) \<and>
           md_retryCount (pool_store s d) < MAX_ERROR_RETRIES)) \<and>
     (\<forall>t. md_retryTimer (pool_store s d) = Some t \<longrightarrow> (\<exists>generation m. map_of (pool_retries s) t = Some (d, generation, m))) \<and>
     md_retryCount (pool_store s d) \<le> MAX_ERROR_RETRIES"

definition assessments_ok :: "pool \<Rightarrow> nat \<Rightarrow> bool" where
  "assessments_ok s d \<longleftrightarrow>
     (\<forall>t generation a. map_of (pool_assessments s) t = Some (d, generation, a) \<longrightarrow>
        md_assessmentTimer (pool_store s d) = Some t \<and> generation \<le> md_generation (pool_store s d) \<and>
        (generation = md_generation (pool_store s d) \<longrightarrow> is_assessing (pd_readiness (pool_store s d)))) \<and>
     (\<forall>t. md_assessmentTimer (pool_store s d) = Some t \<longrightarrow> (\<exists>generation a. map_of (pool_assessments s) t = Some (d, generation, a))) \<and>
     (md_stalled (pool_store s d) \<longrightarrow>
        is_recoverable (pd_readiness (pool_store s d)) \<or> pd_readiness (pool_store s d) \<in> {Offline, Detected})"

definition dev_ok :: "pool \<Rightarrow> nat \<Rightarrow> bool" where
  "dev_ok s d \<longleftrightarrow>
     md_abort (pool_store s d) = md_generation (pool_store s d) \<and>
     (\<forall>n. (d, n) \<in> set (pool_aborted s) \<longrightarrow> n \<le> md_generation (pool_store s d)) \<and>
     pipes_ok s d \<and> retries_ok s d \<and> assessments_ok s d"

text \<open>The numbers in use, for objects as well as for timers and pipelines.\<close>

definition used :: "pool \<Rightarrow> nat set" where
  "used s =
     dom (map_of (pool_pipelines s)) \<union> pl_device ` ran (map_of (pool_pipelines s)) \<union>
     dom (map_of (pool_retries s)) \<union> fst ` ran (map_of (pool_retries s)) \<union>
     dom (map_of (pool_assessments s)) \<union> fst ` ran (map_of (pool_assessments s)) \<union>
     snd ` set (pool_devices s) \<union> snd ` set (pool_listening s) \<union> fst ` set (pool_aborted s)"

definition ids_ok :: "pool \<Rightarrow> bool" where
  "ids_ok s \<longleftrightarrow> (\<forall>n \<in> used s. n < pool_next s)"

lemma fresh_id:
  assumes "ids_ok s" and "pool_next s \<le> n"
  shows "map_of (pool_pipelines s) n = None" "map_of (pool_retries s) n = None" "map_of (pool_assessments s) n = None"
    and "(k, n) \<notin> set (pool_devices s)" "(i, n) \<notin> set (pool_listening s)" "(n, j) \<notin> set (pool_aborted s)"
    and "map_of (pool_pipelines s) p = Some pl \<Longrightarrow> pl_device pl \<noteq> n"
    and "map_of (pool_retries s) t \<noteq> Some (n, x)" and "map_of (pool_assessments s) t \<noteq> Some (n, y)"
proof -
  have n: "n \<notin> used s" using assms unfolding ids_ok_def by (meson leD)
  have parts: "n \<notin> dom (map_of (pool_pipelines s))" "n \<notin> pl_device ` ran (map_of (pool_pipelines s))"
    "n \<notin> dom (map_of (pool_retries s))" "n \<notin> fst ` ran (map_of (pool_retries s))"
    "n \<notin> dom (map_of (pool_assessments s))" "n \<notin> fst ` ran (map_of (pool_assessments s))"
    "n \<notin> snd ` set (pool_devices s)" "n \<notin> snd ` set (pool_listening s)" "n \<notin> fst ` set (pool_aborted s)"
    using n unfolding used_def by blast+
  show "map_of (pool_pipelines s) n = None" "map_of (pool_retries s) n = None" "map_of (pool_assessments s) n = None"
    using parts(1,3,5) by (simp_all only: domIff not_not)
  show "(k, n) \<notin> set (pool_devices s)" "(i, n) \<notin> set (pool_listening s)" "(n, j) \<notin> set (pool_aborted s)"
    using parts(7-9) by (auto dest: image_eqI [where f = snd, OF snd_conv [symmetric]] image_eqI [where f = fst, OF fst_conv [symmetric]])
  show "map_of (pool_pipelines s) p = Some pl \<Longrightarrow> pl_device pl \<noteq> n"
    using parts(2) ranI by fast
  show "map_of (pool_retries s) t \<noteq> Some (n, x)"
  proof
    assume "map_of (pool_retries s) t = Some (n, x)"
    then have "fst (n, x) \<in> fst ` ran (map_of (pool_retries s))" by (intro imageI ranI)
    with parts(4) show False by simp
  qed
  show "map_of (pool_assessments s) t \<noteq> Some (n, y)"
  proof
    assume "map_of (pool_assessments s) t = Some (n, y)"
    then have "fst (n, y) \<in> fst ` ran (map_of (pool_assessments s))" by (intro imageI ranI)
    with parts(6) show False by simp
  qed
qed

definition keys_ok :: "pool \<Rightarrow> bool" where
  "keys_ok s \<longleftrightarrow>
     distinct (map fst (pool_devices s)) \<and>
     (\<forall>k d. tracked s k = Some d \<longrightarrow> device_key (pd_session (pool_store s d)) = k)"

definition pool_inv :: "pool \<Rightarrow> bool" where
  "pool_inv s \<longleftrightarrow> ids_ok s \<and> keys_ok s \<and> (\<forall>d. dev_ok s d)"

section \<open>Operations on other devices\<close>

definition same_view :: "pool \<Rightarrow> pool \<Rightarrow> nat \<Rightarrow> bool" where
  "same_view s s' d \<longleftrightarrow>
     pool_store s' d = pool_store s d \<and>
     (\<forall>p pl. pl_device pl = d \<longrightarrow> (map_of (pool_pipelines s') p = Some pl \<longleftrightarrow> map_of (pool_pipelines s) p = Some pl)) \<and>
     (\<forall>t x. map_of (pool_retries s') t = Some (d, x) \<longleftrightarrow> map_of (pool_retries s) t = Some (d, x)) \<and>
     (\<forall>t x. map_of (pool_assessments s') t = Some (d, x) \<longleftrightarrow> map_of (pool_assessments s) t = Some (d, x)) \<and>
     (\<forall>n. (d, n) \<in> set (pool_aborted s') \<longleftrightarrow> (d, n) \<in> set (pool_aborted s))"

lemma dev_ok_frame: "dev_ok s d \<Longrightarrow> same_view s s' d \<Longrightarrow> dev_ok s' d"
proof -
  assume ok: "dev_ok s d" and view: "same_view s s' d"
  have store: "pool_store s' d = pool_store s d" using view by (simp add: same_view_def)
  have pipe: "pl_device pl = d \<Longrightarrow> map_of (pool_pipelines s') p = Some pl \<longleftrightarrow> map_of (pool_pipelines s) p = Some pl" for p pl
    using view unfolding same_view_def by blast
  have timers: "map_of (pool_retries s') t = Some (d, x) \<longleftrightarrow> map_of (pool_retries s) t = Some (d, x)"
    "map_of (pool_assessments s') t = Some (d, y) \<longleftrightarrow> map_of (pool_assessments s) t = Some (d, y)" for t x y
    using view unfolding same_view_def by blast+
  have aborted: "(d, n) \<in> set (pool_aborted s') \<longleftrightarrow> (d, n) \<in> set (pool_aborted s)" for n
    using view unfolding same_view_def by blast
  have signal: "map_of (pool_pipelines s) p = Some pl \<Longrightarrow> pl_device pl = d \<Longrightarrow> pl_signal pl = (d, pl_generation pl)" for p pl
    using ok by (simp add: dev_ok_def pipes_ok_def)
  have stale: "stale s' pl \<longleftrightarrow> stale s pl" if "map_of (pool_pipelines s) p = Some pl" "pl_device pl = d" for p pl
    using that signal [OF that] by (simp add: stale_def store aborted)
  have live: "live_pipe s' d p pl \<longleftrightarrow> live_pipe s d p pl" for p pl
    using stale [of p pl] pipe [of pl p] by (auto simp: live_pipe_def)
  have "pipes_ok s' d \<longleftrightarrow> pipes_ok s d" unfolding pipes_ok_def live store using pipe by auto
  moreover have "retries_ok s' d \<longleftrightarrow> retries_ok s d" "assessments_ok s' d \<longleftrightarrow> assessments_ok s d"
    unfolding retries_ok_def assessments_ok_def store timers by simp_all
  ultimately show ?thesis using ok unfolding dev_ok_def store aborted by simp
qed

lemma pool_invI:
  assumes "pool_inv s" and "ids_ok s'" and "keys_ok s'" and "\<And>e. e \<noteq> d \<Longrightarrow> same_view s s' e" and "dev_ok s' d"
  shows "pool_inv s'"
  unfolding pool_inv_def
proof (intro conjI allI)
  show "dev_ok s' e" for e
    using assms dev_ok_frame [of s e s'] by (cases "e = d") (auto simp: pool_inv_def)
qed (use assms in simp_all)

lemma inv_dev: "pool_inv s \<Longrightarrow> dev_ok s d"
  by (simp add: pool_inv_def)

lemma inv_ids: "pool_inv s \<Longrightarrow> ids_ok s" and inv_keys: "pool_inv s \<Longrightarrow> keys_ok s"
  by (simp_all add: pool_inv_def)

section \<open>Using the invariant\<close>

lemma dev_okD:
  assumes "dev_ok s d"
  shows "md_abort (pool_store s d) = md_generation (pool_store s d)"
    and "(d, n) \<in> set (pool_aborted s) \<Longrightarrow> n \<le> md_generation (pool_store s d)"
    and "map_of (pool_pipelines s) p = Some pl \<Longrightarrow> pl_device pl = d \<Longrightarrow>
      pl_signal pl = (d, pl_generation pl) \<and> pl_generation pl \<le> md_generation (pool_store s d)"
    and "live_pipe s d p pl \<Longrightarrow> stage_of (pl_phase pl) (pd_readiness (pool_store s d)) \<and> \<not> md_stalled (pool_store s d)"
    and "live_pipe s d p pl \<Longrightarrow> live_pipe s d p' pl' \<Longrightarrow> p = p'"
    and "retries_ok s d" and "assessments_ok s d"
  using assms unfolding dev_ok_def pipes_ok_def by blast+

lemma dev_okI:
  assumes "md_abort (pool_store s d) = md_generation (pool_store s d)"
    and "\<And>n. (d, n) \<in> set (pool_aborted s) \<Longrightarrow> n \<le> md_generation (pool_store s d)"
    and "\<And>p pl. map_of (pool_pipelines s) p = Some pl \<Longrightarrow> pl_device pl = d \<Longrightarrow>
      pl_signal pl = (d, pl_generation pl) \<and> pl_generation pl \<le> md_generation (pool_store s d)"
    and "\<And>p pl. live_pipe s d p pl \<Longrightarrow> stage_of (pl_phase pl) (pd_readiness (pool_store s d)) \<and> \<not> md_stalled (pool_store s d)"
    and "\<And>p p' pl pl'. live_pipe s d p pl \<Longrightarrow> live_pipe s d p' pl' \<Longrightarrow> p = p'"
    and "retries_ok s d" and "assessments_ok s d"
  shows "dev_ok s d"
  unfolding dev_ok_def pipes_ok_def using assms by blast

text \<open>An operation that starts nothing and keeps the stage of the device.\<close>

lemma dev_ok_keep:
  assumes ok: "dev_ok s d"
    and pipes: "\<And>p pl. map_of (pool_pipelines s') p = Some pl \<Longrightarrow> pl_device pl = d \<Longrightarrow> map_of (pool_pipelines s) p = Some pl"
    and aborted: "\<And>n. (d, n) \<in> set (pool_aborted s) \<Longrightarrow> (d, n) \<in> set (pool_aborted s')"
      "\<And>n. (d, n) \<in> set (pool_aborted s') \<Longrightarrow> n \<le> md_generation (pool_store s d)"
    and same: "md_abort (pool_store s' d) = md_abort (pool_store s d)"
      "md_generation (pool_store s' d) = md_generation (pool_store s d)"
      "pd_readiness (pool_store s' d) = pd_readiness (pool_store s d)" "md_stalled (pool_store s' d) = md_stalled (pool_store s d)"
    and timers: "retries_ok s' d" "assessments_ok s' d"
  shows "dev_ok s' d"
proof -
  have live: "live_pipe s d p pl" if "live_pipe s' d p pl" for p pl
  proof -
    have "map_of (pool_pipelines s) p = Some pl" "pl_device pl = d" using that pipes by (auto simp: live_pipe_def)
    moreover from this have "pl_signal pl = (d, pl_generation pl)" using dev_okD(3) [OF ok] by blast
    ultimately show ?thesis using that aborted(1) by (auto simp: live_pipe_def stale_def same)
  qed
  show ?thesis
    by (rule dev_okI; (unfold same)?)
      (use dev_okD(1,3-5) [OF ok] pipes aborted(2) live timers in blast)+
qed

lemma retries_okD:
  assumes "retries_ok s d"
  shows "map_of (pool_retries s) t = Some (d, g, m) \<Longrightarrow> md_retryTimer (pool_store s d) = Some t \<and> g \<le> md_generation (pool_store s d)"
    and "map_of (pool_retries s) t = Some (d, md_generation (pool_store s d), m) \<Longrightarrow>
      is_recoverable (pd_readiness (pool_store s d)) \<and> \<not> md_stalled (pool_store s d) \<and>
      md_retryCount (pool_store s d) < MAX_ERROR_RETRIES"
    and "md_retryTimer (pool_store s d) = Some t \<Longrightarrow> \<exists>g m. map_of (pool_retries s) t = Some (d, g, m)"
    and "md_retryCount (pool_store s d) \<le> MAX_ERROR_RETRIES"
  using assms unfolding retries_ok_def by blast+

lemma retries_okI:
  assumes "\<And>t g m. map_of (pool_retries s) t = Some (d, g, m) \<Longrightarrow> md_retryTimer (pool_store s d) = Some t \<and> g \<le> md_generation (pool_store s d)"
    and "\<And>t m. map_of (pool_retries s) t = Some (d, md_generation (pool_store s d), m) \<Longrightarrow>
      is_recoverable (pd_readiness (pool_store s d)) \<and> \<not> md_stalled (pool_store s d) \<and>
      md_retryCount (pool_store s d) < MAX_ERROR_RETRIES"
    and "\<And>t. md_retryTimer (pool_store s d) = Some t \<Longrightarrow> \<exists>g m. map_of (pool_retries s) t = Some (d, g, m)"
    and "md_retryCount (pool_store s d) \<le> MAX_ERROR_RETRIES"
  shows "retries_ok s d"
  unfolding retries_ok_def using assms by blast

lemma assessments_okD:
  assumes "assessments_ok s d"
  shows "map_of (pool_assessments s) t = Some (d, g, a) \<Longrightarrow>
      md_assessmentTimer (pool_store s d) = Some t \<and> g \<le> md_generation (pool_store s d)"
    and "map_of (pool_assessments s) t = Some (d, md_generation (pool_store s d), a) \<Longrightarrow> is_assessing (pd_readiness (pool_store s d))"
    and "md_assessmentTimer (pool_store s d) = Some t \<Longrightarrow> \<exists>g a. map_of (pool_assessments s) t = Some (d, g, a)"
    and "md_stalled (pool_store s d) \<Longrightarrow>
      is_recoverable (pd_readiness (pool_store s d)) \<or> pd_readiness (pool_store s d) \<in> {Offline, Detected}"
  using assms unfolding assessments_ok_def by blast+

lemma assessments_okI:
  assumes "\<And>t g a. map_of (pool_assessments s) t = Some (d, g, a) \<Longrightarrow>
      md_assessmentTimer (pool_store s d) = Some t \<and> g \<le> md_generation (pool_store s d)"
    and "\<And>t a. map_of (pool_assessments s) t = Some (d, md_generation (pool_store s d), a) \<Longrightarrow> is_assessing (pd_readiness (pool_store s d))"
    and "\<And>t. md_assessmentTimer (pool_store s d) = Some t \<Longrightarrow> \<exists>g a. map_of (pool_assessments s) t = Some (d, g, a)"
    and "md_stalled (pool_store s d) \<Longrightarrow>
      is_recoverable (pd_readiness (pool_store s d)) \<or> pd_readiness (pool_store s d) \<in> {Offline, Detected}"
  shows "assessments_ok s d"
  unfolding assessments_ok_def using assms by blast

text \<open>Both hold as before when neither the timers nor what the device knows of them change.\<close>

lemma timers_keep:
  assumes ok: "dev_ok s d"
    and same: "md_generation (pool_store s' d) = md_generation (pool_store s d)"
      "pd_readiness (pool_store s' d) = pd_readiness (pool_store s d)" "md_stalled (pool_store s' d) = md_stalled (pool_store s d)"
      "md_retryTimer (pool_store s' d) = md_retryTimer (pool_store s d)" "md_retryCount (pool_store s' d) = md_retryCount (pool_store s d)"
      "md_assessmentTimer (pool_store s' d) = md_assessmentTimer (pool_store s d)"
  shows "map_of (pool_retries s') = map_of (pool_retries s) \<Longrightarrow> retries_ok s' d"
    and "map_of (pool_assessments s') = map_of (pool_assessments s) \<Longrightarrow> assessments_ok s' d"
  using dev_okD(6,7) [OF ok] unfolding retries_ok_def assessments_ok_def same by simp_all

end
