(* ===== verification/Fleet_Pool_Steps.thy ===== *)
theory Fleet_Pool_Steps imports Fleet_Pool_Inv begin

text \<open>
  Every operation of the pool keeps its invariant. A device is quiet when nothing of its present generation is under
  way: so it is after its generation was advanced, and before a pipeline or a timer is started.
\<close>

section \<open>Quiet devices\<close>

definition quiet :: "pool \<Rightarrow> nat \<Rightarrow> bool" where
  "quiet s d \<longleftrightarrow>
     (\<forall>p pl. \<not> live_pipe s d p pl) \<and>
     (\<forall>t m. map_of (pool_retries s) t \<noteq> Some (d, md_generation (pool_store s d), m)) \<and>
     (\<forall>t a. map_of (pool_assessments s) t \<noteq> Some (d, md_generation (pool_store s d), a))"

lemma map_of_snoc_fresh: "map_of xs k = None \<Longrightarrow> map_of (xs @ [(k, v)]) = (map_of xs)(k \<mapsto> v)"
  by (auto simp: map_add_def fun_eq_iff split: option.split)

lemma ids_keep:
  assumes "ids_ok s" and "pool_next s \<le> pool_next s'" and "set (pool_devices s') \<subseteq> set (pool_devices s)"
    and "set (pool_listening s') \<subseteq> set (pool_listening s)" and "map_of (pool_pipelines s') \<subseteq>\<^sub>m map_of (pool_pipelines s)"
    and "map_of (pool_retries s') \<subseteq>\<^sub>m map_of (pool_retries s)" and "map_of (pool_assessments s') \<subseteq>\<^sub>m map_of (pool_assessments s)"
    and "set (pool_aborted s') \<subseteq> set (pool_aborted s)"
  shows "ids_ok s'"
proof -
  have sub: "dom f' \<subseteq> dom f" "ran f' \<subseteq> ran f" if "f' \<subseteq>\<^sub>m f" for f f' :: "nat \<rightharpoonup> 'z"
    using that by (force simp: map_le_def ran_def dom_def)+
  have "used s' \<subseteq> used s"
    unfolding used_def
    by (intro Un_mono image_mono sub assms(3-8))
  with assms(1,2) show ?thesis by (auto simp: ids_ok_def intro: less_le_trans)
qed

lemma keys_keep:
  "keys_ok s \<Longrightarrow> pool_devices s' = pool_devices s \<Longrightarrow>
    (\<And>d. device_key (pd_session (pool_store s' d)) = device_key (pd_session (pool_store s d))) \<Longrightarrow> keys_ok s'"
  by (simp add: keys_ok_def tracked_def)

lemma clearRetryTimer_inv: "pool_inv s \<Longrightarrow> pool_inv (clearRetryTimer d s)"
proof (rule pool_invI [where d = d])
  assume inv: "pool_inv s"
  have dev: "dev_ok s d" using inv by (rule inv_dev)
  note retries = retries_okD [OF dev_okD(6) [OF dev]]
  show "ids_ok (clearRetryTimer d s)" by (rule ids_keep [OF inv_ids [OF inv]]) (auto simp: map_le_def split: option.split)
  show "keys_ok (clearRetryTimer d s)" by (rule keys_keep [OF inv_keys [OF inv]]) simp_all
  show "same_view s (clearRetryTimer d s) e" if "e \<noteq> d" for e
    using that retries(3) by (cases "md_retryTimer (pool_store s d)") (fastforce simp: same_view_def)+
  have none: "map_of (pool_retries (clearRetryTimer d s)) t \<noteq> Some (d, x)" for t x
    using retries(1) by (cases "md_retryTimer (pool_store s d)"; cases x) auto
  show "dev_ok (clearRetryTimer d s) d"
  proof (rule dev_ok_keep [OF dev])
    show "retries_ok (clearRetryTimer d s) d" by (rule retries_okI) (use none retries(4) in auto)
    show "assessments_ok (clearRetryTimer d s) d"
      using dev_okD(7) [OF dev] by (simp add: assessments_ok_def)
  qed (use dev_okD(2) [OF dev] in auto)
qed

lemma clearAssessmentTimer_inv: "pool_inv s \<Longrightarrow> pool_inv (clearAssessmentTimer d s)"
proof (rule pool_invI [where d = d])
  assume inv: "pool_inv s"
  have dev: "dev_ok s d" using inv by (rule inv_dev)
  note assessments = assessments_okD [OF dev_okD(7) [OF dev]]
  show "ids_ok (clearAssessmentTimer d s)" by (rule ids_keep [OF inv_ids [OF inv]]) (auto simp: map_le_def split: option.split)
  show "keys_ok (clearAssessmentTimer d s)" by (rule keys_keep [OF inv_keys [OF inv]]) simp_all
  show "same_view s (clearAssessmentTimer d s) e" if "e \<noteq> d" for e
    using that assessments(3) by (cases "md_assessmentTimer (pool_store s d)") (fastforce simp: same_view_def)+
  have none: "map_of (pool_assessments (clearAssessmentTimer d s)) t \<noteq> Some (d, x)" for t x
    using assessments(1) by (cases "md_assessmentTimer (pool_store s d)"; cases x) auto
  show "dev_ok (clearAssessmentTimer d s) d"
  proof (rule dev_ok_keep [OF dev])
    show "assessments_ok (clearAssessmentTimer d s) d" by (rule assessments_okI) (use none assessments(4) in auto)
    show "retries_ok (clearAssessmentTimer d s) d"
      using dev_okD(6) [OF dev] by (simp add: retries_ok_def)
  qed (use dev_okD(2) [OF dev] in auto)
qed

lemma unwireModem_inv: "pool_inv s \<Longrightarrow> pool_inv (unwireModem d s)"
proof (rule pool_invI [where d = d])
  assume inv: "pool_inv s"
  have dev: "dev_ok s d" using inv by (rule inv_dev)
  show "ids_ok (unwireModem d s)" by (rule ids_keep [OF inv_ids [OF inv]]) auto
  show "keys_ok (unwireModem d s)" by (rule keys_keep [OF inv_keys [OF inv]]) simp_all
  show "same_view s (unwireModem d s) e" if "e \<noteq> d" for e using that by (simp add: same_view_def)
  show "dev_ok (unwireModem d s) d"
    by (rule dev_ok_keep [OF dev]) (use dev_okD(2) [OF dev] in \<open>auto intro!: timers_keep [OF dev]\<close>)
qed

lemma abort_inv: "pool_inv s \<Longrightarrow> d < pool_next s \<Longrightarrow> pool_inv (abort_device d s)"
proof (rule pool_invI [where d = d])
  assume inv: "pool_inv s" and d: "d < pool_next s"
  have dev: "dev_ok s d" using inv by (rule inv_dev)
  show "ids_ok (abort_device d s)" using inv_ids [OF inv] d by (auto simp: ids_ok_def used_def)
  show "keys_ok (abort_device d s)" by (rule keys_keep [OF inv_keys [OF inv]]) simp_all
  show "same_view s (abort_device d s) e" if "e \<noteq> d" for e using that by (simp add: same_view_def)
  show "dev_ok (abort_device d s) d"
    by (rule dev_ok_keep [OF dev]) (use dev_okD(1,2) [OF dev] in \<open>auto intro!: timers_keep [OF dev]\<close>)
qed

text \<open>Changes of fields of a device on which its invariant does not depend.\<close>

lemma update_inv:
  assumes inv: "pool_inv s"
    and same: "\<And>D. md_abort (f D) = md_abort D" "\<And>D. md_generation (f D) = md_generation D" "\<And>D. pd_readiness (f D) = pd_readiness D"
      "\<And>D. md_stalled (f D) = md_stalled D" "\<And>D. md_retryTimer (f D) = md_retryTimer D" "\<And>D. md_retryCount (f D) = md_retryCount D"
      "\<And>D. md_assessmentTimer (f D) = md_assessmentTimer D"
    and key: "device_key (pd_session (f (pool_store s d))) = device_key (pd_session (pool_store s d))"
  shows "pool_inv (update_device d f s)"
proof (rule pool_invI [where d = d, OF inv])
  have dev: "dev_ok s d" using inv by (rule inv_dev)
  show "ids_ok (update_device d f s)" by (rule ids_keep [OF inv_ids [OF inv]]) auto
  show "keys_ok (update_device d f s)" by (rule keys_keep [OF inv_keys [OF inv]]) (simp_all add: key)
  show "same_view s (update_device d f s) e" if "e \<noteq> d" for e using that by (simp add: same_view_def)
  show "dev_ok (update_device d f s) d"
    by (rule dev_ok_keep [OF dev]) (use dev_okD(2) [OF dev] in \<open>auto simp: same intro!: timers_keep [OF dev]\<close>)
qed

lemma session_inv:
  "pool_inv s \<Longrightarrow> tracked s (device_key snap) = Some d \<Longrightarrow> pool_inv (update_device d (pd_session_update (\<lambda>_. snap)) s)"
  by (rule update_inv) (auto simp: pool_inv_def keys_ok_def)

definition renew :: "nat \<Rightarrow> pool \<Rightarrow> pool" where
  "renew d s = next_generation d (new_abort d s)"

lemma renew_simps [simp]:
  "pool_store (renew d s) = (pool_store s)(d := (pool_store s d)\<lparr>md_abort := Suc (md_abort (pool_store s d)),
     md_generation := Suc (md_generation (pool_store s d))\<rparr>)"
  "pool_devices (renew d s) = pool_devices s" "pool_aborted (renew d s) = pool_aborted s"
  "pool_retries (renew d s) = pool_retries s" "pool_assessments (renew d s) = pool_assessments s"
  "pool_pipelines (renew d s) = pool_pipelines s" "pool_listening (renew d s) = pool_listening s"
  "pool_started (renew d s) = pool_started s" "pool_stopping (renew d s) = pool_stopping s"
  "pool_next (renew d s) = pool_next s"
  by (simp_all add: renew_def next_generation_def new_abort_def fun_eq_iff)

lemma renew_inv:
  assumes inv: "pool_inv s"
  shows "pool_inv (renew d s)" and "quiet (renew d s) d"
proof -
  have dev: "dev_ok s d" using inv by (rule inv_dev)
  note retries = retries_okD [OF dev_okD(6) [OF dev]] and assessments = assessments_okD [OF dev_okD(7) [OF dev]]
  have dead: "\<not> live_pipe (renew d s) d p pl" for p pl
    using dev_okD(3) [OF dev, of p pl] by (auto simp: live_pipe_def stale_def)
  have old: "map_of (pool_retries s) t \<noteq> Some (d, Suc (md_generation (pool_store s d)), m)"
    "map_of (pool_assessments s) t \<noteq> Some (d, Suc (md_generation (pool_store s d)), a)" for t m a
    using retries(1) [of t "Suc (md_generation (pool_store s d))" m] assessments(1) [of t "Suc (md_generation (pool_store s d))" a] by auto
  show quiet: "quiet (renew d s) d"
    unfolding quiet_def using dead old by simp
  show "pool_inv (renew d s)"
  proof (rule pool_invI [where d = d, OF inv])
    show "ids_ok (renew d s)" by (rule ids_keep [OF inv_ids [OF inv]]) auto
    show "keys_ok (renew d s)" by (rule keys_keep [OF inv_keys [OF inv]]) simp_all
    show "same_view s (renew d s) e" if "e \<noteq> d" for e using that by (simp add: same_view_def)
    show "dev_ok (renew d s) d"
    proof (rule dev_okI)
      show "retries_ok (renew d s) d"
        by (rule retries_okI) (use retries(1,3,4) old in \<open>auto intro: le_SucI\<close>)
      show "assessments_ok (renew d s) d"
        by (rule assessments_okI) (use assessments(1,3,4) old in \<open>auto intro: le_SucI\<close>)
    qed (use dead dev_okD(1-3) [OF dev] in \<open>auto intro: le_SucI\<close>)
  qed
qed

section \<open>Stages and timers\<close>

lemma used_less:
  assumes "ids_ok s"
  shows "tracked s k = Some d \<Longrightarrow> d < pool_next s" and "map_of (pool_pipelines s) p = Some pl \<Longrightarrow> pl_device pl < pool_next s"
    and "map_of (pool_retries s) t = Some (d, x) \<Longrightarrow> d < pool_next s"
    and "map_of (pool_assessments s) t = Some (d, y) \<Longrightarrow> d < pool_next s"
    and "(i, d) \<in> set (pool_listening s) \<Longrightarrow> d < pool_next s"
proof -
  note fresh = fresh_id [OF assms]
  show "tracked s k = Some d \<Longrightarrow> d < pool_next s"
    using fresh(4) [of d k] by (force simp: tracked_def dest: map_of_SomeD)
  show "map_of (pool_pipelines s) p = Some pl \<Longrightarrow> pl_device pl < pool_next s" using fresh(7) leI by blast
  show "map_of (pool_retries s) t = Some (d, x) \<Longrightarrow> d < pool_next s" using fresh(8) leI by blast
  show "map_of (pool_assessments s) t = Some (d, y) \<Longrightarrow> d < pool_next s" using fresh(9) leI by blast
  show "(i, d) \<in> set (pool_listening s) \<Longrightarrow> d < pool_next s" using fresh(5) leI by blast
qed

lemma live_update [simp]:
  "md_generation (f (pool_store s e)) = md_generation (pool_store s e) \<Longrightarrow>
    live_pipe (update_device e f s) d p pl \<longleftrightarrow> live_pipe s d p pl"
  by (auto simp: live_pipe_def stale_def)

definition idle :: "pool \<Rightarrow> nat \<Rightarrow> bool" where
  "idle s d \<longleftrightarrow>
     (\<forall>p pl. \<not> live_pipe s d p pl) \<and> \<not> md_stalled (pool_store s d) \<and>
     (\<forall>t m. map_of (pool_retries s) t \<noteq> Some (d, md_generation (pool_store s d), m))"

lemma stage_inv:
  assumes inv: "pool_inv s"
    and live: "\<And>p pl. live_pipe s d p pl \<Longrightarrow> stage_of (pl_phase pl) r"
    and retries: "\<And>t m. map_of (pool_retries s) t \<noteq> Some (d, md_generation (pool_store s d), m)"
    and assessments: "\<And>t a. map_of (pool_assessments s) t = Some (d, md_generation (pool_store s d), a) \<Longrightarrow> is_assessing r"
    and stalled: "md_stalled (pool_store s d) \<Longrightarrow> is_recoverable r \<or> r \<in> {Offline, Detected}"
  shows "pool_inv (fst (setReadiness d r s))"
proof (rule pool_invI [where d = d, OF inv])
  have dev: "dev_ok s d" using inv by (rule inv_dev)
  show "ids_ok (fst (setReadiness d r s))" by (rule ids_keep [OF inv_ids [OF inv]]) auto
  show "keys_ok (fst (setReadiness d r s))" by (rule keys_keep [OF inv_keys [OF inv]]) simp_all
  show "same_view s (fst (setReadiness d r s)) e" if "e \<noteq> d" for e using that by (simp add: same_view_def)
  show "dev_ok (fst (setReadiness d r s)) d"
  proof (rule dev_okI)
    show "retries_ok (fst (setReadiness d r s)) d"
      by (rule retries_okI) (use retries_okD [OF dev_okD(6) [OF dev]] retries in auto)
    show "assessments_ok (fst (setReadiness d r s)) d"
      by (rule assessments_okI) (use assessments_okD [OF dev_okD(7) [OF dev]] assessments stalled in auto)
  qed (use dev_okD(1-5) [OF dev] live in auto)
qed

lemma quiet_stage_inv:
  "pool_inv s \<Longrightarrow> quiet s d \<Longrightarrow> (md_stalled (pool_store s d) \<Longrightarrow> is_recoverable r \<or> r \<in> {Offline, Detected}) \<Longrightarrow>
    pool_inv (fst (setReadiness d r s))"
  by (rule stage_inv) (auto simp: quiet_def simp del: setReadiness_simps)

lemma stalled_inv:
  assumes inv: "pool_inv s" and "b \<Longrightarrow> is_recoverable (pd_readiness (pool_store s d))"
    and live: "b \<Longrightarrow> \<forall>p pl. \<not> live_pipe s d p pl"
    and retries: "b \<Longrightarrow> \<forall>t m. map_of (pool_retries s) t \<noteq> Some (d, md_generation (pool_store s d), m)"
  shows "pool_inv (update_device d (md_stalled_update (\<lambda>_. b)) s)"
proof (rule pool_invI [where d = d, OF inv])
  let ?s = "update_device d (md_stalled_update (\<lambda>_. b)) s"
  have dev: "dev_ok s d" using inv by (rule inv_dev)
  show "ids_ok ?s" by (rule ids_keep [OF inv_ids [OF inv]]) auto
  show "keys_ok ?s" by (rule keys_keep [OF inv_keys [OF inv]]) simp_all
  show "same_view s ?s e" if "e \<noteq> d" for e using that by (simp add: same_view_def)
  show "dev_ok ?s d"
  proof (rule dev_okI)
    show "retries_ok ?s d"
      by (rule retries_okI) (use retries_okD [OF dev_okD(6) [OF dev]] retries in auto)
    show "assessments_ok ?s d"
      by (rule assessments_okI) (use assessments_okD [OF dev_okD(7) [OF dev]] assms(2) in auto)
  qed (use dev_okD(1-5) [OF dev] live in auto)
qed

lemma startPreparing_inv:
  assumes inv: "pool_inv s" and quiet: "quiet s d" and stalled: "\<not> md_stalled (pool_store s d)" and d: "d < pool_next s"
  shows "pool_inv (fst (startPreparing d m s))"
proof (rule pool_invI [where d = d, OF inv])
  let ?s = "fst (startPreparing d m s)" and ?p = "pool_next s"
  let ?pl = "\<lparr>pl_device = d, pl_signal = (d, md_abort (pool_store s d)), pl_generation = md_generation (pool_store s d),
    pl_modem = m, pl_phase = Provisioning\<rparr>"
  have dev: "dev_ok s d" using inv by (rule inv_dev)
  have fresh: "map_of (pool_pipelines s) ?p = None" by (rule fresh_id(1) [OF inv_ids [OF inv]]) simp
  have sel: "pool_store ?s = (pool_store s)(d := (pool_store s d)\<lparr>pd_readiness := Preparing\<rparr>)" "pool_devices ?s = pool_devices s"
    "pool_aborted ?s = pool_aborted s" "pool_retries ?s = pool_retries s" "pool_assessments ?s = pool_assessments s"
    "map_of (pool_pipelines ?s) = (map_of (pool_pipelines s))(?p \<mapsto> ?pl)" "pool_listening ?s = pool_listening s" "pool_next ?s = Suc ?p"
    using fresh by (simp_all add: startPreparing_def Let_def map_of_snoc_fresh del: map_of_append)
  show "ids_ok ?s"
    using inv_ids [OF inv] d fresh unfolding ids_ok_def used_def sel by (auto intro: less_SucI)
  show "keys_ok ?s" by (rule keys_keep [OF inv_keys [OF inv]]) (simp_all add: sel)
  show "same_view s ?s e" if "e \<noteq> d" for e using that fresh by (auto simp: same_view_def sel)
  have live: "p = ?p \<and> pl = ?pl" if "live_pipe ?s d p pl" for p pl
    using that quiet by (auto simp: live_pipe_def stale_def quiet_def sel split: if_splits)
  show "dev_ok ?s d"
  proof (rule dev_okI)
    show "retries_ok ?s d"
      by (rule retries_okI) (use retries_okD [OF dev_okD(6) [OF dev]] quiet in \<open>auto simp: sel quiet_def\<close>)
    show "assessments_ok ?s d"
      by (rule assessments_okI) (use assessments_okD [OF dev_okD(7) [OF dev]] quiet stalled in \<open>auto simp: sel quiet_def\<close>)
    show "pl_signal pl = (d, pl_generation pl) \<and> pl_generation pl \<le> md_generation (pool_store ?s d)"
      if "map_of (pool_pipelines ?s) p = Some pl" "pl_device pl = d" for p pl
    proof (cases "p = ?p")
      case True
      then have "pl = ?pl" using that(1) by (simp add: sel)
      then show ?thesis using dev_okD(1) [OF dev] by (simp add: sel)
    next
      case False
      then show ?thesis using dev_okD(3) [OF dev, of p pl] that by (simp add: sel)
    qed
    show "stage_of (pl_phase pl) (pd_readiness (pool_store ?s d)) \<and> \<not> md_stalled (pool_store ?s d)" if "live_pipe ?s d p pl" for p pl
    proof -
      have "pl = ?pl" using live [OF that] by simp
      then show ?thesis using stalled by (simp add: sel)
    qed
    show "p = p'" if "live_pipe ?s d p pl" "live_pipe ?s d p' pl'" for p p' pl pl'
      using live [OF that(1)] live [OF that(2)] by simp
  qed (use dev_okD(1,2) [OF dev] in \<open>simp_all add: sel\<close>)
qed

lemma startPreparing_sel:
  "pool_store (fst (startPreparing d m s)) = (pool_store s)(d := (pool_store s d)\<lparr>pd_readiness := Preparing\<rparr>)"
  "pool_devices (fst (startPreparing d m s)) = pool_devices s" "pool_aborted (fst (startPreparing d m s)) = pool_aborted s"
  "pool_listening (fst (startPreparing d m s)) = pool_listening s" "pool_stopping (fst (startPreparing d m s)) = pool_stopping s"
  "pool_next (fst (startPreparing d m s)) = Suc (pool_next s)"
  by (simp_all add: startPreparing_def Let_def)

lemma assessment_timer_inv:
  assumes inv: "pool_inv s" and d: "d < pool_next s" and "is_assessing (pd_readiness (pool_store s d))"
    and timer: "md_assessmentTimer (pool_store s d) = None"
  shows "pool_inv (start_assessment_timer d a s)"
proof (rule pool_invI [where d = d, OF inv])
  let ?s = "start_assessment_timer d a s" and ?t = "pool_next s"
  have dev: "dev_ok s d" using inv by (rule inv_dev)
  have fresh: "map_of (pool_assessments s) ?t = None" by (rule fresh_id(3) [OF inv_ids [OF inv]]) simp
  have sel: "pool_store ?s = (pool_store s)(d := (pool_store s d)\<lparr>md_assessmentTimer := Some ?t\<rparr>)" "pool_devices ?s = pool_devices s"
    "pool_aborted ?s = pool_aborted s" "pool_retries ?s = pool_retries s" "pool_pipelines ?s = pool_pipelines s"
    "map_of (pool_assessments ?s) = (map_of (pool_assessments s))(?t \<mapsto> (d, md_generation (pool_store s d), a))"
    "pool_listening ?s = pool_listening s" "pool_next ?s = Suc ?t"
    using fresh by (simp_all add: start_assessment_timer_def Let_def map_of_snoc_fresh del: map_of_append)
  show "ids_ok ?s"
    using inv_ids [OF inv] d fresh unfolding ids_ok_def used_def sel by (auto intro: less_SucI)
  show "keys_ok ?s" by (rule keys_keep [OF inv_keys [OF inv]]) (simp_all add: sel)
  show "same_view s ?s e" if "e \<noteq> d" for e using that fresh by (auto simp: same_view_def sel)
  have none: "map_of (pool_assessments s) t \<noteq> Some (d, x)" for t x
    using assessments_okD(1) [OF dev_okD(7) [OF dev]] timer by (cases x) fastforce
  show "dev_ok ?s d"
  proof (rule dev_ok_keep [OF dev])
    show "retries_ok ?s d" using dev_okD(6) [OF dev] by (simp add: retries_ok_def sel)
    show "assessments_ok ?s d"
      by (rule assessments_okI) (use none assms(3) assessments_okD(4) [OF dev_okD(7) [OF dev]] in \<open>auto simp: sel split: if_splits\<close>)
  qed (use dev_okD(2) [OF dev] in \<open>auto simp: sel\<close>)
qed

lemma cleared_assessments:
  assumes "pool_inv s"
  shows "map_of (pool_assessments (clearAssessmentTimer d s)) t \<noteq> Some (d, x)"
  using assessments_okD(1) [OF dev_okD(7) [OF inv_dev [OF assms]]] by (cases "md_assessmentTimer (pool_store s d)"; cases x) auto

lemma live_cong:
  "map_of (pool_pipelines s') p = map_of (pool_pipelines s) p \<Longrightarrow> set (pool_aborted s') = set (pool_aborted s) \<Longrightarrow>
    md_generation (pool_store s' d) = md_generation (pool_store s d) \<Longrightarrow> live_pipe s' d p pl \<longleftrightarrow> live_pipe s d p pl"
  by (auto simp: live_pipe_def stale_def)

lemma evaluateAssessment_inv:
  assumes inv: "pool_inv s" and d: "d < pool_next s" and idle: "idle s d"
  shows "pool_inv (fst (evaluateAssessment d snap a s))"
proof (cases "an_severity a = Severity_Critical")
  case True
  have "pool_inv (fst (setReadiness d (Assessing a) s))"
    by (rule stage_inv [OF inv]) (use idle in \<open>auto simp: idle_def\<close>)
  then show ?thesis using True by (simp add: evaluateAssessment_def)
next
  case False
  let ?s = "clearAssessmentTimer d s"
  have inv': "pool_inv ?s" by (rule clearAssessmentTimer_inv [OF inv])
  have live: "live_pipe ?s d p pl \<longleftrightarrow> live_pipe s d p pl" for p pl by (rule live_cong) simp_all
  have "quiet ?s d"
    using idle cleared_assessments [OF inv, of d] unfolding quiet_def live by (simp add: idle_def)
  then have "pool_inv (fst (startPreparing d m ?s))" for m
    by (rule startPreparing_inv [OF inv']) (use idle d in \<open>simp_all add: idle_def\<close>)
  then show ?thesis using False inv' by (auto simp: evaluateAssessment_def Let_def split: option.split)
qed

lemma startAssessment_inv:
  assumes inv: "pool_inv s" and d: "d < pool_next s" and quiet: "quiet s d"
  shows "pool_inv (fst (startAssessment d snap a s))"
proof -
  define s1 where "s1 = clearAssessmentTimer d s"
  define s2 where "s2 = update_device d (md_stalled_update (\<lambda>_. False)) s1"
  define s3 where "s3 = fst (setReadiness d (Assessing a) s2)"
  define s4 where "s4 = start_assessment_timer d a s3"
  have inv1: "pool_inv s1" unfolding s1_def by (rule clearAssessmentTimer_inv [OF inv])
  have live1: "live_pipe s1 d p pl \<longleftrightarrow> live_pipe s d p pl" for p pl unfolding s1_def by (rule live_cong) simp_all
  have inv2: "pool_inv s2" unfolding s2_def by (rule stalled_inv [OF inv1]) simp_all
  have quiet2: "quiet s2 d" "\<not> md_stalled (pool_store s2 d)"
    using quiet cleared_assessments [OF inv, of d] live1 by (auto simp: s2_def s1_def quiet_def)
  have inv3: "pool_inv s3" unfolding s3_def by (rule quiet_stage_inv [OF inv2 quiet2(1)]) (use quiet2(2) in simp)
  have inv4: "pool_inv s4" unfolding s4_def
    by (rule assessment_timer_inv [OF inv3]) (use d in \<open>simp_all add: s3_def s2_def s1_def\<close>)
  have "idle s4 d"
  proof -
    have "live_pipe s4 d p pl \<longleftrightarrow> live_pipe s2 d p pl" for p pl
      by (rule live_cong) (simp_all add: s4_def s3_def start_assessment_timer_def Let_def)
    then show ?thesis using quiet2 by (simp add: idle_def quiet_def s4_def s3_def start_assessment_timer_def Let_def)
  qed
  moreover have "d < pool_next s4" using d by (simp add: s4_def s3_def s2_def s1_def start_assessment_timer_def Let_def)
  ultimately have "pool_inv (fst (evaluateAssessment d snap a s4))" by (intro evaluateAssessment_inv inv4)
  then show ?thesis by (simp add: startAssessment_def s4_def s3_def s2_def s1_def)
qed

section \<open>Pipelines\<close>

definition end_pipeline :: "nat \<Rightarrow> pool \<Rightarrow> pool" where
  "end_pipeline p s = s\<lparr>pool_pipelines := map_delete p (pool_pipelines s)\<rparr>"

lemma end_pipeline_simps [simp]:
  "pool_store (end_pipeline p s) = pool_store s" "pool_devices (end_pipeline p s) = pool_devices s"
  "pool_aborted (end_pipeline p s) = pool_aborted s" "pool_retries (end_pipeline p s) = pool_retries s"
  "pool_assessments (end_pipeline p s) = pool_assessments s" "pool_listening (end_pipeline p s) = pool_listening s"
  "pool_started (end_pipeline p s) = pool_started s" "pool_stopping (end_pipeline p s) = pool_stopping s"
  "pool_next (end_pipeline p s) = pool_next s" "map_of (pool_pipelines (end_pipeline p s)) = (map_of (pool_pipelines s))(p := None)"
  by (simp_all add: end_pipeline_def map_of_delete)

lemma end_pipeline_inv: "pool_inv s \<Longrightarrow> pool_inv (end_pipeline p s)"
proof -
  assume inv: "pool_inv s"
  have "dev_ok (end_pipeline p s) d" for d
  proof (rule dev_ok_keep [OF inv_dev [OF inv]])
    show "retries_ok (end_pipeline p s) d" "assessments_ok (end_pipeline p s) d"
      using dev_okD(6,7) [OF inv_dev [OF inv]] by (simp_all add: retries_ok_def assessments_ok_def)
  qed (use dev_okD(2) [OF inv_dev [OF inv]] in \<open>auto split: if_splits\<close>)
  moreover have "ids_ok (end_pipeline p s)" by (rule ids_keep [OF inv_ids [OF inv]]) (auto simp: map_le_def)
  moreover have "keys_ok (end_pipeline p s)" by (rule keys_keep [OF inv_keys [OF inv]]) simp_all
  ultimately show ?thesis by (simp add: pool_inv_def)
qed

text \<open>A pipeline that is not stale fits the stage of its device, so that nothing else is under way there.\<close>

lemma fresh_pipeline:
  assumes inv: "pool_inv s" and pl: "map_of (pool_pipelines s) p = Some pl" and fresh: "\<not> stale s pl"
  shows "live_pipe s (pl_device pl) p pl" and "stage_of (pl_phase pl) (pd_readiness (pool_store s (pl_device pl)))"
    and "\<not> md_stalled (pool_store s (pl_device pl))" and "quiet (end_pipeline p s) (pl_device pl)"
    and "idle (end_pipeline p s) (pl_device pl)" and "live_modem (pd_readiness (pool_store s (pl_device pl))) = None"
proof -
  let ?d = "pl_device pl"
  have dev: "dev_ok s ?d" by (rule inv_dev [OF inv])
  show live: "live_pipe s ?d p pl" using pl fresh by (simp add: live_pipe_def)
  show stage: "stage_of (pl_phase pl) (pd_readiness (pool_store s ?d))" and stalled: "\<not> md_stalled (pool_store s ?d)"
    using dev_okD(4) [OF dev live] by simp_all
  have busy: "\<not> is_recoverable (pd_readiness (pool_store s ?d))" "\<not> is_assessing (pd_readiness (pool_store s ?d))"
    "live_modem (pd_readiness (pool_store s ?d)) = None"
    using stage by (cases "pl_phase pl"; auto)+
  then show "live_modem (pd_readiness (pool_store s ?d)) = None" by simp
  have "\<not> live_pipe (end_pipeline p s) ?d p' pl'" for p' pl'
    using dev_okD(5) [OF dev live, of p' pl'] by (auto simp: live_pipe_def stale_def)
  moreover have "map_of (pool_retries s) t \<noteq> Some (?d, md_generation (pool_store s ?d), m)" for t m
    using retries_okD(2) [OF dev_okD(6) [OF dev]] busy(1) by blast
  moreover have "map_of (pool_assessments s) t \<noteq> Some (?d, md_generation (pool_store s ?d), a)" for t a
    using assessments_okD(2) [OF dev_okD(7) [OF dev]] busy(2) by blast
  ultimately show "quiet (end_pipeline p s) ?d" "idle (end_pipeline p s) ?d"
    using stalled by (simp_all add: quiet_def idle_def)
qed

lemma scheduleRetry_inv:
  assumes inv: "pool_inv s" and d: "d < pool_next s" and stage: "is_recoverable (pd_readiness (pool_store s d))"
    and "\<not> md_stalled (pool_store s d)" and "md_retryCount (pool_store s d) < MAX_ERROR_RETRIES"
  shows "pool_inv (scheduleRetry d m s)"
proof -
  define s1 where "s1 = clearRetryTimer d s"
  let ?s = "scheduleRetry d m s" and ?t = "pool_next s1"
  have inv1: "pool_inv s1" unfolding s1_def by (rule clearRetryTimer_inv [OF inv])
  have dev: "dev_ok s1 d" using inv1 by (rule inv_dev)
  have fresh: "map_of (pool_retries s1) ?t = None" by (rule fresh_id(2) [OF inv_ids [OF inv1]]) simp
  have sel: "pool_store ?s = (pool_store s1)(d := (pool_store s1 d)\<lparr>md_retryTimer := Some ?t\<rparr>)" "pool_devices ?s = pool_devices s1"
    "pool_aborted ?s = pool_aborted s1" "pool_assessments ?s = pool_assessments s1" "pool_pipelines ?s = pool_pipelines s1"
    "map_of (pool_retries ?s) = (map_of (pool_retries s1))(?t \<mapsto> (d, md_generation (pool_store s1 d), m))"
    "pool_listening ?s = pool_listening s1" "pool_next ?s = Suc ?t"
    using fresh by (simp_all add: scheduleRetry_def Let_def map_of_snoc_fresh s1_def del: map_of_append clearRetryTimer_simps(10))
  have none: "map_of (pool_retries s1) t \<noteq> Some (d, x)" for t x
    using retries_okD(1) [OF dev_okD(6) [OF dev]] by (cases x) (fastforce simp: s1_def)
  show ?thesis
  proof (rule pool_invI [where d = d, OF inv1])
    show "ids_ok ?s"
      using inv_ids [OF inv1] d fresh unfolding ids_ok_def used_def sel by (auto simp: s1_def intro: less_SucI)
    show "keys_ok ?s" by (rule keys_keep [OF inv_keys [OF inv1]]) (simp_all add: sel)
    show "same_view s1 ?s e" if "e \<noteq> d" for e using that fresh by (auto simp: same_view_def sel)
    show "dev_ok ?s d"
    proof (rule dev_ok_keep [OF dev])
      show "assessments_ok ?s d" using dev_okD(7) [OF dev] by (simp add: assessments_ok_def sel)
      show "retries_ok ?s d"
        by (rule retries_okI) (use none assms(3-5) in \<open>auto simp: sel s1_def split: if_splits\<close>)
    qed (use dev_okD(2) [OF dev] in \<open>auto simp: sel\<close>)
  qed
qed

lemma pipeline_failed_inv:
  assumes inv: "pool_inv s" and pl: "map_of (pool_pipelines s) p = Some pl"
  shows "pool_inv (fst (pipeline_failed p pl err s))"
proof -
  let ?s = "end_pipeline p s" and ?d = "pl_device pl"
  have inv1: "pool_inv ?s" by (rule end_pipeline_inv [OF inv])
  have stale: "stale ?s pl \<longleftrightarrow> stale s pl" by (simp add: stale_def)
  show ?thesis
  proof (cases "stale s pl")
    case True
    then show ?thesis using inv1 stale by (simp add: pipeline_failed_def end_pipeline_def Let_def)
  next
    case False
    note fresh = fresh_pipeline [OF inv pl False]
    let ?canRetry = "md_retryCount (pool_store s ?d) < MAX_ERROR_RETRIES"
    define s2 where "s2 = fst (setReadiness ?d (Stage_Error err ?canRetry) ?s)"
    have inv2: "pool_inv s2"
      unfolding s2_def by (rule quiet_stage_inv [OF inv1 fresh(4)]) (use fresh(3) in simp)
    have "pool_inv (scheduleRetry ?d (pl_modem pl) s2)" if ?canRetry
      by (rule scheduleRetry_inv [OF inv2])
        (use that fresh(3) used_less(2) [OF inv_ids [OF inv] pl] in \<open>simp_all add: s2_def\<close>)
    moreover have "fst (pipeline_failed p pl err s) = (if ?canRetry then scheduleRetry ?d (pl_modem pl) s2 else s2)"
      using False stale by (simp add: pipeline_failed_def end_pipeline_def [symmetric] Let_def s2_def)
    ultimately show ?thesis using inv2 by simp
  qed
qed

lemma ran_upd_subset: "ran (m(k \<mapsto> v)) \<subseteq> insert v (ran m)"
  by (auto simp: ran_def)

lemma set_phase_used:
  assumes pl: "map_of (pool_pipelines s) p = Some pl"
  shows "used (set_phase p pl phase s) \<subseteq> used s"
proof -
  let ?s = "set_phase p pl phase s"
  have sel: "pool_devices ?s = pool_devices s" "pool_aborted ?s = pool_aborted s" "pool_retries ?s = pool_retries s"
    "pool_assessments ?s = pool_assessments s" "pool_listening ?s = pool_listening s"
    "map_of (pool_pipelines ?s) = (map_of (pool_pipelines s))(p \<mapsto> pl\<lparr>pl_phase := phase\<rparr>)"
    by (simp_all add: set_phase_def map_of_map_set)
  have "dom (map_of (pool_pipelines ?s)) = dom (map_of (pool_pipelines s))" using pl by (auto simp: sel)
  moreover have "pl_device ` ran (map_of (pool_pipelines ?s)) \<subseteq> pl_device ` ran (map_of (pool_pipelines s))"
    using ran_upd_subset [of "map_of (pool_pipelines s)" p "pl\<lparr>pl_phase := phase\<rparr>"] ranI [of "map_of (pool_pipelines s)", OF pl]
    by (force simp: sel)
  ultimately show ?thesis unfolding used_def sel(1-5) by blast
qed

lemma set_phase_inv:
  assumes inv: "pool_inv s" and pl: "map_of (pool_pipelines s) p = Some pl"
    and stage: "\<not> stale s pl \<Longrightarrow> stage_of phase (pd_readiness (pool_store s (pl_device pl)))"
  shows "pool_inv (set_phase p pl phase s)"
proof (rule pool_invI [where d = "pl_device pl", OF inv])
  let ?s = "set_phase p pl phase s" and ?d = "pl_device pl"
  have dev: "dev_ok s ?d" using inv by (rule inv_dev)
  have sel: "pool_store ?s = pool_store s" "pool_devices ?s = pool_devices s" "pool_aborted ?s = pool_aborted s"
    "pool_retries ?s = pool_retries s" "pool_assessments ?s = pool_assessments s"
    "map_of (pool_pipelines ?s) = (map_of (pool_pipelines s))(p \<mapsto> pl\<lparr>pl_phase := phase\<rparr>)" "pool_listening ?s = pool_listening s"
    "pool_next ?s = pool_next s"
    by (simp_all add: set_phase_def map_of_map_set)
  show "ids_ok ?s" using inv_ids [OF inv] set_phase_used [OF pl] by (auto simp: ids_ok_def sel)
  show "keys_ok ?s" by (rule keys_keep [OF inv_keys [OF inv]]) (simp_all add: sel)
  show "same_view s ?s e" if "e \<noteq> ?d" for e using that pl by (auto simp: same_view_def sel)
  have live: "live_pipe s ?d q (if q = p then pl else pl')" "q = p \<Longrightarrow> pl' = pl\<lparr>pl_phase := phase\<rparr> \<and> \<not> stale s pl"
    if "live_pipe ?s ?d q pl'" for q pl'
    using that pl by (auto simp: live_pipe_def stale_def sel split: if_splits)
  show "dev_ok ?s ?d"
  proof (rule dev_okI)
    show "retries_ok ?s ?d" "assessments_ok ?s ?d"
      using dev_okD(6,7) [OF dev] by (simp_all add: retries_ok_def assessments_ok_def sel)
    show "q = q'" if "live_pipe ?s ?d q pl1" "live_pipe ?s ?d q' pl2" for q q' pl1 pl2
      using dev_okD(5) [OF dev live(1) [OF that(1)] live(1) [OF that(2)]] .
    show "stage_of (pl_phase pl') (pd_readiness (pool_store ?s ?d)) \<and> \<not> md_stalled (pool_store ?s ?d)" if "live_pipe ?s ?d q pl'" for q pl'
      using dev_okD(4) [OF dev live(1) [OF that]] live(2) [OF that] stage by (cases "q = p") (auto simp: sel)
    show "pl_signal pl' = (?d, pl_generation pl') \<and> pl_generation pl' \<le> md_generation (pool_store ?s ?d)"
      if "map_of (pool_pipelines ?s) q = Some pl'" "pl_device pl' = ?d" for q pl'
      using dev_okD(3) [OF dev pl] dev_okD(3) [OF dev, of q pl'] that by (auto simp: sel split: if_splits)
  qed (use dev_okD(1,2) [OF dev] in \<open>simp_all add: sel\<close>)
qed

end
