(* ===== verification/Fleet_Pool_Machine.thy ===== *)
theory Fleet_Pool_Machine imports Fleet_Pool_Steps begin

text \<open>
  Every event of the pool keeps its invariant, whatever order they come in: the pool is a machine.
\<close>

section \<open>Pipelines\<close>

lemma set_phase_simps [simp]:
  "pool_store (set_phase p pl phase s) = pool_store s" "pool_devices (set_phase p pl phase s) = pool_devices s"
  "pool_aborted (set_phase p pl phase s) = pool_aborted s" "pool_retries (set_phase p pl phase s) = pool_retries s"
  "pool_assessments (set_phase p pl phase s) = pool_assessments s" "pool_listening (set_phase p pl phase s) = pool_listening s"
  "map_of (pool_pipelines (set_phase p pl phase s)) = (map_of (pool_pipelines s))(p \<mapsto> pl\<lparr>pl_phase := phase\<rparr>)"
  "pool_stopping (set_phase p pl phase s) = pool_stopping s" "pool_next (set_phase p pl phase s) = pool_next s"
  by (simp_all add: set_phase_def map_of_map_set)

lemma move_inv:
  assumes inv: "pool_inv s" and pl: "map_of (pool_pipelines s) p = Some pl" and fresh: "\<not> stale s pl"
    and stage: "stage_of phase r"
  shows "pool_inv (set_phase p pl phase (fst (setReadiness (pl_device pl) r s)))"
proof (rule pool_invI [where d = "pl_device pl", OF inv])
  let ?d = "pl_device pl" and ?s = "set_phase p pl phase (fst (setReadiness (pl_device pl) r s))"
  have dev: "dev_ok s ?d" using inv by (rule inv_dev)
  note here = fresh_pipeline [OF inv pl fresh]
  have sel: "pool_store ?s = (pool_store s)(?d := (pool_store s ?d)\<lparr>pd_readiness := r\<rparr>)" "pool_devices ?s = pool_devices s"
    "pool_aborted ?s = pool_aborted s" "pool_retries ?s = pool_retries s" "pool_assessments ?s = pool_assessments s"
    "map_of (pool_pipelines ?s) = (map_of (pool_pipelines s))(p \<mapsto> pl\<lparr>pl_phase := phase\<rparr>)" "pool_listening ?s = pool_listening s"
    "pool_next ?s = pool_next s"
    by simp_all
  have "used ?s = used (set_phase p pl phase s)"
    unfolding used_def sel by simp
  moreover have "used (set_phase p pl phase s) \<subseteq> used s" by (rule set_phase_used [OF pl])
  ultimately show "ids_ok ?s" using inv_ids [OF inv] unfolding ids_ok_def sel(8) by blast
  show "keys_ok ?s" by (rule keys_keep [OF inv_keys [OF inv]]) (simp_all add: sel)
  show "same_view s ?s e" if "e \<noteq> ?d" for e using that pl by (auto simp: same_view_def sel)
  have live: "q = p \<and> pl' = pl\<lparr>pl_phase := phase\<rparr>" if "live_pipe ?s ?d q pl'" for q pl'
  proof (cases "q = p")
    case False
    then have "live_pipe s ?d q pl'" using that by (auto simp: live_pipe_def stale_def sel)
    then show ?thesis using dev_okD(5) [OF dev here(1)] False by blast
  qed (use that in \<open>simp add: live_pipe_def sel\<close>)
  have none: "map_of (pool_retries s) t \<noteq> Some (?d, md_generation (pool_store s ?d), m)"
    "map_of (pool_assessments s) t \<noteq> Some (?d, md_generation (pool_store s ?d), a)" for t m a
    using here(4) by (simp_all add: quiet_def)
  show "dev_ok ?s ?d"
  proof (rule dev_okI)
    show "retries_ok ?s ?d"
      by (rule retries_okI) (use retries_okD [OF dev_okD(6) [OF dev]] none in \<open>auto simp: sel\<close>)
    show "assessments_ok ?s ?d"
      by (rule assessments_okI) (use assessments_okD [OF dev_okD(7) [OF dev]] none here(3) in \<open>auto simp: sel\<close>)
    show "pl_signal pl' = (?d, pl_generation pl') \<and> pl_generation pl' \<le> md_generation (pool_store ?s ?d)"
      if "map_of (pool_pipelines ?s) q = Some pl'" "pl_device pl' = ?d" for q pl'
      using dev_okD(3) [OF dev pl] dev_okD(3) [OF dev, of q pl'] that by (auto simp: sel split: if_splits)
    show "stage_of (pl_phase pl') (pd_readiness (pool_store ?s ?d)) \<and> \<not> md_stalled (pool_store ?s ?d)" if "live_pipe ?s ?d q pl'" for q pl'
      using live [OF that] stage here(3) by (simp add: sel)
    show "q = q'" if "live_pipe ?s ?d q pl1" "live_pipe ?s ?d q' pl2" for q q' pl1 pl2
      using live [OF that(1)] live [OF that(2)] by simp
  qed (use dev_okD(1,2) [OF dev] in \<open>simp_all add: sel\<close>)
qed

lemma provisioned_inv:
  assumes inv: "pool_inv s" and pl: "map_of (pool_pipelines s) p = Some pl"
  shows "pool_inv (fst (provisioned p pl result s))"
  using pipeline_failed_inv [OF assms] end_pipeline_inv [OF inv, of p] move_inv [OF assms, of Opening]
  by (cases result) (auto simp: provisioned_def end_pipeline_def)

lemma live_unique:
  assumes "pool_inv s" and "map_of (pool_pipelines s) p = Some pl" and "\<not> stale s pl"
    and "live_pipe s (pl_device pl) q pl'"
  shows "q = p" and "pl' = pl"
proof -
  have live: "live_pipe s (pl_device pl) p pl" by (rule fresh_pipeline(1) [OF assms(1-3)])
  show "q = p" by (rule dev_okD(5) [OF inv_dev [OF assms(1)] assms(4) live])
  then show "pl' = pl" using assms(2,4) by (simp add: live_pipe_def)
qed

lemma progress_inv:
  assumes inv: "pool_inv s" and pl: "map_of (pool_pipelines s) p = Some pl" and "pl_phase pl = Opening"
  shows "pool_inv (fst (progress pl phase s))"
proof (cases "stale s pl")
  case False
  note here = fresh_pipeline [OF inv pl False]
  have "pool_inv (fst (setReadiness (pl_device pl) Checking s))"
  proof (rule stage_inv [OF inv])
    show "stage_of (pl_phase pl') Checking" if "live_pipe s (pl_device pl) q pl'" for q pl'
      using live_unique [OF inv pl False that] assms(3) by simp
  qed (use here(3,4) in \<open>simp_all add: quiet_def\<close>)
  then show ?thesis using inv by (auto simp: progress_def)
qed (use inv in \<open>simp add: progress_def\<close>)

lemma wireModem_inv:
  assumes inv: "pool_inv s" and d: "d < pool_next s"
  shows "pool_inv (wireModem d i s)"
proof -
  define s1 where "s1 = update_device d (md_listeners_update (\<lambda>_. Some i)) s"
  define s2 where "s2 = s1\<lparr>pool_listening := pool_listening s1 @ [(i, d)]\<rparr>"
  have inv1: "pool_inv s1" unfolding s1_def by (rule update_inv [OF inv]) simp_all
  have view: "same_view s1 s2 e" for e by (simp add: same_view_def s2_def)
  have "used s2 = insert d (used s1)" by (simp add: used_def s2_def)
  then have "ids_ok s2" using inv_ids [OF inv1] d by (simp add: ids_ok_def s2_def s1_def)
  moreover have "keys_ok s2" by (rule keys_keep [OF inv_keys [OF inv1]]) (simp_all add: s2_def)
  ultimately have "pool_inv s2" by (rule pool_invI [OF inv1 _ _ view dev_ok_frame [OF inv_dev [OF inv1] view [of d]]])
  moreover have "wireModem d i s = s2" by (cases s) (simp add: wireModem_def s2_def s1_def update_device_def)
  ultimately show ?thesis by simp
qed

lemma wireModem_simps [simp]:
  "pool_pipelines (wireModem d i s) = pool_pipelines s" "stale (wireModem d i s) pl = stale s pl"
  "pool_store (wireModem d i s) = (pool_store s)(d := (pool_store s d)\<lparr>md_listeners := Some i\<rparr>)"
  "pool_devices (wireModem d i s) = pool_devices s" "pool_aborted (wireModem d i s) = pool_aborted s"
  "pool_listening (wireModem d i s) = pool_listening s @ [(i, d)]" "pool_stopping (wireModem d i s) = pool_stopping s"
  "pool_next (wireModem d i s) = pool_next s"
  by (simp_all add: wireModem_def stale_def fun_eq_iff)

text \<open>A pipeline that ends in success.\<close>

lemma end_stage_inv:
  assumes inv: "pool_inv s" and pl: "map_of (pool_pipelines s) p = Some pl" and fresh: "\<not> stale s pl"
  shows "pool_inv (end_pipeline p (fst (setReadiness (pl_device pl) r s)))"
proof -
  note here = fresh_pipeline [OF assms]
  have "pool_inv (fst (setReadiness (pl_device pl) r (end_pipeline p s)))"
    by (rule quiet_stage_inv [OF end_pipeline_inv [OF inv] here(4)]) (use here(3) in simp)
  moreover have "fst (setReadiness (pl_device pl) r (end_pipeline p s)) = end_pipeline p (fst (setReadiness (pl_device pl) r s))"
    by (simp add: end_pipeline_def update_device_def)
  ultimately show ?thesis by simp
qed

lemma connected_inv:
  assumes inv: "pool_inv s" and pl: "map_of (pool_pipelines s) p = Some pl"
  shows "pool_inv (fst (connected p pl result s))"
proof (cases result)
  case (Inl err)
  then show ?thesis using pipeline_failed_inv [OF assms] by (simp add: connected_def)
next
  case (Inr x)
  obtain i report where result: "result = Inr (i, report)" using Inr by (cases x) simp
  let ?s = "wireModem (pl_device pl) i s"
  have inv1: "pool_inv ?s" by (rule wireModem_inv [OF inv used_less(2) [OF inv_ids [OF inv] pl]])
  have pl1: "map_of (pool_pipelines ?s) p = Some pl" by (simp add: pl)
  show ?thesis
  proof (cases "stale s pl")
    case True
    then show ?thesis using set_phase_inv [OF inv pl, of "Closing i"] by (simp add: connected_def result)
  next
    case False
    then have fresh: "\<not> stale ?s pl" by simp
    show ?thesis
      using False pipeline_failed_inv [OF inv1 pl1] end_stage_inv [OF inv1 pl1 fresh]
      by (cases report) (simp_all add: connected_def result end_pipeline_def Let_def)
  qed
qed

lemma stale_closed_inv:
  assumes "pool_inv s" and "map_of (pool_pipelines s) p = Some pl"
  shows "pool_inv (fst (stale_closed p pl err s))"
  using pipeline_failed_inv [OF assms] end_pipeline_inv [OF assms(1), of p]
  by (cases err) (simp_all add: stale_closed_def end_pipeline_def)

section \<open>Timers\<close>

lemma count_inv:
  assumes inv: "pool_inv s" and count: "n \<le> MAX_ERROR_RETRIES"
    and less: "\<And>t m. map_of (pool_retries s) t = Some (d, md_generation (pool_store s d), m) \<Longrightarrow> n < MAX_ERROR_RETRIES"
  shows "pool_inv (update_device d (\<lambda>D. D\<lparr>md_retryCount := n\<rparr>) s)"
proof (rule pool_invI [where d = d, OF inv])
  let ?s = "update_device d (\<lambda>D. D\<lparr>md_retryCount := n\<rparr>) s"
  have dev: "dev_ok s d" using inv by (rule inv_dev)
  show "ids_ok ?s" by (rule ids_keep [OF inv_ids [OF inv]]) auto
  show "keys_ok ?s" by (rule keys_keep [OF inv_keys [OF inv]]) simp_all
  show "same_view s ?s e" if "e \<noteq> d" for e using that by (simp add: same_view_def)
  show "dev_ok ?s d"
  proof (rule dev_ok_keep [OF dev])
    show "retries_ok ?s d"
      by (rule retries_okI) (use retries_okD [OF dev_okD(6) [OF dev]] count less in auto)
    show "assessments_ok ?s d" using dev_okD(7) [OF dev] by (simp add: assessments_ok_def)
  qed (use dev_okD(2) [OF dev] in auto)
qed

lemma retry_timeout_clear:
  assumes inv: "pool_inv s" and timer: "map_of (pool_retries s) t = Some (d, g, m)"
  shows "update_device d (md_retryTimer_update (\<lambda>_. None)) (s\<lparr>pool_retries := map_delete t (pool_retries s)\<rparr>) = clearRetryTimer d s"
  using retries_okD(1) [OF dev_okD(6) [OF inv_dev [OF inv]] timer] by (simp add: clearRetryTimer_def)

lemma assessment_timeout_clear:
  assumes inv: "pool_inv s" and timer: "map_of (pool_assessments s) t = Some (d, g, a)"
  shows "update_device d (md_assessmentTimer_update (\<lambda>_. None)) (s\<lparr>pool_assessments := map_delete t (pool_assessments s)\<rparr>) =
    clearAssessmentTimer d s"
  using assessments_okD(1) [OF dev_okD(7) [OF inv_dev [OF inv]] timer] by (simp add: clearAssessmentTimer_def)

lemma cleared_retries:
  assumes "pool_inv s"
  shows "map_of (pool_retries (clearRetryTimer d s)) t \<noteq> Some (d, x)"
  using retries_okD(1) [OF dev_okD(6) [OF inv_dev [OF assms]]] by (cases "md_retryTimer (pool_store s d)"; cases x) auto

lemma retry_timeout_inv:
  assumes inv: "pool_inv s"
  shows "pool_inv (fst (retry_timeout t s))"
proof (cases "map_of (pool_retries s) t")
  case None
  then show ?thesis using inv by (simp add: retry_timeout_def)
next
  case (Some x)
  obtain d g m where timer: "map_of (pool_retries s) t = Some (d, g, m)" using Some by (cases x) auto
  define s1 where "s1 = clearRetryTimer d s"
  have inv1: "pool_inv s1" unfolding s1_def by (rule clearRetryTimer_inv [OF inv])
  have same: "pool_store s1 d = (pool_store s d)\<lparr>md_retryTimer := None\<rparr>" "pool_next s1 = pool_next s" by (simp_all add: s1_def)
  have step: "fst (retry_timeout t s) =
      (if md_generation (pool_store s d) \<noteq> g \<or> \<not> is_error (pd_readiness (pool_store s d)) then s1
       else fst (startPreparing d m (update_device d (md_retryCount_update Suc) s1)))"
    using timer by (simp add: retry_timeout_def retry_timeout_clear [OF inv timer] s1_def [symmetric] Let_def same)
  show ?thesis
  proof (cases "md_generation (pool_store s d) \<noteq> g \<or> \<not> is_error (pd_readiness (pool_store s d))")
    case True
    then show ?thesis using step inv1 by simp
  next
    case False
    have dev: "dev_ok s d" using inv by (rule inv_dev)
    have g: "g = md_generation (pool_store s d)" using False by simp
    have now: "is_recoverable (pd_readiness (pool_store s d))" "\<not> md_stalled (pool_store s d)"
      "md_retryCount (pool_store s d) < MAX_ERROR_RETRIES"
      using retries_okD(2) [OF dev_okD(6) [OF dev]] timer unfolding g by blast+
    define s2 where "s2 = update_device d (\<lambda>D. D\<lparr>md_retryCount := Suc (md_retryCount (pool_store s d))\<rparr>) s1"
    have none: "map_of (pool_retries s1) t' \<noteq> Some (d, y)" for t' y unfolding s1_def by (rule cleared_retries [OF inv])
    have inv2: "pool_inv s2" unfolding s2_def by (rule count_inv [OF inv1]) (use now(3) none in auto)
    have eq: "update_device d (md_retryCount_update Suc) s1 = s2" by (cases "pool_store s d") (simp add: s2_def update_device_def same)
    have dead: "\<not> live_pipe s1 d p pl" for p pl
    proof
      assume "live_pipe s1 d p pl"
      then have "stage_of (pl_phase pl) (pd_readiness (pool_store s1 d))" using dev_okD(4) [OF inv_dev [OF inv1]] by blast
      then show False using now(1) same by (cases "pl_phase pl") auto
    qed
    have "map_of (pool_assessments s1) t' \<noteq> Some (d, md_generation (pool_store s d), a)" for t' a
      using assessments_okD(2) [OF dev_okD(7) [OF dev], of t' a] now(1)
      by (cases "pd_readiness (pool_store s d)") (auto simp: s1_def)
    then have quiet: "quiet s2 d" using dead none by (simp add: quiet_def s2_def same)
    have "pool_inv (fst (startPreparing d m s2))"
      by (rule startPreparing_inv [OF inv2 quiet])
        (use now(2) used_less(3) [OF inv_ids [OF inv] timer] same in \<open>simp_all add: s2_def\<close>)
    then show ?thesis using step False eq by simp
  qed
qed

lemma assessment_timeout_inv:
  assumes inv: "pool_inv s"
  shows "pool_inv (fst (assessment_timeout t s))"
proof (cases "map_of (pool_assessments s) t")
  case None
  then show ?thesis using inv by (simp add: assessment_timeout_def)
next
  case (Some x)
  obtain d g a where timer: "map_of (pool_assessments s) t = Some (d, g, a)" using Some by (cases x) auto
  define s1 where "s1 = clearAssessmentTimer d s"
  let ?r = "Stage_Error (js ''Device stuck in critical state: '' @ an_description a) True"
  have inv1: "pool_inv s1" unfolding s1_def by (rule clearAssessmentTimer_inv [OF inv])
  have same: "pool_store s1 d = (pool_store s d)\<lparr>md_assessmentTimer := None\<rparr>" by (simp add: s1_def)
  have swap: "fst (setReadiness d ?r (update_device d (md_stalled_update (\<lambda>_. True)) s1)) =
      update_device d (md_stalled_update (\<lambda>_. True)) (fst (setReadiness d ?r s1))"
    by (cases "pool_store s1 d") (simp add: update_device_def)
  have step: "fst (assessment_timeout t s) =
      (if md_generation (pool_store s d) \<noteq> g \<or> \<not> is_assessing (pd_readiness (pool_store s d)) then s1
       else update_device d (md_stalled_update (\<lambda>_. True)) (fst (setReadiness d ?r s1)))"
    using timer
    by (simp add: assessment_timeout_def assessment_timeout_clear [OF inv timer] s1_def [symmetric] Let_def same swap del: setReadiness_simps)
  show ?thesis
  proof (cases "md_generation (pool_store s d) \<noteq> g \<or> \<not> is_assessing (pd_readiness (pool_store s d))")
    case True
    then show ?thesis using step inv1 by simp
  next
    case False
    have dev1: "dev_ok s1 d" using inv1 by (rule inv_dev)
    have assessing: "is_assessing (pd_readiness (pool_store s1 d))" using False same by simp
    have dead: "\<not> live_pipe s1 d p pl" for p pl
      using dev_okD(4) [OF dev1, of p pl] assessing by (cases "pl_phase pl") auto
    have none: "map_of (pool_retries s1) t' \<noteq> Some (d, md_generation (pool_store s1 d), m)" for t' m
      using retries_okD(2) [OF dev_okD(6) [OF dev1], of t' m] assessing by (cases "pd_readiness (pool_store s1 d)") auto
    have "quiet s1 d"
      using dead none cleared_assessments [OF inv, of d] by (simp add: quiet_def s1_def)
    then have inv2: "pool_inv (fst (setReadiness d ?r s1))" by (rule quiet_stage_inv [OF inv1]) simp
    have "pool_inv (update_device d (md_stalled_update (\<lambda>_. True)) (fst (setReadiness d ?r s1)))"
      by (rule stalled_inv [OF inv2]) (use dead none in simp_all)
    then show ?thesis using step False by simp
  qed
qed

section \<open>Devices\<close>

lemma reset_count:
  "pool_inv s \<Longrightarrow> pool_inv (update_device d (md_retryCount_update (\<lambda>_. 0)) s)"
  using count_inv [of s 0 d] by (simp add: MAX_ERROR_RETRIES_def)

lemma quiet_cong:
  "(\<And>p pl. live_pipe s' d p pl \<Longrightarrow> live_pipe s d p pl) \<Longrightarrow> md_generation (pool_store s' d) = md_generation (pool_store s d) \<Longrightarrow>
    (\<And>t x. map_of (pool_retries s') t = Some (d, x) \<Longrightarrow> map_of (pool_retries s) t = Some (d, x)) \<Longrightarrow>
    (\<And>t x. map_of (pool_assessments s') t = Some (d, x) \<Longrightarrow> map_of (pool_assessments s) t = Some (d, x)) \<Longrightarrow>
    quiet s d \<Longrightarrow> quiet s' d"
  unfolding quiet_def by metis

lemma set_map_set: "set (map_set k v m) \<subseteq> insert (k, v) (set m)"
  by (induction k v m rule: map_set.induct) auto

lemma new_device_inv:
  assumes inv: "pool_inv s" and D: "md_abort D = 0" "md_generation D = 0" "md_retryTimer D = None" "md_assessmentTimer D = None"
    "\<not> md_stalled D" "md_retryCount D = 0" "pd_readiness D = Detected" "device_key (pd_session D) = key"
    and s': "s' = s\<lparr>pool_store := (pool_store s)(pool_next s := D), pool_devices := map_set key (pool_next s) (pool_devices s),
      pool_next := Suc (pool_next s)\<rparr>"
  shows "pool_inv s'" and "quiet s' (pool_next s)"
proof -
  let ?d = "pool_next s"
  note fresh = fresh_id [OF inv_ids [OF inv] order_refl]
  have sel: "pool_store s' = (pool_store s)(?d := D)" "pool_devices s' = map_set key ?d (pool_devices s)"
    "pool_aborted s' = pool_aborted s" "pool_retries s' = pool_retries s" "pool_assessments s' = pool_assessments s"
    "pool_pipelines s' = pool_pipelines s" "pool_listening s' = pool_listening s" "pool_next s' = Suc ?d"
    by (simp_all add: s')
  have devices: "snd ` set (map_set key ?d (pool_devices s)) \<subseteq> insert ?d (snd ` set (pool_devices s))"
    using set_map_set [of key ?d "pool_devices s"] by force
  have "used s' \<subseteq> insert ?d (used s)" using devices unfolding used_def sel by blast
  then have ids: "ids_ok s'" using inv_ids [OF inv] unfolding ids_ok_def sel(8) by (fastforce intro: less_SucI)
  have keys: "keys_ok s'"
    using inv_keys [OF inv] D(8) fresh(4)
    by (auto simp: keys_ok_def tracked_def sel map_of_map_set keys_map_set dest: map_of_SomeD)
  have none: "\<not> live_pipe s' ?d p pl" for p pl using fresh(7) by (auto simp: live_pipe_def sel)
  show "quiet s' ?d" using none fresh(8,9) by (simp add: quiet_def sel)
  show "pool_inv s'"
  proof (rule pool_invI [OF inv ids keys])
    show "same_view s s' e" if "e \<noteq> ?d" for e using that by (simp add: same_view_def sel)
    show "dev_ok s' ?d"
    proof (rule dev_okI)
      show "retries_ok s' ?d" by (rule retries_okI) (use fresh(8) D in \<open>simp_all add: sel\<close>)
      show "assessments_ok s' ?d" by (rule assessments_okI) (use fresh(9) D in \<open>simp_all add: sel\<close>)
    qed (use none fresh(6,7) D in \<open>auto simp: sel\<close>)
  qed
qed

lemma appeared_inv:
  assumes inv: "pool_inv s"
  shows "pool_inv (fst (onDeviceAppeared auto now snap a s))"
proof -
  define D where "D = \<lparr>pd_vendorId = snap_vendorId snap, pd_name = snap_vendorName snap, pd_readiness = Detected, pd_session = snap,
    pd_firstSeenAt = now, md_abort = 0, md_generation = 0, md_listeners = None, md_retryTimer = None, md_assessmentTimer = None,
    md_stalled = False, md_retryCount = 0\<rparr>"
  define s1 where "s1 = s\<lparr>pool_store := (pool_store s)(pool_next s := D),
    pool_devices := map_set (device_key snap) (pool_next s) (pool_devices s), pool_next := Suc (pool_next s)\<rparr>"
  note new = new_device_inv [OF inv, of D, OF _ _ _ _ _ _ _ _ s1_def]
  have inv1: "pool_inv s1" "quiet s1 (pool_next s)" by (rule new; simp add: D_def)+
  have "pool_inv (fst (startAssessment (pool_next s) snap a s1))"
    by (rule startAssessment_inv [OF inv1(1) _ inv1(2)]) (simp add: s1_def)
  then show ?thesis using inv1(1) by (simp add: onDeviceAppeared_def Let_def s1_def D_def)
qed

text \<open>A device whose generation was advanced takes any stage that may stall, and may be assessed again.\<close>

lemma fresh_start_inv:
  assumes inv: "pool_inv s" and quiet: "quiet s d" and d: "d < pool_next s"
  shows "pool_inv (fst (startAssessment d snap a (fst (setReadiness d Detected s))))"
    and "pool_inv (fst (setReadiness d Detected s))"
proof -
  show inv1: "pool_inv (fst (setReadiness d Detected s))" by (rule quiet_stage_inv [OF inv quiet]) simp
  have "quiet (fst (setReadiness d Detected s)) d" by (rule quiet_cong [OF _ _ _ _ quiet]) simp_all
  then show "pool_inv (fst (startAssessment d snap a (fst (setReadiness d Detected s))))"
    by (rule startAssessment_inv [OF inv1, rotated]) (use d in simp)
qed

lemma reattached_inv:
  assumes inv: "pool_inv s" and "tracked s (device_key snap) = Some d"
  shows "pool_inv (fst (onDeviceReattached auto snap a d s))"
proof -
  define s1 where "s1 = update_device d (pd_session_update (\<lambda>_. snap)) s"
  define s2 where "s2 = update_device d (md_retryCount_update (\<lambda>_. 0)) (renew d s1)"
  have inv1: "pool_inv s1" unfolding s1_def by (rule session_inv [OF assms])
  have inv2: "pool_inv s2" unfolding s2_def by (rule reset_count [OF renew_inv(1) [OF inv1]])
  have quiet: "quiet s2 d" unfolding s2_def by (rule quiet_cong [OF _ _ _ _ renew_inv(2) [OF inv1]]) simp_all
  have d: "d < pool_next s2" using used_less(1) [OF inv_ids [OF inv] assms(2)] by (simp add: s2_def s1_def)
  have "fst (onDeviceReattached auto snap a d s) =
      (if pd_readiness (pool_store s1 d) = Offline
       then (if auto then fst (startAssessment d snap a (fst (setReadiness d Detected s2))) else fst (setReadiness d Detected s2)) else s1)"
    by (simp add: onDeviceReattached_def Let_def s1_def [symmetric] renew_def [symmetric] s2_def [symmetric] del: setReadiness_simps)
  then show ?thesis using inv1 fresh_start_inv [OF inv2 quiet d] by (simp del: setReadiness_simps)
qed

lemma detached_inv:
  assumes inv: "pool_inv s" and "tracked s (device_key snap) = Some d"
  shows "pool_inv (fst (onDeviceDetached snap d s))"
proof -
  define s1 where "s1 = renew d (abort_device d (update_device d (pd_session_update (\<lambda>_. snap)) s))"
  define s2 where "s2 = update_device d (md_retryCount_update (\<lambda>_. 0)) (unwireModem d (clearAssessmentTimer d (clearRetryTimer d s1)))"
  have d: "d < pool_next s" by (rule used_less(1) [OF inv_ids [OF inv] assms(2)])
  have inv0: "pool_inv (abort_device d (update_device d (pd_session_update (\<lambda>_. snap)) s))"
    by (rule abort_inv [OF session_inv [OF assms]]) (use d in simp)
  have inv1: "pool_inv s1" "quiet s1 d" unfolding s1_def by (rule renew_inv [OF inv0])+
  have inv2: "pool_inv s2" unfolding s2_def
    by (intro reset_count unwireModem_inv clearAssessmentTimer_inv clearRetryTimer_inv inv1(1))
  have "quiet s2 d"
    by (rule quiet_cong [OF _ _ _ _ inv1(2)]) (auto simp: s2_def live_pipe_def stale_def split: option.splits if_splits)
  then have "pool_inv (fst (setReadiness d Offline s2))" by (rule quiet_stage_inv [OF inv2]) simp
  then show ?thesis by (simp add: onDeviceDetached_def Let_def s2_def s1_def renew_def del: setReadiness_simps)
qed

lemma not_under_way:
  assumes "pool_inv s" and "\<not> under_way (pd_readiness (pool_store s d))"
  shows "\<not> live_pipe s d p pl"
  using dev_okD(4) [OF inv_dev [OF assms(1)], of d p pl] assms(2) by (auto simp: under_way_def)

lemma state_changed_inv:
  assumes inv: "pool_inv s" and "tracked s (device_key snap) = Some d"
  shows "pool_inv (fst (onStateChanged snap a d s))"
proof -
  define s1 where "s1 = update_device d (pd_session_update (\<lambda>_. snap)) s"
  define s2 where "s2 = update_device d (md_stalled_update (\<lambda>_. False)) s1"
  let ?r = "pd_readiness (pool_store s1 d)"
  have inv1: "pool_inv s1" unfolding s1_def by (rule session_inv [OF assms])
  have d: "d < pool_next s1" using used_less(1) [OF inv_ids [OF inv] assms(2)] by (simp add: s1_def)
  have dev: "dev_ok s1 d" by (rule inv_dev [OF inv1])
  have assessing: "pool_inv (fst (evaluateAssessment d snap a s1))" if "is_assessing ?r"
  proof (rule evaluateAssessment_inv [OF inv1 d])
    have "\<not> is_recoverable ?r" "?r \<noteq> Offline" "?r \<noteq> Detected" "\<not> under_way ?r"
      using that by (auto simp: under_way_def elim!: is_assessing.elims stage_of.elims)
    then show "idle s1 d"
      using not_under_way [OF inv1] retries_okD(2) [OF dev_okD(6) [OF dev]] assessments_okD(4) [OF dev_okD(7) [OF dev]]
      by (auto simp: idle_def)
  qed
  have stalled: "pool_inv (fst (evaluateAssessment d snap a s2))" if "md_stalled (pool_store s1 d)"
  proof (rule evaluateAssessment_inv)
    show "pool_inv s2" unfolding s2_def by (rule stalled_inv [OF inv1]) simp_all
    show "d < pool_next s2" using d by (simp add: s2_def)
    show "idle s2 d"
      using that dev_okD(4) [OF dev] retries_okD(2) [OF dev_okD(6) [OF dev]] by (auto simp: idle_def s2_def)
  qed
  show ?thesis
    using assessing stalled inv1 by (simp add: onStateChanged_def Let_def s1_def [symmetric] s2_def [symmetric])
qed

lemma same_parts_inv:
  assumes inv: "pool_inv s" and sub: "set (pool_devices s') \<subseteq> set (pool_devices s)" and "distinct (map fst (pool_devices s'))"
    and same: "pool_store s' = pool_store s" "pool_aborted s' = pool_aborted s" "pool_retries s' = pool_retries s"
      "pool_assessments s' = pool_assessments s" "pool_pipelines s' = pool_pipelines s" "pool_listening s' = pool_listening s"
      "pool_next s' = pool_next s"
  shows "pool_inv s'"
  unfolding pool_inv_def
proof (intro conjI allI)
  show "ids_ok s'" by (rule ids_keep [OF inv_ids [OF inv]]) (use same sub in simp_all)
  have "tracked s k = Some e" if "map_of (pool_devices s') k = Some e" for k e
    using map_of_is_SomeI [of "pool_devices s"] inv_keys [OF inv] sub map_of_SomeD [OF that] by (auto simp: keys_ok_def tracked_def)
  then show "keys_ok s'" using inv_keys [OF inv] same(1) assms(3) by (simp add: keys_ok_def tracked_def)
  show "dev_ok s' d" for d by (rule dev_ok_frame [OF inv_dev [OF inv]]) (simp add: same_view_def same)
qed

lemma flags_inv:
  assumes "pool_inv s"
  shows "pool_inv (s\<lparr>pool_started := b\<rparr>)" "pool_inv (s\<lparr>pool_stopping := n\<rparr>)" "pool_inv (s\<lparr>pool_devices := [], pool_stopping := n\<rparr>)"
  using inv_keys [OF assms] by (auto intro!: same_parts_inv [OF assms] simp: keys_ok_def)

lemma gone_inv:
  assumes inv: "pool_inv s"
  shows "pool_inv (fst (onDeviceGone key d s))"
proof -
  define s1 where "s1 = unwireModem d (clearAssessmentTimer d (clearRetryTimer d s))"
  have inv1: "pool_inv s1" unfolding s1_def by (intro unwireModem_inv clearAssessmentTimer_inv clearRetryTimer_inv inv)
  have "pool_inv (s1\<lparr>pool_devices := map_delete key (pool_devices s1)\<rparr>)"
    by (rule same_parts_inv [OF inv1]) (use inv_keys [OF inv1] in \<open>auto simp: keys_ok_def map_delete_def distinct_map_filter\<close>)
  then show ?thesis by (simp add: onDeviceGone_def Let_def s1_def)
qed

lemma restart_inv:
  assumes inv: "pool_inv s" and "tracked s key = Some d"
  shows "pool_inv (fst (restartDevice auto d s))"
proof -
  define s1 where "s1 = renew d (abort_device d s)"
  define s2 where "s2 = update_device d (md_retryCount_update (\<lambda>_. 0)) (unwireModem d (clearRetryTimer d s1))"
  have d: "d < pool_next s" by (rule used_less(1) [OF inv_ids [OF inv] assms(2)])
  have inv1: "pool_inv s1" "quiet s1 d" unfolding s1_def by (rule renew_inv [OF abort_inv [OF inv d]])+
  have inv2: "pool_inv s2" unfolding s2_def by (intro reset_count unwireModem_inv clearRetryTimer_inv inv1(1))
  have quiet: "quiet s2 d"
    by (rule quiet_cong [OF _ _ _ _ inv1(2)]) (auto simp: s2_def live_pipe_def stale_def split: option.splits if_splits)
  have "fst (restartDevice auto d s) =
      (if auto then fst (startAssessment d (pd_session (pool_store s2 d)) neutral_analysis (fst (setReadiness d Detected s2)))
       else fst (setReadiness d Detected s2))"
    by (simp add: restartDevice_def Let_def s2_def s1_def renew_def)
  then show ?thesis using fresh_start_inv [OF inv2 quiet] d by (simp add: s2_def s1_def del: setReadiness_simps)
qed

section \<open>The pool\<close>

lemma close_inv: "pool_inv s \<Longrightarrow> pool_inv (fst (on_close ds s))"
proof (induction ds arbitrary: s)
  case (Cons d ds)
  have "pool_inv (fst (setReadiness d Offline s))" if live: "live_modem (pd_readiness (pool_store s d)) \<noteq> None"
  proof (rule stage_inv [OF Cons.prems])
    have dev: "dev_ok s d" by (rule inv_dev [OF Cons.prems])
    have stage: "\<not> is_recoverable (pd_readiness (pool_store s d))" "\<not> is_assessing (pd_readiness (pool_store s d))"
      "\<not> under_way (pd_readiness (pool_store s d))"
      using live by (cases "pd_readiness (pool_store s d)"; auto simp: under_way_def elim!: stage_of.elims)+
    show "stage_of (pl_phase pl) Offline" if "live_pipe s d p pl" for p pl using that not_under_way [OF Cons.prems stage(3)] by simp
    show "map_of (pool_retries s) t \<noteq> Some (d, md_generation (pool_store s d), m)" for t m
      using retries_okD(2) [OF dev_okD(6) [OF dev]] stage(1) by blast
    show "is_assessing Offline" if "map_of (pool_assessments s) t = Some (d, md_generation (pool_store s d), a)" for t a
      using assessments_okD(2) [OF dev_okD(7) [OF dev] that] stage(2) by blast
  qed simp
  then show ?case using Cons by (simp del: setReadiness_simps)
qed simp

lemma stop_devices_inv: "pool_inv s \<Longrightarrow> \<forall>d\<in>set ds. d < pool_next s \<Longrightarrow> pool_inv (stop_devices ds s)"
  by (induction ds arbitrary: s) (simp_all add: abort_inv clearRetryTimer_inv clearAssessmentTimer_inv)

lemma new_pool_inv: "pool_inv new_pool"
proof -
  have "dev_ok new_pool d" for d
    by (rule dev_okI) (auto simp: new_pool_def blank_device_def live_pipe_def retries_ok_def assessments_ok_def)
  then show ?thesis by (simp add: pool_inv_def ids_ok_def used_def keys_ok_def tracked_def new_pool_def)
qed

lemma pool_step_inv:
  assumes inv: "pool_inv s"
  shows "pool_inv (fst (pool_step auto s e))"
proof (cases e)
  case (Appeared now snap a)
  then show ?thesis by (simp add: appeared_inv [OF inv])
next
  case (Attached snap a)
  then show ?thesis using reattached_inv [OF inv] inv by (simp add: for_device_def split: option.split)
next
  case (Detached snap)
  then show ?thesis using detached_inv [OF inv] inv by (simp add: for_device_def split: option.split)
next
  case (State_Changed snap a)
  then show ?thesis using state_changed_inv [OF inv] inv by (simp add: for_device_def split: option.split)
next
  case (Gone snap)
  then show ?thesis using gone_inv [OF inv] inv by (simp add: for_device_def split: option.split)
next
  case Pool_Stop
  have "\<forall>d\<in>set (map snd (pool_devices s)). d < pool_next s"
    using inv_ids [OF inv] unfolding ids_ok_def used_def by auto
  then have "pool_inv (stop_devices (map snd (pool_devices s)) (s\<lparr>pool_started := False\<rparr>))"
    by (intro stop_devices_inv flags_inv inv) simp
  then show ?thesis using inv flags_inv(2) Pool_Stop by (simp add: stop_pool_def Let_def)
next
  case Stop_Settled
  then show ?thesis using inv flags_inv(3) [OF inv] by (simp add: stop_settled_def)
next
  case (Restart key)
  then show ?thesis using restart_inv [OF inv] inv by (simp split: option.split)
qed (simp_all add: for_pipeline_def inv assessment_timeout_inv retry_timeout_inv provisioned_inv progress_inv connected_inv
  stale_closed_inv close_inv flags_inv split: option.split)

interpretation pool_machine: machine "pool_step auto" "\<lambda>s. s = new_pool" pool_inv for auto
  by unfold_locales (auto simp: new_pool_inv pool_step_inv)

end
