(* ===== verification/Fleet_Pool_Modems.thy ===== *)
theory Fleet_Pool_Modems imports Fleet_Pool_Machine begin

text \<open>
  The pool owns the modems that the pipelines hand over. Every instance is either closed, by the pool or by itself, or it is the
  live modem of a device that the pool still tracks, as long as the events come as the observer and the environment send them.
\<close>

section \<open>The events of a run\<close>

fun runs_pipeline :: "readiness \<Rightarrow> bool" where
  "runs_pipeline Preparing = True"
| "runs_pipeline (Connecting prepared) = True"
| "runs_pipeline Checking = True"
| "runs_pipeline _ = False"

lemma runs_pipeline_under_way: "runs_pipeline r = under_way r"
proof -
  have "under_way r" if "runs_pipeline r"
    using that by (cases r) (auto simp: under_way_def intro: exI [of _ Provisioning] exI [of _ Opening])
  moreover have "runs_pipeline r" if "stage_of phase r" for phase using that by (cases phase) auto
  ultimately show ?thesis by (auto simp: under_way_def)
qed

fun opened_by :: "pool_event \<Rightarrow> nat list" where
  "opened_by (Connected p (Inr (i, report))) = [i]"
| "opened_by _ = []"

fun ended_by :: "pool_event \<Rightarrow> nat list" where
  "ended_by (Modem_Closed i) = [i]"
| "ended_by _ = []"

text \<open>
  What the pool may rely on: the observer reports a device as new once, and as gone when no pipeline works on it; no device
  comes while the pool closes the modems of a stop; a transport reset is asked for a device without a live modem; a modem that is
  handed over is a new one, with a report, and closes once.
\<close>

fun event_ok :: "pool \<Rightarrow> nat list \<Rightarrow> nat list \<Rightarrow> pool_event \<Rightarrow> bool" where
  "event_ok s opened ended (Appeared now snap a) \<longleftrightarrow> pool_stopping s = 0 \<and> tracked s (device_key snap) = None"
| "event_ok s opened ended (Attached snap a) \<longleftrightarrow> pool_stopping s = 0"
| "event_ok s opened ended (Restart key) \<longleftrightarrow>
     pool_stopping s = 0 \<and> (case tracked s key of None \<Rightarrow> True | Some d \<Rightarrow> live_modem (pd_readiness (pool_store s d)) = None)"
| "event_ok s opened ended (Gone snap) \<longleftrightarrow>
     (case tracked s (device_key snap) of None \<Rightarrow> True | Some d \<Rightarrow> \<not> runs_pipeline (pd_readiness (pool_store s d)))"
| "event_ok s opened ended (Connected p (Inr (i, report))) \<longleftrightarrow>
     (case map_of (pool_pipelines s) p of None \<Rightarrow> False | Some pl \<Rightarrow> pl_phase pl = Opening) \<and>
     i \<notin> set opened \<and> i \<notin> set ended \<and> report \<noteq> None"
| "event_ok s opened ended (Modem_Closed i) \<longleftrightarrow> i \<notin> set ended"
| "event_ok s opened ended _ \<longleftrightarrow> True"

fun orderly :: "bool \<Rightarrow> pool \<Rightarrow> nat list \<Rightarrow> nat list \<Rightarrow> pool_event list \<Rightarrow> bool" where
  "orderly auto s opened ended [] = True"
| "orderly auto s opened ended (e # es) =
     (event_ok s opened ended e \<and>
      orderly auto (fst (pool_step auto s e)) (opened_by e @ opened) (ended_by e @ ended) es)"

section \<open>The account of the modems\<close>

definition owned :: "pool \<Rightarrow> nat \<Rightarrow> bool" where
  "owned s d \<longleftrightarrow> d \<in> snd ` set (pool_devices s)"

definition aborted :: "pool \<Rightarrow> nat \<Rightarrow> bool" where
  "aborted s d \<longleftrightarrow> (d, md_abort (pool_store s d)) \<in> set (pool_aborted s)"

definition timeless :: "managed_device \<Rightarrow> bool" where
  "timeless D \<longleftrightarrow> md_retryTimer D = None \<and> md_assessmentTimer D = None"

definition stage :: "pool \<Rightarrow> nat \<Rightarrow> readiness" where
  "stage s d = pd_readiness (pool_store s d)"

definition listens :: "pool \<Rightarrow> nat set \<Rightarrow> nat \<Rightarrow> bool" where
  "listens s ended d \<longleftrightarrow>
     (\<forall>i. (i, d) \<in> set (pool_listening s) \<longrightarrow> i \<in> ended \<or> live_modem (stage s d) = Some i \<and> md_listeners (pool_store s d) = Some i)"

definition harmless :: "pool \<Rightarrow> nat set \<Rightarrow> nat \<Rightarrow> bool" where
  "harmless s closed d \<longleftrightarrow>
     (owned s d \<or> aborted s d \<or> \<not> runs_pipeline (stage s d) \<and> timeless (pool_store s d)) \<and>
     (0 < pool_stopping s \<and> owned s d \<longrightarrow> aborted s d \<or> stage s d = Offline \<and> timeless (pool_store s d)) \<and>
     (0 < pool_stopping s \<and> owned s d \<longrightarrow> (\<forall>i. live_modem (stage s d) = Some i \<longrightarrow> i \<in> closed))"

definition held :: "pool \<Rightarrow> nat \<Rightarrow> bool" where
  "held s i \<longleftrightarrow> (\<exists>d. owned s d \<and> live_modem (stage s d) = Some i)"

definition accounted :: "pool \<Rightarrow> nat set \<Rightarrow> nat set \<Rightarrow> nat set \<Rightarrow> bool" where
  "accounted s opened ended closed \<longleftrightarrow>
     pool_inv s \<and> (\<forall>d. listens s ended d \<and> harmless s closed d) \<and> (\<forall>i\<in>opened. i \<in> closed \<or> i \<in> ended \<or> held s i)"

text \<open>A step on one device leaves what the account says of the others.\<close>

definition elsewhere :: "nat \<Rightarrow> pool \<Rightarrow> pool \<Rightarrow> bool" where
  "elsewhere d s s' \<longleftrightarrow>
     (\<forall>e. e \<noteq> d \<longrightarrow> pool_store s' e = pool_store s e \<and> (\<forall>n. (e, n) \<in> set (pool_aborted s') \<longleftrightarrow> (e, n) \<in> set (pool_aborted s)) \<and>
       (\<forall>i. (i, e) \<in> set (pool_listening s') \<longleftrightarrow> (i, e) \<in> set (pool_listening s)) \<and> (owned s' e \<longleftrightarrow> owned s e)) \<and>
     pool_stopping s' = pool_stopping s"

lemma account_local:
  assumes acc: "accounted s opened ended closed" and other: "elsewhere d s s'" and inv: "pool_inv s'"
    and more: "ended \<subseteq> ended'" "closed \<subseteq> closed'" and here: "listens s' ended' d" "harmless s' closed' d"
    and fate: "\<And>i. owned s d \<Longrightarrow> live_modem (stage s d) = Some i \<Longrightarrow>
      i \<in> closed' \<or> i \<in> ended' \<or> owned s' d \<and> live_modem (stage s' d) = Some i"
    and newly: "\<And>i. i \<in> opened' \<Longrightarrow> i \<in> opened \<or> i \<in> closed' \<or> i \<in> ended' \<or> held s' i"
  shows "accounted s' opened' ended' closed'"
  unfolding accounted_def
proof (intro conjI allI ballI)
  show "listens s' ended' e" for e
  proof (cases "e = d")
    case False
    have "listens s ended e" using acc by (simp add: accounted_def)
    then show ?thesis using False other more(1) unfolding listens_def elsewhere_def stage_def by (metis subsetD)
  qed (use here(1) in simp)
  show "harmless s' closed' e" for e
  proof (cases "e = d")
    case False
    have "harmless s closed e" using acc by (simp add: accounted_def)
    moreover have "pool_store s' e = pool_store s e" "owned s' e = owned s e" "aborted s' e = aborted s e" "stage s' e = stage s e"
      "pool_stopping s' = pool_stopping s"
      using False other by (simp_all add: elsewhere_def stage_def aborted_def)
    ultimately show ?thesis using more(2) unfolding harmless_def by auto
  qed (use here(2) in simp)
  show "i \<in> closed' \<or> i \<in> ended' \<or> held s' i" if "i \<in> opened'" for i
  proof (rule ccontr)
    assume no: "\<not> ?thesis"
    with newly [OF that] have "i \<in> opened" by blast
    with acc no more have "held s i" by (auto simp: accounted_def)
    then obtain e where e: "owned s e" "live_modem (stage s e) = Some i" by (auto simp: held_def)
    show False
    proof (cases "e = d")
      case True
      with e fate no show False by (auto simp: held_def)
    next
      case False
      with e other have "owned s' e" "live_modem (stage s' e) = Some i" by (simp_all add: elsewhere_def stage_def)
      with no show False by (auto simp: held_def)
    qed
  qed
qed (rule inv)

text \<open>Most operations start and stop timers and pipelines of one device only.\<close>

definition steady :: "nat \<Rightarrow> pool \<Rightarrow> pool \<Rightarrow> bool" where
  "steady d s s' \<longleftrightarrow>
     (\<forall>e. e \<noteq> d \<longrightarrow> pool_store s' e = pool_store s e) \<and> pool_listening s' = pool_listening s \<and> pool_aborted s' = pool_aborted s \<and>
     pool_devices s' = pool_devices s \<and> pool_stopping s' = pool_stopping s \<and>
     md_abort (pool_store s' d) = md_abort (pool_store s d) \<and> md_listeners (pool_store s' d) = md_listeners (pool_store s d)"

lemma steady_elsewhere: "steady d s s' \<Longrightarrow> elsewhere d s s'"
  by (simp add: steady_def elsewhere_def owned_def)

lemma steady_trans: "steady d s s' \<Longrightarrow> steady d s' s'' \<Longrightarrow> steady d s s''" and steady_refl [simp]: "steady d s s"
  by (simp_all add: steady_def)

lemma steady_ops:
  "steady d s (clearRetryTimer d s)" "steady d s (clearAssessmentTimer d s)" "steady d s (fst (setReadiness d r s))"
  "steady d s (fst (startPreparing d m s))" "steady d s (start_assessment_timer d a s)" "steady d s (end_pipeline p s)"
  "steady d s (set_phase p pl phase s)" "steady d s (update_device d (pd_session_update (\<lambda>_. snap)) s)"
  "steady d s (update_device d (md_stalled_update (\<lambda>_. b)) s)" "steady d s (update_device d (md_retryCount_update g) s)"
  by (simp_all add: steady_def startPreparing_sel start_assessment_timer_def Let_def)

lemma steady_schedule: "steady d s (scheduleRetry d m s)"
  by (simp add: steady_def scheduleRetry_def Let_def)

lemma steady_evaluate: "steady d s (fst (evaluateAssessment d snap a s))"
  using steady_trans [OF steady_ops(2) steady_ops(4)] steady_ops(2,3)
  by (auto simp: evaluateAssessment_def Let_def simp del: setReadiness_simps split: option.split)

lemma steady_assessment: "steady d s (fst (startAssessment d snap a s))"
proof -
  let ?s1 = "update_device d (md_stalled_update (\<lambda>_. False)) (clearAssessmentTimer d s)"
  let ?s2 = "start_assessment_timer d a (fst (setReadiness d (Assessing a) ?s1))"
  have "steady d s ?s1" by (rule steady_trans [OF steady_ops(2) steady_ops(9)])
  then have "steady d s ?s2" by (rule steady_trans [OF steady_trans [OF _ steady_ops(3)] steady_ops(5)])
  from steady_trans [OF this steady_evaluate] show ?thesis by (simp add: startAssessment_def del: setReadiness_simps)
qed

lemma evaluate_stage:
  "live_modem (stage s d) = None \<Longrightarrow> live_modem (stage (fst (evaluateAssessment d snap a s)) d) = None"
  by (auto simp: evaluateAssessment_def stage_def startPreparing_sel Let_def split: option.split)

lemma assessment_stage: "live_modem (stage (fst (startAssessment d snap a s)) d) = None"
  unfolding startAssessment_def then_do_simps by (rule evaluate_stage) (simp add: stage_def start_assessment_timer_def Let_def)

text \<open>A step that works on the stage of a device that is busy, and has no modem before or after.\<close>

definition busy :: "pool \<Rightarrow> nat \<Rightarrow> bool" where
  "busy s d \<longleftrightarrow> runs_pipeline (stage s d) \<or> \<not> timeless (pool_store s d) \<or> owned s d \<and> stage s d \<noteq> Offline"

lemma account_busy:
  assumes acc: "accounted s opened ended closed" and inv: "pool_inv s'" and steady: "steady d s s'" and "busy s d"
    and live: "live_modem (stage s d) = None" "live_modem (stage s' d) = None"
  shows "accounted s' opened ended closed"
proof (rule account_local [OF acc steady_elsewhere [OF steady] inv order_refl order_refl])
  have old: "listens s ended d" "harmless s closed d" using acc by (simp_all add: accounted_def)
  note same = steady [unfolded steady_def]
  show "listens s' ended d" using old(1) live same by (simp add: listens_def)
  have "aborted s' d = aborted s d" "owned s' d = owned s d" using same by (simp_all add: aborted_def owned_def)
  then show "harmless s' closed d" using old(2) \<open>busy s d\<close> live same unfolding harmless_def busy_def by auto
qed (use live in simp_all)

text \<open>A step that keeps the stage and starts no timer.\<close>

lemma account_same:
  assumes acc: "accounted s opened ended closed" and inv: "pool_inv s'" and steady: "steady d s s'"
    and same: "stage s' d = stage s d" "timeless (pool_store s d) \<Longrightarrow> timeless (pool_store s' d)"
    and closed: "closed \<subseteq> closed'"
  shows "accounted s' opened ended closed'"
proof (rule account_local [OF acc steady_elsewhere [OF steady] inv order_refl closed])
  have old: "listens s ended d" "harmless s closed d" using acc by (simp_all add: accounted_def)
  note now = steady [unfolded steady_def]
  show "listens s' ended d" using old(1) now same by (simp add: listens_def)
  have eq: "aborted s' d = aborted s d" "owned s' d = owned s d" using now by (simp_all add: aborted_def owned_def)
  show "harmless s' closed' d" using old(2) now same closed unfolding harmless_def eq by auto
  show "i \<in> closed' \<or> i \<in> ended \<or> owned s' d \<and> live_modem (stage s' d) = Some i" if "owned s d" "live_modem (stage s d) = Some i" for i
    using that same eq by simp
qed simp

lemma account_mono:
  assumes acc: "accounted s opened ended closed" and "closed \<subseteq> closed'"
  shows "accounted s opened ended closed'"
  by (rule account_same [OF acc _ steady_refl _ _ assms(2)]) (use acc in \<open>simp_all add: accounted_def\<close>)

section \<open>Timers and pipelines\<close>

lemma retry_timeout_account:
  assumes acc: "accounted s opened ended closed"
  shows "accounted (fst (retry_timeout t s)) opened ended closed"
proof (cases "map_of (pool_retries s) t")
  case (Some x)
  have inv: "pool_inv s" using acc by (simp add: accounted_def)
  have inv': "pool_inv (fst (retry_timeout t s))" by (rule retry_timeout_inv [OF inv])
  obtain d g m where timer: "map_of (pool_retries s) t = Some (d, g, m)" using Some by (cases x) auto
  let ?s1 = "clearRetryTimer d s"
  let ?s2 = "fst (startPreparing d m (update_device d (md_retryCount_update Suc) ?s1))"
  have step: "fst (retry_timeout t s) = ?s1 \<or> is_error (stage s d) \<and> fst (retry_timeout t s) = ?s2"
    using timer by (auto simp: retry_timeout_def retry_timeout_clear [OF inv timer] Let_def stage_def)
  from step show ?thesis
  proof
    assume eq: "fst (retry_timeout t s) = ?s1"
    show ?thesis
      by (rule account_same [OF acc inv' _ _ _ order_refl, where d = d]) (simp_all add: eq steady_ops stage_def timeless_def)
  next
    assume eq: "is_error (stage s d) \<and> fst (retry_timeout t s) = ?s2"
    have timer': "md_retryTimer (pool_store s d) = Some t"
      using retries_okD(1) [OF dev_okD(6) [OF inv_dev [OF inv]] timer] by blast
    show ?thesis
    proof (rule account_busy [OF acc inv', where d = d])
      show "steady d s (fst (retry_timeout t s))"
        using eq steady_trans [OF steady_trans [OF steady_ops(1) steady_ops(10)] steady_ops(4)] by simp
      show "live_modem (stage s d) = None" using eq by (cases "stage s d") simp_all
    qed (use eq timer' in \<open>simp_all add: busy_def timeless_def stage_def startPreparing_sel\<close>)
  qed
qed (use acc in \<open>simp add: retry_timeout_def\<close>)

lemma assessment_timeout_account:
  assumes acc: "accounted s opened ended closed"
  shows "accounted (fst (assessment_timeout t s)) opened ended closed"
proof (cases "map_of (pool_assessments s) t")
  case (Some x)
  have inv: "pool_inv s" using acc by (simp add: accounted_def)
  have inv': "pool_inv (fst (assessment_timeout t s))" by (rule assessment_timeout_inv [OF inv])
  obtain d g a where timer: "map_of (pool_assessments s) t = Some (d, g, a)" using Some by (cases x) auto
  let ?s1 = "clearAssessmentTimer d s"
  let ?s2 = "fst (setReadiness d (Stage_Error (js ''Device stuck in critical state: '' @ an_description a) True)
    (update_device d (md_stalled_update (\<lambda>_. True)) ?s1))"
  have step: "fst (assessment_timeout t s) = ?s1 \<or> is_assessing (stage s d) \<and> fst (assessment_timeout t s) = ?s2"
    using timer by (auto simp: assessment_timeout_def assessment_timeout_clear [OF inv timer] Let_def stage_def simp del: setReadiness_simps)
  from step show ?thesis
  proof
    assume eq: "fst (assessment_timeout t s) = ?s1"
    show ?thesis
      by (rule account_same [OF acc inv' _ _ _ order_refl, where d = d]) (simp_all add: eq steady_ops stage_def timeless_def)
  next
    assume eq: "is_assessing (stage s d) \<and> fst (assessment_timeout t s) = ?s2"
    have timer': "md_assessmentTimer (pool_store s d) = Some t"
      using assessments_okD(1) [OF dev_okD(7) [OF inv_dev [OF inv]] timer] by blast
    show ?thesis
    proof (rule account_busy [OF acc inv', where d = d])
      show "steady d s (fst (assessment_timeout t s))"
        using eq steady_trans [OF steady_trans [OF steady_ops(2) steady_ops(9)] steady_ops(3)] by simp
      show "live_modem (stage s d) = None" using eq by (cases "stage s d") simp_all
    qed (use eq timer' in \<open>simp_all add: busy_def timeless_def stage_def\<close>)
  qed
qed (use acc in \<open>simp add: assessment_timeout_def\<close>)

lemma fresh_busy:
  assumes "pool_inv s" and "map_of (pool_pipelines s) p = Some pl" and "\<not> stale s pl"
  shows "runs_pipeline (stage s (pl_device pl))" and "live_modem (stage s (pl_device pl)) = None"
  using fresh_pipeline(2,6) [OF assms] by (auto simp: stage_def runs_pipeline_under_way under_way_def)

lemma end_pipeline_account: "accounted s opened ended closed \<Longrightarrow> accounted (end_pipeline p s) opened ended closed"
  by (rule account_same [OF _ _ steady_ops(6) [where d = 0], of _ _ _ closed])
    (simp_all add: stage_def timeless_def end_pipeline_inv accounted_def [of s])

lemma pipeline_failed_account:
  assumes acc: "accounted s opened ended closed" and pl: "map_of (pool_pipelines s) p = Some pl"
  shows "accounted (fst (pipeline_failed p pl err s)) opened ended closed"
proof -
  have inv: "pool_inv s" using acc by (simp add: accounted_def)
  have inv': "pool_inv (fst (pipeline_failed p pl err s))" by (rule pipeline_failed_inv [OF inv pl])
  let ?d = "pl_device pl" and ?s1 = "end_pipeline p s"
  show ?thesis
  proof (cases "stale s pl")
    case True
    then have "fst (pipeline_failed p pl err s) = ?s1" by (simp add: pipeline_failed_def end_pipeline_def stale_def)
    then show ?thesis using end_pipeline_account [OF acc] by simp
  next
    case False
    define s2 where "s2 = fst (setReadiness ?d (Stage_Error err (md_retryCount (pool_store s ?d) < MAX_ERROR_RETRIES)) ?s1)"
    have step: "fst (pipeline_failed p pl err s) = s2 \<or> fst (pipeline_failed p pl err s) = scheduleRetry ?d (pl_modem pl) s2"
      using False by (auto simp: pipeline_failed_def end_pipeline_def stale_def s2_def Let_def)
    have s2: "steady ?d s s2" unfolding s2_def by (rule steady_trans [OF steady_ops(6) steady_ops(3)])
    show ?thesis
    proof (rule account_busy [OF acc inv', where d = ?d])
      show "steady ?d s (fst (pipeline_failed p pl err s))" using step s2 steady_trans [OF s2 steady_schedule] by auto
      show "live_modem (stage (fst (pipeline_failed p pl err s)) ?d) = None"
        using step by (auto simp: s2_def stage_def scheduleRetry_def Let_def)
    qed (use fresh_busy [OF inv pl False] in \<open>simp_all add: busy_def\<close>)
  qed
qed

lemma provisioned_account:
  assumes acc: "accounted s opened ended closed" and pl: "map_of (pool_pipelines s) p = Some pl"
  shows "accounted (fst (provisioned p pl result s)) opened ended closed"
proof (cases "\<exists>prepared. result = Inr prepared \<and> \<not> stale s pl")
  case True
  then obtain prepared where result: "result = Inr prepared" and fresh: "\<not> stale s pl" by blast
  have inv: "pool_inv s" using acc by (simp add: accounted_def)
  have step: "fst (provisioned p pl result s) = set_phase p pl Opening (fst (setReadiness (pl_device pl) (Connecting prepared) s))"
    using fresh by (simp add: provisioned_def result)
  show ?thesis
  proof (rule account_busy [OF acc provisioned_inv [OF inv pl], where d = "pl_device pl"])
    show "steady (pl_device pl) s (fst (provisioned p pl result s))"
      unfolding step by (rule steady_trans [OF steady_ops(3) steady_ops(7)])
  qed (use fresh_busy [OF inv pl fresh] in \<open>simp_all add: step busy_def stage_def\<close>)
next
  case False
  then show ?thesis using pipeline_failed_account [OF acc pl] end_pipeline_account [OF acc, of p]
    by (auto simp: provisioned_def end_pipeline_def split: sum.split)
qed

lemma progress_account:
  assumes acc: "accounted s opened ended closed" and pl: "map_of (pool_pipelines s) p = Some pl" and waits: "pl_phase pl = Opening"
  shows "accounted (fst (progress pl phase s)) opened ended closed"
proof (cases "\<not> stale s pl \<and> phase = js ''checking''")
  case True
  have inv: "pool_inv s" using acc by (simp add: accounted_def)
  have step: "fst (progress pl phase s) = fst (setReadiness (pl_device pl) Checking s)" using True by (simp add: progress_def)
  show ?thesis
  proof (rule account_busy [OF acc progress_inv [OF inv pl waits], where d = "pl_device pl"])
    show "steady (pl_device pl) s (fst (progress pl phase s))" unfolding step by (rule steady_ops(3))
  qed (use fresh_busy [OF inv pl conjunct1 [OF True]] in \<open>simp_all add: step busy_def stage_def\<close>)
qed (use acc in \<open>auto simp: progress_def\<close>)

lemma stale_closed_account:
  assumes "accounted s opened ended closed" and "map_of (pool_pipelines s) p = Some pl"
  shows "accounted (fst (stale_closed p pl err s)) opened ended closed"
  using pipeline_failed_account [OF assms] end_pipeline_account [OF assms(1), of p]
  by (cases err) (simp_all add: stale_closed_def end_pipeline_def)

text \<open>The instance that a pipeline hands over.\<close>

lemma connected_account:
  assumes acc: "accounted s opened ended closed" and pl: "map_of (pool_pipelines s) p = Some pl"
    and new: "i \<notin> ended"
  shows "accounted (fst (connected p pl (Inr (i, Some verdict)) s)) (insert i opened) ended
    (closed \<union> {j. Close_Modem j \<in> set (snd (connected p pl (Inr (i, Some verdict)) s))})"
proof -
  let ?d = "pl_device pl" and ?s' = "fst (connected p pl (Inr (i, Some verdict)) s)"
  have inv: "pool_inv s" using acc by (simp add: accounted_def)
  have inv': "pool_inv ?s'" by (rule connected_inv [OF inv pl])
  show ?thesis
  proof (cases "stale s pl")
    case True
    then have step: "?s' = set_phase p pl (Closing i) s" "snd (connected p pl (Inr (i, Some verdict)) s) = [Close_Modem i]"
      by (simp_all add: connected_def)
    have "accounted (set_phase p pl (Closing i) s) opened ended (insert i closed)"
      by (rule account_same [OF acc _ steady_ops(7) [where d = ?d]]) (use inv' in \<open>auto simp: step(1) stage_def\<close>)
    then show ?thesis unfolding step by (auto simp: accounted_def)
  next
    case False
    let ?r = "if verdict = Verdict_Degraded then Degraded i verdict else Ready i verdict"
    have step: "?s' = end_pipeline p (fst (setReadiness ?d ?r (wireModem ?d i s)))"
      using False by (simp add: connected_def end_pipeline_def Let_def)
    have parts: "pool_store ?s' = (pool_store s)(?d := (pool_store s ?d)\<lparr>md_listeners := Some i, pd_readiness := ?r\<rparr>)"
      "pool_listening ?s' = pool_listening s @ [(i, ?d)]" "pool_devices ?s' = pool_devices s" "pool_aborted ?s' = pool_aborted s"
      "pool_stopping ?s' = pool_stopping s"
      by (simp_all add: step)
    have old: "listens s ended ?d" "harmless s closed ?d" using acc by (simp_all add: accounted_def)
    note busy = fresh_busy [OF inv pl False]
    have live: "\<not> aborted s ?d"
      using False dev_okD(3) [OF inv_dev [OF inv] pl] dev_okD(1) [OF inv_dev [OF inv], of ?d]
      by (auto simp: aborted_def stale_def)
    then have here: "owned s ?d" "pool_stopping s = 0" using old(2) busy by (auto simp: harmless_def)
    have held: "held ?s' i" unfolding held_def
      by (rule exI [of _ ?d]) (use here(1) in \<open>simp add: owned_def stage_def parts\<close>)
    show ?thesis
    proof (rule account_local [OF acc _ inv' order_refl, where d = ?d])
      show "elsewhere ?d s ?s'" by (auto simp: elsewhere_def owned_def parts)
      show "listens ?s' ended ?d" using old(1) busy(2) by (auto simp: listens_def stage_def parts)
      show "harmless ?s' (closed \<union> {j. Close_Modem j \<in> set (snd (connected p pl (Inr (i, Some verdict)) s))}) ?d"
        using here by (simp add: harmless_def owned_def parts)
    qed (use busy(2) held in auto)
  qed
qed

section \<open>Devices\<close>

abbreviation closes :: "pool_output list \<Rightarrow> nat set" where
  "closes out \<equiv> {i. Close_Modem i \<in> set out}"

lemma set_map_set_new: "map_of m k = None \<Longrightarrow> set (map_set k v m) = insert (k, v) (set m)"
  by (induction k v m rule: map_set.induct) (auto split: if_splits)

lemma owned_tracked: "tracked s k = Some d \<Longrightarrow> owned s d"
  unfolding tracked_def owned_def by (drule map_of_SomeD) force

lemma appeared_account:
  assumes acc: "accounted s opened ended closed" and calm: "pool_stopping s = 0" and new: "tracked s (device_key snap) = None"
  shows "accounted (fst (onDeviceAppeared auto now snap a s)) opened ended closed"
proof -
  let ?d = "pool_next s" and ?s' = "fst (onDeviceAppeared auto now snap a s)"
  define D where "D = \<lparr>pd_vendorId = snap_vendorId snap, pd_name = snap_vendorName snap, pd_readiness = Detected, pd_session = snap,
    pd_firstSeenAt = now, md_abort = 0, md_generation = 0, md_listeners = None, md_retryTimer = None, md_assessmentTimer = None,
    md_stalled = False, md_retryCount = 0\<rparr>"
  define s1 where "s1 = s\<lparr>pool_store := (pool_store s)(?d := D), pool_devices := map_set (device_key snap) ?d (pool_devices s),
    pool_next := Suc ?d\<rparr>"
  have inv: "pool_inv s" using acc by (simp add: accounted_def)
  note fresh = fresh_id [OF inv_ids [OF inv] order_refl]
  have "?s' = (if auto then fst (startAssessment ?d snap a s1) else s1)" by (simp add: onDeviceAppeared_def s1_def D_def Let_def)
  then have steady: "steady ?d s1 ?s'" using steady_assessment by simp
  have devices: "set (pool_devices s1) = insert (device_key snap, ?d) (set (pool_devices s))"
    using new by (simp add: s1_def set_map_set_new tracked_def)
  show ?thesis
  proof (rule account_local [OF acc _ appeared_inv [OF inv] order_refl order_refl, where d = ?d])
    show "elsewhere ?d s ?s'" using steady devices by (simp add: elsewhere_def owned_def steady_def s1_def)
    show "listens ?s' ended ?d" using steady fresh(5) by (simp add: listens_def steady_def s1_def)
    show "harmless ?s' closed ?d" using steady devices calm by (simp add: harmless_def owned_def steady_def s1_def)
    show "i \<in> closed \<or> i \<in> ended \<or> owned ?s' ?d \<and> live_modem (stage ?s' ?d) = Some i" if "owned s ?d" for i
      using that fresh(4) by (force simp: owned_def)
  qed simp
qed

lemma reattached_account:
  assumes acc: "accounted s opened ended closed" and calm: "pool_stopping s = 0" and key: "tracked s (device_key snap) = Some d"
  shows "accounted (fst (onDeviceReattached auto snap a d s)) opened ended closed"
proof -
  let ?s' = "fst (onDeviceReattached auto snap a d s)"
  have inv: "pool_inv s" using acc by (simp add: accounted_def)
  have inv': "pool_inv ?s'" by (rule reattached_inv [OF inv key])
  let ?s1 = "update_device d (pd_session_update (\<lambda>_. snap)) s"
  show ?thesis
  proof (cases "stage s d = Offline")
    case True
    define s2 where "s2 = fst (setReadiness d Detected (update_device d (md_retryCount_update (\<lambda>_. 0)) (renew d ?s1)))"
    have "?s' = (if auto then fst (startAssessment d snap a s2) else s2)"
      using True by (simp add: onDeviceReattached_def Let_def s2_def renew_def stage_def del: setReadiness_simps)
    then have steady: "steady d s2 ?s'" using steady_assessment by simp
    have live: "live_modem (stage s d) = None" using True by simp
    have old: "listens s ended d" using acc by (simp add: accounted_def)
    show ?thesis
    proof (rule account_local [OF acc _ inv' order_refl order_refl, where d = d])
      show "elsewhere d s ?s'" using steady by (simp add: elsewhere_def owned_def steady_def s2_def)
      show "listens ?s' ended d" using steady live old by (auto simp: listens_def steady_def s2_def)
      show "harmless ?s' closed d" using steady calm owned_tracked [OF key] by (simp add: harmless_def owned_def steady_def s2_def)
    qed (use live in simp_all)
  next
    case False
    then have "?s' = ?s1" by (simp add: onDeviceReattached_def Let_def stage_def)
    then show ?thesis using account_same [OF acc inv' _ _ _ order_refl, where d = d] steady_ops(8) [of d s snap]
      by (simp add: stage_def timeless_def)
  qed
qed

lemma unwired:
  assumes "listens s ended d" and "(i, d) \<in> set (pool_listening (unwireModem d s))"
  shows "i \<in> ended"
  using assms by (auto simp: listens_def split: option.splits)

lemma close_live_closes: "live_modem r = Some i \<Longrightarrow> Close_Modem i \<in> set (close_live r)"
  by (simp add: close_live_def)

lemma detached_account:
  assumes acc: "accounted s opened ended closed" and key: "tracked s (device_key snap) = Some d"
  shows "accounted (fst (onDeviceDetached snap d s)) opened ended (closed \<union> closes (snd (onDeviceDetached snap d s)))"
proof -
  let ?s' = "fst (onDeviceDetached snap d s)" and ?out = "snd (onDeviceDetached snap d s)"
  have inv: "pool_inv s" using acc by (simp add: accounted_def)
  define s1 where "s1 = clearAssessmentTimer d (clearRetryTimer d (renew d (abort_device d (update_device d (pd_session_update (\<lambda>_. snap)) s))))"
  have step: "?s' = fst (setReadiness d Offline (update_device d (md_retryCount_update (\<lambda>_. 0)) (unwireModem d s1)))"
    "Close_Modem i \<in> set ?out \<longleftrightarrow> live_modem (stage s d) = Some i" for i
    by (auto simp: onDeviceDetached_def Let_def s1_def renew_def stage_def next_generation_def new_abort_def close_live_def split: option.split)
  have listens1: "listens s1 ended d" using acc by (simp add: accounted_def listens_def s1_def stage_def)
  show ?thesis
  proof (rule account_local [OF acc _ detached_inv [OF inv key] order_refl, where d = d])
    show "elsewhere d s ?s'" by (auto simp: step(1) s1_def elsewhere_def owned_def split: option.split)
    show "listens ?s' ended d" using unwired [OF listens1] by (auto simp: listens_def step(1) simp del: unwireModem_simps(10))
    show "harmless ?s' (closed \<union> closes ?out) d"
      using owned_tracked [OF key] by (simp add: harmless_def owned_def timeless_def stage_def step(1) s1_def)
  qed (use step(2) in auto)
qed

lemma state_changed_account:
  assumes acc: "accounted s opened ended closed" and key: "tracked s (device_key snap) = Some d"
  shows "accounted (fst (onStateChanged snap a d s)) opened ended closed"
proof -
  let ?s' = "fst (onStateChanged snap a d s)" and ?s1 = "update_device d (pd_session_update (\<lambda>_. snap)) s"
  let ?s2 = "update_device d (md_stalled_update (\<lambda>_. False)) ?s1"
  have inv: "pool_inv s" using acc by (simp add: accounted_def)
  have inv': "pool_inv ?s'" by (rule state_changed_inv [OF inv key])
  have step: "?s' = ?s1 \<or> is_assessing (stage s d) \<and> ?s' = fst (evaluateAssessment d snap a ?s1) \<or>
      is_recoverable (stage s d) \<and> ?s' = fst (evaluateAssessment d snap a ?s2)"
    by (simp add: onStateChanged_def Let_def stage_def)
  have run: "accounted ?s' opened ended closed" if "live_modem (stage s d) = None" "stage s d \<noteq> Offline"
    "steady d s s0" "stage s0 d = stage s d" "?s' = fst (evaluateAssessment d snap a s0)" for s0
  proof (rule account_busy [OF acc inv', where d = d])
    show "steady d s ?s'" unfolding that(5) by (rule steady_trans [OF that(3) steady_evaluate])
    show "live_modem (stage ?s' d) = None" unfolding that(5) by (rule evaluate_stage) (simp add: that)
  qed (use that owned_tracked [OF key] in \<open>simp_all add: busy_def\<close>)
  from step consider "?s' = ?s1" | "is_assessing (stage s d)" "?s' = fst (evaluateAssessment d snap a ?s1)"
    | "is_recoverable (stage s d)" "?s' = fst (evaluateAssessment d snap a ?s2)" by blast
  then show ?thesis
  proof cases
    case 1
    then show ?thesis using account_same [OF acc inv' _ _ _ order_refl, where d = d] steady_ops(8) [of d s snap]
      by (simp add: stage_def timeless_def)
  next
    case 2
    then show ?thesis by (intro run [of ?s1]) (auto simp: steady_ops stage_def elim: is_assessing.elims)
  next
    case 3
    then show ?thesis
      by (intro run [of ?s2] steady_trans [OF steady_ops(8) steady_ops(9)]) (auto simp: stage_def elim: is_recoverable.elims)
  qed
qed

lemma gone_account:
  assumes acc: "accounted s opened ended closed" and key: "tracked s key = Some d" and calm: "\<not> runs_pipeline (stage s d)"
  shows "accounted (fst (onDeviceGone key d s)) opened ended (closed \<union> closes (snd (onDeviceGone key d s)))"
proof -
  let ?s' = "fst (onDeviceGone key d s)" and ?out = "snd (onDeviceGone key d s)"
  have inv: "pool_inv s" using acc by (simp add: accounted_def)
  define s1 where "s1 = clearAssessmentTimer d (clearRetryTimer d s)"
  have step: "?s' = (unwireModem d s1)\<lparr>pool_devices := map_delete key (pool_devices s)\<rparr>"
    "Close_Modem i \<in> set ?out \<longleftrightarrow> live_modem (stage s d) = Some i" for i
    by (auto simp: onDeviceGone_def Let_def s1_def stage_def close_live_def split: option.split)
  have parts: "pool_store ?s' d = (pool_store s d)\<lparr>md_retryTimer := None, md_assessmentTimer := None, md_listeners := None\<rparr>"
    "pool_stopping ?s' = pool_stopping s"
    by (simp_all add: step(1) s1_def)
  have listens1: "listens s1 ended d" using acc by (simp add: accounted_def listens_def s1_def stage_def)
  have keys: "keys_ok s" by (rule inv_keys [OF inv])
  have unique: "(k, e) \<in> set (pool_devices s) \<Longrightarrow> tracked s k = Some e" for k e
    using keys by (simp add: keys_ok_def tracked_def)
  have only: "(k, e) \<in> set (pool_devices ?s') \<longleftrightarrow> (k, e) \<in> set (pool_devices s) \<and> k \<noteq> key" for k e
    by (auto simp: step(1) map_delete_def)
  have mine: "k = key" if "(k, d) \<in> set (pool_devices s)" for k
    using keys unique [OF that] key unfolding keys_ok_def by metis
  have gone: "\<not> owned ?s' d" using mine by (force simp: owned_def only)
  have others: "owned ?s' e \<longleftrightarrow> owned s e" if "e \<noteq> d" for e
    using that only unique key by (force simp: owned_def)
  show ?thesis
  proof (rule account_local [OF acc _ gone_inv [OF inv] order_refl, where d = d])
    have "(\<forall>e. e \<noteq> d \<longrightarrow> owned ?s' e \<longleftrightarrow> owned s e)" using others by blast
    then show "elsewhere d s ?s'"
      by (auto simp: elsewhere_def step(1) s1_def split: option.split)
    show "listens ?s' ended d" using unwired [OF listens1] by (auto simp: listens_def step(1) simp del: unwireModem_simps(10))
    show "harmless ?s' (closed \<union> closes ?out) d"
      using gone calm by (simp add: harmless_def timeless_def stage_def parts)
  qed (use step(2) in auto)
qed

lemma restart_account:
  assumes acc: "accounted s opened ended closed" and key: "tracked s key = Some d" and calm: "pool_stopping s = 0"
    and live: "live_modem (stage s d) = None"
  shows "accounted (fst (restartDevice auto d s)) opened ended closed"
proof -
  let ?s' = "fst (restartDevice auto d s)"
  have inv: "pool_inv s" using acc by (simp add: accounted_def)
  define s1 where "s1 = clearRetryTimer d (renew d (abort_device d s))"
  define s2 where "s2 = fst (setReadiness d Detected (update_device d (md_retryCount_update (\<lambda>_. 0)) (unwireModem d s1)))"
  have "?s' = (if auto then fst (startAssessment d (pd_session (pool_store s2 d)) neutral_analysis s2) else s2)"
    by (simp add: restartDevice_def Let_def s2_def s1_def renew_def)
  then have steady: "steady d s2 ?s'" using steady_assessment by simp
  have listens1: "listens s1 ended d" using acc by (simp add: accounted_def listens_def s1_def stage_def)
  show ?thesis
  proof (rule account_local [OF acc _ restart_inv [OF inv key] order_refl order_refl, where d = d])
    have "elsewhere d s s2" by (auto simp: elsewhere_def owned_def s2_def s1_def split: option.split)
    then show "elsewhere d s ?s'" using steady by (simp add: elsewhere_def owned_def steady_def)
    have "\<And>i. (i, d) \<in> set (pool_listening s2) \<Longrightarrow> i \<in> ended"
      using unwired [OF listens1] by (auto simp: s2_def simp del: unwireModem_simps(10))
    then show "listens ?s' ended d" using steady by (simp add: listens_def steady_def)
    show "harmless ?s' closed d" using steady calm owned_tracked [OF key] by (simp add: harmless_def owned_def steady_def s2_def s1_def)
  qed (use live in simp_all)
qed

section \<open>The pool\<close>

lemma on_close_account:
  assumes "accounted s opened ended closed" and "i \<in> ended" and "\<forall>d\<in>set ds. live_modem (stage s d) \<in> {None, Some i}"
  shows "accounted (fst (on_close ds s)) opened ended closed"
  using assms
proof (induction ds arbitrary: s)
  case (Cons d ds)
  let ?s = "fst (setReadiness d Offline s)"
  have "accounted ?s opened ended closed" if "live_modem (stage s d) = Some i"
  proof (rule account_local [OF Cons.prems(1) _ _ order_refl order_refl, where d = d])
    have inv: "pool_inv s" using Cons.prems(1) by (simp add: accounted_def)
    have "pool_inv (fst (on_close [d] s))" by (rule close_inv [OF inv])
    then show "pool_inv ?s" using that by (simp add: stage_def)
    have old: "listens s ended d" "harmless s closed d" using Cons.prems(1) by (simp_all add: accounted_def)
    show "elsewhere d s ?s" by (simp add: elsewhere_def owned_def)
    show "listens ?s ended d" using old(1) that Cons.prems(2) by (auto simp: listens_def)
    have "aborted ?s d = aborted s d" "owned ?s d = owned s d" by (simp_all add: aborted_def owned_def)
    moreover have "timeless (pool_store ?s d) = timeless (pool_store s d)" "stage ?s d = Offline" by (simp_all add: timeless_def stage_def)
    ultimately show "harmless ?s closed d"
      using old(2) that unfolding harmless_def by auto
    show "j \<in> closed \<or> j \<in> ended \<or> owned ?s d \<and> live_modem (stage ?s d) = Some j" if "live_modem (stage s d) = Some j" for j
      using that \<open>live_modem (stage s d) = Some i\<close> Cons.prems(2) by simp
  qed simp
  moreover have "\<forall>e\<in>set ds. live_modem (stage ?s e) \<in> {None, Some i}"
    using Cons.prems(3) by (simp add: stage_def)
  ultimately have "live_modem (stage s d) = Some i \<Longrightarrow> accounted (fst (on_close ds ?s)) opened ended closed"
    using Cons.IH [of ?s] Cons.prems(2) by blast
  moreover have "live_modem (stage s d) = None \<Longrightarrow> accounted (fst (on_close ds s)) opened ended closed"
    using Cons.IH [of s] Cons.prems by simp
  ultimately show ?case using Cons.prems(3) by (auto simp: stage_def simp del: setReadiness_simps)
qed simp

lemma closed_account:
  assumes acc: "accounted s opened ended closed" and new: "i \<notin> ended"
  shows "accounted (fst (pool_step auto s (Modem_Closed i))) opened (insert i ended) closed"
proof -
  let ?ds = "map snd (filter (\<lambda>l. fst l = i) (pool_listening s))"
  have more: "accounted s opened (insert i ended) closed"
    using acc by (auto simp: accounted_def listens_def)
  have "live_modem (stage s d) = Some i" if "(i, d) \<in> set (pool_listening s)" for d
    using that acc new by (auto simp: accounted_def listens_def)
  then have ds: "\<forall>d\<in>set ?ds. live_modem (stage s d) \<in> {None, Some i}" by auto
  from on_close_account [OF more insertI1 ds] show ?thesis by simp
qed

lemma stop_devices_same:
  "stage (stop_devices ds s) d = stage s d \<and> md_abort (pool_store (stop_devices ds s) d) = md_abort (pool_store s d) \<and>
   md_listeners (pool_store (stop_devices ds s) d) = md_listeners (pool_store s d) \<and>
   pool_listening (stop_devices ds s) = pool_listening s \<and> pool_devices (stop_devices ds s) = pool_devices s \<and>
   (timeless (pool_store s d) \<longrightarrow> timeless (pool_store (stop_devices ds s) d)) \<and>
   set (pool_aborted s) \<subseteq> set (pool_aborted (stop_devices ds s)) \<and> pool_stopping (stop_devices ds s) = pool_stopping s"
proof (induction ds arbitrary: s)
  case (Cons e ds)
  show ?case using Cons [of "clearAssessmentTimer e (clearRetryTimer e (abort_device e s))"] by (auto simp: stage_def timeless_def)
qed simp

lemma stop_devices_aborted: "d \<in> set ds \<Longrightarrow> aborted (stop_devices ds s) d"
proof (induction ds arbitrary: s)
  case (Cons e ds)
  let ?s = "clearAssessmentTimer e (clearRetryTimer e (abort_device e s))"
  have "aborted (stop_devices ds ?s) d" if "d = e"
  proof -
    have "aborted ?s d" using that by (simp add: aborted_def)
    then show ?thesis using stop_devices_same [of ds ?s d] by (auto simp: aborted_def)
  qed
  then show ?case using Cons by auto
qed simp

lemma stop_account:
  assumes acc: "accounted s opened ended closed"
  shows "accounted (fst (stop_pool s)) opened ended (closed \<union> closes (snd (stop_pool s)))"
proof (cases "pool_started s")
  case True
  let ?ds = "map snd (pool_devices s)" and ?s' = "fst (stop_pool s)" and ?out = "snd (stop_pool s)"
  have inv: "pool_inv ?s'" using pool_step_inv [of s True Pool_Stop] acc by (simp add: accounted_def)
  let ?s0 = "s\<lparr>pool_started := False\<rparr>"
  have step: "?s' = (stop_devices ?ds ?s0)\<lparr>pool_stopping := Suc (pool_stopping s)\<rparr>"
    using True stop_devices_same [of ?ds ?s0] by (simp add: stop_pool_def Let_def)
  have parts: "stage ?s' d = stage s d" "md_listeners (pool_store ?s' d) = md_listeners (pool_store s d)" "owned ?s' d = owned s d"
    "pool_listening ?s' = pool_listening s" "timeless (pool_store s d) \<Longrightarrow> timeless (pool_store ?s' d)"
    "aborted s d \<or> owned s d \<Longrightarrow> aborted ?s' d" for d
  proof -
    note effect = stop_devices_same [of ?ds ?s0 d]
    show "stage ?s' d = stage s d" "md_listeners (pool_store ?s' d) = md_listeners (pool_store s d)" "pool_listening ?s' = pool_listening s"
      "owned ?s' d = owned s d" "timeless (pool_store s d) \<Longrightarrow> timeless (pool_store ?s' d)"
      using effect by (simp_all add: step stage_def owned_def)
    show "aborted s d \<or> owned s d \<Longrightarrow> aborted ?s' d"
      using effect stop_devices_aborted [of d ?ds ?s0] by (auto simp: aborted_def owned_def step)
  qed
  have out: "Close_Modem i \<in> set ?out" if owner: "owned s d" and live: "live_modem (stage s d) = Some i" for d i
  proof -
    obtain key where "(key, d) \<in> set (pool_devices s)" using owner by (force simp: owned_def)
    then show ?thesis
      using True live stop_devices_same [of ?ds ?s0]
      by (auto simp: stop_pool_def Let_def stage_def close_live_def intro!: bexI [of _ "(key, d)"])
  qed
  have old: "listens s ended d" "harmless s closed d" for d using acc by (simp_all add: accounted_def)
  show ?thesis
    unfolding accounted_def
  proof (intro conjI allI ballI inv)
    show "listens ?s' ended d" for d using old(1) by (simp add: listens_def parts)
    show "harmless ?s' (closed \<union> closes ?out) d" for d
      using old(2) [of d] parts(5,6) [of d] out [of d] unfolding harmless_def parts(1,3) by auto
    show "i \<in> closed \<union> closes ?out \<or> i \<in> ended \<or> held ?s' i" if "i \<in> opened" for i
      using that acc by (auto simp: accounted_def held_def parts(1,3))
  qed
qed (use acc account_mono in \<open>auto simp: stop_pool_def\<close>)

lemma settled_account:
  assumes acc: "accounted s opened ended closed"
  shows "accounted (fst (stop_settled s)) opened ended closed"
proof (cases "pool_stopping s = 0")
  case False
  let ?s' = "fst (stop_settled s)"
  have inv: "pool_inv ?s'" using pool_step_inv [of s True Stop_Settled] acc by (simp add: accounted_def)
  have step: "?s' = s\<lparr>pool_devices := [], pool_stopping := pool_stopping s - 1\<rparr>" using False by (simp add: stop_settled_def)
  have none: "\<not> owned ?s' d" for d by (simp add: owned_def step)
  have parts: "stage ?s' d = stage s d" "aborted ?s' d = aborted s d" "pool_store ?s' = pool_store s" "pool_listening ?s' = pool_listening s" for d
    by (simp_all add: stage_def aborted_def step)
  have old: "listens s ended d" "harmless s closed d" for d using acc by (simp_all add: accounted_def)
  show ?thesis
    unfolding accounted_def
  proof (intro conjI allI ballI inv)
    show "listens ?s' ended d" for d using old(1) by (simp add: listens_def parts)
    show "harmless ?s' closed d" for d using old(2) [of d] False none unfolding harmless_def parts by auto
    show "i \<in> closed \<or> i \<in> ended \<or> held ?s' i" if "i \<in> opened" for i
      using that acc old(2) False by (auto simp: accounted_def held_def harmless_def)
  qed
qed (use acc in \<open>simp add: stop_settled_def\<close>)

lemma step_account:
  assumes acc: "accounted s (set opened) (set ended) closed" and ok: "event_ok s opened ended e"
  shows "accounted (fst (pool_step auto s e)) (set (opened_by e @ opened)) (set (ended_by e @ ended)) (closed \<union> closes (snd (pool_step auto s e)))"
    (is "accounted ?s' _ _ (closed \<union> ?closes)")
proof -
  have grow: "accounted ?s' o' e' (closed \<union> ?closes)" if "accounted ?s' o' e' closed" for o' e'
    using account_mono [OF that] by simp
  note more = account_mono [OF acc, of "closed \<union> ?closes"]
  show ?thesis
  proof (cases e)
    case (Appeared now snap a)
    then show ?thesis using grow appeared_account [OF acc] ok by simp
  next
    case (Attached snap a)
    then show ?thesis using grow more reattached_account [OF acc] ok by (auto simp: for_device_def split: option.split)
  next
    case (Detached snap)
    then show ?thesis using more detached_account [OF acc] by (auto simp: for_device_def split: option.split)
  next
    case (State_Changed snap a)
    then show ?thesis using grow more state_changed_account [OF acc] by (auto simp: for_device_def split: option.split)
  next
    case (Gone snap)
    then show ?thesis using more gone_account [OF acc] ok by (auto simp: for_device_def stage_def split: option.splits)
  next
    case (Provisioned p result)
    then show ?thesis using grow more provisioned_account [OF acc] by (auto simp: for_pipeline_def split: option.split)
  next
    case (Progress p phase)
    then show ?thesis using grow more progress_account [OF acc] by (auto simp: for_pipeline_def split: option.split)
  next
    case (Connected p result)
    show ?thesis
    proof (cases result)
      case (Inl err)
      then show ?thesis using Connected grow more pipeline_failed_account [OF acc]
        by (auto simp: for_pipeline_def connected_def split: option.split)
    next
      case (Inr x)
      obtain i report where x: "x = (i, report)" by (cases x)
      obtain pl verdict where "map_of (pool_pipelines s) p = Some pl" "pl_phase pl = Opening" "i \<notin> set ended" "report = Some verdict"
        using ok by (auto simp: Connected Inr x split: option.splits)
      then show ?thesis using connected_account [OF acc, of p pl i verdict] by (simp add: Connected Inr x for_pipeline_def)
    qed
  next
    case (Stale_Closed p err)
    then show ?thesis using grow more stale_closed_account [OF acc] by (auto simp: for_pipeline_def split: option.split)
  next
    case (Modem_Closed i)
    then show ?thesis using grow closed_account [OF acc] ok by simp
  next
    case Pool_Start
    have "pool_inv ?s'" using pool_step_inv [of s auto e] acc by (simp add: accounted_def)
    then have "accounted ?s' (set opened) (set ended) closed"
      by (intro account_same [OF acc _ _ _ _ order_refl, where d = 0]) (simp_all add: Pool_Start steady_def stage_def timeless_def)
    then show ?thesis using grow by (simp add: Pool_Start)
  next
    case (Restart key)
    then show ?thesis using grow more restart_account [OF acc] ok by (auto simp: stage_def split: option.splits)
  qed (use grow retry_timeout_account [OF acc] assessment_timeout_account [OF acc] stop_account [OF acc] settled_account [OF acc] in simp_all)
qed

lemma run_account:
  assumes "accounted s (set opened) (set ended) closed" and "orderly auto s opened ended es"
  shows "accounted (fst (mrun (pool_step auto) s es)) (set opened \<union> set (concat (map opened_by es)))
    (set ended \<union> set (concat (map ended_by es))) (closed \<union> closes (snd (mrun (pool_step auto) s es)))"
  using assms
proof (induction es arbitrary: s opened ended closed)
  case (Cons e es)
  have "accounted (fst (pool_step auto s e)) (set (opened_by e @ opened)) (set (ended_by e @ ended)) (closed \<union> closes (snd (pool_step auto s e)))"
    by (rule step_account) (use Cons.prems in simp_all)
  from Cons.IH [OF this] Cons.prems(2) show ?case
    by (simp add: mrun_Cons Un_ac Collect_disj_eq del: mrun.simps)
qed simp

lemma new_pool_accounted: "accounted new_pool (set []) (set []) {}"
proof -
  have "listens new_pool {} d" "harmless new_pool {} d" for d
    by (simp_all add: listens_def harmless_def new_pool_def blank_device_def timeless_def stage_def)
  then show ?thesis by (simp add: accounted_def new_pool_inv)
qed

lemma accounted_fate:
  assumes acc: "accounted s opened ended closed" and "i \<in> opened"
  shows "i \<in> closed \<or> i \<in> ended \<or> (\<exists>key d. tracked s key = Some d \<and> live_modem (pd_readiness (pool_store s d)) = Some i)"
proof -
  have "\<exists>key d. tracked s key = Some d \<and> live_modem (pd_readiness (pool_store s d)) = Some i" if held: "held s i"
  proof -
    obtain d key where "(key, d) \<in> set (pool_devices s)" "live_modem (pd_readiness (pool_store s d)) = Some i"
      using held by (auto simp: held_def owned_def stage_def)
    moreover have "keys_ok s" using acc by (simp add: accounted_def inv_keys)
    ultimately show ?thesis by (auto simp: keys_ok_def tracked_def)
  qed
  then show ?thesis using assms by (auto simp: accounted_def)
qed

text \<open>C3: No modem is leaked. Take any run of the pool in which the events come as the observer and the environment send them. Every modem that
  a pipeline opened has been closed by the pool, or has closed by itself, or is the live modem of a device that the pool still
  tracks; so that after a stop has settled, when no device is tracked any more, every modem that was ever opened is closed.
  This covers detaches and stops that overtake a pipeline at any of its awaits, retries, and restarts.
\<close>

theorem no_modem_leaked:
  assumes "orderly auto new_pool [] [] es" and "Connected p (Inr (i, report)) \<in> set es"
  shows "Close_Modem i \<in> set (snd (mrun (pool_step auto) new_pool es)) \<or> Modem_Closed i \<in> set es \<or>
    (\<exists>key d. tracked (fst (mrun (pool_step auto) new_pool es)) key = Some d \<and>
      live_modem (pd_readiness (pool_store (fst (mrun (pool_step auto) new_pool es)) d)) = Some i)"
proof -
  let ?run = "mrun (pool_step auto) new_pool es"
  have acc: "accounted (fst ?run) (set (concat (map opened_by es))) (set (concat (map ended_by es))) (closes (snd ?run))"
    using run_account [OF new_pool_accounted assms(1)] by simp
  have "i \<in> set (concat (map opened_by es))" using assms(2) by force
  moreover have "Modem_Closed i \<in> set es" if ended: "i \<in> set (concat (map ended_by es))"
  proof -
    obtain e where "e \<in> set es" "i \<in> set (ended_by e)" using ended by auto
    moreover from this(2) have "e = Modem_Closed i" by (cases e) auto
    ultimately show ?thesis by simp
  qed
  ultimately show ?thesis using accounted_fate [OF acc] by auto
qed

definition demo_modem :: discovered_modem where
  "demo_modem = \<lparr>disc_vendorId = 4817, disc_productId = 5382, disc_name = js ''E3372'', disc_deviceId = js ''12d1''\<rparr>"

definition demo_snapshot :: "bool \<Rightarrow> session_snapshot" where
  "demo_snapshot onBus = snapshot ((if onBus then recordAttach 0 5382 (js ''E3372'') (Some demo_modem) else (\<lambda>x. x))
     (new_session 0 (js ''12d1'') 4817 (js ''Huawei'') 10))"

text \<open>The unfolding of a step, to evaluate runs.\<close>

lemmas pool_run = then_do_def setReadiness_def update_device_def clearRetryTimer_def clearAssessmentTimer_def abort_device_def
  new_abort_def next_generation_def MAX_ERROR_RETRIES_def stale_def startPreparing_def modem_on_bus_def evaluateAssessment_def
  start_assessment_timer_def startAssessment_def assessment_timeout_def scheduleRetry_def pipeline_failed_def retry_timeout_def
  set_phase_def wireModem_def unwireModem_def provisioned_def progress_def connected_def stale_closed_def onDeviceAppeared_def
  onDeviceReattached_def onDeviceDetached_def onStateChanged_def onDeviceGone_def restartDevice_def stop_pool_def stop_settled_def
  for_device_def for_pipeline_def tracked_def close_live_def toPooled_def device_key_def map_delete_def neutral_analysis_def

lemmas pool_demo = pool_run new_pool_def blank_device_def demo_snapshot_def demo_modem_def snapshot_def new_session_def recordAttach_def

definition demo_run :: "pool_event list" where
  "demo_run =
     [Pool_Start, Appeared 0 (demo_snapshot True) neutral_analysis, Provisioned 2 (Inl (js ''busy'')), Retry_Timeout 3,
      Provisioned 4 (Inr 70), Progress 4 (js ''checking''), Connected 4 (Inr (7, Some Verdict_Ready)),
      Detached (demo_snapshot False), Attached (demo_snapshot True) neutral_analysis, Provisioned 6 (Inr 80), Pool_Stop,
      Connected 6 (Inr (8, Some Verdict_Ready)), Stop_Settled]"

lemma no_modem_leaked_witness:
  "orderly True new_pool [] [] demo_run \<and> Connected 6 (Inr (8, Some Verdict_Ready)) \<in> set demo_run \<and>
   Close_Modem 8 \<in> set (snd (mrun (pool_step True) new_pool demo_run))"
proof -
  have ok: "orderly True new_pool [] [] demo_run"
    by (simp add: demo_run_def pool_demo Let_def del: setReadiness_simps update_device_simps then_do_simps clearRetryTimer_simps
        clearAssessmentTimer_simps abort_simps unwireModem_simps wireModem_simps set_phase_simps)
  have opened: "Connected 6 (Inr (8, Some Verdict_Ready)) \<in> set demo_run" by (simp add: demo_run_def)
  have "pool_devices (fst (mrun (pool_step True) new_pool demo_run)) = []"
    by (simp add: demo_run_def pool_demo Let_def del: setReadiness_simps update_device_simps then_do_simps clearRetryTimer_simps
        clearAssessmentTimer_simps abort_simps unwireModem_simps wireModem_simps set_phase_simps)
  moreover have "Modem_Closed 8 \<notin> set demo_run" by (simp add: demo_run_def)
  ultimately have "Close_Modem 8 \<in> set (snd (mrun (pool_step True) new_pool demo_run))"
    using no_modem_leaked [OF ok opened] by (simp add: tracked_def)
  with ok opened show ?thesis by blast
qed

text \<open>
  Why the order of events matters: a restart drops the live modem of its device without closing it, and a device that attaches
  while a stop waits for the modems to close starts a pipeline whose modem nobody owns once the stop has settled.
\<close>

lemma restart_drops_modem:
  assumes "tracked s key = Some d" and "live_modem (pd_readiness (pool_store s d)) = Some i"
  shows "Close_Modem j \<notin> set (snd (pool_step False s (Restart key)))"
    and "live_modem (pd_readiness (pool_store (fst (pool_step False s (Restart key))) d)) = None"
  using assms by (auto simp: restartDevice_def Let_def next_generation_def new_abort_def)

lemma attach_during_stop:
  "let (s, out) = mrun (pool_step True) new_pool
     [Pool_Start, Appeared 0 (demo_snapshot True) neutral_analysis, Detached (demo_snapshot False), Pool_Stop,
      Attached (demo_snapshot True) neutral_analysis, Stop_Settled, Provisioned 4 (Inr 70), Connected 4 (Inr (7, Some Verdict_Ready))]
   in pool_devices s = [] \<and> Close_Modem 7 \<notin> set out \<and> live_modem (pd_readiness (pool_store s 0)) = Some 7"
  by (simp add: pool_demo Let_def del: setReadiness_simps update_device_simps then_do_simps clearRetryTimer_simps
      clearAssessmentTimer_simps abort_simps unwireModem_simps wireModem_simps set_phase_simps)

end
