(* ===== verification/Fleet_Pool_Retries.thy ===== *)
theory Fleet_Pool_Retries imports Fleet_Pool_Modems begin

text \<open>
  How often the pool provisions a device. Every device has a budget of attempts that depends on its stage and its retries; pipelines and
  retries spend it, and only an attach or a reset renews it.
\<close>

section \<open>The budget\<close>

fun is_provision :: "pool_output \<Rightarrow> bool" where
  "is_provision (Provision p d m) = True"
| "is_provision _ = False"

definition attempts :: "pool_output list \<Rightarrow> nat" where
  "attempts out = length (filter is_provision out)"

fun renews :: "pool_event \<Rightarrow> bool" where
  "renews (Appeared now snap a) = True"
| "renews (Attached snap a) = True"
| "renews (Restart key) = True"
| "renews _ = False"

lemma attempts_simps [simp]:
  "attempts [] = 0" "attempts (e # es) = (if is_provision e then Suc (attempts es) else attempts es)"
  "attempts (xs @ ys) = attempts xs + attempts ys"
  by (simp_all add: attempts_def)

fun budget_in :: "readiness \<Rightarrow> bool \<Rightarrow> nat \<Rightarrow> nat" where
  "budget_in (Assessing a) stalled retried = Suc MAX_ERROR_RETRIES - retried"
| "budget_in Preparing stalled retried = MAX_ERROR_RETRIES - retried"
| "budget_in (Connecting prepared) stalled retried = MAX_ERROR_RETRIES - retried"
| "budget_in Checking stalled retried = MAX_ERROR_RETRIES - retried"
| "budget_in (Stage_Error err recoverable) stalled retried =
     (if \<not> recoverable then 0 else if stalled then Suc MAX_ERROR_RETRIES - retried else MAX_ERROR_RETRIES - retried)"
| "budget_in _ stalled retried = 0"

definition budget_of :: "managed_device \<Rightarrow> nat" where
  "budget_of D = budget_in (pd_readiness D) (md_stalled D) (md_retryCount D)"

abbreviation budget :: "pool \<Rightarrow> nat \<Rightarrow> nat" where
  "budget s d \<equiv> budget_of (pool_store s d)"

definition total_budget :: "pool \<Rightarrow> nat" where
  "total_budget s = (\<Sum>d<pool_next s. budget s d)"

definition unused_idle :: "pool \<Rightarrow> bool" where
  "unused_idle s \<longleftrightarrow> (\<forall>d\<ge>pool_next s. budget s d = 0)"

text \<open>A step that changes one device changes the sum by what it changes there.\<close>

definition spends :: "nat \<Rightarrow> nat \<Rightarrow> pool \<Rightarrow> pool \<times> pool_output list \<Rightarrow> bool" where
  "spends b d s r \<longleftrightarrow>
     (\<forall>e. e \<noteq> d \<longrightarrow> pool_store (fst r) e = pool_store s e) \<and> pool_next s \<le> pool_next (fst r) \<and>
     attempts (snd r) + budget (fst r) d \<le> budget s d + b"

lemma total_local:
  assumes "\<And>e. e \<noteq> d \<Longrightarrow> pool_store s' e = pool_store s e" and "pool_next s \<le> pool_next s'" and "d < pool_next s'" and idle: "unused_idle s"
  shows "total_budget s' + budget s d = total_budget s + budget s' d" and "unused_idle s'"
proof -
  have "(\<Sum>e<pool_next s'. budget s e) = total_budget s"
    unfolding total_budget_def using assms(2) idle
    by (intro sum.mono_neutral_right) (auto simp: unused_idle_def not_less)
  moreover have split: "(\<Sum>e<pool_next s'. budget u e) = budget u d + (\<Sum>e\<in>{..<pool_next s'} - {d}. budget u e)" for u
    using assms(3) by (intro sum.remove) simp_all
  moreover have "(\<Sum>e\<in>{..<pool_next s'} - {d}. budget s' e) = (\<Sum>e\<in>{..<pool_next s'} - {d}. budget s e)"
    using assms(1) by (intro sum.cong) auto
  ultimately show "total_budget s' + budget s d = total_budget s + budget s' d"
    using split [of s'] split [of s] unfolding total_budget_def by linarith
  show "unused_idle s'" using assms by (auto simp: unused_idle_def)
qed

definition affordable :: "nat \<Rightarrow> pool \<Rightarrow> pool \<times> pool_output list \<Rightarrow> bool" where
  "affordable b s r \<longleftrightarrow> unused_idle (fst r) \<and> attempts (snd r) + total_budget (fst r) \<le> total_budget s + b"

lemma spends_affordable:
  "spends b d s r \<Longrightarrow> unused_idle s \<Longrightarrow> d < pool_next (fst r) \<Longrightarrow> affordable b s r"
  unfolding spends_def affordable_def using total_local [of d "fst r" s] by fastforce

section \<open>What the operations spend\<close>

lemma steady_store: "steady d s s' \<Longrightarrow> e \<noteq> d \<Longrightarrow> pool_store s' e = pool_store s e"
  by (simp add: steady_def)

lemma preparing_spends:
  "attempts (snd (startPreparing d m s)) = 1" "budget (fst (startPreparing d m s)) d = MAX_ERROR_RETRIES - md_retryCount (pool_store s d)"
  by (simp_all add: startPreparing_def Let_def budget_of_def)

lemma evaluate_spends:
  assumes "md_retryCount (pool_store s d) \<le> MAX_ERROR_RETRIES"
  shows "attempts (snd (evaluateAssessment d snap a s)) + budget (fst (evaluateAssessment d snap a s)) d \<le>
      max (budget s d) (Suc MAX_ERROR_RETRIES - md_retryCount (pool_store s d))"
    and "an_severity a \<noteq> Severity_Critical \<Longrightarrow> modem_on_bus snap \<noteq> None \<Longrightarrow>
      attempts (snd (evaluateAssessment d snap a s)) + budget (fst (evaluateAssessment d snap a s)) d \<le>
      Suc MAX_ERROR_RETRIES - md_retryCount (pool_store s d)"
    and "pool_next s \<le> pool_next (fst (evaluateAssessment d snap a s))"
  using assms
  by (auto simp: evaluateAssessment_def Let_def preparing_spends budget_of_def startPreparing_sel split: option.split)

lemma assessment_spends:
  assumes "md_retryCount (pool_store s d) \<le> MAX_ERROR_RETRIES"
  shows "attempts (snd (startAssessment d snap a s)) + budget (fst (startAssessment d snap a s)) d \<le> Suc MAX_ERROR_RETRIES"
    and "pool_next s \<le> pool_next (fst (startAssessment d snap a s))"
proof -
  define s1 where "s1 = start_assessment_timer d a (fst (setReadiness d (Assessing a)
    (update_device d (md_stalled_update (\<lambda>_. False)) (clearAssessmentTimer d s))))"
  have count: "md_retryCount (pool_store s1 d) = md_retryCount (pool_store s d)" "pd_readiness (pool_store s1 d) = Assessing a"
    "pool_next s \<le> pool_next s1"
    by (simp_all add: s1_def start_assessment_timer_def Let_def)
  have "attempts (snd (startAssessment d snap a s)) = attempts (snd (evaluateAssessment d snap a s1))"
    "fst (startAssessment d snap a s) = fst (evaluateAssessment d snap a s1)"
    by (simp_all add: startAssessment_def s1_def)
  moreover have "budget s1 d = Suc MAX_ERROR_RETRIES - md_retryCount (pool_store s1 d)" using count(2) by (simp add: budget_of_def)
  ultimately show "attempts (snd (startAssessment d snap a s)) + budget (fst (startAssessment d snap a s)) d \<le> Suc MAX_ERROR_RETRIES"
    "pool_next s \<le> pool_next (fst (startAssessment d snap a s))"
    using evaluate_spends(1,3) [of s1 d snap a] assms count by (simp_all add: max_def)
qed

lemma pipeline_failed_spends:
  assumes inv: "pool_inv s" and pl: "map_of (pool_pipelines s) p = Some pl"
  shows "spends 0 (pl_device pl) s (pipeline_failed p pl err s)"
proof (cases "stale s pl")
  case True
  then show ?thesis by (simp add: spends_def pipeline_failed_def stale_def Let_def)
next
  case False
  note fresh = fresh_pipeline(2,3) [OF inv pl False]
  have "budget s (pl_device pl) = MAX_ERROR_RETRIES - md_retryCount (pool_store s (pl_device pl))"
    using fresh(1) by (cases "pl_phase pl") (auto simp: budget_of_def)
  then show ?thesis using False fresh(2)
    by (auto simp: spends_def pipeline_failed_def stale_def Let_def scheduleRetry_def budget_of_def)
qed

lemma pipeline_spends:
  assumes inv: "pool_inv s" and pl: "map_of (pool_pipelines s) p = Some pl"
  shows "spends 0 (pl_device pl) s (provisioned p pl result s)" and "spends 0 (pl_device pl) s (progress pl phase s)"
    and "spends 0 (pl_device pl) s (connected p pl ending s)" and "spends 0 (pl_device pl) s (stale_closed p pl err s)"
proof -
  let ?d = "pl_device pl"
  have budget: "budget s ?d = MAX_ERROR_RETRIES - md_retryCount (pool_store s ?d)" if "\<not> stale s pl"
    using fresh_pipeline(2) [OF inv pl that] by (cases "pl_phase pl") (auto simp: budget_of_def)
  note failed = pipeline_failed_spends [OF inv pl]
  show "spends 0 ?d s (provisioned p pl result s)"
    using failed budget by (cases result) (auto simp: provisioned_def spends_def budget_of_def)
  show "spends 0 ?d s (progress pl phase s)" using budget by (auto simp: progress_def spends_def budget_of_def)
  show "spends 0 ?d s (stale_closed p pl err s)" using failed by (cases err) (auto simp: stale_closed_def spends_def)
  show "spends 0 ?d s (connected p pl ending s)"
  proof (cases ending)
    case (Inr x)
    obtain i report where x: "x = (i, report)" by (cases x)
    let ?s = "wireModem ?d i s"
    have "pool_inv ?s" by (rule wireModem_inv [OF inv used_less(2) [OF inv_ids [OF inv] pl]])
    then have "spends 0 ?d ?s (pipeline_failed p pl err ?s)" for err by (rule pipeline_failed_spends) (simp add: pl)
    then have "spends 0 ?d s (pipeline_failed p pl err ?s)" for err by (simp add: spends_def budget_of_def)
    then show ?thesis
      by (auto simp: Inr x connected_def Let_def spends_def set_phase_def budget_of_def split: option.split)
  qed (use failed in \<open>simp add: connected_def\<close>)
qed

lemma retry_spends:
  assumes inv: "pool_inv s" and timer: "map_of (pool_retries s) t = Some (d, g, m)"
  shows "spends 0 d s (retry_timeout t s)"
proof (cases "md_generation (pool_store s d) \<noteq> g \<or> \<not> is_error (stage s d)")
  case True
  then show ?thesis using timer
    by (auto simp: retry_timeout_def retry_timeout_clear [OF inv timer] Let_def stage_def spends_def budget_of_def)
next
  case False
  let ?s1 = "update_device d (md_retryCount_update Suc) (clearRetryTimer d s)"
  have now: "is_recoverable (stage s d)" "\<not> md_stalled (pool_store s d)" "md_retryCount (pool_store s d) < MAX_ERROR_RETRIES"
    using retries_okD(2) [OF dev_okD(6) [OF inv_dev [OF inv]], of t d m] timer False by (auto simp: stage_def)
  have step: "retry_timeout t s = startPreparing d m ?s1"
    using timer False by (simp add: retry_timeout_def retry_timeout_clear [OF inv timer] Let_def stage_def)
  have "budget s d = MAX_ERROR_RETRIES - md_retryCount (pool_store s d)"
    using now(1,2) by (cases "stage s d") (auto simp: budget_of_def stage_def)
  then show ?thesis unfolding step using now(3) by (auto simp: spends_def preparing_spends startPreparing_sel budget_of_def)
qed

lemma stall_spends:
  assumes inv: "pool_inv s" and timer: "map_of (pool_assessments s) t = Some (d, g, a)"
  shows "spends 0 d s (assessment_timeout t s)"
proof (cases "is_assessing (stage s d)")
  case True
  then show ?thesis using timer
    by (cases "stage s d")
      (auto simp: assessment_timeout_def assessment_timeout_clear [OF inv timer] Let_def stage_def spends_def budget_of_def)
next
  case False
  then show ?thesis using timer
    by (auto simp: assessment_timeout_def assessment_timeout_clear [OF inv timer] Let_def stage_def spends_def budget_of_def)
qed

section \<open>Devices\<close>

lemma count_ok: "pool_inv s \<Longrightarrow> md_retryCount (pool_store s d) \<le> MAX_ERROR_RETRIES"
  using retries_okD(4) [OF dev_okD(6) [OF inv_dev]] .

lemma start_spends:
  assumes other: "\<And>e. e \<noteq> d \<Longrightarrow> pool_store s1 e = pool_store s e" and "pool_next s \<le> pool_next s1" and "md_retryCount (pool_store s1 d) = 0"
    and "pd_readiness (pool_store s1 d) = Detected" and "attempts out = 0"
    and r: "r = (if auto then (fst (startAssessment d snap a s1), out @ snd (startAssessment d snap a s1)) else (s1, out))"
  shows "spends (Suc MAX_ERROR_RETRIES) d s r"
proof -
  have "pool_store (fst (startAssessment d snap a s1)) e = pool_store s e" if "e \<noteq> d" for e
    using steady_store [OF steady_assessment that] other [OF that] by metis
  then show ?thesis
    using assessment_spends [of s1 d snap a] assms by (auto simp: spends_def budget_of_def [of "pool_store s1 d"])
qed

lemma then_do_pair: "then_do r f = (fst (f (fst r)), snd r @ snd (f (fst r)))"
  by (simp add: then_do_def split_beta Let_def)

lemma reattached_spends:
  assumes "pool_inv s"
  shows "spends (Suc MAX_ERROR_RETRIES) d s (onDeviceReattached auto snap a d s)"
proof (cases "pd_readiness (pool_store s d) = Offline")
  case True
  define s0 where "s0 = update_device d (md_retryCount_update (\<lambda>_. 0)) (next_generation d (new_abort d
    (update_device d (pd_session_update (\<lambda>_. snap)) s)))"
  have step: "onDeviceReattached auto snap a d s =
      (if auto then (fst (startAssessment d snap a (fst (setReadiness d Detected s0))),
         snd (setReadiness d Detected s0) @ snd (startAssessment d snap a (fst (setReadiness d Detected s0))))
       else (fst (setReadiness d Detected s0), snd (setReadiness d Detected s0)))"
    using True by (simp add: onDeviceReattached_def Let_def s0_def then_do_pair)
  show ?thesis
    by (rule start_spends [OF _ _ _ _ _ step]) (simp_all add: s0_def next_generation_def new_abort_def)
qed (simp add: onDeviceReattached_def Let_def spends_def budget_of_def)

lemma restart_spends:
  shows "spends (Suc MAX_ERROR_RETRIES) d s (restartDevice auto d s)"
proof -
  define s0 where "s0 = update_device d (md_retryCount_update (\<lambda>_. 0)) (unwireModem d (clearRetryTimer d (next_generation d
    (new_abort d (abort_device d s)))))"
  have step: "restartDevice auto d s =
      (if auto then (fst (startAssessment d (pd_session (pool_store s0 d)) neutral_analysis (fst (setReadiness d Detected s0))),
         snd (setReadiness d Detected s0) @ snd (startAssessment d (pd_session (pool_store s0 d)) neutral_analysis (fst (setReadiness d Detected s0))))
       else (fst (setReadiness d Detected s0), snd (setReadiness d Detected s0)))"
    by (simp add: restartDevice_def Let_def s0_def then_do_pair)
  show ?thesis
    by (rule start_spends [OF _ _ _ _ _ step]) (simp_all add: s0_def next_generation_def new_abort_def)
qed

lemma changed_spends:
  assumes inv: "pool_inv s"
  shows "spends 0 d s (onStateChanged snap a d s)"
proof -
  let ?s1 = "update_device d (pd_session_update (\<lambda>_. snap)) s"
  let ?s2 = "update_device d (md_stalled_update (\<lambda>_. False)) ?s1"
  have count: "md_retryCount (pool_store ?s1 d) \<le> MAX_ERROR_RETRIES" "md_retryCount (pool_store ?s2 d) \<le> MAX_ERROR_RETRIES"
    using count_ok [OF inv] by simp_all
  have steady: "pool_store (fst (evaluateAssessment d snap a ?s1)) e = pool_store s e" "pool_store (fst (evaluateAssessment d snap a ?s2)) e = pool_store s e"
    if "e \<noteq> d" for e
    using steady_store [OF steady_evaluate that, of snap a ?s1] steady_store [OF steady_evaluate that, of snap a ?s2] that by simp_all
  have eq: "onStateChanged snap a d s =
      (if is_assessing (stage s d) then evaluateAssessment d snap a ?s1
       else if is_recoverable (stage s d) \<and> md_stalled (pool_store s d) \<and> an_severity a \<noteq> Severity_Critical \<and> modem_on_bus snap \<noteq> None
       then evaluateAssessment d snap a ?s2 else (?s1, []))"
    by (simp add: onStateChanged_def Let_def stage_def)
  show ?thesis
  proof (cases "is_assessing (stage s d)")
    case True
    have b: "budget s d = Suc MAX_ERROR_RETRIES - md_retryCount (pool_store s d)" "budget ?s1 d = budget s d"
      using True by (cases "stage s d"; simp add: budget_of_def stage_def)+
    show ?thesis unfolding spends_def
      using evaluate_spends(1,3) [OF count(1), of snap a] steady(1) b True eq by simp
  next
    case assessing: False
    show ?thesis
    proof (cases "is_recoverable (stage s d) \<and> md_stalled (pool_store s d) \<and> an_severity a \<noteq> Severity_Critical \<and> modem_on_bus snap \<noteq> None")
      case True
      have b: "budget s d = Suc MAX_ERROR_RETRIES - md_retryCount (pool_store s d)"
        using True by (cases "stage s d") (simp_all add: budget_of_def stage_def)
      have step: "onStateChanged snap a d s = evaluateAssessment d snap a ?s2" unfolding eq using True assessing by (simp only: if_True if_False simp_thms)
      show ?thesis unfolding step spends_def
        using evaluate_spends(2) [OF count(2), of a snap] evaluate_spends(3) [OF count(2), of snap a] steady(2) b True by simp
    next
      case False
      then have "onStateChanged snap a d s = (?s1, [])" unfolding eq using assessing by (simp only: if_False)
      then show ?thesis by (simp add: spends_def budget_of_def)
    qed
  qed
qed

lemma close_live_attempts [simp]: "attempts (close_live r) = 0"
  by (simp add: close_live_def split: option.split)

lemma detached_spends: "spends 0 d s (onDeviceDetached snap d s)"
  by (simp add: spends_def onDeviceDetached_def Let_def next_generation_def new_abort_def budget_of_def)

lemma gone_spends: "spends 0 d s (onDeviceGone key d s)"
  by (simp add: spends_def onDeviceGone_def Let_def budget_of_def)

section \<open>The pool\<close>

lemma refl_affordable: "unused_idle s \<Longrightarrow> attempts out = 0 \<Longrightarrow> affordable b s (s, out)"
  by (simp add: affordable_def)

lemma less_affordable:
  assumes "unused_idle s" and "\<And>d. budget s' d \<le> budget s d" and "pool_next s' = pool_next s" and "attempts out = 0"
  shows "affordable b s (s', out)"
proof -
  have "total_budget s' \<le> total_budget s" unfolding total_budget_def assms(3) by (rule sum_mono) (rule assms(2))
  moreover have "unused_idle s'" using assms(1-3) unfolding unused_idle_def by (metis le_zero_eq)
  ultimately show ?thesis using assms(4) by (simp add: affordable_def)
qed

lemma on_close_less:
  "budget (fst (on_close ds s)) d \<le> budget s d \<and> pool_next (fst (on_close ds s)) = pool_next s \<and> attempts (snd (on_close ds s)) = 0"
proof (induction ds arbitrary: s)
  case (Cons e ds)
  have "budget (fst (setReadiness e Offline s)) d \<le> budget s d" by (simp add: budget_of_def)
  then show ?case using Cons [of s] Cons [of "fst (setReadiness e Offline s)"]
    by (auto simp: budget_of_def [of "pool_store s e\<lparr>pd_readiness := Offline\<rparr>"] intro: order_trans)
qed simp

lemma stop_devices_budget: "budget (stop_devices ds s) d = budget s d \<and> pool_next (stop_devices ds s) = pool_next s"
proof (induction ds arbitrary: s)
  case (Cons e ds)
  show ?case using Cons [of "clearAssessmentTimer e (clearRetryTimer e (abort_device e s))"] by (auto simp: budget_of_def)
qed simp

lemma stop_attempts: "attempts (snd (stop_pool s)) = 0"
proof -
  have "attempts (concat (map (\<lambda>(key, d). close_live (r d)) ds)) = 0" for r and ds :: "(jstr \<times> nat) list"
    by (induction ds) auto
  then show ?thesis by (simp add: stop_pool_def Let_def)
qed

lemma step_affordable:
  assumes inv: "pool_inv s" and idle: "unused_idle s"
  shows "affordable (if renews e then Suc MAX_ERROR_RETRIES else 0) s (pool_step auto s e)"
proof -
  note ids = inv_ids [OF inv]
  have next_le: "d < pool_next s \<Longrightarrow> spends b d s r \<Longrightarrow> affordable b s r" for b d r
    by (rule spends_affordable [OF _ idle]) (auto simp: spends_def)
  have dev: "affordable b s (for_device s key f)" if "\<And>d. tracked s key = Some d \<Longrightarrow> spends b d s (f d s)" for b key f
    using that next_le [OF used_less(1) [OF ids]] refl_affordable [OF idle] by (auto simp: for_device_def split: option.split)
  have pipe: "affordable 0 s (for_pipeline s p waits f)" if "\<And>pl. map_of (pool_pipelines s) p = Some pl \<Longrightarrow> spends 0 (pl_device pl) s (f pl s)" for p waits f
    using that next_le [OF used_less(2) [OF ids]] refl_affordable [OF idle] by (auto simp: for_pipeline_def split: option.split)
  show ?thesis
  proof (cases e)
    case (Appeared now snap a)
    let ?d = "pool_next s"
    define D where "D = \<lparr>pd_vendorId = snap_vendorId snap, pd_name = snap_vendorName snap, pd_readiness = Detected, pd_session = snap,
      pd_firstSeenAt = now, md_abort = 0, md_generation = 0, md_listeners = None, md_retryTimer = None, md_assessmentTimer = None,
      md_stalled = False, md_retryCount = 0\<rparr>"
    define s1 where "s1 = s\<lparr>pool_store := (pool_store s)(?d := D), pool_devices := map_set (device_key snap) ?d (pool_devices s), pool_next := Suc ?d\<rparr>"
    have step: "pool_step auto s e = (if auto then (fst (startAssessment ?d snap a s1), [Device_Added (toPooled D)] @ snd (startAssessment ?d snap a s1))
        else (s1, [Device_Added (toPooled D)]))"
      by (simp add: Appeared onDeviceAppeared_def Let_def then_do_pair s1_def D_def)
    have "spends (Suc MAX_ERROR_RETRIES) ?d s (pool_step auto s e)"
      by (rule start_spends [OF _ _ _ _ _ step]) (simp_all add: s1_def D_def)
    moreover have "?d < pool_next (fst (pool_step auto s e))"
      unfolding step using assessment_spends(2) [of s1 ?d snap a] by (auto simp: s1_def D_def)
    ultimately show ?thesis using spends_affordable [OF _ idle] by (simp add: Appeared)
  next
    case (Attached snap a)
    then show ?thesis using dev [of "device_key snap" _ "onDeviceReattached auto snap a"] reattached_spends [OF inv] by simp
  next
    case (Detached snap)
    then show ?thesis using dev [of "device_key snap" 0 "onDeviceDetached snap"] detached_spends by simp
  next
    case (State_Changed snap a)
    then show ?thesis using dev [of "device_key snap" 0 "onStateChanged snap a"] changed_spends [OF inv] by simp
  next
    case (Gone snap)
    then show ?thesis using dev [of "device_key snap" 0 "onDeviceGone (device_key snap)"] gone_spends by simp
  next
    case (Assessment_Timeout t)
    show ?thesis
    proof (cases "map_of (pool_assessments s) t")
      case None
      then show ?thesis using refl_affordable [OF idle, of "[]"] by (simp add: Assessment_Timeout assessment_timeout_def)
    next
      case (Some x)
      obtain d g y where timer: "map_of (pool_assessments s) t = Some (d, g, y)" using Some by (cases x) auto
      show ?thesis using next_le [OF used_less(4) [OF ids timer] stall_spends [OF inv timer]] by (simp add: Assessment_Timeout)
    qed
  next
    case (Retry_Timeout t)
    show ?thesis
    proof (cases "map_of (pool_retries s) t")
      case None
      then show ?thesis using refl_affordable [OF idle, of "[]"] by (simp add: Retry_Timeout retry_timeout_def)
    next
      case (Some x)
      obtain d g y where timer: "map_of (pool_retries s) t = Some (d, g, y)" using Some by (cases x) auto
      show ?thesis using next_le [OF used_less(3) [OF ids timer] retry_spends [OF inv timer]] by (simp add: Retry_Timeout)
    qed
  next
    case (Modem_Closed i)
    let ?r = "on_close (map snd (filter (\<lambda>l. fst l = i) (pool_listening s))) s"
    have "affordable 0 s (fst ?r, snd ?r)" by (rule less_affordable [OF idle]) (simp_all add: on_close_less)
    then show ?thesis by (simp add: Modem_Closed)
  next
    case Pool_Start
    then show ?thesis using less_affordable [OF idle] refl_affordable [OF idle, of "[]"] by simp
  next
    case Pool_Stop
    have "affordable 0 s (fst (stop_pool s), snd (stop_pool s))"
      by (rule less_affordable [OF idle]) (simp_all add: stop_attempts, simp_all add: stop_pool_def Let_def stop_devices_budget)
    then show ?thesis by (simp add: Pool_Stop)
  next
    case Stop_Settled
    then show ?thesis using less_affordable [OF idle] refl_affordable [OF idle, of "[]"] by (simp add: stop_settled_def)
  next
    case (Restart key)
    then show ?thesis using next_le [OF used_less(1) [OF ids] restart_spends] refl_affordable [OF idle, of "[Not_In_Pool key]"]
      by (simp split: option.split)
  qed (use pipe pipeline_spends [OF inv] in simp_all)
qed

lemma run_affordable:
  "pool_inv s \<Longrightarrow> unused_idle s \<Longrightarrow>
    attempts (snd (mrun (pool_step auto) s es)) \<le> total_budget s + Suc MAX_ERROR_RETRIES * length (filter renews es)"
proof (induction es arbitrary: s)
  case (Cons e es)
  have "affordable (if renews e then Suc MAX_ERROR_RETRIES else 0) s (pool_step auto s e)" by (rule step_affordable) (use Cons.prems in simp_all)
  moreover have "pool_inv (fst (pool_step auto s e))" by (rule pool_step_inv) (rule Cons.prems)
  ultimately show ?case using Cons.IH [of "fst (pool_step auto s e)"] by (auto simp: affordable_def mrun_Cons simp del: mrun.simps split: if_splits)
qed simp

text \<open>C10: The pool does not storm a failing device. In every run, in any order of events, the number of provisioning attempts is at most
  four for every appearance, attach and transport reset: the first attempt and three retries. Detaches, state changes, timeouts and
  closed modems never add one, however often they come.
\<close>

theorem provisioning_bounded:
  "attempts (snd (mrun (pool_step auto) new_pool es)) \<le> 4 * length (filter renews es)"
proof -
  have "unused_idle new_pool" by (simp add: unused_idle_def new_pool_def blank_device_def budget_of_def)
  moreover have "total_budget new_pool = 0" by (simp add: total_budget_def new_pool_def)
  ultimately show ?thesis using run_affordable [OF new_pool_inv, of auto es] by (simp add: MAX_ERROR_RETRIES_def)
qed

end
