(* ===== verification/Device_Observer_Props.thy ===== *)
theory Device_Observer_Props imports Device_Observer begin

text \<open>
  What the observer promises to its listeners. Per device its events follow a protocol of three states, which the pool relies on;
  the sessions are well formed in every run.
\<close>

section \<open>The protocol of the events\<close>

datatype presence = Absent | On_Bus | Off_Bus

fun presence_step :: "presence \<Rightarrow> observer_event \<Rightarrow> presence option" where
  "presence_step Absent (Device_Appeared snap a) = Some On_Bus"
| "presence_step On_Bus (Device_Detached snap a) = Some Off_Bus"
| "presence_step Off_Bus (Device_Attached snap a) = Some On_Bus"
| "presence_step Off_Bus (Device_Gone snap) = Some Absent"
| "presence_step On_Bus (Device_State_Changed snap a p) = Some On_Bus"
| "presence_step Off_Bus (Device_State_Changed snap a p) = Some Off_Bus"
| "presence_step _ _ = None"

fun presence_run :: "presence \<Rightarrow> observer_event list \<Rightarrow> presence option" where
  "presence_run p [] = Some p"
| "presence_run p (e # es) = (case presence_step p e of None \<Rightarrow> None | Some p' \<Rightarrow> presence_run p' es)"

lemma presence_run_append:
  "presence_run p (es @ fs) = (case presence_run p es of None \<Rightarrow> None | Some p' \<Rightarrow> presence_run p' fs)"
  by (induction es arbitrary: p) (auto split: option.split)

fun event_snapshot :: "observer_event \<Rightarrow> session_snapshot" where
  "event_snapshot (Device_Appeared snap a) = snap"
| "event_snapshot (Device_Attached snap a) = snap"
| "event_snapshot (Device_Detached snap a) = snap"
| "event_snapshot (Device_State_Changed snap a p) = snap"
| "event_snapshot (Device_Gone snap) = snap"

definition events_of :: "jstr \<Rightarrow> observer_event list \<Rightarrow> observer_event list" where
  "events_of key es = filter (\<lambda>e. snap_deviceId (event_snapshot e) = key) es"

lemma events_of_simps [simp]:
  "events_of key [] = []" "events_of key (es @ fs) = events_of key es @ events_of key fs"
  "events_of key (e # es) = (if snap_deviceId (event_snapshot e) = key then e # events_of key es else events_of key es)"
  by (simp_all add: events_of_def)

section \<open>Tracking the bus\<close>

definition presence_of :: "observer \<Rightarrow> jstr \<Rightarrow> presence" where
  "presence_of s key =
     (case map_of (obs_sessions s) key of
        None \<Rightarrow> Absent
      | Some i \<Rightarrow> if ses_current (obs_store s i) = None then Off_Bus else On_Bus)"

text \<open>
  A device is known to the subscription when its session is on the bus, and a session off the bus has the pending
  timer that ends it.
\<close>

definition sessions_inv :: "observer \<Rightarrow> bool" where
  "sessions_inv s \<longleftrightarrow>
     (\<forall>key i. map_of (obs_sessions s) key = Some i \<longrightarrow> ses_id (obs_store s i) = key \<and> i < obs_next s) \<and>
     (\<forall>t key i. map_of (obs_timers s) t = Some (key, i) \<longrightarrow>
        map_of (obs_goneTimers s) key = Some t \<and> map_of (obs_sessions s) key = Some i \<and> t < obs_next s) \<and>
     (\<forall>key t. map_of (obs_goneTimers s) key = Some t \<longrightarrow> (\<exists>i. map_of (obs_timers s) t = Some (key, i))) \<and>
     (\<forall>key. map_of (obs_goneTimers s) key \<noteq> None \<longleftrightarrow> presence_of s key = Off_Bus) \<and>
     (\<forall>key. map_of (obs_lastAnalysis s) key = None \<longleftrightarrow> map_of (obs_sessions s) key = None)"

definition watch_inv :: "observer \<Rightarrow> bool" where
  "watch_inv s \<longleftrightarrow>
     (case obs_watch s of
        None \<Rightarrow> obs_sessions s = []
      | Some known \<Rightarrow>
          (\<forall>key. map_of known key \<noteq> None \<longleftrightarrow> presence_of s key = On_Bus) \<and>
          (\<forall>key m. map_of known key = Some m \<longrightarrow> disc_deviceId m = key))"

lemma sessions_invD:
  assumes "sessions_inv s"
  shows "map_of (obs_sessions s) key = Some i \<Longrightarrow> ses_id (obs_store s i) = key \<and> i < obs_next s"
    and "map_of (obs_timers s) t = Some (key, i) \<Longrightarrow>
      map_of (obs_goneTimers s) key = Some t \<and> map_of (obs_sessions s) key = Some i \<and> t < obs_next s"
    and "map_of (obs_goneTimers s) key = Some t \<Longrightarrow> \<exists>i. map_of (obs_timers s) t = Some (key, i)"
    and "map_of (obs_goneTimers s) key \<noteq> None \<longleftrightarrow> presence_of s key = Off_Bus"
    and "map_of (obs_lastAnalysis s) key = None \<longleftrightarrow> map_of (obs_sessions s) key = None"
  using assms unfolding sessions_inv_def by blast+

lemma sessions_invI:
  assumes "\<And>key i. map_of (obs_sessions s) key = Some i \<Longrightarrow> ses_id (obs_store s i) = key \<and> i < obs_next s"
    and "\<And>t key i. map_of (obs_timers s) t = Some (key, i) \<Longrightarrow>
      map_of (obs_goneTimers s) key = Some t \<and> map_of (obs_sessions s) key = Some i \<and> t < obs_next s"
    and "\<And>key t. map_of (obs_goneTimers s) key = Some t \<Longrightarrow> \<exists>i. map_of (obs_timers s) t = Some (key, i)"
    and "\<And>key. map_of (obs_goneTimers s) key \<noteq> None \<longleftrightarrow> presence_of s key = Off_Bus"
    and "\<And>key. map_of (obs_lastAnalysis s) key = None \<longleftrightarrow> map_of (obs_sessions s) key = None"
  shows "sessions_inv s"
  unfolding sessions_inv_def using assms by blast

lemma snapshot_id [simp]: "snap_deviceId (snapshot ses) = ses_id ses"
  by (simp add: snapshot_def Let_def)

lemma record_simps [simp]:
  "ses_id (recordAttach now pid name m ses) = ses_id ses" "ses_id (recordDetach now ses) = ses_id ses"
  "ses_current (recordAttach now pid name m ses) \<noteq> None" "ses_current (recordDetach now ses) = None"
  by (simp_all add: recordAttach_def recordDetach_def Let_def split: option.split)

lemma new_session_id [simp]: "ses_id (new_session now key vendor name n) = key"
  by (simp add: new_session_def)

section \<open>The operations\<close>

text \<open>One operation on a device: it changes its presence as its events say, and nothing else.\<close>

definition moves :: "jstr \<Rightarrow> presence \<Rightarrow> observer \<Rightarrow> observer \<times> observer_event list \<Rightarrow> bool" where
  "moves key p s r \<longleftrightarrow>
     sessions_inv (fst r) \<and> obs_watch (fst r) = obs_watch s \<and> presence_of (fst r) key = p \<and>
     (\<forall>k. k \<noteq> key \<longrightarrow> presence_of (fst r) k = presence_of s k \<and> events_of k (snd r) = []) \<and>
     presence_run (presence_of s key) (events_of key (snd r)) = Some p"

lemma presence_Absent: "presence_of s key = Absent \<longleftrightarrow> map_of (obs_sessions s) key = None"
  by (simp add: presence_of_def split: option.split)

lemma change_events:
  "ses_id ses = key \<Longrightarrow> p \<noteq> Absent \<Longrightarrow> presence_run p (events_of key (change_of previous (snapshot ses) a)) = Some p"
  "ses_id ses = key \<Longrightarrow> k \<noteq> key \<Longrightarrow> events_of k (change_of previous (snapshot ses) a) = []"
  by (cases p; simp add: change_of_def split: option.split)+

lemma attach_moves:
  assumes inv: "sessions_inv s" and key: "disc_deviceId m = key" and off: "presence_of s key \<noteq> On_Bus"
  shows "moves key On_Bus s (handleAttach cfg now isSeed m s)"
proof (cases "map_of (obs_sessions s) key")
  case None
  let ?i = "obs_next s" and ?n = "new_session now key (disc_vendorId m) (disc_name m) (obs_maxCycleHistory cfg)"
  let ?ses = "recordAttach now (disc_productId m) (disc_name m) (Some m) ?n"
  let ?a = "analyze (obs_resolvers cfg) now (snapshot ?ses)"
  let ?s = "s\<lparr>obs_store := (obs_store s)(?i := ?ses), obs_sessions := map_set key ?i (obs_sessions s), obs_next := Suc ?i,
    obs_lastAnalysis := map_set key ?a (obs_lastAnalysis s)\<rparr>"
  note inv = sessions_invD [OF inv]
  have absent: "presence_of s key = Absent" using None by (simp add: presence_Absent)
  then have no: "map_of (obs_goneTimers s) key = None" using inv(4) [of key] by simp
  have step: "handleAttach cfg now isSeed m s = (?s, [Device_Appeared (snapshot ?ses) ?a])"
    using None no by (simp add: handleAttach_def cancel_gone_def get_session_def Let_def key)
  have p: "presence_of ?s k = (if k = key then On_Bus else presence_of s k)" for k
    using inv(1) by (auto simp: presence_of_def map_of_map_set split: option.split)
  have "sessions_inv ?s"
  proof (rule sessions_invI)
    show "map_of (obs_goneTimers ?s) k \<noteq> None \<longleftrightarrow> presence_of ?s k = Off_Bus" for k using inv(4) [of k] no p by auto
  qed (use inv(1,2,3,5) None in \<open>fastforce simp: map_of_map_set intro: less_SucI split: if_splits\<close>)+
  then show ?thesis using p by (simp add: step moves_def absent)
next
  case (Some i)
  let ?ses = "recordAttach now (disc_productId m) (disc_name m) (Some m) (obs_store s i)"
  let ?a = "analyze (obs_resolvers cfg) now (snapshot ?ses)"
  note inv = sessions_invD [OF inv]
  have off: "presence_of s key = Off_Bus" using off Some by (simp add: presence_of_def split: if_splits)
  then obtain t where gone: "map_of (obs_goneTimers s) key = Some t" using inv(4) [of key] by auto
  have id: "ses_id (obs_store s i) = key" using inv(1) [OF Some] by simp
  obtain p0 where previous: "map_of (obs_lastAnalysis s) key = Some p0" using inv(5) [of key] Some by auto
  let ?s = "s\<lparr>obs_timers := map_delete t (obs_timers s), obs_goneTimers := map_delete key (obs_goneTimers s),
    obs_store := (obs_store s)(i := ?ses), obs_lastAnalysis := map_set key ?a (obs_lastAnalysis s)\<rparr>"
  have step: "handleAttach cfg now isSeed m s = (?s, change_of (Some p0) (snapshot ?ses) ?a @ [Device_Attached (snapshot ?ses) ?a])"
    using Some gone previous by (simp add: handleAttach_def cancel_gone_def get_session_def Let_def key)
  have other: "map_of (obs_sessions s) k = Some j \<Longrightarrow> k \<noteq> key \<Longrightarrow> j \<noteq> i" for k j using inv(1) id by blast
  have p: "presence_of ?s k = (if k = key then On_Bus else presence_of s k)" for k
    using other Some by (auto simp: presence_of_def split: option.split)
  have timer: "map_of (obs_timers s) t' = Some (key, j) \<Longrightarrow> t' = t" for t' j using inv(2) [of t' key j] gone by simp
  have "sessions_inv ?s"
  proof (rule sessions_invI)
    show "map_of (obs_goneTimers ?s) k \<noteq> None \<longleftrightarrow> presence_of ?s k = Off_Bus" for k using inv(4) [of k] p by (auto simp: map_of_delete)
    show "\<exists>j. map_of (obs_timers ?s) t' = Some (k, j)" if "map_of (obs_goneTimers ?s) k = Some t'" for k t'
    proof -
      have k: "k \<noteq> key" "map_of (obs_goneTimers s) k = Some t'" using that by (auto simp: map_of_delete split: if_splits)
      obtain j where j: "map_of (obs_timers s) t' = Some (k, j)" using inv(3) [OF k(2)] by blast
      obtain j' where j': "map_of (obs_timers s) t = Some (key, j')" using inv(3) [OF gone] by blast
      have "t' \<noteq> t" using j j' k(1) by auto
      with j show ?thesis by (simp add: map_of_delete)
    qed
    show "map_of (obs_goneTimers ?s) k = Some t' \<and> map_of (obs_sessions ?s) k = Some j \<and> t' < obs_next ?s"
      if "map_of (obs_timers ?s) t' = Some (k, j)" for t' k j
      using that timer inv(2) [of t' k j] by (auto simp: map_of_delete split: if_splits)
    show "ses_id (obs_store ?s j) = k \<and> j < obs_next ?s" if "map_of (obs_sessions ?s) k = Some j" for k j
      using that inv(1) [of k j] id by auto
    show "map_of (obs_lastAnalysis ?s) k = None \<longleftrightarrow> map_of (obs_sessions ?s) k = None" for k
      using inv(5) [of k] Some by (simp add: map_of_map_set)
  qed
  then show ?thesis using p id change_events(1) [of ?ses key Off_Bus] change_events(2) [of ?ses key] by (simp add: step moves_def off presence_run_append)
qed

lemma detach_moves:
  assumes inv: "sessions_inv s" and on: "presence_of s key = On_Bus"
  shows "moves key Off_Bus s (handleDetach cfg now key s)"
proof -
  note inv = sessions_invD [OF inv]
  obtain i where i: "map_of (obs_sessions s) key = Some i" using on by (auto simp: presence_of_def split: option.splits)
  have no: "map_of (obs_goneTimers s) key = None" using inv(4) [of key] on by simp
  have id: "ses_id (obs_store s i) = key" using inv(1) [OF i] by simp
  let ?ses = "recordDetach now (obs_store s i)" and ?t = "obs_next s"
  let ?a = "analyze (obs_resolvers cfg) now (snapshot ?ses)"
  let ?s = "s\<lparr>obs_store := (obs_store s)(i := ?ses), obs_lastAnalysis := map_set key ?a (obs_lastAnalysis s),
    obs_timers := obs_timers s @ [(?t, key, i)], obs_goneTimers := map_set key ?t (obs_goneTimers s), obs_next := Suc ?t\<rparr>"
  have step: "handleDetach cfg now key s =
      (?s, change_of (map_of (obs_lastAnalysis s) key) (snapshot ?ses) ?a @ [Device_Detached (snapshot ?ses) ?a])"
    using i by (simp add: handleDetach_def Let_def)
  have fresh: "map_of (obs_timers s) ?t = None" by (cases "map_of (obs_timers s) ?t") (auto dest: inv(2))
  have timers: "map_of (obs_timers ?s) = (map_of (obs_timers s))(?t \<mapsto> (key, i))"
    using fresh by (auto simp: map_add_def fun_eq_iff split: option.split)
  have other: "map_of (obs_sessions s) k = Some j \<Longrightarrow> k \<noteq> key \<Longrightarrow> j \<noteq> i" for k j using inv(1) id by blast
  have p: "presence_of ?s k = (if k = key then Off_Bus else presence_of s k)" for k
    using other i by (auto simp: presence_of_def split: option.split)
  have "sessions_inv ?s"
  proof (rule sessions_invI)
    show "map_of (obs_goneTimers ?s) k \<noteq> None \<longleftrightarrow> presence_of ?s k = Off_Bus" for k using inv(4) [of k] p by (auto simp: map_of_map_set)
    show "\<exists>j. map_of (obs_timers ?s) t' = Some (k, j)" if t': "map_of (obs_goneTimers ?s) k = Some t'" for k t'
    proof (cases "k = key")
      case False
      then obtain j where "map_of (obs_timers s) t' = Some (k, j)" using t' by (auto simp: map_of_map_set dest!: inv(3))
      then show ?thesis unfolding timers using fresh by (cases "t' = ?t") simp_all
    qed (use t' timers in \<open>simp add: map_of_map_set\<close>)
    show "map_of (obs_goneTimers ?s) k = Some t' \<and> map_of (obs_sessions ?s) k = Some j \<and> t' < obs_next ?s"
      if "map_of (obs_timers ?s) t' = Some (k, j)" for t' k j
      using that inv(2) [of t' k j] i no unfolding timers by (auto simp: map_of_map_set split: if_splits)
    show "ses_id (obs_store ?s j) = k \<and> j < obs_next ?s" if "map_of (obs_sessions ?s) k = Some j" for k j
      using that inv(1) [of k j] id by auto
    show "map_of (obs_lastAnalysis ?s) k = None \<longleftrightarrow> map_of (obs_sessions ?s) k = None" for k
      using inv(5) [of k] i by (simp add: map_of_map_set)
  qed
  then show ?thesis using p id change_events(1) [of ?ses key On_Bus] change_events(2) [of ?ses key] by (simp add: step moves_def on presence_run_append)
qed

lemma gone_moves:
  assumes inv: "sessions_inv s" and timer: "map_of (obs_timers s) t = Some (key, i)"
  shows "moves key Absent s (goneTimeout t s)" and "presence_of s key = Off_Bus"
proof -
  note inv = sessions_invD [OF inv]
  note now = inv(2) [OF timer]
  have id: "ses_id (obs_store s i) = key" using inv(1) now by blast
  show off: "presence_of s key = Off_Bus" using inv(4) [of key] now by simp
  let ?s = "s\<lparr>obs_timers := map_delete t (obs_timers s), obs_goneTimers := map_delete key (obs_goneTimers s),
    obs_sessions := map_delete key (obs_sessions s), obs_lastAnalysis := map_delete key (obs_lastAnalysis s)\<rparr>"
  have step: "goneTimeout t s = (?s, [Device_Gone (snapshot (obs_store s i))])" using timer by (simp add: goneTimeout_def)
  have p: "presence_of ?s k = (if k = key then Absent else presence_of s k)" for k
    by (simp add: presence_of_def map_of_delete split: option.split)
  have mine: "map_of (obs_timers s) t' = Some (key, j) \<Longrightarrow> t' = t" for t' j using inv(2) [of t' key j] now by simp
  have "sessions_inv ?s"
  proof (rule sessions_invI)
    show "map_of (obs_goneTimers ?s) k \<noteq> None \<longleftrightarrow> presence_of ?s k = Off_Bus" for k using inv(4) [of k] p by (auto simp: map_of_delete)
    show "\<exists>j. map_of (obs_timers ?s) t' = Some (k, j)" if "map_of (obs_goneTimers ?s) k = Some t'" for k t'
      using that inv(3) [of k t'] timer by (auto simp: map_of_delete split: if_splits)
    show "map_of (obs_goneTimers ?s) k = Some t' \<and> map_of (obs_sessions ?s) k = Some j \<and> t' < obs_next ?s"
      if "map_of (obs_timers ?s) t' = Some (k, j)" for t' k j
      using that inv(2) [of t' k j] mine by (auto simp: map_of_delete split: if_splits)
  qed (use inv(1,5) in \<open>auto simp: map_of_delete split: if_splits\<close>)
  then show "moves key Absent s (goneTimeout t s)" using p id by (simp add: step moves_def off)
qed

section \<open>Runs\<close>

text \<open>The subscription is never paused, and the bus lists every device once.\<close>

fun unpaused :: "usb_event \<Rightarrow> bool" where
  "unpaused (Observer_Start now bus) \<longleftrightarrow> distinct (map disc_deviceId bus)"
| "unpaused Watcher_Pause \<longleftrightarrow> False"
| "unpaused (Watcher_Resume bus) \<longleftrightarrow> False"
| "unpaused Observer_Dispose \<longleftrightarrow> False"
| "unpaused _ \<longleftrightarrow> True"

definition follows :: "observer \<Rightarrow> observer \<times> observer_event list \<Rightarrow> bool" where
  "follows s r \<longleftrightarrow>
     (\<forall>key. presence_run (presence_of s key) (events_of key (snd r)) = Some (presence_of (fst r) key))"

lemma moves_follows: "moves key p s r \<Longrightarrow> follows s r"
  unfolding follows_def moves_def by (metis presence_run.simps(1))

lemma follows_trans:
  "follows s (s1, es) \<Longrightarrow> follows s1 (s2, es') \<Longrightarrow> follows s (s2, es @ es')"
  by (simp add: follows_def presence_run_append)

lemma follows_refl [simp]: "follows s (s, [])"
  by (simp add: follows_def)

lemma seed_follows:
  assumes "sessions_inv s" and "distinct (map disc_deviceId bus)" and "\<forall>m\<in>set bus. presence_of s (disc_deviceId m) \<noteq> On_Bus"
  shows "sessions_inv (fst (seed cfg now bus s)) \<and> obs_watch (fst (seed cfg now bus s)) = obs_watch s \<and>
    follows s (seed cfg now bus s) \<and>
    (\<forall>key. presence_of (fst (seed cfg now bus s)) key = (if key \<in> disc_deviceId ` set bus then On_Bus else presence_of s key))"
  using assms
proof (induction bus arbitrary: s)
  case (Cons m bus)
  let ?r = "handleAttach cfg now True m s"
  have moves: "moves (disc_deviceId m) On_Bus s ?r" by (rule attach_moves) (use Cons.prems in auto)
  have "disc_deviceId m' \<noteq> disc_deviceId m" if "m' \<in> set bus" for m' using that Cons.prems(2) by (fastforce simp: image_iff)
  then have "sessions_inv (fst ?r)" "\<forall>m'\<in>set bus. presence_of (fst ?r) (disc_deviceId m') \<noteq> On_Bus"
    using moves Cons.prems(3) by (simp_all add: moves_def)
  note rest = Cons.IH [OF this(1) _ this(2)]
  obtain s1 es where r: "?r = (s1, es)" by (cases ?r)
  obtain s2 es' where r2: "seed cfg now bus s1 = (s2, es')" by (cases "seed cfg now bus s1")
  have "follows s (s1, es)" using moves_follows [OF moves] r by simp
  moreover have "follows s1 (s2, es')" using rest Cons.prems(2) by (simp add: r r2)
  ultimately have "follows s (s2, es @ es')" by (rule follows_trans)
  then show ?case using moves rest Cons.prems(2) by (auto simp: r r2 moves_def)
qed simp

lemma known_on: "map_of (known_on bus) key \<noteq> None \<longleftrightarrow> key \<in> disc_deviceId ` set bus"
  and known_on_id: "map_of (known_on bus) key = Some m \<Longrightarrow> disc_deviceId m = key"
  unfolding known_on_def by (induction bus rule: rev_induct) (auto simp: map_of_map_set split: if_splits)

lemma watchD:
  assumes "watch_inv s" and "obs_watch s = Some known"
  shows "map_of known key \<noteq> None \<longleftrightarrow> presence_of s key = On_Bus"
proof -
  have "\<forall>key. map_of known key \<noteq> None \<longleftrightarrow> presence_of s key = On_Bus"
    using assms(1) unfolding watch_inv_def assms(2) option.case by (rule conjunct1)
  then show ?thesis by (rule spec)
qed

lemma watched_moves:
  assumes moves: "moves key p s r" and watch: "obs_watch s = Some known'" and p: "p = On_Bus \<longleftrightarrow> map_of known' key \<noteq> None"
    and others: "\<And>k. k \<noteq> key \<Longrightarrow> map_of known' k \<noteq> None \<longleftrightarrow> presence_of s k = On_Bus"
    and ids: "\<And>k m. map_of known' k = Some m \<Longrightarrow> disc_deviceId m = k"
  shows "watch_inv (fst r)"
proof -
  have "map_of known' k \<noteq> None \<longleftrightarrow> presence_of (fst r) k = On_Bus" for k
    using moves p others [of k] by (cases "k = key") (auto simp: moves_def)
  then show ?thesis using moves watch ids by (simp add: watch_inv_def moves_def)
qed

lemma presence_watch [simp]: "presence_of (s\<lparr>obs_watch := w\<rparr>) key = presence_of s key"
  by (simp add: presence_of_def split: option.split)

lemma sessions_watch [simp]: "sessions_inv (s\<lparr>obs_watch := w\<rparr>) = sessions_inv s"
  by (simp add: sessions_inv_def)

lemma follows_watch [simp]: "follows (s\<lparr>obs_watch := w\<rparr>) r = follows s r"
  by (simp add: follows_def)

lemma step_follows:
  assumes inv: "sessions_inv s" "watch_inv s" and ok: "unpaused e"
  shows "sessions_inv (fst (observer_step cfg s e)) \<and> watch_inv (fst (observer_step cfg s e)) \<and> follows s (observer_step cfg s e)"
proof (cases e)
  case (Observer_Start now bus)
  show ?thesis
  proof (cases "obs_watch s")
    case None
    then have "obs_sessions s = []" using inv(2) by (simp add: watch_inv_def)
    then have none: "presence_of s key = Absent" for key by (simp add: presence_Absent)
    have seed: "sessions_inv (fst (seed cfg now bus s)) \<and> follows s (seed cfg now bus s) \<and>
        (\<forall>key. presence_of (fst (seed cfg now bus s)) key = (if key \<in> disc_deviceId ` set bus then On_Bus else Absent))"
      using seed_follows [of s bus cfg now] inv(1) ok none by (simp add: Observer_Start)
    obtain s1 es where r: "seed cfg now bus s = (s1, es)" by (cases "seed cfg now bus s")
    have step: "observer_step cfg s e = (s1\<lparr>obs_watch := Some (known_on bus)\<rparr>, es)"
      using None by (simp add: Observer_Start start_observer_def r)
    have "watch_inv (s1\<lparr>obs_watch := Some (known_on bus)\<rparr>)"
      using seed known_on [of bus] known_on_id [of bus] by (simp add: watch_inv_def r)
    then show ?thesis using seed unfolding step by (simp add: r follows_def)
  qed (use inv in \<open>simp add: Observer_Start start_observer_def\<close>)
next
  case (Usb_Attach now classified)
  show ?thesis
  proof (cases "\<exists>known m. obs_watch s = Some known \<and> classified = Some m \<and> map_of known (disc_deviceId m) = None")
    case True
    then obtain known m where w: "obs_watch s = Some known" and m: "classified = Some m" and new: "map_of known (disc_deviceId m) = None" by blast
    let ?k = "disc_deviceId m" and ?s = "s\<lparr>obs_watch := Some (map_set (disc_deviceId m) m known)\<rparr>"
    have step: "observer_step cfg s e = handleAttach cfg now False m ?s" by (simp add: Usb_Attach usb_attach_def w m new)
    have "presence_of ?s ?k \<noteq> On_Bus" using watchD [OF inv(2) w, of ?k] new by simp
    with inv(1) have moves: "moves ?k On_Bus ?s (observer_step cfg s e)" unfolding step by (intro attach_moves) simp_all
    have "watch_inv (fst (observer_step cfg s e))"
      by (rule watched_moves [OF moves]) (use inv(2) in \<open>auto simp: watch_inv_def w map_of_map_set split: if_splits\<close>)
    then show ?thesis using moves moves_follows [OF moves] by (simp add: moves_def)
  next
    case False
    then have "observer_step cfg s e = (s, [])" by (auto simp: Usb_Attach usb_attach_def split: option.split)
    then show ?thesis using inv by simp
  qed
next
  case (Usb_Detach now key)
  show ?thesis
  proof (cases "\<exists>known m. obs_watch s = Some known \<and> map_of known key = Some m")
    case True
    then obtain known m where w: "obs_watch s = Some known" and m: "map_of known key = Some m" by blast
    let ?s = "s\<lparr>obs_watch := Some (map_delete key known)\<rparr>"
    have id: "disc_deviceId m = key" using inv(2) m by (simp add: watch_inv_def w)
    have step: "observer_step cfg s e = handleDetach cfg now key ?s" by (simp add: Usb_Detach usb_detach_def w m id)
    have "presence_of ?s key = On_Bus" using inv(2) m by (auto simp: watch_inv_def w)
    with inv(1) have moves: "moves key Off_Bus ?s (observer_step cfg s e)" unfolding step by (intro detach_moves) simp_all
    have "watch_inv (fst (observer_step cfg s e))"
      by (rule watched_moves [OF moves]) (use inv(2) in \<open>auto simp: watch_inv_def w map_of_delete split: if_splits\<close>)
    then show ?thesis using moves moves_follows [OF moves] by (simp add: moves_def)
  next
    case False
    then have "observer_step cfg s e = (s, [])" by (auto simp: Usb_Detach usb_detach_def split: option.split)
    then show ?thesis using inv by simp
  qed
next
  case (Gone_Timeout t)
  show ?thesis
  proof (cases "map_of (obs_timers s) t")
    case (Some x)
    obtain key i where timer: "map_of (obs_timers s) t = Some (key, i)" using Some by (cases x) auto
    note gone = gone_moves [OF inv(1) timer]
    have "watch_inv (fst (goneTimeout t s))"
    proof (cases "obs_watch s")
      case None
      then have "obs_sessions s = []" using inv(2) by (simp add: watch_inv_def)
      then show ?thesis using gone(2) by (simp add: presence_of_def)
    next
      case (Some known)
      show ?thesis
        by (rule watched_moves [OF gone(1) Some]) (use inv(2) gone(2) in \<open>auto simp: watch_inv_def Some\<close>)
    qed
    then show ?thesis using gone(1) moves_follows [OF gone(1)] by (simp add: Gone_Timeout moves_def)
  qed (use inv in \<open>simp add: Gone_Timeout goneTimeout_def\<close>)
qed (use ok in simp_all)

lemma new_observer_inv: "sessions_inv new_observer" "watch_inv new_observer"
  by (auto simp: new_observer_def sessions_inv_def watch_inv_def presence_of_def)

lemma run_follows:
  assumes "sessions_inv s" "watch_inv s" and "\<forall>e\<in>set es. unpaused e"
  shows "sessions_inv (fst (mrun (observer_step cfg) s es)) \<and> watch_inv (fst (mrun (observer_step cfg) s es)) \<and>
    follows s (mrun (observer_step cfg) s es)"
  using assms
proof (induction es arbitrary: s)
  case (Cons e es)
  obtain s1 o1 where r1: "observer_step cfg s e = (s1, o1)" by (cases "observer_step cfg s e")
  obtain s2 o2 where r2: "mrun (observer_step cfg) s1 es = (s2, o2)" by (cases "mrun (observer_step cfg) s1 es")
  have first: "sessions_inv s1 \<and> watch_inv s1 \<and> follows s (s1, o1)" using step_follows [of s e cfg] Cons.prems r1 by simp
  with Cons.IH [of s1] Cons.prems(3) have "sessions_inv s2 \<and> watch_inv s2 \<and> follows s1 (s2, o2)" by (simp add: r2)
  with first follows_trans show ?case by (auto simp: r1 r2)
qed simp


definition demo_usb :: "usb_event list" where
  "demo_usb =
     (let m = \<lparr>disc_vendorId = 4817, disc_productId = 5382, disc_name = js ''E3372'', disc_deviceId = js ''1-1''\<rparr>
      in [Observer_Start 0 [m], Usb_Detach 5 (js ''1-1''), Usb_Attach 9 (Some m), Usb_Detach 20 (js ''1-1''), Gone_Timeout 2])"

definition demo_config :: observer_config where
  "demo_config = \<lparr>obs_resolvers = [], obs_maxCycleHistory = 1\<rparr>"


section \<open>Well-formed sessions\<close>

definition cycle_ok :: "usb_cycle \<Rightarrow> bool" where
  "cycle_ok c \<longleftrightarrow> detachedAt c \<noteq> None"

definition current_ok :: "jstr \<Rightarrow> usb_cycle option \<Rightarrow> bool" where
  "current_ok key current \<longleftrightarrow>
     (case current of None \<Rightarrow> True
      | Some c \<Rightarrow> detachedAt c = None \<and> (case cycle_modem c of None \<Rightarrow> False | Some m \<Rightarrow> disc_deviceId m = key))"

definition session_ok :: "nat \<Rightarrow> device_session \<Rightarrow> bool" where
  "session_ok n ses \<longleftrightarrow>
     length (ses_history ses) \<le> ses_maxHistory ses \<and> ses_maxHistory ses \<le> n \<and> list_all cycle_ok (ses_history ses) \<and>
     current_ok (ses_id ses) (ses_current ses)"

definition snapshot_ok :: "nat \<Rightarrow> session_snapshot \<Rightarrow> bool" where
  "snapshot_ok n snap \<longleftrightarrow>
     length (snap_history snap) \<le> n \<and> list_all cycle_ok (snap_history snap) \<and>
     snap_completedCycleCount snap = length (snap_history snap) \<and>
     (snap_onBus snap \<longleftrightarrow> snap_current snap \<noteq> None) \<and>
     current_ok (snap_deviceId snap) (snap_current snap) \<and>
     (snap_avgOnBus snap \<noteq> None \<longleftrightarrow> 2 \<le> length (snap_history snap)) \<and>
     (snap_avgOffBus snap \<noteq> None \<longleftrightarrow> 2 \<le> length (snap_history snap))"

lemma gaps_length: "list_all cycle_ok cs \<Longrightarrow> length (gaps cs) = length cs - 1"
  by (induction cs rule: gaps.induct) (auto simp: cycle_ok_def split: option.split)

lemma snapshot_session_ok: "session_ok n ses \<Longrightarrow> snapshot_ok n (snapshot ses)"
  using gaps_length [of "ses_history ses"]
  by (auto simp: session_ok_def snapshot_ok_def snapshot_def Let_def average_def)

lemma attach_session_ok:
  "session_ok n ses \<Longrightarrow> disc_deviceId m = ses_id ses \<Longrightarrow> session_ok n (recordAttach now pid name (Some m) ses)"
  by (simp add: session_ok_def recordAttach_def current_ok_def)

lemma detach_session_ok: "session_ok n ses \<Longrightarrow> session_ok n (recordDetach now ses)"
  by (auto simp: session_ok_def current_ok_def recordDetach_def Let_def cycle_ok_def list_all_iff dest: in_set_butlastD split: option.split)

lemma new_session_ok: "session_ok n (new_session now key vendor name n)"
  by (simp add: session_ok_def current_ok_def new_session_def)

text \<open>Every session object, also one that a timer still holds after the table was cleared.\<close>

definition objects_ok :: "nat \<Rightarrow> observer \<Rightarrow> bool" where
  "objects_ok n s \<longleftrightarrow>
     (\<forall>i. session_ok n (obs_store s i)) \<and> (\<forall>key i. map_of (obs_sessions s) key = Some i \<longrightarrow> ses_id (obs_store s i) = key \<and> i < obs_next s)"

lemma objects_okD:
  assumes "objects_ok n s"
  shows "session_ok n (obs_store s i)" and "map_of (obs_sessions s) key = Some i \<Longrightarrow> ses_id (obs_store s i) = key"
    and "map_of (obs_sessions s) key = Some i \<Longrightarrow> i < obs_next s"
  using assms unfolding objects_ok_def by blast+

lemma objects_okI:
  "(\<And>i. session_ok n (obs_store s i)) \<Longrightarrow>
    (\<And>key i. map_of (obs_sessions s) key = Some i \<Longrightarrow> ses_id (obs_store s i) = key \<and> i < obs_next s) \<Longrightarrow> objects_ok n s"
  unfolding objects_ok_def by blast

lemma new_object_ok:
  assumes ok: "objects_ok n s" and ses: "session_ok n ses" "ses_id ses = key"
  shows "objects_ok n (s\<lparr>obs_store := (obs_store s)(obs_next s := ses), obs_sessions := map_set key (obs_next s) (obs_sessions s),
    obs_next := Suc (obs_next s)\<rparr>)" (is "objects_ok n ?s")
proof (rule objects_okI)
  show "session_ok n (obs_store ?s i)" for i using objects_okD(1) [OF ok] ses by simp
  show "ses_id (obs_store ?s i) = k \<and> i < obs_next ?s" if i: "map_of (obs_sessions ?s) k = Some i" for k i
  proof (cases "k = key")
    case True
    then show ?thesis using i ses by (simp add: map_of_map_set)
  next
    case False
    then have "map_of (obs_sessions s) k = Some i" using i by (simp add: map_of_map_set)
    then show ?thesis using objects_okD(2,3) [OF ok] by (fastforce intro: less_SucI)
  qed
qed

lemma same_object_ok:
  assumes ok: "objects_ok n s" and ses: "session_ok n ses" "ses_id ses = ses_id (obs_store s i)"
    and s': "obs_store s' = (obs_store s)(i := ses)" "map_of (obs_sessions s') \<subseteq>\<^sub>m map_of (obs_sessions s)" "obs_next s \<le> obs_next s'"
  shows "objects_ok n s'"
proof (rule objects_okI)
  show "session_ok n (obs_store s' j)" for j using objects_okD(1) [OF ok] ses s'(1) by simp
  show "ses_id (obs_store s' j) = k \<and> j < obs_next s'" if "map_of (obs_sessions s') k = Some j" for k j
  proof -
    have "map_of (obs_sessions s) k = Some j" using that s'(2) by (metis domI map_le_def)
    from objects_okD(2,3) [OF ok this] show ?thesis using ses s'(1,3) by auto
  qed
qed

lemma less_object_ok:
  "objects_ok n s \<Longrightarrow> obs_store s' = obs_store s \<Longrightarrow> map_of (obs_sessions s') \<subseteq>\<^sub>m map_of (obs_sessions s) \<Longrightarrow>
    obs_next s' = obs_next s \<Longrightarrow> objects_ok n s'"
  by (rule same_object_ok [where i = 0 and ses = "obs_store s 0"]) (auto intro: objects_okD(1))

definition shows_ok :: "nat \<Rightarrow> observer_event list \<Rightarrow> bool" where
  "shows_ok n es \<longleftrightarrow> list_all (\<lambda>e. snapshot_ok n (event_snapshot e)) es"

lemma change_shows: "snapshot_ok n snap \<Longrightarrow> shows_ok n (change_of previous snap a)"
  by (simp add: change_of_def shows_ok_def split: option.split)

lemma cancel_gone_same [simp]:
  "obs_store (cancel_gone key s) = obs_store s" "obs_sessions (cancel_gone key s) = obs_sessions s" "obs_next (cancel_gone key s) = obs_next s"
  by (simp_all add: cancel_gone_def split: option.split)

lemma attach_ok:
  assumes ok: "objects_ok (obs_maxCycleHistory cfg) s"
  shows "objects_ok (obs_maxCycleHistory cfg) (fst (handleAttach cfg now isSeed m s)) \<and>
    shows_ok (obs_maxCycleHistory cfg) (snd (handleAttach cfg now isSeed m s))"
proof -
  let ?n = "obs_maxCycleHistory cfg" and ?key = "disc_deviceId m"
  obtain s1 i where get: "get_session cfg now m (cancel_gone ?key s) = (s1, i)" by (cases "get_session cfg now m (cancel_gone ?key s)")
  have s1: "objects_ok ?n s1 \<and> ses_id (obs_store s1 i) = ?key"
  proof (cases "map_of (obs_sessions s) ?key")
    case None
    have "objects_ok ?n (cancel_gone ?key s)" by (rule less_object_ok [OF ok]) simp_all
    from new_object_ok [OF this new_session_ok new_session_id] get None show ?thesis
      by (auto simp: get_session_def Let_def)
  next
    case (Some j)
    then have "s1 = cancel_gone ?key s" "i = j" using get by (simp_all add: get_session_def)
    then show ?thesis using less_object_ok [OF ok] objects_okD(2) [OF ok Some] by simp
  qed
  let ?ses = "recordAttach now (disc_productId m) (disc_name m) (Some m) (obs_store s1 i)"
  have ses: "session_ok ?n ?ses" "snapshot_ok ?n (snapshot ?ses)"
  proof -
    show "session_ok ?n ?ses" by (rule attach_session_ok [OF objects_okD(1) [OF conjunct1 [OF s1]]]) (simp add: s1)
    then show "snapshot_ok ?n (snapshot ?ses)" by (rule snapshot_session_ok)
  qed
  have "objects_ok ?n (s1\<lparr>obs_store := (obs_store s1)(i := ?ses), obs_lastAnalysis := la\<rparr>)" for la
    by (rule same_object_ok [OF conjunct1 [OF s1] ses(1), of i]) simp_all
  moreover have "shows_ok ?n (change_of previous (snapshot ?ses) a @ [Device_Attached (snapshot ?ses) a])" for previous a
    using ses(2) change_shows [OF ses(2)] by (simp add: shows_ok_def)
  ultimately show ?thesis using ses(2) by (simp add: handleAttach_def get Let_def shows_ok_def)
qed

lemma detach_ok:
  assumes ok: "objects_ok n s"
  shows "objects_ok n (fst (handleDetach cfg now key s)) \<and> shows_ok n (snd (handleDetach cfg now key s))"
proof (cases "map_of (obs_sessions s) key")
  case (Some i)
  let ?ses = "recordDetach now (obs_store s i)"
  have ses: "session_ok n ?ses" "snapshot_ok n (snapshot ?ses)"
    using objects_okD(1) [OF ok] by (auto intro: detach_session_ok snapshot_session_ok)
  have "shows_ok n (change_of previous (snapshot ?ses) a @ [Device_Detached (snapshot ?ses) a])" for previous a
    using ses(2) change_shows [OF ses(2)] by (simp add: shows_ok_def)
  moreover have "objects_ok n (fst (handleDetach cfg now key s))"
    by (rule same_object_ok [OF ok ses(1), of i]) (simp_all add: handleDetach_def Let_def Some)
  ultimately show ?thesis by (simp add: handleDetach_def Let_def Some)
qed (use ok in \<open>simp add: handleDetach_def shows_ok_def\<close>)

lemma seed_ok:
  "objects_ok (obs_maxCycleHistory cfg) s \<Longrightarrow> objects_ok (obs_maxCycleHistory cfg) (fst (seed cfg now bus s)) \<and>
    shows_ok (obs_maxCycleHistory cfg) (snd (seed cfg now bus s))"
proof (induction bus arbitrary: s)
  case (Cons m bus)
  show ?case using attach_ok [OF Cons.prems, of now True m] Cons.IH [of "fst (handleAttach cfg now True m s)"]
    by (auto simp: split_beta Let_def shows_ok_def)
qed (simp add: shows_ok_def)

lemma step_ok:
  assumes ok: "objects_ok (obs_maxCycleHistory cfg) s"
  shows "objects_ok (obs_maxCycleHistory cfg) (fst (observer_step cfg s e)) \<and> shows_ok (obs_maxCycleHistory cfg) (snd (observer_step cfg s e))"
proof -
  let ?n = "obs_maxCycleHistory cfg"
  have watch: "objects_ok n (s\<lparr>obs_watch := w\<rparr>) = objects_ok n s" for n w s by (simp add: objects_ok_def)
  have same: "objects_ok ?n s \<and> shows_ok ?n []" using ok by (simp add: shows_ok_def)
  show ?thesis
  proof (cases e)
    case (Observer_Start now bus)
    then show ?thesis using seed_ok [OF ok, of now bus] same by (simp add: start_observer_def split_beta Let_def watch)
  next
    case (Usb_Attach now classified)
    then show ?thesis using attach_ok [of cfg "s\<lparr>obs_watch := w\<rparr>" now False for w] ok same
      by (simp add: usb_attach_def watch split: option.split)
  next
    case (Usb_Detach now key)
    then show ?thesis using detach_ok [of ?n "s\<lparr>obs_watch := w\<rparr>" cfg now for w] ok same
      by (simp add: usb_detach_def watch split: option.split)
  next
    case (Gone_Timeout t)
    have "objects_ok ?n (fst (goneTimeout t s))"
      by (rule less_object_ok [OF ok]) (simp_all add: goneTimeout_def map_of_delete map_le_def split: option.split prod.split)
    moreover have "shows_ok ?n (snd (goneTimeout t s))"
      using snapshot_session_ok [OF objects_okD(1) [OF ok]] by (simp add: goneTimeout_def shows_ok_def split: option.split prod.split)
    ultimately show ?thesis by (simp add: Gone_Timeout)
  next
    case Observer_Dispose
    have "objects_ok ?n (dispose_observer s)" by (rule less_object_ok [OF ok]) (simp_all add: dispose_observer_def)
    then show ?thesis by (simp add: Observer_Dispose shows_ok_def)
  qed (use ok same in \<open>simp_all add: pauseWatcher_def resumeWatcher_def watch\<close>)
qed

interpretation observer_machine: machine "observer_step cfg" "\<lambda>s. s = new_observer" "objects_ok (obs_maxCycleHistory cfg)" for cfg
proof unfold_locales
  show "objects_ok (obs_maxCycleHistory cfg) s" if "s = new_observer" for s
    using that by (simp add: objects_ok_def new_observer_def session_ok_def current_ok_def new_session_def)
qed (use step_ok in blast)

text \<open>C33: Every session that the observer reports is well formed, in every run, paused or not: the history has at most the configured
  number of cycles, all of them completed; the present cycle is open and belongs to the device of the session; the count is that of the
  history, and both averages are there exactly from two completed cycles on.
\<close>

theorem observer_reports_well_formed:
  "list_all (\<lambda>e. snapshot_ok (obs_maxCycleHistory cfg) (event_snapshot e)) (snd (mrun (observer_step cfg) new_observer es))"
  unfolding list_all_iff
proof
  fix e assume e: "e \<in> set (snd (mrun (observer_step cfg) new_observer es))"
  show "snapshot_ok (obs_maxCycleHistory cfg) (event_snapshot e)"
  proof (rule observer_machine.run_output [OF _ _ e])
    show "objects_ok (obs_maxCycleHistory cfg) new_observer" by (rule observer_machine.init_inv) simp
    show "snapshot_ok (obs_maxCycleHistory cfg) (event_snapshot o')"
      if "objects_ok (obs_maxCycleHistory cfg) t" "o' \<in> set (snd (observer_step cfg t e'))" for t e' o'
      using step_ok [OF that(1)] that(2) by (auto simp: shows_ok_def list_all_iff)
  qed
qed

end
