(* ===== verification/Fleet_Compose.thy ===== *)
theory Fleet_Compose imports Fleet_Pool_Modems Device_Observer_Props begin

text \<open>
  The observer and the pool together: the events of the observer are the calls of the listeners of the pool, in order. What the pool
  relies on about them follows from the protocol of the observer, so that the ownership of the modems holds for the composition with
  assumptions on the modems alone.
\<close>

section \<open>The composition\<close>

fun pool_event_of :: "int \<Rightarrow> observer_event \<Rightarrow> pool_event" where
  "pool_event_of now (Device_Appeared snap a) = Appeared now snap a"
| "pool_event_of now (Device_Attached snap a) = Attached snap a"
| "pool_event_of now (Device_Detached snap a) = Detached snap"
| "pool_event_of now (Device_State_Changed snap a p) = State_Changed snap a"
| "pool_event_of now (Device_Gone snap) = Gone snap"

datatype fleet_event = Usb int usb_event | Runtime pool_event

fun pool_events :: "observer_config \<Rightarrow> observer \<Rightarrow> fleet_event \<Rightarrow> pool_event list" where
  "pool_events cfg obs (Usb now e) = map (pool_event_of now) (snd (observer_step cfg obs e))"
| "pool_events cfg obs (Runtime e) = [e]"

fun observe :: "observer_config \<Rightarrow> observer \<Rightarrow> fleet_event \<Rightarrow> observer" where
  "observe cfg obs (Usb now e) = fst (observer_step cfg obs e)"
| "observe cfg obs (Runtime e) = obs"

definition fleet_step ::
  "bool \<Rightarrow> observer_config \<Rightarrow> observer \<times> pool \<Rightarrow> fleet_event \<Rightarrow> (observer \<times> pool) \<times> pool_output list" where
  "fleet_step auto cfg s e =
     (let (p, out) = mrun (pool_step auto) (snd s) (pool_events cfg (fst s) e) in ((observe cfg (fst s) e, p), out))"

fun is_runtime :: "pool_event \<Rightarrow> bool" where
  "is_runtime (Assessment_Timeout t) = True"
| "is_runtime (Retry_Timeout t) = True"
| "is_runtime (Provisioned p result) = True"
| "is_runtime (Progress p phase) = True"
| "is_runtime (Connected p result) = True"
| "is_runtime (Stale_Closed p err) = True"
| "is_runtime (Modem_Closed i) = True"
| "is_runtime _ = False"

section \<open>What the events of the runtime change\<close>

definition calm :: "pool \<Rightarrow> pool \<Rightarrow> bool" where
  "calm s s' \<longleftrightarrow>
     pool_devices s' = pool_devices s \<and> pool_stopping s' = pool_stopping s \<and> (\<forall>d. stage s d = Offline \<longrightarrow> stage s' d = Offline)"

lemma calm_refl [simp]: "calm s s" and calm_trans: "calm s s' \<Longrightarrow> calm s' s'' \<Longrightarrow> calm s s''"
  by (simp_all add: calm_def)

lemma calm_steady: "steady d s s' \<Longrightarrow> stage s d \<noteq> Offline \<or> stage s' d = stage s d \<Longrightarrow> calm s s'"
  unfolding calm_def steady_def stage_def by metis

lemma pipeline_failed_calm:
  assumes inv: "pool_inv s" and pl: "map_of (pool_pipelines s) p = Some pl"
  shows "calm s (fst (pipeline_failed p pl err s))"
proof -
  let ?d = "pl_device pl" and ?s1 = "end_pipeline p s"
  define s2 where "s2 = fst (setReadiness ?d (Stage_Error err (md_retryCount (pool_store s ?d) < MAX_ERROR_RETRIES)) ?s1)"
  have steady: "steady ?d s s2" unfolding s2_def by (rule steady_trans [OF steady_ops(6) steady_ops(3)])
  have step: "fst (pipeline_failed p pl err s) = ?s1 \<or>
      \<not> stale s pl \<and> (fst (pipeline_failed p pl err s) = s2 \<or> fst (pipeline_failed p pl err s) = scheduleRetry ?d (pl_modem pl) s2)"
    by (auto simp: pipeline_failed_def end_pipeline_def stale_def s2_def Let_def)
  have "stage s ?d \<noteq> Offline" if "\<not> stale s pl" using fresh_busy(1) [OF inv pl that] by auto
  moreover have "calm s ?s1" by (simp add: calm_def stage_def)
  ultimately show ?thesis
    using step calm_steady [OF steady] calm_steady [OF steady_trans [OF steady steady_schedule]] by auto
qed

lemma end_calm: "calm s (s\<lparr>pool_pipelines := ps\<rparr>)"
  by (simp add: calm_def stage_def)

lemma on_close_calm: "calm s (fst (on_close ds s))"
proof (induction ds arbitrary: s)
  case (Cons d ds)
  have "calm s (fst (setReadiness d Offline s))" by (simp add: calm_def stage_def)
  with Cons [of s] Cons [of "fst (setReadiness d Offline s)"] show ?case by (auto intro: calm_trans simp del: setReadiness_simps)
qed simp

lemma retry_calm: "pool_inv s \<Longrightarrow> calm s (fst (retry_timeout t s))"
proof (cases "map_of (pool_retries s) t")
  case (Some x)
  assume inv: "pool_inv s"
  obtain d g m where timer: "map_of (pool_retries s) t = Some (d, g, m)" using Some by (cases x) auto
  let ?s1 = "clearRetryTimer d s"
  let ?s2 = "fst (startPreparing d m (update_device d (md_retryCount_update Suc) ?s1))"
  have "fst (retry_timeout t s) = ?s1 \<or> is_error (stage s d) \<and> fst (retry_timeout t s) = ?s2"
    using timer by (auto simp: retry_timeout_def retry_timeout_clear [OF inv timer] Let_def stage_def)
  moreover have "calm s ?s1" by (rule calm_steady [OF steady_ops(1)]) (simp add: stage_def)
  moreover have "calm s ?s2" if "is_error (stage s d)"
    by (rule calm_steady [OF steady_trans [OF steady_trans [OF steady_ops(1) steady_ops(10)] steady_ops(4)]]) (use that in auto)
  ultimately show ?thesis by auto
qed (simp add: retry_timeout_def)

lemma assessment_calm: "pool_inv s \<Longrightarrow> calm s (fst (assessment_timeout t s))"
proof (cases "map_of (pool_assessments s) t")
  case (Some x)
  assume inv: "pool_inv s"
  obtain d g a where timer: "map_of (pool_assessments s) t = Some (d, g, a)" using Some by (cases x) auto
  let ?s1 = "clearAssessmentTimer d s"
  let ?s2 = "fst (setReadiness d (Stage_Error (js ''Device stuck in critical state: '' @ an_description a) True)
    (update_device d (md_stalled_update (\<lambda>_. True)) ?s1))"
  have "fst (assessment_timeout t s) = ?s1 \<or> is_assessing (stage s d) \<and> fst (assessment_timeout t s) = ?s2"
    using timer by (auto simp: assessment_timeout_def assessment_timeout_clear [OF inv timer] Let_def stage_def simp del: setReadiness_simps)
  moreover have "calm s ?s1" by (rule calm_steady [OF steady_ops(2)]) (simp add: stage_def)
  moreover have "calm s ?s2" if "is_assessing (stage s d)"
    by (rule calm_steady [OF steady_trans [OF steady_trans [OF steady_ops(2) steady_ops(9)] steady_ops(3)]]) (use that in auto)
  ultimately show ?thesis by auto
qed (simp add: assessment_timeout_def)

lemma pipeline_calm:
  assumes inv: "pool_inv s" and pl: "map_of (pool_pipelines s) p = Some pl"
  shows "calm s (fst (provisioned p pl result s))" and "calm s (fst (progress pl phase s))" and "calm s (fst (connected p pl ending s))"
    and "calm s (fst (stale_closed p pl err s))"
proof -
  have busy: "stage s (pl_device pl) \<noteq> Offline" if "\<not> stale s pl" using fresh_busy(1) [OF inv pl that] by auto
  have staged: "calm s (f (fst (setReadiness (pl_device pl) r s')))"
    if "\<not> stale s pl" "\<And>u. pool_store (f u) = pool_store u" "\<And>u. pool_devices (f u) = pool_devices u" "\<And>u. pool_stopping (f u) = pool_stopping u"
      "pool_devices s' = pool_devices s" "pool_stopping s' = pool_stopping s" "\<And>d. stage s' d = stage s d" for f r s'
    using that(2-7) busy [OF that(1)] by (auto simp: calm_def stage_def)
  show "calm s (fst (provisioned p pl result s))"
    using pipeline_failed_calm [OF inv pl] end_calm staged [of "set_phase p pl Opening" s]
    by (auto simp: provisioned_def simp del: setReadiness_simps split: sum.split)
  show "calm s (fst (progress pl phase s))" using staged [of "\<lambda>u. u" s] by (auto simp: progress_def simp del: setReadiness_simps)
  show "calm s (fst (stale_closed p pl err s))"
    using pipeline_failed_calm [OF inv pl] end_calm by (auto simp: stale_closed_def split: option.split)
  show "calm s (fst (connected p pl ending s))"
  proof (cases ending)
    case (Inr x)
    obtain i report where x: "x = (i, report)" by (cases x)
    let ?s = "wireModem (pl_device pl) i s"
    have wired: "calm s ?s" by (simp add: calm_def stage_def)
    have "pool_inv ?s" by (rule wireModem_inv [OF inv used_less(2) [OF inv_ids [OF inv] pl]])
    then have failed: "calm s (fst (pipeline_failed p pl err ?s))" for err
      by (intro calm_trans [OF wired] pipeline_failed_calm) (simp_all add: pl)
    show ?thesis
      using failed staged [of "\<lambda>u. u\<lparr>pool_pipelines := map_delete p (pool_pipelines u)\<rparr>" ?s]
      by (auto simp: Inr x connected_def Let_def set_phase_def end_calm stage_def simp del: setReadiness_simps split: option.split)
  qed (use pipeline_failed_calm [OF inv pl] in \<open>simp add: connected_def\<close>)
qed

lemma runtime_calm: "pool_inv s \<Longrightarrow> is_runtime e \<Longrightarrow> calm s (fst (pool_step auto s e))"
  by (cases e) (simp_all add: for_pipeline_def retry_calm assessment_calm on_close_calm pipeline_calm split: option.split)

section \<open>The pool follows the presence of the devices\<close>

definition linked :: "(jstr \<Rightarrow> presence) \<Rightarrow> pool \<Rightarrow> bool" where
  "linked P s \<longleftrightarrow>
     pool_inv s \<and> pool_stopping s = 0 \<and>
     (\<forall>key. (tracked s key = None \<longleftrightarrow> P key = Absent) \<and>
       (P key = Off_Bus \<longrightarrow> (\<forall>d. tracked s key = Some d \<longrightarrow> stage s d = Offline)))"

lemma linkedD:
  assumes "linked P s"
  shows "pool_inv s" and "pool_stopping s = 0" and "tracked s key = None \<longleftrightarrow> P key = Absent"
    and "P key = Off_Bus \<Longrightarrow> tracked s key = Some d \<Longrightarrow> stage s d = Offline"
  using assms unfolding linked_def by blast+

lemma calm_linked: "linked P s \<Longrightarrow> calm s s' \<Longrightarrow> pool_inv s' \<Longrightarrow> linked P s'"
  by (simp add: linked_def calm_def tracked_def)

text \<open>An event of one device leaves the devices under the other keys.\<close>

lemma distinct_devices:
  "pool_inv s \<Longrightarrow> tracked s k = Some d \<Longrightarrow> tracked s k' = Some d \<Longrightarrow> k = k'"
  using inv_keys [of s] unfolding keys_ok_def by metis

lemma linked_update:
  assumes link: "linked P s" and inv: "pool_inv s'" and "pool_stopping s' = 0"
    and others: "\<And>k. k \<noteq> key \<Longrightarrow> tracked s' k = tracked s k"
      "\<And>k d. k \<noteq> key \<Longrightarrow> tracked s k = Some d \<Longrightarrow> stage s' d = stage s d"
    and here: "tracked s' key = None \<longleftrightarrow> p = Absent" "\<And>d. p = Off_Bus \<Longrightarrow> tracked s' key = Some d \<Longrightarrow> stage s' d = Offline"
  shows "linked (P(key := p)) s'"
  using link others here assms(2,3) by (auto simp: linked_def)

definition local_to :: "nat \<Rightarrow> pool \<Rightarrow> pool \<Rightarrow> bool" where
  "local_to d s s' \<longleftrightarrow>
     (\<forall>e. e \<noteq> d \<longrightarrow> pool_store s' e = pool_store s e) \<and> pool_devices s' = pool_devices s \<and> pool_stopping s' = pool_stopping s"

lemma local_steady: "steady d s s' \<Longrightarrow> local_to d s s'"
  by (simp add: local_to_def steady_def)

lemma local_trans: "local_to d s s' \<Longrightarrow> local_to d s' s'' \<Longrightarrow> local_to d s s''"
  by (simp add: local_to_def)

lemma reattached_local: "local_to d s (fst (onDeviceReattached auto snap a d s))"
proof (cases "pd_readiness (pool_store s d) = Offline")
  case True
  define s1 where "s1 = fst (setReadiness d Detected (update_device d (md_retryCount_update (\<lambda>_. 0))
    (next_generation d (new_abort d (update_device d (pd_session_update (\<lambda>_. snap)) s)))))"
  have "local_to d s s1" by (simp add: local_to_def s1_def next_generation_def new_abort_def)
  moreover from this have "local_to d s (fst (startAssessment d snap a s1))"
    by (rule local_trans) (rule local_steady [OF steady_assessment])
  ultimately show ?thesis using True by (simp add: onDeviceReattached_def Let_def s1_def del: setReadiness_simps)
qed (simp add: onDeviceReattached_def Let_def local_to_def)

lemma detached_local: "local_to d s (fst (onDeviceDetached snap d s)) \<and> stage (fst (onDeviceDetached snap d s)) d = Offline"
  by (simp add: onDeviceDetached_def Let_def local_to_def stage_def next_generation_def new_abort_def)

lemma changed_local:
  "local_to d s (fst (onStateChanged snap a d s)) \<and> (stage s d = Offline \<longrightarrow> stage (fst (onStateChanged snap a d s)) d = Offline)"
proof -
  let ?s1 = "update_device d (pd_session_update (\<lambda>_. snap)) s"
  let ?s2 = "update_device d (md_stalled_update (\<lambda>_. False)) ?s1"
  have updated: "local_to d s ?s1" "local_to d s ?s2" by (simp_all add: local_to_def)
  have "local_to d s (fst (evaluateAssessment d snap a ?s1))" "local_to d s (fst (evaluateAssessment d snap a ?s2))"
    using updated by (auto intro: local_trans [OF _ local_steady [OF steady_evaluate]])
  with updated(1) show ?thesis by (auto simp: onStateChanged_def Let_def stage_def)
qed

lemma linked_local:
  assumes link: "linked P s" and key: "tracked s key = Some d" and here: "local_to d s s'" and inv: "pool_inv s'"
    and p: "p \<noteq> Absent" "p = Off_Bus \<Longrightarrow> stage s' d = Offline"
  shows "linked (P(key := p)) s'"
proof (rule linked_update [OF link inv])
  have devices: "tracked s' k = tracked s k" for k using here by (simp add: local_to_def tracked_def)
  then show "tracked s' k = tracked s k" if "k \<noteq> key" for k .
  show "pool_stopping s' = 0" using here linkedD(2) [OF link] by (simp add: local_to_def)
  show "stage s' e = stage s e" if "k \<noteq> key" "tracked s k = Some e" for k e
  proof -
    have "e \<noteq> d" using distinct_devices [OF linkedD(1) [OF link] key] that by metis
    then show ?thesis using here by (simp add: local_to_def stage_def)
  qed
  show "tracked s' key = None \<longleftrightarrow> p = Absent" using devices key p(1) by simp
  show "stage s' e = Offline" if "p = Off_Bus" "tracked s' key = Some e" for e using that p(2) devices key by simp
qed

text \<open>An event that the protocol allows is one the pool is ready for, and keeps the link.\<close>

lemma link_step:
  assumes link: "linked P s" and protocol: "presence_step (P (snap_deviceId (event_snapshot e))) e = Some p"
  shows "event_ok s opened ended (pool_event_of now e)"
    and "linked (P(snap_deviceId (event_snapshot e) := p)) (fst (pool_step auto s (pool_event_of now e)))"
proof -
  let ?k = "snap_deviceId (event_snapshot e)" and ?s' = "fst (pool_step auto s (pool_event_of now e))"
  have inv: "pool_inv ?s'" by (rule pool_step_inv [OF linkedD(1) [OF link]])
  note inv0 = linkedD(1) [OF link] and calm0 = linkedD(2) [OF link]
  have "event_ok s opened ended (pool_event_of now e) \<and> linked (P(?k := p)) ?s'"
  proof (cases e)
    case (Device_Appeared snap a)
    have P: "P ?k = Absent" "p = On_Bus" using protocol by (cases "P ?k"; simp add: Device_Appeared)+
    let ?d = "pool_next s"
    have none: "tracked s ?k = None" using linkedD(3) [OF link] P by simp
    define D where "D = \<lparr>pd_vendorId = snap_vendorId snap, pd_name = snap_vendorName snap, pd_readiness = Detected, pd_session = snap,
      pd_firstSeenAt = now, md_abort = 0, md_generation = 0, md_listeners = None, md_retryTimer = None, md_assessmentTimer = None,
      md_stalled = False, md_retryCount = 0\<rparr>"
    define s1 where "s1 = s\<lparr>pool_store := (pool_store s)(?d := D), pool_devices := map_set ?k ?d (pool_devices s), pool_next := Suc ?d\<rparr>"
    have "?s' = (if auto then fst (startAssessment ?d snap a s1) else s1)"
      by (simp add: Device_Appeared onDeviceAppeared_def s1_def D_def Let_def device_key_def)
    then have steady: "steady ?d s1 ?s'" using steady_assessment by simp
    have tracked: "tracked ?s' k = (if k = ?k then Some ?d else tracked s k)" for k
      using steady by (simp add: steady_def s1_def tracked_def map_of_map_set)
    have "linked (P(?k := p)) ?s'"
    proof (rule linked_update [OF link inv])
      show "pool_stopping ?s' = 0" using steady calm0 by (simp add: steady_def s1_def)
      show "stage ?s' e' = stage s e'" if "tracked s k = Some e'" for k e'
      proof -
        have "e' \<noteq> ?d" using used_less(1) [OF inv_ids [OF inv0] that] by simp
        then show ?thesis using steady by (simp add: steady_def s1_def stage_def)
      qed
    qed (use tracked P in auto)
    then show ?thesis using calm0 none by (simp add: Device_Appeared device_key_def)
  next
    case (Device_Attached snap a)
    have P: "P ?k = Off_Bus" "p = On_Bus" using protocol by (cases "P ?k"; simp add: Device_Attached)+
    then obtain d where d: "tracked s ?k = Some d" using linkedD(3) [OF link, of ?k] by auto
    have "linked (P(?k := p)) ?s'"
      by (rule linked_local [OF link d _ inv]) (use P d reattached_local in \<open>simp_all add: Device_Attached for_device_def device_key_def\<close>)
    then show ?thesis using calm0 by (simp add: Device_Attached)
  next
    case (Device_Detached snap a)
    have P: "P ?k = On_Bus" "p = Off_Bus" using protocol by (cases "P ?k"; simp add: Device_Detached)+
    then obtain d where d: "tracked s ?k = Some d" using linkedD(3) [OF link, of ?k] by auto
    have "linked (P(?k := p)) ?s'"
      by (rule linked_local [OF link d _ inv])
        (use P d detached_local [of d s snap] in \<open>simp_all add: Device_Detached for_device_def device_key_def\<close>)
    then show ?thesis by (simp add: Device_Detached)
  next
    case (Device_State_Changed snap a previous)
    have P: "P ?k \<noteq> Absent" "p = P ?k" using protocol by (cases "P ?k"; simp add: Device_State_Changed)+
    then obtain d where d: "tracked s ?k = Some d" using linkedD(3) [OF link, of ?k] by auto
    have "linked (P(?k := p)) ?s'"
      by (rule linked_local [OF link d _ inv])
        (use P d changed_local [of d s snap a] linkedD(4) [OF link _ d] in \<open>simp_all add: Device_State_Changed for_device_def device_key_def\<close>)
    then show ?thesis by (simp add: Device_State_Changed)
  next
    case (Device_Gone snap)
    have P: "P ?k = Off_Bus" "p = Absent" using protocol by (cases "P ?k"; simp add: Device_Gone)+
    then obtain d where d: "tracked s ?k = Some d" using linkedD(3) [OF link, of ?k] by auto
    have off: "stage s d = Offline" using linkedD(4) [OF link P(1) d] .
    have step: "?s' = fst (onDeviceGone ?k d s)" using d by (simp add: Device_Gone for_device_def device_key_def)
    have parts: "tracked ?s' k = (if k = ?k then None else tracked s k)" "pool_stopping ?s' = pool_stopping s" "stage ?s' e' = stage s e'" for k e'
      by (simp_all add: step onDeviceGone_def Let_def tracked_def map_of_delete stage_def)
    have "linked (P(?k := p)) ?s'" by (rule linked_update [OF link inv]) (use parts P calm0 in auto)
    moreover have "event_ok s opened ended (Gone snap)" using d off by (simp add: Device_Gone device_key_def stage_def)
    ultimately show ?thesis by (simp add: Device_Gone)
  qed
  then show "event_ok s opened ended (pool_event_of now e)" "linked (P(?k := p)) ?s'" by blast+
qed

lemma link_events:
  assumes "linked P s" and "\<And>key. presence_run (P key) (events_of key es) = Some (P' key)"
  shows "orderly auto s opened ended (map (pool_event_of now) es)"
    and "linked P' (fst (mrun (pool_step auto) s (map (pool_event_of now) es)))"
proof -
  have "orderly auto s opened ended (map (pool_event_of now) es) \<and> linked P' (fst (mrun (pool_step auto) s (map (pool_event_of now) es)))"
    using assms
  proof (induction es arbitrary: P s)
    case Nil
    then have "P = P'" by (simp add: fun_eq_iff)
    then show ?case using Nil by simp
  next
    case (Cons e es)
    let ?k = "snap_deviceId (event_snapshot e)"
    obtain p where p: "presence_step (P ?k) e = Some p" using Cons.prems(2) [of ?k] by (auto split: option.splits)
    have rest: "presence_run ((P(?k := p)) key) (events_of key es) = Some (P' key)" for key
      using Cons.prems(2) [of key] p by (cases "key = ?k") auto
    have "opened_by (pool_event_of now e) = []" "ended_by (pool_event_of now e) = []" by (cases e; simp)+
    then show ?case
      using link_step(1) [OF Cons.prems(1) p, of opened ended now] Cons.IH [OF link_step(2) [OF Cons.prems(1) p, of auto now] rest]
      by (simp add: mrun_Cons del: mrun.simps)
  qed
  then show "orderly auto s opened ended (map (pool_event_of now) es)"
    "linked P' (fst (mrun (pool_step auto) s (map (pool_event_of now) es)))" by blast+
qed

section \<open>Runs of the composition\<close>

text \<open>
  A run without pauses, stops and restarts, where a modem that is handed over is a new one, with a report, and closes once.
\<close>

fun fleet_ok :: "bool \<Rightarrow> observer_config \<Rightarrow> observer \<times> pool \<Rightarrow> nat list \<Rightarrow> nat list \<Rightarrow> fleet_event list \<Rightarrow> bool" where
  "fleet_ok auto cfg s opened ended [] = True"
| "fleet_ok auto cfg s opened ended (Usb now e # es) =
     (unpaused e \<and> fleet_ok auto cfg (fst (fleet_step auto cfg s (Usb now e))) opened ended es)"
| "fleet_ok auto cfg s opened ended (Runtime e # es) =
     (is_runtime e \<and> event_ok (snd s) opened ended e \<and>
      fleet_ok auto cfg (fst (fleet_step auto cfg s (Runtime e))) (opened_by e @ opened) (ended_by e @ ended) es)"

text \<open>The events that a run hands to the pool.\<close>

fun pool_trace :: "bool \<Rightarrow> observer_config \<Rightarrow> observer \<times> pool \<Rightarrow> fleet_event list \<Rightarrow> pool_event list" where
  "pool_trace auto cfg s [] = []"
| "pool_trace auto cfg s (e # es) = pool_events cfg (fst s) e @ pool_trace auto cfg (fst (fleet_step auto cfg s e)) es"

lemma fleet_step_parts:
  "fst (fst (fleet_step auto cfg s e)) = observe cfg (fst s) e"
  "snd (fst (fleet_step auto cfg s e)) = fst (mrun (pool_step auto) (snd s) (pool_events cfg (fst s) e))"
  "snd (fleet_step auto cfg s e) = snd (mrun (pool_step auto) (snd s) (pool_events cfg (fst s) e))"
  by (simp_all add: fleet_step_def split_beta Let_def)

lemma fleet_trace:
  "snd (fst (mrun (fleet_step auto cfg) s es)) = fst (mrun (pool_step auto) (snd s) (pool_trace auto cfg s es))"
  "snd (mrun (fleet_step auto cfg) s es) = snd (mrun (pool_step auto) (snd s) (pool_trace auto cfg s es))"
  by (induction es arbitrary: s) (simp_all add: mrun_Cons mrun_append fleet_step_parts split_beta Let_def del: mrun.simps(2))

lemma orderly_append:
  "orderly auto s opened ended es \<Longrightarrow>
    orderly auto (fst (mrun (pool_step auto) s es)) (concat (rev (map opened_by es)) @ opened) (concat (rev (map ended_by es)) @ ended) fs \<Longrightarrow>
    orderly auto s opened ended (es @ fs)"
  by (induction es arbitrary: s opened ended) (simp_all add: mrun_Cons del: mrun.simps(2))

lemma observer_opens_none:
  "concat (rev (map opened_by (map (pool_event_of now) es))) = []" "concat (rev (map ended_by (map (pool_event_of now) es))) = []"
proof -
  have "opened_by (pool_event_of now e) = [] \<and> ended_by (pool_event_of now e) = []" for e by (cases e) simp_all
  then show "concat (rev (map opened_by (map (pool_event_of now) es))) = []" "concat (rev (map ended_by (map (pool_event_of now) es))) = []"
    by simp_all
qed

lemma fleet_orderly:
  assumes "fleet_ok auto cfg s opened ended es" and "sessions_inv (fst s)" "watch_inv (fst s)" and "linked (presence_of (fst s)) (snd s)"
  shows "orderly auto (snd s) opened ended (pool_trace auto cfg s es) \<and>
    linked (presence_of (fst (fst (mrun (fleet_step auto cfg) s es)))) (snd (fst (mrun (fleet_step auto cfg) s es)))"
  using assms
proof (induction es arbitrary: s opened ended)
  case (Cons e es)
  let ?s = "fst (fleet_step auto cfg s e)"
  show ?case
  proof (cases e)
    case (Usb now ev)
    let ?out = "snd (observer_step cfg (fst s) ev)"
    have obs: "sessions_inv (fst ?s) \<and> watch_inv (fst ?s) \<and> follows (fst s) (observer_step cfg (fst s) ev)"
      using step_follows [OF Cons.prems(2,3), of ev cfg] Cons.prems(1) by (simp add: Usb fleet_step_parts)
    then have follow: "presence_run (presence_of (fst s) key) (events_of key ?out) = Some (presence_of (fst ?s) key)" for key
      by (simp add: follows_def Usb fleet_step_parts)
    note link = link_events [OF Cons.prems(4) follow, where auto = auto and now = now]
    have next_link: "linked (presence_of (fst ?s)) (snd ?s)" using link(2) by (simp add: Usb fleet_step_parts)
    have "fleet_ok auto cfg ?s opened ended es" using Cons.prems(1) by (simp add: Usb)
    note rest = Cons.IH [OF this conjunct1 [OF obs] conjunct1 [OF conjunct2 [OF obs]] next_link]
    have "orderly auto (snd s) opened ended (map (pool_event_of now) ?out @ pool_trace auto cfg ?s es)"
      by (rule orderly_append [OF link(1)], unfold observer_opens_none) (use rest in \<open>simp add: Usb fleet_step_parts\<close>)
    then show ?thesis using rest by (simp add: Usb mrun_Cons del: mrun.simps)
  next
    case (Runtime ev)
    have ok: "is_runtime ev" "event_ok (snd s) opened ended ev" "fleet_ok auto cfg ?s (opened_by ev @ opened) (ended_by ev @ ended) es"
      using Cons.prems(1) by (simp_all add: Runtime)
    have same: "fst ?s = fst s" "snd ?s = fst (pool_step auto (snd s) ev)"
      by (simp_all add: Runtime fleet_step_parts split_beta Let_def)
    have inv: "pool_inv (snd s)" by (rule linkedD(1) [OF Cons.prems(4)])
    have "linked (presence_of (fst ?s)) (snd ?s)" unfolding same
      by (rule calm_linked [OF Cons.prems(4) runtime_calm [OF inv ok(1)] pool_step_inv [OF inv]])
    with Cons.IH [OF ok(3)] Cons.prems(2,3) same ok(2) show ?thesis by (simp add: Runtime mrun_Cons del: mrun.simps)
  qed
qed simp

lemma trace_runtime: "Runtime e \<in> set es \<Longrightarrow> e \<in> set (pool_trace auto cfg s es)"
proof (induction es arbitrary: s)
  case (Cons x es)
  consider "x = Runtime e" | "Runtime e \<in> set es" using Cons.prems by auto
  then show ?case
  proof cases
    case 2
    then show ?thesis using Cons.IH [OF 2, of "fst (fleet_step auto cfg s x)"] by simp
  qed simp
qed simp

lemma trace_ended: "i \<in> set (concat (map ended_by (pool_trace auto cfg s es))) \<Longrightarrow> Runtime (Modem_Closed i) \<in> set es"
proof (induction es arbitrary: s)
  case (Cons e es)
  show ?case
  proof (cases e)
    case (Usb now ev)
    have "ended_by (pool_event_of now x) = []" for x by (cases x) simp_all
    then have "i \<in> set (concat (map ended_by (pool_trace auto cfg (fst (fleet_step auto cfg s e)) es)))"
      using Cons.prems by (simp add: Usb)
    then show ?thesis using Cons.IH by simp
  next
    case (Runtime ev)
    have "ev = Modem_Closed i" if "i \<in> set (ended_by ev)" using that by (cases ev) auto
    moreover have "i \<in> set (ended_by ev) \<or> i \<in> set (concat (map ended_by (pool_trace auto cfg (fst (fleet_step auto cfg s e)) es)))"
      using Cons.prems by (simp add: Runtime)
    ultimately show ?thesis using Cons.IH [of "fst (fleet_step auto cfg s e)"] by (auto simp: Runtime)
  qed
qed simp


definition demo_fleet :: "fleet_event list" where
  "demo_fleet =
     [Usb 0 (Observer_Start 0 [demo_modem]), Runtime (Provisioned 2 (Inr 70)), Runtime (Connected 2 (Inr (7, Some Verdict_Ready))),
      Usb 9 (Usb_Detach 9 (js ''12d1''))]"


end
