(* ===== verification/Fleet_Waits.thy ===== *)
theory Fleet_Waits imports Fleet_Compose begin

text \<open>
  \<^verbatim>\<open>packages/core/src/fleet/wait-manager.ts\<close>: the promises of \<open>waitForReady\<close>, \<open>waitForDevice\<close> and \<open>waitForDeviceId\<close>, and their
  composition with the pool, whose events their listeners hear. A wait is named by the number of its promise; \<open>wm_settled\<close> has the
  waits whose closure has set its flag. Names are compared in lower case of the ASCII letters. The listeners hear the
  events of a step of the pool after it, in order; the code calls them at each event, with the same effect, since after its first event a step
  changes neither the table of the devices nor their names and identities.
\<close>

section \<open>Waits\<close>

datatype wait_filter = By_Vendor int | By_Name jstr | By_Id jstr

datatype wait = Ready_Wait nat | Match_Wait nat wait_filter

fun wait_id :: "wait \<Rightarrow> nat" where
  "wait_id (Ready_Wait n) = n"
| "wait_id (Match_Wait n f) = n"

record waits =
  wm_pending :: "wait list"
  wm_ready :: "wait list"
  wm_readiness :: "wait list"
  wm_timers :: "(nat \<times> wait \<times> nat) list"
  wm_settled :: "nat list"
  wm_next :: nat

datatype wait_outcome = Resolved nat | Rejected jstr

type_synonym wait_output = "nat \<times> wait_outcome"

definition new_waits :: waits where
  "new_waits = \<lparr>wm_pending = [], wm_ready = [], wm_readiness = [], wm_timers = [], wm_settled = [], wm_next = 0\<rparr>"

definition DEFAULT_WAIT_TIMEOUT_MS :: nat where
  "DEFAULT_WAIT_TIMEOUT_MS = 60000"

fun stage_name :: "readiness \<Rightarrow> jstr" where
  "stage_name Detected = js ''detected''"
| "stage_name (Assessing a) = js ''assessing''"
| "stage_name Preparing = js ''preparing''"
| "stage_name (Connecting prepared) = js ''connecting''"
| "stage_name Checking = js ''checking''"
| "stage_name (Ready i report) = js ''ready''"
| "stage_name (Degraded i report) = js ''degraded''"
| "stage_name (Stage_Error e recoverable) = js ''error''"
| "stage_name Offline = js ''offline''"

fun wait_matches :: "wait_filter \<Rightarrow> managed_device \<Rightarrow> bool" where
  "wait_matches (By_Vendor v) d \<longleftrightarrow> pd_vendorId d = v"
| "wait_matches (By_Name n) d \<longleftrightarrow> js_indexOf (js_toLower (pd_name d)) (js_toLower n) \<noteq> None"
| "wait_matches (By_Id k) d \<longleftrightarrow> snap_deviceId (pd_session d) = k"

fun filter_name :: "wait_filter \<Rightarrow> jstr" where
  "filter_name (By_Vendor v) = js ''Device matching '' @ [39] @ js_show_int v @ [39]"
| "filter_name (By_Name n) = js ''Device matching '' @ [39] @ n @ [39]"
| "filter_name (By_Id k) = js ''Device '' @ [39] @ k @ [39]"

fun joined :: "jstr \<Rightarrow> jstr list \<Rightarrow> jstr" where
  "joined sep [] = []"
| "joined sep [x] = x"
| "joined sep (x # xs) = x @ sep @ joined sep xs"

fun timeout_message :: "pool \<Rightarrow> wait \<Rightarrow> nat \<Rightarrow> jstr" where
  "timeout_message p (Ready_Wait n) timeout =
     (let stages = map (\<lambda>(key, d). pd_name (pool_store p d) @ js '': '' @ stage_name (pd_readiness (pool_store p d))) (pool_devices p)
      in js ''No modem became ready within '' @ js_show_int (int timeout) @ js ''ms. Devices: '' @
         (if stages = [] then js ''none detected'' else joined (js '', '') stages))"
| "timeout_message p (Match_Wait n f) timeout =
     filter_name f @ js '' did not become ready within '' @ js_show_int (int timeout) @ js ''ms''"

text \<open>\<open>offReady\<close> and \<open>offReadiness\<close>.\<close>

fun unsubscribe :: "wait \<Rightarrow> waits \<Rightarrow> waits" where
  "unsubscribe (Ready_Wait n) s = s\<lparr>wm_ready := removeAll (Ready_Wait n) (wm_ready s)\<rparr>"
| "unsubscribe (Match_Wait n f) s = s\<lparr>wm_readiness := removeAll (Match_Wait n f) (wm_readiness s)\<rparr>"

definition clear_wait_timer :: "wait \<Rightarrow> waits \<Rightarrow> waits" where
  "clear_wait_timer w s = s\<lparr>wm_timers := map_delete (wait_id w) (wm_timers s)\<rparr>"

definition set_settled :: "wait \<Rightarrow> waits \<Rightarrow> waits" where
  "set_settled w s = s\<lparr>wm_settled := wait_id w # wm_settled s\<rparr>"

definition resolve_wait :: "wait \<Rightarrow> nat \<Rightarrow> waits \<Rightarrow> waits \<times> wait_output list" where
  "resolve_wait w i s =
     (let s1 = unsubscribe w (clear_wait_timer w (set_settled w s))
      in (s1\<lparr>wm_pending := removeAll w (wm_pending s1)\<rparr>, [(wait_id w, Resolved i)]))"

definition onReady :: "nat \<Rightarrow> wait \<Rightarrow> waits \<Rightarrow> waits \<times> wait_output list" where
  "onReady i w s = (if wait_id w \<in> set (wm_settled s) then (s, []) else resolve_wait w i s)"

fun onReadiness :: "pool \<Rightarrow> pooled_device \<Rightarrow> wait \<Rightarrow> waits \<Rightarrow> waits \<times> wait_output list" where
  "onReadiness p pooled (Match_Wait n f) s =
     (if n \<in> set (wm_settled s) then (s, [])
      else
        (case live_modem (pd_readiness pooled) of
           None \<Rightarrow> (s, [])
         | Some i \<Rightarrow>
             (case tracked p (device_key (pd_session pooled)) of
                None \<Rightarrow> (s, [])
              | Some d \<Rightarrow> if wait_matches f (pool_store p d) then resolve_wait (Match_Wait n f) i s else (s, []))))"
| "onReadiness p pooled w s = (s, [])"

definition cancel_wait :: "wait \<Rightarrow> waits \<Rightarrow> waits \<times> wait_output list" where
  "cancel_wait w s =
     (if wait_id w \<in> set (wm_settled s) then (s, [])
      else (unsubscribe w (clear_wait_timer w (set_settled w s)), [(wait_id w, Rejected (js ''Pool stopped while waiting for device''))]))"

definition wait_timeout :: "pool \<Rightarrow> nat \<Rightarrow> waits \<Rightarrow> waits \<times> wait_output list" where
  "wait_timeout p n s =
     (case map_of (wm_timers s) n of
        None \<Rightarrow> (s, [])
      | Some (w, timeout) \<Rightarrow>
          (let s1 = s\<lparr>wm_timers := map_delete n (wm_timers s)\<rparr>
           in if wait_id w \<in> set (wm_settled s1) then (s1, [])
              else
                (let s2 = unsubscribe w (set_settled w s1)
                 in (s2\<lparr>wm_pending := removeAll w (wm_pending s2)\<rparr>, [(wait_id w, Rejected (timeout_message p w timeout))]))))"

fun wait_each :: "(wait \<Rightarrow> waits \<Rightarrow> waits \<times> wait_output list) \<Rightarrow> wait list \<Rightarrow> waits \<Rightarrow> waits \<times> wait_output list" where
  "wait_each f [] s = (s, [])"
| "wait_each f (w # ws) s = then_do (f w s) (wait_each f ws)"

definition cancelAll :: "waits \<Rightarrow> waits \<times> wait_output list" where
  "cancelAll s = (let (s1, out) = wait_each cancel_wait (wm_pending s) s in (s1\<lparr>wm_pending := []\<rparr>, out))"

definition subscribe_wait :: "wait \<Rightarrow> nat option \<Rightarrow> waits \<Rightarrow> waits" where
  "subscribe_wait w timeoutMs s =
     (let s1 = s\<lparr>wm_timers := wm_timers s @ [(wait_id w, w, or_else timeoutMs DEFAULT_WAIT_TIMEOUT_MS)], wm_pending := wm_pending s @ [w]\<rparr>
      in case w of
           Ready_Wait n \<Rightarrow> s1\<lparr>wm_ready := wm_ready s1 @ [w]\<rparr>
         | Match_Wait n f \<Rightarrow> s1\<lparr>wm_readiness := wm_readiness s1 @ [w]\<rparr>)"

definition waitForReady :: "pool \<Rightarrow> nat option \<Rightarrow> waits \<Rightarrow> waits \<times> wait_output list" where
  "waitForReady p timeoutMs s =
     (let n = wm_next s; s1 = s\<lparr>wm_next := Suc n\<rparr>
      in case firstReady p of
           Some i \<Rightarrow> (s1, [(n, Resolved i)])
         | None \<Rightarrow> (subscribe_wait (Ready_Wait n) timeoutMs s1, []))"

definition matching_live :: "pool \<Rightarrow> wait_filter \<Rightarrow> nat list" where
  "matching_live p f =
     List.map_filter (\<lambda>(key, d). if wait_matches f (pool_store p d) then live_modem (pd_readiness (pool_store p d)) else None) (pool_devices p)"

definition waitForMatch :: "pool \<Rightarrow> wait_filter \<Rightarrow> nat option \<Rightarrow> waits \<Rightarrow> waits \<times> wait_output list" where
  "waitForMatch p f timeoutMs s =
     (let n = wm_next s; s1 = s\<lparr>wm_next := Suc n\<rparr>
      in case matching_live p f of
           i # _ \<Rightarrow> (s1, [(n, Resolved i)])
         | [] \<Rightarrow> (subscribe_wait (Match_Wait n f) timeoutMs s1, []))"

section \<open>The pool with its waits\<close>

fun hear :: "pool \<Rightarrow> pool_output \<Rightarrow> waits \<Rightarrow> waits \<times> wait_output list" where
  "hear p (Device_Readiness pooled previous) s = wait_each (onReadiness p pooled) (wm_readiness s) s"
| "hear p (Modem_Ready pooled i) s = wait_each (onReady i) (wm_ready s) s"
| "hear p Cancel_Waits s = cancelAll s"
| "hear p _ s = (s, [])"

fun hear_all :: "pool \<Rightarrow> pool_output list \<Rightarrow> waits \<Rightarrow> waits \<times> wait_output list" where
  "hear_all p [] s = (s, [])"
| "hear_all p (out # outs) s = then_do (hear p out s) (hear_all p outs)"

datatype wait_event =
    Pool_Event pool_event
  | Wait_For_Ready "nat option"
  | Wait_For_Match wait_filter "nat option"
  | Wait_Timeout nat

fun waits_step :: "bool \<Rightarrow> pool \<times> waits \<Rightarrow> wait_event \<Rightarrow> (pool \<times> waits) \<times> wait_output list" where
  "waits_step auto (p, s) (Pool_Event e) =
     (let (p', out) = pool_step auto p e; (s', out') = hear_all p' out s in ((p', s'), out'))"
| "waits_step auto (p, s) (Wait_For_Ready timeoutMs) = (let (s', out) = waitForReady p timeoutMs s in ((p, s'), out))"
| "waits_step auto (p, s) (Wait_For_Match f timeoutMs) = (let (s', out) = waitForMatch p f timeoutMs s in ((p, s'), out))"
| "waits_step auto (p, s) (Wait_Timeout n) = (let (s', out) = wait_timeout p n s in ((p, s'), out))"

section \<open>Every wait settles once\<close>

definition is_ready_wait :: "wait \<Rightarrow> bool" where
  "is_ready_wait w \<longleftrightarrow> w = Ready_Wait (wait_id w)"

lemma is_ready_wait_simps [simp]: "is_ready_wait (Ready_Wait n)" "\<not> is_ready_wait (Match_Wait n f)"
  by (simp_all add: is_ready_wait_def)

definition waits_inv :: "waits \<Rightarrow> bool" where
  "waits_inv s \<longleftrightarrow>
     distinct (map wait_id (wm_pending s)) \<and> set (wm_ready s) = {w \<in> set (wm_pending s). is_ready_wait w} \<and>
     set (wm_readiness s) = {w \<in> set (wm_pending s). \<not> is_ready_wait w} \<and>
     distinct (map wait_id (wm_ready s)) \<and> distinct (map wait_id (wm_readiness s)) \<and>
     (\<forall>w\<in>set (wm_pending s). wait_id w \<notin> set (wm_settled s) \<and> wait_id w < wm_next s) \<and> (\<forall>n\<in>set (wm_settled s). n < wm_next s) \<and>
     (\<forall>n w t. map_of (wm_timers s) n = Some (w, t) \<longrightarrow> w \<in> set (wm_pending s) \<and> wait_id w = n) \<and>
     (\<forall>w\<in>set (wm_pending s). \<exists>t. map_of (wm_timers s) (wait_id w) = Some (w, t))"

definition waiting :: "waits \<Rightarrow> nat \<Rightarrow> nat" where
  "waiting s n = (if n \<in> wait_id ` set (wm_pending s) then 1 else 0)"

definition outcomes :: "nat \<Rightarrow> wait_output list \<Rightarrow> nat" where
  "outcomes n out = length (filter (\<lambda>o'. fst o' = n) out)"

lemma wait_outcomes_simps [simp]:
  "outcomes n [] = 0" "outcomes n (o' # out) = (if fst o' = n then Suc (outcomes n out) else outcomes n out)"
  "outcomes n (xs @ ys) = outcomes n xs + outcomes n ys"
  by (simp_all add: outcomes_def)

definition settles :: "waits \<Rightarrow> waits \<times> wait_output list \<Rightarrow> bool" where
  "settles s r \<longleftrightarrow>
     waits_inv (fst r) \<and> wm_next (fst r) = wm_next s \<and> set (wm_pending (fst r)) \<subseteq> set (wm_pending s) \<and>
     (\<forall>n. outcomes n (snd r) + waiting (fst r) n = waiting s n)"

lemma settles_refl [simp]: "waits_inv s \<Longrightarrow> settles s (s, [])"
  by (simp add: settles_def)

lemma settles_trans: "settles s r \<Longrightarrow> settles (fst r) (f (fst r)) \<Longrightarrow> settles s (then_do r f)"
  unfolding settles_def then_do_simps wait_outcomes_simps by (metis (no_types, lifting) add.assoc order_trans)

lemma pending_waiting:
  assumes inv: "waits_inv s" and w: "w \<in> set (wm_pending s)"
  shows "waiting (s\<lparr>wm_pending := removeAll w (wm_pending s)\<rparr>) n = (if n = wait_id w then 0 else waiting s n)" and "waiting s (wait_id w) = 1"
proof -
  have "w' = w" if "w' \<in> set (wm_pending s)" "wait_id w' = wait_id w" for w'
    using that w inv unfolding waits_inv_def by (meson distinct_map inj_onD)
  then show "waiting (s\<lparr>wm_pending := removeAll w (wm_pending s)\<rparr>) n = (if n = wait_id w then 0 else waiting s n)"
    using w by (auto simp: waiting_def)
  show "waiting s (wait_id w) = 1" using w by (simp add: waiting_def)
qed

lemma waits_invD:
  assumes "waits_inv s"
  shows "distinct (map wait_id (wm_pending s))" and "w \<in> set (wm_pending s) \<Longrightarrow> wait_id w \<notin> set (wm_settled s) \<and> wait_id w < wm_next s"
    and "w \<in> set (wm_ready s) \<longleftrightarrow> w \<in> set (wm_pending s) \<and> is_ready_wait w"
    and "w \<in> set (wm_readiness s) \<longleftrightarrow> w \<in> set (wm_pending s) \<and> \<not> is_ready_wait w"
    and "map_of (wm_timers s) n = Some (w, t) \<Longrightarrow> w \<in> set (wm_pending s) \<and> wait_id w = n"
    and "w \<in> set (wm_pending s) \<Longrightarrow> \<exists>t. map_of (wm_timers s) (wait_id w) = Some (w, t)"
    and "n \<in> set (wm_settled s) \<Longrightarrow> n < wm_next s"
    and "w \<in> set (wm_pending s) \<Longrightarrow> w' \<in> set (wm_pending s) \<Longrightarrow> wait_id w = wait_id w' \<Longrightarrow> w = w'"
    and "distinct (map wait_id (wm_ready s))" and "distinct (map wait_id (wm_readiness s))"
proof -
  show "distinct (map wait_id (wm_pending s))" "distinct (map wait_id (wm_ready s))" "distinct (map wait_id (wm_readiness s))"
    using assms by (simp_all add: waits_inv_def)
  then show "w \<in> set (wm_pending s) \<Longrightarrow> w' \<in> set (wm_pending s) \<Longrightarrow> wait_id w = wait_id w' \<Longrightarrow> w = w'"
    by (meson distinct_map inj_onD)
  show "w \<in> set (wm_ready s) \<longleftrightarrow> w \<in> set (wm_pending s) \<and> is_ready_wait w"
    "w \<in> set (wm_readiness s) \<longleftrightarrow> w \<in> set (wm_pending s) \<and> \<not> is_ready_wait w"
    using assms by (simp_all add: waits_inv_def)
qed (use assms in \<open>unfold waits_inv_def, blast\<close>)+

text \<open>What a closure does to the state when it settles its promise, whoever calls it.\<close>

definition settle :: "wait \<Rightarrow> waits \<Rightarrow> waits" where
  "settle w s = s\<lparr>wm_settled := wait_id w # wm_settled s, wm_timers := map_delete (wait_id w) (wm_timers s),
     wm_ready := (if is_ready_wait w then removeAll w (wm_ready s) else wm_ready s),
     wm_readiness := (if is_ready_wait w then wm_readiness s else removeAll w (wm_readiness s)),
     wm_pending := removeAll w (wm_pending s)\<rparr>"

lemma resolve_settle: "resolve_wait w i s = (settle w s, [(wait_id w, Resolved i)])"
  by (cases w) (simp_all add: resolve_wait_def settle_def Let_def set_settled_def clear_wait_timer_def)

lemma distinct_removeAll_map: "distinct (map f xs) \<Longrightarrow> distinct (map f (removeAll x xs))"
  by (induction xs) auto

lemma settle_settles:
  assumes inv: "waits_inv s" and w: "w \<in> set (wm_pending s)"
  shows "settles s (settle w s, [(wait_id w, outcome)])"
proof -
  note inv' = waits_invD [OF inv]
  have unique: "w' = w" if "w' \<in> set (wm_pending s)" "wait_id w' = wait_id w" for w' using inv'(8) w that by blast
  have "waits_inv (settle w s)"
    unfolding waits_inv_def
  proof (intro conjI allI ballI impI)
    show "set (wm_ready (settle w s)) = {w' \<in> set (wm_pending (settle w s)). is_ready_wait w'}"
      "set (wm_readiness (settle w s)) = {w' \<in> set (wm_pending (settle w s)). \<not> is_ready_wait w'}"
      using inv'(3,4) by (auto simp: settle_def)
    show "distinct (map wait_id (wm_pending (settle w s)))" "distinct (map wait_id (wm_ready (settle w s)))" "distinct (map wait_id (wm_readiness (settle w s)))"
      using inv'(1,9,10) by (auto simp: settle_def intro: distinct_removeAll_map simp del: removeAll_filter_not_eq)
    show "wait_id w' \<notin> set (wm_settled (settle w s))" "wait_id w' < wm_next (settle w s)" if "w' \<in> set (wm_pending (settle w s))" for w'
      using that inv'(2) unique by (auto simp: settle_def)
    show "n < wm_next (settle w s)" if "n \<in> set (wm_settled (settle w s))" for n
      using that inv'(7) inv'(2) [OF w] by (auto simp: settle_def)
    show "w' \<in> set (wm_pending (settle w s))" "wait_id w' = n" if "map_of (wm_timers (settle w s)) n = Some (w', t)" for n w' t
      using that inv'(5) by (auto simp: settle_def map_of_delete split: if_splits)
    show "\<exists>t. map_of (wm_timers (settle w s)) (wait_id w') = Some (w', t)" if "w' \<in> set (wm_pending (settle w s))" for w'
      using that inv'(6) unique by (auto simp: settle_def map_of_delete)
  qed
  moreover have "waiting (settle w s) n = (if n = wait_id w then 0 else waiting s n)" for n
    using pending_waiting(1) [OF inv w, of n] by (simp add: waiting_def settle_def)
  ultimately show ?thesis using pending_waiting(2) [OF inv w] by (auto simp: settles_def settle_def)
qed

lemma onReady_settles:
  assumes "waits_inv s" and "w \<in> set (wm_ready s) \<or> wait_id w \<in> set (wm_settled s)"
  shows "settles s (onReady i w s)" and "w \<notin> set (wm_pending (fst (onReady i w s)))"
  using assms waits_invD(2,3) [OF assms(1)] settle_settles [OF assms(1), of w]
  by (auto simp: onReady_def resolve_settle settle_def)

lemma onReadiness_settles:
  assumes "waits_inv s" and "w \<in> set (wm_readiness s) \<or> wait_id w \<in> set (wm_settled s)"
  shows "settles s (onReadiness p pooled w s)"
  using assms waits_invD(4) [OF assms(1)] settle_settles [OF assms(1), of w]
  by (cases w) (auto simp: resolve_settle split: option.split)

lemma onReadiness_wakes:
  assumes "waits_inv s" and "w = Match_Wait n f" and "live_modem (pd_readiness pooled) \<noteq> None"
    and "tracked p (device_key (pd_session pooled)) = Some d" and "wait_matches f (pool_store p d)"
  shows "w \<notin> set (wm_pending (fst (onReadiness p pooled w s)))"
  using assms waits_invD(2) [OF assms(1), of w] by (auto simp: resolve_settle settle_def split: option.split)

text \<open>The listeners of an emission run in order; one that was registered stays so, or its closure has settled.\<close>

lemma each_settles:
  assumes step: "\<And>w s. waits_inv s \<Longrightarrow> w \<in> set (L s) \<or> wait_id w \<in> set (wm_settled s) \<Longrightarrow> settles s (f w s)"
    and kept: "\<And>w w' s. w' \<in> set (L s) \<or> wait_id w' \<in> set (wm_settled s) \<Longrightarrow>
      w' \<in> set (L (fst (f w s))) \<or> wait_id w' \<in> set (wm_settled (fst (f w s)))"
    and "waits_inv s" and "\<forall>w\<in>set ws. w \<in> set (L s) \<or> wait_id w \<in> set (wm_settled s)"
  shows "settles s (wait_each f ws s)"
  using assms(3,4)
proof (induction ws arbitrary: s)
  case (Cons w ws)
  have first: "settles s (f w s)" by (rule step) (use Cons.prems in auto)
  then have "settles (fst (f w s)) (wait_each f ws (fst (f w s)))"
    using Cons.prems(2) kept [of _ s w] by (intro Cons.IH) (auto simp: settles_def)
  then show ?case using settles_trans [OF first] by simp
qed simp

lemma each_wakes:
  assumes step: "\<And>w s. waits_inv s \<Longrightarrow> w \<in> set (L s) \<or> wait_id w \<in> set (wm_settled s) \<Longrightarrow> settles s (f w s)"
    and kept: "\<And>w w' s. w' \<in> set (L s) \<or> wait_id w' \<in> set (wm_settled s) \<Longrightarrow>
      w' \<in> set (L (fst (f w s))) \<or> wait_id w' \<in> set (wm_settled (fst (f w s)))"
    and "waits_inv s" and "\<forall>w\<in>set ws. w \<in> set (L s) \<or> wait_id w \<in> set (wm_settled s)"
    and wakes: "\<And>s. waits_inv s \<Longrightarrow> w \<in> set (L s) \<or> wait_id w \<in> set (wm_settled s) \<Longrightarrow> w \<notin> set (wm_pending (fst (f w s)))"
    and "w \<in> set ws"
  shows "w \<notin> set (wm_pending (fst (wait_each f ws s)))"
  using assms(3,4,6)
proof (induction ws arbitrary: s)
  case (Cons v ws)
  have first: "settles s (f v s)" by (rule step) (use Cons.prems in auto)
  have later: "waits_inv (fst (f v s))" "\<forall>w\<in>set ws. w \<in> set (L (fst (f v s))) \<or> wait_id w \<in> set (wm_settled (fst (f v s)))"
    using first Cons.prems(2) kept [of _ s v] by (auto simp: settles_def)
  show ?case
  proof (cases "w \<in> set ws")
    case True
    then show ?thesis using Cons.IH [OF later] by simp
  next
    case False
    then have "w = v" using Cons.prems(3) by simp
    then have "w \<notin> set (wm_pending (fst (f v s)))" using wakes [OF Cons.prems(1)] Cons.prems(2) by auto
    moreover have "settles (fst (f v s)) (wait_each f ws (fst (f v s)))" by (rule each_settles [where L = L, OF step kept later])
    ultimately show ?thesis by (auto simp: settles_def)
  qed
qed simp

lemma onReady_kept:
  "w' \<in> set (wm_ready s) \<or> wait_id w' \<in> set (wm_settled s) \<Longrightarrow>
    w' \<in> set (wm_ready (fst (onReady i w s))) \<or> wait_id w' \<in> set (wm_settled (fst (onReady i w s)))"
  by (auto simp: onReady_def resolve_settle settle_def)

lemma onReadiness_kept:
  "w' \<in> set (wm_readiness s) \<or> wait_id w' \<in> set (wm_settled s) \<Longrightarrow>
    w' \<in> set (wm_readiness (fst (onReadiness p pooled w s))) \<or> wait_id w' \<in> set (wm_settled (fst (onReadiness p pooled w s)))"
  by (cases w) (auto simp: resolve_settle settle_def split: option.split)

lemma hear_readiness_settles: "waits_inv s \<Longrightarrow> settles s (wait_each (onReadiness p pooled) (wm_readiness s) s)"
  by (rule each_settles [where L = wm_readiness, OF onReadiness_settles onReadiness_kept]) auto

lemma hear_ready_settles: "waits_inv s \<Longrightarrow> settles s (wait_each (onReady i) (wm_ready s) s)"
  by (rule each_settles [where L = wm_ready, OF onReady_settles(1) onReady_kept]) auto

text \<open>\<open>cancelAll\<close> calls every closure and clears the set at the end.\<close>

lemma cancel_settle:
  "wait_id w \<notin> set (wm_settled s) \<Longrightarrow>
    cancel_wait w s = ((settle w s)\<lparr>wm_pending := wm_pending s\<rparr>, [(wait_id w, Rejected (js ''Pool stopped while waiting for device''))])"
  by (cases w) (simp_all add: cancel_wait_def settle_def set_settled_def clear_wait_timer_def)

lemma cancel_each:
  assumes "distinct (map wait_id ws)" and "\<forall>w\<in>set ws. wait_id w \<notin> set (wm_settled s)"
  shows "fst (wait_each cancel_wait ws s) =
    s\<lparr>wm_settled := rev (map wait_id ws) @ wm_settled s, wm_timers := filter (\<lambda>t. fst t \<notin> wait_id ` set ws) (wm_timers s),
      wm_ready := filter (\<lambda>w. \<not> (is_ready_wait w \<and> w \<in> set ws)) (wm_ready s),
      wm_readiness := filter (\<lambda>w. \<not> (\<not> is_ready_wait w \<and> w \<in> set ws)) (wm_readiness s)\<rparr> \<and>
    map fst (snd (wait_each cancel_wait ws s)) = map wait_id ws"
  using assms
proof (induction ws arbitrary: s)
  case (Cons w ws)
  let ?s = "(settle w s)\<lparr>wm_pending := wm_pending s\<rparr>"
  have "wait_id w \<notin> set (wm_settled s)" using Cons.prems by simp
  then have step: "cancel_wait w s = (?s, [(wait_id w, Rejected (js ''Pool stopped while waiting for device''))])" by (rule cancel_settle)
  have "wait_id w \<notin> wait_id ` set ws" using Cons.prems(1) by simp
  then have "wait_id v \<noteq> wait_id w" if "v \<in> set ws" for v using that by (metis image_eqI)
  then have rest: "\<forall>v\<in>set ws. wait_id v \<notin> set (wm_settled ?s)" using Cons.prems(2) by (simp add: settle_def)
  have lists: "filter (\<lambda>v. \<not> (is_ready_wait v \<and> v \<in> set ws)) (wm_ready ?s) = filter (\<lambda>v. \<not> (is_ready_wait v \<and> v \<in> set (w # ws))) (wm_ready s)"
    "filter (\<lambda>v. \<not> (\<not> is_ready_wait v \<and> v \<in> set ws)) (wm_readiness ?s) =
      filter (\<lambda>v. \<not> (\<not> is_ready_wait v \<and> v \<in> set (w # ws))) (wm_readiness s)"
    "filter (\<lambda>t. fst t \<notin> wait_id ` set ws) (wm_timers ?s) = filter (\<lambda>t. fst t \<notin> wait_id ` set (w # ws)) (wm_timers s)"
    by (auto simp: settle_def removeAll_filter_not_eq map_delete_def intro!: filter_cong)
  have "distinct (map wait_id ws)" using Cons.prems(1) by simp
  from Cons.IH [OF this rest] lists show ?case by (simp add: step settle_def)
qed simp

lemma count_distinct: "distinct xs \<Longrightarrow> count_list xs n = (if n \<in> set xs then 1 else 0)"
  by (induction xs) auto

lemma cancelAll_settles:
  assumes inv: "waits_inv s"
  shows "settles s (cancelAll s)"
proof -
  note inv' = waits_invD [OF inv]
  let ?ws = "wm_pending s"
  have each: "fst (wait_each cancel_wait ?ws s) =
      s\<lparr>wm_settled := rev (map wait_id ?ws) @ wm_settled s, wm_timers := filter (\<lambda>t. fst t \<notin> wait_id ` set ?ws) (wm_timers s),
        wm_ready := filter (\<lambda>w. \<not> (is_ready_wait w \<and> w \<in> set ?ws)) (wm_ready s),
        wm_readiness := filter (\<lambda>w. \<not> (\<not> is_ready_wait w \<and> w \<in> set ?ws)) (wm_readiness s)\<rparr> \<and>
      map fst (snd (wait_each cancel_wait ?ws s)) = map wait_id ?ws"
    by (rule cancel_each) (use inv'(1,2) in auto)
  have timers: "map_of (filter (\<lambda>t. fst t \<notin> wait_id ` set ?ws) (wm_timers s)) n = None" for n
  proof (cases "n \<in> wait_id ` set ?ws")
    case True
    then show ?thesis by (auto simp: map_of_eq_None_iff)
  next
    case False
    then have "map_of (wm_timers s) n = None" using inv'(5) by (cases "map_of (wm_timers s) n") auto
    then show ?thesis by (auto simp: map_of_eq_None_iff)
  qed
  have "waits_inv (fst (cancelAll s))"
    using inv'(2,3,4,7) timers each by (auto simp: waits_inv_def cancelAll_def split_beta Let_def filter_empty_conv)
  moreover have "outcomes n (snd (cancelAll s)) = waiting s n" for n
  proof -
    have "outcomes n out = count_list (map fst out) n" for out
      by (induction out) (auto simp: outcomes_def)
    then have "outcomes n (snd (cancelAll s)) = count_list (map wait_id ?ws) n" using each by (simp add: cancelAll_def split_beta Let_def)
    also have "\<dots> = waiting s n"
      using inv'(1) count_distinct [of "map wait_id ?ws" n] by (simp add: waiting_def)
    finally show ?thesis .
  qed
  ultimately show ?thesis using each by (simp add: settles_def cancelAll_def split_beta Let_def waiting_def)
qed

lemma timeout_settle:
  "wait_id w \<notin> set (wm_settled s) \<Longrightarrow> map_of (wm_timers s) (wait_id w) = Some (w, t) \<Longrightarrow>
    wait_timeout p (wait_id w) s = (settle w s, [(wait_id w, Rejected (timeout_message p w t))])"
  by (cases w) (simp_all add: wait_timeout_def Let_def settle_def set_settled_def)

lemma timeout_settles:
  assumes inv: "waits_inv s"
  shows "settles s (wait_timeout p n s)" and "n \<notin> wait_id ` set (wm_pending (fst (wait_timeout p n s)))"
proof -
  note inv' = waits_invD [OF inv]
  show "settles s (wait_timeout p n s)"
  proof (cases "map_of (wm_timers s) n")
    case None
    then show ?thesis using inv by (simp add: wait_timeout_def)
  next
    case (Some x)
    obtain w t where timer: "map_of (wm_timers s) n = Some (w, t)" using Some by (cases x) auto
    have w: "w \<in> set (wm_pending s)" "wait_id w = n" using inv'(5) [OF timer] by blast+
    then have "wait_timeout p n s = (settle w s, [(wait_id w, Rejected (timeout_message p w t))])"
      using timeout_settle [of w s] inv'(2) [OF w(1)] timer by simp
    then show ?thesis using settle_settles [OF inv w(1)] by simp
  qed
  show "n \<notin> wait_id ` set (wm_pending (fst (wait_timeout p n s)))"
  proof
    assume "n \<in> wait_id ` set (wm_pending (fst (wait_timeout p n s)))"
    then obtain w where w: "w \<in> set (wm_pending s)" "wait_id w = n" "w \<in> set (wm_pending (fst (wait_timeout p n s)))"
      using \<open>settles s (wait_timeout p n s)\<close> by (auto simp: settles_def)
    obtain t where "map_of (wm_timers s) n = Some (w, t)" using inv'(6) [OF w(1)] w(2) by auto
    then show False using w inv'(2) [OF w(1)] by (cases w) (auto simp: wait_timeout_def Let_def set_settled_def)
  qed
qed

lemma subscribe_inv:
  assumes inv: "waits_inv s" and n: "wait_id w = wm_next s"
  shows "waits_inv (subscribe_wait w t (s\<lparr>wm_next := Suc (wm_next s)\<rparr>))"
    and "wm_pending (subscribe_wait w t (s\<lparr>wm_next := Suc (wm_next s)\<rparr>)) = wm_pending s @ [w]"
    and "wm_next (subscribe_wait w t (s\<lparr>wm_next := Suc (wm_next s)\<rparr>)) = Suc (wm_next s)"
proof -
  let ?s = "subscribe_wait w t (s\<lparr>wm_next := Suc (wm_next s)\<rparr>)"
  note inv' = waits_invD [OF inv]
  have timer: "map_of (wm_timers s) (wm_next s) = None"
    using inv'(5) inv'(2) by (cases "map_of (wm_timers s) (wm_next s)") fastforce+
  have parts: "wm_pending ?s = wm_pending s @ [w]" "wm_settled ?s = wm_settled s" "wm_next ?s = Suc (wm_next s)"
    "wm_ready ?s = (if is_ready_wait w then wm_ready s @ [w] else wm_ready s)"
    "wm_readiness ?s = (if is_ready_wait w then wm_readiness s else wm_readiness s @ [w])"
    "map_of (wm_timers ?s) = (map_of (wm_timers s))(wm_next s \<mapsto> (w, or_else t DEFAULT_WAIT_TIMEOUT_MS))"
    using timer n by (cases w; auto simp: subscribe_wait_def Let_def map_add_def fun_eq_iff split: option.split)+
  have fresh: "w' \<in> set (wm_pending s) \<Longrightarrow> wait_id w' \<noteq> wm_next s" for w' using inv'(2) by force
  show "waits_inv ?s"
    unfolding waits_inv_def
  proof (intro conjI allI ballI impI)
    show "distinct (map wait_id (wm_pending ?s))" "distinct (map wait_id (wm_ready ?s))" "distinct (map wait_id (wm_readiness ?s))"
    proof -
      have "wm_next s \<notin> wait_id ` set (wm_pending s)" "wm_next s \<notin> wait_id ` set (wm_ready s)" "wm_next s \<notin> wait_id ` set (wm_readiness s)"
        using fresh inv'(3,4) by (metis imageE)+
      then show "distinct (map wait_id (wm_pending ?s))" "distinct (map wait_id (wm_ready ?s))" "distinct (map wait_id (wm_readiness ?s))"
        using inv'(1,9,10) n by (simp_all add: parts)
    qed
    show "set (wm_ready ?s) = {w' \<in> set (wm_pending ?s). is_ready_wait w'}" "set (wm_readiness ?s) = {w' \<in> set (wm_pending ?s). \<not> is_ready_wait w'}"
      using inv'(3,4) by (auto simp: parts)
    show "wait_id w' \<notin> set (wm_settled ?s)" "wait_id w' < wm_next ?s" if "w' \<in> set (wm_pending ?s)" for w'
      using that n by (auto simp: parts intro: less_SucI dest: inv'(2) inv'(7))
    show "k < wm_next ?s" if "k \<in> set (wm_settled ?s)" for k using inv'(7) [of k] that by (simp add: parts)
    show "w' \<in> set (wm_pending ?s)" "wait_id w' = k" if "map_of (wm_timers ?s) k = Some (w', t')" for k w' t'
      using that inv'(5) n by (auto simp: parts split: if_splits)
    show "\<exists>t'. map_of (wm_timers ?s) (wait_id w') = Some (w', t')" if "w' \<in> set (wm_pending ?s)" for w'
      using that inv'(6) fresh n by (auto simp: parts)
  qed
  show "wm_pending ?s = wm_pending s @ [w]" "wm_next ?s = Suc (wm_next s)" by (rule parts)+
qed

lemma hear_settles: "waits_inv s \<Longrightarrow> settles s (hear p out s)"
  by (cases out) (simp_all add: hear_readiness_settles hear_ready_settles cancelAll_settles)

lemma hear_pending: "waits_inv s \<Longrightarrow> set (wm_pending (fst (hear p out s))) \<subseteq> set (wm_pending s)"
  using hear_settles [of s p out] unfolding settles_def by blast

lemma hear_all_settles: "waits_inv s \<Longrightarrow> settles s (hear_all p outs s)"
proof (induction outs arbitrary: s)
  case (Cons out outs)
  have first: "settles s (hear p out s)" by (rule hear_settles) (rule Cons.prems)
  then have "settles (fst (hear p out s)) (hear_all p outs (fst (hear p out s)))" by (intro Cons.IH) (simp add: settles_def)
  then show ?case using settles_trans [OF first] by simp
qed simp

definition ledger :: "waits \<Rightarrow> wait_output list \<Rightarrow> bool" where
  "ledger s out \<longleftrightarrow> (\<forall>n. outcomes n out + waiting s n = (if n < wm_next s then 1 else 0))"

lemma settles_ledger: "ledger s out \<Longrightarrow> settles s r \<Longrightarrow> ledger (fst r) (out @ snd r)"
  unfolding ledger_def settles_def by (simp add: add.assoc)

lemma promise_ledger:
  assumes inv: "waits_inv s" and ledger: "ledger s out" and n: "wait_id w = wm_next s"
    and r: "(\<exists>i. r = (s\<lparr>wm_next := Suc (wm_next s)\<rparr>, [(wm_next s, Resolved i)])) \<or> r = (subscribe_wait w t (s\<lparr>wm_next := Suc (wm_next s)\<rparr>), [])"
  shows "waits_inv (fst r) \<and> ledger (fst r) (out @ snd r)"
proof -
  have none: "waiting s (wm_next s) = 0" by (auto simp: waiting_def dest: waits_invD(2) [OF inv])
  from r show ?thesis
  proof
    assume "\<exists>i. r = (s\<lparr>wm_next := Suc (wm_next s)\<rparr>, [(wm_next s, Resolved i)])"
    then obtain i where r: "r = (s\<lparr>wm_next := Suc (wm_next s)\<rparr>, [(wm_next s, Resolved i)])" by blast
    have "waits_inv (fst r)" using inv by (auto simp: r waits_inv_def less_SucI)
    moreover have "waiting (fst r) k = waiting s k" for k by (simp add: r waiting_def)
    ultimately show ?thesis using ledger none by (auto simp: ledger_def r)
  next
    assume r: "r = (subscribe_wait w t (s\<lparr>wm_next := Suc (wm_next s)\<rparr>), [])"
    have "waiting (fst r) k = waiting s k + (if k = wm_next s then 1 else 0)" for k
      using none n subscribe_inv(2) [OF inv n, of t] by (auto simp: r waiting_def)
    then show ?thesis using subscribe_inv [OF inv n, of t] ledger by (auto simp: ledger_def r)
  qed
qed

lemma step_ledger:
  assumes inv: "waits_inv s" and ledger: "ledger s out"
  shows "waits_inv (snd (fst (waits_step auto (p, s) e))) \<and> ledger (snd (fst (waits_step auto (p, s) e))) (out @ snd (waits_step auto (p, s) e))"
proof (cases e)
  case (Pool_Event e')
  have "settles s (hear_all (fst (pool_step auto p e')) (snd (pool_step auto p e')) s)" by (rule hear_all_settles [OF inv])
  with settles_ledger [OF ledger this] show ?thesis by (simp add: Pool_Event split_beta Let_def settles_def)
next
  case (Wait_For_Ready t)
  have "waits_inv (fst (waitForReady p t s)) \<and> ledger (fst (waitForReady p t s)) (out @ snd (waitForReady p t s))"
    by (rule promise_ledger [OF inv ledger, of "Ready_Wait (wm_next s)"]) (auto simp: waitForReady_def Let_def split: option.split)
  then show ?thesis by (simp add: Wait_For_Ready split_beta Let_def)
next
  case (Wait_For_Match f t)
  have "waits_inv (fst (waitForMatch p f t s)) \<and> ledger (fst (waitForMatch p f t s)) (out @ snd (waitForMatch p f t s))"
    by (rule promise_ledger [OF inv ledger, of "Match_Wait (wm_next s) f"]) (auto simp: waitForMatch_def Let_def split: list.split)
  then show ?thesis by (simp add: Wait_For_Match split_beta Let_def)
next
  case (Wait_Timeout n)
  with settles_ledger [OF ledger timeout_settles(1) [OF inv]] timeout_settles(1) [OF inv] show ?thesis
    by (simp add: split_beta Let_def settles_def)
qed

lemma new_waits_inv: "waits_inv new_waits" "ledger new_waits []"
  by (simp_all add: waits_inv_def ledger_def new_waits_def waiting_def)

lemma run_ledger:
  "waits_inv (snd ps) \<Longrightarrow> ledger (snd ps) out \<Longrightarrow>
    waits_inv (snd (fst (mrun (waits_step auto) ps es))) \<and>
    ledger (snd (fst (mrun (waits_step auto) ps es))) (out @ snd (mrun (waits_step auto) ps es))"
proof (induction es arbitrary: ps out)
  case (Cons e es)
  obtain p s where ps: "ps = (p, s)" by (cases ps)
  have "waits_inv (snd (fst (waits_step auto ps e))) \<and> ledger (snd (fst (waits_step auto ps e))) (out @ snd (waits_step auto ps e))"
    unfolding ps by (rule step_ledger) (use Cons.prems in \<open>simp_all add: ps\<close>)
  with Cons.IH [of "fst (waits_step auto ps e)" "out @ snd (waits_step auto ps e)"] show ?case
    by (simp add: mrun_Cons del: mrun.simps)
qed simp

section \<open>No lost wake-ups\<close>

fun wakes :: "pool \<Rightarrow> wait \<Rightarrow> nat \<Rightarrow> bool" where
  "wakes p (Ready_Wait n) d = True"
| "wakes p (Match_Wait n f) d = wait_matches f (pool_store p d)"

text \<open>The pool announces every device that becomes live, with both of its events.\<close>

definition announced :: "pool \<Rightarrow> pool_output list \<Rightarrow> nat \<Rightarrow> bool" where
  "announced p out d \<longleftrightarrow>
     (\<exists>pooled previous pooled' i. Device_Readiness pooled previous \<in> set out \<and> Modem_Ready pooled' i \<in> set out \<and>
        live_modem (pd_readiness pooled) \<noteq> None \<and> pd_session pooled = pd_session (pool_store p d))"

lemma hear_wakes:
  assumes inv: "waits_inv s" and "announced p outs d" and key: "tracked p (device_key (pd_session (pool_store p d))) = Some d"
    and w: "wakes p w d"
  shows "w \<notin> set (wm_pending (fst (hear_all p outs s)))"
proof -
  obtain pooled previous pooled' i where out: "Device_Readiness pooled previous \<in> set outs" "Modem_Ready pooled' i \<in> set outs"
    and live: "live_modem (pd_readiness pooled) \<noteq> None" "pd_session pooled = pd_session (pool_store p d)"
    using assms(2) by (auto simp: announced_def)
  obtain out where member: "out \<in> set outs" and heard: "waits_inv u \<Longrightarrow> w \<notin> set (wm_pending (fst (hear p out u)))" for u
  proof (cases w)
    case (Ready_Wait n)
    have "w \<notin> set (wm_pending (fst (hear p (Modem_Ready pooled' i) u)))" if u: "waits_inv u" for u
    proof (cases "w \<in> set (wm_pending u)")
      case True
      then have "w \<in> set (wm_ready u)" using waits_invD(3) [OF u] by (simp add: Ready_Wait)
      then show ?thesis
        unfolding hear.simps by (intro each_wakes [where L = wm_ready, OF onReady_settles(1) onReady_kept u _ onReady_settles(2)]) auto
    next
      case False
      then show ?thesis using hear_pending [OF u] by blast
    qed
    then show ?thesis using that out(2) by blast
  next
    case (Match_Wait n f)
    have "w \<notin> set (wm_pending (fst (hear p (Device_Readiness pooled previous) u)))" if u: "waits_inv u" for u
    proof (cases "w \<in> set (wm_pending u)")
      case True
      then have "w \<in> set (wm_readiness u)" using waits_invD(4) [OF u] by (simp add: Match_Wait)
      moreover have "w \<notin> set (wm_pending (fst (onReadiness p pooled w v)))" if "waits_inv v" for v
        using onReadiness_wakes [OF that Match_Wait live(1), of p d] key w by (simp add: live(2) Match_Wait)
      ultimately show ?thesis
        unfolding hear.simps by (intro each_wakes [where L = wm_readiness, OF onReadiness_settles onReadiness_kept u]) auto
    next
      case False
      then show ?thesis using hear_pending [OF u] by blast
    qed
    then show ?thesis using that out(1) by blast
  qed
  from member inv show ?thesis
  proof (induction outs arbitrary: s)
    case (Cons o' outs)
    have first: "waits_inv (fst (hear p o' s))" using hear_settles [OF Cons.prems(2), of p o'] by (simp add: settles_def)
    have rest: "set (wm_pending (fst (hear_all p outs (fst (hear p o' s))))) \<subseteq> set (wm_pending (fst (hear p o' s)))"
      using hear_all_settles [OF first, of p outs] by (simp add: settles_def)
    show ?case
    proof (cases "out \<in> set outs")
      case True
      then show ?thesis using Cons.IH [OF _ first] by simp
    next
      case False
      then have "o' = out" using Cons.prems(1) by simp
      then show ?thesis using rest heard [OF Cons.prems(2)] by auto
    qed
  qed simp
qed

text \<open>No other step makes a device live, tracks one that is live, or renames one.\<close>

definition tame :: "pool \<Rightarrow> pool \<Rightarrow> bool" where
  "tame s s' \<longleftrightarrow>
     (\<forall>d. pd_vendorId (pool_store s' d) = pd_vendorId (pool_store s d) \<and> pd_name (pool_store s' d) = pd_name (pool_store s d) \<and>
       (live_modem (stage s' d) = None \<or> stage s' d = stage s d)) \<and>
     (\<forall>k d. tracked s' k = Some d \<longrightarrow> tracked s k = Some d)"

lemma tame_refl: "tame s s"
  by (simp add: tame_def)

lemma tame_trans: "tame s s' \<Longrightarrow> tame s' s'' \<Longrightarrow> tame s s''"
  unfolding tame_def by metis

lemma tame_step:
  assumes "\<And>d. pd_vendorId (pool_store u' d) = pd_vendorId (pool_store u d)" "\<And>d. pd_name (pool_store u' d) = pd_name (pool_store u d)"
    and "\<And>d. live_modem (stage u' d) = None \<or> stage u' d = stage u d" and "\<And>k d. tracked u' k = Some d \<Longrightarrow> tracked u k = Some d"
  shows "tame s u \<Longrightarrow> tame s u'"
  using assms by (elim tame_trans) (simp add: tame_def)

lemma tame_ops:
  "tame s u \<Longrightarrow> tame s (clearRetryTimer d u)" "tame s u \<Longrightarrow> tame s (clearAssessmentTimer d u)" "tame s u \<Longrightarrow> tame s (unwireModem d u)"
  "tame s u \<Longrightarrow> tame s (abort_device d u)" "tame s u \<Longrightarrow> tame s (new_abort d u)" "tame s u \<Longrightarrow> tame s (next_generation d u)"
  "live_modem r = None \<Longrightarrow> tame s u \<Longrightarrow> tame s (fst (setReadiness d r u))" "tame s u \<Longrightarrow> tame s (fst (startPreparing d m u))"
  "tame s u \<Longrightarrow> tame s (start_assessment_timer d a u)" "tame s u \<Longrightarrow> tame s (scheduleRetry d m u)" "tame s u \<Longrightarrow> tame s (wireModem d i u)"
  "tame s u \<Longrightarrow> tame s (update_device d (pd_session_update (\<lambda>_. snap)) u)" "tame s u \<Longrightarrow> tame s (update_device d (md_stalled_update (\<lambda>_. b)) u)"
  "tame s u \<Longrightarrow> tame s (update_device d (md_retryCount_update g) u)" "tame s u \<Longrightarrow> tame s (update_device d (md_retryTimer_update t) u)"
  "tame s u \<Longrightarrow> tame s (update_device d (md_assessmentTimer_update t) u)"
  "tame s u \<Longrightarrow> tame s (set_phase p pl phase u)" "tame s u \<Longrightarrow> tame s (u\<lparr>pool_pipelines := ps\<rparr>)" "tame s u \<Longrightarrow> tame s (u\<lparr>pool_retries := rs\<rparr>)"
  "tame s u \<Longrightarrow> tame s (u\<lparr>pool_assessments := as\<rparr>)" "tame s u \<Longrightarrow> tame s (u\<lparr>pool_started := b\<rparr>)" "tame s u \<Longrightarrow> tame s (u\<lparr>pool_stopping := n\<rparr>)"
  "tame s u \<Longrightarrow> tame s (u\<lparr>pool_devices := map_delete key (pool_devices u)\<rparr>)" "tame s u \<Longrightarrow> tame s (u\<lparr>pool_devices := [], pool_stopping := n\<rparr>)"
  by (rule tame_step; auto simp: tracked_def stage_def startPreparing_sel start_assessment_timer_def scheduleRetry_def Let_def
      new_abort_def next_generation_def map_of_delete split: if_splits)+

lemma tame_evaluate: "tame s u \<Longrightarrow> tame s (fst (evaluateAssessment d snap a u))"
  by (auto simp: evaluateAssessment_def Let_def simp del: setReadiness_simps intro!: tame_ops split: option.split)

lemma tame_assessment: "tame s u \<Longrightarrow> tame s (fst (startAssessment d snap a u))"
  unfolding startAssessment_def then_do_simps by (intro tame_evaluate tame_ops) simp_all

lemma tame_failed: "tame s u \<Longrightarrow> tame s (fst (pipeline_failed p pl err u))"
  by (auto simp: pipeline_failed_def Let_def simp del: setReadiness_simps intro!: tame_ops)

lemma tame_close: "tame s u \<Longrightarrow> tame s (fst (on_close ds u))"
proof (induction ds arbitrary: u)
  case (Cons d ds)
  show ?case using Cons.IH [OF Cons.prems] Cons.IH [OF tame_ops(7) [OF _ Cons.prems]] by (simp del: setReadiness_simps)
qed simp

lemma tame_stop: "tame s u \<Longrightarrow> tame s (stop_devices ds u)"
  by (induction ds arbitrary: u) (simp_all add: tame_ops)

lemma tame_devices:
  "tame s (fst (onDeviceReattached auto snap a d s))" "tame s (fst (onDeviceDetached snap d s))" "tame s (fst (onStateChanged snap a d s))"
  "tame s (fst (restartDevice auto d s))" "tame s (fst (retry_timeout t s))"
  "tame s (fst (assessment_timeout t s))" "tame s (fst (provisioned p pl result s))" "tame s (fst (progress pl phase s))"
  "tame s (fst (stale_closed p pl err s))" "tame s (fst (stop_pool s))" "tame s (fst (stop_settled s))"
  by (auto simp: onDeviceReattached_def onDeviceDetached_def onStateChanged_def restartDevice_def retry_timeout_def
      assessment_timeout_def provisioned_def progress_def stale_closed_def stop_pool_def stop_settled_def Let_def simp del: setReadiness_simps
      intro!: tame_ops tame_refl tame_evaluate tame_assessment tame_failed tame_stop split: option.split sum.split)

lemma tame_gone: "tame s (fst (onDeviceGone key d s))"
  unfolding onDeviceGone_def Let_def fst_conv by (intro tame_ops tame_refl)

fun enlivens :: "pool_event \<Rightarrow> bool" where
  "enlivens (Appeared now snap a) = True"
| "enlivens (Connected q result) = True"
| "enlivens _ = False"

lemma tame_event: "\<not> enlivens e \<Longrightarrow> tame p (fst (pool_step auto p e))"
  by (cases e) (simp_all add: for_device_def for_pipeline_def tame_devices tame_gone tame_close tame_refl tame_ops split: option.split)

lemma live_step:
  assumes inv: "pool_inv p" and key: "tracked (fst (pool_step auto p e)) k = Some d"
    and live: "live_modem (stage (fst (pool_step auto p e)) d) \<noteq> None"
  shows "tracked p k = Some d \<and> live_modem (stage p d) \<noteq> None \<and>
      pd_vendorId (pool_store (fst (pool_step auto p e)) d) = pd_vendorId (pool_store p d) \<and>
      pd_name (pool_store (fst (pool_step auto p e)) d) = pd_name (pool_store p d) \<or>
    announced (fst (pool_step auto p e)) (snd (pool_step auto p e)) d"
    (is "?old (fst (pool_step auto p e)) \<or> _")
proof -
  have old: "?old (fst (pool_step auto p e))" if "tame p (fst (pool_step auto p e))"
    using that key live unfolding tame_def by metis
  show ?thesis
  proof (cases e)
    case (Appeared now snap a)
    define D where "D = \<lparr>pd_vendorId = snap_vendorId snap, pd_name = snap_vendorName snap, pd_readiness = Detected, pd_session = snap,
      pd_firstSeenAt = now, md_abort = 0, md_generation = 0, md_listeners = None, md_retryTimer = None, md_assessmentTimer = None,
      md_stalled = False, md_retryCount = 0\<rparr>"
    define p1 where "p1 = p\<lparr>pool_store := (pool_store p)(pool_next p := D), pool_devices := map_set (device_key snap) (pool_next p) (pool_devices p),
      pool_next := Suc (pool_next p)\<rparr>"
    let ?p' = "fst (pool_step auto p e)"
    have step: "?p' = (if auto then fst (startAssessment (pool_next p) snap a p1) else p1)"
      by (simp add: Appeared onDeviceAppeared_def p1_def D_def Let_def)
    have "tame p1 ?p'" unfolding step by (simp add: tame_assessment tame_refl)
    with key live have now: "tracked p1 k = Some d" "stage ?p' d = stage p1 d" "live_modem (stage p1 d) \<noteq> None"
      "pd_vendorId (pool_store ?p' d) = pd_vendorId (pool_store p1 d)" "pd_name (pool_store ?p' d) = pd_name (pool_store p1 d)"
      unfolding tame_def by metis+
    then have "d \<noteq> pool_next p" by (auto simp: p1_def D_def stage_def)
    then show ?thesis using now by (auto simp: p1_def stage_def tracked_def map_of_map_set split: if_splits)
  next
    case (Connected q result)
    show ?thesis
    proof (cases "\<exists>pl i verdict. map_of (pool_pipelines p) q = Some pl \<and> pl_phase pl = Opening \<and> \<not> stale p pl \<and> result = Inr (i, Some verdict)")
      case True
      then obtain pl i verdict where pl: "map_of (pool_pipelines p) q = Some pl" "pl_phase pl = Opening" "\<not> stale p pl"
        and result: "result = Inr (i, Some verdict)" by blast
      let ?d = "pl_device pl" and ?r = "if verdict = Verdict_Degraded then Degraded i verdict else Ready i verdict" and ?p' = "fst (pool_step auto p e)"
      have step: "?p' = end_pipeline q (fst (setReadiness ?d ?r (wireModem ?d i p)))"
        "snd (pool_step auto p e) = snd (setReadiness ?d ?r (wireModem ?d i p)) @ [Modem_Ready (toPooled (pool_store ?p' ?d)) i]"
        using pl by (simp_all add: Connected result for_pipeline_def connected_def end_pipeline_def Let_def)
      show ?thesis
      proof (cases "d = ?d")
        case True
        have "announced ?p' (snd (pool_step auto p e)) d"
          unfolding announced_def step(2)
          by (intro exI [of _ "toPooled (pool_store (wireModem ?d i p) ?d)\<lparr>pd_readiness := ?r\<rparr>"] exI [of _ "pd_readiness (pool_store (wireModem ?d i p) ?d)"]
              exI [of _ "toPooled (pool_store ?p' ?d)"] exI [of _ i]) (simp add: True step(1) toPooled_def)
        then show ?thesis by blast
      next
        case False
        then show ?thesis using key live by (simp add: step(1) tracked_def stage_def)
      qed
    next
      case False
      have "tame p (fst (pool_step auto p e))"
        using False unfolding Connected
        by (auto simp: for_pipeline_def connected_def Let_def intro!: tame_refl tame_failed tame_ops split: option.split sum.split prod.split)
      then show ?thesis using old by blast
    qed
  qed (use old tame_event [of e p auto] in simp_all)
qed

definition no_match :: "pool \<Rightarrow> waits \<Rightarrow> bool" where
  "no_match p s \<longleftrightarrow>
     (\<forall>w\<in>set (wm_pending s). \<forall>k d. tracked p k = Some d \<and> live_modem (stage p d) \<noteq> None \<longrightarrow> \<not> wakes p w d)"

lemma map_filter_Nil: "List.map_filter f xs = [] \<longleftrightarrow> (\<forall>x\<in>set xs. f x = None)"
  by (induction xs) (auto simp: List.map_filter_simps split: option.split)

lemma firstReady_None: "firstReady p = None \<longleftrightarrow> (\<forall>(k, d)\<in>set (pool_devices p). live_modem (stage p d) = None)"
proof -
  let ?ms = "List.map_filter (\<lambda>(key, d). live_modem (pd_readiness (pool_store p d))) (pool_devices p)"
  have "firstReady p = None \<longleftrightarrow> ?ms = []" by (cases ?ms) (simp_all add: firstReady_def)
  then show ?thesis by (auto simp: map_filter_Nil stage_def)
qed

lemma matching_none:
  "matching_live p f = [] \<longleftrightarrow> (\<forall>(k, d)\<in>set (pool_devices p). wait_matches f (pool_store p d) \<longrightarrow> live_modem (stage p d) = None)"
  by (auto simp: matching_live_def map_filter_Nil stage_def)

lemma wakes_same:
  assumes "pd_vendorId (pool_store p' d) = pd_vendorId (pool_store p d)" "pd_name (pool_store p' d) = pd_name (pool_store p d)"
    and "device_key (pd_session (pool_store p' d)) = device_key (pd_session (pool_store p d))"
  shows "wakes p' w d = wakes p w d"
proof (cases w)
  case (Match_Wait n f)
  then show ?thesis using assms by (cases f) (simp_all add: device_key_def)
qed simp

lemma tracked_member: "tracked p k = Some d \<Longrightarrow> (k, d) \<in> set (pool_devices p)"
  by (simp add: tracked_def map_of_SomeD)

lemma step_no_match:
  assumes inv: "pool_inv p" "waits_inv s" and none: "no_match p s"
  shows "no_match (fst (fst (waits_step auto (p, s) e))) (snd (fst (waits_step auto (p, s) e)))"
proof (cases e)
  case (Pool_Event e')
  let ?p = "fst (pool_step auto p e')" and ?out = "snd (pool_step auto p e')"
  have inv': "pool_inv ?p" by (rule pool_step_inv [OF inv(1)])
  have fewer: "set (wm_pending (fst (hear_all ?p ?out s))) \<subseteq> set (wm_pending s)"
    using hear_all_settles [OF inv(2)] unfolding settles_def by blast
  have "\<not> wakes ?p w d"
    if w: "w \<in> set (wm_pending (fst (hear_all ?p ?out s)))" and key: "tracked ?p k = Some d" and live: "live_modem (stage ?p d) \<noteq> None" for w k d
  proof
    assume wake: "wakes ?p w d"
    have keys: "device_key (pd_session (pool_store ?p d)) = k" using inv_keys [OF inv'] key by (simp add: keys_ok_def)
    from live_step [OF inv(1) key live] show False
    proof
      assume "announced ?p ?out d"
      then show False using hear_wakes [OF inv(2) _ _ wake] key keys w by simp
    next
      assume old: "tracked p k = Some d \<and> live_modem (stage p d) \<noteq> None \<and> pd_vendorId (pool_store ?p d) = pd_vendorId (pool_store p d) \<and>
        pd_name (pool_store ?p d) = pd_name (pool_store p d)"
      then have "device_key (pd_session (pool_store p d)) = k" using inv_keys [OF inv(1)] by (simp add: keys_ok_def)
      then have "wakes p w d" using wakes_same [of ?p d p w] old keys wake by simp
      then show False using none old w fewer by (auto simp: no_match_def)
    qed
  qed
  then have "no_match ?p (fst (hear_all ?p ?out s))" unfolding no_match_def by blast
  then show ?thesis by (simp add: Pool_Event split_beta Let_def)
next
  case (Wait_For_Ready t)
  show ?thesis
  proof (cases "firstReady p")
    case None
    have "\<forall>k d. tracked p k = Some d \<longrightarrow> live_modem (stage p d) = None"
      using None tracked_member [of p] by (auto simp: firstReady_None)
    then have "no_match p (fst (waitForReady p t s))" unfolding no_match_def by (metis option.distinct(1))
    then show ?thesis by (simp add: Wait_For_Ready split_beta Let_def)
  qed (use none in \<open>simp add: Wait_For_Ready no_match_def split_beta Let_def waitForReady_def\<close>)
next
  case (Wait_For_Match f t)
  show ?thesis
  proof (cases "matching_live p f")
    case Nil
    have new: "\<not> (tracked p k = Some d \<and> live_modem (stage p d) \<noteq> None \<and> wakes p (Match_Wait n f) d)" for k d n
    proof -
      have "\<forall>(k, d)\<in>set (pool_devices p). wait_matches f (pool_store p d) \<longrightarrow> live_modem (stage p d) = None"
        using Nil by (simp only: matching_none [symmetric])
      from bspec [OF this, of "(k, d)"] show ?thesis using tracked_member [of p k d] by auto
    qed
    have eq: "set (wm_pending (fst (waitForMatch p f t s))) = insert (Match_Wait (wm_next s) f) (set (wm_pending s))"
      using Nil by (simp add: waitForMatch_def Let_def subscribe_wait_def)
    have "no_match p (fst (waitForMatch p f t s))" unfolding no_match_def eq using none [unfolded no_match_def] new by blast
    then show ?thesis by (simp add: Wait_For_Match split_beta Let_def)
  qed (use none in \<open>simp add: Wait_For_Match no_match_def split_beta Let_def waitForMatch_def\<close>)
next
  case (Wait_Timeout n)
  have "set (wm_pending (fst (wait_timeout p n s))) \<subseteq> set (wm_pending s)"
    using timeout_settles(1) [OF inv(2)] unfolding settles_def by blast
  then show ?thesis using none by (auto simp: Wait_Timeout no_match_def split_beta Let_def)
qed

lemma step_waits_inv:
  assumes inv: "waits_inv s"
  shows "waits_inv (snd (fst (waits_step auto (p, s) e)))"
proof (cases e)
  case (Pool_Event e')
  then show ?thesis using hear_all_settles [OF inv] by (simp add: split_beta Let_def settles_def)
next
  case (Wait_For_Ready t)
  have "waits_inv (s\<lparr>wm_next := Suc (wm_next s)\<rparr>)" using inv by (auto simp: waits_inv_def less_SucI)
  then show ?thesis using subscribe_inv(1) [OF inv, of "Ready_Wait (wm_next s)"]
    by (simp add: Wait_For_Ready split_beta Let_def waitForReady_def split: option.split)
next
  case (Wait_For_Match f t)
  have "waits_inv (s\<lparr>wm_next := Suc (wm_next s)\<rparr>)" using inv by (auto simp: waits_inv_def less_SucI)
  then show ?thesis using subscribe_inv(1) [OF inv, of "Match_Wait (wm_next s) f"]
    by (simp add: Wait_For_Match split_beta Let_def waitForMatch_def split: list.split)
next
  case (Wait_Timeout n)
  then show ?thesis using timeout_settles(1) [OF inv] by (simp add: split_beta Let_def settles_def)
qed

lemma run_no_match:
  "pool_inv (fst ps) \<Longrightarrow> waits_inv (snd ps) \<Longrightarrow> no_match (fst ps) (snd ps) \<Longrightarrow>
    no_match (fst (fst (mrun (waits_step auto) ps es))) (snd (fst (mrun (waits_step auto) ps es)))"
proof (induction es arbitrary: ps)
  case (Cons e es)
  obtain p s where ps: "ps = (p, s)" by (cases ps)
  have inv: "pool_inv (fst (fst (waits_step auto (p, s) e)))"
    using Cons.prems(1) pool_step_inv by (cases e) (simp_all add: ps split_beta Let_def)
  have waits: "waits_inv (snd (fst (waits_step auto (p, s) e)))" by (rule step_waits_inv) (use Cons.prems(2) in \<open>simp add: ps\<close>)
  have "no_match (fst (fst (waits_step auto (p, s) e))) (snd (fst (waits_step auto (p, s) e)))"
    by (rule step_no_match) (use Cons.prems in \<open>simp_all add: ps\<close>)
  from Cons.IH [OF inv waits this] show ?case by (simp add: ps mrun_Cons del: mrun.simps)
qed simp

lemma new_no_match: "no_match new_pool new_waits"
  by (simp add: no_match_def new_waits_def)

text \<open>C8: Every wait of the pool settles once. In any run of the pool with its waits, the promise of every call is resolved or rejected
  exactly once, or is still pending with no outcome and an armed timer; and that timer settles it, so that no wait outlives its time
  limit. A stop, a timeout and a device that becomes ready never settle a promise twice between them.
\<close>

theorem waits_settle_once:
  "let ((p, s), out) = mrun (waits_step auto) (new_pool, new_waits) es
   in \<forall>n < wm_next s.
     (if n \<in> wait_id ` set (wm_pending s)
      then outcomes n out = 0 \<and> outcomes n (snd (waits_step auto (p, s) (Wait_Timeout n))) = 1
      else outcomes n out = 1)"
proof -
  obtain p s out where r: "mrun (waits_step auto) (new_pool, new_waits) es = ((p, s), out)"
    by (cases "mrun (waits_step auto) (new_pool, new_waits) es") auto
  have run: "waits_inv s" "ledger s out"
    using run_ledger [of "(new_pool, new_waits)" "[]" auto es] new_waits_inv by (simp_all add: r)
  have "if n \<in> wait_id ` set (wm_pending s)
      then outcomes n out = 0 \<and> outcomes n (snd (wait_timeout p n s)) = 1 else outcomes n out = 1" if n: "n < wm_next s" for n
  proof -
    have one: "outcomes n out + waiting s n = 1" using n run(2) by (simp add: ledger_def)
    have settles: "outcomes n (snd (wait_timeout p n s)) + waiting (fst (wait_timeout p n s)) n = waiting s n"
      using timeout_settles(1) [OF run(1)] by (simp add: settles_def)
    have "waiting (fst (wait_timeout p n s)) n = 0" using timeout_settles(2) [OF run(1)] by (simp add: waiting_def)
    with one settles show ?thesis by (auto simp: waiting_def split: if_splits)
  qed
  then show ?thesis by (simp add: r split_beta Let_def)
qed

lemma waits_settle_once_witness:
  "let ((p, s), out) = mrun (waits_step False) (new_pool, new_waits) [Wait_For_Ready (Some 10)]
   in 0 < wm_next s \<and> outcomes 0 out = 0 \<and> outcomes 0 (snd (waits_step False (p, s) (Wait_Timeout 0))) = 1"
proof -
  let ?es = "[Wait_For_Ready (Some 10)]"
  obtain p s out where r: "mrun (waits_step False) (new_pool, new_waits) ?es = ((p, s), out)"
    by (cases "mrun (waits_step False) (new_pool, new_waits) ?es") auto
  then have pending: "0 < wm_next s" "0 \<in> wait_id ` set (wm_pending s)"
    by (auto simp: new_pool_def new_waits_def waitForReady_def firstReady_def List.map_filter_simps subscribe_wait_def Let_def)
  have "if 0 \<in> wait_id ` set (wm_pending s)
      then outcomes 0 out = 0 \<and> outcomes 0 (snd (waits_step False (p, s) (Wait_Timeout 0))) = 1 else outcomes 0 out = 1"
    using waits_settle_once [of False ?es] pending(1) unfolding r Let_def prod.case by blast
  with pending show ?thesis unfolding r Let_def prod.case by simp
qed

text \<open>C7: No wake-up is lost. In any run of the pool with its waits, while a wait is pending no tracked device that it asks for has a live
  modem: a wait for any modem that is pending means that \<open>firstReady\<close> is undefined, and a wait for a device by its number, a part of
  its name or its identity means that no such device is ready or degraded.
\<close>

theorem no_lost_wake_up:
  assumes "w \<in> set (wm_pending (snd (fst (mrun (waits_step auto) (new_pool, new_waits) es))))"
  shows "case w of
      Ready_Wait n \<Rightarrow> firstReady (fst (fst (mrun (waits_step auto) (new_pool, new_waits) es))) = None
    | Match_Wait n f \<Rightarrow> matching_live (fst (fst (mrun (waits_step auto) (new_pool, new_waits) es))) f = []"
proof -
  let ?p = "fst (fst (mrun (waits_step auto) (new_pool, new_waits) es))"
  have inv: "pool_inv ?p"
  proof -
    have "pool_inv (fst (fst (mrun (waits_step auto) ps es)))" if "pool_inv (fst ps)" for ps
      using that
    proof (induction es arbitrary: ps)
      case (Cons e es)
      obtain q s where ps: "ps = (q, s)" by (cases ps)
      have "pool_inv (fst (fst (waits_step auto ps e)))"
        using Cons.prems pool_step_inv by (cases e) (simp_all add: ps split_beta Let_def)
      from Cons.IH [OF this] show ?case by (simp add: mrun_Cons del: mrun.simps)
    qed simp
    then show ?thesis using new_pool_inv by simp
  qed
  have tracked: "tracked ?p k = Some d" if "(k, d) \<in> set (pool_devices ?p)" for k d
    using that inv_keys [OF inv] by (simp add: keys_ok_def tracked_def)
  have "no_match ?p (snd (fst (mrun (waits_step auto) (new_pool, new_waits) es)))"
    using run_no_match [of "(new_pool, new_waits)" auto es] new_pool_inv new_waits_inv(1) new_no_match by simp
  then have "\<forall>(k, d)\<in>set (pool_devices ?p). wakes ?p w d \<longrightarrow> live_modem (stage ?p d) = None"
    using assms tracked unfolding no_match_def by blast
  then show ?thesis by (cases w) (simp_all add: firstReady_None matching_none)
qed

lemma no_lost_wake_up_witness:
  "let r = mrun (waits_step False) (new_pool, new_waits) [Wait_For_Match (By_Id (js ''12d1'')) None, Wait_For_Ready (Some 10)]
   in Ready_Wait 1 \<in> set (wm_pending (snd (fst r))) \<and> firstReady (fst (fst r)) = None"
proof -
  let ?es = "[Wait_For_Match (By_Id (js ''12d1'')) None, Wait_For_Ready (Some 10)]"
  have pending: "Ready_Wait 1 \<in> set (wm_pending (snd (fst (mrun (waits_step False) (new_pool, new_waits) ?es))))"
    by (simp add: new_pool_def new_waits_def waitForMatch_def waitForReady_def matching_live_def firstReady_def List.map_filter_simps
        subscribe_wait_def Let_def)
  from no_lost_wake_up [OF pending] pending show ?thesis by (simp add: Let_def)
qed

end
