(* ===== verification/Frame_Fix.thy ===== *)
theory Frame_Fix imports Bytes begin

text \<open>
  \<^verbatim>\<open>packages/core/src/transport/ecm/frame-fix.ts\<close>: an incoming Ethernet frame whose TCP segment carries data and
  FIN is split into a frame with the data and one with the FIN, with new checksums. Bytes are read as 0 past the
  end; a write past the end of a typed array is dropped.
\<close>

section \<open>Code\<close>

definition ETHERTYPE_IPV4 :: nat where "ETHERTYPE_IPV4 = 0x0800"
definition IP_PROTO_TCP :: nat where "IP_PROTO_TCP = 6"
definition TCP_FLAG_FIN :: nat where "TCP_FLAG_FIN = 0x01"
definition MIN_TCP_FRAME_LEN :: nat where "MIN_TCP_FRAME_LEN = 54"

definition byteAt :: "u8s \<Rightarrow> nat \<Rightarrow> nat" where
  "byteAt frame index = byte_at frame index"

definition set_byte :: "nat \<Rightarrow> nat \<Rightarrow> u8s \<Rightarrow> u8s" where
  "set_byte index v frame = frame[index := v mod 256]"

definition word_at :: "u8s \<Rightarrow> nat \<Rightarrow> nat" where
  "word_at frame index = push_bit 8 (byteAt frame index) OR byteAt frame (index + 1)"

text \<open>\<open>>> 16\<close> is the shift of a signed 32-bit number.\<close>

function fold_sum :: "int \<Rightarrow> int" where
  "fold_sum s = (if s > 0xffff then fold_sum ((s AND 0xffff) + drop_bit 16 (js_int32 (Num s))) else s)"
  by pat_completeness auto

definition complement_sum :: "nat \<Rightarrow> nat" where
  "complement_sum s = nat (NOT (fold_sum (int s)) AND 0xffff)"

definition store_checksum :: "nat \<Rightarrow> nat \<Rightarrow> u8s \<Rightarrow> u8s" where
  "store_checksum index checksum frame =
     set_byte (index + 1) (checksum AND 0xff) (set_byte index (drop_bit 8 checksum AND 0xff) frame)"

definition word_sum :: "u8s \<Rightarrow> nat \<Rightarrow> nat \<Rightarrow> nat" where
  "word_sum frame index n = sum_list (map (\<lambda>k. word_at frame (index + 2 * k)) [0..<n])"

definition recalcIpChecksum :: "u8s \<Rightarrow> nat \<Rightarrow> nat \<Rightarrow> u8s" where
  "recalcIpChecksum frame0 ipOffset ipHeaderLen =
     (let frame = set_byte (ipOffset + 11) 0 (set_byte (ipOffset + 10) 0 frame0)
      in store_checksum (ipOffset + 10) (complement_sum (word_sum frame ipOffset ((ipHeaderLen + 1) div 2))) frame)"

definition recalcTcpChecksum :: "u8s \<Rightarrow> nat \<Rightarrow> nat \<Rightarrow> u8s" where
  "recalcTcpChecksum frame0 ipOffset tcpOffset =
     (let frame = set_byte (tcpOffset + 17) 0 (set_byte (tcpOffset + 16) 0 frame0);
          tcpLen = length frame - tcpOffset;
          sum = word_sum frame (ipOffset + 12) 2 + word_sum frame (ipOffset + 16) 2 + IP_PROTO_TCP + tcpLen
                + word_sum frame tcpOffset (tcpLen div 2)
                + (if tcpLen mod 2 \<noteq> 0 then push_bit 8 (byteAt frame (tcpOffset + tcpLen - 1)) else 0)
      in store_checksum (tcpOffset + 16) (complement_sum sum) frame)"

definition seq_at :: "u8s \<Rightarrow> nat \<Rightarrow> nat" where
  "seq_at frame i = push_bit 24 (byteAt frame i) OR push_bit 16 (byteAt frame (i + 1))
     OR push_bit 8 (byteAt frame (i + 2)) OR byteAt frame (i + 3)"

definition addToSeqNumber :: "u8s \<Rightarrow> nat \<Rightarrow> int \<Rightarrow> u8s" where
  "addToSeqNumber frame i delta =
     (let newSeq = nat ((int (seq_at frame i) + delta) mod 2 ^ 32)
      in set_byte (i + 3) (newSeq AND 0xff) (set_byte (i + 2) (drop_bit 8 newSeq AND 0xff)
           (set_byte (i + 1) (drop_bit 16 newSeq AND 0xff) (set_byte i (drop_bit 24 newSeq AND 0xff) frame))))"

definition splitFinData :: "u8s \<Rightarrow> (u8s \<times> u8s) option" where
  "splitFinData frame =
     (if length frame < MIN_TCP_FRAME_LEN then None
      else if word_at frame 12 \<noteq> ETHERTYPE_IPV4 then None
      else if byteAt frame (14 + 9) \<noteq> IP_PROTO_TCP then None
      else
        (let ipOffset = 14;
             ipHeaderLen = (byteAt frame ipOffset AND 0x0f) * 4;
             tcpOffset = ipOffset + ipHeaderLen;
             flags = byteAt frame (tcpOffset + 13)
         in if flags AND TCP_FLAG_FIN = 0 then None
            else
              (let tcpHeaderLen = drop_bit 4 (byteAt frame (tcpOffset + 12)) * 4;
                   payloadLen = int (length frame) - int tcpOffset - int tcpHeaderLen
               in if payloadLen = 0 then None
                  else
                    (let dataFrame = recalcTcpChecksum (set_byte (tcpOffset + 13) (unset_bit 0 flags) frame) ipOffset tcpOffset;
                         finFrameLen = ipOffset + ipHeaderLen + tcpHeaderLen;
                         newIpTotalLen = ipHeaderLen + tcpHeaderLen;
                         finFrame0 = take finFrameLen frame @ replicate (finFrameLen - length frame) 0;
                         finFrame1 = set_byte (ipOffset + 3) (newIpTotalLen AND 0xff)
                           (set_byte (ipOffset + 2) (drop_bit 8 newIpTotalLen AND 0xff) finFrame0);
                         finFrame2 = addToSeqNumber finFrame1 (tcpOffset + 4) payloadLen
                     in Some (dataFrame, recalcTcpChecksum (recalcIpChecksum finFrame2 ipOffset ipHeaderLen) ipOffset tcpOffset)))))"

lemma int32_le: "0 \<le> s \<Longrightarrow> js_int32 (Num s) \<le> s"
proof -
  assume "0 \<le> s"
  have "js_int32 (Num s) = (s + 2 ^ 31) mod 2 ^ 32 - 2 ^ 31" by (simp add: signed_take_bit_eq_take_bit_shift take_bit_eq_mod)
  moreover have "(s + 2 ^ 31) mod 2 ^ 32 \<le> s + 2 ^ 31" using \<open>0 \<le> s\<close> by (simp add: zmod_le_nonneg_dividend)
  ultimately show ?thesis by linarith
qed

lemma and_mask16: "(s :: int) AND 0xffff = s mod 65536"
  using take_bit_eq_mask[of 16 s] by (simp add: mask_eq_exp_minus_1 take_bit_eq_mod)

lemma fold_step_less:
  assumes "0xffff < s"
  shows "(s AND 0xffff) + drop_bit 16 (js_int32 (Num s)) < s"
proof -
  have "drop_bit 16 (js_int32 (Num s)) \<le> s div 65536"
    using int32_le[of s] assms by (simp add: drop_bit_eq_div zdiv_mono1)
  moreover have "s = 65536 * (s div 65536) + s mod 65536" "1 \<le> s div 65536" using assms by simp_all
  ultimately show ?thesis unfolding and_mask16 by linarith
qed

termination fold_sum
  by (relation "measure nat") (auto dest: fold_step_less simp del: js_int32.simps)

declare fold_sum.simps [simp del]

section \<open>Checksums\<close>

text \<open>The check of a receiver (RFC 1071): the ones' complement sum of the words, the checksum among them, is all ones.\<close>

fun be_words :: "u8s \<Rightarrow> nat list" where
  "be_words [] = []"
| "be_words [a] = [256 * a]"
| "be_words (a # b # bs) = (256 * a + b) # be_words bs"

definition ones_add :: "nat \<Rightarrow> nat \<Rightarrow> nat" where
  "ones_add a b = (if a + b > 65535 then a + b - 65535 else a + b)"

definition checksum_ok :: "nat list \<Rightarrow> bool" where
  "checksum_ok ws \<longleftrightarrow> foldr ones_add ws 0 = 65535"

definition ip_checksum_ok :: "u8s \<Rightarrow> nat \<Rightarrow> bool" where
  "ip_checksum_ok frame ihl \<longleftrightarrow> checksum_ok (be_words (take ihl (drop 14 frame)))"

definition tcp_checksum_ok :: "u8s \<Rightarrow> nat \<Rightarrow> bool" where
  "tcp_checksum_ok frame tcp \<longleftrightarrow>
     checksum_ok (be_words (take 8 (drop 26 frame)) @ [IP_PROTO_TCP, length frame - tcp] @ be_words (drop tcp frame))"

lemma ones_sum:
  assumes "list_all (\<lambda>w. w \<le> 65535) ws"
  shows "foldr ones_add ws 0 \<le> 65535 \<and> foldr ones_add ws 0 mod 65535 = sum_list ws mod 65535
    \<and> (foldr ones_add ws 0 = 0 \<longleftrightarrow> sum_list ws = 0)"
  using assms
proof (induction ws)
  case (Cons w ws)
  let ?r = "foldr ones_add ws 0"
  have IH: "?r \<le> 65535" "?r mod 65535 = sum_list ws mod 65535" "?r = 0 \<longleftrightarrow> sum_list ws = 0" using Cons by simp_all
  have w: "w \<le> 65535" using Cons.prems by simp
  have "ones_add w ?r mod 65535 = (w + ?r) mod 65535" by (simp add: ones_add_def le_mod_geq)
  also have "\<dots> = (w + sum_list ws) mod 65535" using IH(2) by (metis mod_add_right_eq)
  finally have m: "ones_add w ?r mod 65535 = (w + sum_list ws) mod 65535" .
  moreover have "ones_add w ?r \<le> 65535" using IH(1) w by (auto simp: ones_add_def)
  moreover have "ones_add w ?r = 0 \<longleftrightarrow> w = 0 \<and> ?r = 0" by (auto simp: ones_add_def)
  ultimately show ?case using IH(3) by simp
qed simp

lemma checksum_ok_iff:
  assumes "list_all (\<lambda>w. w \<le> 65535) ws"
  shows "checksum_ok ws \<longleftrightarrow> sum_list ws \<noteq> 0 \<and> sum_list ws mod 65535 = 0"
proof -
  note s = ones_sum[OF assms]
  have whole: "x = 65535 \<longleftrightarrow> x \<noteq> 0 \<and> x mod 65535 = 0" if "x \<le> 65535" for x :: nat
  proof (cases "x = 65535")
    case False
    then have "x mod 65535 = x" using that by (intro mod_less) simp
    then show ?thesis using False by metis
  qed simp
  have "checksum_ok ws \<longleftrightarrow> foldr ones_add ws 0 \<noteq> 0 \<and> foldr ones_add ws 0 mod 65535 = 0"
    unfolding checksum_ok_def by (rule whole) (use s in simp)
  then show ?thesis using s by simp
qed

lemma fold_sum_value:
  assumes "0 \<le> s" "s < 2 ^ 31"
  shows "0 \<le> fold_sum s \<and> fold_sum s \<le> 65535 \<and> fold_sum s mod 65535 = s mod 65535"
  using assms
proof (induction s rule: fold_sum.induct)
  case (1 s)
  show ?case
  proof (cases "s > 0xffff")
    case True
    have "js_int32 (Num s) = s" using 1(2,3) by (intro js_int32_small) simp_all
    then have t: "(s AND 0xffff) + drop_bit 16 (js_int32 (Num s)) = s mod 65536 + s div 65536"
      by (simp only: and_mask16 drop_bit_eq_div) simp
    have step: "fold_sum s = fold_sum (s mod 65536 + s div 65536)" using True t by (simp only: fold_sum.simps[of s] if_True)
    have "s = (s mod 65536 + s div 65536) + 65535 * (s div 65536)" using mult_div_mod_eq[of 65536 s] by linarith
    then have eq: "(s mod 65536 + s div 65536) mod 65535 = s mod 65535" by (metis mod_mult_self2)
    have pos: "0 \<le> s div 65536" "0 \<le> s mod 65536" using True by (simp_all add: pos_imp_zdiv_nonneg_iff)
    then have less: "s mod 65536 + s div 65536 < 2 ^ 31" "0 \<le> s mod 65536 + s div 65536"
      using 1(3) mult_div_mod_eq[of 65536 s] by linarith+
    from 1(1)[OF True, unfolded t, OF less(2,1)] show ?thesis unfolding step eq .
  next
    case False
    then have "fold_sum s = s" by (subst fold_sum.simps) simp
    then show ?thesis using 1(2) False by simp
  qed
qed

lemma complement_sum_ok:
  assumes "s < 2 ^ 31"
  shows "complement_sum s \<le> 65535" "s + complement_sum s \<noteq> 0" "(s + complement_sum s) mod 65535 = 0"
proof -
  let ?f = "fold_sum (int s)"
  have f: "0 \<le> ?f" "?f \<le> 65535" "?f mod 65535 = int s mod 65535" using fold_sum_value[of "int s"] assms by simp_all
  have "NOT ?f AND 0xffff = (- ?f - 1) mod 65536" by (simp add: and_mask16 not_eq_complement)
  also have "\<dots> = 65535 - ?f" using f(1,2) by (simp add: mod_pos_pos_trivial flip: mod_add_self2[of "- ?f - 1" 65536])
  finally have c: "int (complement_sum s) = 65535 - ?f" using f(1,2) by (simp add: complement_sum_def)
  then show "complement_sum s \<le> 65535" using f(1) by linarith
  have "(int s - ?f) mod 65535 = 0" using f(3) by (metis diff_self mod_0 mod_diff_eq)
  then have "(int s + (65535 - ?f)) mod 65535 = 0" by (metis add_diff_eq diff_add_eq mod_add_self2)
  then have "int ((s + complement_sum s) mod 65535) = 0" using c by (simp add: zmod_int)
  then show "(s + complement_sum s) mod 65535 = 0" by simp
  have "?f = 0" if "s = 0" using that by (subst fold_sum.simps) simp
  then show "s + complement_sum s \<noteq> 0" using c by (cases "s = 0") auto
qed

section \<open>Words of a frame\<close>

lemma octet_at: "octets f \<Longrightarrow> byteAt f i < 256"
  by (auto simp: byteAt_def byte_at_def octets_def list_all_length)

lemma word_value: "octets f \<Longrightarrow> word_at f i = 256 * byteAt f i + byteAt f (i + 1)"
  using or_push_add[of "byteAt f (i + 1)" 8 "byteAt f i"] octet_at[of f "i + 1"] by (simp add: word_at_def or.commute)

lemma be_words_append: "even (length xs) \<Longrightarrow> be_words (xs @ ys) = be_words xs @ be_words ys"
  by (induction xs rule: be_words.induct) simp_all

lemma be_words_bound: "octets bs \<Longrightarrow> list_all (\<lambda>w. w \<le> 65535) (be_words bs)"
  by (induction bs rule: be_words.induct) simp_all

lemma length_be_words: "length (be_words bs) = (length bs + 1) div 2"
  by (induction bs rule: be_words.induct) simp_all

lemma word_sum_Suc: "word_sum f i (Suc n) = word_at f i + word_sum f (i + 2) n"
proof -
  have "[0..<Suc n] = 0 # map Suc [0..<n]" by (simp add: upt_conv_Cons map_Suc_upt del: upt_Suc)
  then show ?thesis by (simp add: word_sum_def comp_def ac_simps del: upt_Suc)
qed

lemma word_sum_pairs: "word_sum f i 2 + word_sum f (i + 4) 2 = word_sum f i 4"
proof -
  have "(2 :: nat) = Suc (Suc 0)" "(4 :: nat) = Suc (Suc (Suc (Suc 0)))" by simp_all
  then show ?thesis by (simp only: word_sum_Suc) (simp add: word_sum_def)
qed

lemma word_sum_take:
  assumes "octets f" "i + 2 * n \<le> length f"
  shows "sum_list (be_words (take (2 * n) (drop i f))) = word_sum f i n"
  using assms(2)
proof (induction n arbitrary: i)
  case (Suc n)
  have "drop i f = f ! i # f ! (i + 1) # drop (i + 2) f"
    using Suc.prems by (simp add: Cons_nth_drop_Suc numeral_2_eq_2)
  then have "take (2 * Suc n) (drop i f) = f ! i # f ! (i + 1) # take (2 * n) (drop (i + 2) f)" by simp
  then show ?case
    using Suc word_value[OF assms(1), of i] by (simp add: word_sum_Suc byteAt_def byte_at_def)
qed (simp add: word_sum_def)

lemma word_sum_drop:
  assumes "octets f" "i \<le> length f"
  shows "sum_list (be_words (drop i f)) = word_sum f i ((length f - i) div 2)
    + (if (length f - i) mod 2 \<noteq> 0 then push_bit 8 (byteAt f (i + (length f - i) - 1)) else 0)"
proof -
  let ?n = "(length f - i) div 2"
  have le: "i + 2 * ?n \<le> length f" using assms(2) by linarith
  have "drop i f = take (2 * ?n) (drop i f) @ drop (i + 2 * ?n) f" by (metis append_take_drop_id drop_drop add.commute)
  moreover have "even (length (take (2 * ?n) (drop i f)))" using le by simp
  ultimately have "be_words (drop i f) = be_words (take (2 * ?n) (drop i f)) @ be_words (drop (i + 2 * ?n) f)"
    by (metis be_words_append)
  then have sum: "sum_list (be_words (drop i f)) = word_sum f i ?n + sum_list (be_words (drop (i + 2 * ?n) f))"
    using word_sum_take[OF assms(1) le] by simp
  show ?thesis
  proof (cases "(length f - i) mod 2 = 0")
    case True
    then have "i + 2 * ?n = length f" using assms(2) by (simp add: even_iff_mod_2_eq_zero)
    then show ?thesis using sum True by simp
  next
    case False
    then have "odd (length f - i)" by (simp add: even_iff_mod_2_eq_zero)
    then have last: "2 * ?n = length f - i - 1" by simp
    then have at: "i + 2 * ?n = length f - 1" "length f - 1 < length f" using False assms(2) by (cases "length f = i"; simp)+
    then have "drop (i + 2 * ?n) f = [f ! (length f - 1)]" by (simp add: Cons_nth_drop_Suc[symmetric])
    then show ?thesis using sum False at assms(2) by (simp add: byteAt_def byte_at_def push_bit_eq_mult)
  qed
qed

section \<open>Stored checksums\<close>

lemma byte_set: "byteAt (set_byte i v f) j = (if i = j \<and> i < length f then v mod 256 else byteAt f j)"
  by (simp add: set_byte_def byteAt_def byte_at_def)

lemma length_set [simp]: "length (set_byte i v f) = length f"
  by (simp add: set_byte_def)

lemma octets_set: "octets f \<Longrightarrow> octets (set_byte i v f)"
  by (auto simp: octets_def set_byte_def list_all_length intro: nth_list_update_eq) (metis length_list_update mod_less_divisor nth_list_update_eq nth_list_update_neq zero_less_numeral)

lemma set_pair: "i + 1 < length f \<Longrightarrow> set_byte (i + 1) b (set_byte i a f) = take i f @ a mod 256 # b mod 256 # drop (i + 2) f"
proof (induction i arbitrary: f)
  case 0
  then obtain x y r where "f = x # y # r" by (cases f rule: be_words.cases) auto
  then show ?case by (simp add: set_byte_def)
next
  case (Suc i)
  then obtain x r where "f = x # r" by (cases f) auto
  then show ?case using Suc by (simp add: set_byte_def)
qed

lemma checksum_bytes: "v \<le> 65535 \<Longrightarrow> 256 * ((drop_bit 8 v AND 0xff) mod 256) + (v AND 0xff) mod 256 = (v :: nat)"
  by (simp add: and_255 drop_bit_eq_div mod_div_trivial)

text \<open>A checksum that is stored in a zeroed field completes the sum of the words around it.\<close>

lemma stored_words:
  assumes "v \<le> 65535" "even (c - i)" "i \<le> c" "c + 1 < length f"
  shows "sum_list (be_words (drop i (store_checksum c v f))) + 256 * byteAt f c + byteAt f (c + 1) = sum_list (be_words (drop i f)) + v"
proof -
  let ?x = "(drop_bit 8 v AND 0xff) mod 256" and ?y = "(v AND 0xff) mod 256"
  have split: "be_words (drop i (take c f @ a # b # drop (c + 2) f)) = be_words (drop i (take c f)) @ (256 * a + b) # be_words (drop (c + 2) f)" for a b
    using assms(2-4) by (simp add: be_words_append)
  have "f = take c f @ f ! c # f ! (c + 1) # drop (c + 2) f"
    using assms(4) by (simp add: Cons_nth_drop_Suc id_take_nth_drop numeral_2_eq_2)
  then have "be_words (drop i f) = be_words (drop i (take c f)) @ (256 * f ! c + f ! (c + 1)) # be_words (drop (c + 2) f)"
    using split[of "f ! c" "f ! (c + 1)"] by simp
  moreover have "store_checksum c v f = take c f @ ?x # ?y # drop (c + 2) f"
    using set_pair[OF assms(4), of "v AND 0xff" "drop_bit 8 v AND 0xff"] by (simp add: store_checksum_def)
  ultimately show ?thesis
    using split[of ?x ?y] checksum_bytes[OF assms(1)] assms(4) by (simp add: byteAt_def byte_at_def)
qed

lemma byte_store: "j \<noteq> c \<Longrightarrow> j \<noteq> c + 1 \<Longrightarrow> byteAt (store_checksum c v f) j = byteAt f j"
  by (simp add: store_checksum_def byte_set)

lemma length_store [simp]: "length (store_checksum c v f) = length f"
  by (simp add: store_checksum_def)

lemma octets_store: "octets f \<Longrightarrow> octets (store_checksum c v f)"
  by (simp add: store_checksum_def octets_set)

lemma word_sum_cong: "(\<And>j. i \<le> j \<Longrightarrow> j < i + 2 * n \<Longrightarrow> byteAt f j = byteAt g j) \<Longrightarrow> word_sum f i n = word_sum g i n"
  by (auto simp: word_sum_def word_at_def intro!: arg_cong[where f = sum_list] map_cong)

lemma sum_bound: "list_all (\<lambda>w. w \<le> 65535) ws \<Longrightarrow> sum_list ws \<le> 65535 * length ws"
  by (induction ws) auto

lemma recalc_tcp:
  assumes "octets f" "34 \<le> tcp" "tcp + 18 \<le> length f" "length f \<le> 65535"
  shows "tcp_checksum_ok (recalcTcpChecksum f 14 tcp) tcp" "octets (recalcTcpChecksum f 14 tcp)"
    "length (recalcTcpChecksum f 14 tcp) = length f"
    "j \<noteq> tcp + 16 \<Longrightarrow> j \<noteq> tcp + 17 \<Longrightarrow> byteAt (recalcTcpChecksum f 14 tcp) j = byteAt f j"
proof -
  let ?z = "set_byte (tcp + 17) 0 (set_byte (tcp + 16) 0 f)" let ?n = "length f - tcp"
  let ?pseudo = "\<lambda>g. be_words (take 8 (drop 26 g)) @ [IP_PROTO_TCP, ?n]"
  define s where "s = sum_list (?pseudo ?z @ be_words (drop tcp ?z))"
  define c where "c = complement_sum s"
  let ?r = "store_checksum (tcp + 16) c ?z"
  have z: "octets ?z" "length ?z = length f" "byteAt ?z (tcp + 16) = 0" "byteAt ?z (tcp + 17) = 0"
    using assms(1,3) by (simp_all add: octets_set byte_set)
  have "word_sum ?z 26 2 + word_sum ?z 30 2 = word_sum ?z 26 4"
    using word_sum_pairs[of ?z 26] by simp
  also have "\<dots> = sum_list (be_words (take 8 (drop 26 ?z)))" using word_sum_take[OF z(1), of 26 4] z(2) assms(2,3) by simp
  finally have "recalcTcpChecksum f 14 tcp = ?r"
    using word_sum_drop[OF z(1), of tcp] z(2) assms(3)
    by (simp add: recalcTcpChecksum_def Let_def s_def c_def add.commute add.left_commute)
  note r = this
  have bounded: "list_all (\<lambda>w. w \<le> 65535) (?pseudo g @ be_words (drop tcp g))" if "octets g" for g
    using that assms(4) by (auto intro!: be_words_bound octets_take octets_drop simp: IP_PROTO_TCP_def)
  have "length (?pseudo ?z @ be_words (drop tcp ?z)) \<le> 32757"
    using assms(2,4) z(2) by (simp add: length_be_words)
  then have "s \<le> 65535 * 32757" unfolding s_def using sum_bound[OF bounded[OF z(1)]] by (meson le_trans mult_le_mono2)
  then have c: "c \<le> 65535" "s + c \<noteq> 0" "(s + c) mod 65535 = 0"
    unfolding c_def using complement_sum_ok[of s] by simp_all
  have "take 8 (drop 26 ?r) = take 8 (drop 26 ?z)"
    by (rule nth_equalityI) (use assms(2,3) in \<open>simp_all add: store_checksum_def set_byte_def\<close>)
  then have words: "sum_list (?pseudo ?r @ be_words (drop tcp ?r)) = s + c"
    using stored_words[OF c(1), of "tcp + 16" tcp ?z] z assms(3) by (simp add: s_def add.commute add.left_commute)
  have "checksum_ok (?pseudo ?r @ be_words (drop tcp ?r))"
    unfolding checksum_ok_iff[OF bounded[OF octets_store[OF z(1)]]] words using c(2,3) by blast
  then show "tcp_checksum_ok (recalcTcpChecksum f 14 tcp) tcp" by (simp add: r tcp_checksum_ok_def)
  show "octets (recalcTcpChecksum f 14 tcp)" "length (recalcTcpChecksum f 14 tcp) = length f"
    using z by (simp_all add: r octets_store)
  show "byteAt (recalcTcpChecksum f 14 tcp) j = byteAt f j" if "j \<noteq> tcp + 16" "j \<noteq> tcp + 17"
    using that by (simp add: r byte_store byte_set)
qed

lemma recalc_ip:
  assumes "octets f" "ihl = 4 * m" "20 \<le> ihl" "ihl \<le> 60" "14 + ihl \<le> length f"
  shows "ip_checksum_ok (recalcIpChecksum f 14 ihl) ihl" "octets (recalcIpChecksum f 14 ihl)"
    "length (recalcIpChecksum f 14 ihl) = length f" "j \<noteq> 24 \<Longrightarrow> j \<noteq> 25 \<Longrightarrow> byteAt (recalcIpChecksum f 14 ihl) j = byteAt f j"
proof -
  let ?z = "set_byte 25 0 (set_byte 24 0 f)"
  define s where "s = sum_list (be_words (take ihl (drop 14 ?z)))"
  define c where "c = complement_sum s"
  let ?r = "store_checksum 24 c ?z"
  have z: "octets ?z" "length ?z = length f" "byteAt ?z 24 = 0" "byteAt ?z 25 = 0"
    using assms(1,3,5) by (simp_all add: octets_set byte_set)
  have "(ihl + 1) div 2 = 2 * m" using assms(2) by simp
  then have r: "recalcIpChecksum f 14 ihl = ?r"
    using word_sum_take[OF z(1), of 14 "2 * m"] z(2) assms(2,5) by (simp add: recalcIpChecksum_def Let_def s_def c_def)
  have bounded: "list_all (\<lambda>w. w \<le> 65535) (be_words (take ihl (drop 14 g)))" if "octets g" for g
    using that by (intro be_words_bound octets_take octets_drop)
  have "s \<le> 65535 * length (be_words (take ihl (drop 14 ?z)))" unfolding s_def by (rule sum_bound[OF bounded[OF z(1)]])
  also have "\<dots> \<le> 65535 * 31" using assms(4) by (simp add: length_be_words)
  finally have c: "c \<le> 65535" "s + c \<noteq> 0" "(s + c) mod 65535 = 0"
    unfolding c_def using complement_sum_ok[of s] by simp_all
  have header: "sum_list (be_words (drop 14 (take (14 + ihl) g))) = sum_list (be_words (take ihl (drop 14 g)))" for g :: u8s
    by (simp add: take_drop add.commute)
  have "take (14 + ihl) ?r = store_checksum 24 c (take (14 + ihl) ?z)"
    using assms(3) by (simp add: store_checksum_def set_byte_def take_update_swap)
  then have "sum_list (be_words (take ihl (drop 14 ?r))) = s + c"
    using stored_words[OF c(1), of 24 14 "take (14 + ihl) ?z"] z(3,4) assms(3,5)
    by (simp add: s_def header[symmetric] byteAt_def byte_at_def)
  then show "ip_checksum_ok (recalcIpChecksum f 14 ihl) ihl"
    using checksum_ok_iff[OF bounded[OF octets_store[OF z(1)]]] c(2,3) by (simp add: r ip_checksum_ok_def del: sum_list_eq_0_iff)
  show "octets (recalcIpChecksum f 14 ihl)" "length (recalcIpChecksum f 14 ihl) = length f"
    using z by (simp_all add: r octets_store)
  show "byteAt (recalcIpChecksum f 14 ihl) j = byteAt f j" if "j \<noteq> 24" "j \<noteq> 25"
    using that by (simp add: r byte_store byte_set)
qed

section \<open>Splitting\<close>

lemma seq_value:
  assumes "octets f"
  shows "seq_at f i = 16777216 * byteAt f i + 65536 * byteAt f (i + 1) + 256 * byteAt f (i + 2) + byteAt f (i + 3)"
proof -
  note b = octet_at[OF assms]
  have 1: "push_bit 8 (byteAt f (i + 2)) OR byteAt f (i + 3) = 256 * byteAt f (i + 2) + byteAt f (i + 3)"
    using or_push_add[of "byteAt f (i + 3)" 8 "byteAt f (i + 2)"] b[of "i + 3"] by (simp add: or.commute)
  have 2: "push_bit 16 (byteAt f (i + 1)) OR (256 * byteAt f (i + 2) + byteAt f (i + 3)) =
      65536 * byteAt f (i + 1) + (256 * byteAt f (i + 2) + byteAt f (i + 3))"
    using or_push_add[of "256 * byteAt f (i + 2) + byteAt f (i + 3)" 16 "byteAt f (i + 1)"] b[of "i + 3"] b[of "i + 2"] by (simp add: or.commute)
  have 3: "push_bit 24 (byteAt f i) OR (65536 * byteAt f (i + 1) + (256 * byteAt f (i + 2) + byteAt f (i + 3))) =
      16777216 * byteAt f i + (65536 * byteAt f (i + 1) + (256 * byteAt f (i + 2) + byteAt f (i + 3)))"
    using or_push_add[of "65536 * byteAt f (i + 1) + (256 * byteAt f (i + 2) + byteAt f (i + 3))" 24 "byteAt f i"]
      b[of "i + 3"] b[of "i + 2"] b[of "i + 1"] by (simp add: or.commute)
  show ?thesis unfolding seq_at_def 1 2 3 by simp
qed

lemma add_seq:
  assumes "octets f" "i + 4 \<le> length f"
  shows "seq_at (addToSeqNumber f i d) i = nat ((int (seq_at f i) + d) mod 2 ^ 32)" "octets (addToSeqNumber f i d)"
    "length (addToSeqNumber f i d) = length f" "j < i \<or> i + 4 \<le> j \<Longrightarrow> byteAt (addToSeqNumber f i d) j = byteAt f j"
proof -
  let ?n = "nat ((int (seq_at f i) + d) mod 2 ^ 32)"
  have n: "?n < 2 ^ 32" by (simp add: nat_less_iff)
  show oct: "octets (addToSeqNumber f i d)" and "length (addToSeqNumber f i d) = length f"
    using assms(1) by (simp_all add: addToSeqNumber_def Let_def octets_set)
  show "byteAt (addToSeqNumber f i d) j = byteAt f j" if "j < i \<or> i + 4 \<le> j"
    using that by (auto simp: addToSeqNumber_def Let_def byte_set)
  have "byteAt (addToSeqNumber f i d) i = ?n div 16777216 mod 256" "byteAt (addToSeqNumber f i d) (i + 1) = ?n div 65536 mod 256"
    "byteAt (addToSeqNumber f i d) (i + 2) = ?n div 256 mod 256" "byteAt (addToSeqNumber f i d) (i + 3) = ?n mod 256"
    using assms(2) by (simp_all add: addToSeqNumber_def Let_def byte_set and_255 drop_bit_eq_div)
  then show "seq_at (addToSeqNumber f i d) i = ?n" using le32_value[OF n] by (simp only: seq_value[OF oct])
qed

text \<open>A TCP segment in an IPv4 packet in a frame, with header lengths \<open>ihl\<close> and \<open>thl\<close>.\<close>

definition tcp_frame :: "u8s \<Rightarrow> nat \<Rightarrow> nat \<Rightarrow> bool" where
  "tcp_frame f ihl thl \<longleftrightarrow> octets f \<and> word_at f 12 = ETHERTYPE_IPV4 \<and> byteAt f 23 = IP_PROTO_TCP \<and>
     ihl = (byteAt f 14 AND 0x0f) * 4 \<and> 20 \<le> ihl \<and> thl = drop_bit 4 (byteAt f (14 + ihl + 12)) * 4 \<and> 20 \<le> thl \<and>
     14 + ihl + thl \<le> length f \<and> length f \<le> 65535"

definition fin_flag :: "u8s \<Rightarrow> nat \<Rightarrow> bool" where
  "fin_flag f tcp \<longleftrightarrow> byteAt f (tcp + 13) AND TCP_FLAG_FIN \<noteq> 0"

definition total_length :: "u8s \<Rightarrow> nat" where
  "total_length f = word_at f 16"

lemma split_frame:
  assumes "tcp_frame f ihl thl"
  shows "splitFinData f = (if \<not> fin_flag f (14 + ihl) \<or> length f = 14 + ihl + thl then None
    else Some (recalcTcpChecksum (set_byte (14 + ihl + 13) (unset_bit 0 (byteAt f (14 + ihl + 13))) f) 14 (14 + ihl),
      recalcTcpChecksum (recalcIpChecksum (addToSeqNumber
        (set_byte 17 ((ihl + thl) AND 0xff) (set_byte 16 (drop_bit 8 (ihl + thl) AND 0xff) (take (14 + ihl + thl) f)))
        (14 + ihl + 4) (int (length f - (14 + ihl + thl)))) 14 ihl) 14 (14 + ihl)))"
proof -
  have *: "54 \<le> length f" "byteAt f 23 = IP_PROTO_TCP" "word_at f 12 = ETHERTYPE_IPV4" "(byteAt f 14 AND 0x0f) * 4 = ihl"
    "drop_bit 4 (byteAt f (14 + ihl + 12)) * 4 = thl" "14 + ihl + thl \<le> length f"
    using assms by (auto simp: tcp_frame_def)
  then have "int (length f) - int (14 + ihl) - int thl = int (length f - (14 + ihl + thl))" by simp
  then show ?thesis using * by (simp add: splitFinData_def fin_flag_def MIN_TCP_FRAME_LEN_def Let_def not_less diff_diff_eq)
qed

lemma unset_fin: "unset_bit 0 (n :: nat) AND TCP_FLAG_FIN = 0"
  by (simp add: TCP_FLAG_FIN_def and_one_eq unset_bit_0)

text \<open>The two frames, for any bytes behind the headers.\<close>

lemma split_headers:
  assumes "tcp_frame f ihl thl" "fin_flag f (14 + ihl)" "14 + ihl + thl < length f"
  shows "\<exists>d e. splitFinData f = Some (d, e) \<and>
      length d = length f \<and> \<not> fin_flag d (14 + ihl) \<and> tcp_checksum_ok d (14 + ihl) \<and>
      (\<forall>j. j \<notin> {14 + ihl + 13, 14 + ihl + 16, 14 + ihl + 17} \<longrightarrow> byteAt d j = byteAt f j) \<and>
      length e = 14 + total_length e \<and> total_length e = ihl + thl \<and> fin_flag e (14 + ihl) \<and>
      seq_at e (14 + ihl + 4) = (seq_at f (14 + ihl + 4) + (length f - (14 + ihl + thl))) mod 2 ^ 32 \<and>
      ip_checksum_ok e ihl \<and> tcp_checksum_ok e (14 + ihl) \<and>
      (\<forall>j < length e. j \<notin> {16, 17, 24, 25, 14 + ihl + 16, 14 + ihl + 17} \<union> {14 + ihl + 4..<14 + ihl + 8} \<longrightarrow> byteAt e j = byteAt f j)"
proof -
  let ?t = "14 + ihl" let ?n = "14 + ihl + thl" let ?p = "int (length f - ?n)"
  let ?dd = "set_byte (?t + 13) (unset_bit 0 (byteAt f (?t + 13))) f" let ?d = "recalcTcpChecksum ?dd 14 ?t"
  let ?ea = "take ?n f"
  let ?eb = "set_byte 17 ((ihl + thl) AND 0xff) (set_byte 16 (drop_bit 8 (ihl + thl) AND 0xff) ?ea)"
  let ?ec = "addToSeqNumber ?eb (?t + 4) ?p" let ?ed = "recalcIpChecksum ?ec 14 ihl" let ?e = "recalcTcpChecksum ?ed 14 ?t"
  have F: "octets f" "20 \<le> ihl" "20 \<le> thl" "?n \<le> length f" "length f \<le> 65535" "ihl = 4 * (byteAt f 14 AND 0x0f)"
    using assms(1) by (auto simp: tcp_frame_def)
  have "byteAt f 14 AND 0x0f < 16" using take_bit_eq_mask[of 4 "byteAt f 14"] by (simp add: mask_eq_exp_minus_1 take_bit_eq_mod)
  then have ihl: "ihl \<le> 60" using F(6) by simp
  have split: "splitFinData f = Some (?d, ?e)" using split_frame[OF assms(1)] assms(2,3) by simp
  note D = recalc_tcp[of ?dd ?t, OF octets_set[OF F(1)]]
  have d: "length ?d = length f" "tcp_checksum_ok ?d ?t" "\<And>j. j \<noteq> ?t + 16 \<Longrightarrow> j \<noteq> ?t + 17 \<Longrightarrow> byteAt ?d j = byteAt ?dd j"
    using D F(2-5) by simp_all
  have E1: "octets ?eb" "length ?eb = ?n" using F(1,4) by (simp_all add: octets_set octets_take)
  have N: "?t + 4 + 4 \<le> ?n" "14 + ihl \<le> ?n" "?t + 18 \<le> ?n" "34 \<le> ?t" "?n \<le> 65535" "22 + ihl \<le> length f" "32 + ihl \<le> length f"
    using F by simp_all
  note E2 = add_seq[OF E1(1), where i = "?t + 4" and d = ?p]
  have ec: "octets ?ec" "length ?ec = ?n" using E2(2,3) E1(2) N by simp_all
  have lc: "14 + ihl \<le> length ?ec" unfolding ec(2) by (rule N(2))
  note E3 = recalc_ip[of ?ec ihl, OF ec(1) F(6,2) ihl lc]
  have ed: "octets ?ed" "length ?ed = ?n" "ip_checksum_ok ?ed ihl" using E3(1-3) ec(2) by simp_all
  have ld: "?t + 18 \<le> length ?ed" "length ?ed \<le> 65535" unfolding ed(2) by (rule N(3), rule N(5))
  note E4 = recalc_tcp[of ?ed ?t, OF ed(1) N(4) ld]
  have e: "octets ?e" "length ?e = ?n" "tcp_checksum_ok ?e ?t" using E4(1-3) ed(2) by simp_all
  have bytes: "byteAt ?e j = byteAt ?ec j" if "j \<notin> {24, 25, ?t + 16, ?t + 17}" for j
    using E4(4)[of j] E3(4)[of j] that ec(2) ed(2) N by simp
  have other: "byteAt ?ec j = byteAt ?eb j" if "j < ?t + 4 \<or> ?t + 8 \<le> j" for j
    using E2(4)[of j] that E1(2) N by auto
  have cut: "byteAt ?eb j = byteAt f j" if "j < ?n" "j \<notin> {16, 17}" for j
    using that F(4) by (simp add: byte_set) (simp add: byteAt_def byte_at_def)
  have at: "byteAt ?e j = byteAt f j"
    if "j < ?n" "j \<notin> {16, 17, 24, 25, ?t + 16, ?t + 17} \<union> {?t + 4..<?t + 8}" for j
    using that bytes[of j] other[of j] cut[of j] by auto
  have small: "ihl + thl \<le> 65535" using F(4,5) by simp
  have "byteAt ?e 16 = (drop_bit 8 (ihl + thl) AND 0xff) mod 256" "byteAt ?e 17 = ((ihl + thl) AND 0xff) mod 256"
    using bytes[of 16] bytes[of 17] other[of 16] other[of 17] F(2,4) by (simp_all add: byte_set)
  then have total: "total_length ?e = ihl + thl"
    using word_value[OF e(1), of 16] checksum_bytes[OF small] by (simp add: total_length_def)
  have seq_cong: "seq_at g i = seq_at h i" if "\<And>k. k < 4 \<Longrightarrow> byteAt g (i + k) = byteAt h (i + k)" for g h i
    using that[of 0] that[of 1] that[of 2] that[of 3] by (simp add: seq_at_def)
  have "seq_at ?e (?t + 4) = seq_at ?ec (?t + 4)" by (rule seq_cong, rule bytes) (use F(2) in auto)
  also have "\<dots> = nat ((int (seq_at ?eb (?t + 4)) + ?p) mod 2 ^ 32)" using E2(1) E1(2) N by simp
  also have "seq_at ?eb (?t + 4) = seq_at f (?t + 4)" by (rule seq_cong, rule cut) (use F(2,3) in auto)
  also have "nat ((int (seq_at f (?t + 4)) + ?p) mod 2 ^ 32) = (seq_at f (?t + 4) + (length f - ?n)) mod 2 ^ 32"
    by (metis nat_int of_nat_add of_nat_numeral of_nat_power zmod_int)
  finally have seq: "seq_at ?e (?t + 4) = (seq_at f (?t + 4) + (length f - ?n)) mod 2 ^ 32" .
  have flags: "byteAt ?e (?t + 13) = byteAt f (?t + 13)" "byteAt ?d (?t + 13) = unset_bit 0 (byteAt f (?t + 13)) mod 256"
    using at[of "?t + 13"] d(3)[of "?t + 13"] N F(2,3) by (simp_all add: byte_set)
  have "unset_bit 0 (byteAt f (?t + 13)) < 256"
    using octet_at[OF F(1), of "?t + 13"] by (simp add: unset_bit_0)
  then have fin: "\<not> fin_flag ?d ?t" "fin_flag ?e ?t" using assms(2) flags unset_fin by (simp_all add: fin_flag_def)
  have same: "byteAt ?d j = byteAt f j" if "j \<notin> {?t + 13, ?t + 16, ?t + 17}" for j
    using d(3)[of j] that by (simp add: byte_set)
  have "take ihl (drop 14 ?e) = take ihl (drop 14 ?ed)"
  proof (rule nth_equalityI)
    fix i assume "i < length (take ihl (drop 14 ?e))"
    then have i: "i < ihl" by simp
    then have "byteAt ?e (14 + i) = byteAt ?ed (14 + i)" using E4(4)[of "14 + i"] ed(2) N by simp
    then show "take ihl (drop 14 ?e) ! i = take ihl (drop 14 ?ed) ! i"
      using i e(2) ed(2) by (simp add: byteAt_def byte_at_def)
  qed (use e(2) ed(2) in simp)
  then have ip: "ip_checksum_ok ?e ihl" using ed(3) by (simp add: ip_checksum_ok_def)
  have size: "length ?e = 14 + total_length ?e" using e(2) total by simp
  have kept: "byteAt ?e j = byteAt f j"
    if "j < length ?e" "j \<notin> {16, 17, 24, 25, ?t + 16, ?t + 17} \<union> {?t + 4..<?t + 8}" for j
    using at[of j] that unfolding e(2) by blast
  show ?thesis
    by (intro exI[of _ ?d] exI[of _ ?e] conjI allI impI split d(1,2) fin size total seq ip e(3) same kept) assumption+
qed


definition fin_frame :: u8s where
  "fin_frame = [2, 2, 2, 2, 2, 2, 2, 2, 2, 2, 2, 2, 8, 0] @ [69, 0, 0, 43, 0, 1, 0, 0, 64, 6, 0, 0, 192, 168, 8, 1, 192, 168, 8, 100]
     @ [0, 80, 156, 64, 255, 255, 255, 254, 0, 0, 0, 7, 80, 17, 16, 0, 0, 0, 0, 0] @ [79, 75, 10]"


text \<open>Ethernet pads short frames. The padding of a segment that is FIN alone is taken for data: the frame is split,
  and the FIN that is handed on is numbered as if the padding had been sent, so it is never in sequence.\<close>

theorem padded_fin_split:
  assumes "tcp_frame f ihl thl" "fin_flag f (14 + ihl)" "total_length f = ihl + thl" "14 + total_length f < length f"
  shows "\<exists>d e. splitFinData f = Some (d, e) \<and> fin_flag e (14 + ihl) \<and>
    seq_at e (14 + ihl + 4) = (seq_at f (14 + ihl + 4) + (length f - 14 - total_length f)) mod 2 ^ 32"
  using split_headers[OF assms(1,2)] assms(3,4) by (auto simp: add.assoc)

end
