(* ===== verification/Rndis.thy ===== *)
theory Rndis imports Bytes begin

text \<open>
  \<^verbatim>\<open>packages/core/src/transport/rndis/protocol.ts\<close>: the messages of Remote NDIS. A field is stored modulo
  \<open>2 ^ 32\<close>; reading one past the end of a view is a RangeError, here \<open>None\<close> of the response parser.
\<close>

section \<open>Constants\<close>

definition MSG_INITIALIZE :: nat where "MSG_INITIALIZE = 0x00000002"
definition MSG_INITIALIZE_CMPLT :: nat where "MSG_INITIALIZE_CMPLT = 0x80000002"
definition MSG_QUERY :: nat where "MSG_QUERY = 0x00000004"
definition MSG_QUERY_CMPLT :: nat where "MSG_QUERY_CMPLT = 0x80000004"
definition MSG_SET :: nat where "MSG_SET = 0x00000005"
definition MSG_SET_CMPLT :: nat where "MSG_SET_CMPLT = 0x80000005"
definition MSG_HALT :: nat where "MSG_HALT = 0x00000006"
definition MSG_PACKET :: nat where "MSG_PACKET = 0x00000001"
definition OID_GEN_CURRENT_PACKET_FILTER :: nat where "OID_GEN_CURRENT_PACKET_FILTER = 0x0001010e"
definition OID_802_3_PERMANENT_ADDRESS :: nat where "OID_802_3_PERMANENT_ADDRESS = 0x01010101"
definition PACKET_FILTER :: nat where "PACKET_FILTER = 0x00000001 OR 0x00000002 OR 0x00000008"
definition RNDIS_STATUS_SUCCESS :: nat where "RNDIS_STATUS_SUCCESS = 0"
definition RNDIS_PACKET_HEADER_SIZE :: nat where "RNDIS_PACKET_HEADER_SIZE = 44"
definition DEFAULT_MAX_TRANSFER_SIZE :: nat where "DEFAULT_MAX_TRANSFER_SIZE = 0x00004000"

section \<open>Builders\<close>

definition fields :: "nat list \<Rightarrow> u8s" where
  "fields ws = concat (map (\<lambda>w. le32 (w mod 2 ^ 32)) ws)"

definition buildInitializeMsg :: "nat \<Rightarrow> u8s" where
  "buildInitializeMsg requestId = fields [MSG_INITIALIZE, 24, requestId, 1, 0, DEFAULT_MAX_TRANSFER_SIZE]"

definition buildSetPacketFilterMsg :: "nat \<Rightarrow> u8s" where
  "buildSetPacketFilterMsg requestId = fields [MSG_SET, 32, requestId, OID_GEN_CURRENT_PACKET_FILTER, 4, 20, 0, PACKET_FILTER]"

definition buildQueryMacMsg :: "nat \<Rightarrow> u8s" where
  "buildQueryMacMsg requestId = fields [MSG_QUERY, 28, requestId, OID_802_3_PERMANENT_ADDRESS, 0, 0, 0]"

definition buildHaltMsg :: "nat \<Rightarrow> u8s" where
  "buildHaltMsg requestId = fields [MSG_HALT, 12, requestId]"

definition buildPacketMsg :: "u8s \<Rightarrow> u8s" where
  "buildPacketMsg ethFrame =
     fields [MSG_PACKET, RNDIS_PACKET_HEADER_SIZE + length ethFrame, 36, length ethFrame] @ replicate 28 0 @ ethFrame"

section \<open>Parsers\<close>

definition parsePacketMsg :: "u8s \<Rightarrow> u8s option" where
  "parsePacketMsg data =
     (if length data < RNDIS_PACKET_HEADER_SIZE then None
      else if read_le32 data 0 \<noteq> MSG_PACKET then None
      else
        (let frameStart = 8 + read_le32 data 8; frameEnd = frameStart + read_le32 data 12
         in if frameEnd > length data then None else Some (drop frameStart (take frameEnd data))))"

datatype rndis_response =
    Initialize_Response nat nat nat
  | Set_Response nat nat
  | Query_Response nat nat u8s
  | Unknown_Response nat

definition get_uint32 :: "u8s \<Rightarrow> nat \<Rightarrow> nat option" where
  "get_uint32 data i = (if i + 4 \<le> length data then Some (read_le32 data i) else None)"

definition parse_initialize :: "u8s \<Rightarrow> rndis_response option" where
  "parse_initialize data =
     Option.bind (get_uint32 data 8) (\<lambda>requestId. Option.bind (get_uint32 data 12) (\<lambda>status.
       Option.bind (get_uint32 data 24) (\<lambda>size. Some (Initialize_Response requestId status size))))"

definition parse_set :: "u8s \<Rightarrow> rndis_response option" where
  "parse_set data =
     Option.bind (get_uint32 data 8) (\<lambda>requestId. Option.bind (get_uint32 data 12) (\<lambda>status.
       Some (Set_Response requestId status)))"

definition parse_query :: "u8s \<Rightarrow> rndis_response option" where
  "parse_query data =
     Option.bind (get_uint32 data 12) (\<lambda>status. Option.bind (get_uint32 data 16) (\<lambda>infoLength.
       Option.bind (get_uint32 data 20) (\<lambda>infoOffset.
         (let start = 8 + infoOffset;
              info = (if infoLength > 0 \<and> start + infoLength \<le> length data then drop start (take (start + infoLength) data) else [])
          in Option.bind (get_uint32 data 8) (\<lambda>requestId. Some (Query_Response requestId status info))))))"

definition parseResponse :: "u8s \<Rightarrow> rndis_response option" where
  "parseResponse data =
     Option.bind (get_uint32 data 0) (\<lambda>msgType.
       if msgType = MSG_INITIALIZE_CMPLT then parse_initialize data
       else if msgType = MSG_SET_CMPLT then parse_set data
       else if msgType = MSG_QUERY_CMPLT then parse_query data
       else Some (Unknown_Response msgType))"

definition isSuccess :: "nat \<Rightarrow> bool" where
  "isSuccess status \<longleftrightarrow> status = RNDIS_STATUS_SUCCESS"

section \<open>Frames and answers\<close>

lemma field_at:
  assumes "i < length ws" "ws ! i < 2 ^ 32"
  shows "read_le32 (fields ws @ bs) (4 * i) = ws ! i"
proof -
  have len: "length (fields vs) = 4 * length vs" for vs by (induction vs) (simp_all add: fields_def)
  have "fields ws = fields (take i ws) @ le32 (ws ! i) @ fields (drop (Suc i) ws)"
    using assms by (subst id_take_nth_drop[OF assms(1)]) (simp add: fields_def)
  then show ?thesis
    using read_le32_at[OF assms(2), of "fields (take i ws)" "4 * i"] assms(1) len[of "take i ws"] by simp
qed

lemma length_fields [simp]: "length (fields ws) = 4 * length ws"
  by (induction ws) (simp_all add: fields_def)

lemma packet_parsed:
  assumes "length f + 44 < 2 ^ 32"
  shows "parsePacketMsg (buildPacketMsg f) = Some f"
proof -
  let ?ws = "[MSG_PACKET, RNDIS_PACKET_HEADER_SIZE + length f, 36, length f]"
  have "read_le32 (buildPacketMsg f) 0 = MSG_PACKET" "read_le32 (buildPacketMsg f) 8 = 36"
    "read_le32 (buildPacketMsg f) 12 = length f"
    using field_at[of 0 ?ws "replicate 28 0 @ f"] field_at[of 2 ?ws "replicate 28 0 @ f"] field_at[of 3 ?ws "replicate 28 0 @ f"] assms
    by (simp_all add: buildPacketMsg_def MSG_PACKET_def)
  moreover have "drop 44 (buildPacketMsg f) = f" "length (buildPacketMsg f) = 44 + length f"
    by (simp_all add: buildPacketMsg_def)
  ultimately show ?thesis by (simp add: parsePacketMsg_def RNDIS_PACKET_HEADER_SIZE_def drop_take)
qed

text \<open>The frame taken from a packet lies inside it.\<close>

lemma packet_inside: "parsePacketMsg data = Some f \<Longrightarrow> \<exists>pre post. data = pre @ f @ post \<and> 8 \<le> length pre"
proof -
  assume "parsePacketMsg data = Some f"
  then have f': "8 + read_le32 data 8 + read_le32 data 12 \<le> length data"
      "f = drop (8 + read_le32 data 8) (take (8 + read_le32 data 8 + read_le32 data 12) data)"
    by (simp_all add: parsePacketMsg_def Let_def split: if_splits)
  define a b where "a = 8 + read_le32 data 8" "b = a + read_le32 data 12"
  then have f: "8 \<le> a" "a \<le> b" "b \<le> length data" "f = drop a (take b data)" using f' by simp_all
  have "data = take a data @ drop a (take b data) @ drop b data"
    using f(2) by (metis append.assoc append_take_drop_id min.absorb1 take_take)
  then show ?thesis using f by (metis length_take min.absorb2 le_trans)
qed

text \<open>C32: an Ethernet frame survives the encapsulation, whatever its bytes. Of every buffer, well-formed or not, the
  parser gives back nothing or bytes of that buffer behind its first two fields. And the device's answers are read
  with the values they were given, the address with exactly its bytes.\<close>

theorem rndis_exchange:
  "(length f + 44 < 2 ^ 32 \<longrightarrow> parsePacketMsg (buildPacketMsg f) = Some f) \<and>
   (parsePacketMsg data = Some g \<longrightarrow> (\<exists>pre post. data = pre @ g @ post \<and> 8 \<le> length pre)) \<and>
   (list_all (\<lambda>w. w < 2 ^ 32) [i, st, sz, a, b, d] \<and> length mac < 2 ^ 32 \<longrightarrow>
     parseResponse (fields [MSG_INITIALIZE_CMPLT, a, i, st, b, d, sz] @ rest) = Some (Initialize_Response i st sz) \<and>
     parseResponse (fields [MSG_SET_CMPLT, a, i, st] @ rest) = Some (Set_Response i st) \<and>
     parseResponse (fields [MSG_QUERY_CMPLT, a, i, st, length mac, 16] @ mac @ rest) = Some (Query_Response i st mac))"
proof (intro conjI impI)
  show "parsePacketMsg (buildPacketMsg f) = Some f" if "length f + 44 < 2 ^ 32" using packet_parsed[OF that] .
  show "\<exists>pre post. data = pre @ g @ post \<and> 8 \<le> length pre" if "parsePacketMsg data = Some g" using packet_inside[OF that] .
next
  assume ok: "list_all (\<lambda>w. w < 2 ^ 32) [i, st, sz, a, b, d] \<and> length mac < 2 ^ 32"
  let ?i = "[MSG_INITIALIZE_CMPLT, a, i, st, b, d, sz]"
  show "parseResponse (fields ?i @ rest) = Some (Initialize_Response i st sz)"
    using ok field_at[of 0 ?i rest] field_at[of 2 ?i rest] field_at[of 3 ?i rest] field_at[of 6 ?i rest]
    by (simp add: parseResponse_def get_uint32_def parse_initialize_def MSG_INITIALIZE_CMPLT_def)
  let ?s = "[MSG_SET_CMPLT, a, i, st]"
  show "parseResponse (fields ?s @ rest) = Some (Set_Response i st)"
    using ok field_at[of 0 ?s rest] field_at[of 2 ?s rest] field_at[of 3 ?s rest]
    by (simp add: parseResponse_def get_uint32_def parse_set_def MSG_INITIALIZE_CMPLT_def MSG_SET_CMPLT_def)
  let ?q = "[MSG_QUERY_CMPLT, a, i, st, length mac, 16]"
  have "drop 24 (take (24 + length mac) (fields ?q @ mac @ rest)) = mac" by simp
  then show "parseResponse (fields ?q @ mac @ rest) = Some (Query_Response i st mac)"
    using ok field_at[of 0 ?q "mac @ rest"] field_at[of 2 ?q "mac @ rest"] field_at[of 3 ?q "mac @ rest"]
      field_at[of 4 ?q "mac @ rest"] field_at[of 5 ?q "mac @ rest"]
    by (simp add: parseResponse_def get_uint32_def parse_query_def MSG_INITIALIZE_CMPLT_def MSG_SET_CMPLT_def MSG_QUERY_CMPLT_def Let_def)
qed

theorem rndis_exchange_witness:
  "parsePacketMsg (buildPacketMsg [1, 2, 3]) = Some [1, 2, 3] \<and>
   parseResponse (fields [MSG_QUERY_CMPLT, 30, 3, 0, length [2 :: nat, 0, 0, 0, 0, 1], 16] @ [2, 0, 0, 0, 0, 1]) = Some (Query_Response 3 0 [2, 0, 0, 0, 0, 1])"
  using rndis_exchange[of "[1, 2, 3]" "[]" "[]" 3 0 0 30 0 0 "[2, 0, 0, 0, 0, 1]" "[]"] by simp

end
