(* ===== verification/Reconnect.thy ===== *)
theory Reconnect imports Machines Complex_Main begin

text \<open>
  \<^verbatim>\<open>packages/core/src/reconnector.ts\<close>: the reconnect loop of an adapter and the supervisor of the loops. A loop is
  cut at its awaits: \<open>loop_phase\<close> says which promise it waits for and whether that is settled, and the steps are
  the runtime's. \<open>modem_closed\<close> is the answer of \<open>isClosed\<close>, set by the modem. The promise \<open>done\<close> of a loop is settled
  when the loop leaves \<open>running\<close>. Adapters are numbers, delays are rationals, and the random number of a delay comes
  with the event that starts the sleep. The callbacks do not throw.
\<close>

section \<open>Configuration\<close>

record reconnect_config =
  reconnect_enabled :: bool
  initialDelay :: rat
  maxDelay :: rat
  maxAttempts :: nat

datatype reconnect_option =
    Reconnect_Default
  | Reconnect_Bool bool
  | Reconnect_Custom "rat option" "rat option" "nat option"

definition RECONNECT_INITIAL_DELAY_MS :: rat where "RECONNECT_INITIAL_DELAY_MS = 1000"
definition RECONNECT_MAX_DELAY_MS :: rat where "RECONNECT_MAX_DELAY_MS = 60000"
definition RECONNECT_MAX_ATTEMPTS :: nat where "RECONNECT_MAX_ATTEMPTS = 20"

fun resolveReconnectConfig :: "reconnect_option \<Rightarrow> reconnect_config" where
  "resolveReconnectConfig (Reconnect_Bool False) =
     \<lparr>reconnect_enabled = False, initialDelay = 0, maxDelay = 0, maxAttempts = 0\<rparr>"
| "resolveReconnectConfig (Reconnect_Custom d m n) =
     \<lparr>reconnect_enabled = True, initialDelay = or_else d RECONNECT_INITIAL_DELAY_MS, maxDelay = or_else m RECONNECT_MAX_DELAY_MS,
      maxAttempts = or_else n RECONNECT_MAX_ATTEMPTS\<rparr>"
| "resolveReconnectConfig _ =
     \<lparr>reconnect_enabled = True, initialDelay = RECONNECT_INITIAL_DELAY_MS, maxDelay = RECONNECT_MAX_DELAY_MS,
      maxAttempts = RECONNECT_MAX_ATTEMPTS\<rparr>"

definition effective_delay :: "reconnect_config \<Rightarrow> nat \<Rightarrow> rat \<Rightarrow> rat" where
  "effective_delay cfg attempts random =
     (let baseDelay = min (initialDelay cfg * 2 ^ attempts) (maxDelay cfg);
          jitter = baseDelay * (3 / 4 + random * (1 / 2))
      in max (initialDelay cfg) jitter)"

section \<open>Loops\<close>

datatype loop_phase = Sleeping | Slept | Sleep_Aborted | Reopening | Initializing | Ended

record reconnect_loop =
  loop_adapter :: nat
  loop_attempts :: nat
  loop_phase :: loop_phase
  loop_aborted :: bool

record supervisor =
  loop_table :: "(nat \<times> nat) list"
  running :: "(nat \<times> reconnect_loop) list"
  next_loop :: nat
  modem_closed :: bool
  shutdowns :: "(nat \<times> nat list) list"

datatype recon_action =
    Sleep nat rat
  | Reopen nat nat
  | Init_Adapter nat nat
  | Reconnected nat nat nat
  | Failed nat nat nat
  | First_Disconnect
  | Shutdown_Done nat

definition new_supervisor :: supervisor where
  "new_supervisor = \<lparr>loop_table = [], running = [], next_loop = 0, modem_closed = False, shutdowns = []\<rparr>"

definition set_loop :: "supervisor \<Rightarrow> nat \<Rightarrow> reconnect_loop \<Rightarrow> supervisor" where
  "set_loop s i l = s\<lparr>running := map_set i l (running s)\<rparr>"

definition end_loop :: "supervisor \<Rightarrow> nat \<Rightarrow> reconnect_loop \<Rightarrow> supervisor \<times> recon_action list" where
  "end_loop s i l =
     (set_loop s i (l\<lparr>loop_phase := Ended\<rparr>),
      if modem_closed s then [] else [Failed i (loop_adapter l) (loop_attempts l)])"

definition loop_head ::
  "reconnect_config \<Rightarrow> supervisor \<Rightarrow> nat \<Rightarrow> reconnect_loop \<Rightarrow> rat \<Rightarrow> supervisor \<times> recon_action list" where
  "loop_head cfg s i l random =
     (if \<not> modem_closed s \<and> loop_attempts l < maxAttempts cfg
      then (set_loop s i (l\<lparr>loop_phase := (if loop_aborted l then Sleep_Aborted else Sleeping)\<rparr>),
            [Sleep i (effective_delay cfg (loop_attempts l) random)])
      else end_loop s i l)"

definition after_sleep :: "supervisor \<Rightarrow> nat \<Rightarrow> reconnect_loop \<Rightarrow> supervisor \<times> recon_action list" where
  "after_sleep s i l =
     (if modem_closed s then end_loop s i l
      else (set_loop s i (l\<lparr>loop_attempts := loop_attempts l + 1, loop_phase := Reopening\<rparr>), [Reopen i (loop_adapter l)]))"

definition after_reopen ::
  "reconnect_config \<Rightarrow> supervisor \<Rightarrow> nat \<Rightarrow> reconnect_loop \<Rightarrow> bool \<Rightarrow> rat \<Rightarrow> supervisor \<times> recon_action list" where
  "after_reopen cfg s i l ok random =
     (if \<not> ok then loop_head cfg s i l random
      else if modem_closed s then end_loop s i l
      else (set_loop s i (l\<lparr>loop_phase := Initializing\<rparr>), [Init_Adapter i (loop_adapter l)]))"

definition after_init ::
  "reconnect_config \<Rightarrow> supervisor \<Rightarrow> nat \<Rightarrow> reconnect_loop \<Rightarrow> bool \<Rightarrow> rat \<Rightarrow> supervisor \<times> recon_action list" where
  "after_init cfg s i l ok random =
     (if \<not> ok then loop_head cfg s i l random
      else if modem_closed s then end_loop s i l
      else (set_loop s i (l\<lparr>loop_phase := Ended\<rparr>), [Reconnected i (loop_adapter l) (loop_attempts l)]))"

section \<open>Supervisor\<close>

definition isReconnecting :: "supervisor \<Rightarrow> nat \<Rightarrow> bool" where
  "isReconnecting s a \<longleftrightarrow> map_of (loop_table s) a \<noteq> None"

definition activeCount :: "supervisor \<Rightarrow> nat" where
  "activeCount s = length (loop_table s)"

definition start_loop :: "reconnect_config \<Rightarrow> supervisor \<Rightarrow> nat \<Rightarrow> rat \<Rightarrow> supervisor \<times> recon_action list" where
  "start_loop cfg s a random =
     (if modem_closed s then (s, [])
      else if isReconnecting s a then (s, [])
      else
        (let i = next_loop s;
             l = \<lparr>loop_adapter = a, loop_attempts = 0, loop_phase = Sleeping, loop_aborted = False\<rparr>;
             (s', out) = loop_head cfg (s\<lparr>next_loop := i + 1\<rparr>) i l random
         in (s'\<lparr>loop_table := loop_table s' @ [(a, i)]\<rparr>, out @ (if activeCount s = 0 then [First_Disconnect] else []))))"

definition abort_loop :: "reconnect_loop \<Rightarrow> reconnect_loop" where
  "abort_loop l = l\<lparr>loop_aborted := True, loop_phase := (if loop_phase l = Sleeping then Sleep_Aborted else loop_phase l)\<rparr>"

definition shutdown :: "supervisor \<Rightarrow> nat \<Rightarrow> supervisor" where
  "shutdown s k =
     (let inflight = map snd (loop_table s)
      in s\<lparr>running := map (\<lambda>(i, l). (i, if i \<in> set inflight then abort_loop l else l)) (running s),
           shutdowns := shutdowns s @ [(k, inflight)]\<rparr>)"

definition settle_loop :: "supervisor \<Rightarrow> nat \<Rightarrow> reconnect_loop \<Rightarrow> supervisor" where
  "settle_loop s i l =
     s\<lparr>loop_table := filter (\<lambda>e. fst e \<noteq> loop_adapter l) (loop_table s), running := filter (\<lambda>e. fst e \<noteq> i) (running s)\<rparr>"

section \<open>Events\<close>

datatype recon_event =
    Start nat rat
  | Timer nat
  | Sleep_Over nat
  | Sleep_Rejected nat
  | Reopened nat bool rat
  | Initialized nat bool rat
  | Loop_Settled nat
  | Close
  | Shutdown nat
  | Shutdown_Settled nat

definition at_phase :: "supervisor \<Rightarrow> nat \<Rightarrow> loop_phase \<Rightarrow> (reconnect_loop \<Rightarrow> 'r) \<Rightarrow> 'r option" where
  "at_phase s i p f =
     (case map_of (running s) i of None \<Rightarrow> None | Some l \<Rightarrow> if loop_phase l = p then Some (f l) else None)"

text \<open>A step that the runtime cannot take is \<open>None\<close>.\<close>

fun recon_step :: "reconnect_config \<Rightarrow> supervisor \<Rightarrow> recon_event \<Rightarrow> (supervisor \<times> recon_action list) option" where
  "recon_step cfg s (Start a random) = Some (start_loop cfg s a random)"
| "recon_step cfg s (Timer i) = at_phase s i Sleeping (\<lambda>l. (set_loop s i (l\<lparr>loop_phase := Slept\<rparr>), []))"
| "recon_step cfg s (Sleep_Over i) = at_phase s i Slept (after_sleep s i)"
| "recon_step cfg s (Sleep_Rejected i) = at_phase s i Sleep_Aborted (end_loop s i)"
| "recon_step cfg s (Reopened i ok random) = at_phase s i Reopening (\<lambda>l. after_reopen cfg s i l ok random)"
| "recon_step cfg s (Initialized i ok random) = at_phase s i Initializing (\<lambda>l. after_init cfg s i l ok random)"
| "recon_step cfg s (Loop_Settled i) = at_phase s i Ended (\<lambda>l. (settle_loop s i l, []))"
| "recon_step cfg s Close = Some (s\<lparr>modem_closed := True\<rparr>, [])"
| "recon_step cfg s (Shutdown k) = Some (shutdown s k, [])"
| "recon_step cfg s (Shutdown_Settled k) =
     (case map_of (shutdowns s) k of
        None \<Rightarrow> None
      | Some inflight \<Rightarrow>
          if \<exists>i\<in>set inflight. map_of (running s) i \<noteq> None then None
          else Some (s\<lparr>loop_table := [], shutdowns := filter (\<lambda>e. fst e \<noteq> k) (shutdowns s)\<rparr>, [Shutdown_Done k]))"

inductive recon_run :: "reconnect_config \<Rightarrow> recon_event list \<Rightarrow> supervisor \<Rightarrow> recon_action list \<Rightarrow> bool" for cfg where
  run_new: "recon_run cfg [] new_supervisor []"
| run_step: "recon_run cfg es s out \<Longrightarrow> recon_step cfg s e = Some (s', acts) \<Longrightarrow> recon_run cfg (es @ [e]) s' (out @ acts)"

inductive_cases recon_run_snoc: "recon_run cfg (es @ [e]) s out"

section \<open>Shutdown\<close>

lemma map_of_abort: "map_of (map (\<lambda>(i, l). (i, if P i then f l else l)) m) i = map_option (\<lambda>l. if P i then f l else l) (map_of m i)"
  by (induction m) auto

lemma at_phase_Some: "at_phase s i p f = Some r \<longleftrightarrow> (\<exists>l. map_of (running s) i = Some l \<and> loop_phase l = p \<and> r = f l)"
  by (auto simp: at_phase_def split: option.splits)

text \<open>Every running loop is the one in the table for its adapter; a shutdown of a closed modem awaits all of them.\<close>

definition registered :: "supervisor \<Rightarrow> bool" where
  "registered s \<longleftrightarrow> (\<forall>i l. map_of (running s) i = Some l \<longrightarrow> map_of (loop_table s) (loop_adapter l) = Some i \<and> i < next_loop s)"

definition awaited :: "supervisor \<Rightarrow> bool" where
  "awaited s \<longleftrightarrow> (\<forall>k ids. map_of (shutdowns s) k = Some ids \<longrightarrow> modem_closed s \<and> (\<forall>i. map_of (running s) i \<noteq> None \<longrightarrow> i \<in> set ids))"

definition drained_run :: "supervisor \<Rightarrow> bool" where
  "drained_run s \<longleftrightarrow> modem_closed s \<and> running s = []"

lemma set_loop_simps [simp]:
  "map_of (running (set_loop s i l)) = (map_of (running s))(i \<mapsto> l)" "loop_table (set_loop s i l) = loop_table s"
  "next_loop (set_loop s i l) = next_loop s" "modem_closed (set_loop s i l) = modem_closed s" "shutdowns (set_loop s i l) = shutdowns s"
  by (simp_all add: set_loop_def map_of_map_set)

text \<open>A step of a loop changes that loop alone, and not its adapter.\<close>

definition own_step :: "supervisor \<Rightarrow> nat \<Rightarrow> reconnect_loop \<Rightarrow> supervisor \<Rightarrow> bool" where
  "own_step s i l s' \<longleftrightarrow> (\<exists>l'. loop_adapter l' = loop_adapter l \<and> s' = set_loop s i l')"

lemma own_stepI: "loop_adapter l' = loop_adapter l \<Longrightarrow> own_step s i l (set_loop s i l')"
  by (auto simp: own_step_def)

lemma own_steps:
  "own_step s i l (fst (end_loop s i l))" "own_step s i l (fst (loop_head cfg s i l r))" "own_step s i l (fst (after_sleep s i l))"
  "own_step s i l (fst (after_reopen cfg s i l ok r))" "own_step s i l (fst (after_init cfg s i l ok r))"
  by (auto simp: end_loop_def loop_head_def after_sleep_def after_reopen_def after_init_def intro!: own_stepI)

lemma own_step_safe:
  assumes "own_step s i l s'" "map_of (running s) i = Some l" "registered s" "awaited s"
  shows "registered s' \<and> awaited s'"
proof -
  obtain l' where l': "loop_adapter l' = loop_adapter l" "s' = set_loop s i l'" using assms(1) by (auto simp: own_step_def)
  have "registered s'"
    using assms(2,3) l' unfolding registered_def by (metis fun_upd_apply option.inject set_loop_simps(1-3))
  moreover have "awaited s'"
    using assms(2,4) l' unfolding awaited_def by (metis fun_upd_apply option.distinct(1) set_loop_simps(1,4,5))
  ultimately show ?thesis by blast
qed

lemma start_safe:
  assumes "registered s" "awaited s"
  shows "registered (fst (start_loop cfg s a r)) \<and> awaited (fst (start_loop cfg s a r))"
proof (cases "modem_closed s \<or> isReconnecting s a")
  case True
  then show ?thesis using assms by (auto simp: start_loop_def)
next
  case False
  let ?i = "next_loop s" let ?l = "\<lparr>loop_adapter = a, loop_attempts = 0, loop_phase = Sleeping, loop_aborted = False\<rparr>"
  obtain l' where l': "loop_adapter l' = a" "fst (loop_head cfg (s\<lparr>next_loop := ?i + 1\<rparr>) ?i ?l r) = set_loop (s\<lparr>next_loop := ?i + 1\<rparr>) ?i l'"
    using own_steps(2)[of "s\<lparr>next_loop := ?i + 1\<rparr>" ?i ?l cfg r] by (auto simp: own_step_def)
  let ?s = "fst (start_loop cfg s a r)"
  have s: "?s = (set_loop (s\<lparr>next_loop := ?i + 1\<rparr>) ?i l')\<lparr>loop_table := loop_table s @ [(a, ?i)]\<rparr>"
    using False l'(2) by (simp add: start_loop_def Let_def split_beta)
  then have run: "map_of (running ?s) = (map_of (running s))(?i \<mapsto> l')" "loop_table ?s = loop_table s @ [(a, ?i)]"
    "next_loop ?s = ?i + 1" "modem_closed ?s = modem_closed s" "shutdowns ?s = shutdowns s"
    by (simp_all add: set_loop_def map_of_map_set)
  have new: "map_of (loop_table s) a = None" using False by (simp add: isReconnecting_def)
  have "map_of (loop_table ?s) (loop_adapter l) = Some j \<and> j < next_loop ?s" if "map_of (running ?s) j = Some l" for j l
  proof (cases "j = ?i")
    case True
    then show ?thesis using that run(1-3) l'(1) new by (simp add: map_add_def)
  next
    case other: False
    then have "map_of (loop_table s) (loop_adapter l) = Some j" "j < ?i" using that run(1) assms(1) by (auto simp: registered_def)
    then show ?thesis using run(2,3) by (simp add: map_add_def)
  qed
  moreover have "map_of (shutdowns s) k = None" for k using assms(2) False by (auto simp: awaited_def)
  ultimately show ?thesis using run(4,5) by (auto simp: registered_def awaited_def)
qed

lemma shutdown_safe:
  assumes "registered s" "awaited s" "modem_closed s"
  shows "registered (shutdown s k) \<and> awaited (shutdown s k)"
proof -
  have run: "map_of (running (shutdown s k)) i = map_option (\<lambda>l. if i \<in> set (map snd (loop_table s)) then abort_loop l else l) (map_of (running s) i)" for i
    by (simp add: shutdown_def Let_def map_of_abort)
  have table: "loop_table (shutdown s k) = loop_table s" "next_loop (shutdown s k) = next_loop s"
    "modem_closed (shutdown s k) = modem_closed s" "shutdowns (shutdown s k) = shutdowns s @ [(k, map snd (loop_table s))]"
    by (simp_all add: shutdown_def Let_def)
  have "i \<in> set (map snd (loop_table s))" if "map_of (running s) i = Some l" for i l
    using assms(1) that by (force simp: registered_def dest: map_of_SomeD)
  then have "awaited (shutdown s k)"
    using assms(2,3) run table(3,4) by (fastforce simp: awaited_def map_add_def split: option.splits if_splits)
  moreover have "registered (shutdown s k)"
    using assms(1) run table(1,2) by (auto simp: registered_def abort_loop_def)
  ultimately show ?thesis by blast
qed

lemma settle_safe:
  assumes "registered s" "awaited s" "map_of (running s) i = Some l"
  shows "registered (settle_loop s i l) \<and> awaited (settle_loop s i l)"
  using assms unfolding registered_def awaited_def settle_loop_def by (auto simp: map_of_filter_key) (metis option.inject)

text \<open>Shutdowns come after the close.\<close>

definition closes_first :: "recon_event list \<Rightarrow> bool" where
  "closes_first es \<longleftrightarrow> (\<forall>as k bs. es = as @ Shutdown k # bs \<longrightarrow> Close \<in> set as)"

lemma closes_first_snoc: "closes_first (es @ [e]) \<Longrightarrow> closes_first es \<and> (\<forall>k. e = Shutdown k \<longrightarrow> Close \<in> set es)"
  by (auto simp: closes_first_def)

lemma closed_mono:
  assumes "recon_step cfg s e = Some (s', out)"
  shows "modem_closed s' \<longleftrightarrow> modem_closed s \<or> e = Close"
  using assms
  by (cases e) (auto simp: at_phase_Some start_loop_def loop_head_def end_loop_def after_sleep_def after_reopen_def after_init_def
    settle_loop_def shutdown_def Let_def split: if_splits prod.splits option.splits)

lemma run_closed: "recon_run cfg es s out \<Longrightarrow> modem_closed s \<longleftrightarrow> Close \<in> set es"
  by (induction rule: recon_run.induct) (auto simp: new_supervisor_def closed_mono)

lemma step_safe:
  assumes "recon_step cfg s e = Some (s', out)" "registered s" "awaited s" "\<And>k. e = Shutdown k \<Longrightarrow> modem_closed s"
  shows "registered s' \<and> awaited s'"
proof (cases e)
  case (Start a r)
  then show ?thesis using assms start_safe[of s cfg a r] by simp
next
  case (Timer i)
  then show ?thesis using assms own_step_safe[OF own_stepI] by (auto simp: at_phase_Some)
next
  case (Sleep_Over i)
  then show ?thesis using assms own_step_safe[OF own_steps(3)] by (auto simp: at_phase_Some) (metis fst_conv)+
next
  case (Sleep_Rejected i)
  then show ?thesis using assms own_step_safe[OF own_steps(1)] by (auto simp: at_phase_Some) (metis fst_conv)+
next
  case (Reopened i ok r)
  then show ?thesis using assms own_step_safe[OF own_steps(4)] by (auto simp: at_phase_Some) (metis fst_conv)+
next
  case (Initialized i ok r)
  then show ?thesis using assms own_step_safe[OF own_steps(5)] by (auto simp: at_phase_Some) (metis fst_conv)+
next
  case (Loop_Settled i)
  then show ?thesis using assms settle_safe by (auto simp: at_phase_Some)
next
  case (Shutdown k)
  then show ?thesis using assms shutdown_safe by auto
next
  case (Shutdown_Settled k)
  then show ?thesis using assms by (auto simp: registered_def awaited_def map_of_filter_key split: option.splits if_splits) (metis option.distinct(1))
qed (use assms in \<open>auto simp: registered_def awaited_def\<close>)

lemma run_safe: "recon_run cfg es s out \<Longrightarrow> closes_first es \<Longrightarrow> registered s \<and> awaited s"
proof (induction rule: recon_run.induct)
  case (run_step es s out e s' acts)
  then show ?case using step_safe[of cfg s e s' acts] closes_first_snoc run_closed by blast
qed (simp_all add: new_supervisor_def registered_def awaited_def)

definition adapter_ops :: "recon_action list \<Rightarrow> recon_action list" where
  "adapter_ops out = filter (\<lambda>a. case a of Reopen _ _ \<Rightarrow> True | Init_Adapter _ _ \<Rightarrow> True | _ \<Rightarrow> False) out"

lemma closed_step_ops:
  assumes "recon_step cfg s e = Some (s', acts)" "modem_closed s"
  shows "adapter_ops acts = []"
  using assms
  by (cases e) (auto simp: at_phase_Some start_loop_def loop_head_def end_loop_def after_sleep_def after_reopen_def after_init_def
    adapter_ops_def split: if_splits option.splits)

text \<open>The events before a point of a run are a run of their own.\<close>

lemma run_prefix:
  assumes "recon_run cfg (es @ fs) s' out'"
  shows "\<exists>s out acts. recon_run cfg es s out \<and> out' = out @ acts \<and> (modem_closed s \<longrightarrow> adapter_ops acts = [])"
  using assms
proof (induction fs arbitrary: s' out' rule: rev_induct)
  case (snoc f fs)
  then obtain s1 out1 acts1 where 1: "recon_run cfg (es @ fs) s1 out1" "recon_step cfg s1 f = Some (s', acts1)" "out' = out1 @ acts1"
    by (auto elim: recon_run_snoc[of cfg "es @ fs" f, simplified])
  obtain s out acts where 2: "recon_run cfg es s out" "out1 = out @ acts" "modem_closed s \<longrightarrow> adapter_ops acts = []"
    using snoc.IH[OF 1(1)] by blast
  have "modem_closed s \<Longrightarrow> modem_closed s1" using run_closed[OF 1(1)] run_closed[OF 2(1)] by simp
  then have "modem_closed s \<longrightarrow> adapter_ops (acts @ acts1) = []"
    using 2(3) closed_step_ops[OF 1(2)] by (simp add: adapter_ops_def)
  then show ?case using 1(3) 2 by (metis append.assoc)
next
  case Nil
  then show ?case by (intro exI[of _ s'] exI[of _ out'] exI[of _ "[]"]) (simp add: adapter_ops_def)
qed

lemma done_drained:
  assumes "recon_run cfg es s out" "closes_first es" "Shutdown_Done k \<in> set out"
  shows "running s = [] \<and> modem_closed s"
  using assms
proof (induction arbitrary: k rule: recon_run.induct)
  case (run_step es s out e s' acts)
  have first: "closes_first es" using run_step.prems(1) closes_first_snoc by blast
  show ?case
  proof (cases "Shutdown_Done k \<in> set out")
    case True
    then have "running s = []" "modem_closed s" using run_step.IH[OF first] by auto
    then show ?thesis
      using run_step.hyps(2) by (cases e) (auto simp: at_phase_def start_loop_def shutdown_def Let_def split: if_splits option.splits)
  next
    case False
    then have "Shutdown_Done k \<in> set acts" using run_step.prems(2) by simp
    then obtain ids where e: "e = Shutdown_Settled k" "map_of (shutdowns s) k = Some ids" "\<forall>i\<in>set ids. map_of (running s) i = None"
      "running s' = running s" "modem_closed s' = modem_closed s"
      using run_step.hyps(2) by (cases e) (auto simp: at_phase_Some start_loop_def loop_head_def end_loop_def after_sleep_def
          after_reopen_def after_init_def Let_def split: if_splits option.splits)
    have "awaited s" using run_safe[OF run_step.hyps(1) first] by simp
    then have "modem_closed s" "map_of (running s) i = None" for i using e(2,3) unfolding awaited_def by (metis not_None_eq)+
    then show ?thesis using e(4,5) by (cases "running s") (auto, metis map_of_Cons_code(2) option.distinct(1) surj_pair)
  qed
qed simp

text \<open>C16: after \<open>close\<close>, no loop starts to reopen or initialize its adapter, whatever it was waiting for; and when a
  shutdown that came after the close has settled, no loop is left, so that none is in the middle of a reopening and
  none will ever run: the adapters can be closed for good.\<close>

theorem reconnect_shutdown:
  assumes "recon_run cfg (es @ Close # fs) s out"
  shows "(\<exists>s0 out0 acts. recon_run cfg (es @ [Close]) s0 out0 \<and> out = out0 @ acts \<and> adapter_ops acts = []) \<and>
    ((\<forall>k. Shutdown k \<notin> set es) \<and> Shutdown_Done k \<in> set out \<longrightarrow> running s = [])"
proof (intro conjI impI)
  obtain s0 out0 acts where "recon_run cfg (es @ [Close]) s0 out0" "out = out0 @ acts" "modem_closed s0 \<longrightarrow> adapter_ops acts = []"
    using run_prefix[of cfg "es @ [Close]" fs s out] assms by auto
  then show "\<exists>s0 out0 acts. recon_run cfg (es @ [Close]) s0 out0 \<and> out = out0 @ acts \<and> adapter_ops acts = []"
    using run_closed[of cfg "es @ [Close]" s0 out0] by auto
next
  assume k: "(\<forall>k. Shutdown k \<notin> set es) \<and> Shutdown_Done k \<in> set out"
  have "Close \<in> set as" if "es @ Close # fs = as @ Shutdown j # bs" for as j bs
  proof (rule ccontr)
    assume "Close \<notin> set as"
    then have "\<exists>cs. es = as @ Shutdown j # cs"
      using that by (auto simp: append_eq_append_conv2 append_eq_Cons_conv Cons_eq_append_conv)
    then show False using k by auto
  qed
  then show "running s = []" using done_drained[OF assms] k by (auto simp: closes_first_def)
qed

section \<open>Attempts and delays\<close>

fun reopen_of :: "nat \<Rightarrow> recon_action \<Rightarrow> bool" where
  "reopen_of i (Reopen j a) = (j = i)"
| "reopen_of i _ = False"

fun end_of :: "nat \<Rightarrow> recon_action \<Rightarrow> bool" where
  "end_of i (Reconnected j a n) = (j = i)"
| "end_of i (Failed j a n) = (j = i)"
| "end_of i _ = False"

definition reopens :: "nat \<Rightarrow> recon_action list \<Rightarrow> nat" where
  "reopens i out = length (filter (reopen_of i) out)"

definition ends :: "nat \<Rightarrow> recon_action list \<Rightarrow> nat" where
  "ends i out = length (filter (end_of i) out)"

fun random_ok :: "recon_event \<Rightarrow> bool" where
  "random_ok (Start a r) = (0 \<le> r \<and> r < 1)"
| "random_ok (Reopened i ok r) = (0 \<le> r \<and> r < 1)"
| "random_ok (Initialized i ok r) = (0 \<le> r \<and> r < 1)"
| "random_ok _ = True"

definition delay_ok :: "reconnect_config \<Rightarrow> recon_action \<Rightarrow> bool" where
  "delay_ok cfg a = (case a of Sleep i d \<Rightarrow> initialDelay cfg \<le> d \<and> d \<le> max (initialDelay cfg) (5 / 4 * maxDelay cfg) | _ \<Rightarrow> True)"

lemma delay_bounds:
  assumes "0 \<le> initialDelay cfg" "0 \<le> r" "r < 1"
  shows "initialDelay cfg \<le> effective_delay cfg n r" "effective_delay cfg n r \<le> max (initialDelay cfg) (5 / 4 * maxDelay cfg)"
proof -
  let ?b = "min (initialDelay cfg * 2 ^ n) (maxDelay cfg)" let ?f = "3 / 4 + r * (1 / 2)"
  have f: "0 \<le> ?f" "?f \<le> 5 / 4" using assms(2,3) by simp_all
  have "?b * ?f \<le> max 0 (5 / 4 * maxDelay cfg)"
  proof (cases "0 \<le> ?b")
    case True
    then have "?b * ?f \<le> ?b * (5 / 4)" using f(2) by (rule mult_left_mono[rotated])
    also have "\<dots> \<le> maxDelay cfg * (5 / 4)" by (intro mult_right_mono) simp_all
    finally show ?thesis by (simp add: mult.commute le_max_iff_disj)
  next
    case False
    then have "?b \<le> 0" by linarith
    then have "?b * ?f \<le> 0" using f(1) by (rule mult_nonpos_nonneg)
    then show ?thesis by simp
  qed
  then show "effective_delay cfg n r \<le> max (initialDelay cfg) (5 / 4 * maxDelay cfg)"
    using assms(1) by (auto simp: effective_delay_def Let_def)
  show "initialDelay cfg \<le> effective_delay cfg n r" by (simp add: effective_delay_def Let_def)
qed

definition loop_ok :: "reconnect_config \<Rightarrow> recon_action list \<Rightarrow> nat \<Rightarrow> reconnect_loop \<Rightarrow> bool" where
  "loop_ok cfg out i l \<longleftrightarrow> reopens i out = loop_attempts l \<and> loop_attempts l \<le> maxAttempts cfg \<and>
     (loop_phase l \<in> {Sleeping, Slept} \<longrightarrow> loop_attempts l < maxAttempts cfg) \<and>
     ends i out \<le> (if loop_phase l = Ended then 1 else 0)"

definition about :: "nat \<Rightarrow> recon_action list \<Rightarrow> bool" where
  "about i acts \<longleftrightarrow> (\<forall>j. j \<noteq> i \<longrightarrow> reopens j acts = 0 \<and> ends j acts = 0)"

lemma counts_append [simp]: "reopens i (a @ b) = reopens i a + reopens i b" "ends i (a @ b) = ends i a + ends i b"
  by (simp_all add: reopens_def ends_def)

lemmas loop_steps = end_loop_def loop_head_def after_sleep_def after_reopen_def after_init_def

text \<open>What a step of a loop gives: its new state, and actions that fit its counts.\<close>

definition progress :: "reconnect_config \<Rightarrow> recon_action list \<Rightarrow> supervisor \<Rightarrow> nat \<Rightarrow> supervisor \<times> recon_action list \<Rightarrow> bool" where
  "progress cfg out s i r \<longleftrightarrow> (\<exists>l'. fst r = set_loop s i l' \<and> loop_ok cfg (out @ snd r) i l' \<and> about i (snd r))"

lemma progressI: "loop_ok cfg (out @ acts) i l' \<Longrightarrow> about i acts \<Longrightarrow> progress cfg out s i (set_loop s i l', acts)"
  by (auto simp: progress_def)

lemma loop_progress:
  assumes "loop_ok cfg out i l" "loop_phase l \<noteq> Ended"
  shows "progress cfg out s i (end_loop s i l)" "progress cfg out s i (loop_head cfg s i l r)"
    "progress cfg out s i (after_reopen cfg s i l ok r)" "progress cfg out s i (after_init cfg s i l ok r)"
    "loop_phase l = Slept \<Longrightarrow> progress cfg out s i (after_sleep s i l)"
    "loop_phase l = Sleeping \<Longrightarrow> progress cfg out s i (set_loop s i (l\<lparr>loop_phase := Slept\<rparr>), [])"
  using assms by (auto simp: loop_steps intro!: progressI) (auto simp: loop_ok_def about_def reopens_def ends_def)

definition counted :: "reconnect_config \<Rightarrow> supervisor \<Rightarrow> recon_action list \<Rightarrow> bool" where
  "counted cfg s out \<longleftrightarrow> (\<forall>i l. map_of (running s) i = Some l \<longrightarrow> i < next_loop s \<and> loop_ok cfg out i l) \<and>
     (\<forall>i. reopens i out \<le> maxAttempts cfg \<and> ends i out \<le> 1 \<and> (next_loop s \<le> i \<longrightarrow> reopens i out = 0 \<and> ends i out = 0))"

lemma counted_progress:
  assumes "counted cfg s out" "i < next_loop s" "progress cfg out s i (s', acts)"
  shows "counted cfg s' (out @ acts)"
proof -
  obtain l' where l': "s' = set_loop s i l'" "loop_ok cfg (out @ acts) i l'" "about i acts"
    using assms(3) by (auto simp: progress_def)
  have same: "reopens j (out @ acts) = reopens j out" "ends j (out @ acts) = ends j out" if "j \<noteq> i" for j
    using l'(3) that by (simp_all add: about_def)
  have i: "reopens i (out @ acts) \<le> maxAttempts cfg" "ends i (out @ acts) \<le> 1"
    using l'(2) by (auto simp: loop_ok_def split: if_splits)
  have s: "map_of (running s') j = (if j = i then Some l' else map_of (running s) j)" "next_loop s' = next_loop s" for j
    using l'(1) by simp_all
  have loop: "j < next_loop s' \<and> loop_ok cfg (out @ acts) j l" if "map_of (running s') j = Some l" for j l
  proof (cases "j = i")
    case True
    then show ?thesis using that s l'(2) assms(2) by simp
  next
    case False
    then have "j < next_loop s \<and> loop_ok cfg out j l" using that s assms(1) by (simp add: counted_def)
    then show ?thesis using same[OF False] s(2) unfolding loop_ok_def by simp
  qed
  have "reopens j (out @ acts) \<le> maxAttempts cfg \<and> ends j (out @ acts) \<le> 1 \<and>
      (next_loop s' \<le> j \<longrightarrow> reopens j (out @ acts) = 0 \<and> ends j (out @ acts) = 0)" for j
  proof (cases "j = i")
    case True
    then show ?thesis using i s(2) assms(2) by simp
  next
    case False
    then show ?thesis using same[OF False] s(2) assms(1) unfolding counted_def by simp
  qed
  then show ?thesis using loop unfolding counted_def by blast
qed

lemma counted_quiet:
  assumes "counted cfg s out" "next_loop s' = next_loop s"
    "\<And>i l. map_of (running s') i = Some l \<Longrightarrow> \<exists>l0. map_of (running s) i = Some l0 \<and> (l = l0 \<or> l = abort_loop l0)"
    "\<And>i. reopens i acts = 0 \<and> ends i acts = 0"
  shows "counted cfg s' (out @ acts)"
proof -
  have "loop_ok cfg (out @ acts) i l" if "loop_ok cfg out i l0" "l = l0 \<or> l = abort_loop l0" for i l l0
    using that assms(4)[of i] by (cases "loop_phase l0") (auto simp: loop_ok_def abort_loop_def)
  then have "i < next_loop s' \<and> loop_ok cfg (out @ acts) i l" if "map_of (running s') i = Some l" for i l
    using assms(1,2) assms(3)[OF that] unfolding counted_def by metis
  then show ?thesis using assms(1,2,4) unfolding counted_def by simp
qed

lemma counted_start:
  assumes "counted cfg s out"
  shows "counted cfg (fst (start_loop cfg s a r)) (out @ snd (start_loop cfg s a r))"
proof (cases "modem_closed s \<or> isReconnecting s a")
  case True
  then show ?thesis using assms by (auto simp: start_loop_def)
next
  case False
  let ?i = "next_loop s" let ?s = "s\<lparr>next_loop := ?i + 1\<rparr>"
  let ?l = "\<lparr>loop_adapter = a, loop_attempts = 0, loop_phase = Sleeping, loop_aborted = False\<rparr>"
  let ?r = "loop_head cfg ?s ?i ?l r"
  let ?first = "if activeCount s = 0 then [First_Disconnect] else []"
  have first: "reopens j ?first = 0 \<and> ends j ?first = 0" for j by (simp add: reopens_def ends_def)
  have new: "reopens ?i out = 0" "ends ?i out = 0" using assms by (simp_all add: counted_def)
  have "progress cfg out ?s ?i ?r"
    using new by (auto simp: loop_head_def end_loop_def intro!: progressI) (auto simp: loop_ok_def about_def reopens_def ends_def)
  then have "progress cfg out ?s ?i (fst ?r, snd ?r)" by simp
  moreover have "counted cfg ?s out" using assms unfolding counted_def by (auto intro: less_SucI)
  ultimately have "counted cfg (fst ?r) (out @ snd ?r)" by (intro counted_progress[of cfg ?s out ?i]) simp_all
  then have "counted cfg ((fst ?r)\<lparr>loop_table := loop_table (fst ?r) @ [(a, ?i)]\<rparr>) ((out @ snd ?r) @ ?first)"
    by (rule counted_quiet) (use first in auto)
  then show ?thesis using False by (simp add: start_loop_def Let_def split_beta)
qed

lemma counted_step:
  assumes "counted cfg s out" "recon_step cfg s e = Some (s', acts)"
  shows "counted cfg s' (out @ acts)"
proof -
  have own: "counted cfg s' (out @ acts)"
    if "at_phase s i p f = Some (s', acts)" "\<And>l. loop_ok cfg out i l \<Longrightarrow> loop_phase l = p \<Longrightarrow> progress cfg out s i (f l)" for i p f
  proof -
    from that(1)[unfolded at_phase_Some] obtain l where l: "map_of (running s) i = Some l" "loop_phase l = p" "(s', acts) = f l" by blast
    then have "i < next_loop s" "loop_ok cfg out i l" using assms(1) by (auto simp: counted_def)
    moreover from this(2) have "progress cfg out s i (s', acts)" unfolding l(3) using l(2) by (rule that(2))
    ultimately show ?thesis by (intro counted_progress[OF assms(1)])
  qed
  show ?thesis
  proof (cases e)
    case (Start a r)
    then show ?thesis using assms counted_start[of cfg s out a r] by simp
  next
    case (Loop_Settled i)
    then show ?thesis using assms(2)
      by (intro counted_quiet[OF assms(1)]) (auto simp: at_phase_Some settle_loop_def map_of_filter_key reopens_def ends_def split: if_splits)
  next
    case (Shutdown k)
    then show ?thesis using assms(2)
      by (intro counted_quiet[OF assms(1)]) (auto simp: shutdown_def Let_def map_of_abort reopens_def ends_def split: if_splits)
  next
    case (Shutdown_Settled k)
    then show ?thesis using assms(2)
      by (intro counted_quiet[OF assms(1)]) (auto simp: reopens_def ends_def split: if_splits option.splits)
  next
    case Close
    then show ?thesis using assms(2) by (intro counted_quiet[OF assms(1)]) (auto simp: reopens_def ends_def)
  qed (use assms(2) in \<open>auto intro!: own loop_progress\<close>)
qed

definition unaborted :: "supervisor \<Rightarrow> bool" where
  "unaborted s \<longleftrightarrow> (\<forall>i l. map_of (running s) i = Some l \<longrightarrow> \<not> loop_aborted l \<and> loop_phase l \<noteq> Sleep_Aborted)"

lemma unaborted_step:
  assumes "unaborted s" "recon_step cfg s e = Some (s', acts)" "\<And>k. e \<noteq> Shutdown k"
  shows "unaborted s'"
  using assms
  by (cases e) (auto simp: unaborted_def at_phase_Some start_loop_def loop_steps settle_loop_def map_of_filter_key Let_def
    split: if_splits option.splits prod.splits)

definition failed_ok :: "reconnect_config \<Rightarrow> recon_action \<Rightarrow> bool" where
  "failed_ok cfg a = (case a of Failed i b n \<Rightarrow> n = maxAttempts cfg | _ \<Rightarrow> True)"

lemma step_delays:
  assumes "recon_step cfg s e = Some (s', acts)" "random_ok e" "0 \<le> initialDelay cfg"
  shows "list_all (delay_ok cfg) acts"
  using assms delay_bounds[OF assms(3)]
  by (cases e) (auto simp: at_phase_Some start_loop_def loop_steps delay_ok_def Let_def split: if_splits option.splits)

lemma step_failed:
  assumes "recon_step cfg s e = Some (s', acts)" "counted cfg s out" "unaborted s"
  shows "list_all (failed_ok cfg) acts"
proof -
  have most: "loop_attempts l \<le> maxAttempts cfg" "loop_phase l \<noteq> Sleep_Aborted" if "map_of (running s) i = Some l" for i l
    using assms(2,3) that by (auto simp: counted_def loop_ok_def unaborted_def)
  show ?thesis
    using assms(1) most by (cases e) (auto simp: at_phase_Some start_loop_def loop_steps failed_ok_def Let_def split: if_splits option.splits
        dest: most intro: le_antisym)
qed

lemma run_counted:
  assumes "recon_run cfg es s out" "0 \<le> initialDelay cfg" "\<forall>e\<in>set es. random_ok e"
  shows "counted cfg s out \<and> list_all (delay_ok cfg) out \<and>
    ((\<forall>k. Shutdown k \<notin> set es) \<longrightarrow> unaborted s \<and> list_all (failed_ok cfg) out)"
  using assms(1,3)
proof (induction rule: recon_run.induct)
  case run_new
  then show ?case by (simp add: counted_def unaborted_def new_supervisor_def reopens_def ends_def)
next
  case (run_step es s out e s' acts)
  have IH: "counted cfg s out" "list_all (delay_ok cfg) out" "(\<forall>k. Shutdown k \<notin> set es) \<longrightarrow> unaborted s \<and> list_all (failed_ok cfg) out"
    using run_step by simp_all
  have "unaborted s' \<and> list_all (failed_ok cfg) (out @ acts)" if "\<forall>k. Shutdown k \<notin> set (es @ [e])"
  proof -
    have "unaborted s" "list_all (failed_ok cfg) out" "\<And>k. e \<noteq> Shutdown k" using IH(3) that by auto
    then show ?thesis using unaborted_step[OF _ run_step.hyps(2)] step_failed[OF run_step.hyps(2) IH(1)] by simp
  qed
  then show ?case
    using counted_step[OF IH(1) run_step.hyps(2)] step_delays[OF run_step.hyps(2) _ assms(2)] IH(2) run_step.prems by simp
qed


section \<open>Runs\<close>

definition quick_config :: reconnect_config where
  "quick_config = \<lparr>reconnect_enabled = True, initialDelay = 1000, maxDelay = 1500, maxAttempts = 2\<rparr>"

definition failing_run :: "recon_event list" where
  "failing_run = [Start 7 0, Timer 0, Sleep_Over 0, Reopened 0 False (9 / 10), Timer 0, Sleep_Over 0, Reopened 0 True 0, Initialized 0 False 0]"

definition closing_run :: "recon_event list" where
  "closing_run = [Start 7 0, Start 8 0, Timer 0, Sleep_Over 0, Close, Shutdown 5, Sleep_Rejected 1, Loop_Settled 1, Reopened 0 True 0,
     Loop_Settled 0, Shutdown_Settled 5, Start 8 0]"

fun run_events :: "reconnect_config \<Rightarrow> recon_event list \<Rightarrow> supervisor \<times> recon_action list \<Rightarrow> (supervisor \<times> recon_action list) option" where
  "run_events cfg [] r = Some r"
| "run_events cfg (e # es) (s, out) =
     (case recon_step cfg s e of None \<Rightarrow> None | Some (s', acts) \<Rightarrow> run_events cfg es (s', out @ acts))"

lemma run_events_run:
  "recon_run cfg as s out \<Longrightarrow> run_events cfg es (s, out) = Some (s', out') \<Longrightarrow> recon_run cfg (as @ es) s' out'"
proof (induction es arbitrary: as s out)
  case (Cons e es)
  then obtain s1 acts where 1: "recon_step cfg s e = Some (s1, acts)" "run_events cfg es (s1, out @ acts) = Some (s', out')"
    by (auto split: option.splits)
  then show ?case using Cons.IH[OF run_step[OF Cons.prems(1) 1(1)] 1(2)] by simp
qed simp

lemma failing_events: "run_events quick_config failing_run (new_supervisor, []) =
  Some (\<lparr>loop_table = [(7, 0)], running = [(0, \<lparr>loop_adapter = 7, loop_attempts = 2, loop_phase = Ended, loop_aborted = False\<rparr>)],
      next_loop = 1, modem_closed = False, shutdowns = []\<rparr>,
    [Sleep 0 1000, First_Disconnect, Reopen 0 7, Sleep 0 1800, Reopen 0 7, Init_Adapter 0 7, Failed 0 7 2])"
  by (simp add: failing_run_def quick_config_def new_supervisor_def start_loop_def isReconnecting_def activeCount_def Let_def loop_steps
    set_loop_def at_phase_def effective_delay_def)


lemma closing_events: "run_events quick_config closing_run (new_supervisor, []) =
  Some (\<lparr>loop_table = [], running = [], next_loop = 2, modem_closed = True, shutdowns = []\<rparr>,
    [Sleep 0 1000, First_Disconnect, Sleep 1 1000, Reopen 0 7, Shutdown_Done 5])"
  by (simp add: closing_run_def quick_config_def new_supervisor_def start_loop_def isReconnecting_def activeCount_def Let_def loop_steps
    set_loop_def at_phase_def effective_delay_def shutdown_def abort_loop_def settle_loop_def)

theorem reconnect_shutdown_witness:
  "\<exists>s out. recon_run quick_config ([Start 7 0, Start 8 0, Timer 0, Sleep_Over 0] @ Close # drop 5 closing_run) s out \<and>
    Shutdown_Done 5 \<in> set out \<and> running s = []"
proof -
  have "closing_run = [Start 7 0, Start 8 0, Timer 0, Sleep_Over 0] @ Close # drop 5 closing_run" by (simp add: closing_run_def)
  then obtain s out where run: "recon_run quick_config ([Start 7 0, Start 8 0, Timer 0, Sleep_Over 0] @ Close # drop 5 closing_run) s out"
    "Shutdown_Done 5 \<in> set out"
    using run_events_run[OF run_new closing_events] by auto
  then show ?thesis using reconnect_shutdown[OF run(1)] by auto
qed

end
