(* ===== verification/Daemon_Protocol.thy ===== *)
theory Daemon_Protocol imports Service_Router Line_Assembler Complex_Main begin

text \<open>
  \<^verbatim>\<open>packages/daemon/src/ipc/protocol.ts\<close>, \<^verbatim>\<open>ipc/stream-protocol.ts\<close> and \<^verbatim>\<open>authz.ts\<close>: the error codes, the
  schemas of the parameters and the policy of the methods. A parsed JSON value is a \<open>json\<close>; a schema lists the fields
  of an object with their types and says which may be absent. The errors that handlers throw are one datatype, a
  constructor per class; the texts of a validation error and of a
  \<open>TypeError\<close> of the runtime are left out.
\<close>

section \<open>JSON values and schemas\<close>

datatype json = JNull | JBool bool | JNum rat | JStr jstr | JArr "json list" | JObj "(jstr \<times> json) list"

definition field :: "json \<Rightarrow> string \<Rightarrow> json option" where
  "field v name = (case v of JObj fs \<Rightarrow> map_of fs (js name) | _ \<Rightarrow> None)"

definition str_field :: "json \<Rightarrow> string \<Rightarrow> jstr option" where
  "str_field v name = (case field v name of Some (JStr s) \<Rightarrow> Some s | _ \<Rightarrow> None)"

definition num_field :: "json \<Rightarrow> string \<Rightarrow> rat option" where
  "num_field v name = (case field v name of Some (JNum n) \<Rightarrow> Some n | _ \<Rightarrow> None)"

definition the_str :: "json \<Rightarrow> string \<Rightarrow> jstr" where
  "the_str v name = or_else (str_field v name) []"

datatype field_type = Z_String | Z_Number | Z_Positive | Z_Limit | Z_Strings | Z_Enum "string list"

fun is_string :: "json \<Rightarrow> bool" where
  "is_string (JStr s) = True"
| "is_string _ = False"

fun has_type :: "field_type \<Rightarrow> json \<Rightarrow> bool" where
  "has_type Z_String v = is_string v"
| "has_type Z_Number (JNum n) = True"
| "has_type Z_Positive (JNum n) = (n > 0)"
| "has_type Z_Limit (JNum n) = (n \<in> \<int> \<and> 0 < n \<and> n \<le> 10000)"
| "has_type Z_Strings (JArr vs) = list_all is_string vs"
| "has_type (Z_Enum names) (JStr s) = (s \<in> set (map js names))"
| "has_type _ _ = False"

datatype presence = Required | Optional

type_synonym schema = "(string \<times> field_type \<times> presence) list"

definition schema_ok :: "schema \<Rightarrow> json \<Rightarrow> bool" where
  "schema_ok sch params =
     (case params of
        JObj fs \<Rightarrow> list_all (\<lambda>(name, ty, pres).
          case map_of fs (js name) of None \<Rightarrow> pres = Optional | Some v \<Rightarrow> has_type ty v) sch
      | _ \<Rightarrow> False)"

definition deviceIdSchema :: schema where
  "deviceIdSchema = [(''deviceId'', Z_String, Required)]"
definition smsSendSchema :: schema where
  "smsSendSchema = deviceIdSchema @ [(''to'', Z_String, Required), (''text'', Z_String, Required)]"
definition smsListSchema :: schema where
  "smsListSchema = deviceIdSchema @ [(''status'', Z_Enum [''all'', ''unread'', ''read'', ''sent'', ''unsent''], Optional)]"
definition smsReadSchema :: schema where
  "smsReadSchema = deviceIdSchema @ [(''index'', Z_Number, Required)]"
definition smsDeleteSchema :: schema where
  "smsDeleteSchema = deviceIdSchema @ [(''index'', Z_Number, Required)]"
definition voiceDialSchema :: schema where
  "voiceDialSchema = deviceIdSchema @ [(''number'', Z_String, Required)]"
definition voiceDtmfSchema :: schema where
  "voiceDtmfSchema = deviceIdSchema @ [(''tones'', Z_String, Required)]"
definition ussdSendSchema :: schema where
  "ussdSendSchema = deviceIdSchema @ [(''code'', Z_String, Required)]"
definition simEnterPinSchema :: schema where
  "simEnterPinSchema = deviceIdSchema @ [(''pin'', Z_String, Required)]"
definition subscribeSchema :: schema where
  "subscribeSchema = deviceIdSchema @ [(''events'', Z_Strings, Required)]"
definition waitForReadySchema :: schema where
  "waitForReadySchema = [(''timeoutMs'', Z_Number, Optional), (''deviceId'', Z_String, Optional)]"
definition provisionSchema :: schema where
  "provisionSchema = deviceIdSchema"
definition claimSchema :: schema where
  "claimSchema = deviceIdSchema @ [(''ttlMs'', Z_Positive, Optional)]"
definition auditTailSchema :: schema where
  "auditTailSchema = [(''limit'', Z_Limit, Optional), (''deviceId'', Z_String, Optional)]"
definition systemShellSchema :: schema where
  "systemShellSchema = deviceIdSchema @ [(''command'', Z_String, Required)]"
definition systemSetTtlSchema :: schema where
  "systemSetTtlSchema = deviceIdSchema @ [(''ttl'', Z_Number, Required)]"
definition thermalSetMaxFreqSchema :: schema where
  "thermalSetMaxFreqSchema = deviceIdSchema @ [(''khz'', Z_Number, Required)]"
definition selectOperatorSchema :: schema where
  "selectOperatorSchema = deviceIdSchema @ [(''plmn'', Z_String, Required)]"
definition stkSelectSchema :: schema where
  "stkSelectSchema = deviceIdSchema @ [(''itemId'', Z_Number, Required)]"
definition stkInputSchema :: schema where
  "stkInputSchema = deviceIdSchema @ [(''text'', Z_String, Required)]"
definition stkKeySchema :: schema where
  "stkKeySchema = deviceIdSchema @ [(''char'', Z_String, Required)]"

definition streamOpenSchema :: schema where
  "streamOpenSchema = deviceIdSchema @ [(''type'', Z_Enum [''shell''], Required)]"
definition streamDataSchema :: schema where
  "streamDataSchema = [(''streamId'', Z_String, Required), (''data'', Z_String, Required)]"
definition streamCloseSchema :: schema where
  "streamCloseSchema = [(''streamId'', Z_String, Required)]"

section \<open>Errors\<close>

datatype daemon_error =
    Device_Leased_Error jstr jstr
  | Device_Not_Ready_Error jstr
  | Method_Forbidden_Error jstr
  | Not_Supported_Error jstr
  | Core_Error cellary_error
  | Coded_Error jstr int
  | Plain_Error jstr
  | Zod_Error
  | Type_Error

definition PARSE_ERROR :: int where "PARSE_ERROR = -32700"
definition INVALID_REQUEST :: int where "INVALID_REQUEST = -32600"
definition METHOD_NOT_FOUND :: int where "METHOD_NOT_FOUND = -32601"
definition INTERNAL_ERROR :: int where "INTERNAL_ERROR = -32603"
definition DEVICE_NOT_FOUND :: int where "DEVICE_NOT_FOUND = -32000"
definition SERVICE_UNAVAILABLE :: int where "SERVICE_UNAVAILABLE = -32001"
definition OPERATION_FAILED :: int where "OPERATION_FAILED = -32002"
definition DEVICE_LEASED :: int where "DEVICE_LEASED = -32003"
definition METHOD_FORBIDDEN :: int where "METHOD_FORBIDDEN = -32004"

text \<open>The code of a response is found by the name of the error.\<close>

fun getErrorCode :: "daemon_error \<Rightarrow> int" where
  "getErrorCode (Device_Not_Ready_Error d) = DEVICE_NOT_FOUND"
| "getErrorCode (Device_Leased_Error d c) = DEVICE_LEASED"
| "getErrorCode (Method_Forbidden_Error m) = METHOD_FORBIDDEN"
| "getErrorCode (Not_Supported_Error m) = SERVICE_UNAVAILABLE"
| "getErrorCode (Core_Error (NotSupportedError s ps)) = SERVICE_UNAVAILABLE"
| "getErrorCode (Core_Error (TransportError m)) = OPERATION_FAILED"
| "getErrorCode (Core_Error (TimeoutError cmd ms)) = OPERATION_FAILED"
| "getErrorCode _ = INTERNAL_ERROR"

fun error_message :: "daemon_error \<Rightarrow> jstr option" where
  "error_message (Device_Leased_Error d c) = Some (js ''Device '' @ d @ js '' is in use by another client'')"
| "error_message (Device_Not_Ready_Error d) = Some (js ''Device '' @ d @ js '' is not ready'')"
| "error_message (Method_Forbidden_Error m) = Some (js ''Method '' @ [39] @ m @ [39] @
     js '' is disabled: it grants arbitrary shell access to the device. '' @
     js ''Set CELLARY_ALLOW_SHELL=true on the daemon to enable it.'')"
| "error_message (Not_Supported_Error m) = Some (js ''Method '' @ [39] @ m @ [39] @ js '' is not supported by this device'')"
| "error_message (Core_Error e) = Some (message e)"
| "error_message (Coded_Error m code) = Some m"
| "error_message (Plain_Error m) = Some m"
| "error_message Zod_Error = None"
| "error_message Type_Error = None"

section \<open>Policy\<close>

record authz_policy = allowShell :: bool

definition SHELL_METHODS :: "string list" where
  "SHELL_METHODS = [''system.shell'', ''stream.open'']"

definition assertMethodAllowed :: "jstr \<Rightarrow> authz_policy \<Rightarrow> daemon_error + unit" where
  "assertMethodAllowed m policy =
     (if \<not> allowShell policy \<and> m \<in> set (map js SHELL_METHODS) then Inl (Method_Forbidden_Error m) else Inr ())"

end
