(* ===== verification/Daemon_Streams.thy ===== *)
theory Daemon_Streams imports Daemon_Protocol begin

text \<open>
  \<^verbatim>\<open>packages/daemon/src/event-bridge.ts\<close> and \<^verbatim>\<open>stream-manager.ts\<close>: the subscriptions of clients to events of devices, and
  the streams between clients and devices. What the managers send through the server is the list of actions; the server
  writes a notification only to a client that is connected. The handle of a stream of a device is a number. Base64 is
  left in its encoded form: \<open>Chunk_Base64\<close> is the encoding of bytes from the device, \<open>Decode_Base64\<close> the bytes of a text.
\<close>

section \<open>Subscriptions\<close>

type_synonym subscription_map = "(jstr \<times> (jstr \<times> jstr list) list) list"

definition add_events :: "jstr list \<Rightarrow> jstr list \<Rightarrow> jstr list" where
  "add_events evs old = foldl (\<lambda>xs e. if e \<in> set xs then xs else xs @ [e]) old evs"

definition subscribe :: "subscription_map \<Rightarrow> jstr \<Rightarrow> jstr \<Rightarrow> jstr list \<Rightarrow> subscription_map" where
  "subscribe subs c d evs =
     (let clientSubs = or_else (map_of subs c) [];
          existing = or_else (map_of clientSubs d) []
      in map_set c (map_set d (add_events evs existing) clientSubs) subs)"

definition unsubscribe :: "subscription_map \<Rightarrow> jstr \<Rightarrow> jstr \<Rightarrow> subscription_map" where
  "unsubscribe subs c d =
     (case map_of subs c of
        None \<Rightarrow> subs
      | Some clientSubs \<Rightarrow>
          (let rest = map_delete d clientSubs in if rest = [] then map_delete c subs else map_set c rest subs))"

definition remove_subscriber :: "subscription_map \<Rightarrow> jstr \<Rightarrow> subscription_map" where
  "remove_subscriber subs c = map_delete c subs"

definition wants :: "jstr \<Rightarrow> jstr \<Rightarrow> (jstr \<times> jstr list) list \<Rightarrow> bool" where
  "wants d event clientSubs \<longleftrightarrow>
     (case map_of clientSubs d of None \<Rightarrow> False | Some evs \<Rightarrow> event \<in> set evs \<or> js ''*'' \<in> set evs)"

datatype notification =
    Event_Note jstr jstr json
  | Stream_Data_Note jstr "nat list"
  | Stream_Close_Note jstr

definition forward :: "subscription_map \<Rightarrow> jstr \<Rightarrow> jstr \<Rightarrow> json \<Rightarrow> (jstr \<times> notification) list" where
  "forward subs d event data = map (\<lambda>(c, _). (c, Event_Note d event data)) (filter (\<lambda>(c, clientSubs). wants d event clientSubs) subs)"

section \<open>Streams\<close>

record managed_stream =
  stream_client :: jstr
  stream_device :: jstr
  stream_handle :: nat

record stream_table =
  streams :: "(jstr \<times> managed_stream) list"
  next_stream :: nat

datatype stream_action = Stream_Write nat jstr | Stream_Close nat | Stream_Notify jstr notification

definition no_streams :: stream_table where
  "no_streams = \<lparr>streams = [], next_stream = 1\<rparr>"

definition stream_name :: "nat \<Rightarrow> jstr" where
  "stream_name n = js ''s-'' @ js_show_nat n"

definition open_stream :: "stream_table \<Rightarrow> jstr \<Rightarrow> jstr \<Rightarrow> nat \<Rightarrow> stream_table \<times> jstr" where
  "open_stream t c d h =
     (let sid = stream_name (next_stream t)
      in (t\<lparr>streams := map_set sid \<lparr>stream_client = c, stream_device = d, stream_handle = h\<rparr> (streams t), next_stream := next_stream t + 1\<rparr>, sid))"

definition stream_data :: "stream_table \<Rightarrow> jstr \<Rightarrow> nat list \<Rightarrow> stream_action list" where
  "stream_data t sid data =
     (case map_of (streams t) sid of None \<Rightarrow> [] | Some e \<Rightarrow> [Stream_Notify (stream_client e) (Stream_Data_Note sid data)])"

definition stream_closed :: "stream_table \<Rightarrow> jstr \<Rightarrow> stream_table \<times> stream_action list" where
  "stream_closed t sid =
     (case map_of (streams t) sid of
        None \<Rightarrow> (t, [])
      | Some e \<Rightarrow> (t\<lparr>streams := map_delete sid (streams t)\<rparr>, [Stream_Notify (stream_client e) (Stream_Close_Note sid)]))"

definition handleData :: "stream_table \<Rightarrow> jstr \<Rightarrow> jstr \<Rightarrow> jstr \<Rightarrow> stream_action list" where
  "handleData t c sid base64 =
     (case map_of (streams t) sid of
        None \<Rightarrow> []
      | Some e \<Rightarrow> if stream_client e \<noteq> c then [] else [Stream_Write (stream_handle e) base64])"

definition handleClose :: "stream_table \<Rightarrow> jstr \<Rightarrow> jstr \<Rightarrow> stream_table \<times> stream_action list" where
  "handleClose t c sid =
     (case map_of (streams t) sid of
        None \<Rightarrow> (t, [])
      | Some e \<Rightarrow>
          if stream_client e \<noteq> c then (t, [])
          else (t\<lparr>streams := map_delete sid (streams t)\<rparr>, [Stream_Close (stream_handle e)]))"

definition removeClient :: "stream_table \<Rightarrow> jstr \<Rightarrow> stream_table \<times> stream_action list" where
  "removeClient t c =
     (t\<lparr>streams := filter (\<lambda>(sid, e). stream_client e \<noteq> c) (streams t)\<rparr>,
      map (\<lambda>(sid, e). Stream_Close (stream_handle e)) (filter (\<lambda>(sid, e). stream_client e = c) (streams t)))"

definition removeDevice :: "stream_table \<Rightarrow> jstr \<Rightarrow> stream_table \<times> stream_action list" where
  "removeDevice t d =
     (t\<lparr>streams := filter (\<lambda>(sid, e). stream_device e \<noteq> d) (streams t)\<rparr>,
      concat (map (\<lambda>(sid, e). [Stream_Close (stream_handle e), Stream_Notify (stream_client e) (Stream_Close_Note sid)])
        (filter (\<lambda>(sid, e). stream_device e = d) (streams t))))"

definition closeAll :: "stream_table \<Rightarrow> stream_table \<times> stream_action list" where
  "closeAll t = (t\<lparr>streams := []\<rparr>, map (\<lambda>(sid, e). Stream_Close (stream_handle e)) (streams t))"

end
