(* ===== verification/Ipc_Server.thy ===== *)
theory Ipc_Server imports Daemon_Streams begin

text \<open>
  \<^verbatim>\<open>packages/daemon/src/ipc/server.ts\<close>: the framing of the messages of a client and their discrimination. A message is a
  line of JSON; the parser of the runtime is an argument, and a chunk of bytes is decoded as UTF-8 on its own.
\<close>

section \<open>Framing\<close>

definition MAX_BUFFER_SIZE :: nat where "MAX_BUFFER_SIZE = 1048576"

definition buffer_toString :: "nat list \<Rightarrow> jstr" where
  "buffer_toString bs = concat (map utf16_units (utf8_run utf8_idle bs))"

function split_frames :: "jstr \<Rightarrow> jstr list \<times> jstr" where
  "split_frames buffer =
     (case js_indexOf buffer [10] of
        None \<Rightarrow> ([], buffer)
      | Some i \<Rightarrow>
          (let line = js_trim (take i buffer);
               (ls, rest) = split_frames (drop (i + 1) buffer)
           in (if line = [] then ls else line # ls, rest)))"
  by pat_completeness auto

termination
  by (relation "measure length") (auto dest!: js_indexOf_Some)

declare split_frames.simps [simp del]

text \<open>The messages of a chunk and what stays in the buffer, or \<open>None\<close> when the buffer is too large.\<close>

definition receive_chunk :: "jstr \<Rightarrow> nat list \<Rightarrow> (jstr list \<times> jstr) option" where
  "receive_chunk buffer bytes =
     (let buf = buffer @ buffer_toString bytes
      in if length buf > MAX_BUFFER_SIZE then None else Some (split_frames buf))"

section \<open>Messages\<close>

datatype incoming =
    Parse_Failed
  | Request json jstr json
  | Invalid_Request json
  | Client_Note jstr json
  | Dropped

definition message_id :: "json \<Rightarrow> json option" where
  "message_id v =
     (case field v ''id'' of Some (JNum n) \<Rightarrow> Some (JNum n) | Some (JStr s) \<Rightarrow> Some (JStr s) | _ \<Rightarrow> None)"

definition handleMessage :: "(jstr \<Rightarrow> json option) \<Rightarrow> jstr \<Rightarrow> incoming" where
  "handleMessage parse raw =
     (case parse raw of
        None \<Rightarrow> Parse_Failed
      | Some v \<Rightarrow>
          (case (message_id v, str_field v ''method'') of
             (Some i, Some m) \<Rightarrow> Request i m (or_else (field v ''params'') JNull)
           | (Some i, None) \<Rightarrow> Invalid_Request i
           | (None, Some m) \<Rightarrow> Client_Note m (or_else (field v ''params'') JNull)
           | (None, None) \<Rightarrow> Dropped))"

section \<open>Chunks\<close>

fun receive_run :: "jstr \<Rightarrow> nat list list \<Rightarrow> (jstr list \<times> jstr) option" where
  "receive_run buffer [] = Some ([], buffer)"
| "receive_run buffer (b # bs) =
     (case receive_chunk buffer b of
        None \<Rightarrow> None
      | Some (ls, rest) \<Rightarrow> map_option (\<lambda>(ls', rest'). (ls @ ls', rest')) (receive_run rest bs))"

lemma newline_index: "10 \<notin> set a \<Longrightarrow> js_indexOf (a @ 10 # b) [10] = Some (length a)"
  by (induction a) (simp_all add: js_startsWith_def)

lemma newline_none: "10 \<notin> set a \<Longrightarrow> js_indexOf a [10] = None"
  by (induction a) (simp_all add: js_startsWith_def)

lemma split_frames_line: "10 \<notin> set a \<Longrightarrow> split_frames (a @ 10 # b) =
    (let (ls, rest) = split_frames b in (if js_trim a = [] then ls else js_trim a # ls, rest))"
  by (subst split_frames.simps) (simp add: newline_index Let_def split: prod.splits)

lemma split_frames_rest: "10 \<notin> set a \<Longrightarrow> split_frames a = ([], a)"
  by (subst split_frames.simps) (simp add: newline_none)

lemma first_newline: "10 \<in> set s \<Longrightarrow> \<exists>a b. s = a @ 10 # b \<and> 10 \<notin> set a" for s :: jstr
  by (metis split_list_first)

lemma split_frames_append:
  "split_frames (s @ t) = (let (ls, r) = split_frames s; (ls', r') = split_frames (r @ t) in (ls @ ls', r'))"
proof (induction s rule: length_induct)
  case (1 s)
  show ?case
  proof (cases "10 \<in> set s")
    case True
    then obtain a b where s: "s = a @ 10 # b" "10 \<notin> set a" using first_newline by blast
    then show ?thesis using 1 by (simp add: split_frames_line Let_def split_beta)
  next
    case False
    then show ?thesis by (simp add: split_frames_rest)
  qed
qed

lemma split_frames_rest_short: "split_frames s = (ls, r) \<Longrightarrow> 10 \<notin> set r \<and> length r \<le> length s"
proof (induction s arbitrary: ls r rule: length_induct)
  case (1 s)
  show ?case
  proof (cases "10 \<in> set s")
    case True
    then obtain a b where s: "s = a @ 10 # b" "10 \<notin> set a" using first_newline by blast
    then have "snd (split_frames b) = r" using 1(2) by (simp add: split_frames_line Let_def split_beta)
    then show ?thesis using 1(1) s by (metis length_Cons length_append less_add_Suc2 add_Suc_right le_SucI nat_less_le order_trans prod.collapse)
  next
    case False
    then show ?thesis using 1(2) by (simp add: split_frames_rest)
  qed
qed

lemma receive_run_frames:
  assumes "10 \<notin> set buffer" "length buffer + length (concat (map buffer_toString bs)) \<le> MAX_BUFFER_SIZE"
  shows "receive_run buffer bs = Some (split_frames (buffer @ concat (map buffer_toString bs)))"
  using assms
proof (induction bs arbitrary: buffer)
  case Nil
  then show ?case by (simp add: split_frames_rest)
next
  case (Cons b bs)
  let ?t = "buffer_toString b"
  obtain ls r where split: "split_frames (buffer @ ?t) = (ls, r)" by fastforce
  have r: "10 \<notin> set r" "length r \<le> length buffer + length ?t" using split_frames_rest_short[OF split] by simp_all
  have chunk: "receive_chunk buffer b = Some (ls, r)" using Cons.prems(2) split by (simp add: receive_chunk_def Let_def)
  have "length r + length (concat (map buffer_toString bs)) \<le> MAX_BUFFER_SIZE" using r(2) Cons.prems(2) by simp
  from Cons.IH[OF r(1) this] show ?case
    using chunk split split_frames_append[of "buffer @ ?t" "concat (map buffer_toString bs)"] by (simp add: Let_def split_beta)
qed

lemma split_frames_lines:
  assumes "\<forall>m\<in>set ms. 10 \<notin> set m \<and> js_trim m \<noteq> []" "10 \<notin> set rest"
  shows "split_frames (concat (map (\<lambda>m. m @ [10]) ms) @ rest) = (map js_trim ms, rest)"
  using assms by (induction ms) (simp_all add: split_frames_rest split_frames_line)



end
