(* ===== verification/Lease_Registry.thy ===== *)
theory Lease_Registry imports Daemon_Protocol begin

text \<open>
  \<^verbatim>\<open>packages/daemon/src/lease-registry.ts\<close>: exclusive leases of devices. The registry is a map from device to lease; the
  clock is an argument of every operation that reads it. Looking up an expired lease removes it.
\<close>

record lease =
  lease_client :: jstr
  expiresAt :: "rat option"

type_synonym lease_map = "(jstr \<times> lease) list"

record lease_info =
  info_device :: jstr
  info_expires :: "rat option"

definition expired :: "rat \<Rightarrow> lease \<Rightarrow> bool" where
  "expired now l \<longleftrightarrow> (case expiresAt l of None \<Rightarrow> False | Some e \<Rightarrow> e \<le> now)"

definition live :: "rat \<Rightarrow> lease_map \<Rightarrow> jstr \<Rightarrow> lease_map \<times> lease option" where
  "live now m d =
     (case map_of m d of
        None \<Rightarrow> (m, None)
      | Some l \<Rightarrow> if expired now l then (map_delete d m, None) else (m, Some l))"

definition claim :: "rat \<Rightarrow> lease_map \<Rightarrow> jstr \<Rightarrow> jstr \<Rightarrow> rat option \<Rightarrow> lease_map \<times> (daemon_error + lease_info)" where
  "claim now m d c ttl =
     (case live now m d of (m', existing) \<Rightarrow>
        if \<exists>l. existing = Some l \<and> lease_client l \<noteq> c then (m', Inl (Device_Leased_Error d (lease_client (the existing))))
        else (let e = map_option (\<lambda>t. now + t) ttl
              in (map_set d \<lparr>lease_client = c, expiresAt = e\<rparr> m', Inr \<lparr>info_device = d, info_expires = e\<rparr>)))"

definition release :: "rat \<Rightarrow> lease_map \<Rightarrow> jstr \<Rightarrow> jstr \<Rightarrow> lease_map \<times> (daemon_error + unit)" where
  "release now m d c =
     (case live now m d of
        (m', None) \<Rightarrow> (m', Inr ())
      | (m', Some l) \<Rightarrow> if lease_client l \<noteq> c then (m', Inl (Device_Leased_Error d (lease_client l))) else (map_delete d m', Inr ()))"

definition releaseAllForClient :: "lease_map \<Rightarrow> jstr \<Rightarrow> lease_map" where
  "releaseAllForClient m c = filter (\<lambda>(d, l). lease_client l \<noteq> c) m"

definition assertHolder :: "rat \<Rightarrow> lease_map \<Rightarrow> jstr \<Rightarrow> jstr \<Rightarrow> lease_map \<times> (daemon_error + unit)" where
  "assertHolder now m d c =
     (case live now m d of
        (m', None) \<Rightarrow> (m', Inr ())
      | (m', Some l) \<Rightarrow> (m', if lease_client l \<noteq> c then Inl (Device_Leased_Error d (lease_client l)) else Inr ()))"

definition holder :: "rat \<Rightarrow> lease_map \<Rightarrow> jstr \<Rightarrow> jstr option" where
  "holder now m d = map_option lease_client (snd (live now m d))"

section \<open>The contract\<close>

text \<open>
  What the daemon relies on. \<open>holds\<close> reads the holder of a device at a time; an operation on one device leaves the
  others alone, and one of another client leaves a held device as it is and is refused. \<open>secured\<close> is the client's view: the
  device is its own until the given time, and stays so whatever others do.
\<close>

locale exclusive_leases =
  fixes holds :: "rat \<Rightarrow> 'm \<Rightarrow> jstr \<Rightarrow> jstr option"
    and take_lease :: "rat \<Rightarrow> 'm \<Rightarrow> jstr \<Rightarrow> jstr \<Rightarrow> rat option \<Rightarrow> 'm \<times> (daemon_error + lease_info)"
    and drop_lease :: "rat \<Rightarrow> 'm \<Rightarrow> jstr \<Rightarrow> jstr \<Rightarrow> 'm \<times> (daemon_error + unit)"
    and check :: "rat \<Rightarrow> 'm \<Rightarrow> jstr \<Rightarrow> jstr \<Rightarrow> 'm \<times> (daemon_error + unit)"
    and drop_client :: "'m \<Rightarrow> jstr \<Rightarrow> 'm"
  assumes other_device: "d' \<noteq> d \<Longrightarrow> holds t (fst (take_lease now m d' c ttl)) d = holds t m d"
      "d' \<noteq> d \<Longrightarrow> holds t (fst (drop_lease now m d' c)) d = holds t m d"
      "d' \<noteq> d \<Longrightarrow> holds t (fst (check now m d' c)) d = holds t m d"
    and other_client: "holds now m d = Some h \<Longrightarrow> c \<noteq> h \<Longrightarrow> take_lease now m d c ttl = (m, Inl (Device_Leased_Error d h))"
      "holds now m d = Some h \<Longrightarrow> c \<noteq> h \<Longrightarrow> drop_lease now m d c = (m, Inl (Device_Leased_Error d h))"
      "holds now m d = Some h \<Longrightarrow> c \<noteq> h \<Longrightarrow> check now m d c = (m, Inl (Device_Leased_Error d h))"
      "c \<noteq> h \<Longrightarrow> holds t m d = Some h \<Longrightarrow> holds t (drop_client m c) d = Some h"
    and own: "holds now m d = Some c \<Longrightarrow> check now m d c = (m, Inr ())"
      "take_lease now m d c ttl = (m', Inr info) \<Longrightarrow> (\<And>e. info_expires info = Some e \<Longrightarrow> t < e) \<Longrightarrow> holds t m' d = Some c"
      "take_lease now m d c ttl = (m', Inr info) \<Longrightarrow> info_expires info = map_option (\<lambda>x. now + x) ttl"
      "holds t (drop_client m c) d \<noteq> Some c"
begin

definition secured :: "'m \<Rightarrow> jstr \<Rightarrow> jstr \<Rightarrow> rat \<Rightarrow> bool" where
  "secured m d c until \<longleftrightarrow> (\<forall>t<until. holds t m d = Some c)"

lemma take_lease_secures:
  "take_lease now m d c ttl = (m', Inr info) \<Longrightarrow> (\<And>x. ttl = Some x \<Longrightarrow> until \<le> now + x) \<Longrightarrow> secured m' d c until"
  unfolding secured_def
proof (intro allI impI)
  fix t
  assume taken: "take_lease now m d c ttl = (m', Inr info)" and ttl: "\<And>x. ttl = Some x \<Longrightarrow> until \<le> now + x" and t: "t < until"
  show "holds t m' d = Some c"
  proof (rule own(2)[OF taken])
    fix e
    assume "info_expires info = Some e"
    then obtain x where "ttl = Some x" "e = now + x" using own(3)[OF taken] by auto
    then show "t < e" using ttl[of x] t by simp
  qed
qed

lemma secured_now: "secured m d c until \<Longrightarrow> now < until \<Longrightarrow> holds now m d = Some c"
  by (simp add: secured_def)

lemma secured_mono: "(\<And>t. t < until \<Longrightarrow> holds t m d = holds t m' d) \<Longrightarrow> secured m d c until \<Longrightarrow> secured m' d c until"
  by (simp add: secured_def)

lemma refused:
  assumes "secured m d c until" "now < until" "c' \<noteq> c"
  shows "snd (check now m d c') = Inl (Device_Leased_Error d c)"
  using other_client(3)[OF secured_now[OF assms(1,2)] assms(3)] by simp

lemma secured_check:
  assumes "secured m d c until" "now < until"
  shows "secured (fst (check now m d' c')) d c until"
proof (cases "d' = d")
  case True
  then show ?thesis
    using assms own(1)[OF secured_now[OF assms]] other_client(3)[OF secured_now[OF assms], of c'] by (cases "c' = c") simp_all
next
  case False
  then show ?thesis using other_device(3)[of d' d] assms(1) by (auto intro: secured_mono[rotated])
qed

lemma secured_take_lease:
  assumes "secured m d c until" "now < until" "c' \<noteq> c \<or> d' \<noteq> d"
  shows "secured (fst (take_lease now m d' c' ttl)) d c until"
proof (cases "d' = d")
  case True
  then show ?thesis using assms other_client(1)[OF secured_now[OF assms(1,2)], of c' ttl] by simp
next
  case False
  then show ?thesis using other_device(1)[of d' d] assms(1) by (auto intro: secured_mono[rotated])
qed

lemma secured_drop_lease:
  assumes "secured m d c until" "now < until" "c' \<noteq> c \<or> d' \<noteq> d"
  shows "secured (fst (drop_lease now m d' c')) d c until"
proof (cases "d' = d")
  case True
  then show ?thesis using assms other_client(2)[OF secured_now[OF assms(1,2)], of c'] by simp
next
  case False
  then show ?thesis using other_device(2)[of d' d] assms(1) by (auto intro: secured_mono[rotated])
qed

lemma secured_drop_client: "secured m d c until \<Longrightarrow> c' \<noteq> c \<Longrightarrow> secured (drop_client m c') d c until"
  unfolding secured_def using other_client(4) by blast

end

section \<open>The registry keeps the contract\<close>

lemma holder_map: "holder t m d = (case map_of m d of None \<Rightarrow> None | Some l \<Rightarrow> if expired t l then None else Some (lease_client l))"
  by (simp add: holder_def live_def split: option.splits)

lemma live_other: "d' \<noteq> d \<Longrightarrow> map_of (fst (live now m d')) d = map_of m d"
  by (auto simp: live_def map_of_delete split: option.splits)

lemma live_held: "holder now m d = Some h \<Longrightarrow> \<exists>l. live now m d = (m, Some l) \<and> lease_client l = h"
  by (auto simp: holder_map live_def split: option.splits if_splits)

lemma map_of_filter_client:
  "map_of (releaseAllForClient m c) d = Some l \<Longrightarrow> lease_client l \<noteq> c"
  "map_of m d = Some l \<Longrightarrow> lease_client l \<noteq> c \<Longrightarrow> map_of (releaseAllForClient m c) d = Some l"
  by (induction m) (auto simp: releaseAllForClient_def split: if_splits)

interpretation registry: exclusive_leases holder claim release assertHolder releaseAllForClient
proof
  show "d' \<noteq> d \<Longrightarrow> holder t (fst (claim now m d' c ttl)) d = holder t m d" for d' d t now m c ttl
    using live_other[of d' d now m] by (auto simp: claim_def holder_map Let_def map_of_map_set split: prod.splits)
  show "d' \<noteq> d \<Longrightarrow> holder t (fst (release now m d' c)) d = holder t m d" for d' d t now m c
    using live_other[of d' d now m] by (auto simp: release_def holder_map map_of_delete split: prod.splits option.splits)
  show "d' \<noteq> d \<Longrightarrow> holder t (fst (assertHolder now m d' c)) d = holder t m d" for d' d t now m c
    using live_other[of d' d now m] by (auto simp: assertHolder_def holder_map split: prod.splits option.splits)
  show "holder now m d = Some h \<Longrightarrow> c \<noteq> h \<Longrightarrow> claim now m d c ttl = (m, Inl (Device_Leased_Error d h))" for now m d h c ttl
    using live_held[of now m d h] by (auto simp: claim_def)
  show "holder now m d = Some h \<Longrightarrow> c \<noteq> h \<Longrightarrow> release now m d c = (m, Inl (Device_Leased_Error d h))" for now m d h c
    using live_held[of now m d h] by (auto simp: release_def)
  show "holder now m d = Some h \<Longrightarrow> c \<noteq> h \<Longrightarrow> assertHolder now m d c = (m, Inl (Device_Leased_Error d h))" for now m d h c
    using live_held[of now m d h] by (auto simp: assertHolder_def)
  show "c \<noteq> h \<Longrightarrow> holder t m d = Some h \<Longrightarrow> holder t (releaseAllForClient m c) d = Some h" for c h t m d
    using map_of_filter_client(2)[of m d _ c] by (auto simp: holder_map split: option.splits if_splits)
  show "holder now m d = Some c \<Longrightarrow> assertHolder now m d c = (m, Inr ())" for now m d c
    using live_held[of now m d c] by (auto simp: assertHolder_def)
  show "claim now m d c ttl = (m', Inr info) \<Longrightarrow> (\<And>e. info_expires info = Some e \<Longrightarrow> t < e) \<Longrightarrow> holder t m' d = Some c" for now m d c ttl m' info t
    by (cases ttl) (auto simp: claim_def holder_map map_of_map_set expired_def Let_def split: prod.splits if_splits)
  show "claim now m d c ttl = (m', Inr info) \<Longrightarrow> info_expires info = map_option (\<lambda>x. now + x) ttl" for now m d c ttl m' info
    by (auto simp: claim_def Let_def split: prod.splits if_splits)
  show "holder t (releaseAllForClient m c) d \<noteq> Some c" for t m c d
    using map_of_filter_client(1)[of m c d] by (auto simp: holder_map split: option.splits)
qed

end
