(* ===== verification/Daemon.thy ===== *)
theory Daemon imports Ipc_Server Lease_Registry Machines begin

text \<open>
  \<^verbatim>\<open>packages/daemon/src/main.ts\<close>, \<^verbatim>\<open>device-manager.ts\<close>, \<^verbatim>\<open>service-proxy.ts\<close> and the connections of \<^verbatim>\<open>ipc/server.ts\<close>: what the
  daemon does with the messages of its clients. A step is what runs without interruption: a chunk of a client, a settled
  promise, an event of the pool or of a stream. The handler of a request runs until its first await; what it waits for
  is its phase, and the response is written by a later step, in any order. The pool of devices and the operations of a
  modem are the environment: they see the actions, and events tell what became of them.
\<close>

section \<open>State\<close>

record 'm modem =
  modem_id :: nat
  modem_adapters :: "'m adapter list"
  modem_services :: "'m routed_services"
  modem_stk_fields :: json

datatype rpc_result =
    Nothing_Returned
  | Device_List "jstr list"
  | Leased lease_info
  | Opened_Stream jstr
  | Ready_Device jstr
  | Daemon_Status nat
  | Value json

datatype request_phase =
    Awaiting
  | Awaiting_Ready "jstr option"
  | Awaiting_Shell jstr
  | Awaiting_Reset jstr
  | Settled "daemon_error + rpc_result"

record request =
  req_client :: jstr
  req_id :: json
  req_phase :: request_phase

record 'm daemon =
  clients :: "(jstr \<times> jstr) list"
  destroyed :: "jstr list"
  next_client :: nat
  leases :: lease_map
  subscriptions :: subscription_map
  stream_tab :: stream_table
  modems :: "(jstr \<times> 'm modem) list"
  pool_devices :: "(jstr \<times> bool) list"
  requests :: "(nat \<times> request) list"
  next_request :: nat

datatype out_message =
    Response json "daemon_error + rpc_result"
  | Error_Response "json option" int string
  | Note notification

datatype 'm daemon_action =
    Write jstr out_message
  | Destroy jstr
  | Call jstr nat jstr jstr 'm json
  | Open_Shell jstr nat jstr 'm
  | Reset_Transport nat jstr "'m modem"
  | Restart_Device jstr
  | Provision nat jstr
  | Wait_Ready nat json
  | Audit_Tail nat json
  | Schedule_Shutdown
  | Device_Stream stream_action

record runtime =
  json_parse :: "jstr \<Rightarrow> json option"
  policy :: authz_policy

definition new_daemon :: "'m daemon" where
  "new_daemon = \<lparr>clients = [], destroyed = [], next_client = 1, leases = [], subscriptions = [], stream_tab = no_streams,
     modems = [], pool_devices = [], requests = [], next_request = 0\<rparr>"

definition client_name :: "nat \<Rightarrow> jstr" where
  "client_name n = js ''client-'' @ js_show_nat n"

section \<open>Server\<close>

definition writable :: "'m daemon \<Rightarrow> jstr \<Rightarrow> bool" where
  "writable s c \<longleftrightarrow> map_of (clients s) c \<noteq> None \<and> c \<notin> set (destroyed s)"

definition write_line :: "'m daemon \<Rightarrow> jstr \<Rightarrow> out_message \<Rightarrow> 'm daemon_action list" where
  "write_line s c m = (if writable s c then [Write c m] else [])"

definition notify :: "'m daemon \<Rightarrow> jstr \<times> notification \<Rightarrow> 'm daemon_action list" where
  "notify s n = write_line s (fst n) (Note (snd n))"

definition broadcast :: "'m daemon \<Rightarrow> notification \<Rightarrow> 'm daemon_action list" where
  "broadcast s n = concat (map (\<lambda>(c, _). write_line s c (Note n)) (clients s))"

definition stream_acts :: "'m daemon \<Rightarrow> stream_action list \<Rightarrow> 'm daemon_action list" where
  "stream_acts s acts = concat (map (\<lambda>a. case a of Stream_Notify c n \<Rightarrow> notify s (c, n) | _ \<Rightarrow> [Device_Stream a]) acts)"

section \<open>Device manager\<close>

definition getModem :: "'m daemon \<Rightarrow> jstr \<Rightarrow> daemon_error + 'm modem" where
  "getModem s d = (case map_of (modems s) d of None \<Rightarrow> Inl (Device_Not_Ready_Error d) | Some m \<Rightarrow> Inr m)"

definition getModemFor :: "rat \<Rightarrow> 'm daemon \<Rightarrow> jstr \<Rightarrow> jstr \<Rightarrow> 'm daemon \<times> (daemon_error + 'm modem)" where
  "getModemFor now s d c =
     (case assertHolder now (leases s) d c of
        (m, Inl e) \<Rightarrow> (s\<lparr>leases := m\<rparr>, Inl e)
      | (m, Inr _) \<Rightarrow> (s\<lparr>leases := m\<rparr>, getModem s d))"

definition find_device :: "'m daemon \<Rightarrow> jstr \<Rightarrow> daemon_error + bool" where
  "find_device s d =
     (case map_of (pool_devices s) d of None \<Rightarrow> Inl (Plain_Error (js ''Device '' @ d @ js '' not found'')) | Some cycle \<Rightarrow> Inr cycle)"

definition claim_device :: "rat \<Rightarrow> 'm daemon \<Rightarrow> jstr \<Rightarrow> jstr \<Rightarrow> rat option \<Rightarrow> 'm daemon \<times> (daemon_error + lease_info)" where
  "claim_device now s d c ttl =
     (case find_device s d of
        Inl e \<Rightarrow> (s, Inl e)
      | Inr _ \<Rightarrow> (case claim now (leases s) d c ttl of (m, r) \<Rightarrow> (s\<lparr>leases := m\<rparr>, r)))"

section \<open>Service calls\<close>

datatype resolution =
    On_Service service_name string
  | If_Present service_name string
  | Modem_Scan
  | Modem_Select
  | Modem_Automatic
  | Stk_State

definition basic_methods :: "(string \<times> schema \<times> resolution) list" where
  "basic_methods =
    [(''device.info'', deviceIdSchema, On_Service Device ''info''),
     (''device.imei'', deviceIdSchema, On_Service Device ''imei''),
     (''device.temperature'', deviceIdSchema, If_Present Device ''temperature''),
     (''network.signal'', deviceIdSchema, On_Service Network ''signal''),
     (''network.registration'', deviceIdSchema, On_Service Network ''registration''),
     (''network.operator'', deviceIdSchema, On_Service Network ''operator''),
     (''network.scan'', deviceIdSchema, Modem_Scan),
     (''network.selectOperator'', selectOperatorSchema, Modem_Select),
     (''network.selectAutomatic'', deviceIdSchema, Modem_Automatic),
     (''sms.send'', smsSendSchema, On_Service Sms ''send''),
     (''sms.list'', smsListSchema, On_Service Sms ''list''),
     (''sms.read'', smsReadSchema, On_Service Sms ''read''),
     (''sms.delete'', smsDeleteSchema, On_Service Sms ''delete''),
     (''sms.count'', deviceIdSchema, If_Present Sms ''count''),
     (''sim.info'', deviceIdSchema, On_Service Sim ''info''),
     (''sim.iccid'', deviceIdSchema, On_Service Sim ''iccid''),
     (''sim.imsi'', deviceIdSchema, On_Service Sim ''imsi''),
     (''sim.enterPin'', simEnterPinSchema, On_Service Sim ''enterPin''),
     (''sim.phoneNumber'', deviceIdSchema, If_Present Sim ''phoneNumber'')]"

definition other_methods :: "(string \<times> schema \<times> resolution) list" where
  "other_methods =
    [(''voice.dial'', voiceDialSchema, On_Service Voice ''dial''),
     (''voice.answer'', deviceIdSchema, On_Service Voice ''answer''),
     (''voice.hangup'', deviceIdSchema, On_Service Voice ''hangup''),
     (''voice.dtmf'', voiceDtmfSchema, On_Service Voice ''dtmf''),
     (''voice.listCalls'', deviceIdSchema, On_Service Voice ''listCalls''),
     (''ussd.send'', ussdSendSchema, On_Service Ussd ''send''),
     (''ussd.cancel'', deviceIdSchema, On_Service Ussd ''cancel''),
     (''traffic.session'', deviceIdSchema, On_Service Traffic ''session''),
     (''traffic.monthly'', deviceIdSchema, If_Present Traffic ''monthly''),
     (''data.status'', deviceIdSchema, On_Service Data ''status''),
     (''data.contexts'', deviceIdSchema, On_Service Data ''contexts''),
     (''stk.enable'', deviceIdSchema, On_Service Stk ''enable''),
     (''stk.disable'', deviceIdSchema, On_Service Stk ''disable''),
     (''stk.select'', stkSelectSchema, On_Service Stk ''select''),
     (''stk.confirm'', deviceIdSchema, On_Service Stk ''confirm''),
     (''stk.input'', stkInputSchema, On_Service Stk ''input''),
     (''stk.key'', stkKeySchema, On_Service Stk ''key''),
     (''stk.back'', deviceIdSchema, On_Service Stk ''back''),
     (''stk.endSession'', deviceIdSchema, On_Service Stk ''endSession''),
     (''stk.state'', deviceIdSchema, Stk_State),
     (''capabilities.discover'', deviceIdSchema, On_Service Capabilities ''discover''),
     (''system.shell'', systemShellSchema, On_Service System ''shell''),
     (''system.setTtl'', systemSetTtlSchema, If_Present System ''setTtl''),
     (''system.getTtl'', deviceIdSchema, If_Present System ''getTtl''),
     (''thermal.readSensors'', deviceIdSchema, On_Service Thermal ''readSensors''),
     (''thermal.readCpuFrequency'', deviceIdSchema, On_Service Thermal ''readCpuFrequency''),
     (''thermal.setMaxFrequencyKhz'', thermalSetMaxFreqSchema, On_Service Thermal ''setMaxFrequencyKhz'')]"

definition METHODS :: "(string \<times> schema \<times> resolution) list" where
  "METHODS = basic_methods @ other_methods"

definition method_entry :: "jstr \<Rightarrow> (schema \<times> resolution) option" where
  "method_entry m = map_of (map (\<lambda>(name, e). (js name, e)) METHODS) m"

definition isServiceMethod :: "jstr \<Rightarrow> bool" where
  "isServiceMethod m \<longleftrightarrow> method_entry m \<noteq> None"

text \<open>What a call gives: an error, a method to run, or at once a value.\<close>

datatype 'm service_outcome = Fails daemon_error | Runs 'm | Gives rpc_result

fun from_value :: "'m method_value \<Rightarrow> 'm service_outcome" where
  "from_value (Method f) = Runs f"
| "from_value (Rejects e) = Fails (Core_Error e)"
| "from_value Nothing = Gives Nothing_Returned"

fun resolve :: "'m modem \<Rightarrow> jstr \<Rightarrow> resolution \<Rightarrow> 'm service_outcome" where
  "resolve m name (On_Service svc meth) =
     (case service_method (routed (modem_services m) svc) (js meth) of None \<Rightarrow> Fails Type_Error | Some v \<Rightarrow> from_value v)"
| "resolve m name (If_Present svc meth) =
     (case service_method (routed (modem_services m) svc) (js meth) of None \<Rightarrow> Fails (Not_Supported_Error name) | Some v \<Rightarrow> from_value v)"
| "resolve m name Modem_Scan = from_value (scanNetworks (modem_adapters m))"
| "resolve m name Modem_Select = from_value (selectNetwork (modem_adapters m))"
| "resolve m name Modem_Automatic = from_value (selectNetworkAutomatic (modem_adapters m))"
| "resolve m name Stk_State = Gives (Value (modem_stk_fields m))"

section \<open>Requests\<close>

type_synonym 'm handled = "'m daemon \<times> 'm daemon_action list \<times> request_phase"

definition done_with :: "'m daemon \<Rightarrow> daemon_error + rpc_result \<Rightarrow> 'm handled" where
  "done_with s r = (s, [], Settled r)"

definition handle_service :: "rat \<Rightarrow> 'm daemon \<Rightarrow> nat \<Rightarrow> jstr \<Rightarrow> json \<Rightarrow> jstr \<Rightarrow> schema \<times> resolution \<Rightarrow> 'm handled" where
  "handle_service now s pid m params c entry =
     (if \<not> schema_ok (fst entry) params then done_with s (Inl Zod_Error)
      else
        (let d = the_str params ''deviceId''
         in case getModemFor now s d c of
              (s', Inl e) \<Rightarrow> done_with s' (Inl e)
            | (s', Inr modem) \<Rightarrow>
                (case resolve modem m (snd entry) of
                   Fails e \<Rightarrow> done_with s' (Inl e)
                 | Gives r \<Rightarrow> done_with s' (Inr r)
                 | Runs f \<Rightarrow> (s', [Call c pid d m f params], Awaiting))))"

definition handle_claim :: "rat \<Rightarrow> 'm daemon \<Rightarrow> json \<Rightarrow> jstr \<Rightarrow> 'm handled" where
  "handle_claim now s params c =
     (if \<not> schema_ok claimSchema params then done_with s (Inl Zod_Error)
      else
        (case claim_device now s (the_str params ''deviceId'') c (num_field params ''ttlMs'') of
           (s', Inl e) \<Rightarrow> done_with s' (Inl e)
         | (s', Inr info) \<Rightarrow> done_with s' (Inr (Leased info))))"

definition handle_release :: "rat \<Rightarrow> 'm daemon \<Rightarrow> json \<Rightarrow> jstr \<Rightarrow> 'm handled" where
  "handle_release now s params c =
     (if \<not> schema_ok deviceIdSchema params then done_with s (Inl Zod_Error)
      else
        (case release now (leases s) (the_str params ''deviceId'') c of
           (m, r) \<Rightarrow> done_with (s\<lparr>leases := m\<rparr>) (case r of Inl e \<Rightarrow> Inl e | Inr _ \<Rightarrow> Inr Nothing_Returned)))"

definition the_strs :: "json \<Rightarrow> string \<Rightarrow> jstr list" where
  "the_strs v name = (case field v name of Some (JArr vs) \<Rightarrow> List.map_filter (\<lambda>x. case x of JStr t \<Rightarrow> Some t | _ \<Rightarrow> None) vs | _ \<Rightarrow> [])"

definition handle_subscribe :: "'m daemon \<Rightarrow> json \<Rightarrow> jstr \<Rightarrow> 'm handled" where
  "handle_subscribe s params c =
     (if \<not> schema_ok subscribeSchema params then done_with s (Inl Zod_Error)
      else done_with (s\<lparr>subscriptions := subscribe (subscriptions s) c (the_str params ''deviceId'') (the_strs params ''events'')\<rparr>)
             (Inr Nothing_Returned))"

definition handle_unsubscribe :: "'m daemon \<Rightarrow> json \<Rightarrow> jstr \<Rightarrow> 'm handled" where
  "handle_unsubscribe s params c =
     (if \<not> schema_ok subscribeSchema params then done_with s (Inl Zod_Error)
      else done_with (s\<lparr>subscriptions := unsubscribe (subscriptions s) c (the_str params ''deviceId'')\<rparr>) (Inr Nothing_Returned))"

definition stream_unavailable :: "jstr \<Rightarrow> daemon_error" where
  "stream_unavailable ty =
     Coded_Error (js ''Stream type '' @ [39] @ ty @ [39] @ js '' is not available on this device'') SERVICE_UNAVAILABLE"

definition handle_stream_open :: "rat \<Rightarrow> 'm daemon \<Rightarrow> nat \<Rightarrow> json \<Rightarrow> jstr \<Rightarrow> 'm handled" where
  "handle_stream_open now s pid params c =
     (if \<not> schema_ok streamOpenSchema params then done_with s (Inl Zod_Error)
      else
        (let d = the_str params ''deviceId''; ty = the_str params ''type''
         in case getModemFor now s d c of
              (s', Inl e) \<Rightarrow> done_with s' (Inl e)
            | (s', Inr modem) \<Rightarrow>
                (case (if ty \<noteq> js ''shell'' then None
                       else service_method (routed (modem_services modem) System) (js ''openInteractiveShell'')) of
                   None \<Rightarrow> done_with s' (Inl (stream_unavailable ty))
                 | Some v \<Rightarrow>
                     (case from_value v of
                        Fails e \<Rightarrow> done_with s' (Inl e)
                      | Gives r \<Rightarrow> done_with s' (Inl Type_Error)
                      | Runs f \<Rightarrow> (s', [Open_Shell c pid d f], Awaiting_Shell d)))))"

definition handle_reset :: "'m daemon \<Rightarrow> nat \<Rightarrow> json \<Rightarrow> 'm handled" where
  "handle_reset s pid params =
     (if \<not> schema_ok deviceIdSchema params then done_with s (Inl Zod_Error)
      else
        (let d = the_str params ''deviceId'';
             (tab, acts) = removeDevice (stream_tab s) d;
             s' = s\<lparr>stream_tab := tab\<rparr>
         in case getModem s' d of
              Inl e \<Rightarrow> (s', stream_acts s acts, Settled (Inl e))
            | Inr modem \<Rightarrow> (s', stream_acts s acts @ [Reset_Transport pid d modem], Awaiting_Reset d)))"

definition handle_provision :: "'m daemon \<Rightarrow> nat \<Rightarrow> json \<Rightarrow> 'm handled" where
  "handle_provision s pid params =
     (if \<not> schema_ok provisionSchema params then done_with s (Inl Zod_Error)
      else
        (let d = the_str params ''deviceId''
         in case find_device s d of
              Inl e \<Rightarrow> done_with s (Inl e)
            | Inr cycle \<Rightarrow>
                (if cycle then (s, [Provision pid d], Awaiting)
                 else done_with s (Inl (Plain_Error (js ''Device '' @ d @ js '' has no active USB cycle''))))))"

definition dispatch :: "runtime \<Rightarrow> rat \<Rightarrow> 'm daemon \<Rightarrow> nat \<Rightarrow> jstr \<Rightarrow> json \<Rightarrow> jstr \<Rightarrow> 'm handled" where
  "dispatch rt now s pid m params c =
     (case assertMethodAllowed m (policy rt) of
        Inl e \<Rightarrow> done_with s (Inl e)
      | Inr _ \<Rightarrow>
          if m = js ''devices.list'' then done_with s (Inr (Device_List (map fst (pool_devices s))))
          else if m = js ''devices.waitForReady'' then
            (if schema_ok waitForReadySchema params then (s, [Wait_Ready pid params], Awaiting_Ready (str_field params ''deviceId''))
             else done_with s (Inl Zod_Error))
          else if m = js ''devices.provision'' then handle_provision s pid params
          else if m = js ''devices.claim'' then handle_claim now s params c
          else if m = js ''devices.release'' then handle_release now s params c
          else if m = js ''subscribe'' then handle_subscribe s params c
          else if m = js ''unsubscribe'' then handle_unsubscribe s params c
          else if m = js ''daemon.status'' then done_with s (Inr (Daemon_Status (length (pool_devices s))))
          else if m = js ''daemon.shutdown'' then (s, [Schedule_Shutdown], Settled (Inr Nothing_Returned))
          else if m = js ''daemon.auditTail'' then
            (if schema_ok auditTailSchema params then (s, [Audit_Tail pid params], Awaiting) else done_with s (Inl Zod_Error))
          else if m = js ''stream.open'' then handle_stream_open now s pid params c
          else if m = js ''device.reset'' then handle_reset s pid params
          else
            (case method_entry m of
               Some entry \<Rightarrow> handle_service now s pid m params c entry
             | None \<Rightarrow> done_with s (Inl (Coded_Error (js ''Unknown method: '' @ m) METHOD_NOT_FOUND))))"

definition handle_request :: "runtime \<Rightarrow> rat \<Rightarrow> 'm daemon \<Rightarrow> jstr \<Rightarrow> json \<Rightarrow> jstr \<Rightarrow> json \<Rightarrow> 'm daemon \<times> 'm daemon_action list" where
  "handle_request rt now s c i m params =
     (let pid = next_request s
      in case dispatch rt now (s\<lparr>next_request := pid + 1\<rparr>) pid m params c of
           (s', acts, phase) \<Rightarrow>
             (s'\<lparr>requests := requests s' @ [(pid, \<lparr>req_client = c, req_id = i, req_phase = phase\<rparr>)]\<rparr>, acts))"

definition handle_note :: "'m daemon \<Rightarrow> jstr \<Rightarrow> jstr \<Rightarrow> json \<Rightarrow> 'm daemon \<times> 'm daemon_action list" where
  "handle_note s c m params =
     (if m = js ''stream.data'' then
        (s, if schema_ok streamDataSchema params
            then stream_acts s (handleData (stream_tab s) c (the_str params ''streamId'') (the_str params ''data'')) else [])
      else if m = js ''stream.close'' \<and> schema_ok streamCloseSchema params then
        (case handleClose (stream_tab s) c (the_str params ''streamId'') of (tab, acts) \<Rightarrow> (s\<lparr>stream_tab := tab\<rparr>, stream_acts s acts))
      else (s, []))"

definition handle_line :: "runtime \<Rightarrow> rat \<Rightarrow> jstr \<Rightarrow> 'm daemon \<Rightarrow> jstr \<Rightarrow> 'm daemon \<times> 'm daemon_action list" where
  "handle_line rt now c s line =
     (case handleMessage (json_parse rt) line of
        Parse_Failed \<Rightarrow> (s, write_line s c (Error_Response None PARSE_ERROR ''Parse error''))
      | Request i m params \<Rightarrow> handle_request rt now s c i m params
      | Invalid_Request i \<Rightarrow> (s, write_line s c (Error_Response (Some i) INVALID_REQUEST ''Invalid request''))
      | Client_Note m params \<Rightarrow> handle_note s c m params
      | Dropped \<Rightarrow> (s, []))"

section \<open>Events\<close>

datatype 'm daemon_event =
    Connect
  | Data_Chunk jstr "nat list"
  | Disconnect jstr
  | Respond nat
  | Call_Settled nat "daemon_error + rpc_result"
  | Ready_Settled nat "daemon_error + nat"
  | Shell_Opened nat "daemon_error + nat"
  | Reset_Done nat "daemon_error + unit"
  | Stream_Bytes jstr "nat list"
  | Stream_Ended jstr
  | Pool_View "(jstr \<times> bool) list"
  | Device_Added jstr json
  | Device_Readiness jstr "'m modem option" json
  | Device_Removed jstr json
  | Modem_Event jstr jstr json
  | Shutting_Down
  | Stopped

definition data_chunk :: "runtime \<Rightarrow> rat \<Rightarrow> 'm daemon \<Rightarrow> jstr \<Rightarrow> nat list \<Rightarrow> 'm daemon \<times> 'm daemon_action list" where
  "data_chunk rt now s c bytes =
     (case map_of (clients s) c of
        None \<Rightarrow> (s, [])
      | Some buffer \<Rightarrow>
          if c \<in> set (destroyed s) then (s, [])
          else
            (case receive_chunk buffer bytes of
               None \<Rightarrow> (s\<lparr>destroyed := c # destroyed s\<rparr>, write_line s c (Error_Response None PARSE_ERROR ''Message too large'') @ [Destroy c])
             | Some (lines, rest) \<Rightarrow> mrun (handle_line rt now c) (s\<lparr>clients := map_set c rest (clients s)\<rparr>) lines))"

definition client_gone :: "'m daemon \<Rightarrow> jstr \<Rightarrow> 'm daemon \<times> 'm daemon_action list" where
  "client_gone s c =
     (let (tab, acts) = removeClient (stream_tab s) c;
          s' = s\<lparr>clients := map_delete c (clients s), subscriptions := remove_subscriber (subscriptions s) c, stream_tab := tab,
                 leases := releaseAllForClient (leases s) c\<rparr>
      in (s', stream_acts s' acts))"

definition set_phase :: "'m daemon \<Rightarrow> nat \<Rightarrow> request_phase \<Rightarrow> 'm daemon" where
  "set_phase s pid p =
     (case map_of (requests s) pid of None \<Rightarrow> s | Some r \<Rightarrow> s\<lparr>requests := map_set pid (r\<lparr>req_phase := p\<rparr>) (requests s)\<rparr>)"

definition respond :: "'m daemon \<Rightarrow> nat \<Rightarrow> 'm daemon \<times> 'm daemon_action list" where
  "respond s pid =
     (case map_of (requests s) pid of
        None \<Rightarrow> (s, [])
      | Some q \<Rightarrow>
          (case req_phase q of
             Settled r \<Rightarrow> (s\<lparr>requests := map_delete pid (requests s)\<rparr>, write_line s (req_client q) (Response (req_id q) r))
           | _ \<Rightarrow> (s, [])))"

definition ready_device :: "'m daemon \<Rightarrow> jstr option \<Rightarrow> nat \<Rightarrow> daemon_error + rpc_result" where
  "ready_device s d modem =
     (case d of
        Some d' \<Rightarrow> Inr (Ready_Device d')
      | None \<Rightarrow>
          (case find (\<lambda>(_, m). modem_id m = modem) (modems s) of
             Some (d', _) \<Rightarrow> Inr (Ready_Device d')
           | None \<Rightarrow> Inl (Plain_Error (js ''Modem became ready but was not tracked''))))"

definition shell_opened :: "'m daemon \<Rightarrow> nat \<Rightarrow> jstr \<Rightarrow> jstr \<Rightarrow> nat \<Rightarrow> 'm daemon" where
  "shell_opened s pid c d h =
     (case open_stream (stream_tab s) c d h of
        (tab, sid) \<Rightarrow> set_phase (s\<lparr>stream_tab := tab\<rparr>) pid (Settled (Inr (Opened_Stream sid))))"

definition reset_done :: "'m daemon \<Rightarrow> nat \<Rightarrow> jstr \<Rightarrow> 'm daemon \<times> 'm daemon_action list" where
  "reset_done s pid d =
     (let s' = s\<lparr>modems := map_delete d (modems s)\<rparr>
      in if map_of (pool_devices s) d = None
         then (set_phase s' pid (Settled (Inl (Plain_Error (js ''Device '' @ d @ js '' not found in pool'')))), [])
         else (set_phase s' pid (Settled (Inr Nothing_Returned)), [Restart_Device d]))"

text \<open>The promise that a request awaits has settled.\<close>

definition settle_request ::
  "'m daemon \<Rightarrow> nat \<Rightarrow> (request \<Rightarrow> ('m daemon \<times> 'm daemon_action list) option) \<Rightarrow> 'm daemon \<times> 'm daemon_action list" where
  "settle_request s pid k =
     (case map_of (requests s) pid of None \<Rightarrow> (s, []) | Some r \<Rightarrow> (case k r of None \<Rightarrow> (s, []) | Some res \<Rightarrow> res))"

fun daemon_step :: "runtime \<Rightarrow> 'm daemon \<Rightarrow> rat \<times> 'm daemon_event \<Rightarrow> 'm daemon \<times> 'm daemon_action list" where
  "daemon_step rt s (now, Connect) =
     (s\<lparr>clients := clients s @ [(client_name (next_client s), [])], next_client := next_client s + 1\<rparr>, [])"
| "daemon_step rt s (now, Data_Chunk c bytes) = data_chunk rt now s c bytes"
| "daemon_step rt s (now, Disconnect c) = client_gone s c"
| "daemon_step rt s (now, Respond pid) = respond s pid"
| "daemon_step rt s (now, Call_Settled pid r) =
     settle_request s pid (\<lambda>q. if req_phase q = Awaiting then Some (set_phase s pid (Settled r), []) else None)"
| "daemon_step rt s (now, Ready_Settled pid r) =
     settle_request s pid (\<lambda>q. case req_phase q of
       Awaiting_Ready d \<Rightarrow> Some (set_phase s pid (Settled (case r of Inl e \<Rightarrow> Inl e | Inr m \<Rightarrow> ready_device s d m)), []) | _ \<Rightarrow> None)"
| "daemon_step rt s (now, Shell_Opened pid r) =
     settle_request s pid (\<lambda>q. case req_phase q of
       Awaiting_Shell d \<Rightarrow> Some (case r of Inl e \<Rightarrow> set_phase s pid (Settled (Inl e)) | Inr h \<Rightarrow> shell_opened s pid (req_client q) d h, [])
     | _ \<Rightarrow> None)"
| "daemon_step rt s (now, Reset_Done pid r) =
     settle_request s pid (\<lambda>q. case req_phase q of
       Awaiting_Reset d \<Rightarrow> Some (case r of Inl e \<Rightarrow> (set_phase s pid (Settled (Inl e)), []) | Inr _ \<Rightarrow> reset_done s pid d)
     | _ \<Rightarrow> None)"
| "daemon_step rt s (now, Stream_Bytes sid bytes) = (s, stream_acts s (stream_data (stream_tab s) sid bytes))"
| "daemon_step rt s (now, Stream_Ended sid) =
     (case stream_closed (stream_tab s) sid of (tab, acts) \<Rightarrow> (s\<lparr>stream_tab := tab\<rparr>, stream_acts s acts))"
| "daemon_step rt s (now, Pool_View ds) = (s\<lparr>pool_devices := ds\<rparr>, [])"
| "daemon_step rt s (now, Device_Added d info) = (s, broadcast s (Event_Note d (js ''device:added'') info))"
| "daemon_step rt s (now, Device_Readiness d modem info) =
     (s\<lparr>modems := (case modem of Some m \<Rightarrow> map_set d m (modems s) | None \<Rightarrow> map_delete d (modems s))\<rparr>,
      broadcast s (Event_Note d (js ''device:readiness'') info))"
| "daemon_step rt s (now, Device_Removed d info) =
     (case removeDevice (stream_tab s) d of
        (tab, acts) \<Rightarrow> (s\<lparr>modems := map_delete d (modems s), stream_tab := tab\<rparr>,
          stream_acts s acts @ broadcast s (Event_Note d (js ''device:removed'') info)))"
| "daemon_step rt s (now, Modem_Event d event data) = (s, concat (map (notify s) (forward (subscriptions s) d event data)))"
| "daemon_step rt s (now, Shutting_Down) = (case closeAll (stream_tab s) of (tab, acts) \<Rightarrow> (s\<lparr>stream_tab := tab\<rparr>, stream_acts s acts))"
| "daemon_step rt s (now, Stopped) =
     (s\<lparr>modems := [], clients := []\<rparr>, map (\<lambda>(c, _). Destroy c) (clients s))"

section \<open>Names\<close>

lemma js_show_nat_inject [simp]: "js_show_nat a = js_show_nat b \<longleftrightarrow> a = b"
  by (metis js_show_nat_def js_parse_decimal jsnum.inject of_nat_eq_iff)

lemma client_name_inject [simp]: "client_name a = client_name b \<longleftrightarrow> a = b"
  by (simp add: client_name_def)

section \<open>A daemon with two clients\<close>

definition sample_runtime :: runtime where
  "sample_runtime = \<lparr>json_parse = (\<lambda>l. if l = js ''x'' then Some (JObj [(js ''id'', JNum 1), (js ''method'', JStr (js ''device.imei'')),
     (js ''params'', JObj [(js ''deviceId'', JStr (js ''d''))])]) else None), policy = \<lparr>allowShell = False\<rparr>\<rparr>"

definition sample_daemon :: "nat daemon" where
  "sample_daemon = new_daemon\<lparr>clients := [(client_name 1, []), (client_name 2, [])], next_client := 3,
     leases := [(js ''d'', \<lparr>lease_client = client_name 1, expiresAt = None\<rparr>)], pool_devices := [(js ''d'', True)],
     modems := [(js ''d'', \<lparr>modem_id = 0, modem_adapters = [], modem_services = routeServices [] [], modem_stk_fields = JNull\<rparr>)]\<rparr>"

lemma sample_line: "receive_chunk [] [120, 10] = Some ([js ''x''], [])"
proof -
  have "buffer_toString [120, 10] = js ''x'' @ 10 # []"
    by (simp add: buffer_toString_def js_def utf8_idle_def utf8_lead_def utf16_units_def)
  moreover have "split_frames (js ''x'' @ 10 # []) = ([js ''x''], [])"
    by (subst split_frames_line) (simp_all add: split_frames_rest js_def js_trim_def js_trimStart_def js_white_def)
  ultimately show ?thesis by (simp add: receive_chunk_def MAX_BUFFER_SIZE_def js_def)
qed

lemma sample_message: "handleMessage (json_parse sample_runtime) (js ''x'') =
    Request (JNum 1) (js ''device.imei'') (JObj [(js ''deviceId'', JStr (js ''d''))])"
  by (simp add: handleMessage_def sample_runtime_def message_id_def str_field_def field_def or_else_def)

end
