(* ===== verification/Daemon_Leases.thy ===== *)
theory Daemon_Leases imports Daemon begin

text \<open>
  What a lease is worth in the daemon: from the claim until it ends no other client's call or shell reaches the device.
  \<open>undisturbed\<close> says of a run that the holder neither disconnects nor claims or releases the device again, and that
  the lease has not expired. And what the policy is worth: without it no command reaches a shell.
\<close>

section \<open>What a request does to the leases\<close>

abbreviation secured :: "lease_map \<Rightarrow> jstr \<Rightarrow> jstr \<Rightarrow> rat \<Rightarrow> bool" where
  "secured \<equiv> registry.secured"

text \<open>An action that reaches the device comes from the given client.\<close>

fun reaches_for :: "jstr \<Rightarrow> jstr \<Rightarrow> 'm daemon_action \<Rightarrow> bool" where
  "reaches_for d c (Call c' pid d' m f params) = (d' = d \<longrightarrow> c' = c)"
| "reaches_for d c (Open_Shell c' pid d' f) = (d' = d \<longrightarrow> c' = c)"
| "reaches_for d c _ = True"

definition gives_up :: "jstr \<Rightarrow> jstr \<Rightarrow> jstr \<Rightarrow> jstr \<Rightarrow> json \<Rightarrow> bool" where
  "gives_up d c c' m params \<longleftrightarrow>
     c' = c \<and> m \<in> {js ''devices.claim'', js ''devices.release''} \<and> the_str params ''deviceId'' = d"

definition keeps :: "jstr \<Rightarrow> jstr \<Rightarrow> rat \<Rightarrow> 'm daemon \<times> 'm daemon_action list \<Rightarrow> bool" where
  "keeps d c until r \<longleftrightarrow> secured (leases (fst r)) d c until \<and> (\<forall>a\<in>set (snd r). reaches_for d c a)"

lemma keepsI: "secured (leases s) d c until \<Longrightarrow> (\<And>a. a \<in> set acts \<Longrightarrow> reaches_for d c a) \<Longrightarrow> keeps d c until (s, acts)"
  by (simp add: keeps_def)

lemma reaches_write [simp]: "a \<in> set (write_line s c' m) \<Longrightarrow> reaches_for d c a"
  by (auto simp: write_line_def split: if_splits)

lemma reaches_stream [simp]: "a \<in> set (stream_acts s acts) \<Longrightarrow> reaches_for d c a"
proof -
  assume "a \<in> set (stream_acts s acts)"
  then obtain x where "a \<in> set (case x of Stream_Notify c' n \<Rightarrow> notify s (c', n) | _ \<Rightarrow> [Device_Stream x])"
    by (auto simp: stream_acts_def)
  then show ?thesis by (cases x) (auto simp: notify_def)
qed

lemma reaches_broadcast [simp]: "a \<in> set (broadcast s n) \<Longrightarrow> reaches_for d c a"
  by (auto simp: broadcast_def)

lemma reaches_notify [simp]: "a \<in> set (notify s n) \<Longrightarrow> reaches_for d c a"
  by (auto simp: notify_def)

text \<open>A modem is handed out for a held device to its holder only.\<close>

lemma getModemFor_secured:
  assumes "secured (leases s) d c until" "now < until" "getModemFor now s d' c' = (s', r)"
  shows "secured (leases s') d c until" "r = Inr m \<Longrightarrow> d' = d \<Longrightarrow> c' = c"
  using registry.secured_check[OF assms(1,2), of d' c'] registry.refused[OF assms(1,2), of c'] assms(3)
  by (auto simp: getModemFor_def split: prod.splits sum.splits)

lemma handle_service_keeps:
  assumes "secured (leases s) d c until" "now < until"
  shows "keeps d c until (let (s', acts, _) = handle_service now s pid m params c' entry in (s', acts))"
proof -
  obtain s' r where get: "getModemFor now s (the_str params ''deviceId'') c' = (s', r)" by fastforce
  show ?thesis
    using getModemFor_secured[OF assms get] assms(1) get
    by (auto simp: handle_service_def done_with_def keeps_def Let_def split: sum.splits service_outcome.splits)
qed

lemma handle_stream_open_keeps:
  assumes "secured (leases s) d c until" "now < until"
  shows "keeps d c until (let (s', acts, _) = handle_stream_open now s pid params c' in (s', acts))"
proof -
  obtain s' r where get: "getModemFor now s (the_str params ''deviceId'') c' = (s', r)" by fastforce
  show ?thesis
    using getModemFor_secured[OF assms get] assms(1) get
    by (auto simp: handle_stream_open_def done_with_def keeps_def Let_def split: sum.splits service_outcome.splits option.splits)
qed

lemma handle_claim_keeps:
  assumes "secured (leases s) d c until" "now < until" "c' \<noteq> c \<or> the_str params ''deviceId'' \<noteq> d"
  shows "keeps d c until (let (s', acts, _) = handle_claim now s params c' in (s', acts))"
  using registry.secured_take_lease[OF assms, of "num_field params ''ttlMs''"] assms(1)
  by (auto simp: handle_claim_def claim_device_def done_with_def keeps_def split: prod.splits sum.splits)

lemma handle_release_keeps:
  assumes "secured (leases s) d c until" "now < until" "c' \<noteq> c \<or> the_str params ''deviceId'' \<noteq> d"
  shows "keeps d c until (let (s', acts, _) = handle_release now s params c' in (s', acts))"
  using registry.secured_drop_lease[OF assms] assms(1)
  by (auto simp: handle_release_def done_with_def keeps_def split: prod.splits)

lemma handle_others_keep:
  assumes "secured (leases s) d c until"
  shows "keeps d c until (let (s', acts, _) = handle_subscribe s params c' in (s', acts))"
    "keeps d c until (let (s', acts, _) = handle_unsubscribe s params c' in (s', acts))"
    "keeps d c until (let (s', acts, _) = handle_provision s pid params in (s', acts))"
    "keeps d c until (let (s', acts, _) = handle_reset s pid params in (s', acts))"
  using assms
  by (auto simp: handle_subscribe_def handle_unsubscribe_def handle_provision_def handle_reset_def done_with_def keeps_def Let_def
      split: prod.splits sum.splits)

lemma dispatch_keeps:
  assumes "secured (leases s) d c until" "now < until" "\<not> gives_up d c c' m params"
  shows "keeps d c until (let (s', acts, _) = dispatch rt now s pid m params c' in (s', acts))"
proof (cases "assertMethodAllowed m (policy rt)")
  case (Inl e)
  then show ?thesis using assms(1) by (simp add: dispatch_def done_with_def keeps_def)
next
  case (Inr u)
  have claim: "m \<in> {js ''devices.claim'', js ''devices.release''} \<Longrightarrow> c' \<noteq> c \<or> the_str params ''deviceId'' \<noteq> d"
    using assms(3) by (auto simp: gives_up_def)
  note keep = handle_others_keep[OF assms(1)] handle_service_keeps[OF assms(1,2)] handle_stream_open_keeps[OF assms(1,2)]
  have other: "keeps d c until (let (s', acts, _) = (s, acts, p) in (s', acts))" if "\<forall>a\<in>set acts. reaches_for d c a" for acts p
    using that assms(1) by (simp add: keeps_def)
  consider "m = js ''devices.claim''" | "m = js ''devices.release''" | "m \<noteq> js ''devices.claim''" "m \<noteq> js ''devices.release''" by blast
  then show ?thesis
  proof cases
    case 1
    then show ?thesis using Inr handle_claim_keeps[OF assms(1,2) claim] by (simp add: dispatch_def)
  next
    case 2
    then show ?thesis using Inr handle_release_keeps[OF assms(1,2) claim] by (simp add: dispatch_def)
  next
    case 3
    then show ?thesis using Inr keep other
      by (auto simp: dispatch_def done_with_def split: option.splits)
  qed
qed

lemma handle_request_keeps:
  assumes "secured (leases s) d c until" "now < until" "\<not> gives_up d c c' m params"
  shows "keeps d c until (handle_request rt now s c' i m params)"
  using dispatch_keeps[of "s\<lparr>next_request := next_request s + 1\<rparr>" d c until now c' m params rt "next_request s"] assms
  by (auto simp: handle_request_def keeps_def Let_def split: prod.splits)

lemma handle_note_keeps: "secured (leases s) d c until \<Longrightarrow> keeps d c until (handle_note s c' m params)"
  by (auto simp: handle_note_def keeps_def split: prod.splits)

section \<open>Lines, chunks and steps\<close>

definition line_gives_up :: "runtime \<Rightarrow> jstr \<Rightarrow> jstr \<Rightarrow> jstr \<Rightarrow> jstr \<Rightarrow> bool" where
  "line_gives_up rt d c c' line \<longleftrightarrow>
     (case handleMessage (json_parse rt) line of Request i m params \<Rightarrow> gives_up d c c' m params | _ \<Rightarrow> False)"

lemma handle_line_keeps:
  assumes "secured (leases s) d c until" "now < until" "\<not> line_gives_up rt d c c' line"
  shows "keeps d c until (handle_line rt now c' s line)"
proof (cases "handleMessage (json_parse rt) line")
  case (Request i m params)
  then show ?thesis using assms by (simp add: handle_line_def line_gives_up_def handle_request_keeps)
next
  case (Client_Note m params)
  then show ?thesis using assms by (simp add: handle_line_def handle_note_keeps)
qed (use assms(1) in \<open>simp_all add: handle_line_def keeps_def\<close>)

lemma keeps_run:
  assumes "\<And>s e. e \<in> set es \<Longrightarrow> secured (leases s) d c until \<Longrightarrow> keeps d c until (step s e)"
    and "secured (leases s) d c until"
  shows "keeps d c until (mrun step s es)"
  using mrun_safe[of es "\<lambda>s. secured (leases s) d c until" step "reaches_for d c" s] assms by (simp add: keeps_def)

text \<open>The lines that the daemon handles in a step, with their client.\<close>

fun lines_of :: "'m daemon \<Rightarrow> 'm daemon_event \<Rightarrow> (jstr \<times> jstr) list" where
  "lines_of s (Data_Chunk c bytes) =
     (case map_of (clients s) c of
        None \<Rightarrow> []
      | Some buffer \<Rightarrow> if c \<in> set (destroyed s) then [] else (case receive_chunk buffer bytes of None \<Rightarrow> [] | Some (ls, _) \<Rightarrow> map (Pair c) ls))"
| "lines_of s _ = []"

lemma data_chunk_keeps:
  assumes "secured (leases s) d c until" "now < until" "\<forall>(c', line)\<in>set (lines_of s (Data_Chunk c1 bytes)). \<not> line_gives_up rt d c c' line"
  shows "keeps d c until (data_chunk rt now s c1 bytes)"
proof -
  have run: "keeps d c until (mrun (handle_line rt now c1) (s\<lparr>clients := cl\<rparr>) ls)"
    if "\<forall>line\<in>set ls. \<not> line_gives_up rt d c c1 line" for ls cl
    by (rule keeps_run) (use that assms(1) in \<open>auto intro: handle_line_keeps[OF _ assms(2)]\<close>)
  show ?thesis
  proof (cases "map_of (clients s) c1")
    case None
    then show ?thesis using assms(1) by (simp add: data_chunk_def keeps_def)
  next
    case (Some buffer)
    show ?thesis
    proof (cases "receive_chunk buffer bytes")
      case None
      then show ?thesis using Some assms(1) by (auto simp: data_chunk_def keeps_def)
    next
      case chunk: (Some lr)
      then show ?thesis
        using Some assms(1,3) run[of "fst lr" "map_set c1 (snd lr) (clients s)"]
        by (cases lr) (auto simp: data_chunk_def keeps_def)
    qed
  qed
qed

lemma set_phase_leases [simp]: "leases (set_phase s pid p) = leases s"
  by (simp add: set_phase_def split: option.splits)

definition undisturbed_step :: "runtime \<Rightarrow> jstr \<Rightarrow> jstr \<Rightarrow> rat \<Rightarrow> 'm daemon \<Rightarrow> rat \<times> 'm daemon_event \<Rightarrow> bool" where
  "undisturbed_step rt d c until s e \<longleftrightarrow> fst e < until \<and> snd e \<noteq> Disconnect c \<and>
     (\<forall>(c', line)\<in>set (lines_of s (snd e)). \<not> line_gives_up rt d c c' line)"

fun undisturbed :: "runtime \<Rightarrow> jstr \<Rightarrow> jstr \<Rightarrow> rat \<Rightarrow> 'm daemon \<Rightarrow> (rat \<times> 'm daemon_event) list \<Rightarrow> bool" where
  "undisturbed rt d c until s [] = True"
| "undisturbed rt d c until s (e # es) =
     (undisturbed_step rt d c until s e \<and> undisturbed rt d c until (fst (daemon_step rt s e)) es)"

lemma settle_request_keeps:
  "secured (leases s) d c until \<Longrightarrow> (\<And>q r. k q = Some r \<Longrightarrow> keeps d c until r) \<Longrightarrow> keeps d c until (settle_request s pid k)"
  by (auto simp: settle_request_def keeps_def split: option.splits)

lemma reset_done_keeps: "secured (leases s) d c until \<Longrightarrow> reset_done s pid d' = r \<Longrightarrow> keeps d c until r"
  by (auto simp: reset_done_def keeps_def Let_def split: if_splits)

lemma step_keeps:
  assumes "secured (leases s) d c until" "undisturbed_step rt d c until s (now, e)"
  shows "keeps d c until (daemon_step rt s (now, e))"
proof (cases e)
  case (Data_Chunk c1 bytes)
  then show ?thesis using assms data_chunk_keeps[of s d c until now c1 bytes rt] by (auto simp: undisturbed_step_def)
next
  case (Disconnect c1)
  then have "secured (releaseAllForClient (leases s) c1) d c until"
    using assms by (intro registry.secured_drop_client) (auto simp: undisturbed_step_def)
  then show ?thesis using Disconnect by (auto simp: keeps_def client_gone_def Let_def split: prod.splits)
next
  case (Respond pid)
  then show ?thesis using assms(1) by (auto simp: respond_def keeps_def split: option.splits request_phase.splits)
next
  case (Call_Settled pid r)
  show ?thesis unfolding Call_Settled daemon_step.simps
    by (rule settle_request_keeps[OF assms(1)]) (use assms(1) in \<open>auto simp: keeps_def split: if_splits\<close>)
next
  case (Ready_Settled pid r)
  show ?thesis unfolding Ready_Settled daemon_step.simps
    by (rule settle_request_keeps[OF assms(1)]) (use assms(1) in \<open>auto simp: keeps_def split: request_phase.splits\<close>)
next
  case (Shell_Opened pid r)
  show ?thesis unfolding Shell_Opened daemon_step.simps
    by (rule settle_request_keeps[OF assms(1)])
      (use assms(1) in \<open>auto simp: keeps_def shell_opened_def split: request_phase.splits sum.splits prod.splits\<close>)
next
  case (Reset_Done pid r)
  show ?thesis unfolding Reset_Done daemon_step.simps
    by (rule settle_request_keeps[OF assms(1)])
      (use assms(1) in \<open>auto intro: reset_done_keeps keepsI split: request_phase.splits sum.splits\<close>)
next
  case (Device_Removed d' info)
  then show ?thesis using assms(1) by (auto simp: keeps_def split: prod.splits)
qed (use assms(1) in \<open>auto simp: keeps_def split: prod.splits\<close>)

lemma run_keeps: "secured (leases s) d c until \<Longrightarrow> undisturbed rt d c until s es \<Longrightarrow> keeps d c until (mrun (daemon_step rt) s es)"
proof (induction es arbitrary: s)
  case Nil
  then show ?case by (simp add: keeps_def)
next
  case (Cons e es)
  then have "keeps d c until (daemon_step rt s e)" using step_keeps[of s d c until rt "fst e" "snd e"] by simp
  moreover from this have "keeps d c until (mrun (daemon_step rt) (fst (daemon_step rt s e)) es)"
    using Cons.IH[of "fst (daemon_step rt s e)"] Cons.prems by (simp add: keeps_def)
  ultimately show ?case by (auto simp: keeps_def mrun_Cons simp del: mrun.simps)
qed



text \<open>Resetting a device asks for no lease: whoever holds it, the request of any client closes its streams and resets the modem.\<close>

theorem reset_ignores_leases:
  assumes "schema_ok deviceIdSchema params" "d = the_str params ''deviceId''" "map_of (modems s) d = Some modem"
  shows "\<exists>s' acts. dispatch rt now s pid (js ''device.reset'') params c = (s', acts @ [Reset_Transport pid d modem], Awaiting_Reset d) \<and>
    (\<forall>(sid, e)\<in>set (streams (stream_tab s')). stream_device e \<noteq> d)"
  using assms
  by (simp add: dispatch_def assertMethodAllowed_def SHELL_METHODS_def handle_reset_def getModem_def removeDevice_def split_beta Let_def)

section \<open>Shells\<close>

fun no_shell :: "'m daemon_action \<Rightarrow> bool" where
  "no_shell (Call c pid d m f params) = (m \<noteq> js ''system.shell'')"
| "no_shell (Open_Shell c pid d f) = False"
| "no_shell _ = True"

lemma no_shell_write [simp]: "a \<in> set (write_line s c m) \<Longrightarrow> no_shell a"
  by (auto simp: write_line_def split: if_splits)

lemma no_shell_stream [simp]: "a \<in> set (stream_acts s acts) \<Longrightarrow> no_shell a"
proof -
  assume "a \<in> set (stream_acts s acts)"
  then obtain x where "a \<in> set (case x of Stream_Notify c' n \<Rightarrow> notify s (c', n) | _ \<Rightarrow> [Device_Stream x])"
    by (auto simp: stream_acts_def)
  then show ?thesis by (cases x) (auto simp: notify_def)
qed

definition shellless :: "'m handled \<Rightarrow> bool" where
  "shellless h \<longleftrightarrow> (\<forall>a\<in>set (fst (snd h)). no_shell a)"

lemma shellless_done [simp]: "shellless (done_with s r)"
  by (simp add: shellless_def done_with_def)

lemma handlers_shellless:
  "m \<noteq> js ''system.shell'' \<Longrightarrow> shellless (handle_service now s pid m params c entry)" "shellless (handle_claim now s params c)"
  "shellless (handle_release now s params c)" "shellless (handle_subscribe s params c)" "shellless (handle_unsubscribe s params c)"
  "shellless (handle_provision s pid params)" "shellless (handle_reset s pid params)"
proof -
  show "m \<noteq> js ''system.shell'' \<Longrightarrow> shellless (handle_service now s pid m params c entry)"
    by (cases "getModemFor now s (the_str params ''deviceId'') c")
      (auto simp: handle_service_def shellless_def done_with_def Let_def split: sum.splits service_outcome.splits)
  show "shellless (handle_provision s pid params)"
    by (auto simp: handle_provision_def shellless_def done_with_def Let_def split: sum.splits)
  show "shellless (handle_reset s pid params)"
    by (auto simp: handle_reset_def shellless_def done_with_def Let_def split: sum.splits prod.splits)
qed (auto simp: handle_claim_def handle_release_def handle_subscribe_def handle_unsubscribe_def split: prod.splits sum.splits)

lemma dispatch_shellless:
  assumes "\<not> allowShell (policy rt)"
  shows "shellless (dispatch rt now s pid m params c)"
proof (cases "assertMethodAllowed m (policy rt)")
  case (Inl e)
  then show ?thesis by (simp add: dispatch_def)
next
  case (Inr u)
  then have m: "m \<noteq> js ''system.shell''" "m \<noteq> js ''stream.open''"
    using assms by (auto simp: assertMethodAllowed_def SHELL_METHODS_def split: if_splits)
  have other: "shellless (s, acts, p)" if "\<forall>a\<in>set acts. no_shell a" for acts p using that by (simp add: shellless_def)
  show ?thesis using Inr m handlers_shellless other by (auto simp: dispatch_def split: option.splits)
qed

lemma line_no_shell:
  assumes "\<not> allowShell (policy rt)" "a \<in> set (snd (handle_line rt now c s line))"
  shows "no_shell a"
proof (cases "handleMessage (json_parse rt) line")
  case (Request i m params)
  then show ?thesis
    using assms(2) dispatch_shellless[OF assms(1), of now "s\<lparr>next_request := next_request s + 1\<rparr>" "next_request s" m params c]
    by (auto simp: handle_line_def handle_request_def shellless_def Let_def split: prod.splits)
next
  case (Client_Note m params)
  then show ?thesis using assms(2) by (auto simp: handle_line_def handle_note_def split: prod.splits if_splits)
qed (use assms(2) in \<open>auto simp: handle_line_def\<close>)

lemma settle_no_shell:
  "a \<in> set (snd (settle_request s pid k)) \<Longrightarrow> (\<And>q r. k q = Some r \<Longrightarrow> a \<in> set (snd r) \<Longrightarrow> P) \<Longrightarrow> P"
  by (auto simp: settle_request_def split: option.splits)

lemma step_no_shell:
  assumes "\<not> allowShell (policy rt)" "a \<in> set (snd (daemon_step rt s (now, e)))"
  shows "no_shell a"
proof (cases e)
  case (Data_Chunk c bytes)
  have run: "\<forall>a\<in>set (snd (mrun (handle_line rt now c) s' ls)). no_shell a" for s' ls
    by (rule conjunct2[OF mrun_safe[where I = "\<lambda>s. True"]]) (use line_no_shell[OF assms(1)] in auto)
  then show ?thesis using assms(2) Data_Chunk
    by (cases "map_of (clients s) c"; cases "c \<in> set (destroyed s)"; cases "receive_chunk (the (map_of (clients s) c)) bytes")
      (auto simp: data_chunk_def)
next
  case (Reset_Done pid r)
  then show ?thesis using assms(2)
    by (auto simp: reset_done_def Let_def elim!: settle_no_shell split: request_phase.splits sum.splits if_splits)
qed (use assms(2) in \<open>auto simp: client_gone_def respond_def broadcast_def notify_def Let_def elim!: settle_no_shell
      split: prod.splits option.splits request_phase.splits sum.splits if_splits\<close>)

text \<open>Where the policy does not allow shells, no run of the daemon, whatever its clients send, opens a shell on a device or
  calls the method that executes a command there.\<close>

theorem shell_forbidden:
  assumes "\<not> allowShell (policy rt)"
  shows "Open_Shell c pid d f \<notin> set (snd (mrun (daemon_step rt) s es)) \<and>
    Call c pid d (js ''system.shell'') f params \<notin> set (snd (mrun (daemon_step rt) s es))"
proof -
  have "\<forall>a\<in>set (snd (mrun (daemon_step rt) s es)). no_shell a"
    using mrun_safe[of es "\<lambda>s. True" "daemon_step rt" no_shell s] step_no_shell[OF assms] by (metis prod.collapse)
  then show ?thesis by auto
qed

theorem shell_forbidden_witness:
  "Open_Shell (client_name 2) 0 (js ''d'') 0 \<notin> set (snd (mrun (daemon_step sample_runtime) sample_daemon [(1, Data_Chunk (client_name 2) [120, 10])]))"
  using shell_forbidden[of sample_runtime "client_name 2" 0 "js ''d''" 0 sample_daemon "[(1, Data_Chunk (client_name 2) [120, 10])]"]
  by (simp add: sample_runtime_def del: mrun.simps daemon_step.simps)

end
