(* ===== verification/Daemon_Clients.thy ===== *)
theory Daemon_Clients imports Daemon begin

text \<open>
  What is left of a client that has disconnected: no subscription, stream or lease, and nothing is ever sent to it again.
  The names of clients are never given twice. The exception is a shell whose opening was under way.
\<close>

section \<open>A client that is gone\<close>

definition owns_nothing :: "jstr \<Rightarrow> lease_map \<Rightarrow> subscription_map \<Rightarrow> stream_table \<Rightarrow> bool" where
  "owns_nothing c ls subs tab \<longleftrightarrow>
     (\<forall>(d, l)\<in>set ls. lease_client l \<noteq> c) \<and> c \<notin> fst ` set subs \<and> (\<forall>(sid, e)\<in>set (streams tab). stream_client e \<noteq> c)"

definition gone :: "jstr \<Rightarrow> 'm daemon \<Rightarrow> bool" where
  "gone c s \<longleftrightarrow> map_of (clients s) c = None \<and> (\<exists>n < next_client s. c = client_name n) \<and>
     owns_nothing c (leases s) (subscriptions s) (stream_tab s)"

fun not_to :: "jstr \<Rightarrow> 'm daemon_action \<Rightarrow> bool" where
  "not_to c (Write c' m) = (c' \<noteq> c)"
| "not_to c _ = True"

definition stays_gone :: "jstr \<Rightarrow> 'm daemon \<times> 'm daemon_action list \<Rightarrow> bool" where
  "stays_gone c r \<longleftrightarrow> gone c (fst r) \<and> (\<forall>a\<in>set (snd r). not_to c a)"

lemma set_map_setD: "x \<in> set (map_set k v m) \<Longrightarrow> x = (k, v) \<or> x \<in> set m"
  by (induction k v m rule: map_set.induct) (auto split: if_splits)

lemma in_map_delete [simp]: "x \<in> set (map_delete k m) \<longleftrightarrow> x \<in> set m \<and> fst x \<noteq> k"
  by (auto simp: map_delete_def)

lemma live_set: "x \<in> set (fst (live now m d)) \<Longrightarrow> x \<in> set m"
  by (auto simp: live_def split: option.splits if_splits)

lemma lease_sets:
  "x \<in> set (fst (assertHolder now m d c)) \<Longrightarrow> x \<in> set m"
  "x \<in> set (fst (release now m d c)) \<Longrightarrow> x \<in> set m"
  "x \<in> set (fst (claim now m d c ttl)) \<Longrightarrow> x \<in> set m \<or> lease_client (snd x) = c"
  using live_set[of x now m d]
  by (auto simp: assertHolder_def release_def claim_def Let_def split: prod.splits option.splits if_splits dest: set_map_setD)

lemma owns_nothing_leases:
  "owns_nothing c ls subs tab \<Longrightarrow> (\<And>x. x \<in> set ls' \<Longrightarrow> x \<in> set ls \<or> lease_client (snd x) \<noteq> c) \<Longrightarrow> owns_nothing c ls' subs tab"
  by (auto simp: owns_nothing_def split_beta)

lemma owns_nothing_subs:
  "owns_nothing c ls subs tab \<Longrightarrow> (\<And>k. k \<in> fst ` set subs' \<Longrightarrow> k \<in> fst ` set subs \<or> k \<noteq> c) \<Longrightarrow> owns_nothing c ls subs' tab"
  by (auto simp: owns_nothing_def)

lemma owns_nothing_streams:
  "owns_nothing c ls subs tab \<Longrightarrow> (\<And>x. x \<in> set (streams tab') \<Longrightarrow> x \<in> set (streams tab) \<or> stream_client (snd x) \<noteq> c) \<Longrightarrow>
    owns_nothing c ls subs tab'"
  unfolding owns_nothing_def split_beta by blast

lemma subscription_keys:
  "k \<in> fst ` set (subscribe subs c d evs) \<Longrightarrow> k = c \<or> k \<in> fst ` set subs"
  "k \<in> fst ` set (unsubscribe subs c d) \<Longrightarrow> k = c \<or> k \<in> fst ` set subs"
  by (auto simp: subscribe_def unsubscribe_def Let_def split: option.splits if_splits dest!: set_map_setD)

lemma stream_sets:
  "x \<in> set (streams (fst (stream_closed t sid))) \<Longrightarrow> x \<in> set (streams t)"
  "x \<in> set (streams (fst (handleClose t c sid))) \<Longrightarrow> x \<in> set (streams t)"
  "x \<in> set (streams (fst (removeClient t c))) \<Longrightarrow> x \<in> set (streams t)"
  "x \<in> set (streams (fst (removeDevice t d))) \<Longrightarrow> x \<in> set (streams t)"
  "x \<in> set (streams (fst (closeAll t))) \<Longrightarrow> x \<in> set (streams t)"
  "x \<in> set (streams (fst (open_stream t c d h))) \<Longrightarrow> x \<in> set (streams t) \<or> stream_client (snd x) = c"
  by (auto simp: stream_closed_def handleClose_def removeClient_def removeDevice_def closeAll_def open_stream_def Let_def
      split: option.splits if_splits dest!: set_map_setD)

section \<open>Requests of others\<close>

lemma owns_nothing_releaseAll: "owns_nothing c ls subs tab \<Longrightarrow> owns_nothing c (releaseAllForClient ls c') subs tab"
  by (auto simp: owns_nothing_def releaseAllForClient_def)

lemma notto_write [simp]: "map_of (clients s) c = None \<Longrightarrow> a \<in> set (write_line s c' m) \<Longrightarrow> not_to c a"
  by (auto simp: write_line_def writable_def split: if_splits)

lemma notto_notify [simp]: "map_of (clients s) c = None \<Longrightarrow> a \<in> set (notify s n) \<Longrightarrow> not_to c a"
  by (auto simp: notify_def)

lemma notto_broadcast [simp]: "map_of (clients s) c = None \<Longrightarrow> a \<in> set (broadcast s n) \<Longrightarrow> not_to c a"
  by (auto simp: broadcast_def)

lemma notto_stream [simp]: "map_of (clients s) c = None \<Longrightarrow> a \<in> set (stream_acts s acts) \<Longrightarrow> not_to c a"
proof -
  assume gone: "map_of (clients s) c = None" and "a \<in> set (stream_acts s acts)"
  then obtain x where "a \<in> set (case x of Stream_Notify c' n \<Rightarrow> notify s (c', n) | _ \<Rightarrow> [Device_Stream x])"
    by (auto simp: stream_acts_def)
  then show ?thesis using gone by (cases x) auto
qed

text \<open>Without a handler nothing but these fields of the state changes.\<close>

definition same_clients :: "'m daemon \<Rightarrow> 'm daemon \<Rightarrow> bool" where
  "same_clients s s' \<longleftrightarrow> clients s' = clients s \<and> next_client s' = next_client s"

lemma goneI:
  assumes "gone c s" "same_clients s s'"
    "owns_nothing c (leases s) (subscriptions s) (stream_tab s) \<Longrightarrow> owns_nothing c (leases s') (subscriptions s') (stream_tab s')"
  shows "gone c s'"
  using assms by (simp add: gone_def same_clients_def)

lemma goneD: "gone c s \<Longrightarrow> map_of (clients s) c = None" "gone c s \<Longrightarrow> owns_nothing c (leases s) (subscriptions s) (stream_tab s)"
  by (simp_all add: gone_def)

lemma getModemFor_gone: "gone c s \<Longrightarrow> getModemFor now s d c' = (s', r) \<Longrightarrow> gone c s'"
  using owns_nothing_leases[of c "leases s" "subscriptions s" "stream_tab s" "fst (assertHolder now (leases s) d c')"] lease_sets(1)[of _ now "leases s" d c']
  by (auto simp: getModemFor_def gone_def split: prod.splits sum.splits)

lemma claim_gone: "gone c s \<Longrightarrow> c' \<noteq> c \<Longrightarrow> gone c (s\<lparr>leases := fst (claim now (leases s) d c' ttl)\<rparr>)"
  using owns_nothing_leases[of c "leases s" "subscriptions s" "stream_tab s" "fst (claim now (leases s) d c' ttl)"] lease_sets(3)[of _ now "leases s" d c' ttl]
  by (auto simp: gone_def)

lemma release_gone: "gone c s \<Longrightarrow> gone c (s\<lparr>leases := fst (release now (leases s) d c')\<rparr>)"
  using owns_nothing_leases[of c "leases s" "subscriptions s" "stream_tab s" "fst (release now (leases s) d c')"] lease_sets(2)[of _ now "leases s" d c']
  by (auto simp: gone_def)

lemma subscribe_gone:
  "gone c s \<Longrightarrow> c' \<noteq> c \<Longrightarrow> gone c (s\<lparr>subscriptions := subscribe (subscriptions s) c' d evs\<rparr>)"
  "gone c s \<Longrightarrow> c' \<noteq> c \<Longrightarrow> gone c (s\<lparr>subscriptions := unsubscribe (subscriptions s) c' d\<rparr>)"
  using owns_nothing_subs[of c "leases s" "subscriptions s" "stream_tab s"] subscription_keys[of _ "subscriptions s" c' d]
  unfolding gone_def by (simp_all) (metis+)

lemma streams_gone:
  "gone c s \<Longrightarrow> (\<And>x. x \<in> set (streams tab) \<Longrightarrow> x \<in> set (streams (stream_tab s)) \<or> stream_client (snd x) \<noteq> c) \<Longrightarrow> gone c (s\<lparr>stream_tab := tab\<rparr>)"
  using owns_nothing_streams[of c "leases s" "subscriptions s" "stream_tab s" tab] by (simp add: gone_def)

lemma gone_simps [simp]: "gone c (s\<lparr>requests := rs\<rparr>) = gone c s" "gone c (s\<lparr>next_request := n\<rparr>) = gone c s"
  "gone c (s\<lparr>pool_devices := ds\<rparr>) = gone c s" "gone c (s\<lparr>modems := ms\<rparr>) = gone c s" "gone c (s\<lparr>destroyed := x\<rparr>) = gone c s"
  by (simp_all add: gone_def)

definition stays :: "jstr \<Rightarrow> 'm handled \<Rightarrow> bool" where
  "stays c h \<longleftrightarrow> (case h of (s, acts, _) \<Rightarrow> gone c s \<and> (\<forall>a\<in>set acts. not_to c a))"

lemma stays_done [simp]: "stays c (done_with s r) = gone c s"
  by (simp add: stays_def done_with_def)

lemma handlers_stay:
  assumes "gone c s"
  shows "stays c (handle_service now s pid m params c' entry)" "stays c (handle_stream_open now s pid params c')"
    "c' \<noteq> c \<Longrightarrow> stays c (handle_claim now s params c')" "stays c (handle_release now s params c')"
    "c' \<noteq> c \<Longrightarrow> stays c (handle_subscribe s params c')" "c' \<noteq> c \<Longrightarrow> stays c (handle_unsubscribe s params c')"
    "stays c (handle_provision s pid params)" "stays c (handle_reset s pid params)"
proof -
  obtain s' r where get: "getModemFor now s (the_str params ''deviceId'') c' = (s', r)" by fastforce
  have s': "gone c s'" using getModemFor_gone[OF assms get] .
  show "stays c (handle_service now s pid m params c' entry)" "stays c (handle_stream_open now s pid params c')"
    using get s' assms
    by (auto simp: handle_service_def handle_stream_open_def stays_def done_with_def Let_def split: sum.splits service_outcome.splits option.splits)
  show "c' \<noteq> c \<Longrightarrow> stays c (handle_claim now s params c')"
    using claim_gone[OF assms, of c' now "the_str params ''deviceId''" "num_field params ''ttlMs''"] assms
    by (auto simp: handle_claim_def claim_device_def split: sum.splits prod.splits)
  show "stays c (handle_release now s params c')"
    using release_gone[OF assms, of now "the_str params ''deviceId''" c'] assms
    by (auto simp: handle_release_def split: prod.splits)
  show "c' \<noteq> c \<Longrightarrow> stays c (handle_subscribe s params c')" "c' \<noteq> c \<Longrightarrow> stays c (handle_unsubscribe s params c')"
    using assms subscribe_gone[OF assms] by (simp_all add: handle_subscribe_def handle_unsubscribe_def)
  show "stays c (handle_provision s pid params)"
    using assms by (auto simp: handle_provision_def stays_def done_with_def Let_def split: sum.splits)
  have "gone c (s\<lparr>stream_tab := fst (removeDevice (stream_tab s) (the_str params ''deviceId''))\<rparr>)"
    using streams_gone[OF assms] stream_sets(4) by blast
  then show "stays c (handle_reset s pid params)"
    using assms goneD(1)[OF assms] by (auto simp: handle_reset_def stays_def done_with_def Let_def split: sum.splits prod.splits)
qed

lemma dispatch_stays:
  assumes "gone c s" "c' \<noteq> c"
  shows "stays c (dispatch rt now s pid m params c')"
proof (cases "assertMethodAllowed m (policy rt)")
  case (Inl e)
  then show ?thesis using assms(1) by (simp add: dispatch_def)
next
  case (Inr u)
  have other: "stays c (s, acts, p)" if "\<forall>a\<in>set acts. not_to c a" for acts p
    using that assms(1) by (simp add: stays_def)
  show ?thesis using Inr handlers_stay[OF assms(1)] other assms by (auto simp: dispatch_def split: option.splits)
qed

section \<open>Steps\<close>

lemma stays_goneI: "gone c s \<Longrightarrow> (\<And>a. a \<in> set acts \<Longrightarrow> not_to c a) \<Longrightarrow> stays_gone c (s, acts)"
  by (simp add: stays_gone_def)

lemma handle_request_stays: "gone c s \<Longrightarrow> c' \<noteq> c \<Longrightarrow> stays_gone c (handle_request rt now s c' i m params)"
  using dispatch_stays[of c "s\<lparr>next_request := next_request s + 1\<rparr>" c' rt now "next_request s" m params]
  by (auto simp: handle_request_def stays_gone_def stays_def Let_def split: prod.splits)

lemma handle_note_stays: "gone c s \<Longrightarrow> stays_gone c (handle_note s c' m params)"
proof -
  assume gone: "gone c s"
  have "gone c (s\<lparr>stream_tab := fst (handleClose (stream_tab s) c' (the_str params ''streamId''))\<rparr>)"
    using streams_gone[OF gone] stream_sets(2) by blast
  then show ?thesis using gone goneD(1)[OF gone] by (auto simp: handle_note_def stays_gone_def split: prod.splits)
qed

lemma handle_line_stays:
  assumes "gone c s" "c' \<noteq> c"
  shows "stays_gone c (handle_line rt now c' s line)"
  using assms goneD(1)[OF assms(1)] handle_request_stays[OF assms] handle_note_stays[OF assms(1)]
  by (auto simp: handle_line_def stays_gone_def split: incoming.splits)

lemma data_chunk_stays:
  assumes "gone c s"
  shows "stays_gone c (data_chunk rt now s c' bytes)"
proof (cases "c' = c")
  case True
  then show ?thesis using assms goneD(1)[OF assms] by (simp add: data_chunk_def stays_gone_def)
next
  case False
  have run: "stays_gone c (mrun (handle_line rt now c') (s\<lparr>clients := map_set c' rest (clients s)\<rparr>) ls)" for rest ls
  proof -
    have "gone c (s\<lparr>clients := map_set c' rest (clients s)\<rparr>)" using assms False by (simp add: gone_def map_of_map_set)
    then show ?thesis
      unfolding stays_gone_def
      by (intro mrun_safe[where I = "gone c" and Q = "not_to c"]) (use handle_line_stays[OF _ False] in \<open>simp_all add: stays_gone_def\<close>)
  qed
  show ?thesis
  proof (cases "map_of (clients s) c'")
    case None
    then show ?thesis using assms by (simp add: data_chunk_def stays_gone_def)
  next
    case (Some buffer)
    then show ?thesis
      using assms False goneD(1)[OF assms] run
      by (cases "receive_chunk buffer bytes") (auto simp: data_chunk_def stays_gone_def)
  qed
qed

lemma set_phase_gone [simp]: "gone c (set_phase s pid p) = gone c s"
  by (simp add: set_phase_def split: option.splits)

lemma settle_request_stays:
  "gone c s \<Longrightarrow> (\<And>q r. map_of (requests s) pid = Some q \<Longrightarrow> k q = Some r \<Longrightarrow> stays_gone c r) \<Longrightarrow> stays_gone c (settle_request s pid k)"
  by (auto simp: settle_request_def stays_gone_def split: option.splits)

text \<open>A shell of the client opens after all.\<close>

fun late_shell :: "jstr \<Rightarrow> 'm daemon \<Rightarrow> 'm daemon_event \<Rightarrow> bool" where
  "late_shell c s (Shell_Opened pid (Inr h)) = (\<exists>q. map_of (requests s) pid = Some q \<and> req_client q = c)"
| "late_shell c s _ = False"

lemma step_stays:
  assumes "gone c s" "\<not> late_shell c s e"
  shows "stays_gone c (daemon_step rt s (now, e))"
proof (cases e)
  case Connect
  then show ?thesis using assms(1) by (auto simp: stays_gone_def gone_def map_add_def split: option.splits)
next
  case (Disconnect c1)
  have "owns_nothing c (releaseAllForClient (leases s) c1) (map_delete c1 (subscriptions s)) (fst (removeClient (stream_tab s) c1))"
    using goneD(2)[OF assms(1)]
    by (intro owns_nothing_streams[OF owns_nothing_subs[OF owns_nothing_releaseAll]]) (auto dest: stream_sets(3))
  then have "gone c (fst (client_gone s c1))"
    using assms(1) by (simp add: client_gone_def gone_def remove_subscriber_def map_of_delete Let_def split_beta)
  moreover from goneD(1)[OF this] have "\<forall>a\<in>set (snd (client_gone s c1)). not_to c a"
    by (auto simp: client_gone_def Let_def split_beta intro: notto_stream[rotated])
  ultimately show ?thesis using Disconnect by (simp add: stays_gone_def)
next
  case (Data_Chunk c1 bytes)
  then show ?thesis using data_chunk_stays[OF assms(1)] by simp
next
  case (Respond pid)
  then show ?thesis using assms(1) goneD(1)[OF assms(1)] by (auto simp: respond_def stays_gone_def split: option.splits request_phase.splits)
next
  case (Call_Settled pid r)
  show ?thesis unfolding Call_Settled daemon_step.simps
    by (rule settle_request_stays[OF assms(1)]) (use assms(1) in \<open>auto intro!: stays_goneI split: if_splits\<close>)
next
  case (Ready_Settled pid r)
  show ?thesis unfolding Ready_Settled daemon_step.simps
    by (rule settle_request_stays[OF assms(1)]) (use assms(1) in \<open>auto intro!: stays_goneI split: request_phase.splits\<close>)
next
  case (Shell_Opened pid r)
  have opened: "gone c (shell_opened s pid (req_client q) d h)" if "map_of (requests s) pid = Some q" "r = Inr h" for q d h
  proof -
    have other: "req_client q \<noteq> c" using assms(2) that Shell_Opened by auto
    have "gone c (s\<lparr>stream_tab := fst (open_stream (stream_tab s) (req_client q) d h)\<rparr>)"
      by (rule streams_gone[OF assms(1)]) (use stream_sets(6) other in metis)
    then show ?thesis by (simp add: shell_opened_def split_beta)
  qed
  show ?thesis unfolding Shell_Opened daemon_step.simps
  proof (rule settle_request_stays[OF assms(1)])
    fix q and res :: "'a daemon \<times> 'a daemon_action list"
    assume "map_of (requests s) pid = Some q"
      "(case req_phase q of
         Awaiting_Shell d \<Rightarrow> Some (case r of Inl e \<Rightarrow> set_phase s pid (Settled (Inl e)) | Inr h \<Rightarrow> shell_opened s pid (req_client q) d h, [])
       | _ \<Rightarrow> None) = Some res"
    then show "stays_gone c res"
      using opened[of q] assms(1) by (cases "req_phase q"; cases r) (auto simp: stays_gone_def)
  qed
next
  case (Reset_Done pid r)
  have reset: "stays_gone c r" if "reset_done s pid d = r" for d r
    using assms(1) that by (auto simp: reset_done_def stays_gone_def Let_def split: if_splits)
  show ?thesis unfolding Reset_Done daemon_step.simps
    by (intro settle_request_stays[OF assms(1)])
      (use assms(1) in \<open>auto intro: reset stays_goneI split: request_phase.splits sum.splits\<close>)
next
  case (Stream_Ended sid)
  have "gone c (s\<lparr>stream_tab := fst (stream_closed (stream_tab s) sid)\<rparr>)" using streams_gone[OF assms(1)] stream_sets(1) by blast
  then show ?thesis using Stream_Ended goneD(1)[OF assms(1)] by (auto simp: stays_gone_def split: prod.splits)
next
  case (Device_Removed d info)
  have "gone c (s\<lparr>stream_tab := fst (removeDevice (stream_tab s) d)\<rparr>)" using streams_gone[OF assms(1)] stream_sets(4) by blast
  then have "gone c (s\<lparr>modems := map_delete d (modems s), stream_tab := fst (removeDevice (stream_tab s) d)\<rparr>)" by (simp add: gone_def)
  then show ?thesis using Device_Removed goneD(1)[OF assms(1)] by (auto simp: stays_gone_def split: prod.splits)
next
  case Shutting_Down
  have "gone c (s\<lparr>stream_tab := fst (closeAll (stream_tab s))\<rparr>)" using streams_gone[OF assms(1)] stream_sets(5) by blast
  then show ?thesis using Shutting_Down goneD(1)[OF assms(1)] by (auto simp: stays_gone_def split: prod.splits)
next
  case Stopped
  then show ?thesis using assms(1) by (auto simp: stays_gone_def gone_def)
qed (use assms(1) goneD(1)[OF assms(1)] in \<open>auto simp: stays_gone_def\<close>)

lemma disconnect_gone:
  assumes "n < next_client s" "c = client_name n"
  shows "stays_gone c (daemon_step rt s (now, Disconnect c))"
proof -
  have "gone c (fst (client_gone s c))"
    using assms by (auto simp: client_gone_def gone_def map_of_delete owns_nothing_def releaseAllForClient_def remove_subscriber_def
        removeClient_def Let_def split_beta)
  moreover from goneD(1)[OF this] have "\<forall>a\<in>set (snd (client_gone s c)). not_to c a"
    by (auto simp: client_gone_def Let_def split_beta intro: notto_stream[rotated])
  ultimately show ?thesis by (simp add: stays_gone_def)
qed

fun no_late_shell :: "runtime \<Rightarrow> jstr \<Rightarrow> 'm daemon \<Rightarrow> (rat \<times> 'm daemon_event) list \<Rightarrow> bool" where
  "no_late_shell rt c s [] = True"
| "no_late_shell rt c s (e # es) = (\<not> late_shell c s (snd e) \<and> no_late_shell rt c (fst (daemon_step rt s e)) es)"

lemma run_stays: "gone c s \<Longrightarrow> no_late_shell rt c s es \<Longrightarrow> stays_gone c (mrun (daemon_step rt) s es)"
proof (induction es arbitrary: s)
  case Nil
  then show ?case by (simp add: stays_gone_def)
next
  case (Cons e es)
  then have first: "stays_gone c (daemon_step rt s e)" using step_stays[of c s "snd e" rt "fst e"] by simp
  then have "stays_gone c (mrun (daemon_step rt) (fst (daemon_step rt s e)) es)"
    using Cons.IH[of "fst (daemon_step rt s e)"] Cons.prems(2) by (simp add: stays_gone_def)
  with first show ?case by (auto simp: stays_gone_def mrun_Cons simp del: mrun.simps)
qed

text \<open>C17: once a connection is closed, nothing of the client is left and nothing comes back: whatever happens afterwards, unless
  a shell that it was opening opens after all, it has no lease, no subscription and no stream, and nothing is written to it.\<close>

theorem disconnect_cleans:
  assumes "n < next_client s"
    and "no_late_shell rt (client_name n) (fst (daemon_step rt s (now, Disconnect (client_name n)))) es"
    and "mrun (daemon_step rt) s ((now, Disconnect (client_name n)) # es) = (t, out)"
  shows "owns_nothing (client_name n) (leases t) (subscriptions t) (stream_tab t) \<and> map_of (clients t) (client_name n) = None \<and>
    (\<forall>m. Write (client_name n) m \<notin> set out)"
proof -
  have first: "stays_gone (client_name n) (daemon_step rt s (now, Disconnect (client_name n)))"
    using disconnect_gone[OF assms(1)] by simp
  then have "stays_gone (client_name n) (mrun (daemon_step rt) (fst (daemon_step rt s (now, Disconnect (client_name n)))) es)"
    using run_stays[OF _ assms(2)] by (simp add: stays_gone_def)
  then have "stays_gone (client_name n) (t, out)"
    using first assms(3) by (auto simp: stays_gone_def split_beta simp del: daemon_step.simps)
  then show ?thesis by (auto simp: stays_gone_def gone_def)
qed

text \<open>When a shell opens after its client has disconnected, its stream is entered for a client that will never close it, and
  no action closes the device's side.\<close>

theorem late_shell_leaks:
  assumes "gone c s" "map_of (requests s) pid = Some q" "req_client q = c" "req_phase q = Awaiting_Shell d"
    and "daemon_step rt s (now, Shell_Opened pid (Inr h)) = (t, out)"
  shows "\<exists>sid e. map_of (streams (stream_tab t)) sid = Some e \<and> stream_client e = c \<and> stream_handle e = h" and "out = []"
  using assms
  by (auto simp: settle_request_def shell_opened_def open_stream_def Let_def set_phase_def map_of_map_set split: option.splits)

theorem disconnect_cleans_witness:
  "owns_nothing (client_name 1) (leases (fst (daemon_step sample_runtime sample_daemon (0, Disconnect (client_name 1)))))
     (subscriptions (fst (daemon_step sample_runtime sample_daemon (0, Disconnect (client_name 1)))))
     (stream_tab (fst (daemon_step sample_runtime sample_daemon (0, Disconnect (client_name 1)))))"
proof -
  have "1 < next_client sample_daemon" by (simp add: sample_daemon_def)
  moreover obtain t out where "daemon_step sample_runtime sample_daemon (0, Disconnect (client_name 1)) = (t, out)" by fastforce
  ultimately show ?thesis using disconnect_cleans[of 1 sample_daemon sample_runtime 0 "[]" t out] by (simp del: daemon_step.simps)
qed

end
