(* ===== verification/Regexp.thy ===== *)
theory Regexp imports Script begin

text \<open>
  The regular expressions of the service modules: literals, character classes and their greedy
  repetitions, groups, optional groups and the end of the input. \<open>rx_match\<close> lists every way an expression
  can match at the start of a string, in the order in which the backtracking matcher of ECMAScript tries
  them: a repetition gives up one character at a time, an option is taken before it is skipped. Each way is
  the captures, a group that took no part being undefined, and the rest of the string. \<open>exec\<close> takes the
  first way at the leftmost position that has one; \<open>matchAll\<close> of a global expression goes on after it.
\<close>

section \<open>Expressions and matching\<close>

datatype rx =
    Rx_Lit jstr
  | Rx_One "nat \<Rightarrow> bool"
  | Rx_Star "nat \<Rightarrow> bool"
  | Rx_Plus "nat \<Rightarrow> bool"
  | Rx_Group rx
  | Rx_Opt rx
  | Rx_Seq rx rx
  | Rx_End

type_synonym captures = "jstr option list"

primrec rx_groups :: "rx \<Rightarrow> nat" where
  "rx_groups (Rx_Lit w) = 0"
| "rx_groups (Rx_One p) = 0"
| "rx_groups (Rx_Star p) = 0"
| "rx_groups (Rx_Plus p) = 0"
| "rx_groups (Rx_Group r) = Suc (rx_groups r)"
| "rx_groups (Rx_Opt r) = rx_groups r"
| "rx_groups (Rx_Seq a b) = rx_groups a + rx_groups b"
| "rx_groups Rx_End = 0"

text \<open>What a greedy repetition of a class can leave, the shortest rest first.\<close>

fun greedy :: "(nat \<Rightarrow> bool) \<Rightarrow> jstr \<Rightarrow> jstr list" where
  "greedy p [] = [[]]"
| "greedy p (c # s) = (if p c then greedy p s @ [c # s] else [c # s])"

primrec rx_match :: "rx \<Rightarrow> jstr \<Rightarrow> (captures \<times> jstr) list" where
  "rx_match (Rx_Lit w) s = (if js_startsWith s w then [([], drop (length w) s)] else [])"
| "rx_match (Rx_One p) s = (case s of [] \<Rightarrow> [] | c # t \<Rightarrow> if p c then [([], t)] else [])"
| "rx_match (Rx_Star p) s = map (Pair []) (greedy p s)"
| "rx_match (Rx_Plus p) s = (case s of [] \<Rightarrow> [] | c # t \<Rightarrow> if p c then map (Pair []) (greedy p t) else [])"
| "rx_match (Rx_Group r) s = map (\<lambda>(gs, t). (Some (take (length s - length t) s) # gs, t)) (rx_match r s)"
| "rx_match (Rx_Opt r) s =
     filter (\<lambda>(gs, t). length t < length s) (rx_match r s) @ [(replicate (rx_groups r) None, s)]"
| "rx_match (Rx_Seq a b) s =
     concat (map (\<lambda>(gs, t). map (\<lambda>(gs', u). (gs @ gs', u)) (rx_match b t)) (rx_match a s))"
| "rx_match Rx_End s = (if s = [] then [([], [])] else [])"

definition rx_first :: "rx \<Rightarrow> jstr \<Rightarrow> (captures \<times> jstr) option" where
  "rx_first r s = (case rx_match r s of [] \<Rightarrow> None | m # _ \<Rightarrow> Some m)"

text \<open>\<open>/^...$/.exec\<close> is \<open>rx_at_start\<close>, and \<open>/.../.exec\<close> is \<open>rx_exec\<close>; both give the groups \<open>match[1]\<close> and on.\<close>

definition rx_at_start :: "rx \<Rightarrow> jstr \<Rightarrow> captures option" where
  "rx_at_start r s = map_option fst (rx_first r s)"

fun rx_find :: "rx \<Rightarrow> jstr \<Rightarrow> (jstr \<times> captures \<times> jstr) option" where
  "rx_find r s =
     (case rx_first r s of Some (gs, t) \<Rightarrow> Some (s, gs, t)
      | None \<Rightarrow> (case s of [] \<Rightarrow> None | _ # t \<Rightarrow> rx_find r t))"

declare rx_find.simps [simp del]

definition rx_exec :: "rx \<Rightarrow> jstr \<Rightarrow> captures option" where
  "rx_exec r s = map_option (fst \<circ> snd) (rx_find r s)"

text \<open>
  \<open>rx_find\<close> gives the rest of the string from where the match begins, and its rest behind the match. Both
  are never longer than the string, so that \<open>matchAll\<close> ends; after an empty match it moves on by one
  character.
\<close>

lemma length_greedy: "t \<in> set (greedy p s) \<Longrightarrow> length t \<le> length s"
  by (induction p s rule: greedy.induct) (auto split: if_splits)

lemma length_rx_match: "(gs, t) \<in> set (rx_match r s) \<Longrightarrow> length t \<le> length s"
proof (induction r arbitrary: gs t s)
  case (Rx_Seq a b)
  then obtain gs1 t1 gs2 where "(gs1, t1) \<in> set (rx_match a s)" "(gs2, t) \<in> set (rx_match b t1)"
    by auto
  with Rx_Seq.IH show ?case using le_trans by blast
next
  case (Rx_Plus p)
  then show ?case by (auto split: list.splits if_splits dest!: length_greedy)
qed (auto split: if_splits list.splits dest: length_greedy)

lemma length_rx_first: "rx_first r s = Some (gs, t) \<Longrightarrow> length t \<le> length s"
  by (rule length_rx_match [of gs t r]) (auto simp: rx_first_def split: list.splits)

lemma length_rx_find: "rx_find r s = Some (u, gs, t) \<Longrightarrow> length t \<le> length u \<and> length u \<le> length s"
proof (induction s)
  case Nil
  then show ?case by (subst (asm) rx_find.simps) (auto dest!: length_rx_first split: option.splits)
next
  case (Cons c s)
  then show ?case by (subst (asm) rx_find.simps) (auto dest!: length_rx_first split: option.splits)
qed

function rx_matchAll :: "rx \<Rightarrow> jstr \<Rightarrow> captures list" where
  "rx_matchAll r s =
     (case rx_find r s of None \<Rightarrow> []
      | Some (u, gs, t) \<Rightarrow>
          gs # (if length t < length u then rx_matchAll r t
                else if u = [] then [] else rx_matchAll r (drop 1 u)))"
  by pat_completeness auto

termination
  by (relation "measure (\<lambda>(r, s). length s)") (auto dest!: length_rx_find simp: neq_Nil_conv)

declare rx_matchAll.simps [simp del]

section \<open>Evaluating expressions\<close>

text \<open>
  The first way of a sequence is the first way of its parts when both have one; otherwise the matcher
  backtracks, which \<open>rx_retry\<close> names.
\<close>

definition rx_retry :: "rx \<Rightarrow> rx \<Rightarrow> jstr \<Rightarrow> (captures \<times> jstr) option" where
  "rx_retry a b s =
     (case concat (map (\<lambda>(gs, t). map (\<lambda>(gs', u). (gs @ gs', u)) (rx_match b t)) (drop 1 (rx_match a s)))
      of [] \<Rightarrow> None | m # _ \<Rightarrow> Some m)"

lemma rx_first_Seq:
  "rx_first (Rx_Seq a b) s =
     (case rx_first a s of None \<Rightarrow> None
      | Some (gs, t) \<Rightarrow> (case rx_first b t of Some (gs', u) \<Rightarrow> Some (gs @ gs', u) | None \<Rightarrow> rx_retry a b s))"
proof (cases "rx_match a s")
  case Nil
  then show ?thesis by (simp add: rx_first_def)
next
  case (Cons m ms)
  obtain gs t where "m = (gs, t)" by (cases m)
  with Cons show ?thesis
    by (cases "rx_match b t") (auto simp: rx_first_def rx_retry_def split: list.split)
qed

lemma rx_retry_Lit: "rx_retry (Rx_Lit w) b s = None"
  by (simp add: rx_retry_def)

lemma rx_retry_None: "drop 1 (rx_match a s) = [] \<Longrightarrow> rx_retry a b s = None"
  by (simp add: rx_retry_def)

lemma rx_first_Lit: "rx_first (Rx_Lit w) s = (if js_startsWith s w then Some ([], drop (length w) s) else None)"
  by (simp add: rx_first_def)

lemma rx_first_One:
  "rx_first (Rx_One p) s = (case s of [] \<Rightarrow> None | c # t \<Rightarrow> if p c then Some ([], t) else None)"
  by (cases s) (simp_all add: rx_first_def)

lemma greedy_first: "\<exists>ts. greedy p s = dropWhile p s # ts"
  by (induction p s rule: greedy.induct) auto

lemma rx_first_Star: "rx_first (Rx_Star p) s = Some ([], dropWhile p s)"
  using greedy_first [of p s] by (auto simp: rx_first_def)

lemma rx_first_Plus:
  "rx_first (Rx_Plus p) s = (if takeWhile p s = [] then None else Some ([], dropWhile p s))"
proof (cases s)
  case (Cons c t)
  with greedy_first [of p t] show ?thesis by (auto simp: rx_first_def)
qed (simp add: rx_first_def)

lemma rx_first_Group:
  "rx_first (Rx_Group r) s =
     (case rx_first r s of None \<Rightarrow> None | Some (gs, t) \<Rightarrow> Some (Some (take (length s - length t) s) # gs, t))"
  by (auto simp: rx_first_def split: list.splits)

lemma rx_first_End: "rx_first Rx_End s = (if s = [] then Some ([], []) else None)"
  by (simp add: rx_first_def)

lemma rx_first_Opt_None: "rx_match r s = [] \<Longrightarrow> rx_first (Rx_Opt r) s = Some (replicate (rx_groups r) None, s)"
  by (simp add: rx_first_def)

lemma rx_first_Opt_Some:
  "rx_first r s = Some (gs, t) \<Longrightarrow> length t < length s \<Longrightarrow> rx_first (Rx_Opt r) s = Some (gs, t)"
  by (cases "rx_match r s") (simp_all add: rx_first_def)

text \<open>An optional group that begins with a literal is skipped where that literal is not next.\<close>

lemma rx_first_Opt_Lit:
  "rx_first (Rx_Opt (Rx_Seq (Rx_Lit w) b)) s =
     (if js_startsWith s w then rx_first (Rx_Opt (Rx_Seq (Rx_Lit w) b)) s
      else Some (replicate (rx_groups b) None, s))"
  by (simp add: rx_first_def)

lemma rx_find_here: "rx_first r s = Some m \<Longrightarrow> rx_find r s = Some (s, m)"
  by (subst rx_find.simps) (cases m, simp)

lemma rx_exec_here: "rx_first r s = Some (gs, t) \<Longrightarrow> rx_exec r s = Some gs"
  by (simp add: rx_exec_def rx_find_here)

text \<open>Expressions are written as lists of parts.\<close>

fun rx_cat :: "rx list \<Rightarrow> rx" where
  "rx_cat [] = Rx_Lit []"
| "rx_cat [r] = r"
| "rx_cat (r # r' # rs) = Rx_Seq r (rx_cat (r' # rs))"

text \<open>
  A repetition followed by something that cannot begin with a character of its class does not backtrack.
\<close>

definition rx_stops :: "(nat \<Rightarrow> bool) \<Rightarrow> rx \<Rightarrow> bool" where
  "rx_stops p b \<longleftrightarrow> (\<forall>c t. p c \<longrightarrow> rx_match b (c # t) = [])"

lemma greedy_rests: "t \<in> set (drop 1 (greedy p s)) \<Longrightarrow> \<exists>c u. t = c # u \<and> p c"
proof (induction p s rule: greedy.induct)
  case (2 p c s)
  then show ?case using greedy_first [of p s] by (auto split: if_splits)
qed simp

lemma rx_retry_None_iff:
  "rx_retry a b s = None \<longleftrightarrow> (\<forall>m \<in> set (drop 1 (rx_match a s)). rx_match b (snd m) = [])"
proof -
  have none: "(case xs of [] \<Rightarrow> None | m # _ \<Rightarrow> Some m) = None \<longleftrightarrow> xs = []" for xs :: "(captures \<times> jstr) list"
    by (cases xs) simp_all
  show ?thesis unfolding rx_retry_def none by (auto simp: split_beta)
qed

lemma rx_retry_greedy:
  assumes "rx_stops p b"
  shows "rx_retry (Rx_Star p) b s = None" "rx_retry (Rx_Plus p) b s = None"
    "rx_retry (Rx_Group (Rx_Star p)) b s = None" "rx_retry (Rx_Group (Rx_Plus p)) b s = None"
proof -
  have none: "rx_match b t = []" if "t \<in> set (drop 1 (greedy p u))" for t u
    using greedy_rests [OF that] assms by (auto simp: rx_stops_def)
  show "rx_retry (Rx_Star p) b s = None" "rx_retry (Rx_Group (Rx_Star p)) b s = None"
    using none [of _ s] by (auto simp: rx_retry_None_iff drop_map)
  show "rx_retry (Rx_Plus p) b s = None" "rx_retry (Rx_Group (Rx_Plus p)) b s = None"
    using none [of _ "tl s"] by (cases s; auto simp: rx_retry_None_iff drop_map)+
qed

lemma rx_stops_Lit: "\<not> p d \<Longrightarrow> rx_stops p (Rx_Lit (d # w))"
  by (auto simp: rx_stops_def js_startsWith_def)

lemma rx_stops_Lit_Seq: "\<not> p d \<Longrightarrow> rx_stops p (Rx_Seq (Rx_Lit (d # w)) b)"
  by (auto simp: rx_stops_def js_startsWith_def)

lemma rx_stops_End: "rx_stops p Rx_End"
  by (simp add: rx_stops_def)

end
