(* ===== verification/At_Query.thy ===== *)
theory At_Query imports Regexp begin

text \<open>
  What the modules under \<^verbatim>\<open>packages/core/src/protocols/at/services/\<close> have in common. A method sends a command
  and reads its response, most often the first line only, with a regular expression; a missing line and a
  line that does not match are parse errors that quote the command. A number is a capture of \<open>\d+\<close>, for
  which \<open>parseInt\<close> and \<open>Number\<close> give the value of its digits: \<open>decimal\<close>. A table indexed by numbers is an
  association list.
\<close>

section \<open>Classes of characters\<close>

abbreviation rx_digits :: rx where
  "rx_digits \<equiv> Rx_Group (Rx_Plus rx_digit)"

abbreviation rx_spaces :: rx where
  "rx_spaces \<equiv> Rx_Star js_white"

definition rx_unquoted :: "nat \<Rightarrow> bool" where
  "rx_unquoted c \<longleftrightarrow> c \<noteq> 34"

text \<open>The dot matches everything but line terminators; \<open>\w\<close> is a letter, a digit or an underscore.\<close>

definition rx_dot :: "nat \<Rightarrow> bool" where
  "rx_dot c \<longleftrightarrow> c \<notin> {10, 13, 8232, 8233}"

definition rx_word :: "nat \<Rightarrow> bool" where
  "rx_word c \<longleftrightarrow> 48 \<le> c \<and> c \<le> 57 \<or> 65 \<le> c \<and> c \<le> 90 \<or> 97 \<le> c \<and> c \<le> 122 \<or> c = 95"

text \<open>\<open>"([^"]*)"\<close> and \<open>,"([^"]*)"\<close>; a parameter in quotes, as the modules write it.\<close>

abbreviation rx_quoted :: "jstr \<Rightarrow> rx" where
  "rx_quoted w \<equiv> rx_cat [Rx_Lit (w @ [34]), Rx_Group (Rx_Star rx_unquoted), Rx_Lit [34]]"

definition quoted :: "jstr \<Rightarrow> jstr" where
  "quoted s = 34 # s @ [34]"

abbreviation comma :: jstr where
  "comma \<equiv> js '',''"

section \<open>Numbers\<close>

definition decimal :: "jstr \<Rightarrow> int" where
  "decimal s = int (js_digits_value 10 s)"

lemma decimal_parseInt:
  assumes "list_all rx_digit s" "s \<noteq> []"
  shows "js_parseInt 10 s = Num (decimal s)"
proof -
  obtain c r where s: "s = c # r" using assms(2) by (cases s) auto
  have digit: "js_is_digit 10 x" if "rx_digit x" for x
    using that by (auto simp: rx_digit_def js_is_digit_def js_digit_def)
  with assms(1) have "takeWhile (js_is_digit 10) s = s" by (simp add: takeWhile_eq_all_conv list_all_iff)
  moreover have "\<not> js_white c" "c \<noteq> 45" "c \<noteq> 43"
    using assms(1) s by (auto simp: rx_digit_def js_white_def)
  ultimately show ?thesis
    using s by (simp add: js_parseInt_def js_trimStart_def decimal_def)
qed

lemma decimal_toString [simp]: "decimal (js_toString 10 n) = int n"
  using js_toString_decimal [of n] by (simp add: decimal_def)

lemma show_int_nat [simp]: "js_show_int (int n) = js_toString 10 n"
  by (simp add: js_show_int_def)

lemma toString_digits [simp]: "list_all rx_digit (js_toString 10 n)" "js_toString 10 n \<noteq> []"
  using js_toString_decimal [of n] by (auto simp: list_all_iff rx_digit_def)

section \<open>Commands and responses\<close>

definition query :: "jstr \<Rightarrow> execute_options \<Rightarrow> (jstr list \<Rightarrow> cellary_error + 'a) \<Rightarrow> 'a script" where
  "query cmd opts parse = Exec cmd opts (\<lambda>ls. throwing (parse ls))"

definition command :: "jstr \<Rightarrow> execute_options \<Rightarrow> unit script" where
  "command cmd opts = Exec cmd opts (\<lambda>_. Return ())"

definition with_timeout :: "nat \<Rightarrow> execute_options" where
  "with_timeout ms = no_options\<lparr>opt_timeout := Some ms\<rparr>"

definition first_line :: "jstr \<Rightarrow> jstr list \<Rightarrow> cellary_error + jstr" where
  "first_line name ls =
     (case ls of [] \<Rightarrow> Inl (ParseError (name @ js '' returned no data'') (js_join [10] ls)) | l # _ \<Rightarrow> Inr l)"

definition matched :: "jstr \<Rightarrow> rx \<Rightarrow> jstr \<Rightarrow> cellary_error + captures" where
  "matched name r line =
     (case rx_exec r line of
        None \<Rightarrow> Inl (ParseError (js ''Failed to parse '' @ name @ js '' response'') line)
      | Some gs \<Rightarrow> Inr gs)"

definition nonempty :: "jstr option \<Rightarrow> jstr option" where
  "nonempty s = (if s = Some [] then None else s)"

text \<open>\<open>line.exec\<close> over all lines, keeping what the lines give.\<close>

definition parse_lines :: "(jstr \<Rightarrow> 'a option) \<Rightarrow> jstr list \<Rightarrow> 'a list" where
  "parse_lines f ls = List.map_filter f ls"

lemma parse_lines_print: "(\<And>x. x \<in> set xs \<Longrightarrow> f (print x) = Some (g x)) \<Longrightarrow> parse_lines f (map print xs) = map g xs"
  by (induction xs) (simp_all add: parse_lines_def List.map_filter_simps)

lemma run_query [simp]:
  "run_script (query cmd opts parse) rs =
     ([(cmd, opts)],
      case rs of [] \<Rightarrow> Waiting | Inl e # _ \<Rightarrow> Thrown e
      | Inr ls # _ \<Rightarrow> (case parse ls of Inl e \<Rightarrow> Thrown e | Inr x \<Rightarrow> Returned x))"
  by (auto simp: query_def throwing_def split: list.split sum.split)

lemma run_settled:
  "run_script (script_settled (query cmd opts parse)) rs =
     ([(cmd, opts)],
      case rs of [] \<Rightarrow> Waiting
      | Inr ls # _ \<Rightarrow> Returned (case parse ls of Inl e \<Rightarrow> None | Inr x \<Rightarrow> Some x)
      | Inl e # _ \<Rightarrow> Returned None)"
  by (auto simp: script_settled_def run_script_catch run_script_bind split: list.split sum.split)

lemma run_command [simp]:
  "run_script (command cmd opts) rs =
     ([(cmd, opts)], case rs of [] \<Rightarrow> Waiting | Inl e # _ \<Rightarrow> Thrown e | Inr ls # _ \<Rightarrow> Returned ())"
  by (simp add: command_def split: list.split sum.split)

section \<open>Evaluation\<close>

text \<open>
  The expressions of the modules on the lines that a device prints: how classes and literals cut a string
  whose parts are known.
\<close>

lemma takeWhile_class: "list_all p s \<Longrightarrow> t = [] \<or> \<not> p (hd t) \<Longrightarrow> takeWhile p (s @ t) = s"
  by (cases t) (auto simp: takeWhile_append list_all_iff)

lemma dropWhile_class: "list_all p s \<Longrightarrow> t = [] \<or> \<not> p (hd t) \<Longrightarrow> dropWhile p (s @ t) = t"
  by (cases t) (auto simp: dropWhile_append list_all_iff)

lemma rx_first_digits:
  "list_all rx_digit s \<Longrightarrow> s \<noteq> [] \<Longrightarrow> t = [] \<or> \<not> rx_digit (hd t) \<Longrightarrow> rx_first rx_digits (s @ t) = Some ([Some s], t)"
  by (simp add: rx_first_Group rx_first_Plus takeWhile_class dropWhile_class)

lemma rx_first_number:
  "t = [] \<or> \<not> rx_digit (hd t) \<Longrightarrow> rx_first rx_digits (js_toString 10 n @ t) = Some ([Some (js_toString 10 n)], t)"
  by (simp add: rx_first_digits)

lemma rx_first_unquoted:
  "34 \<notin> set s \<Longrightarrow> rx_first (Rx_Group (Rx_Star rx_unquoted)) (s @ 34 # t) = Some ([Some s], 34 # t)"
proof -
  assume "34 \<notin> set s"
  then have "list_all rx_unquoted s" by (auto simp: list_all_iff rx_unquoted_def)
  then show ?thesis by (simp add: rx_first_Group rx_first_Star takeWhile_class dropWhile_class rx_unquoted_def)
qed

lemma startsWith_Nil [simp]: "js_startsWith s []"
  by (simp add: js_startsWith_def)

lemma startsWith_Cons [simp]: "js_startsWith (c # s) (d # p) \<longleftrightarrow> c = d \<and> js_startsWith s p"
  by (auto simp: js_startsWith_def)

lemma startsWith_empty [simp]: "js_startsWith [] (d # p) = False"
  by (simp add: js_startsWith_def)

text \<open>
  Options with a literal in front: taken, with what the rest of them matches, where the literal is next
  and the rest matches, and skipped where it is not.
\<close>

lemma rx_first_Opt_taken:
  "rx_first (Rx_Opt r) s =
     (case rx_first r s of
        Some (gs, t) \<Rightarrow> (if length t < length s then Some (gs, t) else rx_first (Rx_Opt r) s)
      | None \<Rightarrow> Some (replicate (rx_groups r) None, s))"
proof (cases "rx_first r s")
  case None
  then have "rx_match r s = []" by (simp add: rx_first_def split: list.splits)
  with None show ?thesis by (simp add: rx_first_Opt_None)
next
  case (Some m)
  obtain gs t where "m = (gs, t)" by (cases m)
  with Some show ?thesis by (simp add: rx_first_Opt_Some)
qed

lemmas rx_eval = rx_first_Seq rx_first_Lit rx_first_One rx_first_Opt_taken rx_first_End rx_retry_Lit
  rx_first_number rx_first_unquoted

lemma spaces_before: "rx_first rx_spaces (32 # s) = rx_first rx_spaces s"
  by (simp add: rx_first_Star js_white_def)

lemma spaces_none: "s = [] \<or> \<not> js_white (hd s) \<Longrightarrow> rx_first rx_spaces s = Some ([], s)"
  by (cases s) (simp_all add: rx_first_Star)

lemma number_head: "\<exists>c r. js_toString 10 n = c # r \<and> rx_digit c"
  using toString_digits [of n] by (cases "js_toString 10 n") auto

lemma spaces_number: "rx_first rx_spaces (32 # js_toString 10 n @ t) = Some ([], js_toString 10 n @ t)"
proof -
  obtain c r where "js_toString 10 n = c # r" "rx_digit c" using number_head by blast
  then show ?thesis unfolding spaces_before by (intro spaces_none) (auto simp: js_white_def rx_digit_def)
qed

lemma plus_number:
  "t = [] \<or> \<not> rx_digit (hd t) \<Longrightarrow> rx_first (Rx_Plus rx_digit) (js_toString 10 n @ t) = Some ([], t)"
  by (simp add: rx_first_Plus takeWhile_class dropWhile_class)

lemmas rx_number = spaces_number spaces_number [of _ "[]", simplified] plus_number rx_first_number rx_first_number [of "[]", simplified]
  plus_number [of "[]", simplified]

lemma startsWith_app [simp]: "js_startsWith (p @ s) (p @ q) = js_startsWith s q"
  by (simp add: js_startsWith_def)

lemma not_digit [simp]: "\<not> rx_digit 44" "\<not> rx_digit 34" "\<not> rx_digit 41"
  by (simp_all add: rx_digit_def)

section \<open>Splitting\<close>

text \<open>\<open>split\<close> at a separator of one character.\<close>

fun js_split :: "nat \<Rightarrow> jstr \<Rightarrow> jstr list" where
  "js_split sep [] = [[]]"
| "js_split sep (c # s) =
     (if c = sep then [] # js_split sep s
      else (case js_split sep s of [] \<Rightarrow> [[c]] | w # ws \<Rightarrow> (c # w) # ws))"

lemma js_split_nonempty: "js_split sep s \<noteq> []"
  by (cases s) (auto split: list.split)

lemma js_split_plain: "sep \<notin> set w \<Longrightarrow> js_split sep w = [w]"
  by (induction w) auto

lemma js_split_part: "sep \<notin> set w \<Longrightarrow> js_split sep (w @ sep # s) = w # js_split sep s"
  by (induction w) auto

lemma js_split_join:
  "ws \<noteq> [] \<Longrightarrow> \<forall>w \<in> set ws. sep \<notin> set w \<Longrightarrow> js_split sep (js_join [sep] ws) = ws"
  by (induction "[sep]" ws rule: js_join.induct) (auto simp: js_split_plain js_split_part)

end
