(* ===== verification/At_Network.thy ===== *)
theory At_Network imports At_Query Complex_Main begin

text \<open>
  \<^verbatim>\<open>packages/core/src/protocols/at/services/network.ts\<close>: signal, registration and operators over AT
  commands. Measures of signals are rationals, since the code halves decibels. The vendor's signal command
  of the profile is an argument: its text, and the function that parses its response, which may throw.
  A \<open>partial_signal\<close> distinguishes a key that is absent from one that is present and undefined, as the
  spread \<open>{ ...base, ...enhanced }\<close> does.
\<close>

section \<open>Tables\<close>

datatype registration_status = Not_Registered | Home | Searching | Denied | Status_Unknown | Roaming

definition REGISTRATION_STATUS :: "(int \<times> registration_status) list" where
  "REGISTRATION_STATUS = [(0, Not_Registered), (1, Home), (2, Searching), (3, Denied), (4, Status_Unknown), (5, Roaming)]"

definition ACCESS_TECHNOLOGY :: "(int \<times> jstr) list" where
  "ACCESS_TECHNOLOGY =
     [(0, js ''GSM''), (1, js ''GSM Compact''), (2, js ''3G''), (3, js ''EDGE''), (4, js ''3G HSDPA''),
      (5, js ''3G HSUPA''), (6, js ''3G HSPA+''), (7, js ''LTE''), (11, js ''LTE+NR''), (12, js ''5G''), (13, js ''5G'')]"

datatype operator_status = Op_Unknown | Op_Available | Op_Current | Op_Forbidden

definition COPS_STATUS :: "(int \<times> operator_status) list" where
  "COPS_STATUS = [(0, Op_Unknown), (1, Op_Available), (2, Op_Current), (3, Op_Forbidden)]"

definition technology_of :: "jstr option \<Rightarrow> jstr option" where
  "technology_of act = (case act of None \<Rightarrow> None | Some s \<Rightarrow> map_of ACCESS_TECHNOLOGY (decimal s))"

section \<open>Signal\<close>

record signal_info =
  sig_rssi :: "rat option"
  sig_bitErrorRate :: int
  sig_technology :: "jstr option"
  sig_rsrp :: "rat option"
  sig_rsrq :: "rat option"
  sig_sinr :: "rat option"
  sig_band :: "jstr option"
  sig_rscp :: "rat option"
  sig_ecno :: "rat option"

record partial_signal =
  new_rssi :: "rat option option"
  new_technology :: "jstr option option"
  new_rsrp :: "rat option option"
  new_rsrq :: "rat option option"
  new_sinr :: "rat option option"
  new_band :: "jstr option option"
  new_rscp :: "rat option option"
  new_ecno :: "rat option option"

definition no_signal :: partial_signal where
  "no_signal = \<lparr>new_rssi = None, new_technology = None, new_rsrp = None, new_rsrq = None, new_sinr = None,
     new_band = None, new_rscp = None, new_ecno = None\<rparr>"

definition spread_signal :: "signal_info \<Rightarrow> partial_signal \<Rightarrow> signal_info" where
  "spread_signal base p =
     \<lparr>sig_rssi = or_else (new_rssi p) (sig_rssi base), sig_bitErrorRate = sig_bitErrorRate base,
      sig_technology = or_else (new_technology p) (sig_technology base),
      sig_rsrp = or_else (new_rsrp p) (sig_rsrp base), sig_rsrq = or_else (new_rsrq p) (sig_rsrq base),
      sig_sinr = or_else (new_sinr p) (sig_sinr base), sig_band = or_else (new_band p) (sig_band base),
      sig_rscp = or_else (new_rscp p) (sig_rscp base), sig_ecno = or_else (new_ecno p) (sig_ecno base)\<rparr>"

definition CSQ_REGEX :: rx where
  "CSQ_REGEX = rx_cat [Rx_Lit (js ''+CSQ:''), rx_spaces, rx_digits, Rx_Lit comma, rx_digits]"

definition CESQ_REGEX :: rx where
  "CESQ_REGEX = rx_cat [Rx_Lit (js ''+CESQ:''), rx_spaces, rx_digits, Rx_Lit comma, rx_digits, Rx_Lit comma,
     rx_digits, Rx_Lit comma, rx_digits, Rx_Lit comma, rx_digits, Rx_Lit comma, rx_digits]"

definition parse_csq :: "jstr list \<Rightarrow> cellary_error + signal_info" where
  "parse_csq ls =
     ebind (first_line (js ''AT+CSQ'') ls) (\<lambda>line.
     ebind (matched (js ''AT+CSQ'') CSQ_REGEX line) (\<lambda>gs.
       case gs of
         [Some rawRssi, Some ber] \<Rightarrow>
           Inr \<lparr>sig_rssi = (if decimal rawRssi = 99 then None else Some (of_int (- 113 + decimal rawRssi * 2))),
             sig_bitErrorRate = decimal ber, sig_technology = None, sig_rsrp = None, sig_rsrq = None,
             sig_sinr = None, sig_band = None, sig_rscp = None, sig_ecno = None\<rparr>
       | _ \<Rightarrow> Inl (ParseError (js ''Incomplete AT+CSQ response'') line)))"

definition standardSignal :: "signal_info script" where
  "standardSignal = query (js ''AT+CSQ'') no_options parse_csq"

definition cesq_values :: "int \<Rightarrow> int \<Rightarrow> int \<Rightarrow> int \<Rightarrow> int \<Rightarrow> partial_signal option" where
  "cesq_values rxlev rscp ecno rsrq rsrp =
     (if rsrp \<noteq> 255
      then Some (no_signal\<lparr>new_technology := Some (Some (js ''LTE'')), new_rsrp := Some (Some (of_int (- 140 + rsrp))),
        new_rsrq := Some (if rsrq \<noteq> 255 then Some (- 39 / 2 + of_int rsrq / 2) else None)\<rparr>)
      else if rscp \<noteq> 255
      then Some (no_signal\<lparr>new_technology := Some (Some (js ''3G'')), new_rscp := Some (Some (of_int (- 120 + rscp))),
        new_ecno := Some (if ecno \<noteq> 255 then Some (- 24 + of_int ecno / 2) else None)\<rparr>)
      else if rxlev \<noteq> 99
      then Some (no_signal\<lparr>new_technology := Some (Some (js ''GSM'')), new_rssi := Some (Some (of_int (- 110 + rxlev)))\<rparr>)
      else None)"

definition parse_cesq :: "jstr list \<Rightarrow> partial_signal option" where
  "parse_cesq ls =
     (case ls of
        [] \<Rightarrow> None
      | line # _ \<Rightarrow>
          (case rx_exec CESQ_REGEX line of
             Some [Some rxlev, _, Some rscp, Some ecno, Some rsrq, Some rsrp] \<Rightarrow>
               cesq_values (decimal rxlev) (decimal rscp) (decimal ecno) (decimal rsrq) (decimal rsrp)
           | _ \<Rightarrow> None))"

definition cesqSignal :: "partial_signal option script" where
  "cesqSignal = script_catch (query (js ''AT+CESQ'') no_options (\<lambda>ls. Inr (parse_cesq ls))) (\<lambda>_. Return None)"

type_synonym signal_config = "(jstr \<times> (jstr list \<Rightarrow> cellary_error + partial_signal)) option"

definition signal :: "signal_config \<Rightarrow> signal_info script" where
  "signal config =
     script_bind standardSignal (\<lambda>base.
       let fallback = script_bind cesqSignal (\<lambda>cesq.
             Return (case cesq of Some p \<Rightarrow> spread_signal base p | None \<Rightarrow> base))
       in case config of
            None \<Rightarrow> fallback
          | Some (cmd, parse) \<Rightarrow>
              script_catch (script_bind (query cmd no_options parse) (\<lambda>p. Return (spread_signal base p))) (\<lambda>_. fallback))"

section \<open>Registration\<close>

record registration_info =
  reg_status :: registration_status
  reg_locationAreaCode :: "jstr option"
  reg_cellId :: "jstr option"
  reg_technology :: "jstr option"

definition registration_regex :: "jstr \<Rightarrow> rx" where
  "registration_regex prefix =
     rx_cat [Rx_Lit prefix, rx_spaces, Rx_Plus rx_digit, Rx_Lit comma, rx_digits,
       Rx_Opt (rx_cat [rx_quoted comma,
         Rx_Opt (rx_cat [rx_quoted comma,
           Rx_Opt (rx_cat [Rx_Lit comma, rx_digits])])])]"

definition CREG_REGEX :: rx where "CREG_REGEX = registration_regex (js ''+CREG:'')"
definition CGREG_REGEX :: rx where "CGREG_REGEX = registration_regex (js ''+CGREG:'')"
definition CEREG_REGEX :: rx where "CEREG_REGEX = registration_regex (js ''+CEREG:'')"

definition COPS_REGEX :: rx where
  "COPS_REGEX =
     rx_cat [Rx_Lit (js ''+COPS:''), rx_spaces, Rx_Plus rx_digit,
       Rx_Opt (rx_cat [Rx_Lit comma, Rx_Plus rx_digit, rx_quoted comma,
         Rx_Opt (rx_cat [Rx_Lit comma, rx_digits])])]"

text \<open>\<open>/^0+$/\<close>: the modem has not decoded the cell yet.\<close>

definition all_zeros :: "jstr \<Rightarrow> bool" where
  "all_zeros s \<longleftrightarrow> s \<noteq> [] \<and> list_all (\<lambda>c. c = 48) s"

definition known_cell :: "jstr option \<Rightarrow> jstr option" where
  "known_cell cell =
     (case cell of None \<Rightarrow> None | Some s \<Rightarrow> if s \<noteq> [] \<and> \<not> all_zeros s then Some s else None)"

definition parseRegistrationLine :: "jstr \<Rightarrow> rx \<Rightarrow> jstr \<Rightarrow> cellary_error + registration_info" where
  "parseRegistrationLine line regex commandName =
     ebind (matched commandName regex line) (\<lambda>gs.
       case gs of
         [Some stat, lac, cell, act] \<Rightarrow>
           Inr (if nonempty lac \<noteq> None
                then \<lparr>reg_status = or_else (map_of REGISTRATION_STATUS (decimal stat)) Status_Unknown,
                  reg_locationAreaCode = lac, reg_cellId = known_cell cell, reg_technology = technology_of act\<rparr>
                else \<lparr>reg_status = or_else (map_of REGISTRATION_STATUS (decimal stat)) Status_Unknown,
                  reg_locationAreaCode = None, reg_cellId = None, reg_technology = technology_of act\<rparr>)
       | _ \<Rightarrow> Inl (ParseError (commandName @ js '' missing status code'') line))"

definition parse_registration :: "jstr \<Rightarrow> rx \<Rightarrow> jstr list \<Rightarrow> cellary_error + registration_info" where
  "parse_registration name regex ls =
     ebind (first_line name ls) (\<lambda>line. parseRegistrationLine line regex name)"

definition cops_technology :: "jstr list \<Rightarrow> jstr option" where
  "cops_technology ls =
     (case ls of
        [] \<Rightarrow> None
      | line # _ \<Rightarrow>
          (case rx_exec COPS_REGEX line of
             Some [_, act] \<Rightarrow> technology_of act
           | _ \<Rightarrow> None))"

definition technologyFromCops :: "jstr option script" where
  "technologyFromCops =
     script_catch (query (js ''AT+COPS?'') no_options (\<lambda>ls. Inr (cops_technology ls))) (\<lambda>_. Return None)"

definition registration :: "registration_info script" where
  "registration =
     script_bind (query (js ''AT+CREG?'') no_options (parse_registration (js ''AT+CREG?'') CREG_REGEX)) (\<lambda>info.
       if reg_technology info = None
       then script_bind technologyFromCops (\<lambda>act. Return (info\<lparr>reg_technology := act\<rparr>))
       else Return info)"

definition epsRegistration :: "registration_info script" where
  "epsRegistration = query (js ''AT+CEREG?'') no_options (parse_registration (js ''AT+CEREG?'') CEREG_REGEX)"

definition gprsRegistration :: "registration_info script" where
  "gprsRegistration = query (js ''AT+CGREG?'') no_options (parse_registration (js ''AT+CGREG?'') CGREG_REGEX)"

section \<open>Operators\<close>

definition parse_operator :: "jstr list \<Rightarrow> cellary_error + jstr option" where
  "parse_operator ls =
     ebind (first_line (js ''AT+COPS?'') ls) (\<lambda>line.
     ebind (matched (js ''AT+COPS?'') COPS_REGEX line) (\<lambda>gs. Inr (gs ! 0)))"

definition operator :: "jstr option script" where
  "operator =
     script_bind (command (js ''AT+COPS=3,0'') no_options) (\<lambda>_.
       query (js ''AT+COPS?'') no_options parse_operator)"

record available_network =
  net_status :: operator_status
  net_name :: jstr
  net_shortName :: jstr
  net_numeric :: jstr
  net_technology :: "jstr option"

definition COPS_SCAN_ENTRY :: rx where
  "COPS_SCAN_ENTRY =
     rx_cat [Rx_Lit (js ''(''), rx_digits, rx_quoted comma, rx_quoted comma,
       Rx_Lit (comma @ [34]), rx_digits, Rx_Lit [34],
       Rx_Opt (rx_cat [Rx_Lit comma, rx_digits]), Rx_Lit (js '')'')]"

fun scanned_network :: "captures \<Rightarrow> available_network option" where
  "scanned_network [Some stat, Some name, Some shortName, Some numeric, act] =
     Some \<lparr>net_status = or_else (map_of COPS_STATUS (decimal stat)) Op_Unknown, net_name = name,
       net_shortName = shortName, net_numeric = numeric, net_technology = technology_of act\<rparr>"
| "scanned_network _ = None"

definition parse_scan :: "jstr list \<Rightarrow> available_network list" where
  "parse_scan ls = List.map_filter scanned_network (rx_matchAll COPS_SCAN_ENTRY (concat ls))"

definition scan :: "available_network list script" where
  "scan = query (js ''AT+COPS=?'') no_options (\<lambda>ls. Inr (parse_scan ls))"

definition selectOperator :: "jstr \<Rightarrow> unit script" where
  "selectOperator plmn = command (js ''AT+COPS=1,2,'' @ quoted plmn) no_options"

definition selectAutomatic :: "unit script" where
  "selectAutomatic = command (js ''AT+COPS=0'') no_options"

definition COPN_REGEX :: rx where
  "COPN_REGEX = rx_cat [Rx_Lit (js ''+COPN:''), rx_spaces, Rx_Lit [34], rx_digits, Rx_Lit [34], rx_quoted comma]"

definition operator_name :: "jstr \<Rightarrow> (jstr \<times> jstr) option" where
  "operator_name line =
     (case rx_exec COPN_REGEX line of Some [Some numeric, Some name] \<Rightarrow> Some (numeric, name) | _ \<Rightarrow> None)"

definition operatorNames :: "(jstr \<times> jstr) list script" where
  "operatorNames = query (js ''AT+COPN'') no_options (\<lambda>ls. Inr (parse_lines operator_name ls))"

section \<open>Preferred operators\<close>

record preferred_operator =
  pref_index :: int
  pref_numeric :: jstr
  pref_gsm :: bool
  pref_utran :: bool
  pref_eutran :: bool
  pref_nr :: "bool option"

definition CPOL_REGEX :: rx where
  "CPOL_REGEX =
     rx_cat [Rx_Lit (js ''+CPOL:''), rx_spaces, rx_digits, Rx_Lit comma, rx_digits,
       Rx_Lit (comma @ [34]), Rx_Group (Rx_Plus rx_unquoted), Rx_Lit [34], Rx_Lit comma, rx_digits, Rx_Lit comma,
       rx_digits, Rx_Lit comma, rx_digits, Rx_Lit comma, rx_digits, Rx_Opt (rx_cat [Rx_Lit comma, rx_digits])]"

definition preferred_line :: "jstr \<Rightarrow> preferred_operator option" where
  "preferred_line line =
     (case rx_exec CPOL_REGEX line of
        Some [Some index, _, Some numeric, Some gsm, _, Some utran, Some eutran, nr] \<Rightarrow>
          Some \<lparr>pref_index = decimal index, pref_numeric = numeric, pref_gsm = (gsm = js ''1''),
            pref_utran = (utran = js ''1''), pref_eutran = (eutran = js ''1''),
            pref_nr = map_option (\<lambda>s. s = js ''1'') nr\<rparr>
      | _ \<Rightarrow> None)"

definition preferredOperators :: "preferred_operator list script" where
  "preferredOperators =
     script_bind (command (js ''AT+CPOL=,2'') no_options) (\<lambda>_.
       query (js ''AT+CPOL?'') no_options (\<lambda>ls. Inr (parse_lines preferred_line ls)))"

definition flag :: "bool \<Rightarrow> jstr" where
  "flag b = (if b then js ''1'' else js ''0'')"

definition preferred_arguments :: "int \<Rightarrow> jstr \<Rightarrow> bool option \<Rightarrow> bool option \<Rightarrow> bool option \<Rightarrow> jstr" where
  "preferred_arguments index numeric gsm utran eutran =
     js_show_int index @ js '',2,'' @ quoted numeric @ comma @ flag (gsm = Some True) @ js '',0,''
       @ flag (utran = Some True) @ comma @ flag (eutran = Some True)"

definition setPreferredOperator :: "int \<Rightarrow> jstr \<Rightarrow> bool option \<Rightarrow> bool option \<Rightarrow> bool option \<Rightarrow> unit script" where
  "setPreferredOperator index numeric gsm utran eutran =
     command (js ''AT+CPOL='' @ preferred_arguments index numeric gsm utran eutran) no_options"

definition removePreferredOperator :: "int \<Rightarrow> unit script" where
  "removePreferredOperator index = command (js ''AT+CPOL='' @ js_show_int index) no_options"

end
