(* ===== verification/At_Network_Props.thy ===== *)
theory At_Network_Props imports At_Network begin

text \<open>
  What the network service makes of the responses a device prints: registration with its fallback to
  \<open>+COPS\<close>, the list of a scan, the preferred operators that the service wrote itself.
\<close>

section \<open>Registration\<close>

type_synonym location = "(jstr \<times> (jstr \<times> nat option) option) option"

text \<open>The line of 3GPP TS 27.007: \<open>+CREG: <n>,<stat>[,"<lac>"[,"<ci>"[,<AcT>]]]\<close>.\<close>

definition print_location :: "location \<Rightarrow> jstr" where
  "print_location loc =
     (case loc of None \<Rightarrow> []
      | Some (lac, more_of) \<Rightarrow> comma @ quoted lac @
          (case more_of of None \<Rightarrow> []
           | Some (cell, act) \<Rightarrow> comma @ quoted cell @
               (case act of None \<Rightarrow> [] | Some a \<Rightarrow> comma @ js_toString 10 a)))"

definition print_registration :: "jstr \<Rightarrow> nat \<Rightarrow> nat \<Rightarrow> location \<Rightarrow> jstr" where
  "print_registration prefix n stat loc =
     prefix @ 32 # js_toString 10 n @ comma @ js_toString 10 stat @ print_location loc"

definition no_quotes :: "location \<Rightarrow> bool" where
  "no_quotes loc =
     (case loc of None \<Rightarrow> True
      | Some (lac, more_of) \<Rightarrow> 34 \<notin> set lac \<and> (case more_of of None \<Rightarrow> True | Some (cell, act) \<Rightarrow> 34 \<notin> set cell))"

definition location_captures :: "location \<Rightarrow> captures" where
  "location_captures loc =
     (case loc of None \<Rightarrow> [None, None, None]
      | Some (lac, None) \<Rightarrow> [Some lac, None, None]
      | Some (lac, Some (cell, act)) \<Rightarrow> [Some lac, Some cell, map_option (js_toString 10) act])"

lemma registration_match:
  assumes "no_quotes loc"
  shows "rx_exec (registration_regex prefix) (print_registration prefix n stat loc) =
    Some (Some (js_toString 10 stat) # location_captures loc)"
proof (rule rx_exec_here)
  have loc: "loc = None \<or> (\<exists>lac. loc = Some (lac, None)) \<or> (\<exists>lac cell. loc = Some (lac, Some (cell, None)))
      \<or> (\<exists>lac cell a. loc = Some (lac, Some (cell, Some a)))"
    by (metis not_None_eq surj_pair)
  show "rx_first (registration_regex prefix) (print_registration prefix n stat loc) =
      Some (Some (js_toString 10 stat) # location_captures loc, [])"
    using assms loc unfolding no_quotes_def
    by (elim disjE exE)
      (simp_all add: registration_regex_def print_registration_def print_location_def location_captures_def
        quoted_def rx_eval rx_number js_def)
qed

text \<open>What the line says, read off its fields.\<close>

definition reported :: "nat \<Rightarrow> location \<Rightarrow> registration_info" where
  "reported stat loc =
     \<lparr>reg_status = or_else (map_of REGISTRATION_STATUS (int stat)) Status_Unknown,
      reg_locationAreaCode = (case loc of None \<Rightarrow> None | Some (lac, _) \<Rightarrow> if lac = [] then None else Some lac),
      reg_cellId = (case loc of Some (lac, Some (cell, _)) \<Rightarrow>
          if lac \<noteq> [] \<and> cell \<noteq> [] \<and> (\<exists>c \<in> set cell. c \<noteq> 48) then Some cell else None | _ \<Rightarrow> None),
      reg_technology = (case loc of Some (_, Some (_, Some act)) \<Rightarrow> map_of ACCESS_TECHNOLOGY (int act) | _ \<Rightarrow> None)\<rparr>"

lemma registration_parsed:
  assumes "no_quotes loc"
  shows "parse_registration name (registration_regex prefix) (print_registration prefix n stat loc # ls) = Inr (reported stat loc)"
  by (auto simp: parse_registration_def first_line_def parseRegistrationLine_def matched_def
      registration_match [OF assms] location_captures_def reported_def technology_of_def nonempty_def
      known_cell_def all_zeros_def list_all_iff split: option.split)

lemma run_technologyFromCops:
  "run_script technologyFromCops rs =
     ([(js ''AT+COPS?'', no_options)],
      case rs of [] \<Rightarrow> Waiting | Inl e # _ \<Rightarrow> Returned None | Inr ls # _ \<Rightarrow> Returned (cops_technology ls))"
  by (auto simp: technologyFromCops_def run_script_catch split: list.split sum.split)

text \<open>The registration is the one the modem reports, for every combination of fields that
  \<open>+CREG\<close> may leave out; only when the line names no known access technology is \<open>+COPS?\<close> asked for it, and
  neither an error nor an unreadable answer of that command loses the registration.
\<close>

theorem registration_falls_back:
  assumes "no_quotes loc"
  shows "run_script registration (Inr (print_registration (js ''+CREG:'') n stat loc # ls) # rs) =
    (if reg_technology (reported stat loc) \<noteq> None
     then ([(js ''AT+CREG?'', no_options)], Returned (reported stat loc))
     else ([(js ''AT+CREG?'', no_options), (js ''AT+COPS?'', no_options)],
       case rs of [] \<Rightarrow> Waiting
       | Inl e # _ \<Rightarrow> Returned (reported stat loc)
       | Inr cops # _ \<Rightarrow> Returned ((reported stat loc)\<lparr>reg_technology := cops_technology cops\<rparr>)))"
proof -
  have same: "reg_technology info = None \<Longrightarrow> info\<lparr>reg_technology := None\<rparr> = info" for info :: registration_info
    by (cases info) simp
  show ?thesis
    unfolding registration_def CREG_REGEX_def run_script_bind
    by (auto simp: run_script_bind registration_parsed [OF assms] run_technologyFromCops same split: list.split sum.split)
qed

lemma registration_falls_back_witness:
  "no_quotes (Some (js ''1A2B'', Some (js ''00000000'', None))) \<and>
   run_script registration [Inr [print_registration (js ''+CREG:'') 2 5 (Some (js ''1A2B'', Some (js ''00000000'', None)))], Inl (OtherError [])] =
     ([(js ''AT+CREG?'', no_options), (js ''AT+COPS?'', no_options)],
      Returned \<lparr>reg_status = Roaming, reg_locationAreaCode = Some (js ''1A2B''), reg_cellId = None, reg_technology = None\<rparr>)"
proof -
  have q: "no_quotes (Some (js ''1A2B'', Some (js ''00000000'', None)))"
    by (simp add: no_quotes_def js_def)
  show ?thesis
    using registration_falls_back [OF q, of 2 5 "[]" "[Inl (OtherError [])]"] q
    by (simp add: reported_def REGISTRATION_STATUS_def or_else_def js_def)
qed

section \<open>Scanning\<close>

record scan_entry =
  ent_status :: nat
  ent_name :: jstr
  ent_short :: jstr
  ent_numeric :: nat
  ent_act :: "nat option"

definition print_entry :: "scan_entry \<Rightarrow> jstr" where
  "print_entry e =
     js ''('' @ js_toString 10 (ent_status e) @ comma @ quoted (ent_name e) @ comma @ quoted (ent_short e) @ comma
       @ quoted (js_toString 10 (ent_numeric e))
       @ (case ent_act e of None \<Rightarrow> [] | Some a \<Rightarrow> comma @ js_toString 10 a) @ js '')''"

definition entry_ok :: "scan_entry \<Rightarrow> bool" where
  "entry_ok e \<longleftrightarrow> 34 \<notin> set (ent_name e) \<and> 34 \<notin> set (ent_short e)"

definition entry_captures :: "scan_entry \<Rightarrow> captures" where
  "entry_captures e =
     [Some (js_toString 10 (ent_status e)), Some (ent_name e), Some (ent_short e),
      Some (js_toString 10 (ent_numeric e)), map_option (js_toString 10) (ent_act e)]"

definition entry_network :: "scan_entry \<Rightarrow> available_network" where
  "entry_network e =
     \<lparr>net_status = or_else (map_of COPS_STATUS (int (ent_status e))) Op_Unknown, net_name = ent_name e,
      net_shortName = ent_short e, net_numeric = js_toString 10 (ent_numeric e),
      net_technology = (case ent_act e of None \<Rightarrow> None | Some a \<Rightarrow> map_of ACCESS_TECHNOLOGY (int a))\<rparr>"

lemma entry_match:
  assumes "entry_ok e"
  shows "rx_first COPS_SCAN_ENTRY (print_entry e @ t) = Some (entry_captures e, t)"
  using assms
  by (cases "ent_act e")
    (simp_all add: COPS_SCAN_ENTRY_def print_entry_def entry_captures_def entry_ok_def quoted_def rx_eval rx_number js_def)

lemma matchAll_find: "rx_find r s = rx_find r s' \<Longrightarrow> rx_matchAll r s = rx_matchAll r s'"
  by (subst (1 2) rx_matchAll.simps) simp

lemma scan_skip: "40 \<notin> set p \<Longrightarrow> rx_matchAll COPS_SCAN_ENTRY (p @ s) = rx_matchAll COPS_SCAN_ENTRY s"
proof (rule matchAll_find, induction p)
  case (Cons c p)
  then have "rx_first COPS_SCAN_ENTRY (c # p @ s) = None"
    by (simp add: COPS_SCAN_ENTRY_def rx_eval js_def)
  with Cons show ?case by (subst (1) rx_find.simps) simp
qed simp

lemma scan_entry:
  assumes "entry_ok e"
  shows "rx_matchAll COPS_SCAN_ENTRY (print_entry e @ t) = entry_captures e # rx_matchAll COPS_SCAN_ENTRY t"
proof -
  have "length t < length (print_entry e @ t)" by (simp add: print_entry_def)
  then show ?thesis
    by (subst (1) rx_matchAll.simps) (simp add: rx_find_here [OF entry_match [OF assms]])
qed

lemma scan_entries:
  "\<forall>e \<in> set es. entry_ok e \<Longrightarrow>
    rx_matchAll COPS_SCAN_ENTRY (js_join comma (map print_entry es) @ t) =
      map entry_captures es @ rx_matchAll COPS_SCAN_ENTRY t"
proof (induction es)
  case (Cons e es)
  show ?case
  proof (cases es)
    case Nil
    then show ?thesis using Cons.prems by (simp add: scan_entry)
  next
    case (Cons f fs)
    have "40 \<notin> set comma" by (simp add: js_def)
    then show ?thesis using Cons.IH Cons.prems \<open>es = f # fs\<close> by (simp add: scan_entry scan_skip)
  qed
qed simp

text \<open>A scan returns every network of the response, in its order and with its fields, however the modem
  breaks the response into lines, and takes nothing from the lists of modes and formats behind it.
\<close>

theorem scan_complete:
  assumes "\<forall>e \<in> set es. entry_ok e"
    and "concat ls = js ''+COPS: '' @ js_join comma (map print_entry es) @ js '',,(0,1,2,3,4),(0,1,2)''"
  shows "run_script scan (Inr ls # rs) = ([(js ''AT+COPS=?'', no_options)], Returned (map entry_network es))"
proof -
  have none: "rx_matchAll COPS_SCAN_ENTRY (js '',,(0,1,2,3,4),(0,1,2)'') = []"
    by code_simp
  have "40 \<notin> set (js ''+COPS: '')" by (simp add: js_def)
  then have "rx_matchAll COPS_SCAN_ENTRY (concat ls) = map entry_captures es"
    using assms none by (simp add: scan_skip scan_entries)
  moreover have "scanned_network (entry_captures e) = Some (entry_network e)" for e
    by (simp add: entry_captures_def entry_network_def technology_of_def split: option.split)
  then have "List.map_filter scanned_network (map entry_captures es) = map entry_network es"
    by (induction es) (simp_all add: List.map_filter_simps)
  ultimately show ?thesis by (simp add: scan_def parse_scan_def)
qed

lemma scan_complete_witness:
  "\<exists>net. run_script scan [Inr [js ''+COPS: (2,\"A\",\"B\",'', js ''\"28310\",7),,(0,1,2,3,4),(0,1,2)'']] =
      ([(js ''AT+COPS=?'', no_options)], Returned [net]) \<and> net_status net = Op_Current \<and> net_name net = js ''A''"
proof -
  let ?e = "\<lparr>ent_status = 2, ent_name = js ''A'', ent_short = js ''B'', ent_numeric = 28310, ent_act = Some 7\<rparr>"
  let ?ls = "[js ''+COPS: (2,\"A\",\"B\",'', js ''\"28310\",7),,(0,1,2,3,4),(0,1,2)'']"
  have ok: "\<forall>e \<in> set [?e]. entry_ok e" by (simp add: entry_ok_def js_def)
  have "concat ?ls = js ''+COPS: '' @ js_join comma (map print_entry [?e]) @ js '',,(0,1,2,3,4),(0,1,2)''"
    by (simp add: js_def print_entry_def quoted_def js_toString_step)
  from scan_complete [OF ok this, of "[]"] show ?thesis
    by (simp add: entry_network_def COPS_STATUS_def or_else_def)
qed

section \<open>Preferred operators\<close>

text \<open>An entry of the preferred list that the service wrote is the entry it reads back, from a
  SIM that keeps the arguments of \<open>AT+CPOL\<close> and prints them in its listing.
\<close>

theorem preferred_round_trip:
  assumes "\<forall>(index, numeric, gsm, utran, eutran) \<in> set es. numeric \<noteq> [] \<and> 34 \<notin> set numeric"
  shows "run_script preferredOperators
      [Inr [], Inr (map (\<lambda>(index, numeric, gsm, utran, eutran).
         js ''+CPOL: '' @ preferred_arguments (int index) numeric gsm utran eutran) es)] =
    ([(js ''AT+CPOL=,2'', no_options), (js ''AT+CPOL?'', no_options)],
     Returned (map (\<lambda>(index, numeric, gsm, utran, eutran).
       \<lparr>pref_index = int index, pref_numeric = numeric, pref_gsm = (gsm = Some True), pref_utran = (utran = Some True),
        pref_eutran = (eutran = Some True), pref_nr = None\<rparr>) es))"
proof -
  have unquoted: "rx_first (Rx_Group (Rx_Plus rx_unquoted)) (s @ 34 # t) = Some ([Some s], 34 # t)"
    if "s \<noteq> []" "34 \<notin> set s" for s t
  proof -
    have "list_all rx_unquoted s" using that(2) by (auto simp: list_all_iff rx_unquoted_def)
    with that(1) show ?thesis
      by (simp add: rx_first_Group rx_first_Plus takeWhile_class dropWhile_class rx_unquoted_def)
  qed
  have flags: "rx_first rx_digits (flag b @ t) = Some ([Some (flag b)], t)" if "t = [] \<or> \<not> rx_digit (hd t)" for b t
    using that by (intro rx_first_digits) (simp_all add: flag_def js_def rx_digit_def)
  have flag1: "flag b = js ''1'' \<longleftrightarrow> b" for b by (simp add: flag_def js_def)
  have line: "preferred_line (js ''+CPOL: '' @ preferred_arguments (int index) numeric gsm utran eutran) =
      Some \<lparr>pref_index = int index, pref_numeric = numeric, pref_gsm = (gsm = Some True), pref_utran = (utran = Some True),
        pref_eutran = (eutran = Some True), pref_nr = None\<rparr>"
    if "numeric \<noteq> []" "34 \<notin> set numeric" for index numeric gsm utran eutran
  proof -
    have digit: "rx_first rx_digits (50 # 44 # t) = Some ([Some [50]], 44 # t)"
      "rx_first rx_digits (48 # 44 # t) = Some ([Some [48]], 44 # t)" for t
      by (simp_all add: rx_first_Group rx_first_Plus rx_digit_def)
    have "rx_exec CPOL_REGEX (js ''+CPOL: '' @ preferred_arguments (int index) numeric gsm utran eutran) =
        Some [Some (js_toString 10 index), Some (js ''2''), Some numeric, Some (flag (gsm = Some True)), Some (js ''0''),
          Some (flag (utran = Some True)), Some (flag (eutran = Some True)), None]"
      by (rule rx_exec_here [where t = "[]"])
        (simp add: CPOL_REGEX_def preferred_arguments_def js_show_int_def quoted_def rx_eval rx_number unquoted [OF that]
          flags flags [of "[]", simplified] digit js_def)
    then show ?thesis by (simp add: preferred_line_def flag1)
  qed
  have "parse_lines preferred_line (map (\<lambda>(index, numeric, gsm, utran, eutran).
         js ''+CPOL: '' @ preferred_arguments (int index) numeric gsm utran eutran) es) =
      map (\<lambda>(index, numeric, gsm, utran, eutran).
       \<lparr>pref_index = int index, pref_numeric = numeric, pref_gsm = (gsm = Some True), pref_utran = (utran = Some True),
        pref_eutran = (eutran = Some True), pref_nr = None\<rparr>) es"
    by (rule parse_lines_print) (use assms line in auto)
  then show ?thesis by (simp add: preferredOperators_def run_script_bind command_def)
qed

lemma preferred_round_trip_witness:
  "run_script preferredOperators [Inr [], Inr [js ''+CPOL: 1,2,\"28310\",1,0,0,1'']] =
     ([(js ''AT+CPOL=,2'', no_options), (js ''AT+CPOL?'', no_options)],
      Returned [\<lparr>pref_index = 1, pref_numeric = js ''28310'', pref_gsm = True, pref_utran = False, pref_eutran = True, pref_nr = None\<rparr>])"
proof -
  have line: "js ''+CPOL: '' @ preferred_arguments (int 1) (js ''28310'') (Some True) None (Some True) = js ''+CPOL: 1,2,\"28310\",1,0,0,1''"
    by (simp add: js_def preferred_arguments_def js_show_int_def quoted_def flag_def)
  have ok: "\<forall>(index, numeric, gsm, utran, eutran) \<in> set [(1 :: nat, js ''28310'', Some True, None :: bool option, Some True)]. numeric \<noteq> [] \<and> 34 \<notin> set numeric"
    by (simp add: js_def)
  show ?thesis using preferred_round_trip [OF ok] line by simp
qed

end
