(* ===== verification/At_Sim.thy ===== *)
theory At_Sim imports At_Query Mask begin

text \<open>
  \<^verbatim>\<open>packages/core/src/protocols/at/services/sim.ts\<close> and \<^verbatim>\<open>packages/core/src/protocols/iccid.ts\<close>. The state of
  the module is the flag that the initialization learned that no card is inserted; the vendor's command
  for the serial number is an argument. The three queries that \<open>info\<close> sends with \<open>Promise.allSettled\<close> are
  queued in the order of the calls, and are commands whose errors are dropped.
\<close>

section \<open>Serial numbers\<close>

definition normalizeIccid :: "jstr \<Rightarrow> cellary_error + jstr" where
  "normalizeIccid padded =
     (let stripped = rev (dropWhile (\<lambda>c. \<not> rx_digit c) (rev padded))
      in if stripped = [] then Inl (ParseError (js ''ICCID contains only padding bytes (no valid digits)'') padded)
         else Inr stripped)"

section \<open>The module\<close>

datatype sim_state = Sim_Ready | Pin_Required | Puk_Required | Network_Locked | Sim_Absent | Sim_Error

definition SIM_STATES :: "(jstr \<times> sim_state) list" where
  "SIM_STATES = [(js ''READY'', Sim_Ready), (js ''SIM PIN'', Pin_Required), (js ''SIM PUK'', Puk_Required),
     (js ''PH-NET PIN'', Network_Locked)]"

definition ICCID_PREFIX_REGEX :: rx where
  "ICCID_PREFIX_REGEX = rx_cat [Rx_Opt (Rx_One (\<lambda>c. c = 43 \<or> c = 94)), Rx_Plus rx_word, Rx_Lit (js '':''), rx_spaces,
     Rx_Group (Rx_Plus rx_dot), Rx_End]"

definition CPIN_REGEX :: rx where
  "CPIN_REGEX = rx_cat [Rx_Lit (js ''+CPIN:''), rx_spaces, Rx_Group (Rx_Plus rx_dot)]"

definition COPS_OPER_REGEX :: rx where
  "COPS_OPER_REGEX = rx_cat [Rx_Lit (js ''+COPS:''), rx_spaces, Rx_Plus rx_digit,
     Rx_Opt (rx_cat [Rx_Lit comma, Rx_Plus rx_digit, rx_quoted comma])]"

definition CNUM_REGEX :: rx where
  "CNUM_REGEX = rx_cat [Rx_Lit (comma @ [34]), Rx_Group (Rx_Plus rx_unquoted), Rx_Lit [34]]"

definition CPINR_REGEX :: rx where
  "CPINR_REGEX = rx_cat [Rx_Lit (js ''+CPINR:''), rx_spaces, Rx_Opt (Rx_Lit [34]),
     Rx_Group (Rx_Plus (\<lambda>c. c \<noteq> 34 \<and> c \<noteq> 44)), Rx_Opt (Rx_Lit [34]), Rx_Lit comma, rx_digits]"

definition CLCK_REGEX :: rx where
  "CLCK_REGEX = rx_cat [Rx_Lit (js ''+CLCK:''), rx_spaces, rx_digits]"

definition CPIN_TIMEOUT_MS :: nat where
  "CPIN_TIMEOUT_MS = 3000"

record sim_details =
  sim_iccid :: "jstr option"
  sim_card :: sim_state
  sim_imsi :: "jstr option"
  sim_operator :: "jstr option"

fun state_of_error :: "cellary_error \<Rightarrow> sim_state" where
  "state_of_error (ATError cmd (CmeError code msg)) = (if code = 10 then Sim_Absent else Sim_Error)"
| "state_of_error (ATError cmd result) = Sim_Error"
| "state_of_error e = Sim_Absent"

definition state_of_lines :: "jstr list \<Rightarrow> sim_state" where
  "state_of_lines ls =
     (case ls of
        [] \<Rightarrow> Sim_Ready
      | line # _ \<Rightarrow>
          if line = [] then Sim_Ready
          else (case rx_exec CPIN_REGEX line of
                  Some [Some s] \<Rightarrow> or_else (map_of SIM_STATES (js_trim s)) Sim_Error
                | _ \<Rightarrow> Sim_Error))"

definition queryState :: "bool \<Rightarrow> sim_state script" where
  "queryState knownAbsent =
     (if knownAbsent then Return Sim_Absent
      else ExecCatch (js ''AT+CPIN?'') (with_timeout CPIN_TIMEOUT_MS)
        (\<lambda>r. Return (case r of Inl e \<Rightarrow> state_of_error e | Inr ls \<Rightarrow> state_of_lines ls)))"

definition parse_iccid :: "jstr \<Rightarrow> jstr list \<Rightarrow> cellary_error + jstr" where
  "parse_iccid cmd ls =
     ebind (first_line cmd ls) (\<lambda>line.
       normalizeIccid (js_trim (case rx_at_start ICCID_PREFIX_REGEX line of Some [Some prefixed] \<Rightarrow> prefixed | _ \<Rightarrow> line)))"

definition iccid :: "jstr option \<Rightarrow> jstr script" where
  "iccid vendorCmd =
     (let cmd = or_else vendorCmd (js ''AT+CCID'') in query cmd no_options (parse_iccid cmd))"

definition imsi :: "jstr script" where
  "imsi = query (js ''AT+CIMI'') no_options (first_line (js ''AT+CIMI''))"

definition queryOperator :: "jstr option script" where
  "queryOperator =
     query (js ''AT+COPS?'') no_options (\<lambda>ls.
       ebind (first_line (js ''AT+COPS?'') ls) (\<lambda>line.
       ebind (matched (js ''AT+COPS?'') COPS_OPER_REGEX line) (\<lambda>gs. Inr (gs ! 0))))"

definition sim_info :: "bool \<Rightarrow> jstr option \<Rightarrow> sim_details script" where
  "sim_info knownAbsent vendorCmd =
     script_bind (queryState knownAbsent) (\<lambda>state.
       if state = Sim_Absent \<or> state = Sim_Error
       then Return \<lparr>sim_iccid = None, sim_card = state, sim_imsi = None, sim_operator = None\<rparr>
       else
         script_bind (script_settled (iccid vendorCmd)) (\<lambda>iccidResult.
         script_bind (script_settled imsi) (\<lambda>imsiResult.
         script_bind (script_settled queryOperator) (\<lambda>operResult.
           Return \<lparr>sim_iccid = iccidResult, sim_card = state, sim_imsi = nonempty imsiResult,
             sim_operator = nonempty (case operResult of None \<Rightarrow> None | Some oper \<Rightarrow> oper)\<rparr>))))"

definition enterPin :: "jstr \<Rightarrow> unit script" where
  "enterPin pin = command (js ''AT+CPIN='' @ quoted pin) no_options"

definition phoneNumber :: "jstr option script" where
  "phoneNumber =
     script_catch
       (query (js ''AT+CNUM'') no_options (\<lambda>ls. Inr
          (case ls of [] \<Rightarrow> None
           | line # _ \<Rightarrow> (case rx_exec CNUM_REGEX line of Some (number # _) \<Rightarrow> number | _ \<Rightarrow> None))))
       (\<lambda>_. Return None)"

record pin_retry_info =
  retry_pin :: int
  retry_puk :: int
  retry_pin2 :: "int option"
  retry_puk2 :: "int option"

definition retry_line :: "jstr \<Rightarrow> (jstr \<times> int) option" where
  "retry_line line =
     (case rx_exec CPINR_REGEX line of
        Some [Some name, Some left] \<Rightarrow> Some (js_toUpper (js_trim name), decimal left)
      | _ \<Rightarrow> None)"

definition parse_retries :: "jstr list \<Rightarrow> cellary_error + pin_retry_info" where
  "parse_retries ls =
     (let retries = foldl (\<lambda>m (name, left). map_set name left m) [] (parse_lines retry_line ls)
      in case (map_of retries (js ''SIM PIN''), map_of retries (js ''SIM PUK'')) of
           (Some pin, Some puk) \<Rightarrow>
             Inr \<lparr>retry_pin = pin, retry_puk = puk, retry_pin2 = map_of retries (js ''SIM PIN2''),
               retry_puk2 = map_of retries (js ''SIM PUK2'')\<rparr>
         | _ \<Rightarrow> Inl (ParseError (js ''AT+CPINR missing PIN/PUK retry counts'') (js_join [10] ls)))"

definition pinRetries :: "pin_retry_info script" where
  "pinRetries = query (js ''AT+CPINR'') no_options parse_retries"

definition queryFacilityLock :: "jstr \<Rightarrow> int option \<Rightarrow> bool script" where
  "queryFacilityLock facility serviceClass =
     (let classParam = (case serviceClass of None \<Rightarrow> [] | Some c \<Rightarrow> js '',,'' @ quoted (js_show_int c))
      in query (js ''AT+CLCK='' @ quoted facility @ js '',2'' @ classParam) no_options (\<lambda>ls.
           case ls of
             [] \<Rightarrow> Inl (ParseError (js ''AT+CLCK query returned no data'') (js_join [10] ls))
           | line # _ \<Rightarrow> ebind (matched (js ''AT+CLCK'') CLCK_REGEX line) (\<lambda>gs. Inr (gs ! 0 = Some (js ''1'')))))"

definition setFacilityLock :: "jstr \<Rightarrow> bool \<Rightarrow> jstr option \<Rightarrow> int option \<Rightarrow> unit script" where
  "setFacilityLock facility lock password serviceClass =
     command (js ''AT+CLCK='' @ quoted facility @ comma @ js_show_int (if lock then 1 else 0)
       @ (case password of
            None \<Rightarrow> []
          | Some p \<Rightarrow> comma @ quoted p @ (case serviceClass of None \<Rightarrow> [] | Some c \<Rightarrow> comma @ js_show_int c))) no_options"

definition changePassword :: "jstr \<Rightarrow> jstr \<Rightarrow> jstr \<Rightarrow> unit script" where
  "changePassword facility oldPassword newPassword =
     command (js ''AT+CPWD='' @ quoted facility @ comma @ quoted oldPassword @ comma @ quoted newPassword) no_options"

section \<open>Lemmas\<close>

definition settled :: "device_response \<Rightarrow> (jstr list \<Rightarrow> cellary_error + 'a) \<Rightarrow> 'a option" where
  "settled r parse = (case r of Inl e \<Rightarrow> None | Inr ls \<Rightarrow> (case parse ls of Inl e \<Rightarrow> None | Inr x \<Rightarrow> Some x))"

definition card_state :: "device_response \<Rightarrow> sim_state" where
  "card_state r = (case r of Inl e \<Rightarrow> state_of_error e | Inr ls \<Rightarrow> state_of_lines ls)"

text \<open>C40: Asking for the card never fails, whatever errors and unreadable answers the modem gives. An
  absent or failing card is asked nothing but its state, a card known to be absent nothing at all; from any
  other card the serial number, the subscriber and the operator are asked, and each of them that fails is
  missing from the result without touching the others.
\<close>

theorem sim_info_never_fails:
  "run_script (sim_info knownAbsent vendorCmd) (r0 # r1 # r2 # r3 # rs) =
     (if knownAbsent then ([], Returned \<lparr>sim_iccid = None, sim_card = Sim_Absent, sim_imsi = None, sim_operator = None\<rparr>)
      else if card_state r0 \<in> {Sim_Absent, Sim_Error}
      then ([(js ''AT+CPIN?'', with_timeout 3000)],
        Returned \<lparr>sim_iccid = None, sim_card = card_state r0, sim_imsi = None, sim_operator = None\<rparr>)
      else ([(js ''AT+CPIN?'', with_timeout 3000), (or_else vendorCmd (js ''AT+CCID''), no_options),
             (js ''AT+CIMI'', no_options), (js ''AT+COPS?'', no_options)],
        Returned \<lparr>sim_iccid = settled r1 (parse_iccid (or_else vendorCmd (js ''AT+CCID''))), sim_card = card_state r0,
          sim_imsi = nonempty (settled r2 (first_line (js ''AT+CIMI''))),
          sim_operator = nonempty (case settled r3 (\<lambda>ls. ebind (first_line (js ''AT+COPS?'') ls)
            (\<lambda>line. ebind (matched (js ''AT+COPS?'') COPS_OPER_REGEX line) (\<lambda>gs. Inr (gs ! 0)))) of
              None \<Rightarrow> None | Some oper \<Rightarrow> oper)\<rparr>))"
  unfolding sim_info_def queryState_def iccid_def imsi_def queryOperator_def card_state_def CPIN_TIMEOUT_MS_def Let_def
  by (simp add: run_script_bind run_settled settled_def split: sum.split)

section \<open>Secrets in the log\<close>

lemma mask_command:
  "sensitive_lead g \<Longrightarrow> v \<noteq> [] \<Longrightarrow> \<forall>c \<in> set v. not_eol c \<Longrightarrow> maskAtSecrets (g @ v) = g @ REDACTED"
  using mask_lead [of g v "[]"] by simp

lemma secret_commands:
  "sensitive_lead (js ''AT+CPIN='')" "sensitive_lead (js ''AT+CLCK='')" "sensitive_lead (js ''AT+CPWD='')"
  by (auto simp: lead_cases SENSITIVE_TOKENS_def js_def js_toUpper_def js_upper1_def
      intro!: exI [of _ "[65, 84]"])

lemma not_eol_digits: "\<forall>c \<in> set (js_show_int i). not_eol c"
proof -
  have "\<forall>c \<in> set (js_toString 10 n). not_eol c" for n
    using toString_digits(1) [of n] by (auto simp: list_all_iff rx_digit_def not_eol_def)
  then show ?thesis by (simp add: js_show_int_def not_eol_def)
qed

lemma not_eol_quoted: "(\<forall>c \<in> set (quoted s). not_eol c) \<longleftrightarrow> (\<forall>c \<in> set s. not_eol c)"
  by (simp add: quoted_def not_eol_def)

text \<open>Whatever appears in a log after masking does not depend on a PIN, a facility password or a
  new password: the commands of the three operations that carry them are masked down to their names.
\<close>

theorem sim_secrets_masked:
  assumes "\<forall>s \<in> {pin, facility, password, oldPassword, newPassword}. \<forall>c \<in> set s. not_eol c"
  shows "map (maskAtSecrets \<circ> fst) (fst (run_script (enterPin pin) rs)) = [js ''AT+CPIN='' @ REDACTED] \<and>
    map (maskAtSecrets \<circ> fst) (fst (run_script (setFacilityLock facility lock (Some password) serviceClass) rs)) =
      [js ''AT+CLCK='' @ REDACTED] \<and>
    map (maskAtSecrets \<circ> fst) (fst (run_script (changePassword facility oldPassword newPassword) rs)) =
      [js ''AT+CPWD='' @ REDACTED]"
proof -
  have plain: "\<forall>c \<in> set comma. not_eol c" by (simp add: js_def not_eol_def)
  note facts = assms not_eol_digits not_eol_quoted plain
  have nonempty: "quoted s @ t \<noteq> []" for s t by (simp add: quoted_def)
  show ?thesis
    unfolding enterPin_def setFacilityLock_def changePassword_def run_command fst_conv list.map comp_def
    by (intro conjI arg_cong [of _ _ "\<lambda>x. [x]"] mask_command secret_commands)
      (use facts in \<open>auto simp: nonempty quoted_def split: option.split\<close>)
qed

lemma sim_secrets_masked_witness:
  "map (maskAtSecrets \<circ> fst) (fst (run_script (enterPin (js ''1234'')) [])) = [js ''AT+CPIN='' @ REDACTED]"
  using sim_secrets_masked [of "js ''1234''" "js ''SC''" "js ''1234''" "[]" "[]"] by (simp add: js_def not_eol_def)

end
