(* ===== verification/At_Phonebook.thy ===== *)
theory At_Phonebook imports At_Query begin

text \<open>
  \<^verbatim>\<open>packages/core/src/protocols/at/services/phonebook.ts\<close>: selecting a storage, reading, searching, writing and
  deleting entries.
\<close>

section \<open>Codes\<close>

datatype phonebook_storage = Pb_Sim | Pb_Device | Pb_Dialed | Pb_Missed | Pb_Received | Pb_Own | Pb_Fixed

fun STORAGE_TO_AT :: "phonebook_storage \<Rightarrow> jstr" where
  "STORAGE_TO_AT Pb_Sim = js ''SM''"
| "STORAGE_TO_AT Pb_Device = js ''ME''"
| "STORAGE_TO_AT Pb_Dialed = js ''DC''"
| "STORAGE_TO_AT Pb_Missed = js ''MC''"
| "STORAGE_TO_AT Pb_Received = js ''RC''"
| "STORAGE_TO_AT Pb_Own = js ''ON''"
| "STORAGE_TO_AT Pb_Fixed = js ''FD''"

definition AT_TO_STORAGE :: "(jstr \<times> phonebook_storage) list" where
  "AT_TO_STORAGE = [(js ''SM'', Pb_Sim), (js ''ME'', Pb_Device), (js ''DC'', Pb_Dialed), (js ''MC'', Pb_Missed),
     (js ''RC'', Pb_Received), (js ''ON'', Pb_Own), (js ''FD'', Pb_Fixed)]"

datatype number_format = International | National

definition numberTypeToFormat :: "int \<Rightarrow> number_format" where
  "numberTypeToFormat type = (if type = 145 then International else National)"

definition inferNumberType :: "jstr \<Rightarrow> int" where
  "inferNumberType number = (if js_startsWith number (js ''+'') then 145 else 129)"

definition CPBS_REGEX :: rx where
  "CPBS_REGEX = rx_cat [Rx_Lit (js ''+CPBS:''), rx_spaces, rx_quoted [], Rx_Lit comma, rx_digits, Rx_Lit comma, rx_digits]"

definition CPBR_REGEX :: rx where
  "CPBR_REGEX = rx_cat [Rx_Lit (js ''+CPB''), Rx_One (\<lambda>c. c = 82 \<or> c = 70), Rx_Lit (js '':''), rx_spaces, rx_digits,
     rx_quoted comma, Rx_Lit comma, rx_digits, rx_quoted comma]"

section \<open>Operations\<close>

record storage_info =
  pb_storage :: phonebook_storage
  pb_used :: int
  pb_total :: int

definition parse_storage :: "phonebook_storage \<Rightarrow> jstr list \<Rightarrow> cellary_error + storage_info" where
  "parse_storage storage ls =
     ebind (first_line (js ''AT+CPBS?'') ls) (\<lambda>line.
     ebind (matched (js ''AT+CPBS?'') CPBS_REGEX line) (\<lambda>gs.
       case gs of
         [Some storageCode, Some used, Some total_of] \<Rightarrow>
           Inr \<lparr>pb_storage = or_else (map_of AT_TO_STORAGE storageCode) storage, pb_used = decimal used,
             pb_total = decimal total_of\<rparr>
       | _ \<Rightarrow> Inl (ParseError (js ''AT+CPBS? missing fields'') line)))"

definition selectStorage :: "phonebook_storage \<Rightarrow> storage_info script" where
  "selectStorage storage =
     script_bind (command (js ''AT+CPBS='' @ quoted (STORAGE_TO_AT storage)) no_options) (\<lambda>_.
       query (js ''AT+CPBS?'') no_options (parse_storage storage))"

record phonebook_entry =
  pb_index :: int
  pb_number :: jstr
  pb_format :: number_format
  pb_name :: jstr

definition entry_line :: "jstr \<Rightarrow> phonebook_entry option" where
  "entry_line line =
     (case rx_exec CPBR_REGEX line of
        Some [Some index, Some number, Some type, Some name] \<Rightarrow>
          Some \<lparr>pb_index = decimal index, pb_number = number, pb_format = numberTypeToFormat (decimal type), pb_name = name\<rparr>
      | _ \<Rightarrow> None)"

definition parseEntries :: "jstr list \<Rightarrow> phonebook_entry list" where
  "parseEntries ls = parse_lines entry_line ls"

definition read_entries :: "int \<Rightarrow> int \<Rightarrow> phonebook_entry list script" where
  "read_entries first last_index =
     query (js ''AT+CPBR='' @ js_show_int first @ comma @ js_show_int last_index) no_options (\<lambda>ls. Inr (parseEntries ls))"

definition find_entries :: "jstr \<Rightarrow> phonebook_entry list script" where
  "find_entries name = query (js ''AT+CPBF='' @ quoted name) no_options (\<lambda>ls. Inr (parseEntries ls))"

definition entry_arguments :: "int \<Rightarrow> jstr \<Rightarrow> jstr \<Rightarrow> jstr" where
  "entry_arguments index number name =
     js_show_int index @ comma @ quoted number @ comma @ js_show_int (inferNumberType number) @ comma @ quoted name"

definition write_entry :: "int \<Rightarrow> jstr \<Rightarrow> jstr \<Rightarrow> unit script" where
  "write_entry index number name = command (js ''AT+CPBW='' @ entry_arguments index number name) no_options"

definition delete_entry :: "int \<Rightarrow> unit script" where
  "delete_entry index = command (js ''AT+CPBW='' @ js_show_int index) no_options"

section \<open>What was written is read\<close>

lemma type_round_trip: "numberTypeToFormat (inferNumberType number) = (if js_startsWith number (js ''+'') then International else National)"
  by (simp add: numberTypeToFormat_def inferNumberType_def)

lemma storage_round_trip: "map_of AT_TO_STORAGE (STORAGE_TO_AT s) = Some s"
  by (cases s) (simp_all add: AT_TO_STORAGE_def)

lemma entry_printed:
  assumes "34 \<notin> set number" "34 \<notin> set name" "x = 82 \<or> x = 70"
  shows "entry_line (js ''+CPB'' @ x # js '': '' @ entry_arguments (int index) number name) =
    Some \<lparr>pb_index = int index, pb_number = number,
      pb_format = (if js_startsWith number (js ''+'') then International else National), pb_name = name\<rparr>"
proof -
  have pos: "\<not> inferNumberType number < 0" by (simp add: inferNumberType_def)
  have type: "js_show_int (inferNumberType number) = js_toString 10 (nat (inferNumberType number))"
    by (simp add: js_show_int_def inferNumberType_def)
  have "rx_exec CPBR_REGEX (js ''+CPB'' @ x # js '': '' @ entry_arguments (int index) number name) =
      Some [Some (js_toString 10 index), Some number, Some (js_toString 10 (nat (inferNumberType number))), Some name]"
    by (rule rx_exec_here [where t = "[]"])
      (use assms in \<open>auto simp: CPBR_REGEX_def entry_arguments_def type quoted_def rx_eval rx_number js_def pos\<close>)
  moreover have "0 \<le> inferNumberType number" by (simp add: inferNumberType_def)
  ultimately show ?thesis by (simp add: entry_line_def type_round_trip)
qed

text \<open>Entries that were written are read back, by position and by name, with the format of their
  number, from a phonebook that keeps the arguments of \<open>AT+CPBW\<close> and prints them in its listings.
\<close>

theorem phonebook_round_trip:
  assumes "\<forall>(index, number, name) \<in> set es. 34 \<notin> set number \<and> 34 \<notin> set name"
  defines "shown \<equiv> \<lambda>x. map (\<lambda>(index, number, name). js ''+CPB'' @ x # js '': '' @ entry_arguments (int index) number name) es"
    and "entries \<equiv> map (\<lambda>(index, number, name). \<lparr>pb_index = int index, pb_number = number,
      pb_format = (if js_startsWith number (js ''+'') then International else National), pb_name = name\<rparr>) es"
  shows "snd (run_script (read_entries a b) [Inr (shown 82)]) = Returned entries \<and>
    snd (run_script (find_entries name) [Inr (shown 70)]) = Returned entries \<and>
    (\<forall>(index, number, name) \<in> set es.
      fst (run_script (write_entry (int index) number name) []) = [(js ''AT+CPBW='' @ entry_arguments (int index) number name, no_options)])"
proof -
  have "parseEntries (shown x) = entries" if "x = 82 \<or> x = 70" for x
    unfolding parseEntries_def shown_def entries_def
    by (rule parse_lines_print) (use assms(1) entry_printed [OF _ _ that] in auto)
  then show ?thesis by (simp add: read_entries_def find_entries_def write_entry_def split_beta)
qed

lemma phonebook_round_trip_witness:
  "snd (run_script (read_entries 1 10) [Inr [js ''+CPBR: 1,\"+374\",145,\"Ann\"'']]) =
     Returned [\<lparr>pb_index = 1, pb_number = js ''+374'', pb_format = International, pb_name = js ''Ann''\<rparr>]"
proof -
  have line: "js ''+CPB'' @ 82 # js '': '' @ entry_arguments (int 1) (js ''+374'') (js ''Ann'') = js ''+CPBR: 1,\"+374\",145,\"Ann\"''"
    by (simp add: js_def entry_arguments_def js_show_int_def quoted_def inferNumberType_def js_toString_step)
  have "\<forall>(index, number, name) \<in> set [(1 :: nat, js ''+374'', js ''Ann'')]. 34 \<notin> set number \<and> 34 \<notin> set name"
    by (simp add: js_def)
  from phonebook_round_trip [OF this, of 1 10 "[]"] show ?thesis using line by (simp add: js_def)
qed

end
