(* ===== verification/At_Voice.thy ===== *)
theory At_Voice imports At_Phonebook begin

text \<open>
  \<^verbatim>\<open>packages/core/src/protocols/at/services/voice.ts\<close>: calls and supplementary services. The file has its own
  copies of \<open>numberTypeToFormat\<close> and \<open>inferNumberType\<close>, which are those of the phonebook. The vendor's
  command before a call is an argument.
\<close>

section \<open>Calls\<close>

datatype call_state = Call_Active | Call_Held | Call_Dialing | Call_Alerting | Call_Incoming | Call_Waiting

definition CLCC_STATE_MAP :: "(int \<times> call_state) list" where
  "CLCC_STATE_MAP = [(0, Call_Active), (1, Call_Held), (2, Call_Dialing), (3, Call_Alerting), (4, Call_Incoming), (5, Call_Waiting)]"

definition CLCC_REGEX :: rx where
  "CLCC_REGEX = rx_cat [Rx_Lit (js ''+CLCC:''), rx_spaces, rx_digits, Rx_Lit comma, rx_digits, Rx_Lit comma, rx_digits,
     Rx_Lit comma, rx_digits, Rx_Lit comma, rx_digits, Rx_Opt (rx_quoted comma)]"

record active_call =
  call_index :: int
  call_outgoing :: bool
  call_status :: call_state
  call_mode :: int
  call_number :: "jstr option"

definition parseClccLine :: "jstr \<Rightarrow> active_call option" where
  "parseClccLine line =
     (case rx_at_start CLCC_REGEX line of
        Some [Some index, Some dir, Some stat, Some mode, _, number] \<Rightarrow>
          (case map_of CLCC_STATE_MAP (decimal stat) of
             None \<Rightarrow> None
           | Some status \<Rightarrow>
               Some \<lparr>call_index = decimal index, call_outgoing = (dir = js ''0''), call_status = status,
                 call_mode = decimal mode, call_number = nonempty number\<rparr>)
      | _ \<Rightarrow> None)"

definition dial :: "jstr option \<Rightarrow> jstr \<Rightarrow> unit script" where
  "dial voiceSetup number =
     (let call = command (js ''ATD'' @ number @ js '';'') (with_timeout 60000)
      in case voiceSetup of
           None \<Rightarrow> call
         | Some setup \<Rightarrow>
             ExecCatch setup no_options (\<lambda>r.
               case r of
                 Inl (ATError cmd result) \<Rightarrow> call
               | Inl e \<Rightarrow> Throw e
               | Inr ls \<Rightarrow> call))"

definition answer :: "unit script" where "answer = command (js ''ATA'') no_options"
definition hangup :: "unit script" where "hangup = command (js ''ATH'') no_options"

definition dtmf :: "jstr \<Rightarrow> unit script" where
  "dtmf tones = command (js ''AT+VTS='' @ quoted tones) no_options"

definition listCalls :: "active_call list script" where
  "listCalls = query (js ''AT+CLCC'') (with_timeout 5000) (\<lambda>ls. Inr (parse_lines parseClccLine ls))"

section \<open>Caller identification\<close>

datatype clir_setting = Subscription | Invocation | Suppression
datatype clir_status = Not_Provisioned | Permanent | Clir_Unknown | Temporary_Restricted | Temporary_Allowed

definition CLIR_SETTING_MAP :: "(int \<times> clir_setting) list" where
  "CLIR_SETTING_MAP = [(0, Subscription), (1, Invocation), (2, Suppression)]"

fun SETTING_TO_CLIR :: "clir_setting \<Rightarrow> int" where
  "SETTING_TO_CLIR Subscription = 0"
| "SETTING_TO_CLIR Invocation = 1"
| "SETTING_TO_CLIR Suppression = 2"

definition CLIR_STATUS_MAP :: "(int \<times> clir_status) list" where
  "CLIR_STATUS_MAP = [(0, Not_Provisioned), (1, Permanent), (2, Clir_Unknown), (3, Temporary_Restricted), (4, Temporary_Allowed)]"

definition CLIR_REGEX :: rx where
  "CLIR_REGEX = rx_cat [Rx_Lit (js ''+CLIR:''), rx_spaces, rx_digits, Rx_Lit comma, rx_digits]"

definition parse_clir :: "jstr list \<Rightarrow> cellary_error + clir_setting \<times> clir_status" where
  "parse_clir ls =
     ebind (first_line (js ''AT+CLIR?'') ls) (\<lambda>line.
     ebind (matched (js ''AT+CLIR?'') CLIR_REGEX line) (\<lambda>gs.
       case gs of
         [Some n, Some m] \<Rightarrow>
           (case (map_of CLIR_SETTING_MAP (decimal n), map_of CLIR_STATUS_MAP (decimal m)) of
              (Some setting, Some status) \<Rightarrow> Inr (setting, status)
            | _ \<Rightarrow> Inl (ParseError (js ''Unknown CLIR values n='' @ n @ js '' m='' @ m) line))
       | _ \<Rightarrow> Inl (ParseError (js ''AT+CLIR? missing setting or status'') line)))"

definition queryClir :: "(clir_setting \<times> clir_status) script" where
  "queryClir = query (js ''AT+CLIR?'') no_options parse_clir"

definition setClir :: "clir_setting \<Rightarrow> unit script" where
  "setClir setting = command (js ''AT+CLIR='' @ js_show_int (SETTING_TO_CLIR setting)) no_options"

section \<open>Call forwarding\<close>

datatype forward_reason = Unconditional | Forward_Busy | No_Reply | Not_Reachable | All_Reasons | All_Conditional
datatype forward_mode = Disable | Enable | Register | Erase

fun REASON_TO_AT :: "forward_reason \<Rightarrow> int" where
  "REASON_TO_AT Unconditional = 0"
| "REASON_TO_AT Forward_Busy = 1"
| "REASON_TO_AT No_Reply = 2"
| "REASON_TO_AT Not_Reachable = 3"
| "REASON_TO_AT All_Reasons = 4"
| "REASON_TO_AT All_Conditional = 5"

fun MODE_TO_AT :: "forward_mode \<Rightarrow> int" where
  "MODE_TO_AT Disable = 0"
| "MODE_TO_AT Enable = 1"
| "MODE_TO_AT Register = 3"
| "MODE_TO_AT Erase = 4"

definition CCFC_REGEX :: rx where
  "CCFC_REGEX = rx_cat [Rx_Lit (js ''+CCFC:''), rx_spaces, rx_digits, Rx_Lit comma, rx_digits,
     Rx_Opt (rx_cat [rx_quoted comma, Rx_Lit comma, rx_digits]),
     Rx_Opt (rx_cat [Rx_Lit (comma @ [34]), Rx_Star rx_unquoted, Rx_Lit [34], Rx_Lit comma, Rx_Plus rx_digit, Rx_Lit comma, rx_digits])]"

record forwarding_rule =
  fwd_active :: bool
  fwd_class :: int
  fwd_number :: "jstr option"
  fwd_format :: "number_format option"
  fwd_time :: "int option"

definition parseCcfcLine :: "jstr \<Rightarrow> forwarding_rule option" where
  "parseCcfcLine line =
     (case rx_exec CCFC_REGEX line of
        Some [Some status, Some cls, number, type, time] \<Rightarrow>
          Some \<lparr>fwd_active = (status = js ''1''), fwd_class = decimal cls, fwd_number = nonempty number,
            fwd_format = map_option (\<lambda>t. numberTypeToFormat (decimal t)) type, fwd_time = map_option decimal time\<rparr>
      | _ \<Rightarrow> None)"

definition queryCallForwarding :: "forward_reason \<Rightarrow> int option \<Rightarrow> forwarding_rule list script" where
  "queryCallForwarding reason serviceClass =
     (let classParam = (case serviceClass of None \<Rightarrow> [] | Some c \<Rightarrow> js '',,,'' @ js_show_int c)
      in query (js ''AT+CCFC='' @ js_show_int (REASON_TO_AT reason) @ js '',2'' @ classParam) no_options
           (\<lambda>ls. Inr (parse_lines parseCcfcLine ls)))"

definition shown :: "int option \<Rightarrow> jstr" where
  "shown n = (case n of None \<Rightarrow> [] | Some i \<Rightarrow> js_show_int i)"

definition forwarding_parts ::
  "forward_reason \<Rightarrow> forward_mode \<Rightarrow> jstr option \<Rightarrow> int option \<Rightarrow> int option \<Rightarrow> jstr list" where
  "forwarding_parts reason mode number serviceClass time =
     [js_show_int (REASON_TO_AT reason), js_show_int (MODE_TO_AT mode)]
     @ (if number \<noteq> None \<or> serviceClass \<noteq> None \<or> time \<noteq> None
        then (case number of None \<Rightarrow> [[], []] | Some n \<Rightarrow> [quoted n, js_show_int (inferNumberType n)]) else [])
     @ (if serviceClass \<noteq> None \<or> time \<noteq> None then [shown serviceClass] else [])
     @ (if time \<noteq> None then [[], [], shown time] else [])"

definition setCallForwarding ::
  "forward_reason \<Rightarrow> forward_mode \<Rightarrow> jstr option \<Rightarrow> int option \<Rightarrow> int option \<Rightarrow> unit script" where
  "setCallForwarding reason mode number serviceClass time =
     command (js ''AT+CCFC='' @ js_join comma (forwarding_parts reason mode number serviceClass time)) no_options"

section \<open>Call waiting and holding\<close>

definition CCWA_REGEX :: rx where
  "CCWA_REGEX = rx_cat [Rx_Lit (js ''+CCWA:''), rx_spaces, rx_digits, Rx_Lit comma, rx_digits]"

definition parseCcwaLine :: "jstr \<Rightarrow> (bool \<times> int) option" where
  "parseCcwaLine line =
     (case rx_exec CCWA_REGEX line of
        Some [Some status, Some cls] \<Rightarrow> Some (status = js ''1'', decimal cls)
      | _ \<Rightarrow> None)"

definition class_param :: "int option \<Rightarrow> jstr" where
  "class_param serviceClass = (case serviceClass of None \<Rightarrow> [] | Some c \<Rightarrow> comma @ js_show_int c)"

definition queryCallWaiting :: "int option \<Rightarrow> (bool \<times> int) list script" where
  "queryCallWaiting serviceClass =
     query (js ''AT+CCWA=1,2'' @ class_param serviceClass) no_options (\<lambda>ls. Inr (parse_lines parseCcwaLine ls))"

definition setCallWaiting :: "bool \<Rightarrow> int option \<Rightarrow> unit script" where
  "setCallWaiting enable serviceClass =
     command (js ''AT+CCWA=1,'' @ js_show_int (if enable then 1 else 0) @ class_param serviceClass) no_options"

definition holdAndAccept :: "unit script" where "holdAndAccept = command (js ''AT+CHLD=2'') no_options"
definition conference :: "unit script" where "conference = command (js ''AT+CHLD=3'') no_options"
definition releaseHeld :: "unit script" where "releaseHeld = command (js ''AT+CHLD=0'') no_options"

section \<open>Properties\<close>

lemma comma_free_int: "44 \<notin> set (js_show_int i)"
  using toString_digits(1) [of "nat i"] toString_digits(1) [of "nat (- i)"]
  by (auto simp: js_show_int_def list_all_iff rx_digit_def)

text \<open>The positions that 3GPP TS 27.007 gives the parameters of \<open>AT+CCFC\<close>, and how many of them are written.\<close>

definition ccfc_positions :: "forward_reason \<Rightarrow> forward_mode \<Rightarrow> jstr option \<Rightarrow> int option \<Rightarrow> int option \<Rightarrow> jstr list" where
  "ccfc_positions reason mode number serviceClass time =
     [shown (Some (REASON_TO_AT reason)), shown (Some (MODE_TO_AT mode)),
      (case number of None \<Rightarrow> [] | Some n \<Rightarrow> quoted n), shown (map_option inferNumberType number),
      shown serviceClass, [], [], shown time]"

text \<open>Every parameter of a forwarding rule stands at its position in the command, whichever of the
  number, the class and the time are given, and nothing but trailing positions is left out.
\<close>

theorem forwarding_positions:
  assumes "case number of None \<Rightarrow> True | Some n \<Rightarrow> 44 \<notin> set n"
  shows "\<exists>args. fst (run_script (setCallForwarding reason mode number serviceClass time) rs) = [(js ''AT+CCFC='' @ args, no_options)] \<and>
    js_split 44 args =
      take (if time \<noteq> None then 8 else if serviceClass \<noteq> None then 5 else if number \<noteq> None then 4 else 2)
        (ccfc_positions reason mode number serviceClass time)"
proof -
  let ?parts = "forwarding_parts reason mode number serviceClass time"
  have free: "44 \<notin> set (quoted n)" if "number = Some n" for n using assms that by (simp add: quoted_def)
  have "\<forall>w \<in> set ?parts. 44 \<notin> set w"
    by (auto simp: forwarding_parts_def shown_def comma_free_int dest: free split: option.splits if_splits)
  then have "js_split 44 (js_join comma ?parts) = ?parts"
    using js_split_join [of ?parts 44] by (simp add: forwarding_parts_def js_def)
  also have "\<dots> = take (if time \<noteq> None then 8 else if serviceClass \<noteq> None then 5 else if number \<noteq> None then 4 else 2)
        (ccfc_positions reason mode number serviceClass time)"
    by (cases number; cases serviceClass; cases time) (simp_all add: forwarding_parts_def ccfc_positions_def shown_def)
  finally show ?thesis by (simp add: setCallForwarding_def)
qed

lemma forwarding_positions_witness:
  "\<exists>args. fst (run_script (setCallForwarding No_Reply Register (Some (js ''+374'')) None (Some 20)) []) = [(js ''AT+CCFC='' @ args, no_options)] \<and>
    js_split 44 args = [js ''2'', js ''3'', js ''\"+374\"'', js ''145'', [], [], [], js ''20'']"
proof -
  have ok: "case Some (js ''+374'') of None \<Rightarrow> True | Some n \<Rightarrow> 44 \<notin> set n" by (simp add: js_def)
  have parts: "take 8 (ccfc_positions No_Reply Register (Some (js ''+374'')) None (Some 20)) =
      [js ''2'', js ''3'', js ''\"+374\"'', js ''145'', [], [], [], js ''20'']"
    by (simp add: ccfc_positions_def shown_def quoted_def js_def js_show_int_def inferNumberType_def js_toString_step)
  show ?thesis using forwarding_positions [OF ok, of No_Reply Register None "Some 20" "[]"] parts by simp
qed

definition print_rule :: "nat \<Rightarrow> nat \<Rightarrow> jstr \<Rightarrow> jstr \<Rightarrow> jstr \<Rightarrow> nat \<Rightarrow> jstr" where
  "print_rule status cls number subaddr satype time =
     js ''+CCFC: '' @ js_toString 10 status @ comma @ js_toString 10 cls @ comma @ quoted number @ comma
       @ js_show_int (inferNumberType number) @ comma @ subaddr @ comma @ satype @ comma @ js_toString 10 time"

definition printed_rule :: "nat \<Rightarrow> nat \<Rightarrow> jstr \<Rightarrow> int option \<Rightarrow> forwarding_rule" where
  "printed_rule status cls number time =
     \<lparr>fwd_active = (status = 1), fwd_class = int cls, fwd_number = Some number,
      fwd_format = Some (if js_startsWith number (js ''+'') then International else National), fwd_time = time\<rparr>"

text \<open>The time of a forwarding rule is read from a line that prints a subaddress and its type, but
  lost when the modem leaves these two fields empty, as \<open>setCallForwarding\<close> does in the command it writes; the
  other fields are read in both cases.
\<close>

theorem forwarding_time_lost:
  assumes "34 \<notin> set number" "number \<noteq> []"
  shows "parseCcfcLine (print_rule status cls number (js ''\"\"'') (js ''128'') time) = Some (printed_rule status cls number (Some (int time))) \<and>
    parseCcfcLine (print_rule status cls number [] [] time) = Some (printed_rule status cls number None)"
proof -
  let ?type = "js_toString 10 (nat (inferNumberType number))"
  have pos: "\<not> inferNumberType number < 0" "js_show_int (inferNumberType number) = ?type"
    by (simp_all add: inferNumberType_def js_show_int_def)
  have empty: "rx_first (Rx_Star rx_unquoted) (34 # t) = Some ([], 34 # t)" for t
    by (simp add: rx_first_Star rx_unquoted_def)
  have satype: "rx_first (Rx_Plus rx_digit) (49 # 50 # 56 # 44 # t) = Some ([], 44 # t)" for t
    by (simp add: rx_first_Plus rx_digit_def)
  have one: "js_toString 10 status = js ''1'' \<longleftrightarrow> status = 1"
  proof
    assume "js_toString 10 status = js ''1''"
    then have "decimal (js_toString 10 status) = decimal (js ''1'')" by simp
    also have "decimal (js ''1'') = 1" by (simp add: decimal_def js_digits_value_def js_digit_def js_def)
    finally show "status = 1" by simp
  qed (simp add: js_def)
  have "rx_exec CCFC_REGEX (print_rule status cls number (js ''\"\"'') (js ''128'') time) =
      Some [Some (js_toString 10 status), Some (js_toString 10 cls), Some number, Some ?type, Some (js_toString 10 time)]"
    by (rule rx_exec_here [where t = "[]"])
      (use assms(1) in \<open>simp add: CCFC_REGEX_def print_rule_def quoted_def pos rx_eval rx_number empty satype js_def\<close>)
  moreover have "rx_exec CCFC_REGEX (print_rule status cls number [] [] time) =
      Some [Some (js_toString 10 status), Some (js_toString 10 cls), Some number, Some ?type, None]"
    by (rule rx_exec_here [where t = "44 # 44 # 44 # js_toString 10 time"])
      (use assms(1) in \<open>simp add: CCFC_REGEX_def print_rule_def quoted_def pos rx_eval rx_number js_def\<close>)
  moreover have "decimal ?type = inferNumberType number" using pos by simp
  ultimately show ?thesis
    using assms(2) by (simp add: parseCcfcLine_def printed_rule_def one nonempty_def type_round_trip)
qed

lemma forwarding_time_lost_witness:
  "parseCcfcLine (js ''+CCFC: 1,1,\"+374\",145,,,20'') =
     Some \<lparr>fwd_active = True, fwd_class = 1, fwd_number = Some (js ''+374''), fwd_format = Some International, fwd_time = None\<rparr>"
proof -
  have line: "print_rule 1 1 (js ''+374'') [] [] 20 = js ''+CCFC: 1,1,\"+374\",145,,,20''"
    by (simp add: print_rule_def js_def quoted_def inferNumberType_def js_show_int_def js_toString_step)
  have "34 \<notin> set (js ''+374'')" "js ''+374'' \<noteq> []" by (simp_all add: js_def)
  from forwarding_time_lost [OF this, of 1 1 20] show ?thesis
    using line by (simp add: printed_rule_def js_def)
qed

end
