(* ===== verification/At_Data.thy ===== *)
theory At_Data imports At_Query Mask begin

text \<open>
  \<^verbatim>\<open>packages/core/src/protocols/at/services/data.ts\<close>: packet data contexts, their dynamic parameters,
  authentication and quality of service, and the mode of operation.
\<close>

section \<open>Expressions and codes\<close>

definition CGATT_REGEX :: rx where
  "CGATT_REGEX = rx_cat [Rx_Lit (js ''+CGATT:''), rx_spaces, rx_digits]"

definition CGDCONT_REGEX :: rx where
  "CGDCONT_REGEX = rx_cat [Rx_Lit (js ''+CGDCONT:''), rx_spaces, rx_digits, rx_quoted comma, rx_quoted comma, Rx_Opt (rx_quoted comma)]"

definition CGACT_REGEX :: rx where
  "CGACT_REGEX = rx_cat [Rx_Lit (js ''+CGACT:''), rx_spaces, rx_digits, Rx_Lit comma, rx_digits]"

definition CGPADDR_REGEX :: rx where
  "CGPADDR_REGEX = rx_cat [Rx_Lit (js ''+CGPADDR:''), rx_spaces, rx_digits, Rx_Opt (rx_quoted comma)]"

definition CGCONTRDP_REGEX :: rx where
  "CGCONTRDP_REGEX = rx_cat [Rx_Lit (js ''+CGCONTRDP:''), rx_spaces, rx_digits, Rx_Lit comma, rx_digits, rx_quoted comma,
     Rx_Opt (rx_cat [rx_quoted comma, Rx_Opt (rx_cat [rx_quoted comma, Rx_Opt (rx_cat [rx_quoted comma,
       Rx_Opt (rx_quoted comma)])])])]"

definition CGEQOS_REGEX :: rx where
  "CGEQOS_REGEX = rx_cat [Rx_Lit (js ''+CGEQOS:''), rx_spaces, rx_digits, Rx_Lit comma, rx_digits,
     Rx_Opt (rx_cat [Rx_Lit comma, rx_digits, Rx_Lit comma, rx_digits,
       Rx_Opt (rx_cat [Rx_Lit comma, rx_digits, Rx_Lit comma, rx_digits])])]"

definition CEMODE_REGEX :: rx where
  "CEMODE_REGEX = rx_cat [Rx_Lit (js ''+CEMODE:''), rx_spaces, rx_digits]"

datatype ue_mode = Ps_Mode2 | Cs_Ps_Mode1 | Cs_Ps_Mode2 | Ps_Mode1

definition parseUeMode :: "int \<Rightarrow> ue_mode option" where
  "parseUeMode code_of =
     (if code_of = 0 then Some Ps_Mode2 else if code_of = 1 then Some Cs_Ps_Mode1
      else if code_of = 2 then Some Cs_Ps_Mode2 else if code_of = 3 then Some Ps_Mode1 else None)"

fun UE_MODE_TO_CODE :: "ue_mode \<Rightarrow> int" where
  "UE_MODE_TO_CODE Ps_Mode2 = 0"
| "UE_MODE_TO_CODE Cs_Ps_Mode1 = 1"
| "UE_MODE_TO_CODE Cs_Ps_Mode2 = 2"
| "UE_MODE_TO_CODE Ps_Mode1 = 3"

datatype pdp_auth = Auth_None | Auth_Pap | Auth_Chap

fun AUTH_TYPE_TO_CODE :: "pdp_auth \<Rightarrow> int" where
  "AUTH_TYPE_TO_CODE Auth_None = 0"
| "AUTH_TYPE_TO_CODE Auth_Pap = 1"
| "AUTH_TYPE_TO_CODE Auth_Chap = 2"

definition ACTIVATE_TIMEOUT :: nat where
  "ACTIVATE_TIMEOUT = 60000"

section \<open>Status and contexts\<close>

definition parse_attach :: "jstr list \<Rightarrow> cellary_error + bool" where
  "parse_attach ls =
     ebind (first_line (js ''+CGATT'') ls) (\<lambda>line.
       case rx_exec CGATT_REGEX line of
         None \<Rightarrow> Inl (ParseError (js ''Unexpected +CGATT format'') line)
       | Some gs \<Rightarrow> Inr (gs ! 0 = Some (js ''1'')))"

definition active_line :: "jstr \<Rightarrow> (int \<times> bool) option" where
  "active_line line =
     (case rx_exec CGACT_REGEX line of
        Some [Some cid, Some active] \<Rightarrow> Some (decimal cid, active = js ''1'')
      | _ \<Rightarrow> None)"

record data_state =
  data_connected :: bool
  data_attached :: bool

definition data_status :: "data_state script" where
  "data_status =
     script_bind (query (js ''AT+CGATT?'') no_options parse_attach) (\<lambda>attached.
     script_bind (query (js ''AT+CGACT?'') no_options Inr) (\<lambda>ls.
       Return \<lparr>data_connected = list_ex (\<lambda>entry. snd entry) (parse_lines active_line ls), data_attached = attached\<rparr>))"

record pdp_context =
  pdp_cid :: int
  pdp_type :: jstr
  pdp_apn :: jstr
  pdp_active :: bool
  pdp_address :: "jstr option"

definition defined_line :: "jstr \<Rightarrow> (int \<times> jstr \<times> jstr) option" where
  "defined_line line =
     (case rx_exec CGDCONT_REGEX line of
        Some [Some cid, Some pdpType, Some apn, _] \<Rightarrow> Some (decimal cid, pdpType, apn)
      | _ \<Rightarrow> None)"

definition address_line :: "jstr \<Rightarrow> (int \<times> jstr) option" where
  "address_line line =
     (case rx_exec CGPADDR_REGEX line of
        Some [Some cid, Some address] \<Rightarrow> if address = [] then None else Some (decimal cid, address)
      | _ \<Rightarrow> None)"

definition by_cid :: "(int \<times> 'v) list \<Rightarrow> (int \<times> 'v) list" where
  "by_cid entries = foldl (\<lambda>m (cid, v). map_set cid v m) [] entries"

definition merge_contexts ::
  "(int \<times> jstr \<times> jstr) list \<Rightarrow> (int \<times> bool) list \<Rightarrow> (int \<times> jstr) list \<Rightarrow> pdp_context list" where
  "merge_contexts defined active addresses =
     map (\<lambda>(cid, pdpType, apn). \<lparr>pdp_cid = cid, pdp_type = pdpType, pdp_apn = apn,
       pdp_active = or_else (map_of active cid) False, pdp_address = map_of addresses cid\<rparr>) defined"

definition contexts :: "pdp_context list script" where
  "contexts =
     script_bind (query (js ''AT+CGDCONT?'') no_options Inr) (\<lambda>definedLines.
       let defined = by_cid (parse_lines defined_line definedLines)
       in if defined = [] then Return []
          else
            script_bind (query (js ''AT+CGACT?'') no_options Inr) (\<lambda>activeLines.
            script_bind (query (js ''AT+CGPADDR'') no_options Inr) (\<lambda>addressLines.
              Return (merge_contexts defined (by_cid (parse_lines active_line activeLines))
                (by_cid (parse_lines address_line addressLines))))))"

definition defineContext :: "int \<Rightarrow> jstr \<Rightarrow> jstr \<Rightarrow> unit script" where
  "defineContext cid pdpType apn =
     command (js ''AT+CGDCONT='' @ js_show_int cid @ comma @ quoted pdpType @ comma @ quoted apn) no_options"

definition activate :: "int \<Rightarrow> unit script" where
  "activate cid = command (js ''AT+CGACT=1,'' @ js_show_int cid) (with_timeout ACTIVATE_TIMEOUT)"

definition deactivate :: "int \<Rightarrow> unit script" where
  "deactivate cid = command (js ''AT+CGACT=0,'' @ js_show_int cid) (with_timeout ACTIVATE_TIMEOUT)"

definition modify :: "int \<Rightarrow> unit script" where
  "modify cid = command (js ''AT+CGCMOD='' @ js_show_int cid) (with_timeout ACTIVATE_TIMEOUT)"

section \<open>Dynamic parameters\<close>

record dynamic_params =
  dyn_cid :: int
  dyn_bearerId :: int
  dyn_apn :: "jstr option"
  dyn_local :: "jstr option"
  dyn_gateway :: "jstr option"
  dyn_primaryDns :: "jstr option"
  dyn_secondaryDns :: "jstr option"

definition dynamic_line :: "jstr \<Rightarrow> dynamic_params option" where
  "dynamic_line line =
     (case rx_exec CGCONTRDP_REGEX line of
        Some [Some cid, Some bearer, apn, localAddr, gwAddr, dnsPrim, dnsSec] \<Rightarrow>
          Some \<lparr>dyn_cid = decimal cid, dyn_bearerId = decimal bearer, dyn_apn = nonempty apn,
            dyn_local = nonempty localAddr, dyn_gateway = nonempty gwAddr, dyn_primaryDns = nonempty dnsPrim,
            dyn_secondaryDns = nonempty dnsSec\<rparr>
      | _ \<Rightarrow> None)"

definition dynamicParameters :: "int option \<Rightarrow> dynamic_params list script" where
  "dynamicParameters cid =
     query (case cid of None \<Rightarrow> js ''AT+CGCONTRDP'' | Some c \<Rightarrow> js ''AT+CGCONTRDP='' @ js_show_int c) no_options
       (\<lambda>ls. Inr (parse_lines dynamic_line ls))"

section \<open>Authentication\<close>

definition setAuthentication :: "int \<Rightarrow> pdp_auth \<Rightarrow> jstr option \<Rightarrow> jstr option \<Rightarrow> unit script" where
  "setAuthentication cid authType username password =
     command (js ''AT+CGAUTH='' @ js_show_int cid @ comma @ js_show_int (AUTH_TYPE_TO_CODE authType)
       @ (case username of
            None \<Rightarrow> []
          | Some u \<Rightarrow> comma @ quoted u @ (case password of None \<Rightarrow> [] | Some p \<Rightarrow> comma @ quoted p))) no_options"

section \<open>Quality of service\<close>

record eps_qos =
  qos_cid :: int
  qos_qci :: int
  qos_dlGbr :: "int option"
  qos_ulGbr :: "int option"
  qos_dlMbr :: "int option"
  qos_ulMbr :: "int option"

definition qos_line :: "jstr \<Rightarrow> eps_qos option" where
  "qos_line line =
     (case rx_exec CGEQOS_REGEX line of
        Some [Some cid, Some qci, dlGbr, ulGbr, dlMbr, ulMbr] \<Rightarrow>
          Some \<lparr>qos_cid = decimal cid, qos_qci = decimal qci, qos_dlGbr = map_option decimal dlGbr,
            qos_ulGbr = map_option decimal ulGbr, qos_dlMbr = map_option decimal dlMbr,
            qos_ulMbr = map_option decimal ulMbr\<rparr>
      | _ \<Rightarrow> None)"

definition parseEpsQosLines :: "jstr list \<Rightarrow> eps_qos list" where
  "parseEpsQosLines ls = parse_lines qos_line ls"

definition epsQos :: "int option \<Rightarrow> eps_qos list script" where
  "epsQos cid =
     query (case cid of None \<Rightarrow> js ''AT+CGEQOS?'' | Some c \<Rightarrow> js ''AT+CGEQOS='' @ js_show_int c) no_options
       (\<lambda>ls. Inr (parseEpsQosLines ls))"

definition negotiatedEpsQos :: "int option \<Rightarrow> eps_qos list script" where
  "negotiatedEpsQos cid =
     query (case cid of None \<Rightarrow> js ''AT+CGEQOSRDP'' | Some c \<Rightarrow> js ''AT+CGEQOSRDP='' @ js_show_int c) no_options
       (\<lambda>ls. Inr (parseEpsQosLines ls))"

definition qos_arguments :: "eps_qos \<Rightarrow> jstr" where
  "qos_arguments q =
     js_show_int (qos_cid q) @ comma @ js_show_int (qos_qci q)
     @ (case (qos_dlGbr q, qos_ulGbr q) of
          (Some dl, Some ul) \<Rightarrow> comma @ js_show_int dl @ comma @ js_show_int ul
            @ (case (qos_dlMbr q, qos_ulMbr q) of
                 (Some dlM, Some ulM) \<Rightarrow> comma @ js_show_int dlM @ comma @ js_show_int ulM
               | _ \<Rightarrow> [])
        | _ \<Rightarrow> [])"

definition setEpsQos :: "eps_qos \<Rightarrow> unit script" where
  "setEpsQos q = command (js ''AT+CGEQOS='' @ qos_arguments q) no_options"

section \<open>Mode of operation\<close>

definition parse_ueMode :: "jstr list \<Rightarrow> cellary_error + ue_mode" where
  "parse_ueMode ls =
     ebind (first_line (js ''AT+CEMODE?'') ls) (\<lambda>line.
     ebind (matched (js ''AT+CEMODE?'') CEMODE_REGEX line) (\<lambda>gs.
       case gs of
         [Some mode] \<Rightarrow>
           (case parseUeMode (decimal mode) of
              None \<Rightarrow> Inl (ParseError (js ''Unknown UE mode code: '' @ js_show_int (decimal mode)) line)
            | Some m \<Rightarrow> Inr m)
       | _ \<Rightarrow> Inl (ParseError (js ''AT+CEMODE? missing mode value'') line)))"

definition ueMode :: "ue_mode script" where
  "ueMode = query (js ''AT+CEMODE?'') no_options parse_ueMode"

definition setUeMode :: "ue_mode \<Rightarrow> unit script" where
  "setUeMode mode = command (js ''AT+CEMODE='' @ js_show_int (UE_MODE_TO_CODE mode)) no_options"

section \<open>Properties\<close>

lemma nonneg_show: "0 \<le> i \<Longrightarrow> js_show_int i = js_toString 10 (nat i)"
  by (simp add: js_show_int_def)

definition qos_valid :: "eps_qos \<Rightarrow> bool" where
  "qos_valid q \<longleftrightarrow> 0 \<le> qos_cid q \<and> 0 \<le> qos_qci q \<and>
     (\<forall>r \<in> {qos_dlGbr q, qos_ulGbr q, qos_dlMbr q, qos_ulMbr q}. case r of None \<Rightarrow> True | Some i \<Rightarrow> 0 \<le> i)"

text \<open>What a command can carry: the maximum rates only with both guaranteed rates, a pair of rates only as a whole.\<close>

definition qos_sent :: "eps_qos \<Rightarrow> eps_qos" where
  "qos_sent q =
     (let gbr = qos_dlGbr q \<noteq> None \<and> qos_ulGbr q \<noteq> None; mbr = gbr \<and> qos_dlMbr q \<noteq> None \<and> qos_ulMbr q \<noteq> None
      in \<lparr>qos_cid = qos_cid q, qos_qci = qos_qci q, qos_dlGbr = if gbr then qos_dlGbr q else None,
          qos_ulGbr = if gbr then qos_ulGbr q else None, qos_dlMbr = if mbr then qos_dlMbr q else None,
          qos_ulMbr = if mbr then qos_ulMbr q else None\<rparr>)"

lemma qos_printed:
  assumes "qos_valid q"
  shows "qos_line (js ''+CGEQOS: '' @ qos_arguments q) = Some (qos_sent q)"
proof -
  obtain cid qci dl ul dlM ulM where q: "q = \<lparr>qos_cid = cid, qos_qci = qci, qos_dlGbr = dl, qos_ulGbr = ul, qos_dlMbr = dlM, qos_ulMbr = ulM\<rparr>"
    by (cases q)
  let ?s = "qos_sent q"
  have "rx_exec CGEQOS_REGEX (js ''+CGEQOS: '' @ qos_arguments q) =
      Some [Some (js_toString 10 (nat cid)), Some (js_toString 10 (nat qci)),
        map_option (\<lambda>i. js_toString 10 (nat i)) (qos_dlGbr ?s), map_option (\<lambda>i. js_toString 10 (nat i)) (qos_ulGbr ?s),
        map_option (\<lambda>i. js_toString 10 (nat i)) (qos_dlMbr ?s), map_option (\<lambda>i. js_toString 10 (nat i)) (qos_ulMbr ?s)]"
    using assms unfolding qos_valid_def q
    by (intro rx_exec_here [where t = "[]"]; cases dl; cases ul; cases dlM; cases ulM)
      (simp_all add: CGEQOS_REGEX_def qos_arguments_def qos_sent_def rx_eval rx_number nonneg_show js_def)
  moreover have "map_option decimal (map_option (\<lambda>i. js_toString 10 (nat i)) r) = r" if "case r of None \<Rightarrow> True | Some i \<Rightarrow> 0 \<le> i" for r
    using that by (cases r) simp_all
  ultimately show ?thesis
    using assms by (auto simp: qos_line_def qos_valid_def q qos_sent_def Let_def split: option.splits)
qed

text \<open>The quality of service that was set is read back from a modem that keeps the arguments of
  the command, when both rates of a pair are given and the maximum rates come with guaranteed ones; any other
  rate is dropped by the command without an error.
\<close>

theorem qos_round_trip:
  assumes "qos_valid q"
  shows "(\<exists>args. fst (run_script (setEpsQos q) []) = [(js ''AT+CGEQOS='' @ args, no_options)] \<and>
      snd (run_script (epsQos c) [Inr [js ''+CGEQOS: '' @ args]]) = Returned [qos_sent q]) \<and>
    (qos_sent q = q \<longleftrightarrow>
      (qos_dlGbr q = None \<longleftrightarrow> qos_ulGbr q = None) \<and> (qos_dlMbr q = None \<longleftrightarrow> qos_ulMbr q = None) \<and>
      (qos_dlMbr q \<noteq> None \<longrightarrow> qos_dlGbr q \<noteq> None))"
proof
  show "\<exists>args. fst (run_script (setEpsQos q) []) = [(js ''AT+CGEQOS='' @ args, no_options)] \<and>
      snd (run_script (epsQos c) [Inr [js ''+CGEQOS: '' @ args]]) = Returned [qos_sent q]"
    using qos_printed [OF assms] by (simp add: setEpsQos_def epsQos_def parseEpsQosLines_def parse_lines_def List.map_filter_simps)
  show "qos_sent q = q \<longleftrightarrow>
      (qos_dlGbr q = None \<longleftrightarrow> qos_ulGbr q = None) \<and> (qos_dlMbr q = None \<longleftrightarrow> qos_ulMbr q = None) \<and>
      (qos_dlMbr q \<noteq> None \<longrightarrow> qos_dlGbr q \<noteq> None)"
    by (cases q) (auto simp: qos_sent_def Let_def)
qed

lemma qos_round_trip_witness:
  "snd (run_script (epsQos None) [Inr [js ''+CGEQOS: 1,9'']]) =
     Returned [\<lparr>qos_cid = 1, qos_qci = 9, qos_dlGbr = None, qos_ulGbr = None, qos_dlMbr = None, qos_ulMbr = None\<rparr>]"
proof -
  let ?q = "\<lparr>qos_cid = 1, qos_qci = 9, qos_dlGbr = None, qos_ulGbr = None, qos_dlMbr = Some 100, qos_ulMbr = Some 50\<rparr>"
  have "qos_valid ?q" by (simp add: qos_valid_def)
  from qos_round_trip [OF this, of None] show ?thesis
    by (simp add: setEpsQos_def qos_arguments_def qos_sent_def js_def js_show_int_def)
qed

end
