(* ===== verification/At_Data_Props.thy ===== *)
theory At_Data_Props imports At_Data begin

text \<open>
  The contexts that the data service lists, what the log shows of an authentication, and where the fields
  of the dynamic parameters go.
\<close>

section \<open>Contexts\<close>

lemma map_of_by_cid: "map_of (by_cid xs) k = map_option snd (last_with fst k xs)"
  by (induction xs rule: rev_induct) (auto simp: by_cid_def last_with_def map_of_map_set)

lemma distinct_by_cid: "distinct (map fst (by_cid xs))"
  by (induction xs rule: rev_induct) (auto simp: by_cid_def keys_map_set)

lemma by_cid_eq_Nil: "by_cid xs = [] \<longleftrightarrow> xs = []"
proof (induction xs rule: rev_induct)
  case (snoc x xs)
  have "map_set k v m \<noteq> []" for k :: int and v :: 'a and m
    by (induction k v m rule: map_set.induct) auto
  then show ?case by (simp add: by_cid_def split_beta)
qed (simp add: by_cid_def)

definition print_defined :: "nat \<times> jstr \<times> jstr \<times> jstr \<Rightarrow> jstr" where
  "print_defined = (\<lambda>(cid, pdpType, apn, addr).
     js ''+CGDCONT: '' @ js_toString 10 cid @ comma @ quoted pdpType @ comma @ quoted apn @ comma @ quoted addr @ js '',0,0'')"

definition print_active :: "nat \<times> bool \<Rightarrow> jstr" where
  "print_active = (\<lambda>(cid, active). js ''+CGACT: '' @ js_toString 10 cid @ comma @ (if active then js ''1'' else js ''0''))"

definition print_address :: "nat \<times> jstr \<Rightarrow> jstr" where
  "print_address = (\<lambda>(cid, address). js ''+CGPADDR: '' @ js_toString 10 cid @ comma @ quoted address)"

lemma defined_printed:
  assumes "34 \<notin> set pdpType" "34 \<notin> set apn" "34 \<notin> set addr"
  shows "defined_line (print_defined (cid, pdpType, apn, addr)) = Some (int cid, pdpType, apn)"
proof -
  have "rx_exec CGDCONT_REGEX (print_defined (cid, pdpType, apn, addr)) =
      Some [Some (js_toString 10 cid), Some pdpType, Some apn, Some addr]"
    by (rule rx_exec_here [where t = "js '',0,0''"])
      (use assms in \<open>simp add: CGDCONT_REGEX_def print_defined_def quoted_def rx_eval rx_number js_def\<close>)
  then show ?thesis by (simp add: defined_line_def)
qed

lemma active_printed: "active_line (print_active (cid, active)) = Some (int cid, active)"
proof -
  let ?b = "if active then js ''1'' else js ''0''"
  have b: "rx_first rx_digits ?b = Some ([Some ?b], [])"
    using rx_first_digits [of ?b "[]"] by (simp add: js_def rx_digit_def)
  have "rx_exec CGACT_REGEX (print_active (cid, active)) = Some [Some (js_toString 10 cid), Some ?b]"
    by (rule rx_exec_here [where t = "[]"])
      (use b in \<open>simp add: CGACT_REGEX_def print_active_def rx_eval rx_number js_def\<close>)
  then show ?thesis by (simp add: active_line_def js_def)
qed

lemma address_printed:
  assumes "34 \<notin> set address" "address \<noteq> []"
  shows "address_line (print_address (cid, address)) = Some (int cid, address)"
proof -
  have "rx_exec CGPADDR_REGEX (print_address (cid, address)) = Some [Some (js_toString 10 cid), Some address]"
    by (rule rx_exec_here [where t = "[]"])
      (use assms(1) in \<open>simp add: CGPADDR_REGEX_def print_address_def quoted_def rx_eval rx_number js_def\<close>)
  then show ?thesis using assms(2) by (simp add: address_line_def)
qed

lemma last_with_map: "last_with f k (map g xs) = map_option g (last_with (f \<circ> g) k xs)"
proof -
  have "find P (map g ys) = map_option g (find (P \<circ> g) ys)" for P ys by (induction ys) auto
  then show ?thesis by (simp add: last_with_def rev_map comp_def)
qed

text \<open>The three lists that the answers give, with the identifiers as the code has them.\<close>

abbreviation defined_pairs where "defined_pairs ds \<equiv> map (\<lambda>(cid, pdpType, apn, addr). (int cid, pdpType, apn)) ds"
abbreviation active_pairs where "active_pairs as \<equiv> map (\<lambda>(cid, active). (int cid, active :: bool)) as"
abbreviation address_pairs where "address_pairs bs \<equiv> map (\<lambda>(cid, address). (int cid, address :: jstr)) bs"

lemma by_cid_pairs:
  "map_of (by_cid (defined_pairs ds)) (int cid) = map_option (\<lambda>x. (fst (snd x), fst (snd (snd x)))) (last_with fst cid ds)"
  "map_of (by_cid (active_pairs as)) (int cid) = map_option snd (last_with fst cid as)"
  "map_of (by_cid (address_pairs bs)) (int cid) = map_option snd (last_with fst cid bs)"
proof -
  have key: "(\<lambda>x. fst (case x of (cid, pdpType, apn, addr) \<Rightarrow> (int cid, pdpType, apn))) = (\<lambda>x. int (fst x))"
    "(\<lambda>x. fst (case x of (cid, active) \<Rightarrow> (int cid, active :: bool))) = (\<lambda>x. int (fst x))"
    "(\<lambda>x. fst (case x of (cid, address) \<Rightarrow> (int cid, address :: jstr))) = (\<lambda>x. int (fst x))"
    by auto
  have int_key: "last_with (\<lambda>x. int (fst x)) (int cid) xs = last_with fst cid xs" for xs :: "(nat \<times> 'v) list"
    by (simp add: last_with_def)
  show "map_of (by_cid (defined_pairs ds)) (int cid) = map_option (\<lambda>x. (fst (snd x), fst (snd (snd x)))) (last_with fst cid ds)"
    "map_of (by_cid (active_pairs as)) (int cid) = map_option snd (last_with fst cid as)"
    "map_of (by_cid (address_pairs bs)) (int cid) = map_option snd (last_with fst cid bs)"
    by (simp_all add: map_of_by_cid last_with_map comp_def key int_key option.map_comp split_beta)
qed

lemma by_cid_defined_key: "map_of (by_cid (defined_pairs ds)) k = Some v \<Longrightarrow> \<exists>n. k = int n"
  by (auto simp: map_of_by_cid last_with_map comp_def split_beta dest: last_with_key)

lemma mem_merge_contexts:
  "ctx \<in> set (merge_contexts (by_cid xs) active address) \<longleftrightarrow>
     map_of (by_cid xs) (pdp_cid ctx) = Some (pdp_type ctx, pdp_apn ctx) \<and>
     pdp_active ctx = or_else (map_of active (pdp_cid ctx)) False \<and> pdp_address ctx = map_of address (pdp_cid ctx)"
proof -
  have "ctx \<in> set (merge_contexts (by_cid xs) active address) \<longleftrightarrow>
      (\<exists>v. map_of (by_cid xs) (pdp_cid ctx) = Some v \<and> ctx = \<lparr>pdp_cid = pdp_cid ctx, pdp_type = fst v, pdp_apn = snd v,
        pdp_active = or_else (map_of active (pdp_cid ctx)) False, pdp_address = map_of address (pdp_cid ctx)\<rparr>)"
    by (auto simp: merge_contexts_def map_of_eq_Some_iff [OF distinct_by_cid] intro: rev_image_eqI)
  then show ?thesis by (cases ctx) auto
qed

lemma last_active: "or_else (map_option snd (last_with fst cid as)) False = (last_with fst cid as = Some (cid, True))"
  by (cases "last_with fst cid as") (auto simp: or_else_def prod_eq_iff dest: last_with_key)

lemma merged_contexts_iff:
  "ctx \<in> set (merge_contexts (by_cid (defined_pairs ds)) (by_cid (active_pairs as)) (by_cid (address_pairs bs))) \<longleftrightarrow>
     (\<exists>cid addr. pdp_cid ctx = int cid \<and> last_with fst cid ds = Some (cid, pdp_type ctx, pdp_apn ctx, addr) \<and>
       pdp_active ctx = (last_with fst cid as = Some (cid, True)) \<and> pdp_address ctx = map_option snd (last_with fst cid bs))"
  (is "?merged \<longleftrightarrow> (\<exists>cid addr. ?given cid addr)")
proof
  assume ?merged
  then have v: "map_of (by_cid (defined_pairs ds)) (pdp_cid ctx) = Some (pdp_type ctx, pdp_apn ctx)" by (simp add: mem_merge_contexts)
  then obtain cid where cid: "pdp_cid ctx = int cid" by (blast dest: by_cid_defined_key)
  obtain d where d: "last_with fst cid ds = Some d" "fst (snd d) = pdp_type ctx" "fst (snd (snd d)) = pdp_apn ctx"
    using v unfolding cid by_cid_pairs by auto
  then have "d = (cid, pdp_type ctx, pdp_apn ctx, snd (snd (snd d)))" using last_with_key [OF d(1)] by (auto simp: prod_eq_iff)
  then have "?given cid (snd (snd (snd d)))" using \<open>?merged\<close> cid d(1) by (simp add: mem_merge_contexts by_cid_pairs last_active)
  then show "\<exists>cid addr. ?given cid addr" by blast
next
  assume "\<exists>cid addr. ?given cid addr"
  then show ?merged by (auto simp: mem_merge_contexts by_cid_pairs last_active [symmetric])
qed

text \<open>C21: The contexts are those the modem defines, each identifier once and with its last definition;
  one is active when its last activation line says so and has the last address reported for it, whatever
  other contexts the activation and address lists name, in whatever order.
\<close>

theorem contexts_merged:
  assumes "ds \<noteq> []"
    and "\<forall>(cid, pdpType, apn, addr) \<in> set ds. 34 \<notin> set pdpType \<and> 34 \<notin> set apn \<and> 34 \<notin> set addr"
    and "\<forall>(cid, address) \<in> set bs. 34 \<notin> set address \<and> address \<noteq> []"
  shows "\<exists>ctxs. run_script contexts [Inr (map print_defined ds), Inr (map print_active as), Inr (map print_address bs)] =
      ([(js ''AT+CGDCONT?'', no_options), (js ''AT+CGACT?'', no_options), (js ''AT+CGPADDR'', no_options)], Returned ctxs) \<and>
    distinct (map pdp_cid ctxs) \<and>
    (\<forall>ctx. ctx \<in> set ctxs \<longleftrightarrow>
      (\<exists>cid addr. pdp_cid ctx = int cid \<and> last_with fst cid ds = Some (cid, pdp_type ctx, pdp_apn ctx, addr) \<and>
        pdp_active ctx = (last_with fst cid as = Some (cid, True)) \<and>
        pdp_address ctx = map_option snd (last_with fst cid bs)))"
proof -
  let ?ctxs = "merge_contexts (by_cid (defined_pairs ds)) (by_cid (active_pairs as)) (by_cid (address_pairs bs))"
  have lines: "parse_lines defined_line (map print_defined ds) = defined_pairs ds"
      "parse_lines active_line (map print_active as) = active_pairs as"
      "parse_lines address_line (map print_address bs) = address_pairs bs"
    by (rule parse_lines_print; use assms(2,3) defined_printed active_printed address_printed in fastforce)+
  have "run_script contexts [Inr (map print_defined ds), Inr (map print_active as), Inr (map print_address bs)] =
      ([(js ''AT+CGDCONT?'', no_options), (js ''AT+CGACT?'', no_options), (js ''AT+CGPADDR'', no_options)], Returned ?ctxs)"
    using assms(1) by (simp add: contexts_def run_script_bind lines by_cid_eq_Nil)
  moreover have "distinct (map pdp_cid ?ctxs)"
    using distinct_by_cid [of "defined_pairs ds"] by (simp add: merge_contexts_def comp_def split_beta)
  ultimately show ?thesis using merged_contexts_iff [of _ ds as bs] by blast
qed

lemma contexts_merged_witness:
  "\<exists>ctxs. snd (run_script contexts [Inr [js ''+CGDCONT: 1,\"IP\",\"net\",\"\",0,0''], Inr [js ''+CGACT: 1,1''], Inr []]) = Returned ctxs \<and>
    \<lparr>pdp_cid = 1, pdp_type = js ''IP'', pdp_apn = js ''net'', pdp_active = True, pdp_address = None\<rparr> \<in> set ctxs"
proof -
  let ?ds = "[(1 :: nat, js ''IP'', js ''net'', [])]" let ?as = "[(1 :: nat, True)]"
  have lines: "map print_defined ?ds = [js ''+CGDCONT: 1,\"IP\",\"net\",\"\",0,0'']" "map print_active ?as = [js ''+CGACT: 1,1'']"
    by (simp_all add: print_defined_def print_active_def quoted_def js_def)
  have ok: "?ds \<noteq> []" "\<forall>(cid, pdpType, apn, addr) \<in> set ?ds. 34 \<notin> set pdpType \<and> 34 \<notin> set apn \<and> 34 \<notin> set addr"
      "\<forall>(cid, address) \<in> set ([] :: (nat \<times> jstr) list). 34 \<notin> set address \<and> address \<noteq> []"
    by (simp_all add: js_def)
  show ?thesis
    using contexts_merged [OF ok, of ?as] unfolding lines
    by (elim exE conjE, intro exI conjI) (auto simp: last_with_def)
qed

section \<open>Authentication in the log\<close>

lemma mask_unmarked: "43 \<notin> set s \<Longrightarrow> 94 \<notin> set s \<Longrightarrow> maskAtSecrets s = s"
proof (induction s)
  case (Cons c s)
  have "match_group (c # s) = None"
  proof (rule ccontr)
    assume "match_group (c # s) \<noteq> None"
    then obtain g r where "c # s = g @ r" "sensitive_lead g" by (auto simp: match_group_iff)
    then obtain at d q where "c # s = at @ d # q @ r" "d = 43 \<or> d = 94" by (auto simp: lead_cases)
    then have "43 \<in> set (c # s) \<or> 94 \<in> set (c # s)" by auto
    with Cons.prems show False by simp
  qed
  then have "maskAtSecrets (c # s) = c # maskAtSecrets s" by (intro mask_skip) (simp add: match_secret_def)
  with Cons show ?case by simp
qed simp

lemma mask_cgauth: "43 \<notin> set s \<Longrightarrow> 94 \<notin> set s \<Longrightarrow> maskAtSecrets (js ''AT+CGAUTH='' @ s) = js ''AT+CGAUTH='' @ s"
proof -
  assume s: "43 \<notin> set s" "94 \<notin> set s"
  have none: "match_group (js ''AT+CGAUTH='' @ s) = None" "match_group (84 # js ''+CGAUTH='' @ s) = None"
    "match_group (js ''+CGAUTH='' @ s) = None"
    by (simp_all add: match_group_def match_token_def starts_ci_def SENSITIVE_TOKENS_def js_def js_toUpper_def js_upper1_def)
  have rest: "maskAtSecrets (js ''CGAUTH='' @ s) = js ''CGAUTH='' @ s"
    by (rule mask_unmarked) (use s in \<open>auto simp: js_def\<close>)
  have "maskAtSecrets (43 # js ''CGAUTH='' @ s) = 43 # js ''CGAUTH='' @ s"
    using mask_skip [of 43 "js ''CGAUTH='' @ s"] none(3) rest by (simp add: match_secret_def js_def)
  then have "maskAtSecrets (84 # 43 # js ''CGAUTH='' @ s) = 84 # 43 # js ''CGAUTH='' @ s"
    using mask_skip [of 84 "43 # js ''CGAUTH='' @ s"] none(2) by (simp add: match_secret_def js_def)
  then show "maskAtSecrets (js ''AT+CGAUTH='' @ s) = js ''AT+CGAUTH='' @ s"
    using mask_skip [of 65 "84 # 43 # js ''CGAUTH='' @ s"] none(1) by (simp add: match_secret_def js_def)
qed

text \<open>The password of an access point is not masked: the command that sets it goes through
  \<open>maskAtSecrets\<close> unchanged, so that the password stands in the log in clear.
\<close>

theorem auth_password_logged:
  assumes "\<forall>c \<in> set username \<union> set password. c \<noteq> 43 \<and> c \<noteq> 94"
  shows "\<exists>before. map (maskAtSecrets \<circ> fst) (fst (run_script (setAuthentication cid authType (Some username) (Some password)) rs)) =
    [before @ quoted password]"
proof -
  let ?args = "js_show_int cid @ comma @ js_show_int (AUTH_TYPE_TO_CODE authType) @ comma @ quoted username @ comma @ quoted password"
  have digits: "43 \<notin> set (js_show_int i)" "94 \<notin> set (js_show_int i)" for i
    using toString_digits(1) [of "nat i"] toString_digits(1) [of "nat (- i)"]
    by (auto simp: js_show_int_def list_all_iff rx_digit_def)
  have marks: "43 \<notin> set ?args" "94 \<notin> set ?args" using assms digits by (auto simp: quoted_def js_def)
  show ?thesis
    using mask_cgauth [OF marks] by (auto simp: setAuthentication_def)
qed

lemma auth_password_logged_witness:
  "\<exists>before. map (maskAtSecrets \<circ> fst) (fst (run_script (setAuthentication 1 Auth_Pap (Some (js ''user'')) (Some (js ''secret''))) [])) =
    [before @ quoted (js ''secret'')]"
  by (rule auth_password_logged) (simp add: js_def)

section \<open>Dynamic parameters\<close>

text \<open>
  The comment of the expression lists a subnet mask between the address and the gateway. The expression has
  one field less: on a line with the mask, the mask is taken for the gateway, the gateway for the first name
  server, and the second name server is lost.
\<close>

lemma dynamic_subnet_mask:
  assumes "\<forall>s \<in> {apn, addr, netmask, gw, dns1, dns2}. 34 \<notin> set s \<and> s \<noteq> []"
  shows "dynamic_line (js ''+CGCONTRDP: '' @ js_toString 10 cid @ comma @ js_toString 10 bearer @ comma @ quoted apn @ comma
      @ quoted addr @ comma @ quoted netmask @ comma @ quoted gw @ comma @ quoted dns1 @ comma @ quoted dns2) =
    Some \<lparr>dyn_cid = int cid, dyn_bearerId = int bearer, dyn_apn = Some apn, dyn_local = Some addr, dyn_gateway = Some netmask,
      dyn_primaryDns = Some gw, dyn_secondaryDns = Some dns1\<rparr>"
proof -
  have "rx_exec CGCONTRDP_REGEX (js ''+CGCONTRDP: '' @ js_toString 10 cid @ comma @ js_toString 10 bearer @ comma @ quoted apn @ comma
      @ quoted addr @ comma @ quoted netmask @ comma @ quoted gw @ comma @ quoted dns1 @ comma @ quoted dns2) =
    Some [Some (js_toString 10 cid), Some (js_toString 10 bearer), Some apn, Some addr, Some netmask, Some gw, Some dns1]"
    by (rule rx_exec_here [where t = "comma @ quoted dns2"])
      (use assms in \<open>simp add: CGCONTRDP_REGEX_def quoted_def rx_eval rx_number js_def\<close>)
  then show ?thesis using assms by (simp add: dynamic_line_def nonempty_def)
qed

end
