(* ===== verification/At_Radio.thy ===== *)
theory At_Radio imports At_Query Timer_Encoding begin

text \<open>
  \<^verbatim>\<open>packages/core/src/protocols/at/services/radio.ts\<close>: functionality, activity, access technology, power
  saving mode and eDRX, on top of the timer codes. Durations of GPRS timers are seconds, those of eDRX
  hundredths of a second. The text of a duration in an error of the encoder is an argument.
\<close>

section \<open>Modes\<close>

datatype functionality_mode = Fun_Minimum | Fun_Full | Tx_Disabled | Rx_Disabled | Airplane | Shutdown

definition CFUN_MODE_MAP :: "(int \<times> functionality_mode) list" where
  "CFUN_MODE_MAP = [(0, Fun_Minimum), (1, Fun_Full), (2, Tx_Disabled), (3, Rx_Disabled), (4, Airplane), (129, Shutdown)]"

fun MODE_TO_CFUN :: "functionality_mode \<Rightarrow> int" where
  "MODE_TO_CFUN Fun_Minimum = 0"
| "MODE_TO_CFUN Fun_Full = 1"
| "MODE_TO_CFUN Tx_Disabled = 2"
| "MODE_TO_CFUN Rx_Disabled = 3"
| "MODE_TO_CFUN Airplane = 4"
| "MODE_TO_CFUN Shutdown = 129"

datatype activity_status = Act_Ready | Act_Unavailable | Act_Unknown | Act_Ringing | Call_In_Progress | Act_Asleep

definition CPAS_STATUS_MAP :: "(int \<times> activity_status) list" where
  "CPAS_STATUS_MAP = [(0, Act_Ready), (1, Act_Unavailable), (2, Act_Unknown), (3, Act_Ringing), (4, Call_In_Progress), (5, Act_Asleep)]"

datatype wireless_mode = Ws_Gsm | Ws_Utran | Ws_Auto | Ws_Lte | Gsm_And_Utran | Gsm_And_Lte | Utran_And_Lte | Auto_With_5g | Nr_Only

definition WS46_TO_MODE :: "(int \<times> wireless_mode) list" where
  "WS46_TO_MODE = [(12, Ws_Gsm), (22, Ws_Utran), (25, Ws_Auto), (28, Ws_Lte), (29, Gsm_And_Utran), (30, Gsm_And_Lte),
     (31, Utran_And_Lte), (35, Auto_With_5g), (36, Nr_Only)]"

fun MODE_TO_WS46 :: "wireless_mode \<Rightarrow> int" where
  "MODE_TO_WS46 Ws_Gsm = 12"
| "MODE_TO_WS46 Ws_Utran = 22"
| "MODE_TO_WS46 Ws_Auto = 25"
| "MODE_TO_WS46 Ws_Lte = 28"
| "MODE_TO_WS46 Gsm_And_Utran = 29"
| "MODE_TO_WS46 Gsm_And_Lte = 30"
| "MODE_TO_WS46 Utran_And_Lte = 31"
| "MODE_TO_WS46 Auto_With_5g = 35"
| "MODE_TO_WS46 Nr_Only = 36"

definition EDRX_ACT_MAP :: "(int \<times> edrx_access) list" where
  "EDRX_ACT_MAP = [(0, No_Edrx), (1, Ec_Gsm_Iot), (2, Gsm), (3, Utran), (4, Eutran_Wb), (5, Eutran_Nb)]"

fun ACT_TO_EDRX :: "edrx_access \<Rightarrow> int" where
  "ACT_TO_EDRX No_Edrx = 0"
| "ACT_TO_EDRX Ec_Gsm_Iot = 1"
| "ACT_TO_EDRX Gsm = 2"
| "ACT_TO_EDRX Utran = 3"
| "ACT_TO_EDRX Eutran_Wb = 4"
| "ACT_TO_EDRX Eutran_Nb = 5"

text \<open>A response of one number that a table decodes, as in \<open>functionality\<close>, \<open>activityStatus\<close> and \<open>wirelessService\<close>.\<close>

definition number_regex :: "string \<Rightarrow> rx" where
  "number_regex prefix = rx_cat [Rx_Lit (js prefix), rx_spaces, rx_digits]"

definition CFUN_REGEX :: rx where "CFUN_REGEX = number_regex ''+CFUN:''"
definition CPAS_REGEX :: rx where "CPAS_REGEX = number_regex ''+CPAS:''"
definition WS46_REGEX :: rx where "WS46_REGEX = number_regex ''+WS46:''"

definition coded_answer ::
  "jstr \<Rightarrow> rx \<Rightarrow> jstr \<Rightarrow> jstr \<Rightarrow> (int \<times> 'a) list \<Rightarrow> jstr list \<Rightarrow> cellary_error + 'a" where
  "coded_answer cmd regex missing unknown table ls =
     ebind (first_line cmd ls) (\<lambda>line.
     ebind (matched cmd regex line) (\<lambda>gs.
       case gs of
         [Some number] \<Rightarrow>
           (case map_of table (decimal number) of
              None \<Rightarrow> Inl (ParseError (unknown @ js_show_int (decimal number)) line)
            | Some mode \<Rightarrow> Inr mode)
       | _ \<Rightarrow> Inl (ParseError missing line)))"

definition functionality :: "functionality_mode script" where
  "functionality = query (js ''AT+CFUN?'') no_options
     (coded_answer (js ''AT+CFUN?'') CFUN_REGEX (js ''AT+CFUN? missing functionality code'') (js ''Unknown CFUN mode '') CFUN_MODE_MAP)"

definition setFunctionality :: "functionality_mode \<Rightarrow> bool option \<Rightarrow> unit script" where
  "setFunctionality mode reset =
     command (js ''AT+CFUN='' @ js_show_int (MODE_TO_CFUN mode) @ (if reset = Some True then js '',1'' else [])) no_options"

definition CEER_REGEX :: rx where
  "CEER_REGEX = rx_cat [Rx_Lit (js ''+CEER:''), rx_spaces, Rx_Group (Rx_Plus rx_dot)]"

definition parse_lastError :: "jstr list \<Rightarrow> jstr" where
  "parse_lastError ls =
     (case ls of
        [] \<Rightarrow> js ''No report available''
      | line # _ \<Rightarrow>
          (case rx_exec CEER_REGEX line of
             None \<Rightarrow> js_trim line
           | Some [Some report] \<Rightarrow> js_trim report
           | Some _ \<Rightarrow> js ''No report available''))"

definition lastError :: "jstr script" where
  "lastError = query (js ''AT+CEER'') no_options (\<lambda>ls. Inr (parse_lastError ls))"

definition activityStatus :: "activity_status script" where
  "activityStatus = query (js ''AT+CPAS'') no_options
     (coded_answer (js ''AT+CPAS'') CPAS_REGEX (js ''AT+CPAS missing status code'') (js ''Unknown CPAS status '') CPAS_STATUS_MAP)"

definition wirelessService :: "wireless_mode script" where
  "wirelessService = query (js ''AT+WS46?'') no_options
     (coded_answer (js ''AT+WS46?'') WS46_REGEX (js ''AT+WS46? missing value'') (js ''Unknown WS46 code '') WS46_TO_MODE)"

definition setWirelessService :: "wireless_mode \<Rightarrow> unit script" where
  "setWirelessService mode = command (js ''AT+WS46='' @ js_show_int (MODE_TO_WS46 mode)) no_options"

section \<open>Power saving mode\<close>

definition rx_bit :: "nat \<Rightarrow> bool" where
  "rx_bit c \<longleftrightarrow> c = 48 \<or> c = 49"

definition timer_field :: rx where
  "timer_field = Rx_Opt (Rx_Group (rx_cat [Rx_Opt (Rx_Lit [34]), Rx_Star rx_bit, Rx_Opt (Rx_Lit [34])]))"

definition CPSMS_REGEX :: rx where
  "CPSMS_REGEX = rx_cat [Rx_Lit (js ''+CPSMS:''), rx_spaces, Rx_Group (Rx_One rx_digit),
     Rx_Opt (rx_cat [Rx_Lit comma, timer_field, Rx_Lit comma, timer_field, Rx_Lit comma, timer_field, Rx_Lit comma, timer_field])]"

definition unquoteTimer :: "jstr option \<Rightarrow> jstr option" where
  "unquoteTimer quoted_timer =
     (case quoted_timer of
        None \<Rightarrow> None
      | Some s \<Rightarrow>
          if s = [] \<or> s = [34, 34] then None
          else
            (let opened = (if take 1 s = [34] then drop 1 s else s);
                 plain = (if opened \<noteq> [] \<and> last opened = 34 then butlast opened else opened)
             in nonempty (Some plain)))"

record psm_config =
  psm_enabled :: bool
  psm_sleep :: "int option"
  psm_active :: "int option"

definition parse_psm :: "jstr list \<Rightarrow> cellary_error + psm_config" where
  "parse_psm ls =
     ebind (first_line (js ''AT+CPSMS?'') ls) (\<lambda>line.
     ebind (matched (js ''AT+CPSMS?'') CPSMS_REGEX line) (\<lambda>gs.
       case gs of
         [Some mode, rauRaw, _, tauRaw, activeRaw] \<Rightarrow>
           Inr \<lparr>psm_enabled = (mode = js ''1''),
             psm_sleep = (case unquoteTimer tauRaw of
                 Some tau \<Rightarrow> decodeGprsTimer3 tau
               | None \<Rightarrow> (case unquoteTimer rauRaw of Some rau \<Rightarrow> decodeGprsTimer rau | None \<Rightarrow> None)),
             psm_active = (case unquoteTimer activeRaw of Some active \<Rightarrow> decodeGprsTimer active | None \<Rightarrow> None)\<rparr>
       | _ \<Rightarrow> Inl (ParseError (js ''AT+CPSMS? missing mode'') line)))"

definition powerSavingMode :: "psm_config script" where
  "powerSavingMode = query (js ''AT+CPSMS?'') no_options parse_psm"

definition psm_arguments :: "psm_config \<Rightarrow> cellary_error + jstr" where
  "psm_arguments config =
     ebind (case psm_sleep config of
         None \<Rightarrow> Inr comma
       | Some s \<Rightarrow> ebind (encodeGprsTimer3 s) (\<lambda>c. Inr (comma @ quoted c))) (\<lambda>tau.
     ebind (case psm_active config of
         None \<Rightarrow> Inr []
       | Some s \<Rightarrow> ebind (encodeGprsTimer s) (\<lambda>c. Inr (comma @ quoted c))) (\<lambda>active.
       Inr (js_show_int (if psm_enabled config then 1 else 0) @ comma @ comma @ tau @ active)))"

definition setPowerSavingMode :: "psm_config \<Rightarrow> unit script" where
  "setPowerSavingMode config =
     script_bind (throwing (psm_arguments config)) (\<lambda>args. command (js ''AT+CPSMS='' @ args) no_options)"

definition resetPowerSavingMode :: "unit script" where
  "resetPowerSavingMode = command (js ''AT+CPSMS=2'') no_options"

section \<open>eDRX\<close>

definition CEDRXS_LINE_REGEX :: rx where
  "CEDRXS_LINE_REGEX = rx_cat [Rx_Lit (js ''+CEDRXS:''), rx_spaces, rx_digits, Rx_Lit (comma @ [34]),
     Rx_Group (Rx_Plus rx_bit), Rx_Lit [34]]"

definition bits_field :: rx where
  "bits_field = rx_cat [Rx_Lit (comma @ [34]), Rx_Group (Rx_Star rx_bit), Rx_Lit [34]]"

definition CEDRXRDP_REGEX :: rx where
  "CEDRXRDP_REGEX = rx_cat [Rx_Lit (js ''+CEDRXRDP:''), rx_spaces, rx_digits,
     Rx_Opt (rx_cat [bits_field, Rx_Opt (rx_cat [bits_field, Rx_Opt bits_field])])]"

definition edrx_line :: "jstr \<Rightarrow> (edrx_access \<times> int) option" where
  "edrx_line line =
     (case rx_exec CEDRXS_LINE_REGEX line of
        Some [Some act, Some bits] \<Rightarrow>
          (case map_of EDRX_ACT_MAP (decimal act) of
             None \<Rightarrow> None
           | Some accessType \<Rightarrow> map_option (Pair accessType) (decodeEdrxCycle bits accessType))
      | _ \<Rightarrow> None)"

definition edrxSettings :: "(edrx_access \<times> int) list script" where
  "edrxSettings = query (js ''AT+CEDRXS?'') no_options (\<lambda>ls. Inr (parse_lines edrx_line ls))"

definition setEdrx :: "(int \<Rightarrow> jstr) \<Rightarrow> edrx_access \<Rightarrow> int \<Rightarrow> unit script" where
  "setEdrx show_seconds accessType cycle =
     script_bind (throwing (encodeEdrxCycle show_seconds cycle accessType)) (\<lambda>binaryCode.
       command (js ''AT+CEDRXS=2,'' @ js_show_int (ACT_TO_EDRX accessType) @ comma @ quoted binaryCode) no_options)"

definition disableEdrx :: "unit script" where "disableEdrx = command (js ''AT+CEDRXS=0'') no_options"
definition resetEdrx :: "unit script" where "resetEdrx = command (js ''AT+CEDRXS=3'') no_options"

record edrx_params =
  dynamic_access :: edrx_access
  requested_cycle :: "int option"
  network_cycle :: "int option"
  paging_window :: "int option"

definition parse_edrx_params :: "jstr list \<Rightarrow> cellary_error + edrx_params" where
  "parse_edrx_params ls =
     ebind (first_line (js ''AT+CEDRXRDP'') ls) (\<lambda>line.
     ebind (matched (js ''AT+CEDRXRDP'') CEDRXRDP_REGEX line) (\<lambda>gs.
       case gs of
         [Some act, requested, network, paging] \<Rightarrow>
           (case map_of EDRX_ACT_MAP (decimal act) of
              None \<Rightarrow> Inl (ParseError (js ''Unknown eDRX access type '' @ act) line)
            | Some accessType \<Rightarrow>
                Inr \<lparr>dynamic_access = accessType,
                  requested_cycle = (case nonempty requested of None \<Rightarrow> None | Some b \<Rightarrow> decodeEdrxCycle b accessType),
                  network_cycle = (case nonempty network of None \<Rightarrow> None | Some b \<Rightarrow> decodeEdrxCycle b accessType),
                  paging_window = (case nonempty paging of None \<Rightarrow> None | Some b \<Rightarrow> decodePagingWindow b accessType)\<rparr>)
       | _ \<Rightarrow> Inl (ParseError (js ''AT+CEDRXRDP missing access type'') line)))"

definition edrxDynamicParams :: "edrx_params script" where
  "edrxDynamicParams = query (js ''AT+CEDRXRDP'') no_options parse_edrx_params"

section \<open>Signalling connection\<close>

definition CSCON_READ_REGEX :: rx where
  "CSCON_READ_REGEX = rx_cat [Rx_Lit (js ''+CSCON:''), rx_spaces, Rx_Plus rx_digit, Rx_Lit comma, rx_digits,
     Rx_Opt (rx_cat [Rx_Lit comma, rx_digits])]"

definition parse_connected :: "jstr list \<Rightarrow> cellary_error + bool" where
  "parse_connected ls =
     ebind (first_line (js ''AT+CSCON?'') ls) (\<lambda>line.
     ebind (matched (js ''AT+CSCON?'') CSCON_READ_REGEX line) (\<lambda>gs.
       case gs of
         [Some mode, _] \<Rightarrow> Inr (decimal mode \<noteq> 0)
       | _ \<Rightarrow> Inl (ParseError (js ''AT+CSCON? missing mode'') line)))"

definition signallingConnection :: "bool script" where
  "signallingConnection = query (js ''AT+CSCON?'') no_options parse_connected"

end
