(* ===== verification/At_Radio_Props.thy ===== *)
theory At_Radio_Props imports At_Radio begin

text \<open>
  What the radio service writes it reads back: power saving timers and eDRX cycles through their binary
  codes, and the modes through their tables.
\<close>

section \<open>Codes are binary\<close>

lemma bits_digits: "list_all rx_bit (replicate k 48)" "list_all rx_bit (js_toString 2 n)"
  using js_toString_digits [of 2 n] by (auto simp: list_all_iff rx_bit_def less_Suc_eq_le)

lemma exact_code_bits: "exact_code s units = Some c \<Longrightarrow> list_all rx_bit c"
proof (induction s units rule: exact_code.induct)
  case (2 s u sec units)
  then show ?case by (auto simp: timer_code_def js_padStart_def bits_digits split: if_splits)
qed simp

lemma nearest_code_bits: "nearest_code s units = Some c \<Longrightarrow> list_all rx_bit c"
proof (induction s units rule: nearest_code.induct)
  case (2 s u sec units)
  then show ?case by (auto simp: timer_code_def js_padStart_def bits_digits Let_def split: if_splits)
qed simp

lemma encode_timer_bits: "encode_timer name units s = Inr c \<Longrightarrow> list_all rx_bit c"
  by (auto simp: encode_timer_def exact_code_bits nearest_code_bits split: option.splits)

lemma encode_edrx_bits: "encodeEdrxCycle show s a = Inr c \<Longrightarrow> list_all rx_bit c"
  by (auto simp: encodeEdrxCycle_def js_padStart_def bits_digits split: option.splits prod.splits)

lemma timer3_code:
  assumes "decodeGprsTimer3 b = Some s"
  shows "\<exists>c. encodeGprsTimer3 s = Inr c \<and> list_all rx_bit c \<and> c \<noteq> [] \<and> decodeGprsTimer3 c = Some s"
proof -
  have "decode_timer (rev GPRS_TIMER3_UNITS) b = Some s"
    using assms decode_timer_rev [of GPRS_TIMER3_UNITS] by (simp add: decodeGprsTimer3_def GPRS_TIMER3_UNITS_def)
  from encode_decode [OF units_ok(3) this] obtain c where c: "encode_timer ''GPRS Timer 3'' (rev GPRS_TIMER3_UNITS) s = Inr c"
      "length c = 8" "decode_timer (rev GPRS_TIMER3_UNITS) c = Some s" by blast
  moreover have "decodeGprsTimer3 c = Some s"
    using c(3) decode_timer_rev [of GPRS_TIMER3_UNITS] by (simp add: decodeGprsTimer3_def GPRS_TIMER3_UNITS_def)
  ultimately show ?thesis using encode_timer_bits [OF c(1)] by (auto simp: encodeGprsTimer3_def)
qed

lemma timer_code':
  assumes "decodeGprsTimer b = Some s"
  shows "\<exists>c. encodeGprsTimer s = Inr c \<and> list_all rx_bit c \<and> c \<noteq> [] \<and> decodeGprsTimer c = Some s"
proof -
  have "decode_timer GPRS_TIMER_UNITS b = Some s" using assms by (simp add: decodeGprsTimer_def)
  from encode_decode [OF units_ok(1) this] obtain c where c: "encode_timer ''GPRS Timer'' GPRS_TIMER_UNITS s = Inr c"
      "length c = 8" "decode_timer GPRS_TIMER_UNITS c = Some s" by blast
  then show ?thesis using encode_timer_bits [OF c(1)] by (auto simp: encodeGprsTimer_def decodeGprsTimer_def)
qed

section \<open>Fields\<close>

lemma bits_run: "list_all rx_bit c \<Longrightarrow> rx_first (Rx_Star rx_bit) (c @ 34 # t) = Some ([], 34 # t)"
  by (simp add: rx_first_Star dropWhile_class rx_bit_def)

lemma timer_field_quoted:
  assumes "list_all rx_bit c"
  shows "rx_first timer_field (quoted c @ t) = Some ([Some (quoted c)], t)"
  using bits_run [OF assms] by (simp add: timer_field_def quoted_def rx_eval rx_first_Group)

lemma timer_field_empty: "rx_first timer_field (44 # t) = Some ([None], 44 # t)" "rx_first timer_field [] = Some ([None], [])"
  by (simp_all add: timer_field_def rx_first_def rx_bit_def js_startsWith_def)

lemma unquote_quoted: "list_all rx_bit c \<Longrightarrow> c \<noteq> [] \<Longrightarrow> unquoteTimer (Some (quoted c)) = Some c"
  by (simp add: unquoteTimer_def quoted_def nonempty_def)

section \<open>Round trips\<close>

text \<open>A power saving configuration whose durations the timers can represent is read back as it was
  set, from a modem that reports the arguments of the command: both durations pass through their binary codes
  and the empty fields of the older technologies are skipped.
\<close>

theorem psm_round_trip:
  assumes "case psm_sleep config of None \<Rightarrow> True | Some s \<Rightarrow> \<exists>b. decodeGprsTimer3 b = Some s"
    and "\<exists>s b. psm_active config = Some s \<and> decodeGprsTimer b = Some s"
  shows "\<exists>args. fst (run_script (setPowerSavingMode config) rs) = [(js ''AT+CPSMS='' @ args, no_options)] \<and>
    snd (run_script powerSavingMode [Inr [js ''+CPSMS: '' @ args]]) = Returned config"
proof -
  obtain s b where s: "psm_active config = Some s" "decodeGprsTimer b = Some s" using assms(2) by blast
  obtain active where active: "encodeGprsTimer s = Inr active" "list_all rx_bit active" "active \<noteq> []" "decodeGprsTimer active = Some s"
    using timer_code' [OF s(2)] by blast
  obtain tau where tau: "case psm_sleep config of None \<Rightarrow> tau = []
      | Some d \<Rightarrow> encodeGprsTimer3 d = Inr tau \<and> list_all rx_bit tau \<and> tau \<noteq> [] \<and> decodeGprsTimer3 tau = Some d"
    using assms(1) timer3_code by (cases "psm_sleep config") auto
  let ?mode = "if psm_enabled config then js ''1'' else js ''0''"
  let ?args = "?mode @ comma @ comma @ comma @ (if psm_sleep config = None then [] else quoted tau) @ comma @ quoted active"
  have args: "psm_arguments config = Inr ?args"
    using tau s(1) active(1) by (auto simp: psm_arguments_def js_show_int_def js_def split: option.splits)
  have spaces: "rx_first rx_spaces (32 # ?mode @ t) = Some ([], ?mode @ t)" for t
    by (simp add: rx_first_Star js_white_def js_def)
  have mode: "rx_first (Rx_Group (Rx_One rx_digit)) (?mode @ t) = Some ([Some ?mode], t)" for t
    by (simp add: rx_first_Group rx_first_One js_def rx_digit_def)
  have last: "rx_first timer_field (quoted active) = Some ([Some (quoted active)], [])"
    using timer_field_quoted [OF active(2), of "[]"] by simp
  have "rx_exec CPSMS_REGEX (js ''+CPSMS: '' @ ?args) =
      Some [Some ?mode, None, None, (if psm_sleep config = None then None else Some (quoted tau)), Some (quoted active)]"
  proof (rule rx_exec_here)
    show "rx_first CPSMS_REGEX (js ''+CPSMS: '' @ ?args) =
      Some ([Some ?mode, None, None, (if psm_sleep config = None then None else Some (quoted tau)), Some (quoted active)], [])"
    proof (cases "psm_sleep config")
      case None
      then show ?thesis
        using spaces mode last by (simp add: CPSMS_REGEX_def rx_eval timer_field_empty js_def)
    next
      case (Some d)
      then have "list_all rx_bit tau" using tau by simp
      then show ?thesis
        using Some spaces mode last timer_field_quoted [of tau] by (simp add: CPSMS_REGEX_def rx_eval timer_field_empty js_def)
    qed
  qed
  moreover have "?mode = js ''1'' \<longleftrightarrow> psm_enabled config" by (simp add: js_def)
  ultimately have "parse_psm [js ''+CPSMS: '' @ ?args] = Inr config"
    using tau s(1) active by (cases "psm_sleep config"; cases config)
      (auto simp: parse_psm_def first_line_def matched_def unquote_quoted unquoteTimer_def [of None])
  then show ?thesis by (intro exI [of _ ?args]) (simp add: setPowerSavingMode_def throwing_def args powerSavingMode_def)
qed

lemma psm_round_trip_witness:
  "\<exists>args. snd (run_script powerSavingMode [Inr [js ''+CPSMS: '' @ args]]) =
    Returned \<lparr>psm_enabled = True, psm_sleep = None, psm_active = Some 60\<rparr>"
proof -
  let ?config = "\<lparr>psm_enabled = True, psm_sleep = None, psm_active = Some 60\<rparr>"
  have "decode_timer GPRS_TIMER_UNITS (timer_code 1 1) = Some (1 * 60)"
    by (rule decode_code [OF units_ok(1)]) (simp_all add: GPRS_TIMER_UNITS_def)
  then have ok: "case psm_sleep ?config of None \<Rightarrow> True | Some s \<Rightarrow> \<exists>b. decodeGprsTimer3 b = Some s"
      "\<exists>s b. psm_active ?config = Some s \<and> decodeGprsTimer b = Some s"
    by (auto simp: decodeGprsTimer_def)
  show ?thesis using psm_round_trip [OF ok, of "[]"] by blast
qed

lemma edrx_access_round_trip: "map_of EDRX_ACT_MAP (ACT_TO_EDRX a) = Some a"
  by (cases a) (simp_all add: EDRX_ACT_MAP_def)

lemma edrx_code_nonempty: "encodeEdrxCycle show_seconds s a = Inr c \<Longrightarrow> c \<noteq> []"
  using js_toString_digits [of 2]
  by (auto simp: encodeEdrxCycle_def js_padStart_def split: option.splits prod.splits)

text \<open>Every eDRX cycle that a code of an access technology stands for is set by one command, and
  the listing of a modem that prints the technology and the code of that command gives the technology and the
  cycle back.
\<close>

theorem edrx_settings_round_trip:
  assumes "\<forall>(a, s) \<in> set es. \<exists>b. decodeEdrxCycle b a = Some s"
  shows "\<exists>codes. list_all2 (\<lambda>(a, s) c. fst (run_script (setEdrx show_seconds a s) rs) =
      [(js ''AT+CEDRXS=2,'' @ js_show_int (ACT_TO_EDRX a) @ comma @ quoted c, no_options)]) es codes \<and>
    snd (run_script edrxSettings [Inr (map2 (\<lambda>(a, s) c. js ''+CEDRXS: '' @ js_show_int (ACT_TO_EDRX a) @ comma @ quoted c) es codes)]) =
      Returned es"
proof -
  define code_of where "code_of = (\<lambda>(a, s). case encodeEdrxCycle show_seconds s a of Inr c \<Rightarrow> c | Inl e \<Rightarrow> [])"
  have encoded: "encodeEdrxCycle show_seconds s a = Inr (code_of (a, s)) \<and> decodeEdrxCycle (code_of (a, s)) a = Some s"
    if "(a, s) \<in> set es" for a s
    using that assms edrx_encoded [of _ a s show_seconds] by (force simp: code_of_def)
  have act: "js_show_int (ACT_TO_EDRX a) = js_toString 10 (nat (ACT_TO_EDRX a))" for a
    by (cases a) (simp_all add: js_show_int_def)
  have line: "edrx_line (js ''+CEDRXS: '' @ js_show_int (ACT_TO_EDRX a) @ comma @ quoted (code_of (a, s))) = Some (a, s)"
    if mem: "(a, s) \<in> set es" for a s
  proof -
    let ?c = "code_of (a, s)"
    have bits: "list_all rx_bit ?c" "?c \<noteq> []"
      using encoded [OF mem] encode_edrx_bits edrx_code_nonempty by blast+
    have group: "rx_first (Rx_Group (Rx_Plus rx_bit)) (?c @ 34 # t) = Some ([Some ?c], 34 # t)" for t
      using bits by (simp add: rx_first_Group rx_first_Plus takeWhile_class dropWhile_class rx_bit_def)
    have "rx_exec CEDRXS_LINE_REGEX (js ''+CEDRXS: '' @ js_show_int (ACT_TO_EDRX a) @ comma @ quoted ?c) =
        Some [Some (js_toString 10 (nat (ACT_TO_EDRX a))), Some ?c]"
      by (rule rx_exec_here [where t = "[]"])
        (use group in \<open>simp add: CEDRXS_LINE_REGEX_def act quoted_def rx_eval rx_number js_def\<close>)
    moreover have "int (nat (ACT_TO_EDRX a)) = ACT_TO_EDRX a" by (cases a) simp_all
    ultimately show ?thesis using encoded [OF mem] by (simp add: edrx_line_def edrx_access_round_trip)
  qed
  have lines: "map2 (\<lambda>(a, s) c. js ''+CEDRXS: '' @ js_show_int (ACT_TO_EDRX a) @ comma @ quoted c) es (map code_of es) =
      map (\<lambda>e. js ''+CEDRXS: '' @ js_show_int (ACT_TO_EDRX (fst e)) @ comma @ quoted (code_of e)) es"
    by (induction es) auto
  have "parse_lines edrx_line (map (\<lambda>e. js ''+CEDRXS: '' @ js_show_int (ACT_TO_EDRX (fst e)) @ comma @ quoted (code_of e)) es) = map (\<lambda>e. e) es"
    by (rule parse_lines_print) (use line in auto)
  moreover have "list_all2 (\<lambda>(a, s) c. fst (run_script (setEdrx show_seconds a s) rs) =
      [(js ''AT+CEDRXS=2,'' @ js_show_int (ACT_TO_EDRX a) @ comma @ quoted c, no_options)]) es (map code_of es)"
    unfolding list.rel_map by (rule list.rel_refl_strong) (use encoded in \<open>auto simp: setEdrx_def throwing_def\<close>)
  ultimately show ?thesis
    by (intro exI [of _ "map code_of es"]) (simp only: lines edrxSettings_def run_query, simp)
qed

lemma edrx_settings_round_trip_witness:
  "\<exists>codes. snd (run_script edrxSettings
      [Inr (map2 (\<lambda>(a, s) c. js ''+CEDRXS: '' @ js_show_int (ACT_TO_EDRX a) @ comma @ quoted c) [(Eutran_Wb, 2048 :: int)] codes)]) =
    Returned [(Eutran_Wb, 2048)]"
proof -
  have "decodeEdrxCycle (replicate 2 48 @ js_toString 2 2) Eutran_Wb = Some 2048"
    by (subst decodeEdrxCycle_def, subst js_parse_padded) (simp_all add: EUTRAN_WB_EDRX_def)
  then have "\<forall>(a, s) \<in> set [(Eutran_Wb, 2048)]. \<exists>b. decodeEdrxCycle b a = Some s" by auto
  from edrx_settings_round_trip [OF this, of js_show_int "[]"] show ?thesis by blast
qed

lemma coded_printed:
  assumes "map_of table (int n) = Some m"
  shows "coded_answer cmd (number_regex prefix) missing unknown table [js prefix @ 32 # js_toString 10 n] = Inr m"
proof -
  have "rx_exec (number_regex prefix) (js prefix @ 32 # js_toString 10 n) = Some [Some (js_toString 10 n)]"
    by (rule rx_exec_here [where t = "[]"]) (simp add: number_regex_def rx_eval rx_number)
  then show ?thesis using assms by (simp add: coded_answer_def first_line_def matched_def)
qed

text \<open>Every functionality level and every radio access mode has a code that the modem reports back
  as the same level and mode, and a code outside the tables is an error, not a default.
\<close>

theorem radio_modes_round_trip:
  "(\<exists>n. fst (run_script (setFunctionality mode None) rs) = [(js ''AT+CFUN='' @ js_toString 10 n, no_options)] \<and>
      snd (run_script functionality [Inr [js ''+CFUN:'' @ 32 # js_toString 10 n]]) = Returned mode) \<and>
   (\<exists>n. fst (run_script (setWirelessService service) rs) = [(js ''AT+WS46='' @ js_toString 10 n, no_options)] \<and>
      snd (run_script wirelessService [Inr [js ''+WS46:'' @ 32 # js_toString 10 n]]) = Returned service) \<and>
   (\<forall>n. map_of CFUN_MODE_MAP (int n) = None \<longrightarrow>
      snd (run_script functionality [Inr [js ''+CFUN:'' @ 32 # js_toString 10 n]]) =
        Thrown (ParseError (js ''Unknown CFUN mode '' @ js_toString 10 n) (js ''+CFUN:'' @ 32 # js_toString 10 n)))"
proof (intro conjI allI impI)
  have fun_code: "js_show_int (MODE_TO_CFUN mode) = js_toString 10 (nat (MODE_TO_CFUN mode))"
      "map_of CFUN_MODE_MAP (int (nat (MODE_TO_CFUN mode))) = Some mode"
    by (cases mode; simp add: js_show_int_def CFUN_MODE_MAP_def)+
  then show "\<exists>n. fst (run_script (setFunctionality mode None) rs) = [(js ''AT+CFUN='' @ js_toString 10 n, no_options)] \<and>
      snd (run_script functionality [Inr [js ''+CFUN:'' @ 32 # js_toString 10 n]]) = Returned mode"
    unfolding functionality_def CFUN_REGEX_def by (auto simp: setFunctionality_def coded_printed)
  have ws_code: "js_show_int (MODE_TO_WS46 service) = js_toString 10 (nat (MODE_TO_WS46 service))"
      "map_of WS46_TO_MODE (int (nat (MODE_TO_WS46 service))) = Some service"
    by (cases service; simp add: js_show_int_def WS46_TO_MODE_def)+
  then show "\<exists>n. fst (run_script (setWirelessService service) rs) = [(js ''AT+WS46='' @ js_toString 10 n, no_options)] \<and>
      snd (run_script wirelessService [Inr [js ''+WS46:'' @ 32 # js_toString 10 n]]) = Returned service"
    unfolding wirelessService_def WS46_REGEX_def by (auto simp: setWirelessService_def coded_printed)
  fix n
  assume unknown: "map_of CFUN_MODE_MAP (int n) = None"
  have "rx_exec CFUN_REGEX (js ''+CFUN:'' @ 32 # js_toString 10 n) = Some [Some (js_toString 10 n)]"
    by (rule rx_exec_here [where t = "[]"]) (simp add: CFUN_REGEX_def number_regex_def rx_eval rx_number)
  with unknown show "snd (run_script functionality [Inr [js ''+CFUN:'' @ 32 # js_toString 10 n]]) =
        Thrown (ParseError (js ''Unknown CFUN mode '' @ js_toString 10 n) (js ''+CFUN:'' @ 32 # js_toString 10 n))"
    by (simp add: functionality_def coded_answer_def first_line_def matched_def)
qed

lemma radio_modes_round_trip_witness:
  "map_of CFUN_MODE_MAP (int 7) = None \<and>
   snd (run_script functionality [Inr [js ''+CFUN: 7'']]) = Thrown (ParseError (js ''Unknown CFUN mode 7'') (js ''+CFUN: 7''))"
proof -
  have none: "map_of CFUN_MODE_MAP (int 7) = None" by (simp add: CFUN_MODE_MAP_def)
  have "js_toString 10 7 = js ''7''" by (simp add: js_def)
  then show ?thesis
    using none radio_modes_round_trip [of Fun_Full "[]" Ws_Auto, THEN conjunct2, THEN conjunct2, THEN spec, THEN mp, OF none]
    by (simp add: js_def)
qed

end
