(* ===== verification/Js_Date.thy ===== *)
theory Js_Date imports Prelude begin

text \<open>
  Dates of the language: a date is a number of milliseconds since 1970, without time zone. The definitions
  are those of ECMAScript for the proleptic Gregorian calendar: \<open>Date.UTC\<close> of fields in their ranges, and the
  \<open>getUTC\<close> functions. Years are found by counting from 1970.
\<close>

section \<open>Years\<close>

definition DayFromYear :: "int \<Rightarrow> int" where
  "DayFromYear y = 365 * (y - 1970) + (y - 1969) div 4 - (y - 1901) div 100 + (y - 1601) div 400"

definition leap_year :: "int \<Rightarrow> bool" where
  "leap_year y \<longleftrightarrow> y mod 4 = 0 \<and> (y mod 100 \<noteq> 0 \<or> y mod 400 = 0)"

lemma div_succ: "0 < k \<Longrightarrow> (a + 1) div k = a div k + (if (a + 1) mod k = 0 then 1 else 0)" for a k :: int
proof -
  assume k: "0 < k"
  let ?q = "a div k" let ?r = "a mod k"
  have a: "a = k * ?q + ?r" and r: "0 \<le> ?r" "?r < k" using k by simp_all
  show ?thesis
  proof (cases "?r + 1 = k")
    case True
    with a have "a + 1 = k * ?q + k" by linarith
    then have "a + 1 = k * (?q + 1)" by (simp add: distrib_left)
    then have "(a + 1) div k = ?q + 1" "(a + 1) mod k = 0" using k by simp_all
    then show ?thesis by simp
  next
    case False
    with r have "0 \<le> ?r + 1" "?r + 1 < k" by simp_all
    moreover have "a + 1 = ?r + 1 + k * ?q" using a by simp
    ultimately have "(a + 1) div k = ?q" "(a + 1) mod k = ?r + 1"
      using int_div_pos_eq [of "a + 1" k ?q "?r + 1"] int_mod_pos_eq [of "a + 1" k ?q "?r + 1"] by (simp_all add: add.commute)
    with r show ?thesis by simp
  qed
qed

lemma year_length: "DayFromYear (y + 1) = DayFromYear y + (if leap_year y then 366 else 365)"
proof -
  have shift: "(y - c) div k = (y - c - 1) div k + (if y mod k = 0 then 1 else 0)" if "k dvd c" "0 < k" for c k :: int
    using that div_succ [of k "y - c - 1"] by (simp add: mod_eq_0_iff_dvd dvd_diff_left_iff)
  have minus: "y - 1968 - 1 = y - 1969" "y - 1900 - 1 = y - 1901" "y - 1600 - 1 = y - 1601" by simp_all
  have step: "(y - 1968) div 4 = (y - 1969) div 4 + (if y mod 4 = 0 then 1 else 0)"
    "(y - 1900) div 100 = (y - 1901) div 100 + (if y mod 100 = 0 then 1 else 0)"
    "(y - 1600) div 400 = (y - 1601) div 400 + (if y mod 400 = 0 then 1 else 0)"
    by (rule shift [of 4 1968, unfolded minus] shift [of 100 1900, unfolded minus] shift [of 400 1600, unfolded minus]; simp)+
  have dvd: "y mod 400 = 0 \<Longrightarrow> y mod 100 = 0" "y mod 100 = 0 \<Longrightarrow> y mod 4 = 0"
    by (auto simp: mod_eq_0_iff_dvd elim: dvd_trans [rotated])
  have "DayFromYear (y + 1) = 365 * (y - 1970) + 365 + (y - 1968) div 4 - (y - 1900) div 100 + (y - 1600) div 400"
    by (simp add: DayFromYear_def algebra_simps)
  moreover obtain A B C where abc: "A = (y - 1969) div 4" "B = (y - 1901) div 100" "C = (y - 1601) div 400" by blast
  moreover have "DayFromYear y = 365 * (y - 1970) + A - B + C" by (simp only: DayFromYear_def abc)
  ultimately have "DayFromYear (y + 1) = DayFromYear y + 365 + (if y mod 4 = 0 then 1 else 0) - (if y mod 100 = 0 then 1 else 0)
      + (if y mod 400 = 0 then 1 else 0)"
    unfolding step by simp
  then show ?thesis using dvd by (cases "y mod 4 = 0"; cases "y mod 100 = 0"; cases "y mod 400 = 0") (simp_all add: leap_year_def)
qed

lemma DayFromYear_less: "DayFromYear y < DayFromYear (y + 1)"
  by (simp add: year_length)

function year_up :: "int \<Rightarrow> int \<Rightarrow> int" where
  "year_up y d = (if d < DayFromYear (y + 1) then y else year_up (y + 1) d)"
  by pat_completeness auto

termination
proof (relation "measure (\<lambda>(y, d). nat (d - DayFromYear y))", goal_cases)
  case (2 y d)
  then show ?case using DayFromYear_less [of y] by simp
qed simp

function year_down :: "int \<Rightarrow> int \<Rightarrow> int" where
  "year_down y d = (if DayFromYear y \<le> d then y else year_down (y - 1) d)"
  by pat_completeness auto

termination
proof (relation "measure (\<lambda>(y, d). nat (DayFromYear y - d))", goal_cases)
  case (2 y d)
  then show ?case using DayFromYear_less [of "y - 1"] by simp
qed simp

declare year_up.simps [simp del] year_down.simps [simp del]

definition YearFromDay :: "int \<Rightarrow> int" where
  "YearFromDay d = (if 0 \<le> d then year_up 1970 d else year_down 1969 d)"

lemma year_up_bounds: "DayFromYear y \<le> d \<Longrightarrow> DayFromYear (year_up y d) \<le> d \<and> d < DayFromYear (year_up y d + 1)"
proof (induction y d rule: year_up.induct)
  case (1 y d)
  then show ?case by (subst (1 2) year_up.simps) auto
qed

lemma year_down_bounds: "d < DayFromYear (y + 1) \<Longrightarrow> DayFromYear (year_down y d) \<le> d \<and> d < DayFromYear (year_down y d + 1)"
proof (induction y d rule: year_down.induct)
  case (1 y d)
  then show ?case by (subst (1 2) year_down.simps) auto
qed

lemma YearFromDay_bounds: "DayFromYear (YearFromDay d) \<le> d \<and> d < DayFromYear (YearFromDay d + 1)"
  using year_up_bounds [of 1970 d] year_down_bounds [of d 1969] by (auto simp: YearFromDay_def DayFromYear_def)

section \<open>Months\<close>

definition month_starts :: "bool \<Rightarrow> int list" where
  "month_starts leap =
     (if leap then [0, 31, 60, 91, 121, 152, 182, 213, 244, 274, 305, 335]
      else [0, 31, 59, 90, 120, 151, 181, 212, 243, 273, 304, 334])"

definition month_of_day :: "bool \<Rightarrow> int \<Rightarrow> nat" where
  "month_of_day leap dayInYear = length (filter (\<lambda>start. start \<le> dayInYear) (month_starts leap)) - 1"

lemma month_of_day_bounds:
  assumes "0 \<le> d" "d < (if leap then 366 else 365)"
  shows "month_of_day leap d < 12 \<and> month_starts leap ! month_of_day leap d \<le> d \<and> d < month_starts leap ! month_of_day leap d + 31"
proof (cases leap)
  case True
  then have d: "0 \<le> d" "d < 366" using assms by auto
  then consider "d < 31" | "31 \<le> d" "d < 60" | "60 \<le> d" "d < 91" | "91 \<le> d" "d < 121" | "121 \<le> d" "d < 152" | "152 \<le> d" "d < 182"
    | "182 \<le> d" "d < 213" | "213 \<le> d" "d < 244" | "244 \<le> d" "d < 274" | "274 \<le> d" "d < 305" | "305 \<le> d" "d < 335" | "335 \<le> d"
    by linarith
  then show ?thesis using d True by cases (simp_all add: month_of_day_def month_starts_def)
next
  case False
  then have d: "0 \<le> d" "d < 365" using assms by auto
  then consider "d < 31" | "31 \<le> d" "d < 59" | "59 \<le> d" "d < 90" | "90 \<le> d" "d < 120" | "120 \<le> d" "d < 151" | "151 \<le> d" "d < 181"
    | "181 \<le> d" "d < 212" | "212 \<le> d" "d < 243" | "243 \<le> d" "d < 273" | "273 \<le> d" "d < 304" | "304 \<le> d" "d < 334" | "334 \<le> d"
    by linarith
  then show ?thesis using d False by cases (simp_all add: month_of_day_def month_starts_def)
qed

section \<open>Fields\<close>

definition day_of :: "int \<Rightarrow> int" where
  "day_of t = t div 86400000"

definition getUTCFullYear :: "int \<Rightarrow> int" where
  "getUTCFullYear t = YearFromDay (day_of t)"

definition getUTCMonth :: "int \<Rightarrow> int" where
  "getUTCMonth t = (let y = getUTCFullYear t in int (month_of_day (leap_year y) (day_of t - DayFromYear y)))"

definition getUTCDate :: "int \<Rightarrow> int" where
  "getUTCDate t =
     (let y = getUTCFullYear t in day_of t - DayFromYear y - month_starts (leap_year y) ! nat (getUTCMonth t) + 1)"

definition getUTCHours :: "int \<Rightarrow> int" where
  "getUTCHours t = t div 3600000 mod 24"

definition getUTCMinutes :: "int \<Rightarrow> int" where
  "getUTCMinutes t = t div 60000 mod 60"

definition getUTCSeconds :: "int \<Rightarrow> int" where
  "getUTCSeconds t = t div 1000 mod 60"

text \<open>
  \<open>Date.UTC\<close> counts whole months into years and takes years below 100 as years of the 20th century; the
  day may lie outside of its month, and the time outside of its day.
\<close>

definition Date_UTC :: "int \<Rightarrow> int \<Rightarrow> int \<Rightarrow> int \<Rightarrow> int \<Rightarrow> int \<Rightarrow> int" where
  "Date_UTC year month date hours minutes seconds =
     (let full = (if 0 \<le> year \<and> year \<le> 99 then 1900 + year else year);
          y = full + month div 12;
          day = DayFromYear y + month_starts (leap_year y) ! nat (month mod 12) + date - 1
      in day * 86400000 + hours * 3600000 + minutes * 60000 + seconds * 1000)"

lemma time_split: "t = t div 86400000 * 86400000 + t div 3600000 mod 24 * 3600000 + t div 60000 mod 60 * 60000
    + t div 1000 mod 60 * 1000 + t mod 1000" for t :: int
proof -
  have s: "t = t div 1000 * 1000 + t mod 1000" by simp
  have m: "t div 1000 = t div 60000 * 60 + t div 1000 mod 60"
    using div_mult_mod_eq [of "t div 1000" 60] by (simp add: zdiv_zmult2_eq [symmetric])
  have h: "t div 60000 = t div 3600000 * 60 + t div 60000 mod 60"
    using div_mult_mod_eq [of "t div 60000" 60] by (simp add: zdiv_zmult2_eq [symmetric])
  have d: "t div 3600000 = t div 86400000 * 24 + t div 3600000 mod 24"
    using div_mult_mod_eq [of "t div 3600000" 24] by (simp add: zdiv_zmult2_eq [symmetric])
  show ?thesis using s m h d by linarith
qed

lemma field_bounds:
  "0 \<le> getUTCMonth t \<and> getUTCMonth t < 12" "1 \<le> getUTCDate t \<and> getUTCDate t \<le> 31"
  "0 \<le> getUTCHours t \<and> getUTCHours t < 24" "0 \<le> getUTCMinutes t \<and> getUTCMinutes t < 60"
  "0 \<le> getUTCSeconds t \<and> getUTCSeconds t < 60"
proof -
  let ?y = "getUTCFullYear t" let ?d = "day_of t - DayFromYear ?y"
  have "0 \<le> ?d" "?d < (if leap_year ?y then 366 else 365)"
    using YearFromDay_bounds [of "day_of t"] by (simp_all add: getUTCFullYear_def year_length split: if_splits)
  from month_of_day_bounds [OF this]
  show "0 \<le> getUTCMonth t \<and> getUTCMonth t < 12" "1 \<le> getUTCDate t \<and> getUTCDate t \<le> 31"
    by (simp_all add: getUTCMonth_def getUTCDate_def Let_def)
qed (simp_all add: getUTCHours_def getUTCMinutes_def getUTCSeconds_def)

text \<open>The fields of a date give the date back, without its milliseconds.\<close>

lemma Date_UTC_fields:
  assumes "100 \<le> getUTCFullYear t"
  shows "Date_UTC (getUTCFullYear t) (getUTCMonth t) (getUTCDate t) (getUTCHours t) (getUTCMinutes t) (getUTCSeconds t) = t - t mod 1000"
proof -
  have month: "getUTCMonth t div 12 = 0" "getUTCMonth t mod 12 = getUTCMonth t" using field_bounds(1) [of t] by simp_all
  have "DayFromYear (getUTCFullYear t) + month_starts (leap_year (getUTCFullYear t)) ! nat (getUTCMonth t) + getUTCDate t - 1 = day_of t"
    by (simp add: getUTCDate_def Let_def)
  then show ?thesis
    using assms time_split [of t] month by (simp add: Date_UTC_def Let_def getUTCHours_def getUTCMinutes_def getUTCSeconds_def day_of_def)
qed

end
