(* ===== verification/At_Device.thy ===== *)
theory At_Device imports At_Query Js_Date Timer_Encoding Complex_Main begin

text \<open>
  \<^verbatim>\<open>packages/core/src/protocols/at/services/device.ts\<close>, and \<^verbatim>\<open>traffic.ts\<close> beside it: identity, temperature,
  character set, clock, indicators and battery. The state of the module is the cache of the indicator
  descriptors. The vendor's commands and the parser of its traffic counters are arguments. A date is its
  number of milliseconds.
\<close>

section \<open>Prefixes\<close>

text \<open>\<open>s.replace(/^.../, '')\<close>.\<close>

definition strip_prefix :: "rx \<Rightarrow> jstr \<Rightarrow> jstr" where
  "strip_prefix r s = (case rx_first r s of None \<Rightarrow> s | Some (gs, t) \<Rightarrow> t)"

definition letter :: "nat \<Rightarrow> rx" where
  "letter c = Rx_One (\<lambda>d. d = c \<or> d = c + 32)"

definition CGSN_PREFIX_REGEX :: rx where
  "CGSN_PREFIX_REGEX = rx_cat [Rx_Opt (Rx_Lit (js ''+'')), Rx_Opt (letter 67), letter 71, letter 83, letter 78,
     Rx_Lit (js '':''), rx_spaces]"

definition normalizeImei :: "jstr \<Rightarrow> jstr" where
  "normalizeImei line = js_trim (strip_prefix CGSN_PREFIX_REGEX line)"

section \<open>Identity\<close>

record device_identity =
  dev_manufacturer :: "jstr option"
  dev_model :: "jstr option"
  dev_revision :: "jstr option"
  dev_imei :: "jstr option"
  dev_hardware :: "jstr option"

definition first_of :: "jstr list option \<Rightarrow> jstr option" where
  "first_of answer = (case answer of Some (line # _) \<Rightarrow> Some line | _ \<Rightarrow> None)"

definition settled_lines :: "jstr \<Rightarrow> jstr list option script" where
  "settled_lines cmd = script_settled (query cmd no_options Inr)"

definition HWVER_PREFIX :: rx where
  "HWVER_PREFIX = rx_cat [Rx_Opt (Rx_Lit (js ''^'')), Rx_Plus rx_word, Rx_Lit (js '':''), rx_spaces]"

definition hardware_version :: "jstr \<Rightarrow> jstr" where
  "hardware_version line =
     (let v = js_trim (strip_prefix HWVER_PREFIX line)
      in if js_startsWith v [34] \<and> js_endsWith v [34] then js_slice v (Num 1) (Num (- 1)) else v)"

definition device_info :: "jstr option \<Rightarrow> device_identity script" where
  "device_info hwCmd =
     script_bind (settled_lines (js ''AT+CGMI'')) (\<lambda>mfr.
     script_bind (settled_lines (js ''AT+CGMM'')) (\<lambda>mdl.
     script_bind (settled_lines (js ''AT+CGMR'')) (\<lambda>rv.
     script_bind (settled_lines (js ''AT+CGSN'')) (\<lambda>imei.
     script_bind (case hwCmd of
         None \<Rightarrow> Return None
       | Some cmd \<Rightarrow> script_catch (query cmd no_options (\<lambda>ls. Inr (map_option hardware_version (first_of (Some ls))))) (\<lambda>_. Return None)) (\<lambda>hw.
       Return \<lparr>dev_manufacturer = first_of mfr, dev_model = first_of mdl, dev_revision = first_of rv,
         dev_imei = map_option normalizeImei (first_of imei), dev_hardware = hw\<rparr>)))))"

definition imei :: "jstr script" where
  "imei = query (js ''AT+CGSN'') no_options (\<lambda>ls. ebind (first_line (js ''AT+CGSN'') ls) (\<lambda>line. Inr (normalizeImei line)))"

section \<open>Temperature\<close>

text \<open>
  \<open>Number\<close> of a string: empty is zero, then a decimal literal with fraction and exponent, or digits of
  another radix after their prefix. \<open>None\<close> stands for \<open>NaN\<close> and for the infinities, both of which the caller
  drops.
\<close>

definition sign_regex :: rx where
  "sign_regex = Rx_Group (Rx_Opt (Rx_One (\<lambda>c. c = 43 \<or> c = 45)))"

definition decimal_regex :: rx where
  "decimal_regex = rx_cat [sign_regex, Rx_Group (Rx_Star rx_digit),
     Rx_Opt (rx_cat [Rx_Lit (js ''.''), Rx_Group (Rx_Star rx_digit)]),
     Rx_Opt (rx_cat [letter 69, sign_regex, Rx_Group (Rx_Plus rx_digit)]), Rx_End]"

definition signed_value :: "jstr \<Rightarrow> rat \<Rightarrow> rat" where
  "signed_value s v = (if s = [45] then - v else v)"

definition radix_literal :: "nat \<Rightarrow> jstr \<Rightarrow> rat option" where
  "radix_literal radix ds =
     (if ds \<noteq> [] \<and> list_all (js_is_digit radix) ds then Some (of_nat (js_digits_value radix ds)) else None)"

definition js_Number :: "jstr \<Rightarrow> rat option" where
  "js_Number text_of =
     (let s = js_trim text_of; p = map js_lower1 (take 2 s)
      in if s = [] then Some 0
         else if p = js ''0x'' then radix_literal 16 (drop 2 s)
         else if p = js ''0o'' then radix_literal 8 (drop 2 s)
         else if p = js ''0b'' then radix_literal 2 (drop 2 s)
         else
           (case rx_at_start decimal_regex s of
              Some [Some sg, Some ip, fp, esg, e] \<Rightarrow>
                (let frac = or_else fp [];
                     v = of_nat (js_digits_value 10 (ip @ frac)) / 10 ^ length frac;
                     n = js_digits_value 10 (or_else e []);
                     scaled = (if or_else esg [] = [45] then v / 10 ^ n else v * 10 ^ n)
                 in if ip = [] \<and> frac = [] then None else Some (signed_value sg scaled))
            | _ \<Rightarrow> None))"

definition COLON_PREFIX :: rx where
  "COLON_PREFIX = rx_cat [Rx_Star (\<lambda>c. c \<noteq> 58), Rx_Lit (js '':''), rx_spaces]"

definition parseChipTemperature :: "jstr \<Rightarrow> rat option" where
  "parseChipTemperature line =
     (let temps = List.map_filter (\<lambda>s. case js_Number (js_trim s) of
            Some v \<Rightarrow> if 5 \<le> v \<and> v \<le> 120 then Some v else None
          | None \<Rightarrow> None) (js_split 44 (strip_prefix COLON_PREFIX line))
      in if temps = [] then None else Some (Max (set temps)))"

definition temperature :: "jstr option \<Rightarrow> rat option script" where
  "temperature chipTemp =
     (case chipTemp of
        None \<Rightarrow> Return None
      | Some cmd \<Rightarrow>
          ExecCatch cmd no_options (\<lambda>r.
            case r of
              Inl (ATError c result) \<Rightarrow> Return None
            | Inl e \<Rightarrow> Throw e
            | Inr ls \<Rightarrow> Return (case ls of [] \<Rightarrow> None | line # _ \<Rightarrow> parseChipTemperature line)))"

section \<open>Character set\<close>

definition CSCS_REGEX :: rx where
  "CSCS_REGEX = rx_cat [Rx_Lit (js ''+CSCS:''), rx_spaces, rx_quoted []]"

definition parse_characterSet :: "jstr list \<Rightarrow> cellary_error + jstr" where
  "parse_characterSet ls =
     ebind (first_line (js ''AT+CSCS?'') ls) (\<lambda>line.
     ebind (matched (js ''AT+CSCS?'') CSCS_REGEX line) (\<lambda>gs.
       case gs of [Some charset] \<Rightarrow> Inr charset | _ \<Rightarrow> Inl (ParseError (js ''AT+CSCS? missing charset value'') line)))"

definition characterSet :: "jstr script" where
  "characterSet = query (js ''AT+CSCS?'') no_options parse_characterSet"

definition setCharacterSet :: "jstr \<Rightarrow> unit script" where
  "setCharacterSet charset = command (js ''AT+CSCS='' @ quoted charset) no_options"

section \<open>Clock\<close>

definition two_digits :: rx where
  "two_digits = Rx_Group (rx_cat [Rx_One rx_digit, Rx_One rx_digit])"

text \<open>\<open>(\d{2,4})\<close> and \<open>([-+]\d+)?\<close>.\<close>

definition year_digits :: rx where
  "year_digits = Rx_Group (rx_cat [Rx_One rx_digit, Rx_One rx_digit, Rx_Opt (rx_cat [Rx_One rx_digit, Rx_Opt (Rx_One rx_digit)])])"

definition zone_offset :: rx where
  "zone_offset = Rx_Opt (Rx_Group (rx_cat [Rx_One (\<lambda>c. c = 43 \<or> c = 45), Rx_Plus rx_digit]))"

definition CCLK_REGEX :: rx where
  "CCLK_REGEX = rx_cat [Rx_Lit (js ''+CCLK:''), rx_spaces, Rx_Opt (Rx_Lit [34]), year_digits, Rx_Lit (js ''/''), two_digits, Rx_Lit (js ''/''), two_digits, Rx_Lit comma, two_digits, Rx_Lit (js '':''),
     two_digits, Rx_Lit (js '':''), two_digits,
     zone_offset, Rx_Opt (Rx_Lit [34])]"

record clock_info =
  clk_dateTime :: int
  clk_timezone :: "int option"

fun signed_decimal :: "jstr \<Rightarrow> int" where
  "signed_decimal (c # s) = (if c = 45 then - decimal s else if c = 43 then decimal s else decimal (c # s))"
| "signed_decimal [] = 0"

definition parse_clock :: "jstr list \<Rightarrow> cellary_error + clock_info" where
  "parse_clock ls =
     ebind (first_line (js ''AT+CCLK?'') ls) (\<lambda>line.
     ebind (matched (js ''AT+CCLK?'') CCLK_REGEX line) (\<lambda>gs.
       case gs of
         [Some year, Some month, Some day, Some hour, Some minute, Some second, tz] \<Rightarrow>
           (let rawYear = decimal year;
                y = (if rawYear < 100 then 2000 + rawYear else rawYear);
                offset = map_option (\<lambda>s. signed_decimal s * 15) tz;
                utc = Date_UTC y (decimal month - 1) (decimal day) (decimal hour) (decimal minute) (decimal second)
            in Inr \<lparr>clk_dateTime = (case offset of None \<Rightarrow> utc | Some minutes \<Rightarrow> utc - minutes * 60000), clk_timezone = offset\<rparr>)
       | _ \<Rightarrow> Inl (ParseError (js ''AT+CCLK? missing date/time fields'') line)))"

definition clock :: "clock_info script" where
  "clock = query (js ''AT+CCLK?'') no_options parse_clock"

definition pad2 :: "int \<Rightarrow> jstr" where
  "pad2 n = js_padStart 2 48 (js_show_int n)"

text \<open>The remainder of the year by 100 has the sign of the year.\<close>

definition clock_text :: "int \<Rightarrow> int option \<Rightarrow> jstr" where
  "clock_text dateTime timezoneOffsetMinutes =
     (let year = getUTCFullYear dateTime
      in pad2 (if 0 \<le> year then year mod 100 else - (- year mod 100)) @ js ''/'' @ pad2 (getUTCMonth dateTime + 1) @ js ''/''
           @ pad2 (getUTCDate dateTime) @ comma @ pad2 (getUTCHours dateTime) @ js '':'' @ pad2 (getUTCMinutes dateTime)
           @ js '':'' @ pad2 (getUTCSeconds dateTime)
           @ (case timezoneOffsetMinutes of
                None \<Rightarrow> []
              | Some minutes \<Rightarrow>
                  (let quarterHours = js_round_quotient minutes 15
                   in (if 0 \<le> quarterHours then js ''+'' else js ''-'') @ pad2 \<bar>quarterHours\<bar>)))"

definition setClock :: "int \<Rightarrow> int option \<Rightarrow> unit script" where
  "setClock dateTime timezoneOffsetMinutes =
     command (js ''AT+CCLK='' @ quoted (clock_text dateTime timezoneOffsetMinutes)) no_options"

definition setAutoTimezone :: "bool \<Rightarrow> unit script" where
  "setAutoTimezone enabled = command (js ''AT+CTZU='' @ js_show_int (if enabled then 1 else 0)) no_options"

section \<open>Indicators\<close>

record indicator =
  ind_name :: jstr
  ind_min :: int
  ind_max :: int

definition CIND_DESCRIPTOR_REGEX :: rx where
  "CIND_DESCRIPTOR_REGEX = rx_cat [Rx_Lit (40 # [34]), Rx_Group (Rx_Plus rx_unquoted), Rx_Lit [34], Rx_Lit (js '',(''),
     rx_digits, Rx_Lit (js ''-''), rx_digits, Rx_Lit (js ''))'')]"

definition CIND_VALUES_REGEX :: rx where
  "CIND_VALUES_REGEX = rx_cat [Rx_Lit (js ''+CIND:''), rx_spaces, Rx_Group (Rx_Plus (\<lambda>c. rx_digit c \<or> c = 44))]"

fun indicator_of :: "captures \<Rightarrow> indicator option" where
  "indicator_of [Some name, Some lower, Some upper] =
     Some \<lparr>ind_name = name, ind_min = decimal lower, ind_max = decimal upper\<rparr>"
| "indicator_of _ = None"

definition ensureIndicatorDescriptors :: "indicator list option \<Rightarrow> indicator list script" where
  "ensureIndicatorDescriptors cache =
     (case cache of
        Some descriptors \<Rightarrow> Return descriptors
      | None \<Rightarrow> query (js ''AT+CIND=?'') no_options (\<lambda>ls.
          Inr (List.map_filter indicator_of (rx_matchAll CIND_DESCRIPTOR_REGEX (concat ls)))))"

definition parse_indicators :: "indicator list \<Rightarrow> jstr list \<Rightarrow> cellary_error + (jstr \<times> jsnum) list" where
  "parse_indicators descriptors ls =
     ebind (first_line (js ''AT+CIND?'') ls) (\<lambda>line.
     ebind (matched (js ''AT+CIND?'') CIND_VALUES_REGEX line) (\<lambda>gs.
       case gs of
         [Some values] \<Rightarrow>
           Inr (foldl (\<lambda>m (descriptor, value). map_set (ind_name descriptor) value m) []
             (zip descriptors (map (\<lambda>s. js_parseInt 10 (js_trim s)) (js_split 44 values))))
       | _ \<Rightarrow> Inl (ParseError (js ''AT+CIND? missing values'') line)))"

definition indicators :: "indicator list option \<Rightarrow> (indicator list \<times> (jstr \<times> jsnum) list) script" where
  "indicators cache =
     script_bind (ensureIndicatorDescriptors cache) (\<lambda>descriptors.
     script_bind (query (js ''AT+CIND?'') no_options (parse_indicators descriptors)) (\<lambda>values.
       Return (descriptors, values)))"

text \<open>The cache after a call: it is filled as soon as the descriptors are read, even when the values then fail.\<close>

definition cache_after :: "indicator list option \<Rightarrow> device_response list \<Rightarrow> indicator list option" where
  "cache_after cache rs =
     (case snd (run_script (ensureIndicatorDescriptors cache) rs) of Returned descriptors \<Rightarrow> Some descriptors | _ \<Rightarrow> cache)"

definition resolveIndicatorName :: "indicator list option \<Rightarrow> int \<Rightarrow> jstr option" where
  "resolveIndicatorName cache index =
     (case cache of
        None \<Rightarrow> None
      | Some descriptors \<Rightarrow>
          if 1 \<le> index \<and> index \<le> int (length descriptors) then Some (ind_name (descriptors ! nat (index - 1))) else None)"

section \<open>Battery and traffic\<close>

datatype battery_status = Battery_Powered | Battery_Connected | No_Battery | Power_Fault

definition parseBatteryStatusCode :: "int \<Rightarrow> battery_status option" where
  "parseBatteryStatusCode bcs =
     (if bcs = 0 then Some Battery_Powered else if bcs = 1 then Some Battery_Connected
      else if bcs = 2 then Some No_Battery else if bcs = 3 then Some Power_Fault else None)"

definition CBC_REGEX :: rx where
  "CBC_REGEX = rx_cat [Rx_Lit (js ''+CBC:''), rx_spaces, rx_digits, Rx_Lit comma, rx_digits]"

definition parse_battery :: "jstr list \<Rightarrow> cellary_error + battery_status \<times> int" where
  "parse_battery ls =
     ebind (first_line (js ''AT+CBC'') ls) (\<lambda>line.
     ebind (matched (js ''AT+CBC'') CBC_REGEX line) (\<lambda>gs.
       case gs of
         [Some bcs, Some bcl] \<Rightarrow>
           (case parseBatteryStatusCode (decimal bcs) of
              None \<Rightarrow> Inl (ParseError (js ''Unknown battery status code: '' @ js_show_int (decimal bcs)) line)
            | Some status \<Rightarrow> Inr (status, decimal bcl))
       | _ \<Rightarrow> Inl (ParseError (js ''AT+CBC missing fields'') line)))"

definition battery :: "(battery_status \<times> int) script" where
  "battery = query (js ''AT+CBC'') no_options parse_battery"

definition traffic_session :: "jstr \<Rightarrow> (jstr list \<Rightarrow> cellary_error + 's \<times> 's) \<Rightarrow> 's script" where
  "traffic_session cmd parse = query cmd no_options (\<lambda>ls. ebind (parse ls) (\<lambda>p. Inr (fst p)))"

definition traffic_monthly :: "jstr \<Rightarrow> (jstr list \<Rightarrow> cellary_error + 's \<times> 's) \<Rightarrow> 's script" where
  "traffic_monthly cmd parse = query cmd no_options (\<lambda>ls. ebind (parse ls) (\<lambda>p. Inr (snd p)))"

end
