(* ===== verification/At_Device_Props.thy ===== *)
theory At_Device_Props imports At_Device begin

text \<open>
  The clock and the indicators: what the module reads after it wrote, and which commands it sends.
\<close>

section \<open>The clock\<close>

lemma decimal_zeros: "decimal (replicate k 48 @ s) = decimal s"
  by (simp add: decimal_def js_digits_value_zeros)

lemma decimal_pad2: "0 \<le> n \<Longrightarrow> decimal (pad2 n) = n"
  by (simp add: pad2_def js_padStart_def decimal_zeros js_show_int_def)

lemma pad2_digits: "0 \<le> n \<Longrightarrow> list_all rx_digit (pad2 n) \<and> pad2 n \<noteq> []"
  by (simp add: pad2_def js_padStart_def js_show_int_def list_all_iff rx_digit_def)
    (use toString_digits in \<open>auto simp: list_all_iff rx_digit_def\<close>)

lemma length_pad2: "0 \<le> n \<Longrightarrow> n < 100 \<Longrightarrow> length (pad2 n) = 2"
proof -
  assume n: "0 \<le> n" "n < 100"
  then have "nat n < 10 ^ Suc 1" by simp
  then have "length (js_toString 10 (nat n)) \<le> 2" using length_js_toString [of 10 "nat n" 1] by simp
  with n show "length (pad2 n) = 2" by (simp add: pad2_def js_padStart_def js_show_int_def)
qed

lemma pad2_pair:
  assumes "0 \<le> n" "n < 100"
  obtains a b where "pad2 n = [a, b]" "rx_digit a" "rx_digit b"
proof -
  obtain a b where "pad2 n = [a, b]"
    using length_pad2 [OF assms] by (auto simp: length_Suc_conv eval_nat_numeral)
  then show ?thesis using that pad2_digits [OF assms(1)] by simp
qed

lemma two_digits_pad2: "0 \<le> n \<Longrightarrow> n < 100 \<Longrightarrow> rx_first two_digits (pad2 n @ t) = Some ([Some (pad2 n)], t)"
  by (elim pad2_pair) (simp_all add: two_digits_def rx_first_Group rx_eval)

lemma year_pad2: "0 \<le> n \<Longrightarrow> n < 100 \<Longrightarrow> rx_first year_digits (pad2 n @ 47 # t) = Some ([Some (pad2 n)], 47 # t)"
  by (elim pad2_pair) (simp_all add: year_digits_def rx_first_Group rx_eval rx_digit_def)

definition zone_text :: "int option \<Rightarrow> jstr" where
  "zone_text tz =
     (case tz of None \<Rightarrow> []
      | Some minutes \<Rightarrow> (let q = js_round_quotient minutes 15 in (if 0 \<le> q then js ''+'' else js ''-'') @ pad2 \<bar>q\<bar>))"

lemma zone_match:
  "rx_first zone_offset (zone_text tz @ [34]) =
    Some ([if tz = None then None else Some (zone_text tz)], [34])"
proof (cases tz)
  case None
  then show ?thesis by (simp add: zone_offset_def zone_text_def rx_eval rx_first_Group)
next
  case (Some m)
  let ?q = "js_round_quotient m 15"
  have d: "list_all rx_digit (pad2 \<bar>?q\<bar>)" "pad2 \<bar>?q\<bar> \<noteq> []" using pad2_digits [of "\<bar>?q\<bar>"] by simp_all
  then have plus: "rx_first (Rx_Plus rx_digit) (pad2 \<bar>?q\<bar> @ [34]) = Some ([], [34])"
    by (simp add: rx_first_Plus takeWhile_class dropWhile_class)
  show ?thesis using Some plus by (auto simp: zone_offset_def zone_text_def Let_def rx_eval rx_first_Group js_def)
qed

lemma clock_match:
  assumes "0 \<le> y" "y < 100"
  shows "rx_exec CCLK_REGEX (js ''+CCLK: '' @ quoted (pad2 y @ js ''/'' @ pad2 (getUTCMonth t + 1) @ js ''/''
      @ pad2 (getUTCDate t) @ comma @ pad2 (getUTCHours t) @ js '':'' @ pad2 (getUTCMinutes t) @ js '':'' @ pad2 (getUTCSeconds t)
      @ zone_text tz)) =
    Some [Some (pad2 y), Some (pad2 (getUTCMonth t + 1)), Some (pad2 (getUTCDate t)), Some (pad2 (getUTCHours t)),
      Some (pad2 (getUTCMinutes t)), Some (pad2 (getUTCSeconds t)), if tz = None then None else Some (zone_text tz)]"
proof (rule rx_exec_here [where t = "[]"])
  have spaces: "rx_first rx_spaces (32 # 34 # s) = Some ([], 34 # s)" for s
    by (simp add: rx_first_Star js_white_def)
  note fields = field_bounds [of t]
  show "rx_first CCLK_REGEX (js ''+CCLK: '' @ quoted (pad2 y @ js ''/'' @ pad2 (getUTCMonth t + 1) @ js ''/''
      @ pad2 (getUTCDate t) @ comma @ pad2 (getUTCHours t) @ js '':'' @ pad2 (getUTCMinutes t) @ js '':'' @ pad2 (getUTCSeconds t)
      @ zone_text tz)) =
    Some ([Some (pad2 y), Some (pad2 (getUTCMonth t + 1)), Some (pad2 (getUTCDate t)), Some (pad2 (getUTCHours t)),
      Some (pad2 (getUTCMinutes t)), Some (pad2 (getUTCSeconds t)), if tz = None then None else Some (zone_text tz)], [])"
    using assms fields
    by (simp add: CCLK_REGEX_def quoted_def rx_eval spaces year_pad2 two_digits_pad2 zone_match js_def)
qed

lemma zone_value: "m mod 15 = 0 \<Longrightarrow> signed_decimal (zone_text (Some m)) * 15 = m"
proof -
  assume "m mod 15 = 0"
  then obtain q where m: "m = 15 * q" by auto
  have "js_round_quotient m 15 = q" by (simp add: js_round_quotient_def m)
  then show ?thesis by (auto simp: zone_text_def m decimal_pad2 js_def)
qed

text \<open>The clock that was set is read back to the second when no time zone is given. With a time
  zone it is off by the zone: the fields written are those of UTC, those read are taken for local time, so that
  the reading is the date minus the offset.
\<close>

theorem clock_shifted:
  assumes "2000 \<le> getUTCFullYear t" "getUTCFullYear t \<le> 2099"
    and "case tz of None \<Rightarrow> True | Some minutes \<Rightarrow> minutes mod 15 = 0"
  shows "\<exists>args. fst (run_script (setClock t tz) rs) = [(js ''AT+CCLK='' @ args, no_options)] \<and>
    snd (run_script clock [Inr [js ''+CCLK: '' @ args]]) =
      Returned \<lparr>clk_dateTime = t - t mod 1000 - or_else tz 0 * 60000, clk_timezone = tz\<rparr>"
proof -
  let ?y = "getUTCFullYear t"
  have y: "0 \<le> ?y mod 100" "?y mod 100 < 100" "2000 + ?y mod 100 = ?y"
    using assms(1,2) by (simp_all) presburger
  have text_eq: "clock_text t tz = pad2 (?y mod 100) @ js ''/'' @ pad2 (getUTCMonth t + 1) @ js ''/''
      @ pad2 (getUTCDate t) @ comma @ pad2 (getUTCHours t) @ js '':'' @ pad2 (getUTCMinutes t) @ js '':'' @ pad2 (getUTCSeconds t)
      @ zone_text tz"
    using assms(1) by (simp add: clock_text_def zone_text_def Let_def)
  have date: "Date_UTC (2000 + ?y mod 100) (getUTCMonth t + 1 - 1) (getUTCDate t) (getUTCHours t) (getUTCMinutes t) (getUTCSeconds t) =
      t - t mod 1000"
    unfolding y(3) using Date_UTC_fields [of t] assms(1) by simp
  note fields = field_bounds [of t]
  have "parse_clock [js ''+CCLK: '' @ quoted (clock_text t tz)] =
      Inr \<lparr>clk_dateTime = t - t mod 1000 - or_else tz 0 * 60000, clk_timezone = tz\<rparr>"
    unfolding text_eq parse_clock_def first_line_def matched_def list.case ebind_simps clock_match [OF y(1,2)] option.case
    using fields y(1,2) date assms(3) zone_value
    by (cases tz) (simp_all add: Let_def decimal_pad2 or_else_def del: y(3))
  then show ?thesis by (auto simp: setClock_def clock_def)
qed

lemma clock_shifted_witness:
  "\<exists>args. snd (run_script clock [Inr [js ''+CCLK: '' @ args]]) = Returned \<lparr>clk_dateTime = 1704067200000 - 7200000, clk_timezone = Some 120\<rparr>"
proof -
  have "getUTCFullYear 1704067200000 = 2024"
    by (simp add: getUTCFullYear_def day_of_def YearFromDay_def DayFromYear_def year_up.simps)
  then have "2000 \<le> getUTCFullYear 1704067200000" "getUTCFullYear 1704067200000 \<le> 2099"
      "case Some 120 of None \<Rightarrow> True | Some minutes \<Rightarrow> minutes mod 15 = (0 :: int)" by simp_all
  from clock_shifted [OF this, of "[]"] show ?thesis by (auto simp: or_else_def)
qed

section \<open>Indicators\<close>

text \<open>
  The descriptors of the indicators are asked once: after they were read, in a call that succeeded or in one
  that failed on the values, every later call sends the read command only and uses the same descriptors.
\<close>

lemma descriptors_asked_once:
  "\<exists>descriptors. cache_after None (Inr ls # rs) = Some descriptors \<and>
    (\<forall>rs'. cache_after (Some descriptors) rs' = Some descriptors \<and>
      fst (run_script (indicators (Some descriptors)) rs') = [(js ''AT+CIND?'', no_options)]) \<and>
    (case snd (run_script (indicators None) (Inr ls # rs)) of Returned result \<Rightarrow> fst result = descriptors | _ \<Rightarrow> True)"
  by (auto simp: cache_after_def ensureIndicatorDescriptors_def indicators_def run_script_bind
      split: script_result.split list.split sum.split)

end
