(* ===== verification/At_Profile.thy ===== *)
theory At_Profile imports At_Query begin

text \<open>
  \<^verbatim>\<open>packages/core/src/protocols/at/profile.ts\<close>: the generic profile, its initialization commands, the prefixes
  of unsolicited results and the time limits of commands, in the order of the source: a limit is that of the
  first prefix that fits.
\<close>

definition generic_initCommands :: "jstr list" where
  "generic_initCommands =
     [js ''ATE1'', js ''AT+CMEE=1'', js ''AT+CMGF=0'', js ''AT+CNMI=2,1,0,0,0'', js ''AT+CREG=1'',
      js ''AT+CGREG=1'', js ''AT+CEREG=1'', js ''AT+CLIP=1'', js ''AT+CRC=1'', js ''AT+CSSN=1,1'',
      js ''AT+CMER=3,0,0,1,0'']"

definition generic_urcPrefixes :: "jstr list" where
  "generic_urcPrefixes =
     [js ''+CMTI'', js ''+CMT'', js ''+CDSI'', js ''+CDS'', js ''RING'', js ''+CRING'', js ''+CLIP'',
      js ''NO CARRIER'', js ''BUSY'', js ''+CREG'', js ''+CGREG'', js ''+CEREG'', js ''+CSSI'', js ''+CSSU'',
      js ''+CNAP'', js ''+CIEV'', js ''+CTZV'', js ''+CTZE'', js ''+CGEV'', js ''+CEDRXP'', js ''+CSCON'',
      js ''+CUSD'', js ''+CPIN'']"

definition generic_table :: "(string \<times> nat) list" where
  "generic_table =
     [(''ATD'', 60000), (''AT+COPS=?'', 120000), (''AT+COPS='', 90000), (''AT+CMGS'', 30000),
      (''AT+CUSD'', 30000), (''AT+CGACT'', 60000), (''AT+CFUN'', 15000), (''AT+CPIN'', 10000), (''ATE'', 3000),
      (''AT+CMEE'', 3000), (''AT+CMGF'', 3000), (''AT+CNMI'', 5000), (''AT+CREG='', 5000),
      (''AT+CGREG='', 5000), (''AT+CEREG='', 5000), (''AT+CLIP'', 3000), (''AT+CRC'', 3000),
      (''AT+CSSN'', 3000), (''AT+CMER'', 3000), (''AT+CGMI'', 3000), (''AT+CGMM'', 3000), (''AT+CGMR'', 3000),
      (''AT+CGSN'', 3000), (''AT+CSQ'', 5000), (''AT+CREG?'', 5000), (''AT+CGREG?'', 5000),
      (''AT+CEREG?'', 5000), (''AT+CESQ'', 5000), (''AT+COPN'', 10000), (''AT+CPOL'', 5000),
      (''AT+COPS?'', 5000), (''AT+CPINR'', 5000), (''AT+CLCK'', 15000), (''AT+CPWD'', 5000),
      (''AT+CSCS'', 3000), (''AT+CLIR'', 5000), (''AT+CCFC'', 15000), (''AT+CCWA'', 15000),
      (''AT+CHLD'', 5000), (''AT+CPAS'', 3000), (''AT+WS46'', 5000), (''AT+CIND'', 5000), (''AT+CCLK'', 3000),
      (''AT+CTZU'', 3000), (''AT+CTZR'', 3000), (''AT+CPBS'', 3000), (''AT+CPBR'', 5000), (''AT+CPBF'', 5000),
      (''AT+CPBW'', 5000), (''AT+CGCONTRDP'', 5000), (''AT+CGAUTH'', 5000), (''AT+CGEREP'', 3000),
      (''AT+CGCMOD'', 60000), (''AT+CPSMS'', 5000), (''AT+CEDRXS'', 5000), (''AT+CEDRXRDP'', 5000),
      (''AT+CSCON'', 3000), (''AT+CBC'', 3000), (''AT+CGEQOS'', 5000), (''AT+CGEQOSRDP'', 5000),
      (''AT+CEMODE'', 5000)]"

definition generic_commandTimeouts :: "(jstr \<times> nat) list" where
  "generic_commandTimeouts = map (\<lambda>(prefix, t). (js prefix, t)) generic_table"

definition generic_options :: channel_options where
  "generic_options = \<lparr>urcPrefixes_opt = generic_urcPrefixes, defaultTimeout_opt = Some 10000,
     commandTimeouts_opt = generic_commandTimeouts, maxQueueSize_opt = None, threshold_opt = None\<rparr>"

section \<open>Time limits\<close>

text \<open>The lookup on strings of characters, which evaluates faster than the one on code units.\<close>

definition string_limit :: "(string \<times> nat) list \<Rightarrow> string \<Rightarrow> nat" where
  "string_limit table cmd = (case find (\<lambda>(prefix, t). take (length prefix) cmd = prefix) table of Some (prefix, t) \<Rightarrow> t | None \<Rightarrow> 10000)"

definition no_lower :: "string \<Rightarrow> bool" where
  "no_lower s \<longleftrightarrow> list_all (\<lambda>c. \<not> (97 \<le> (of_char c :: nat) \<and> of_char c \<le> (122 :: nat))) s"

lemma toUpper_no_lower: "no_lower s \<Longrightarrow> js_toUpper (js s) = js s"
  by (induction s) (auto simp: no_lower_def js_def js_toUpper_def js_upper1_def)

lemma startsWith_js: "js_startsWith (js s) (js p) \<longleftrightarrow> take (length p) s = p"
  by (simp add: js_startsWith_def js_def take_map) (simp add: inj_map_eq_map [OF inj_of_char])

lemma limit_string:
  assumes "commandTimeouts ch = map (\<lambda>(prefix, t). (js prefix, t)) table" "defaultTimeout ch = 10000"
    and "list_all (\<lambda>e. no_lower (fst e)) table" "no_lower cmd"
  shows "resolveTimeout ch (js cmd) = string_limit table cmd"
proof -
  have "find (\<lambda>(prefix, t). js_startsWith (js_toUpper (js cmd)) (js_toUpper prefix)) (map (\<lambda>(prefix, t). (js prefix, t)) table) =
      map_option (\<lambda>(prefix, t). (js prefix, t)) (find (\<lambda>(prefix, t). take (length prefix) cmd = prefix) table)"
    using assms(3) by (induction table) (auto simp: toUpper_no_lower assms(4) startsWith_js)
  then show ?thesis
    unfolding resolveTimeout_def string_limit_def assms(1,2) by (auto split: option.splits)
qed

lemma generic_table_upper: "list_all (\<lambda>e. no_lower (fst e)) generic_table"
  by (simp add: generic_table_def no_lower_def)

lemma limits:
  "string_limit generic_table ''ATE1'' = 3000"
  "string_limit generic_table ''AT+CMEE=1'' = 3000"
  "string_limit generic_table ''AT+CMGF=0'' = 3000"
  "string_limit generic_table ''AT+CNMI=2,1,0,0,0'' = 5000"
  "string_limit generic_table ''AT+CREG=1'' = 5000"
  "string_limit generic_table ''AT+CGREG=1'' = 5000"
  "string_limit generic_table ''AT+CEREG=1'' = 5000"
  "string_limit generic_table ''AT+CLIP=1'' = 3000"
  "string_limit generic_table ''AT+CRC=1'' = 3000"
  "string_limit generic_table ''AT+CSSN=1,1'' = 3000"
  "string_limit generic_table ''AT+CMER=3,0,0,1,0'' = 3000"
  "string_limit generic_table ''AT+COPS=?'' = 120000"
  "string_limit generic_table ''AT+COPS=0'' = 90000"
  "string_limit generic_table ''AT+COPS?'' = 5000"
  "string_limit generic_table ''AT+CPINR'' = 10000"
  by (simp_all add: string_limit_def generic_table_def)

definition own_limit :: "string \<times> nat \<Rightarrow> bool" where
  "own_limit e \<longleftrightarrow> string_limit generic_table (fst e) = (if fst e = ''AT+CPINR'' then 10000 else snd e)"

lemma table_limits: "list_all own_limit generic_table"
  by (subst generic_table_def, simp only: list.pred_inject own_limit_def fst_conv snd_conv, intro conjI)
    (simp_all add: string_limit_def generic_table_def)

lemma generic_limit:
  assumes "no_lower cmd"
  shows "resolveTimeout (new_channel generic_options) (js cmd) = string_limit generic_table cmd"
  by (rule limit_string) (simp_all add: new_channel_def generic_options_def generic_commandTimeouts_def or_else_def
      generic_table_upper assms)

text \<open>Under the generic profile a command of the table gets the time limit that the table states
  for it, with one exception: \<open>AT+CPINR\<close> is caught by the entry of \<open>AT+CPIN\<close> before its own and waits twice as
  long as stated. No initialization command waits longer than five seconds.
\<close>

theorem generic_timeouts:
  "filter (\<lambda>(prefix, t). resolveTimeout (new_channel generic_options) prefix \<noteq> t) generic_commandTimeouts =
     [(js ''AT+CPINR'', 5000)] \<and>
   resolveTimeout (new_channel generic_options) (js ''AT+CPINR'') = 10000 \<and>
   list_all (\<lambda>cmd. resolveTimeout (new_channel generic_options) cmd \<le> 5000) generic_initCommands"
proof (intro conjI)
  have "filter (\<lambda>(prefix, t). resolveTimeout (new_channel generic_options) prefix \<noteq> t) (map (\<lambda>(prefix, t). (js prefix, t)) table) =
      map (\<lambda>(prefix, t). (js prefix, t)) (filter (\<lambda>e. fst e = ''AT+CPINR'' \<and> snd e \<noteq> 10000) table)"
    if "list_all own_limit table" "list_all (\<lambda>e. no_lower (fst e)) table" for table
    using that by (induction table) (auto simp: generic_limit own_limit_def split: if_splits)
  moreover have "filter (\<lambda>e. fst e = ''AT+CPINR'' \<and> snd e \<noteq> 10000) generic_table = [(''AT+CPINR'', 5000)]"
    by (simp add: generic_table_def)
  ultimately show "filter (\<lambda>(prefix, t). resolveTimeout (new_channel generic_options) prefix \<noteq> t) generic_commandTimeouts =
     [(js ''AT+CPINR'', 5000)]"
    using table_limits generic_table_upper by (simp add: generic_commandTimeouts_def)
  have upper: "list_all no_lower [''ATE1'', ''AT+CMEE=1'', ''AT+CMGF=0'', ''AT+CNMI=2,1,0,0,0'', ''AT+CREG=1'', ''AT+CGREG=1'',
      ''AT+CEREG=1'', ''AT+CLIP=1'', ''AT+CRC=1'', ''AT+CSSN=1,1'', ''AT+CMER=3,0,0,1,0'', ''AT+CPINR'']"
    by (simp add: no_lower_def)
  then show "resolveTimeout (new_channel generic_options) (js ''AT+CPINR'') = 10000"
    by (simp add: generic_limit limits)
  show "list_all (\<lambda>cmd. resolveTimeout (new_channel generic_options) cmd \<le> 5000) generic_initCommands"
    using upper by (simp add: generic_initCommands_def generic_limit limits)
qed

end
