(* ===== verification/At_Urc.thy ===== *)
theory At_Urc imports At_Network At_Device begin

text \<open>
  \<^verbatim>\<open>packages/core/src/protocols/at/urc-handlers.ts\<close>: what the handlers of unsolicited results emit. Their state
  is the number of the last calling line identification. A result runs the handler of its prefix, if there is
  one, and then the catch-all handler, as the channel dispatches them. The vendor's interpreter of messages
  is an argument; its events are passed on. The cache of the indicator descriptors belongs to the device
  module.
\<close>

section \<open>Events\<close>

datatype urc_call_state = Ev_Incoming | Ev_Ended | Ev_Vendor jstr
datatype end_reason = Reason_Hangup | Reason_Busy | Reason_No_Answer | Reason_No_Dialtone

record call_event =
  ev_state :: urc_call_state
  ev_incoming :: bool
  ev_number :: "jstr option"
  ev_caller :: "jstr option"
  ev_reason :: "end_reason option"

datatype mo_notification = Forwarding_Active | Conditional_Forwarding_Active | Call_Forwarded | Call_Is_Waiting
  | Outgoing_Barred | Incoming_Barred | Clir_Rejected | Call_Deflected
datatype mt_notification = Forwarded_Call | Held_By_Remote | Retrieved_By_Remote | Multiparty_Entered
  | Held_Call_Released | Ect_Connecting | Ect_Connected | Deflected_Call | Additional_Forwarded

datatype urc_sim_state = Usim_Ready | Usim_Pin | Usim_Puk | Usim_Pin2 | Usim_Puk2 | Usim_Locked | Usim_Unknown
datatype sms_storage = Storage_Sim | Storage_Device | Storage_Unknown

datatype domain_event =
    Sms_Received sms_storage int
  | Call_State call_event
  | Mo_Supplementary mo_notification "int option"
  | Mt_Supplementary mt_notification "int option" "jstr option"
  | Network_Registration registration_info
  | Sim_State urc_sim_state
  | Indicator_Change jstr int
  | Raw_Message urc

section \<open>Expressions and tables\<close>

definition REG_URC_REGEX :: rx where
  "REG_URC_REGEX = rx_cat [rx_digits, Rx_Opt (rx_cat [rx_quoted comma, Rx_Opt (rx_cat [rx_quoted comma,
     Rx_Opt (rx_cat [Rx_Lit comma, rx_digits])])]), Rx_End]"

definition CLIP_REGEX :: rx where
  "CLIP_REGEX = rx_cat [rx_quoted [], Rx_Lit comma, rx_digits]"

definition CMTI_REGEX :: rx where
  "CMTI_REGEX = rx_cat [rx_quoted [], Rx_Lit comma, rx_digits, Rx_End]"

definition CSSI_REGEX :: rx where
  "CSSI_REGEX = rx_cat [rx_digits, Rx_Opt (rx_cat [Rx_Lit comma, rx_digits]), Rx_End]"

definition CSSU_REGEX :: rx where
  "CSSU_REGEX = rx_cat [rx_digits, Rx_Opt (rx_cat [Rx_Lit comma, rx_digits, Rx_Opt (rx_quoted comma)]), Rx_End]"

definition CIEV_REGEX :: rx where
  "CIEV_REGEX = rx_cat [rx_digits, Rx_Lit comma, rx_digits, Rx_End]"

definition STORAGE_MAP :: "(jstr \<times> sms_storage) list" where
  "STORAGE_MAP = [(js ''SM'', Storage_Sim), (js ''ME'', Storage_Device)]"

definition CPIN_STATE_MAP :: "(jstr \<times> urc_sim_state) list" where
  "CPIN_STATE_MAP = [(js ''READY'', Usim_Ready), (js ''SIM PIN'', Usim_Pin), (js ''SIM PUK'', Usim_Puk),
     (js ''SIM PIN2'', Usim_Pin2), (js ''SIM PUK2'', Usim_Puk2), (js ''PH-NET PIN'', Usim_Locked)]"

definition MO_SS_MAP :: "(int \<times> mo_notification) list" where
  "MO_SS_MAP = [(0, Forwarding_Active), (1, Conditional_Forwarding_Active), (2, Call_Forwarded), (3, Call_Is_Waiting),
     (4, Outgoing_Barred), (5, Incoming_Barred), (6, Clir_Rejected), (7, Call_Deflected)]"

definition MT_SS_MAP :: "(int \<times> mt_notification) list" where
  "MT_SS_MAP = [(0, Forwarded_Call), (2, Held_By_Remote), (3, Retrieved_By_Remote), (4, Multiparty_Entered),
     (5, Held_Call_Released), (7, Ect_Connecting), (8, Ect_Connected), (9, Deflected_Call), (10, Additional_Forwarded)]"

section \<open>Handlers\<close>

definition emit_call :: "urc_call_state \<Rightarrow> bool \<Rightarrow> jstr option \<Rightarrow> jstr option \<Rightarrow> end_reason option \<Rightarrow> domain_event" where
  "emit_call state_of incoming number caller reason =
     Call_State \<lparr>ev_state = state_of, ev_incoming = incoming, ev_number = number, ev_caller = caller, ev_reason = reason\<rparr>"

definition on_cmti :: "jstr \<Rightarrow> domain_event list" where
  "on_cmti body =
     (case rx_at_start CMTI_REGEX body of
        Some [Some storageCode, Some index] \<Rightarrow>
          [Sms_Received (or_else (map_of STORAGE_MAP storageCode) Storage_Unknown) (decimal index)]
      | _ \<Rightarrow> [])"

definition emitRegistrationUrc :: "jstr \<Rightarrow> domain_event list" where
  "emitRegistrationUrc body =
     (case rx_at_start REG_URC_REGEX body of
        Some [Some stat, lac, cell, act] \<Rightarrow>
          [Network_Registration
            (if nonempty lac \<noteq> None
             then \<lparr>reg_status = or_else (map_of REGISTRATION_STATUS (decimal stat)) Status_Unknown,
               reg_locationAreaCode = lac, reg_cellId = known_cell cell, reg_technology = technology_of act\<rparr>
             else \<lparr>reg_status = or_else (map_of REGISTRATION_STATUS (decimal stat)) Status_Unknown,
               reg_locationAreaCode = None, reg_cellId = None, reg_technology = None\<rparr>)]
      | _ \<Rightarrow> [])"

definition on_cssi :: "jstr \<Rightarrow> domain_event list" where
  "on_cssi body =
     (case rx_at_start CSSI_REGEX body of
        Some [Some code_of, index] \<Rightarrow>
          (case map_of MO_SS_MAP (decimal code_of) of
             None \<Rightarrow> []
           | Some notification \<Rightarrow> [Mo_Supplementary notification (map_option decimal index)])
      | _ \<Rightarrow> [])"

definition on_cssu :: "jstr \<Rightarrow> domain_event list" where
  "on_cssu body =
     (case rx_at_start CSSU_REGEX body of
        Some [Some code_of, index, number] \<Rightarrow>
          (case map_of MT_SS_MAP (decimal code_of) of
             None \<Rightarrow> []
           | Some notification \<Rightarrow> [Mt_Supplementary notification (map_option decimal index) (nonempty number)])
      | _ \<Rightarrow> [])"

definition on_ciev :: "indicator list option \<Rightarrow> jstr \<Rightarrow> domain_event list" where
  "on_ciev cache body =
     (case rx_at_start CIEV_REGEX body of
        Some [Some index, Some value] \<Rightarrow>
          (case resolveIndicatorName cache (decimal index) of
             None \<Rightarrow> []
           | Some name \<Rightarrow> [Indicator_Change name (decimal value)])
      | _ \<Rightarrow> [])"

type_synonym clip = "jstr option"

definition on_clip :: "clip \<Rightarrow> jstr \<Rightarrow> clip \<times> domain_event list" where
  "on_clip lastClip body =
     (case rx_at_start CLIP_REGEX body of
        Some (Some number # _) \<Rightarrow>
          if number = [] then (lastClip, []) else (Some number, [emit_call Ev_Incoming True (Some number) None None])
      | _ \<Rightarrow> (lastClip, []))"

definition on_cnap :: "clip \<Rightarrow> jstr \<Rightarrow> domain_event list" where
  "on_cnap lastClip body =
     (case rx_at_start (rx_quoted []) body of
        Some [Some name] \<Rightarrow> if name = [] then [] else [emit_call Ev_Incoming True lastClip (Some name) None]
      | _ \<Rightarrow> [])"

definition prefix_handler :: "indicator list option \<Rightarrow> clip \<Rightarrow> urc \<Rightarrow> clip \<times> domain_event list" where
  "prefix_handler cache lastClip u =
     (let p = urc_prefix u; body = urc_body u
      in if p = js ''+CMTI'' then (lastClip, on_cmti body)
         else if p = js ''RING'' then (None, [emit_call Ev_Incoming True None None None])
         else if p = js ''+CLIP'' then on_clip lastClip body
         else if p = js ''NO CARRIER''
         then (None, [emit_call Ev_Ended (lastClip \<noteq> None) lastClip None (Some Reason_Hangup)])
         else if p = js ''+CREG'' \<or> p = js ''+CEREG'' then (lastClip, emitRegistrationUrc body)
         else if p = js ''BUSY'' then (None, [emit_call Ev_Ended False None None (Some Reason_Busy)])
         else if p = js ''NO ANSWER'' then (None, [emit_call Ev_Ended False None None (Some Reason_No_Answer)])
         else if p = js ''NO DIALTONE'' then (None, [emit_call Ev_Ended False None None (Some Reason_No_Dialtone)])
         else if p = js ''+CPIN''
         then (lastClip, [Sim_State (or_else (map_of CPIN_STATE_MAP (js_trim body)) Usim_Unknown)])
         else if p = js ''+CSSI'' then (lastClip, on_cssi body)
         else if p = js ''+CSSU'' then (lastClip, on_cssu body)
         else if p = js ''+CNAP'' then (lastClip, on_cnap lastClip body)
         else if p = js ''+CIEV'' then (lastClip, on_ciev cache body)
         else (lastClip, []))"

definition catch_all :: "(urc \<Rightarrow> domain_event option) option \<Rightarrow> urc \<Rightarrow> domain_event list" where
  "catch_all interpretMessage u =
     (case interpretMessage of
        None \<Rightarrow> []
      | Some f \<Rightarrow> (case f u of None \<Rightarrow> [] | Some e \<Rightarrow> [e])) @ [Raw_Message u]"

definition handle_urc ::
  "indicator list option \<Rightarrow> (urc \<Rightarrow> domain_event option) option \<Rightarrow> clip \<Rightarrow> urc \<Rightarrow> clip \<times> domain_event list" where
  "handle_urc cache interpretMessage lastClip u =
     (let (clip', events) = prefix_handler cache lastClip u in (clip', events @ catch_all interpretMessage u))"

fun handle_urcs ::
  "indicator list option \<Rightarrow> (urc \<Rightarrow> domain_event option) option \<Rightarrow> clip \<Rightarrow> urc list \<Rightarrow> clip \<times> domain_event list" where
  "handle_urcs cache f c [] = (c, [])"
| "handle_urcs cache f c (u # us) =
     (let (c', events) = handle_urc cache f c u; (c'', rest) = handle_urcs cache f c' us in (c'', events @ rest))"

section \<open>Calls\<close>

definition plain_urc :: "string \<Rightarrow> urc" where
  "plain_urc s = \<lparr>urc_prefix = js s, urc_body = [], urc_raw = js s\<rparr>"

definition clip_urc :: "jstr \<Rightarrow> nat \<Rightarrow> urc" where
  "clip_urc number type =
     (let body = quoted number @ comma @ js_toString 10 type
      in \<lparr>urc_prefix = js ''+CLIP'', urc_body = body, urc_raw = js ''+CLIP: '' @ body\<rparr>)"

lemma clip_printed:
  assumes "34 \<notin> set number"
  shows "rx_at_start CLIP_REGEX (urc_body (clip_urc number type)) = Some [Some number, Some (js_toString 10 type)]"
proof -
  have "rx_first CLIP_REGEX (urc_body (clip_urc number type)) = Some ([Some number, Some (js_toString 10 type)], [])"
    using assms by (simp add: CLIP_REGEX_def clip_urc_def Let_def quoted_def rx_eval rx_number js_def)
  then show ?thesis by (simp add: rx_at_start_def)
qed

text \<open>The events of calls among all events.\<close>

definition call_events :: "domain_event list \<Rightarrow> call_event list" where
  "call_events es = List.map_filter (\<lambda>e. case e of Call_State c \<Rightarrow> Some c | _ \<Rightarrow> None) es"

definition ringing :: "jstr \<Rightarrow> nat \<Rightarrow> urc list" where
  "ringing number clips = plain_urc ''RING'' # replicate clips (clip_urc number 145) @ [plain_urc ''NO CARRIER'']"

definition rings :: "jstr option \<Rightarrow> call_event" where
  "rings n = \<lparr>ev_state = Ev_Incoming, ev_incoming = True, ev_number = n, ev_caller = None, ev_reason = None\<rparr>"

definition ends :: "bool \<Rightarrow> jstr option \<Rightarrow> call_event" where
  "ends incoming n = \<lparr>ev_state = Ev_Ended, ev_incoming = incoming, ev_number = n, ev_caller = None, ev_reason = Some Reason_Hangup\<rparr>"

lemma call_events_simps:
  "call_events [] = []" "call_events (Call_State e # es) = e # call_events es"
  "call_events (Raw_Message u # es) = call_events es" "call_events (xs @ ys) = call_events xs @ call_events ys"
  by (simp_all add: call_events_def List.map_filter_def)

lemma call_events_repeated:
  "call_events (replicate n (Raw_Message u)) = []"
  "call_events (concat (replicate n [Raw_Message u])) = []"
  "call_events (concat (replicate n [Call_State e, Raw_Message u])) = replicate n e"
  by (induction n) (simp_all add: call_events_simps)

lemma urc_of_calls:
  "handle_urc cache None c (plain_urc ''RING'') = (None, [Call_State (rings None), Raw_Message (plain_urc ''RING'')])"
  "handle_urc cache None c (plain_urc ''NO CARRIER'') = (None, [Call_State (ends (c \<noteq> None) c), Raw_Message (plain_urc ''NO CARRIER'')])"
  by (simp_all add: handle_urc_def prefix_handler_def plain_urc_def catch_all_def emit_call_def rings_def ends_def Let_def)

lemma urc_of_clip:
  assumes "34 \<notin> set number"
  shows "handle_urc cache None c (clip_urc number 145) =
      (if number = [] then (c, [Raw_Message (clip_urc number 145)])
       else (Some number, [Call_State (rings (Some number)), Raw_Message (clip_urc number 145)]))"
  using clip_printed [OF assms, of 145]
  by (simp add: handle_urc_def prefix_handler_def on_clip_def catch_all_def emit_call_def rings_def Let_def clip_urc_def)

text \<open>A call that rings, shows its number any number of times and ends is reported incoming at
  every step and with its number; when the caller withholds the number the same call ends as an outgoing one.
  The state left behind is the same in both cases, whatever came before.
\<close>

theorem incoming_call_reported:
  assumes "34 \<notin> set number"
  shows "fst (handle_urcs cache None before (ringing number clips)) = None \<and>
    call_events (snd (handle_urcs cache None before (ringing number clips))) =
      (if clips = 0 \<or> number = [] then [rings None, ends False None]
       else rings None # replicate clips (rings (Some number)) @ [ends True (Some number)])"
proof -
  note clip = urc_of_clip [OF assms]
  have clips: "handle_urcs cache None c (replicate n (clip_urc number 145) @ us) =
      (let (c', es) = handle_urcs cache None (if n = 0 \<or> number = [] then c else Some number) us
       in (c', concat (replicate n (snd (handle_urc cache None c (clip_urc number 145)))) @ es))" for c n us
  proof (induction n arbitrary: c)
    case (Suc n)
    then show ?case by (auto simp: clip split_beta Let_def)
  qed simp
  show ?thesis
    unfolding ringing_def
    by (simp add: urc_of_calls clips clip Let_def split_beta call_events_simps call_events_repeated)
qed

lemma incoming_call_reported_witness:
  "call_events (snd (handle_urcs None None None [plain_urc ''RING'', plain_urc ''NO CARRIER''])) = [rings None, ends False None]"
  using incoming_call_reported [of "[]" None None 0] by (simp add: ringing_def)

end
