(* ===== verification/At_Adapter.thy ===== *)
theory At_Adapter imports At_Sim Service_Router begin

text \<open>
  \<^verbatim>\<open>packages/core/src/protocols/at/index.ts\<close>: the initialization of the AT adapter. The probe repeats a bare
  \<open>AT\<close>, then the commands of the profile are sent in a row, each error is reported and skipped, and three
  time-outs in a row end the sequence. The result is what the initialization leaves behind: the marks on the SIM
  module and on the channel, and the errors handed to \<open>onError\<close> in order. The pauses between the attempts, the
  progress messages, and the calls that open, close and reset the transport are left out.
\<close>

section \<open>Initialization\<close>

record init_result =
  init_absent :: bool
  init_unresponsive :: bool
  init_errors :: "(jstr \<times> cellary_error) list"

fun sim_not_inserted :: "cellary_error \<Rightarrow> bool" where
  "sim_not_inserted (ATError cmd (CmeError code_of msg)) = (code_of = 10)"
| "sim_not_inserted _ = False"

fun is_timeout :: "cellary_error \<Rightarrow> bool" where
  "is_timeout (TimeoutError cmd ms) = True"
| "is_timeout _ = False"

definition MAX_CONSECUTIVE_TIMEOUTS :: nat where
  "MAX_CONSECUTIVE_TIMEOUTS = 3"

fun init_commands :: "jstr list \<Rightarrow> nat \<Rightarrow> bool \<Rightarrow> init_result \<Rightarrow> init_result script" where
  "init_commands [] consecutive anySucceeded acc = Return acc"
| "init_commands (cmd # cmds) consecutive anySucceeded acc =
     ExecCatch cmd no_options (\<lambda>r.
       case r of
         Inr ls \<Rightarrow> init_commands cmds 0 True acc
       | Inl e \<Rightarrow>
           (let n = (if is_timeout e then Suc consecutive else 0);
                acc' = acc\<lparr>init_absent := init_absent acc \<or> sim_not_inserted e, init_errors := init_errors acc @ [(cmd, e)]\<rparr>
            in if MAX_CONSECUTIVE_TIMEOUTS \<le> n
               then Return (if anySucceeded then acc' else acc'\<lparr>init_absent := True, init_unresponsive := True\<rparr>)
               else init_commands cmds n anySucceeded acc'))"

definition MAX_ATTEMPTS :: nat where
  "MAX_ATTEMPTS = 3"

definition attempt_name :: "nat \<Rightarrow> jstr" where
  "attempt_name attempt = js ''AT probe (attempt '' @ js_show_nat attempt @ js ''/'' @ js_show_nat MAX_ATTEMPTS @ js '')''"

function probe :: "nat \<Rightarrow> (jstr \<times> cellary_error) list \<Rightarrow> (jstr \<times> cellary_error) list script" where
  "probe attempt errors =
     ExecCatch (js ''AT'') (with_timeout 3000) (\<lambda>r.
       case r of
         Inr ls \<Rightarrow> Return errors
       | Inl e \<Rightarrow>
           if attempt < MAX_ATTEMPTS then probe (Suc attempt) (errors @ [(attempt_name attempt, e)])
           else Throw (TransportError (js ''Modem not responding after '' @ js_show_nat MAX_ATTEMPTS @ js '' attempts'')))"
  by pat_completeness auto

termination
  by (relation "measure (\<lambda>(attempt, _). MAX_ATTEMPTS - attempt)") auto

declare probe.simps [simp del]

definition adapter_init :: "jstr list \<Rightarrow> init_result script" where
  "adapter_init cmds =
     script_bind (probe 1 []) (\<lambda>errors.
       init_commands cmds 0 False \<lparr>init_absent = False, init_unresponsive = False, init_errors = errors\<rparr>)"

section \<open>Capabilities\<close>

definition at_capability :: "int \<Rightarrow> string \<Rightarrow> capability option" where
  "at_capability p r = Some \<lparr>cap_priority = p, cap_reason = js r\<rparr>"

fun at_serviceCapabilities :: "bool \<Rightarrow> service_name \<Rightarrow> capability option" where
  "at_serviceCapabilities hasTraffic Network = at_capability 5 ''basic signal''"
| "at_serviceCapabilities hasTraffic Sms = at_capability 10 ''3GPP standard''"
| "at_serviceCapabilities hasTraffic Sim = at_capability 10 ''3GPP standard''"
| "at_serviceCapabilities hasTraffic Device = at_capability 10 ''3GPP standard''"
| "at_serviceCapabilities hasTraffic Voice = at_capability 10 ''3GPP standard''"
| "at_serviceCapabilities hasTraffic Ussd = at_capability 8 ''no auth required''"
| "at_serviceCapabilities hasTraffic Stk = at_capability 10 ''3GPP standard''"
| "at_serviceCapabilities hasTraffic Data = at_capability 10 ''full PDP context control''"
| "at_serviceCapabilities hasTraffic Radio = at_capability 10 ''3GPP standard''"
| "at_serviceCapabilities hasTraffic Phonebook = at_capability 10 ''3GPP standard''"
| "at_serviceCapabilities hasTraffic Capabilities = at_capability 10 ''3GPP standard''"
| "at_serviceCapabilities hasTraffic Traffic = (if hasTraffic then at_capability 10 ''vendor AT command'' else None)"
| "at_serviceCapabilities hasTraffic System = None"
| "at_serviceCapabilities hasTraffic Thermal = None"

section \<open>The cascade of time-outs\<close>

text \<open>How many of the last responses are time-outs, whether any was a success, and which errors were met.\<close>

definition timed_out :: "device_response \<Rightarrow> bool" where
  "timed_out r = (case r of Inl e \<Rightarrow> is_timeout e | Inr ls \<Rightarrow> False)"

definition trailing_timeouts :: "device_response list \<Rightarrow> nat" where
  "trailing_timeouts rs = length (takeWhile timed_out (rev rs))"

definition any_success :: "device_response list \<Rightarrow> bool" where
  "any_success rs = list_ex (\<lambda>r. \<not> isl r) rs"

definition absent_reported :: "device_response list \<Rightarrow> bool" where
  "absent_reported rs = list_ex (\<lambda>r. case r of Inl e \<Rightarrow> sim_not_inserted e | Inr ls \<Rightarrow> False) rs"

definition errors_of :: "jstr list \<Rightarrow> device_response list \<Rightarrow> (jstr \<times> cellary_error) list" where
  "errors_of cmds rs = List.map_filter (\<lambda>(cmd, r). case r of Inl e \<Rightarrow> Some (cmd, e) | Inr ls \<Rightarrow> None) (zip cmds rs)"

lemma trailing_snoc: "trailing_timeouts (rs @ [r]) = (if timed_out r then Suc (trailing_timeouts rs) else 0)"
  by (simp add: trailing_timeouts_def)

definition cascade :: "device_response list \<Rightarrow> bool" where
  "cascade rs \<longleftrightarrow> 3 \<le> trailing_timeouts rs"

lemma init_commands_run:
  assumes "length rs = length cmds" and "\<not> cascade before"
  shows "\<exists>k. k \<le> length cmds \<and>
    run_script (init_commands cmds (trailing_timeouts before) (any_success before) acc) (rs @ rest) =
      (map (\<lambda>c. (c, no_options)) (take k cmds),
       Returned (let down = cascade (before @ take k rs) \<and> \<not> any_success (before @ take k rs)
         in \<lparr>init_absent = init_absent acc \<or> absent_reported (take k rs) \<or> down,
             init_unresponsive = init_unresponsive acc \<or> down, init_errors = init_errors acc @ errors_of cmds (take k rs)\<rparr>)) \<and>
    (\<forall>j < k. \<not> cascade (before @ take j rs)) \<and> (k < length cmds \<longrightarrow> cascade (before @ take k rs))"
  using assms
proof (induction cmds arbitrary: rs before acc)
  case Nil
  then show ?case by (cases acc) (simp add: absent_reported_def errors_of_def List.map_filter_simps)
next
  case (Cons cmd cmds)
  then obtain r rs' where rs: "rs = r # rs'" "length rs' = length cmds" by (cases rs) auto
  let ?b = "before @ [r]"
  let ?absent = "case r of Inl e \<Rightarrow> sim_not_inserted e | Inr ls \<Rightarrow> False"
  let ?errors = "case r of Inl e \<Rightarrow> [(cmd, e)] | Inr ls \<Rightarrow> []"
  let ?acc = "acc\<lparr>init_absent := init_absent acc \<or> ?absent, init_errors := init_errors acc @ ?errors\<rparr>"
  have success: "any_success ?b = (any_success before \<or> \<not> isl r)" by (simp add: any_success_def)
  have trailing: "trailing_timeouts ?b = (case r of Inl e \<Rightarrow> if is_timeout e then Suc (trailing_timeouts before) else 0 | Inr ls \<Rightarrow> 0)"
    by (auto simp: trailing_snoc timed_out_def split: sum.split)
  have parts: "absent_reported (r # xs) = (?absent \<or> absent_reported xs)" "errors_of (cmd # cmds) (r # xs) = ?errors @ errors_of cmds xs" for xs
    by (auto simp: absent_reported_def errors_of_def List.map_filter_simps split: sum.split)
  show ?case
  proof (cases "cascade ?b")
    case True
    then obtain e where e: "r = Inl e" "is_timeout e" "3 \<le> Suc (trailing_timeouts before)"
      unfolding cascade_def trailing by (auto split: sum.splits if_splits)
    have run: "run_script (init_commands (cmd # cmds) (trailing_timeouts before) (any_success before) acc) (rs @ rest) =
        ([(cmd, no_options)], Returned (if any_success before then ?acc else ?acc\<lparr>init_absent := True, init_unresponsive := True\<rparr>))"
      using e rs by (simp add: MAX_CONSECUTIVE_TIMEOUTS_def Let_def)
    show ?thesis
      by (rule exI [of _ 1]) (use True run rs e Cons.prems(2) parts [of "[]"] success in
        \<open>auto simp: Let_def absent_reported_def [of "[]"] errors_of_def [of _ "[]"] List.map_filter_simps intro: init_result.equality\<close>)
  next
    case False
    have step: "run_script (init_commands (cmd # cmds) (trailing_timeouts before) (any_success before) acc) (rs @ rest) =
        (let (cmds', res) = run_script (init_commands cmds (trailing_timeouts ?b) (any_success ?b) ?acc) (rs' @ rest) in ((cmd, no_options) # cmds', res))"
      using False rs success unfolding cascade_def trailing
      by (cases r) (auto simp: MAX_CONSECUTIVE_TIMEOUTS_def Let_def)
    from Cons.IH [OF rs(2) False, of ?acc] obtain k where k: "k \<le> length cmds"
      "run_script (init_commands cmds (trailing_timeouts ?b) (any_success ?b) ?acc) (rs' @ rest) =
        (map (\<lambda>c. (c, no_options)) (take k cmds),
         Returned (let down = cascade (?b @ take k rs') \<and> \<not> any_success (?b @ take k rs')
           in \<lparr>init_absent = init_absent ?acc \<or> absent_reported (take k rs') \<or> down,
               init_unresponsive = init_unresponsive ?acc \<or> down, init_errors = init_errors ?acc @ errors_of cmds (take k rs')\<rparr>))"
      "\<forall>j < k. \<not> cascade (?b @ take j rs')" "k < length cmds \<longrightarrow> cascade (?b @ take k rs')" by blast
    have less: "\<not> cascade (before @ take j (r # rs'))" if "j < Suc k" for j
      using that k(3) Cons.prems(2) False by (cases j) auto
    show ?thesis
      unfolding step k(2) by (rule exI [of _ "Suc k"]) (use k less in \<open>simp add: rs parts Let_def\<close>)
  qed
qed

lemma probe_run:
  "run_script (probe 1 []) (Inr ls # rs) = ([(js ''AT'', with_timeout 3000)], Returned [])"
  "run_script (probe 1 []) (Inl e1 # Inr ls # rs) =
    ([(js ''AT'', with_timeout 3000), (js ''AT'', with_timeout 3000)], Returned [(attempt_name 1, e1)])"
  "run_script (probe 1 []) (Inl e1 # Inl e2 # Inr ls # rs) =
    (replicate 3 (js ''AT'', with_timeout 3000), Returned [(attempt_name 1, e1), (attempt_name 2, e2)])"
  "run_script (probe 1 []) (Inl e1 # Inl e2 # Inl e3 # rs) =
    (replicate 3 (js ''AT'', with_timeout 3000), Thrown (TransportError (js ''Modem not responding after 3 attempts'')))"
  by (simp_all add: probe.simps MAX_ATTEMPTS_def js_show_nat_def numeral_3_eq_3 numeral_2_eq_2 js_def)

text \<open>C20: Once the probe has an answer the initialization ends without an error, after the commands up
  to and including the first three time-outs in a row. Every failed command is reported, in order. The channel is
  marked unresponsive exactly when these time-outs come before any success, and the card absent then or when a
  command reported it missing.
\<close>

theorem init_cascade:
  assumes "length rs = length cmds"
  shows "\<exists>k. run_script (adapter_init cmds) (Inr ls # rs) =
      ((js ''AT'', with_timeout 3000) # map (\<lambda>c. (c, no_options)) (take k cmds),
       Returned \<lparr>init_absent = absent_reported (take k rs) \<or> cascade (take k rs) \<and> \<not> any_success (take k rs),
         init_unresponsive = (cascade (take k rs) \<and> \<not> any_success (take k rs)), init_errors = errors_of cmds (take k rs)\<rparr>) \<and>
    k \<le> length cmds \<and> (\<forall>j < k. \<not> cascade (take j rs)) \<and> (k < length cmds \<longrightarrow> cascade (take k rs))"
proof -
  have start: "\<not> cascade []" "trailing_timeouts [] = 0" "any_success [] = False"
    by (simp_all add: cascade_def trailing_timeouts_def any_success_def)
  let ?acc = "\<lparr>init_absent = False, init_unresponsive = False, init_errors = []\<rparr>"
  from init_commands_run [OF assms start(1), of ?acc "[]"] obtain k where k: "k \<le> length cmds"
    "run_script (init_commands cmds 0 False ?acc) rs =
      (map (\<lambda>c. (c, no_options)) (take k cmds),
       Returned (let down = cascade (take k rs) \<and> \<not> any_success (take k rs)
         in \<lparr>init_absent = absent_reported (take k rs) \<or> down, init_unresponsive = down, init_errors = errors_of cmds (take k rs)\<rparr>))"
    "\<forall>j < k. \<not> cascade (take j rs)" "k < length cmds \<longrightarrow> cascade (take k rs)"
    by (auto simp: start)
  show ?thesis
    by (rule exI [of _ k]) (use k in \<open>simp add: adapter_init_def run_script_bind probe_run [unfolded One_nat_def] Let_def\<close>)
qed

lemma init_cascade_witness:
  "run_script (adapter_init [js ''ATE1'', js ''AT+CMEE=1'', js ''AT+CMGF=0'', js ''AT+CREG=1''])
      [Inr [], Inl (TimeoutError [] 1), Inl (TimeoutError [] 1), Inl (TimeoutError [] 1), Inr []] =
    ((js ''AT'', with_timeout 3000) # map (\<lambda>c. (c, no_options)) [js ''ATE1'', js ''AT+CMEE=1'', js ''AT+CMGF=0''],
     Returned \<lparr>init_absent = True, init_unresponsive = True,
       init_errors = map (\<lambda>c. (c, TimeoutError [] 1)) [js ''ATE1'', js ''AT+CMEE=1'', js ''AT+CMGF=0'']\<rparr>)"
proof -
  let ?cmds = "[js ''ATE1'', js ''AT+CMEE=1'', js ''AT+CMGF=0'', js ''AT+CREG=1'']"
  let ?t = "Inl (TimeoutError [] 1) :: device_response" let ?rs = "[?t, ?t, ?t, Inr []]"
  have "length ?rs = length ?cmds" by simp
  from init_cascade [OF this, of "[]"] obtain k where k: "\<forall>j < k. \<not> cascade (take j ?rs)" "k < length ?cmds \<longrightarrow> cascade (take k ?rs)"
      "run_script (adapter_init ?cmds) (Inr [] # ?rs) =
      ((js ''AT'', with_timeout 3000) # map (\<lambda>c. (c, no_options)) (take k ?cmds),
       Returned \<lparr>init_absent = absent_reported (take k ?rs) \<or> cascade (take k ?rs) \<and> \<not> any_success (take k ?rs),
         init_unresponsive = (cascade (take k ?rs) \<and> \<not> any_success (take k ?rs)), init_errors = errors_of ?cmds (take k ?rs)\<rparr>)"
    by (elim exE conjE)
  have three: "cascade (take 3 ?rs)" by (simp add: cascade_def trailing_timeouts_def timed_out_def)
  then have "\<not> 3 < k" using k(1) by blast
  moreover have "\<not> cascade (take j ?rs)" if "j < 3" for j
  proof -
    from that have "j = 0 \<or> j = 1 \<or> j = 2" by arith
    then show ?thesis by (elim disjE) (simp_all add: cascade_def trailing_timeouts_def timed_out_def numeral_2_eq_2)
  qed
  then have "\<not> k < 3" using k(2) by auto
  ultimately have "k = 3" by simp
  then show ?thesis
    using k(3) three by (simp add: any_success_def absent_reported_def errors_of_def List.map_filter_simps)
qed

end
