(* ===== verification/Spec2Isabelle.thy ===== *)
theory Spec2Isabelle imports At_Channel_Queue Sms_Service_Props Lifecycle_Navigator_Props Timer_Encoding Adb_Wire_Race Service_Router
  Fleet_Pool_Retries Fleet_Waits Frame_Fix Rndis Reconnect Daemon_Leases Daemon_Clients
  At_Network_Props At_Sim At_Phonebook At_Voice At_Data_Props At_Radio_Props At_Device_Props At_Profile At_Urc At_Adapter begin

text \<open>
  Cellary controls cellular modems: \<^verbatim>\<open>packages/core\<close> speaks AT commands, ADB and HTTP with a device,
  \<^verbatim>\<open>packages/daemon\<close> shares the devices of a host among clients, and \<^verbatim>\<open>packages/cli\<close> is a client of both. This
  development models the logic of the first two. Paths below are relative to \<^verbatim>\<open>src/packages/core/src\<close> where
  they do not name another package.

  \<^bold>\<open>Conventions.\<close> A JavaScript string is a \<open>jstr\<close>, the list of its UTF-16 code units; \<open>js ''...''\<close> is a literal.
  Numbers that the code only computes with as integers are \<open>int\<close> or \<open>nat\<close>; where \<open>NaN\<close> can arise they are
  \<open>jsnum\<close>, and bytes and 32-bit sums are words. A thrown exception or a rejected promise is \<open>Inl\<close> of a sum, an
  error being a \<open>cellary_error\<close> with the fields of its class (\<open>Errors\<close>). An absent value is \<open>None\<close>. A \<open>Map\<close> whose
  order is observable is an association list without duplicates. An object that reacts to events is a record
  with one step function per method or callback, which returns the new record and a list of outputs: the calls
  it makes on its environment in order. Runs over lists of events are \<open>mrun\<close> (\<open>Machines\<close>), where the locales
  \<open>machine\<close> and \<open>simulation\<close> give induction over runs and refinement. An asynchronous method that sends one
  command after another is a \<open>script\<close> (\<open>Script\<close>), played against the responses of a device by \<open>run_script\<close>.
  Timers, randomness and the clock are events or arguments. Loops of the code are structural recursion or have
  a termination proof; the two that need not end are \<open>partial_function (option)\<close>, and what is proved of them
  includes that they return. No fuel is used anywhere except for the search of the navigator, whose bound is
  the one of the code (\<open>maxSteps\<close>).

  \<^bold>\<open>Base.\<close> \<open>Prelude\<close> has the lemma collections and generic facts; \<open>Bytes\<close> words and byte strings; \<open>Machines\<close> runs;
  \<open>Regexp\<close> the regular expressions of ECMAScript with backtracking; \<open>Js_Date\<close> its dates.

  \<^bold>\<open>AT channel\<close> (\<^verbatim>\<open>protocols/at/channel/\<close>). \<open>Line_Assembler\<close> is \<^verbatim>\<open>line-assembler.ts\<close>: bytes to lines and the
  prompt. \<open>Error_Codes\<close> and \<open>At_Parser\<close> are \<^verbatim>\<open>error-codes.ts\<close> and \<^verbatim>\<open>parser.ts\<close>: what a line is in the context of
  a command. \<open>Mask\<close> is \<^verbatim>\<open>mask.ts\<close>. \<open>At_Channel\<close> is \<^verbatim>\<open>at-channel.ts\<close>: the state machine with its queue, the timer of the
  command in flight, the resynchronization after a time-out and the writes that may fail, with its invariant;
  \<open>At_Channel_Props\<close> shows that every call is settled exactly once, one command is in flight, responses survive
  any chunking and late ones are discarded; \<open>At_Channel_Queue\<close> that the engine refines a bounded queue.

  \<^bold>\<open>AT services\<close> (\<^verbatim>\<open>protocols/at/services/\<close>, \<^verbatim>\<open>protocols/at/\<close>). \<open>At_Query\<close> holds what they share. \<open>At_Network\<close>,
  \<open>At_Sim\<close>, \<open>At_Phonebook\<close>, \<open>At_Voice\<close>, \<open>At_Data\<close>, \<open>At_Radio\<close> and \<open>At_Device\<close> are the files of these names, method for
  method (the last with \<^verbatim>\<open>traffic.ts\<close>), and the theories with the suffix \<open>_Props\<close> their properties: what is written
  is read back, queries that combine several answers combine the right ones, errors of one part leave the
  others alone. \<open>Timer_Encoding\<close> is \<^verbatim>\<open>timer-encoding.ts\<close>. \<open>At_Profile\<close> is the generic profile, \<open>At_Urc\<close> the handlers
  of \<^verbatim>\<open>urc-handlers.ts\<close> with their memory of the calling number, \<open>At_Adapter\<close> the initialization in \<^verbatim>\<open>index.ts\<close>.

  \<^bold>\<open>Short messages\<close> (\<^verbatim>\<open>protocols/at/services/sms/\<close>). \<open>Gsm7\<close> has the alphabet; \<open>Pdu_Submit\<close>, \<open>Pdu_Encode_Gsm7\<close> and
  \<open>Pdu_Decode\<close> the two encoders and the decoder, with \<open>NaN\<close> where the code can compute it; \<open>Sms_Hex\<close>, \<open>Sms_Ucs2\<close>,
  \<open>Sms_Gsm7\<close> and \<open>Sms_Decoder\<close> the round trips and the decoder on arbitrary input; \<open>Sms_Service\<close> and
  \<open>Sms_Service_Props\<close> sending, listing and the assembly of concatenated messages.

  \<^bold>\<open>Lifecycle\<close> (\<^verbatim>\<open>lifecycle/\<close>). \<open>Lifecycle_Graph\<close> composes the layers of states and transitions and searches paths
  (Dijkstra); \<open>Lifecycle_Search\<close>, \<open>Lifecycle_Path\<close> and \<open>Lifecycle_Compose\<close> prove the search optimal and the composition
  right; \<open>Lifecycle_Detector\<close> finds the present state; \<open>Lifecycle_Navigator\<close> and its \<open>_Props\<close> drive a device, given as
  a world of arbitrary functions, to a state.

  \<^bold>\<open>Connections.\<close> \<open>Adb_Wire\<close> and the theories named after it are \<^verbatim>\<open>protocols/adb/\<close>: the connection, its streams,
  the shell and a race between data and the acknowledgement of a stream. \<open>Frame_Fix\<close> and \<open>Rndis\<close> are the frames and
  messages of \<^verbatim>\<open>transport/\<close>. \<open>Service_Router\<close> chooses the adapter of a service and \<open>Reconnect\<close> reopens adapters, with
  every interleaving of its loops.

  \<^bold>\<open>Fleet\<close> (\<^verbatim>\<open>discovery/observer.ts\<close>, \<^verbatim>\<open>discovery/watcher.ts\<close>, \<^verbatim>\<open>fleet/\<close>). \<open>Device_Observer\<close> makes sessions and events of what
  happens on the USB bus; \<open>Device_Observer_Props\<close> shows that the events of a device refine a protocol of three states and
  that sessions are well formed. \<open>Fleet_Pool\<close> is the pool with its pipelines: devices are objects in a store,
  a pipeline is cut at its awaits, and timers and promises that settle are events in any order. \<open>Fleet_Pool_Inv\<close>
  states its invariant, \<open>Fleet_Pool_Steps\<close> and \<open>Fleet_Pool_Machine\<close> show that every step keeps it. \<open>Fleet_Pool_Modems\<close> accounts
  for every opened modem, \<open>Fleet_Pool_Retries\<close> bounds the attempts of a failing device. \<open>Fleet_Compose\<close> runs the observer and the pool
  together, where what the pool relies on about events is derived from the observer; \<open>Fleet_Waits\<close> is
  \<^verbatim>\<open>wait-manager.ts\<close> on top of the pool. The assumption of \<open>Fleet_Pool_Modems\<close> on the order of events is \<open>orderly\<close>: a device
  appears once, none comes while a stop waits for modems to close, a restart is asked for a device without a live modem,
  and an opened modem is new, has a report, and closes once; the lemmas after the theorem show what happens otherwise.
  The composition leaves out pauses of the watcher, stops and restarts.

  \<^bold>\<open>Daemon\<close> (\<^verbatim>\<open>packages/daemon/src\<close>). \<open>Daemon_Protocol\<close> has the schemas, the codes and the policy; \<open>Lease_Registry\<close>
  leases and subscriptions; \<open>Daemon_Streams\<close> streams; \<open>Ipc_Server\<close> the framing of messages; \<open>Daemon\<close> puts them together
  as one step function over the events of all clients and devices; \<open>Daemon_Leases\<close> and \<open>Daemon_Clients\<close> show that
  leases exclude others and that nothing of a client outlives its connection.

  \<^bold>\<open>Parameters.\<close> What is not under \<^verbatim>\<open>src/\<close> is an argument: \<open>JSON.parse\<close>, the functions of vendor profiles, the device
  behind a transport, and the validator of schemas through its documented behaviour.

  \<^bold>\<open>Not modelled.\<close> Types without code; calls of the operating system, of USB and serial ports and of the TCP/IP stack
  compiled to WebAssembly; logging and the files of the audit; the command line and its terminal views, which
  only present results; the HTTP interfaces of single vendors, whose logic is in the schemas of a third-party
  package, and their tables. Lookups in literal tables are by own keys: the properties that every JavaScript
  object inherits are not entries. Left out as well are the preparation of
  devices, mode switching and provisioning, the classification of USB devices, the SIM toolkit, USSD and the client
  side of the daemon's protocol.
\<close>

end
